(* ===== verification/Prelude.thy ===== *)
theory Prelude imports Main "HOL-Library.List_Lexorder" begin

text \<open>
  What every component of the development shares: results of fallible operations as sums
  (an exception is the left value), monadic folds, Python dictionaries as association lists
  in insertion order, sums over the values of a dictionary, the weight of graph walks, and the locale \<open>replay\<close> of
  event-sourced projections, which are folds of a fallible step over a stream of events.
\<close>

named_theorems result_simps \<open>equations of the result type\<close>
named_theorems dict_simps \<open>equations of insertion-ordered dictionaries\<close>

section \<open>Fallible results\<close>

fun rbind :: "'e + 'a \<Rightarrow> ('a \<Rightarrow> 'e + 'b) \<Rightarrow> 'e + 'b" where
  "rbind (Inl e) f = Inl e"
| "rbind (Inr x) f = f x"

definition raise_if :: "bool \<Rightarrow> 'e \<Rightarrow> 'e + unit" where
  "raise_if b e = (if b then Inl e else Inr ())"

definition is_ok :: "'e + 'a \<Rightarrow> bool" where
  "is_ok r = (case r of Inl _ \<Rightarrow> False | Inr _ \<Rightarrow> True)"

lemma is_ok_simps [simp]: "is_ok (Inr x)" "\<not> is_ok (Inl e)"
  by (simp_all add: is_ok_def)

lemma is_ok_iff: "is_ok r \<longleftrightarrow> (\<exists>x. r = Inr x)"
  by (cases r) auto

lemma rbind_eq_Inr [result_simps]: "rbind r f = Inr y \<longleftrightarrow> (\<exists>x. r = Inr x \<and> f x = Inr y)"
  by (cases r) auto

lemma rbind_eq_Inl [result_simps]:
  "rbind r f = Inl e \<longleftrightarrow> r = Inl e \<or> (\<exists>x. r = Inr x \<and> f x = Inl e)"
  by (cases r) auto

lemma raise_if_eq_Inr [result_simps]: "raise_if b e = Inr u \<longleftrightarrow> \<not> b"
  by (simp add: raise_if_def)

lemma raise_if_eq_Inl [result_simps]: "raise_if b e = Inl e' \<longleftrightarrow> b \<and> e' = e"
  by (auto simp: raise_if_def)

lemma raise_if_False [simp]: "raise_if False e = Inr ()"
  by (simp add: raise_if_def)

lemma raise_if_True [simp]: "raise_if True e = Inl e"
  by (simp add: raise_if_def)

fun mapM :: "('a \<Rightarrow> 'e + 'b) \<Rightarrow> 'a list \<Rightarrow> 'e + 'b list" where
  "mapM f [] = Inr []"
| "mapM f (x # xs) = rbind (f x) (\<lambda>y. rbind (mapM f xs) (\<lambda>ys. Inr (y # ys)))"

fun foldM :: "('s \<Rightarrow> 'x \<Rightarrow> 'e + 's) \<Rightarrow> 's \<Rightarrow> 'x list \<Rightarrow> 'e + 's" where
  "foldM f s [] = Inr s"
| "foldM f s (x # xs) = rbind (f s x) (\<lambda>s'. foldM f s' xs)"

lemma foldM_append: "foldM f s (xs @ ys) = rbind (foldM f s xs) (\<lambda>s'. foldM f s' ys)"
proof (induction xs arbitrary: s)
  case (Cons x xs)
  then show ?case by (cases "f s x") simp_all
qed simp

lemma foldM_invariant:
  assumes "\<And>s x s'. I s \<Longrightarrow> f s x = Inr s' \<Longrightarrow> I s'"
    and "I s" and "foldM f s xs = Inr s'"
  shows "I s'"
  using assms(2,3)
proof (induction xs arbitrary: s)
  case (Cons x xs)
  then show ?case using assms(1) by (auto simp: result_simps)
qed simp

section \<open>Python dictionaries\<close>

text \<open>
  A dictionary is an association list with distinct keys in insertion order: \<open>d[k] = v\<close>
  keeps the position of a key that is present and appends a new one, as Python does, so
  \<open>list(d.values())\<close> is \<open>map snd d\<close>. Lookup is \<open>map_of\<close>.
\<close>

type_synonym ('k, 'v) dict = "('k \<times> 'v) list"

fun dict_set :: "'k \<Rightarrow> 'v \<Rightarrow> ('k, 'v) dict \<Rightarrow> ('k, 'v) dict" where
  "dict_set k v [] = [(k, v)]"
| "dict_set k v ((k', v') # d) = (if k' = k then (k, v) # d else (k', v') # dict_set k v d)"

fun dict_pop :: "'k \<Rightarrow> ('k, 'v) dict \<Rightarrow> ('k, 'v) dict" where
  "dict_pop k [] = []"
| "dict_pop k ((k', v') # d) = (if k' = k then d else (k', v') # dict_pop k d)"

definition dict_keys :: "('k, 'v) dict \<Rightarrow> 'k list" where
  "dict_keys d = map fst d"

definition dict_values :: "('k, 'v) dict \<Rightarrow> 'v list" where
  "dict_values d = map snd d"

definition dict_has :: "'k \<Rightarrow> ('k, 'v) dict \<Rightarrow> bool" where
  "dict_has k d = (map_of d k \<noteq> None)"

definition dict_ok :: "('k, 'v) dict \<Rightarrow> bool" where
  "dict_ok d = distinct (map fst d)"

lemma map_of_dict_set [dict_simps, simp]: "map_of (dict_set k v d) = (map_of d)(k \<mapsto> v)"
  by (induction d) (auto simp: fun_eq_iff)

lemma dict_ok_Nil [dict_simps, simp]: "dict_ok []"
  by (simp add: dict_ok_def)

lemma fst_set_dict_set: "fst ` set (dict_set k v d) = insert k (fst ` set d)"
  by (induction k v d rule: dict_set.induct) (simp_all add: insert_commute)

lemma dict_ok_set [dict_simps, simp]: "dict_ok d \<Longrightarrow> dict_ok (dict_set k v d)"
  unfolding dict_ok_def by (induction d) (auto simp: fst_set_dict_set)

lemma dict_has_set [dict_simps, simp]: "dict_has k' (dict_set k v d) \<longleftrightarrow> k' = k \<or> dict_has k' d"
  by (simp add: dict_has_def)

lemma dict_has_iff: "dict_has k d \<longleftrightarrow> (\<exists>v. map_of d k = Some v)"
  by (simp add: dict_has_def)

lemma dict_set_new: "map_of d k = None \<Longrightarrow> dict_set k v d = d @ [(k, v)]"
  by (induction d) (auto split: if_splits)

lemma dict_values_new: "map_of d k = None \<Longrightarrow> dict_values (dict_set k v d) = dict_values d @ [v]"
  by (simp add: dict_values_def dict_set_new)

lemma dict_values_mem: "dict_ok d \<Longrightarrow> v \<in> set (dict_values d) \<longleftrightarrow> (\<exists>k. map_of d k = Some v)"
  unfolding dict_ok_def dict_values_def by (force simp: image_iff)

lemma fst_set_dict_pop: "fst ` set (dict_pop k d) \<subseteq> fst ` set d"
proof (induction k d rule: dict_pop.induct)
  case (2 k k' v' d)
  then show ?case by (cases "k' = k") auto
qed simp

lemma map_of_dict_pop: "dict_ok d \<Longrightarrow> map_of (dict_pop k d) = (map_of d)(k := None)"
  unfolding dict_ok_def
proof (induction k d rule: dict_pop.induct)
  case (2 k k' v' d)
  then show ?case
    by (cases "k' = k") (auto simp: fun_eq_iff map_of_eq_None_iff)
qed (simp add: fun_eq_iff)

lemma dict_ok_pop: "dict_ok d \<Longrightarrow> dict_ok (dict_pop k d)"
  unfolding dict_ok_def
proof (induction k d rule: dict_pop.induct)
  case (2 k k' v' d)
  then show ?case using fst_set_dict_pop[of k d] by (cases "k' = k") auto
qed simp

subsection \<open>Sums over the values of a dictionary\<close>

definition dict_sum :: "('v \<Rightarrow> int) \<Rightarrow> ('k, 'v) dict \<Rightarrow> int" where
  "dict_sum f d = (\<Sum>v\<leftarrow>dict_values d. f v)"

lemma dict_sum_Nil [dict_simps, simp]: "dict_sum f [] = 0"
  by (simp add: dict_sum_def dict_values_def)

lemma dict_sum_Cons [dict_simps]: "dict_sum f ((k, v) # d) = f v + dict_sum f d"
  by (simp add: dict_sum_def dict_values_def)

lemma dict_sum_new [dict_simps]:
  "map_of d k = None \<Longrightarrow> dict_sum f (dict_set k v d) = dict_sum f d + f v"
  by (simp add: dict_sum_def dict_values_new)

lemma dict_sum_update [dict_simps]:
  "map_of d k = Some v \<Longrightarrow> dict_sum f (dict_set k w d) = dict_sum f d - f v + f w"
  by (induction d) (auto simp: dict_sum_Cons split: if_splits)

lemma dict_sum_set:
  "dict_sum f (dict_set k w d) = dict_sum f d - (case map_of d k of None \<Rightarrow> 0 | Some v \<Rightarrow> f v) + f w"
  by (simp add: dict_sum_new dict_sum_update split: option.split)

lemma dict_sum_nonneg: "(\<And>v. v \<in> set (dict_values d) \<Longrightarrow> 0 \<le> f v) \<Longrightarrow> 0 \<le> dict_sum f d"
  unfolding dict_sum_def by (induction "dict_values d" arbitrary: d rule: list.induct)
    (auto intro!: sum_list_nonneg)

lemma dict_sum_member_le:
  assumes "map_of d k = Some v" and "\<And>w. w \<in> set (dict_values d) \<Longrightarrow> 0 \<le> f w"
  shows "f v \<le> dict_sum f d"
proof -
  have "v \<in> set (dict_values d)"
    using assms(1) by (force simp: dict_values_def dest: map_of_SomeD)
  then show ?thesis
    unfolding dict_sum_def using assms(2) by (auto intro!: member_le_sum_list)
qed

lemma dict_values_set_subset: "set (dict_values (dict_set k v d)) \<subseteq> insert v (set (dict_values d))"
  unfolding dict_values_def by (induction k v d rule: dict_set.induct) auto

lemma dict_values_lookup: "map_of d k = Some v \<Longrightarrow> v \<in> set (dict_values d)"
  by (force simp: dict_values_def dest: map_of_SomeD)

lemma dict_values_set_all:
  "(\<forall>w \<in> set (dict_values d). P w) \<Longrightarrow> P v \<Longrightarrow> \<forall>w \<in> set (dict_values (dict_set k v d)). P w"
  using dict_values_set_subset[of k v d] by auto

lemma dict_sum_cong: "(\<And>v. v \<in> set (dict_values d) \<Longrightarrow> f v = g v) \<Longrightarrow> dict_sum f d = dict_sum g d"
  unfolding dict_sum_def by (simp cong: map_cong)

lemma dict_sum_add: "dict_sum (\<lambda>v. f v + g v) d = dict_sum f d + dict_sum g d"
  unfolding dict_sum_def by (simp add: sum_list_addf)

lemma dict_sum_mono: "(\<And>v. v \<in> set (dict_values d) \<Longrightarrow> f v \<le> g v) \<Longrightarrow> dict_sum f d \<le> dict_sum g d"
  unfolding dict_sum_def by (simp add: sum_list_mono)

lemma dict_sum_zero: "(\<And>v. v \<in> set (dict_values d) \<Longrightarrow> f v = 0) \<Longrightarrow> dict_sum f d = 0"
  unfolding dict_sum_def by (simp add: sum_list_0 cong: map_cong)

text \<open>A sum grouped by owner: every item counts once when owners are distinct and known.\<close>

lemma sum_one_owner:
  "distinct (map key xs) \<Longrightarrow> k \<in> key ` set xs \<Longrightarrow> (\<Sum>x\<leftarrow>xs. if k = key x then v else (0::int)) = v"
proof (induction xs)
  case (Cons x xs)
  show ?case
  proof (cases "k = key x")
    case True
    then have "(\<Sum>y\<leftarrow>xs. if k = key y then v else 0) = (\<Sum>y\<leftarrow>xs. 0)"
      using Cons.prems by (intro arg_cong[where f = sum_list] map_cong) auto
    with True show ?thesis by (simp add: sum_list_0)
  qed (use Cons in auto)
qed simp

lemma sum_by_owner:
  assumes "distinct (map key xs)" and "\<forall>c \<in> set cs. owner c \<in> key ` set xs"
  shows "(\<Sum>x\<leftarrow>xs. \<Sum>c\<leftarrow>cs. if owner c = key x then v c else (0::int)) = (\<Sum>c\<leftarrow>cs. v c)"
  using assms(2)
proof (induction cs)
  case (Cons c cs)
  then have "(\<Sum>x\<leftarrow>xs. if owner c = key x then v c else 0) = v c"
    using assms(1) by (intro sum_one_owner) auto
  with Cons show ?case by (simp add: sum_list_addf)
qed (simp add: sum_list_0)

subsection \<open>Indexes of a list\<close>

text \<open>
  A dictionary built over a list by a key: it holds exactly the elements of the list, each
  under its own key, and no two share one.
\<close>

definition indexes :: "('a \<Rightarrow> 'k) \<Rightarrow> 'a list \<Rightarrow> ('k, 'a) dict \<Rightarrow> bool" where
  "indexes key rs d \<longleftrightarrow> distinct (map key rs) \<and> (\<forall>k r. map_of d k = Some r \<longleftrightarrow> r \<in> set rs \<and> key r = k)"

lemma indexes_Nil [simp]: "indexes key [] []"
  by (simp add: indexes_def)

lemma indexes_has: "indexes key rs d \<Longrightarrow> dict_has k d \<longleftrightarrow> k \<in> key ` set rs"
  by (auto simp: indexes_def dict_has_iff)

lemma indexes_snoc:
  "indexes key rs d \<Longrightarrow> \<not> dict_has (key r) d \<Longrightarrow> indexes key (rs @ [r]) (dict_set (key r) r d)"
  unfolding indexes_def dict_has_def by (auto 0 3)

lemma indexes_fold:
  assumes "distinct (map key rs)"
  shows "indexes key rs (fold (\<lambda>r. dict_set (key r) r) rs [])"
  using assms
proof (induction rs rule: rev_induct)
  case (snoc r rs)
  then have "indexes key rs (fold (\<lambda>r. dict_set (key r) r) rs [])" by simp
  moreover have "\<not> dict_has (key r) (fold (\<lambda>r. dict_set (key r) r) rs [])"
    using snoc.prems indexes_has[OF calculation] by auto
  ultimately show ?case by (simp add: indexes_snoc)
qed simp

section \<open>Graph walks\<close>

text \<open>
  The weight left to a walk over a graph given by a dictionary from nodes to their edges: every
  node that has not been seen still costs its visit and its edges. A walk that visits a node and
  pushes its edges takes their weight away.
\<close>

definition unseen_weight :: "('v \<Rightarrow> 'w list) \<Rightarrow> ('k, 'v) dict \<Rightarrow> 'k set \<Rightarrow> nat" where
  "unseen_weight edges d seen = (\<Sum>(k, v)\<leftarrow>d. if k \<in> seen then 0 else Suc (Suc (length (edges v))))"

lemma unseen_weight_mono: "unseen_weight edges d (insert k seen) \<le> unseen_weight edges d seen"
  unfolding unseen_weight_def by (rule sum_list_mono) auto

lemma unseen_weight_insert:
  assumes "map_of d k = Some v" "k \<notin> seen"
  shows "unseen_weight edges d (insert k seen) + Suc (Suc (length (edges v))) \<le> unseen_weight edges d seen"
  using assms
proof (induction d)
  case (Cons e d)
  obtain k' v' where e: "e = (k', v')" by (cases e)
  show ?case
  proof (cases "k' = k")
    case True
    have "unseen_weight edges d (insert k seen) \<le> unseen_weight edges d seen" by (rule unseen_weight_mono)
    then show ?thesis using Cons.prems True by (simp add: e unseen_weight_def)
  next
    case False
    then show ?thesis using Cons by (simp add: e unseen_weight_def)
  qed
qed simp

section \<open>Event-sourced projections\<close>

text \<open>
  A projection is rebuilt by folding a fallible step over the events of its stream. Given an
  invariant of the step, the rebuilt state satisfies it for every accepted stream; and a
  stream is accepted exactly when every prefix is, with the later state obtained from the
  earlier one.
\<close>

locale replay =
  fixes step :: "'s \<Rightarrow> 'x \<Rightarrow> 'e + 's" and init :: "'s" and inv :: "'s \<Rightarrow> bool"
  assumes init_inv: "inv init"
    and step_inv: "inv s \<Longrightarrow> step s x = Inr s' \<Longrightarrow> inv s'"
begin

lemma run_inv_from:
  assumes "inv s" and "foldM step s xs = Inr s'"
  shows "inv s'"
  using step_inv assms by (rule foldM_invariant)

lemma run_inv: "foldM step init xs = Inr s \<Longrightarrow> inv s"
  using init_inv run_inv_from by blast

lemma run_prefix:
  "foldM step init (xs @ ys) = Inr s \<Longrightarrow> \<exists>s0. foldM step init xs = Inr s0 \<and> foldM step s0 ys = Inr s"
  by (auto simp: foldM_append result_simps)

lemma run_relation_from:
  assumes refl: "\<And>s. R s s" and trans: "\<And>a b c. R a b \<Longrightarrow> R b c \<Longrightarrow> R a c"
    and step: "\<And>s x s'. inv s \<Longrightarrow> step s x = Inr s' \<Longrightarrow> R s s'"
    and "inv s" "foldM step s xs = Inr s'"
  shows "R s s'"
  using assms(4,5)
proof (induction xs arbitrary: s)
  case (Cons x xs)
  then obtain t where t: "step s x = Inr t" "foldM step t xs = Inr s'" by (auto simp: result_simps)
  then have "R t s'" using Cons step_inv by blast
  then show ?case using trans step[OF Cons.prems(1) t(1)] by blast
qed (simp add: refl)

lemma run_relation:
  assumes "\<And>s. R s s" "\<And>a b c. R a b \<Longrightarrow> R b c \<Longrightarrow> R a c"
    and "\<And>s x s'. inv s \<Longrightarrow> step s x = Inr s' \<Longrightarrow> R s s'"
    and "foldM step init (xs @ ys) = Inr s'"
  shows "\<exists>s. foldM step init xs = Inr s \<and> R s s'"
proof -
  obtain s where s: "foldM step init xs = Inr s" "foldM step s ys = Inr s'" using run_prefix assms(4) by blast
  have "R s s'"
    by (rule run_relation_from[of R, OF assms(1,2,3) run_inv[OF s(1)] s(2)])
  with s(1) show ?thesis by blast
qed

lemma run_snoc:
  "foldM step init (xs @ [x]) = rbind (foldM step init xs) (\<lambda>s. step s x)"
  by (cases "foldM step init xs"; cases "step (projr (foldM step init xs)) x") (auto simp: foldM_append)

end

text \<open>
  Three projectors of the control plane collect every issue of a stream instead of stopping:
  an event that breaks a rule is recorded as an issue and skipped, and a stream is accepted
  exactly when no issue was found. Acceptance is then closed under prefixes, and the first
  issue, which is the one that is raised, does not change when the stream grows.
\<close>

locale issue_scan =
  fixes step :: "'e \<Rightarrow> 's \<Rightarrow> 's" and init :: "'s" and issues :: "'s \<Rightarrow> 'i list" and inv :: "'s \<Rightarrow> bool"
  assumes init_inv: "inv init"
    and init_issues: "issues init = []"
    and step_inv: "inv s \<Longrightarrow> inv (step e s)"
    and issues_grow: "\<exists>is. issues (step e s) = issues s @ is"
begin

lemma run_inv_from: "inv s \<Longrightarrow> inv (fold step es s)"
  by (induction es arbitrary: s) (auto simp: step_inv)

lemma run_inv: "inv (fold step es init)"
  using init_inv by (rule run_inv_from)

lemma run_issues: "\<exists>is. issues (fold step es s) = issues s @ is"
proof (induction es arbitrary: s)
  case (Cons e es)
  obtain i1 where "issues (fold step es (step e s)) = issues (step e s) @ i1" using Cons by blast
  moreover obtain i2 where "issues (step e s) = issues s @ i2" using issues_grow by blast
  ultimately show ?case by simp
qed simp

lemma clean_prefix: "issues (fold step (xs @ ys) init) = [] \<Longrightarrow> issues (fold step xs init) = []"
  using run_issues[of ys "fold step xs init"] by auto

lemma first_issue_stable:
  "issues (fold step xs init) \<noteq> [] \<Longrightarrow>
     hd (issues (fold step (xs @ ys) init)) = hd (issues (fold step xs init))"
  using run_issues[of ys "fold step xs init"] by auto

lemma clean_run_inv_step:
  assumes "\<And>e s. issues s = [] \<Longrightarrow> issues (step e s) = [] \<Longrightarrow> inv s \<Longrightarrow> P s \<Longrightarrow> P (step e s)"
    and "P init" and "issues (fold step es init) = []"
  shows "P (fold step es init)"
  using assms(3)
proof (induction es rule: rev_induct)
  case (snoc e es)
  then have "issues (fold step es init) = []" using clean_prefix by blast
  then show ?case using snoc assms(1)[OF _ _ run_inv] by simp
qed (simp add: assms(2))

end

end
