(* ===== verification/Text_Safety.thy ===== *)
theory Text_Safety imports Prelude begin

text \<open>
  Python strings and the terminal-safety rule of cli/text_safety.py. A \<open>str\<close> is a list of
  Unicode code points, so \<open>len\<close> is the length of the list and comparison is lexicographic by
  code point. A literal of the source is \<open>lit ''...''\<close>. The general categories and the
  whitespace of Unicode are the tables of the interpreter's \<open>unicodedata\<close> (Unicode 15),
  restricted to what the code asks of them.
\<close>

type_synonym pystr = "int list"

definition lit :: "string \<Rightarrow> pystr" where
  "lit s = map of_char s"

lemma lit_eq_iff [simp]: "lit s = lit t \<longleftrightarrow> s = t"
proof
  assume "lit s = lit t"
  moreover have "inj (of_char :: char \<Rightarrow> int)" by (auto intro!: injI)
  ultimately show "s = t" by (metis inj_map_eq_map lit_def)
qed simp

lemma lit_eq_Nil [simp]: "lit s = [] \<longleftrightarrow> s = []" "[] = lit s \<longleftrightarrow> s = []"
  by (auto simp: lit_def)

definition py_len :: "'a list \<Rightarrow> int" where
  "py_len s = int (length s)"

definition is_prefix :: "'a list \<Rightarrow> 'a list \<Rightarrow> bool" where
  "is_prefix p s = (take (length p) s = p)"

definition remove_prefix :: "'a list \<Rightarrow> 'a list \<Rightarrow> 'a list" where
  "remove_prefix p s = (if is_prefix p s then drop (length p) s else s)"

lemma remove_prefix_append [simp]: "remove_prefix p (p @ s) = s"
  by (simp add: remove_prefix_def is_prefix_def)

definition in_ranges :: "(int \<times> int) list \<Rightarrow> int \<Rightarrow> bool" where
  "in_ranges rs c = list_ex (\<lambda>(lo, hi). lo \<le> c \<and> c \<le> hi) rs"

section \<open>Categories that must not reach a terminal line\<close>

datatype unicode_category = Cc | Cf | Cs | Co | Zl | Zp

definition category_ranges :: "unicode_category \<Rightarrow> (int \<times> int) list" where
  "category_ranges cat = (case cat of
     Cc \<Rightarrow> [(0, 31), (127, 159)]
   | Cf \<Rightarrow> [(173, 173), (1536, 1541), (1564, 1564), (1757, 1757), (1807, 1807), (2192, 2193),
            (2274, 2274), (6158, 6158), (8203, 8207), (8234, 8238), (8288, 8292), (8294, 8303),
            (65279, 65279), (65529, 65531), (69821, 69821), (69837, 69837), (78896, 78911),
            (113824, 113827), (119155, 119162), (917505, 917505), (917536, 917631)]
   | Cs \<Rightarrow> [(55296, 57343)]
   | Co \<Rightarrow> [(57344, 63743), (983040, 1048573), (1048576, 1114109)]
   | Zl \<Rightarrow> [(8232, 8232)]
   | Zp \<Rightarrow> [(8233, 8233)])"

definition UNSAFE_LINE_CATEGORIES :: "unicode_category list" where
  "UNSAFE_LINE_CATEGORIES = [Cc, Cf, Cs, Co, Zl, Zp]"

definition is_unsafe_character :: "int \<Rightarrow> bool" where
  "is_unsafe_character c = list_ex (\<lambda>cat. in_ranges (category_ranges cat) c) UNSAFE_LINE_CATEGORIES"

definition is_single_line_safe :: "pystr \<Rightarrow> bool" where
  "is_single_line_safe value = (\<not> list_ex is_unsafe_character value)"

section \<open>Stripping\<close>

definition whitespace_ranges :: "(int \<times> int) list" where
  "whitespace_ranges = [(9, 13), (28, 32), (133, 133), (160, 160), (5760, 5760), (8192, 8202),
     (8232, 8233), (8239, 8239), (8287, 8287), (12288, 12288)]"

definition py_isspace :: "int \<Rightarrow> bool" where
  "py_isspace c = in_ranges whitespace_ranges c"

definition py_strip :: "pystr \<Rightarrow> pystr" where
  "py_strip s = rev (dropWhile py_isspace (rev (dropWhile py_isspace s)))"

definition utf8_encodable :: "pystr \<Rightarrow> bool" where
  "utf8_encodable s = (\<not> list_ex (in_ranges (category_ranges Cs)) s)"

section \<open>Line breaks never pass\<close>

text \<open>
  \<open>str.splitlines\<close> breaks a string exactly at these code points; a value that is single-line
  safe contains none of them, so it stays one line.
\<close>

definition splitlines_break :: "int \<Rightarrow> bool" where
  "splitlines_break c = in_ranges [(10, 13), (28, 30), (133, 133), (8232, 8233)] c"

lemma is_unsafe_characterI: "in_ranges (category_ranges cat) c \<Longrightarrow> is_unsafe_character c"
  unfolding is_unsafe_character_def UNSAFE_LINE_CATEGORIES_def by (cases cat) simp_all

lemma splitlines_break_unsafe:
  assumes "splitlines_break c"
  shows "is_unsafe_character c"
proof -
  have "in_ranges (category_ranges Cc) c \<or> in_ranges (category_ranges Zl) c \<or> in_ranges (category_ranges Zp) c"
    using assms unfolding splitlines_break_def in_ranges_def category_ranges_def by simp linarith
  then show ?thesis using is_unsafe_characterI by blast
qed

lemma single_line_safe_no_break: "is_single_line_safe s \<Longrightarrow> c \<in> set s \<Longrightarrow> \<not> splitlines_break c"
  using splitlines_break_unsafe by (auto simp: is_single_line_safe_def list_ex_iff)

lemma single_line_safe_encodable: "is_single_line_safe s \<Longrightarrow> utf8_encodable s"
  by (auto simp: is_single_line_safe_def utf8_encodable_def is_unsafe_character_def list_ex_iff
      UNSAFE_LINE_CATEGORIES_def)

lemma is_single_line_safe_append [simp]:
  "is_single_line_safe (s @ t) \<longleftrightarrow> is_single_line_safe s \<and> is_single_line_safe t"
  by (auto simp: is_single_line_safe_def)

end
