(* ===== verification/Errors.thy ===== *)
theory Errors imports Prelude begin

text \<open>
  The exceptions of the control plane as one datatype, so that an error raised by one component
  propagates through another as the same value. The constructors are the classes of
  agents/errors.py, supervision/errors.py, budgets/errors.py, workflow/errors.py,
  promotion/errors.py, supervision/lifecycle.py and supervision/authority.py, with the attributes their constructors take
  (a stable code, and the field, the sequence number or the node at fault), and the built-in
  exceptions the code can raise itself. \<open>ForeignError\<close> is an exception of a service
  that is an argument of the model, with its \<open>code\<close> if it has one that is a string.
\<close>

datatype exn =
    ConcurrencyConflict int int
  | AgentIdentityError string string
  | AgentDirectoryProtocolError string int
  | AgentInboxProtocolError string int
  | AgentMessageError string string
  | AgentOwnershipGraphError string
  | AgentIdentityConflictError
  | AgentSessionConflictError
  | AgentRequestConflictError
  | AgentOwnerNotFoundError
  | AgentDirectoryConflictError
  | AgentCreationError "bool option"
  | AgentUnknownError
  | AgentMessageConflictError
  | AgentInboxConflictError
  | AgentMessageAcceptError "bool option"
  | DeliveryConflictError
  | DeliveryAppendError "bool option"
  | DeliveryInputError string string
  | DeliveryProtocolError string int
  | BudgetInputError string string
  | BudgetProtocolError string int
  | BudgetExhaustedError string
  | BudgetAccountNotFoundError
  | BudgetAccountClosedError
  | BudgetOperationConflictError
  | BudgetDirectoryMismatchError
  | BudgetReservationNotFoundError
  | BudgetReservationStateError
  | BudgetLedgerConflictError
  | BudgetWriteError "bool option"
  | WorkflowInputError string string
  | WorkflowDefinitionError string "int list option"
  | WorkflowProtocolError string int "int list option"
  | WorkflowStateError string "int list option"
  | WorkflowNodeFailedError string "int list"
  | WorkflowRecoveryError string "int list option"
  | WorkflowLedgerConflictError
  | WorkflowWriteError "bool option"
  | PromotionInputError string string
  | PromotionProtocolError string int
  | PromotionNotFoundError string
  | PromotionStateError string
  | PromotionApprovalError string
  | PromotionTargetDriftError
  | PromotionOperationConflictError
  | PromotionLedgerConflictError
  | PromotionWriteError "bool option"
  | LifecycleAdmissionClosed
  | AgentToolBindingError
  | AgentToolAuthorizationError
  | PyKeyError
  | PyTypeError
  | PyValueError
  | PyAssertionError
  | PyUnicodeEncodeError
  | PyCancelledError
  | PyExceptionGroup string "exn list"
  | ForeignError "int list option"

type_synonym 'a result = "exn + 'a"

text \<open>
  \<open>except BudgetProtocolError: raise\<close> followed by \<open>except Exception: raise E\<close>: errors that
  satisfy the predicate pass through, every other one becomes the given error.
\<close>

fun wrap_unless :: "(exn \<Rightarrow> bool) \<Rightarrow> exn \<Rightarrow> 'a result \<Rightarrow> 'a result" where
  "wrap_unless keep e (Inl x) = (if keep x then Inl x else Inl e)"
| "wrap_unless keep e (Inr v) = Inr v"

lemma wrap_unless_eq_Inr [result_simps]: "wrap_unless keep e r = Inr v \<longleftrightarrow> r = Inr v"
  by (cases r) auto

lemma wrap_unless_eq_Inl [result_simps]:
  "wrap_unless keep e r = Inl x \<longleftrightarrow> (\<exists>y. r = Inl y \<and> x = (if keep y then y else e))"
  by (cases r) auto

lemma is_ok_wrap_unless [simp]: "is_ok (wrap_unless keep e r) = is_ok r"
  by (cases r) auto

end
