(* ===== verification/Json_Values.thy ===== *)
theory Json_Values imports Text_Safety Errors begin

text \<open>
  JSON values and their canonical encoding (api/json_types.py). A value is what
  \<open>to_json_value\<close> returns: \<open>None\<close>, a boolean, an integer, a float, a string, a list or a
  dictionary with string keys. Booleans and integers are different constructors, so
  \<open>type(value) is int\<close> is the constructor test. A float is carried by its \<open>repr\<close>, which is
  all the code prints of it; no arithmetic is done on payload floats.
\<close>

datatype json =
    JNull
  | JBool bool
  | JInt int
  | JFloat pystr
  | JStr pystr
  | JList "json list"
  | JDict "(pystr \<times> json) list"

type_synonym payload = "(pystr, json) dict"

section \<open>Access to payloads\<close>

definition jget :: "payload \<Rightarrow> string \<Rightarrow> json" where
  \<comment> \<open>\<open>data.get(key)\<close>\<close>
  "jget d k = (case map_of d (lit k) of None \<Rightarrow> JNull | Some v \<Rightarrow> v)"

definition jindex :: "payload \<Rightarrow> string \<Rightarrow> json result" where
  \<comment> \<open>\<open>data[key]\<close>\<close>
  "jindex d k = (case map_of d (lit k) of None \<Rightarrow> Inl PyKeyError | Some v \<Rightarrow> Inr v)"

definition keys_are :: "payload \<Rightarrow> string list \<Rightarrow> bool" where
  \<comment> \<open>\<open>set(data) == frozenset(keys)\<close>\<close>
  "keys_are d ks = (set (map fst d) = set (map lit ks))"

definition json_opt :: "pystr option \<Rightarrow> json" where
  "json_opt x = (case x of None \<Rightarrow> JNull | Some s \<Rightarrow> JStr s)"

definition json_int_opt :: "int option \<Rightarrow> json" where
  "json_int_opt x = (case x of None \<Rightarrow> JNull | Some i \<Rightarrow> JInt i)"

lemma json_opt_simps [simp]:
  "json_opt None = JNull" "json_opt (Some s) = JStr s"
  "json_int_opt None = JNull" "json_int_opt (Some i) = JInt i"
  by (simp_all add: json_opt_def json_int_opt_def)

lemma jget_Cons [simp]: "jget ((lit k', v) # d) k = (if k' = k then v else jget d k)"
  by (simp add: jget_def)

lemma jget_Nil [simp]: "jget [] k = JNull"
  by (simp add: jget_def)

lemma jindex_Cons [simp]: "jindex ((lit k', v) # d) k = (if k' = k then Inr v else jindex d k)"
  by (simp add: jindex_def)

lemma jindex_Nil [simp]: "jindex [] k = Inl PyKeyError"
  by (simp add: jindex_def)

lemma jindex_keys_are: "keys_are d ks \<Longrightarrow> k \<in> set ks \<Longrightarrow> \<exists>v. jindex d k = Inr v"
  unfolding keys_are_def jindex_def
  by (cases "map_of d (lit k)") (auto simp: map_of_eq_None_iff)

lemma jindex_jget: "jindex d k = Inr v \<Longrightarrow> jget d k = v"
  by (auto simp: jindex_def jget_def split: option.splits)

section \<open>Conversion and copying\<close>

primrec to_json_value :: "json \<Rightarrow> json" where
  "to_json_value JNull = JNull"
| "to_json_value (JBool b) = JBool b"
| "to_json_value (JInt i) = JInt i"
| "to_json_value (JFloat t) = JFloat t"
| "to_json_value (JStr s) = JStr s"
| "to_json_value (JList vs) = JList (map to_json_value vs)"
| "to_json_value (JDict kvs) = JDict (map (map_prod id to_json_value) kvs)"

lemma to_json_value_id [simp]: "to_json_value v = v"
proof (induction v)
  case (JDict kvs)
  then have "map_prod id to_json_value kv = kv" if "kv \<in> set kvs" for kv
    using that by (cases kv) (auto simp: snds.simps)
  then show ?case by (simp add: map_idI)
qed (simp_all add: map_idI)

section \<open>Canonical JSON text\<close>

fun dec_digits :: "nat \<Rightarrow> pystr" where
  "dec_digits n = (if n < 10 then [48 + int n] else dec_digits (n div 10) @ [48 + int (n mod 10)])"

declare dec_digits.simps [simp del]

definition py_int_repr :: "int \<Rightarrow> pystr" where
  "py_int_repr i = (if i < 0 then 45 # dec_digits (nat (- i)) else dec_digits (nat i))"

definition hex_digit :: "int \<Rightarrow> int" where
  "hex_digit n = (if n < 10 then 48 + n else 87 + n)"

definition json_escape :: "int \<Rightarrow> pystr" where
  "json_escape c =
     (if c = 34 then [92, 34] else if c = 92 then [92, 92]
      else if c = 10 then [92, 110] else if c = 13 then [92, 114]
      else if c = 9 then [92, 116] else if c = 12 then [92, 102]
      else if c = 8 then [92, 98]
      else if c < 32 then [92, 117, 48, 48, hex_digit (c div 16), hex_digit (c mod 16)]
      else [c])"

definition json_str :: "pystr \<Rightarrow> pystr" where
  "json_str s = 34 # concat (map json_escape s) @ [34]"

fun join_comma :: "pystr list \<Rightarrow> pystr" where
  "join_comma [] = []"
| "join_comma [s] = s"
| "join_comma (s # t # ss) = s @ 44 # join_comma (t # ss)"

definition member_text :: "pystr \<times> pystr \<Rightarrow> pystr" where
  "member_text kv = json_str (fst kv) @ 58 # snd kv"

primrec canonical_json :: "json \<Rightarrow> pystr" where
  "canonical_json JNull = lit ''null''"
| "canonical_json (JBool b) = (if b then lit ''true'' else lit ''false'')"
| "canonical_json (JInt i) = py_int_repr i"
| "canonical_json (JFloat t) = t"
| "canonical_json (JStr s) = json_str s"
| "canonical_json (JList vs) = 91 # join_comma (map canonical_json vs) @ [93]"
| "canonical_json (JDict kvs) =
     123 # join_comma (map member_text (sort_key fst (map (map_prod id canonical_json) kvs))) @ [125]"

text \<open>
  \<open>fingerprint(value)\<close> is SHA-256 of the UTF-8 bytes of the canonical text, in hexadecimal.
  The hash is the library's: the model takes it as the argument \<open>sha\<close>.
\<close>

definition fingerprint :: "(pystr \<Rightarrow> pystr) \<Rightarrow> json \<Rightarrow> pystr" where
  "fingerprint sha v = sha (canonical_json v)"

end
