(* ===== verification/Events.thy ===== *)
theory Events imports Json_Values begin

text \<open>
  Durable event primitives (api/events.py). A UUID is its 128-bit integer, a datetime its
  microseconds on the UTC axis with the offset of its time zone (\<open>None\<close> for a naive one).
  \<open>uuid4()\<close> and \<open>datetime.now(UTC)\<close> are arguments of \<open>materialize\<close>. The payload of an
  envelope is any JSON value, because readers check that it is a dictionary.
\<close>

type_synonym uuid = int

record datetime =
  dt_micros :: int
  dt_utcoffset :: "int option"

record pending_event =
  pe_type :: pystr
  pe_data :: payload
  pe_schema_version :: int
  pe_event_id :: "uuid option"
  pe_causation_id :: "uuid option"
  pe_correlation_id :: "uuid option"
  pe_actor_id :: "pystr option"
  pe_composition_revision :: "pystr option"
  pe_occurred_at :: "datetime option"

record event_envelope =
  ev_event_id :: uuid
  ev_stream_id :: pystr
  ev_seq :: int
  ev_type :: pystr
  ev_schema_version :: int
  ev_data :: json
  ev_occurred_at :: datetime
  ev_causation_id :: "uuid option"
  ev_correlation_id :: "uuid option"
  ev_actor_id :: "pystr option"
  ev_composition_revision :: "pystr option"

definition detach_json_data :: "payload \<Rightarrow> payload" where
  "detach_json_data data = map (\<lambda>(key, value). (key, to_json_value value)) data"

lemma detach_json_data_id [simp]: "detach_json_data d = d"
  by (simp add: detach_json_data_def)

definition attempt_identity :: "payload \<Rightarrow> pystr option" where
  "attempt_identity data =
     (case jget data ''attempt_id'' of
        JStr value \<Rightarrow> (if py_strip value \<noteq> [] then Some value else None)
      | _ \<Rightarrow> None)"

definition materialize :: "uuid \<Rightarrow> datetime \<Rightarrow> pystr \<Rightarrow> int \<Rightarrow> pending_event \<Rightarrow> event_envelope" where
  "materialize fresh_uuid now stream_id seq pending =
     \<lparr>ev_event_id = (case pe_event_id pending of None \<Rightarrow> fresh_uuid | Some u \<Rightarrow> u),
      ev_stream_id = stream_id,
      ev_seq = seq,
      ev_type = pe_type pending,
      ev_schema_version = pe_schema_version pending,
      ev_data = JDict (detach_json_data (pe_data pending)),
      ev_occurred_at = (case pe_occurred_at pending of None \<Rightarrow> now | Some t \<Rightarrow> t),
      ev_causation_id = pe_causation_id pending,
      ev_correlation_id = pe_correlation_id pending,
      ev_actor_id = pe_actor_id pending,
      ev_composition_revision = pe_composition_revision pending\<rparr>"

definition detach_event :: "event_envelope \<Rightarrow> event_envelope" where
  "detach_event event = event\<lparr>ev_data := to_json_value (ev_data event)\<rparr>"

lemma detach_event_id [simp]: "detach_event e = e"
  by (simp add: detach_event_def)

lemma materialize_sel [simp]:
  "ev_stream_id (materialize u t sid n p) = sid"
  "ev_seq (materialize u t sid n p) = n"
  "ev_type (materialize u t sid n p) = pe_type p"
  "ev_schema_version (materialize u t sid n p) = pe_schema_version p"
  "ev_data (materialize u t sid n p) = JDict (pe_data p)"
  by (simp_all add: materialize_def)

lemma attempt_identity_Some:
  "attempt_identity d = Some a \<longleftrightarrow> jget d ''attempt_id'' = JStr a \<and> py_strip a \<noteq> []"
  by (auto simp: attempt_identity_def split: json.splits if_splits)

text \<open>A pending event with only a type, a payload and a schema version, as the services build it.\<close>

definition pending :: "string \<Rightarrow> payload \<Rightarrow> int \<Rightarrow> pending_event" where
  "pending ty d version =
     \<lparr>pe_type = lit ty, pe_data = d, pe_schema_version = version, pe_event_id = None,
      pe_causation_id = None, pe_correlation_id = None, pe_actor_id = None,
      pe_composition_revision = None, pe_occurred_at = None\<rparr>"

lemma pending_sel [simp]:
  "pe_type (pending ty d n) = lit ty" "pe_data (pending ty d n) = d"
  "pe_schema_version (pending ty d n) = n"
  by (simp_all add: pending_def)

end
