(* ===== verification/Event_Store.thy ===== *)
theory Event_Store imports Events begin

text \<open>
  The append-only event store (session/event_store.py): \<open>InMemoryEventStore\<close> with its
  compare-and-append, and the interface its clients rely on as the locale \<open>event_log\<close>. The
  lock of a stream makes \<open>append\<close> atomic, since its body never suspends while holding it; the
  model is that atomic step. Identifiers and times that \<open>materialize\<close> draws are an argument,
  a function of the sequence number.
\<close>

record event_store =
  es_streams :: "(pystr, event_envelope list) dict"

type_synonym drawn = "int \<Rightarrow> uuid \<times> datetime"

definition empty_store :: event_store where
  "empty_store = \<lparr>es_streams = []\<rparr>"

definition stream_head :: "event_envelope list \<Rightarrow> int" where
  "stream_head stream = (if stream = [] then 0 else ev_seq (last stream))"

definition stream_of :: "event_store \<Rightarrow> pystr \<Rightarrow> event_envelope list" where
  "stream_of st sid = (case map_of (es_streams st) sid of None \<Rightarrow> [] | Some es \<Rightarrow> es)"

fun materialize_from ::
    "drawn \<Rightarrow> pystr \<Rightarrow> int \<Rightarrow> pending_event list \<Rightarrow> event_envelope list" where
  "materialize_from dr sid n [] = []"
| "materialize_from dr sid n (p # ps) =
     materialize (fst (dr n)) (snd (dr n)) sid n p # materialize_from dr sid (n + 1) ps"

definition append_events ::
    "drawn \<Rightarrow> pystr \<Rightarrow> int \<Rightarrow> pending_event list \<Rightarrow> event_store
       \<Rightarrow> event_store \<times> event_envelope list result" where
  "append_events dr sid expected_seq events st =
     (let st1 = (if dict_has sid (es_streams st) then st
                 else st\<lparr>es_streams := dict_set sid [] (es_streams st)\<rparr>);
          stream = stream_of st1 sid;
          current = stream_head stream
      in if current \<noteq> expected_seq then (st1, Inl (ConcurrencyConflict expected_seq current))
         else let materialized = materialize_from dr sid (current + 1) events
              in (st1\<lparr>es_streams := dict_set sid (stream @ materialized) (es_streams st1)\<rparr>,
                  Inr (map detach_event materialized)))"

definition read_events :: "event_store \<Rightarrow> pystr \<Rightarrow> int \<Rightarrow> event_envelope list" where
  "read_events st sid from_seq =
     map detach_event (filter (\<lambda>e. from_seq \<le> ev_seq e) (stream_of st sid))"

definition head_seq :: "event_store \<Rightarrow> pystr \<Rightarrow> int" where
  "head_seq st sid = stream_head (stream_of st sid)"

definition list_streams :: "event_store \<Rightarrow> pystr option \<Rightarrow> pystr list" where
  "list_streams st prefix =
     (let streams = sort (dict_keys (es_streams st))
      in case prefix of None \<Rightarrow> streams | Some p \<Rightarrow> filter (is_prefix p) streams)"

section \<open>The invariant of a store\<close>

text \<open>
  Every stream holds its own events, numbered 1, 2, 3 and so on without a gap.
\<close>

definition numbered :: "pystr \<Rightarrow> event_envelope list \<Rightarrow> bool" where
  "numbered sid es \<longleftrightarrow>
     (\<forall>i < length es. ev_seq (es ! i) = int i + 1 \<and> ev_stream_id (es ! i) = sid)"

definition store_ok :: "event_store \<Rightarrow> bool" where
  "store_ok st \<longleftrightarrow> dict_ok (es_streams st) \<and>
     (\<forall>sid es. map_of (es_streams st) sid = Some es \<longrightarrow> numbered sid es)"

lemma numbered_Nil [simp]: "numbered sid []"
  by (simp add: numbered_def)

lemma numbered_snoc [simp]:
  "numbered sid (es @ [e]) \<longleftrightarrow>
     numbered sid es \<and> ev_seq e = int (length es) + 1 \<and> ev_stream_id e = sid"
  by (auto simp: numbered_def nth_append less_Suc_eq)

lemma stream_head_numbered: "numbered sid es \<Longrightarrow> stream_head es = int (length es)"
proof (cases es rule: rev_cases)
  case (snoc xs x)
  then show "numbered sid es \<Longrightarrow> ?thesis" by (simp add: stream_head_def)
qed (simp add: stream_head_def)

lemma numbered_append:
  "numbered sid es \<Longrightarrow> numbered sid (es @ materialize_from dr sid (int (length es) + 1) ps)"
proof (induction ps arbitrary: es)
  case (Cons p ps)
  let ?e = "materialize (fst (dr (int (length es) + 1))) (snd (dr (int (length es) + 1))) sid
              (int (length es) + 1) p"
  have "numbered sid (es @ [?e])" using Cons.prems by simp
  from Cons.IH[OF this] show ?case by (simp add: add.commute)
qed simp

lemma length_materialize_from [simp]: "length (materialize_from dr sid n ps) = length ps"
  by (induction ps arbitrary: n) auto

lemma numbered_seqs: "numbered sid es \<Longrightarrow> map ev_seq es = map (\<lambda>i. int i + 1) [0..<length es]"
  by (auto simp: numbered_def intro!: nth_equalityI)

lemma store_ok_stream: "store_ok st \<Longrightarrow> numbered sid (stream_of st sid)"
  by (auto simp: store_ok_def stream_of_def split: option.splits)

lemma head_seq_length: "store_ok st \<Longrightarrow> head_seq st sid = int (length (stream_of st sid))"
  unfolding head_seq_def using stream_head_numbered store_ok_stream by blast

lemma read_events_all: "store_ok st \<Longrightarrow> read_events st sid 1 = stream_of st sid"
proof -
  assume "store_ok st"
  then have "\<forall>e \<in> set (stream_of st sid). 1 \<le> ev_seq e"
    using store_ok_stream[of st sid] by (auto simp: numbered_def in_set_conv_nth)
  then show ?thesis by (simp add: read_events_def map_idI)
qed

lemma append_events_stream:
  "stream_of (fst (append_events dr sid n ps st)) sid' =
     (if sid' = sid \<and> head_seq st sid = n
      then stream_of st sid @ materialize_from dr sid (n + 1) ps else stream_of st sid')"
proof (cases "dict_has sid (es_streams st)")
  case True
  then show ?thesis
    by (auto simp: append_events_def stream_of_def head_seq_def Let_def dict_has_def)
next
  case False
  then have "stream_of st sid = []" by (simp add: stream_of_def dict_has_def)
  with False show ?thesis
    by (auto simp: append_events_def stream_of_def head_seq_def Let_def dict_has_def stream_head_def)
qed

lemma append_events_result:
  "snd (append_events dr sid n ps st) =
     (if head_seq st sid = n then Inr (materialize_from dr sid (n + 1) ps)
      else Inl (ConcurrencyConflict n (head_seq st sid)))"
proof (cases "dict_has sid (es_streams st)")
  case False
  then have "stream_of st sid = []" by (simp add: stream_of_def dict_has_def)
  with False show ?thesis
    by (auto simp: append_events_def stream_of_def head_seq_def Let_def map_idI)
qed (auto simp: append_events_def head_seq_def Let_def map_idI)

lemma store_ok_empty: "store_ok empty_store"
  by (simp add: store_ok_def empty_store_def)

lemma store_ok_set:
  "store_ok st \<Longrightarrow> numbered sid es \<Longrightarrow> store_ok (st\<lparr>es_streams := dict_set sid es (es_streams st)\<rparr>)"
  by (auto simp: store_ok_def)

lemma store_ok_append: "store_ok st \<Longrightarrow> store_ok (fst (append_events dr sid n ps st))"
proof -
  assume ok: "store_ok st"
  define st1 where "st1 = (if dict_has sid (es_streams st) then st
                 else st\<lparr>es_streams := dict_set sid [] (es_streams st)\<rparr>)"
  have ok1: "store_ok st1" unfolding st1_def using ok store_ok_set by auto
  have num: "numbered sid (stream_of st1 sid)" using ok1 by (rule store_ok_stream)
  have "store_ok (st1\<lparr>es_streams := dict_set sid
          (stream_of st1 sid @ materialize_from dr sid (stream_head (stream_of st1 sid) + 1) ps)
          (es_streams st1)\<rparr>)"
    using ok1 by (rule store_ok_set) (simp add: stream_head_numbered[OF num] numbered_append[OF num])
  then show ?thesis
    using ok1 by (auto simp: append_events_def st1_def[symmetric] Let_def)
qed

section \<open>What the clients of a store rely on\<close>

text \<open>
  The contract of the \<open>EventStore\<close> protocol: an append wins exactly when the expected sequence
  number is the head of its stream, a lost append changes no stream, and no append touches
  another stream. The consequences are proved once here: history is never rewritten, and of
  several writers that read the same head at most one wins.
\<close>

type_synonym append_request = "pystr \<times> int \<times> pending_event list"

fun run_appends ::
    "('st \<Rightarrow> pystr \<Rightarrow> int \<Rightarrow> pending_event list \<Rightarrow> 'st \<times> event_envelope list result)
       \<Rightarrow> 'st \<Rightarrow> append_request list \<Rightarrow> 'st" where
  "run_appends app st [] = st"
| "run_appends app st ((sid, n, ps) # rs) = run_appends app (fst (app st sid n ps)) rs"

locale event_log =
  fixes app :: "'st \<Rightarrow> pystr \<Rightarrow> int \<Rightarrow> pending_event list \<Rightarrow> 'st \<times> event_envelope list result"
    and stream :: "'st \<Rightarrow> pystr \<Rightarrow> event_envelope list"
    and ok :: "'st \<Rightarrow> bool"
  assumes app_ok: "ok st \<Longrightarrow> ok (fst (app st sid n ps))"
    and app_won: "ok st \<Longrightarrow> n = int (length (stream st sid)) \<Longrightarrow>
      \<exists>es. snd (app st sid n ps) = Inr es \<and> length es = length ps \<and>
           stream (fst (app st sid n ps)) sid = stream st sid @ es"
    and app_lost: "ok st \<Longrightarrow> n \<noteq> int (length (stream st sid)) \<Longrightarrow>
      snd (app st sid n ps) = Inl (ConcurrencyConflict n (int (length (stream st sid)))) \<and>
      stream (fst (app st sid n ps)) sid = stream st sid"
    and app_other: "ok st \<Longrightarrow> sid' \<noteq> sid \<Longrightarrow> stream (fst (app st sid n ps)) sid' = stream st sid'"
    and stream_numbered: "ok st \<Longrightarrow> numbered sid (stream st sid)"
begin

lemma app_extends:
  assumes "ok st"
  shows "\<exists>es. stream (fst (app st sid n ps)) sid' = stream st sid' @ es"
proof (cases "sid' = sid \<and> n = int (length (stream st sid))")
  case True
  then show ?thesis using app_won[OF assms, of n sid ps] by auto
next
  case False
  then have "stream (fst (app st sid n ps)) sid' = stream st sid'"
    using app_lost[OF assms, of n sid ps] app_other[OF assms, of sid' sid n ps] by blast
  then show ?thesis by simp
qed

lemma run_ok: "ok st \<Longrightarrow> ok (run_appends app st rs)"
  by (induction rs arbitrary: st) (auto simp: app_ok)

lemma run_extends: "ok st \<Longrightarrow> \<exists>es. stream (run_appends app st rs) sid = stream st sid @ es"
proof (induction rs arbitrary: st)
  case (Cons r rs)
  obtain sid' n ps where r: "r = (sid', n, ps)" by (cases r)
  obtain es where
    "stream (run_appends app (fst (app st sid' n ps)) rs) sid = stream (fst (app st sid' n ps)) sid @ es"
    using Cons.IH[OF app_ok[OF Cons.prems]] by blast
  moreover obtain es' where "stream (fst (app st sid' n ps)) sid = stream st sid @ es'"
    using app_extends Cons.prems by blast
  ultimately show ?case by (simp add: r)
qed simp

lemma second_writer_loses:
  assumes "ok st" and "snd (app st sid n ps) = Inr es" and "ps \<noteq> []"
  shows "snd (app (run_appends app (fst (app st sid n ps)) rs) sid n qs)
           = Inl (ConcurrencyConflict n (int (length (stream (run_appends app (fst (app st sid n ps)) rs) sid))))"
proof -
  have n: "n = int (length (stream st sid))"
    using app_lost[OF assms(1)] assms(2) by (metis sum.distinct(1))
  then obtain es' where "stream (fst (app st sid n ps)) sid = stream st sid @ es'" "length es' = length ps"
    using app_won[OF assms(1)] by blast
  moreover obtain es'' where
    "stream (run_appends app (fst (app st sid n ps)) rs) sid = stream (fst (app st sid n ps)) sid @ es''"
    using run_extends[OF app_ok[OF assms(1)]] by blast
  moreover have "0 < length ps" using assms(3) by simp
  ultimately have "n \<noteq> int (length (stream (run_appends app (fst (app st sid n ps)) rs) sid))"
    using n by (simp add: del: of_nat_add)
  then show ?thesis
    using app_lost[OF run_ok[OF app_ok[OF assms(1)]]] by blast
qed

end

definition memory_append ::
    "drawn \<Rightarrow> event_store \<Rightarrow> pystr \<Rightarrow> int \<Rightarrow> pending_event list
       \<Rightarrow> event_store \<times> event_envelope list result" where
  "memory_append dr st sid n ps = append_events dr sid n ps st"

interpretation memory: event_log "memory_append dr" stream_of store_ok for dr
proof
  fix st sid sid' n ps
  assume ok: "store_ok st"
  note hd = head_seq_length[OF ok]
  show "store_ok (fst (memory_append dr st sid n ps))"
    unfolding memory_append_def using ok by (rule store_ok_append)
  show "n = int (length (stream_of st sid)) \<Longrightarrow>
      \<exists>es. snd (memory_append dr st sid n ps) = Inr es \<and> length es = length ps \<and>
           stream_of (fst (memory_append dr st sid n ps)) sid = stream_of st sid @ es"
    by (simp add: memory_append_def append_events_stream append_events_result hd)
  show "n \<noteq> int (length (stream_of st sid)) \<Longrightarrow>
      snd (memory_append dr st sid n ps) = Inl (ConcurrencyConflict n (int (length (stream_of st sid)))) \<and>
      stream_of (fst (memory_append dr st sid n ps)) sid = stream_of st sid"
    by (simp add: memory_append_def append_events_stream append_events_result hd)
  show "sid' \<noteq> sid \<Longrightarrow> stream_of (fst (memory_append dr st sid n ps)) sid' = stream_of st sid'"
    by (simp add: memory_append_def append_events_stream)
  show "numbered sid (stream_of st sid)" using ok by (rule store_ok_stream)
qed

lemma append_events_spec:
  assumes "store_ok st" and st': "fst (append_events dr sid n ps st) = st'"
  shows "store_ok st' \<and>
    (if n = head_seq st sid
     then (\<exists>es. snd (append_events dr sid n ps st) = Inr es \<and> length es = length ps \<and>
             read_events st' sid 1 = read_events st sid 1 @ es \<and>
             map ev_seq (read_events st' sid 1) =
               map (\<lambda>i. int i + 1) [0..<nat n + length ps])
     else snd (append_events dr sid n ps st) = Inl (ConcurrencyConflict n (head_seq st sid)) \<and>
          read_events st' sid 1 = read_events st sid 1) \<and>
    (\<forall>sid'. sid' \<noteq> sid \<longrightarrow> stream_of st' sid' = stream_of st sid')"
proof -
  have ok': "store_ok st'" unfolding st'[symmetric] using assms(1) by (rule store_ok_append)
  have old: "read_events st sid 1 = stream_of st sid" using assms(1) by (rule read_events_all)
  have all: "read_events st' sid 1 = stream_of st' sid" using ok' by (rule read_events_all)
  have seqs: "map ev_seq (stream_of st' sid) = map (\<lambda>i. int i + 1) [0..<length (stream_of st' sid)]"
    using store_ok_stream[OF ok'] by (rule numbered_seqs)
  have other: "\<forall>sid'. sid' \<noteq> sid \<longrightarrow> stream_of st' sid' = stream_of st sid'"
    by (simp add: st'[symmetric] append_events_stream)
  show ?thesis
  proof (cases "n = head_seq st sid")
    case True
    then have st: "stream_of st' sid = stream_of st sid @ materialize_from dr sid (n + 1) ps"
      and res: "snd (append_events dr sid n ps st) = Inr (materialize_from dr sid (n + 1) ps)"
      by (simp_all add: st'[symmetric] append_events_stream append_events_result)
    have "nat n = length (stream_of st sid)" using True head_seq_length[OF assms(1), of sid] by linarith
    then have "nat n + length ps = length (stream_of st' sid)" unfolding st by simp
    then have "map ev_seq (stream_of st' sid) = map (\<lambda>i. int i + 1) [0..<nat n + length ps]"
      using seqs by simp
    then show ?thesis using ok' other st res True by (simp add: all old)
  next
    case False
    then show ?thesis using ok' other by (simp add: append_events_result all old) (simp add: st'[symmetric] append_events_stream)
  qed
qed

section \<open>Properties\<close>

text \<open>
  C1: an append is a compare-and-append. It wins exactly when the expected number is the head
  of the stream; then the stream is extended by one envelope per pending event, everything read
  back from sequence number 1 is the old history followed by the new events, numbered without a
  gap. A lost append reports the actual head and leaves every stream as it was.
\<close>

theorem append_is_compare_and_append:
  assumes "store_ok st"
  shows "store_ok (fst (append_events dr sid n ps st)) \<and>
    (if n = head_seq st sid
     then (\<exists>es. snd (append_events dr sid n ps st) = Inr es \<and> length es = length ps \<and>
             read_events (fst (append_events dr sid n ps st)) sid 1 = read_events st sid 1 @ es \<and>
             map ev_seq (read_events (fst (append_events dr sid n ps st)) sid 1) =
               map (\<lambda>i. int i + 1) [0..<nat n + length ps])
     else snd (append_events dr sid n ps st) = Inl (ConcurrencyConflict n (head_seq st sid)) \<and>
          read_events (fst (append_events dr sid n ps st)) sid 1 = read_events st sid 1) \<and>
    (\<forall>sid'. sid' \<noteq> sid \<longrightarrow> stream_of (fst (append_events dr sid n ps st)) sid' = stream_of st sid')"
  using assms by (rule append_events_spec) (rule refl)

definition sample_time :: datetime where
  "sample_time = \<lparr>dt_micros = 0, dt_utcoffset = Some 0\<rparr>"

definition sample_store :: event_store where
  "sample_store = fst (append_events (\<lambda>n. (n, sample_time)) (lit ''s'') 0
     [pending ''a/b'' [] 1, pending ''a/c'' [(lit ''k'', JInt 1)] 1] empty_store)"

lemma sample_store_ok: "store_ok sample_store"
  unfolding sample_store_def by (rule store_ok_append[OF store_ok_empty])

theorem append_is_compare_and_append_witness:
  "snd (append_events (\<lambda>n. (n, sample_time)) (lit ''s'') 1 [pending ''a/d'' [] 1] sample_store) =
     Inl (ConcurrencyConflict 1 2) \<and> store_ok sample_store"
proof -
  have "head_seq sample_store (lit ''s'') = 2" by code_simp
  then show ?thesis
    using append_is_compare_and_append[OF sample_store_ok, of "\<lambda>n. (n, sample_time)" "lit ''s''" 1]
      sample_store_ok by simp
qed

text \<open>
  history is append-only. Whatever appends run, won or lost, on whatever streams, the
  events of a stream are a prefix of its later events.
\<close>

theorem history_append_only:
  assumes "store_ok st"
  shows "\<exists>es. stream_of (run_appends (memory_append dr) st rs) sid = stream_of st sid @ es"
  using assms by (rule memory.run_extends)

theorem history_append_only_witness:
  "\<exists>es. stream_of (run_appends (memory_append (\<lambda>n. (n, sample_time))) sample_store
      [(lit ''s'', 2, [pending ''a/d'' [] 1]), (lit ''t'', 7, [])]) (lit ''s'') =
     stream_of sample_store (lit ''s'') @ es"
  by (rule history_append_only[OF sample_store_ok])

text \<open>
  C2: of the writers that read the same head of a stream, one wins. After an append at head
  \<open>n\<close> has won, whatever happens in between, an append that still expects \<open>n\<close> is refused.
\<close>

theorem one_writer_wins:
  assumes "store_ok st" and "snd (memory_append dr st sid n ps) = Inr es" and "ps \<noteq> []"
  shows "snd (memory_append dr (run_appends (memory_append dr) (fst (memory_append dr st sid n ps)) rs) sid n qs)
    = Inl (ConcurrencyConflict n
        (int (length (stream_of (run_appends (memory_append dr) (fst (memory_append dr st sid n ps)) rs) sid))))"
  using assms by (rule memory.second_writer_loses)

theorem one_writer_wins_witness:
  "\<not> is_ok (snd (memory_append (\<lambda>n. (n, sample_time))
     (run_appends (memory_append (\<lambda>n. (n, sample_time)))
        (fst (memory_append (\<lambda>n. (n, sample_time)) sample_store (lit ''s'') 2 [pending ''a/d'' [] 1])) [])
     (lit ''s'') 2 []))"
proof -
  have "is_ok (snd (memory_append (\<lambda>n. (n, sample_time)) sample_store (lit ''s'') 2 [pending ''a/d'' [] 1]))"
    by code_simp
  then obtain es where
    "snd (memory_append (\<lambda>n. (n, sample_time)) sample_store (lit ''s'') 2 [pending ''a/d'' [] 1]) = Inr es"
    by (auto simp: is_ok_iff)
  from one_writer_wins[OF sample_store_ok this, of "[]" "[]"] show ?thesis by simp
qed

end
