(* ===== verification/Transactions.thy ===== *)
theory Transactions imports Event_Store begin

text \<open>
  What the write transactions of the control plane share: a transaction is an action on the
  store, it reads one or more streams, decides, and appends one fact at the head it read. What
  other writers do to the store between the reads and the append is an argument. When the append
  is refused, the stream is read again to tell whether the same fact is there after all
  (agents/commit_reconciliation.py).
\<close>

section \<open>Actions on a store\<close>

type_synonym ('s, 'a) action = "'s \<Rightarrow> 's \<times> 'a result"

definition lift_result :: "'a result \<Rightarrow> ('s, 'a) action" where
  "lift_result r st = (st, r)"

definition reading :: "('s \<Rightarrow> 'a result) \<Rightarrow> ('s, 'a) action" where
  "reading g st = (st, g st)"

definition abind :: "('s, 'a) action \<Rightarrow> ('a \<Rightarrow> ('s, 'b) action) \<Rightarrow> ('s, 'b) action" where
  "abind m f st = (case m st of (st', Inl e) \<Rightarrow> (st', Inl e) | (st', Inr x) \<Rightarrow> f x st')"

lemma abind_simps [simp]:
  "abind (lift_result (Inl e)) f st = (st, Inl e)" "abind (lift_result (Inr x)) f st = f x st"
  "abind (reading g) f st = (case g st of Inl e \<Rightarrow> (st, Inl e) | Inr x \<Rightarrow> f x st)"
  by (simp_all add: abind_def lift_result_def reading_def split: sum.split)

lemma abind_result: "m st = (st', r) \<Longrightarrow> abind m f st = (case r of Inl e \<Rightarrow> (st', Inl e) | Inr x \<Rightarrow> f x st')"
  by (simp add: abind_def split: sum.split)

lemma abind_liftE:
  assumes "abind (lift_result r) f st = (st1, x)"
  obtains (error) e where "r = Inl e" "st1 = st" "x = Inl e" | (go) y where "r = Inr y" "f y st = (st1, x)"
  using assms by (cases r) auto

lemma abind_readingE:
  assumes "abind (reading g) f st = (st1, x)"
  obtains (error) e where "g st = Inl e" "st1 = st" "x = Inl e" | (go) y where "g st = Inr y" "f y st = (st1, x)"
  using assms by (cases "g st") auto

lemma lift_resultE: "lift_result r st = (st1, x) \<Longrightarrow> (st1 = st \<Longrightarrow> x = r \<Longrightarrow> P) \<Longrightarrow> P"
  by (simp add: lift_result_def)

text \<open>\<open>try: m finally: f\<close>: a failure of the last part replaces the outcome of the first.\<close>

definition try_finally :: "('s, 'a) action \<Rightarrow> ('s, unit) action \<Rightarrow> ('s, 'a) action" where
  "try_finally m f st = (let (st1, r) = m st in case f st1 of (st2, Inl e) \<Rightarrow> (st2, Inl e) | (st2, Inr _) \<Rightarrow> (st2, r))"

lemma abind_Inr:
  assumes "abind m f st = (st2, Inr y)"
  obtains st1 x where "m st = (st1, Inr x)" "f x st1 = (st2, Inr y)"
  using assms by (cases "m st"; cases "snd (m st)") (auto simp: abind_def)

lemma try_finally_Inr: "try_finally m f st = (st2, Inr y) \<Longrightarrow> \<exists>st1. m st = (st1, Inr y)"
  by (cases "m st"; cases "f (fst (m st))"; cases "snd (f (fst (m st)))") (auto simp: try_finally_def)

section \<open>Appending one fact and reconciling a refused append\<close>

definition committed_after_failure :: "event_envelope list option \<Rightarrow> (event_envelope \<Rightarrow> bool) \<Rightarrow> bool option" where
  \<comment> \<open>the read is \<open>None\<close> when it fails: then whether the fact was written is unknown\<close>
  "committed_after_failure read matches =
     (case read of None \<Rightarrow> None | Some events \<Rightarrow> Some (list_ex matches events))"

fun is_concurrency_conflict :: "exn \<Rightarrow> bool" where
  "is_concurrency_conflict (ConcurrencyConflict _ _) = True"
| "is_concurrency_conflict _ = False"

definition explain_failed_append :: "exn \<Rightarrow> (bool option \<Rightarrow> exn) \<Rightarrow> exn \<Rightarrow> bool option \<Rightarrow> exn" where
  "explain_failed_append conflict unknown error committed =
     (if is_concurrency_conflict error \<and> committed = Some False then conflict else unknown committed)"

definition append_fact ::
    "drawn \<Rightarrow> (event_store \<Rightarrow> event_store) \<Rightarrow> pystr \<Rightarrow> int \<Rightarrow> pending_event \<Rightarrow> (event_envelope \<Rightarrow> bool)
       \<Rightarrow> (exn \<Rightarrow> bool option \<Rightarrow> exn) \<Rightarrow> (event_store, event_envelope) action" where
  "append_fact dr others sid expected_seq event matches explain st =
     (case append_events dr sid expected_seq [event] (others st) of
        (st', Inr appended) \<Rightarrow> (st', Inr (hd appended))
      | (st', Inl error) \<Rightarrow>
          (st', Inl (explain error (committed_after_failure (Some (read_events st' sid 1)) matches))))"

abbreviation fact_envelope :: "drawn \<Rightarrow> pystr \<Rightarrow> int \<Rightarrow> pending_event \<Rightarrow> event_envelope" where
  "fact_envelope dr sid n p \<equiv> materialize (fst (dr n)) (snd (dr n)) sid n p"

lemma append_fact_stream:
  "stream_of (fst (append_fact dr others sid n p m ex st)) sid' =
     (if sid' = sid \<and> head_seq (others st) sid = n
      then stream_of (others st) sid @ [fact_envelope dr sid (n + 1) p] else stream_of (others st) sid')"
  using append_events_stream[of dr sid n "[p]" "others st" sid']
  by (auto simp: append_fact_def split: prod.split sum.split)

lemma append_fact_ok: "store_ok (others st) \<Longrightarrow> store_ok (fst (append_fact dr others sid n p m ex st))"
  using store_ok_append[of "others st" dr sid n "[p]"] by (auto simp: append_fact_def split: prod.split sum.split)

lemma append_fact_result:
  assumes "store_ok (others st)"
  shows "snd (append_fact dr others sid n p m ex st) =
    (if head_seq (others st) sid = n then Inr (fact_envelope dr sid (n + 1) p)
     else Inl (ex (ConcurrencyConflict n (head_seq (others st) sid)) (Some (list_ex m (stream_of (others st) sid)))))"
proof -
  let ?a = "append_events dr sid n [p] (others st)"
  have "stream_of (fst ?a) sid = stream_of (others st) sid" if "head_seq (others st) sid \<noteq> n"
    using append_events_stream[of dr sid n "[p]" "others st" sid] that by simp
  then have "read_events (fst ?a) sid 1 = stream_of (others st) sid" if "head_seq (others st) sid \<noteq> n"
    using that read_events_all store_ok_append[OF assms] by metis
  then show ?thesis
    using append_events_result[of dr sid n "[p]" "others st"]
    by (cases ?a) (auto simp: append_fact_def committed_after_failure_def split: sum.split)
qed

section \<open>What other writers may do\<close>

definition extends :: "event_store \<Rightarrow> event_store \<Rightarrow> bool" where
  "extends st st' \<longleftrightarrow> store_ok st' \<and> (\<forall>sid. \<exists>xs. stream_of st' sid = stream_of st sid @ xs)"

lemma extends_refl: "store_ok st \<Longrightarrow> extends st st"
  by (simp add: extends_def)

lemma extends_trans: "extends a b \<Longrightarrow> extends b c \<Longrightarrow> extends a c"
  unfolding extends_def by (metis append.assoc)

lemma append_fact_extends: "extends st (others st) \<Longrightarrow> extends st (fst (append_fact dr others sid n p m ex st))"
  unfolding extends_def using append_fact_ok[of others st dr sid n p m ex]
  by (auto simp: append_fact_stream) (metis append.assoc)

section \<open>A stream kept readable by its transaction\<close>

text \<open>
  The contract between a projector and the transaction that writes its stream. A stream is read
  into a view which knows the number of its events; the transaction appends at that number.
  Whatever other writers do, as long as they only extend the stream and keep it readable, the
  stream stays readable, provided the fact is accepted after the view it was decided on: a lost
  race writes nothing.
\<close>

locale fact_log =
  fixes rebuild :: "event_envelope list \<Rightarrow> 'v result" and head :: "'v \<Rightarrow> int"
  assumes head_length: "numbered sid es \<Longrightarrow> rebuild es = Inr v \<Longrightarrow> head v = int (length es)"
begin

lemma fresh_append:
  assumes ok: "store_ok st" "store_ok (others st)" and view: "rebuild (stream_of st sid) = Inr v"
    and grows: "stream_of (others st) sid = stream_of st sid @ xs"
  shows "head_seq (others st) sid = head v \<longleftrightarrow> xs = []"
proof -
  have "head v = int (length (stream_of st sid))" using head_length[OF store_ok_stream[OF ok(1)] view] .
  then show ?thesis using head_seq_length[OF ok(2)] grows by simp
qed

lemma transaction_outcome:
  assumes ok: "store_ok st" and grow: "extends st (others st)" and view: "rebuild (stream_of st sid) = Inr v"
    and accepted: "rebuild (stream_of st sid @ [fact_envelope dr sid (head v + 1) p]) = Inr v'"
    and run: "append_fact dr others sid (head v) p m ex st = (st1, x)"
  obtains (won) "x = Inr (fact_envelope dr sid (head v + 1) p)" "stream_of (others st) sid = stream_of st sid"
      "\<And>sid'. stream_of st1 sid' =
         (if sid' = sid then stream_of st sid @ [fact_envelope dr sid (head v + 1) p] else stream_of (others st) sid')"
      "rebuild (stream_of st1 sid) = Inr v'" "store_ok st1"
  | (lost) e where "x = Inl e" "\<And>sid'. stream_of st1 sid' = stream_of (others st) sid'" "store_ok st1"
proof -
  have ok1: "store_ok (others st)" using grow by (simp add: extends_def)
  obtain xs where xs: "stream_of (others st) sid = stream_of st sid @ xs" using grow by (auto simp: extends_def)
  have fresh: "head_seq (others st) sid = head v \<longleftrightarrow> xs = []" using fresh_append[of st others sid v xs, OF ok ok1 view xs] .
  have st1: "st1 = fst (append_fact dr others sid (head v) p m ex st)" "x = snd (append_fact dr others sid (head v) p m ex st)"
    using run by simp_all
  have ok2: "store_ok st1" using append_fact_ok[of others st, OF ok1] by (simp add: st1(1))
  show thesis
  proof (cases "xs = []")
    case True
    then show thesis using won fresh xs accepted ok2 append_fact_result[of others st, OF ok1] by (simp add: st1 append_fact_stream)
  next
    case False
    then show thesis using lost fresh ok2 append_fact_result[of others st, OF ok1] by (simp add: st1 append_fact_stream)
  qed
qed

end

end
