(* ===== verification/Agent_Identity.thy ===== *)
theory Agent_Identity imports Events begin

text \<open>
  What an Agent identity is (agents/identity.py and the values of api/agents.py): the rule for
  identifiers, the specification of an Agent and its validation, the creation payload and its
  parser. Writer and replay share the rules; the round trip below is what that buys.
\<close>

section \<open>Values\<close>

datatype message_target = NEW_TURN | NEXT_STEP

definition message_target_value :: "message_target \<Rightarrow> pystr" where
  "message_target_value t = (case t of NEW_TURN \<Rightarrow> lit ''new_turn'' | NEXT_STEP \<Rightarrow> lit ''next_step'')"

record agent_message =
  msg_message_id :: pystr
  msg_content :: pystr
  msg_source :: pystr
  msg_correlation_id :: "pystr option"
  msg_causation_id :: "pystr option"

record agent_spec =
  spec_preset :: pystr
  spec_workspace_id :: pystr
  spec_owner_agent_id :: "pystr option"
  spec_forked_from_session_id :: "pystr option"
  spec_capability_grants :: "pystr list"
  spec_metadata :: json

record agent_record =
  rec_agent_id :: pystr
  rec_session_id :: pystr
  rec_request_id :: pystr
  rec_preset :: pystr
  rec_workspace_id :: pystr
  rec_owner_agent_id :: "pystr option"
  rec_forked_from_session_id :: "pystr option"
  rec_capability_grants :: "pystr list"
  rec_metadata :: payload
  rec_created_seq :: int

abbreviation AGENT_DIRECTORY_STREAM :: pystr where
  "AGENT_DIRECTORY_STREAM \<equiv> lit ''agents:directory''"

abbreviation AGENT_CREATED :: string where
  "AGENT_CREATED \<equiv> ''agent/created''"

definition MAX_IDENTIFIER_LENGTH :: int where
  "MAX_IDENTIFIER_LENGTH = 256"

definition MAX_METADATA_DEPTH :: int where
  "MAX_METADATA_DEPTH = 64"

definition AGENT_CREATED_KEYS :: "string list" where
  "AGENT_CREATED_KEYS = [''agent_id'', ''session_id'', ''request_id'', ''preset'', ''workspace_id'',
     ''owner_agent_id'', ''forked_from_session_id'', ''capability_grants'', ''metadata'']"

section \<open>Identifiers\<close>

definition ident_ok :: "pystr \<Rightarrow> bool" where
  "ident_ok value =
     (if value = [] \<or> value \<noteq> py_strip value then False
      else if MAX_IDENTIFIER_LENGTH < py_len value then False
      else is_single_line_safe value)"

definition is_agent_identifier :: "json \<Rightarrow> bool" where
  "is_agent_identifier value = (case value of JStr s \<Rightarrow> ident_ok s | _ \<Rightarrow> False)"

definition require_identifier :: "pystr \<Rightarrow> string \<Rightarrow> pystr result" where
  "require_identifier value field =
     (if is_agent_identifier (JStr value) then Inr value
      else Inl (AgentIdentityError ''agent-identity-invalid'' field))"

lemma is_agent_identifier_JStr [simp]: "is_agent_identifier (JStr s) = ident_ok s"
  by (simp add: is_agent_identifier_def)

lemma is_agent_identifier_iff: "is_agent_identifier v \<longleftrightarrow> (\<exists>s. v = JStr s \<and> ident_ok s)"
  by (auto simp: is_agent_identifier_def split: json.splits)

lemma ident_ok_one_line: "ident_ok s \<Longrightarrow> c \<in> set s \<Longrightarrow> \<not> splitlines_break c"
  by (auto simp: ident_ok_def single_line_safe_no_break split: if_splits)

text \<open>
  The readers of the payloads of every stream take the identifier under a key, each with the
  protocol error of its own stream.
\<close>

definition read_identifier_or :: "exn \<Rightarrow> payload \<Rightarrow> string \<Rightarrow> pystr result" where
  "read_identifier_or e data key =
     (case jget data key of
        JStr s \<Rightarrow> (if ident_ok s then Inr s else Inl e)
      | _ \<Rightarrow> Inl e)"

definition read_optional_identifier_or :: "exn \<Rightarrow> payload \<Rightarrow> string \<Rightarrow> pystr option result" where
  "read_optional_identifier_or e data key =
     rbind (jindex data key) (\<lambda>value.
       case value of
         JNull \<Rightarrow> Inr None
       | JStr s \<Rightarrow> (if ident_ok s then Inr (Some s) else Inl e)
       | _ \<Rightarrow> Inl e)"

lemma read_identifier_or_Inr [result_simps]:
  "read_identifier_or e d k = Inr s \<longleftrightarrow> jget d k = JStr s \<and> ident_ok s"
  by (auto simp: read_identifier_or_def split: json.splits)

lemma read_identifier_or_Inl [result_simps]:
  "read_identifier_or e d k = Inl x \<longleftrightarrow> x = e \<and> \<not> is_agent_identifier (jget d k)"
  by (auto simp: read_identifier_or_def is_agent_identifier_def split: json.splits)

lemma read_optional_identifier_or_Inr [result_simps]:
  "read_optional_identifier_or e d k = Inr x \<longleftrightarrow>
     jindex d k = Inr (json_opt x) \<and> (\<forall>s. x = Some s \<longrightarrow> ident_ok s)"
proof (cases "jindex d k")
  case (Inr v)
  then show ?thesis
    by (cases v; cases x) (auto simp: read_optional_identifier_or_def)
qed (simp add: read_optional_identifier_or_def)

section \<open>Metadata\<close>

primrec metadata_graph_is_bounded :: "json \<Rightarrow> int \<Rightarrow> bool" where
  "metadata_graph_is_bounded JNull depth = (\<not> MAX_METADATA_DEPTH < depth)"
| "metadata_graph_is_bounded (JBool b) depth = (\<not> MAX_METADATA_DEPTH < depth)"
| "metadata_graph_is_bounded (JInt i) depth = (\<not> MAX_METADATA_DEPTH < depth)"
| "metadata_graph_is_bounded (JFloat t) depth = (\<not> MAX_METADATA_DEPTH < depth)"
| "metadata_graph_is_bounded (JStr s) depth = (\<not> MAX_METADATA_DEPTH < depth)"
| "metadata_graph_is_bounded (JList vs) depth =
     (\<not> MAX_METADATA_DEPTH < depth \<and>
      list_all (\<lambda>bounded. bounded (depth + 1)) (map metadata_graph_is_bounded vs))"
| "metadata_graph_is_bounded (JDict kvs) depth =
     (\<not> MAX_METADATA_DEPTH < depth \<and>
      list_all (\<lambda>kb. snd kb (depth + 1)) (map (map_prod id metadata_graph_is_bounded) kvs))"

definition normalized_metadata :: "json \<Rightarrow> payload option" where
  "normalized_metadata value =
     (case value of
        JDict kvs \<Rightarrow>
          (if metadata_graph_is_bounded value 0
           then Some (map (\<lambda>(key, item). (key, to_json_value item)) kvs) else None)
      | _ \<Rightarrow> None)"

lemma normalized_metadata_Some:
  "normalized_metadata v = Some d \<longleftrightarrow> v = JDict d \<and> metadata_graph_is_bounded v 0"
  by (auto simp: normalized_metadata_def split: json.splits if_splits)

section \<open>Specifications\<close>

fun check_grants :: "pystr list \<Rightarrow> pystr list \<Rightarrow> unit result" where
  "check_grants seen [] = Inr ()"
| "check_grants seen (grant # rest) =
     rbind (require_identifier grant ''capability_grants'') (\<lambda>_.
       if grant \<in> set seen then Inl (AgentIdentityError ''agent-grants-invalid'' ''capability_grants'')
       else check_grants (seen @ [grant]) rest)"

definition require_optional_identifier :: "pystr option \<Rightarrow> string \<Rightarrow> unit result" where
  "require_optional_identifier value field =
     (case value of None \<Rightarrow> Inr () | Some s \<Rightarrow> rbind (require_identifier s field) (\<lambda>_. Inr ()))"

definition validate_spec :: "agent_spec \<Rightarrow> unit result" where
  "validate_spec spec =
     rbind (require_identifier (spec_preset spec) ''preset'') (\<lambda>_.
     rbind (require_identifier (spec_workspace_id spec) ''workspace_id'') (\<lambda>_.
     rbind (require_optional_identifier (spec_owner_agent_id spec) ''owner_agent_id'') (\<lambda>_.
     rbind (require_optional_identifier (spec_forked_from_session_id spec) ''forked_from_session_id'') (\<lambda>_.
     rbind (check_grants [] (spec_capability_grants spec)) (\<lambda>_.
       if normalized_metadata (spec_metadata spec) = None
       then Inl (AgentIdentityError ''agent-metadata-invalid'' ''metadata'') else Inr ())))))"

definition freeze_agent_spec :: "agent_spec \<Rightarrow> agent_spec result" where
  "freeze_agent_spec spec =
     rbind (validate_spec spec) (\<lambda>_.
       case normalized_metadata (spec_metadata spec) of
         None \<Rightarrow> Inl PyAssertionError
       | Some metadata \<Rightarrow> Inr (spec\<lparr>spec_metadata := JDict metadata\<rparr>))"

definition agent_spec_request_fingerprint :: "(pystr \<Rightarrow> pystr) \<Rightarrow> agent_spec \<Rightarrow> pystr result" where
  "agent_spec_request_fingerprint sha spec =
     rbind (freeze_agent_spec spec) (\<lambda>frozen.
       Inr (fingerprint sha (JDict
         [(lit ''preset'', JStr (spec_preset frozen)),
          (lit ''workspace_id'', JStr (spec_workspace_id frozen)),
          (lit ''owner_agent_id'', json_opt (spec_owner_agent_id frozen)),
          (lit ''forked_from_session_id'', json_opt (spec_forked_from_session_id frozen)),
          (lit ''capability_grants'', JList (map JStr (spec_capability_grants frozen)))])))"

lemma require_identifier_Inr [result_simps]:
  "require_identifier s f = Inr t \<longleftrightarrow> t = s \<and> ident_ok s"
  by (auto simp: require_identifier_def)

lemma require_optional_identifier_Inr [result_simps]:
  "require_optional_identifier x f = Inr u \<longleftrightarrow> (\<forall>s. x = Some s \<longrightarrow> ident_ok s)"
  by (auto simp: require_optional_identifier_def result_simps split: option.splits)

lemma check_grants_Inr [result_simps]:
  "check_grants seen gs = Inr u \<longleftrightarrow> (\<forall>g\<in>set gs. ident_ok g) \<and> distinct gs \<and> set seen \<inter> set gs = {}"
  by (induction seen gs rule: check_grants.induct) (auto simp: result_simps)

lemma validate_spec_Inr:
  "validate_spec spec = Inr () \<longleftrightarrow>
     ident_ok (spec_preset spec) \<and> ident_ok (spec_workspace_id spec) \<and>
     (\<forall>s. spec_owner_agent_id spec = Some s \<longrightarrow> ident_ok s) \<and>
     (\<forall>s. spec_forked_from_session_id spec = Some s \<longrightarrow> ident_ok s) \<and>
     (\<forall>g\<in>set (spec_capability_grants spec). ident_ok g) \<and> distinct (spec_capability_grants spec) \<and>
     (\<exists>d. normalized_metadata (spec_metadata spec) = Some d)"
  by (auto simp: validate_spec_def result_simps)

section \<open>The creation payload and its parser\<close>

definition agent_created_data :: "pystr \<Rightarrow> pystr \<Rightarrow> pystr \<Rightarrow> agent_spec \<Rightarrow> payload result" where
  "agent_created_data agent_id session_id request_id spec =
     (case normalized_metadata (spec_metadata spec) of
        None \<Rightarrow> Inl (AgentIdentityError ''agent-metadata-invalid'' ''metadata'')
      | Some metadata \<Rightarrow> Inr
          [(lit ''agent_id'', JStr agent_id),
           (lit ''session_id'', JStr session_id),
           (lit ''request_id'', JStr request_id),
           (lit ''preset'', JStr (spec_preset spec)),
           (lit ''workspace_id'', JStr (spec_workspace_id spec)),
           (lit ''owner_agent_id'', json_opt (spec_owner_agent_id spec)),
           (lit ''forked_from_session_id'', json_opt (spec_forked_from_session_id spec)),
           (lit ''capability_grants'', JList (map JStr (spec_capability_grants spec))),
           (lit ''metadata'', JDict metadata)])"

definition detach_record :: "agent_record \<Rightarrow> agent_record" where
  "detach_record record =
     record\<lparr>rec_metadata := map (\<lambda>(key, value). (key, to_json_value value)) (rec_metadata record)\<rparr>"

lemma detach_record_id [simp]: "detach_record r = r"
  by (simp add: detach_record_def)

fun read_grant_items :: "int \<Rightarrow> pystr list \<Rightarrow> json list \<Rightarrow> pystr list result" where
  "read_grant_items seq grants [] = Inr grants"
| "read_grant_items seq grants (item # rest) =
     (case item of
        JStr s \<Rightarrow>
          (if \<not> ident_ok s then Inl (AgentDirectoryProtocolError ''agent-grants-invalid'' seq)
           else if s \<in> set grants then Inl (AgentDirectoryProtocolError ''agent-grants-invalid'' seq)
           else read_grant_items seq (grants @ [s]) rest)
      | _ \<Rightarrow> Inl (AgentDirectoryProtocolError ''agent-grants-invalid'' seq))"

definition read_grants :: "payload \<Rightarrow> int \<Rightarrow> pystr list result" where
  "read_grants data seq =
     (case jget data ''capability_grants'' of
        JList items \<Rightarrow> read_grant_items seq [] items
      | _ \<Rightarrow> Inl (AgentDirectoryProtocolError ''agent-grants-invalid'' seq))"

definition read_metadata :: "payload \<Rightarrow> int \<Rightarrow> payload result" where
  "read_metadata data seq =
     (case normalized_metadata (jget data ''metadata'') of
        None \<Rightarrow> Inl (AgentDirectoryProtocolError ''agent-metadata-invalid'' seq)
      | Some metadata \<Rightarrow> Inr metadata)"

definition read_agent_fields :: "payload \<Rightarrow> int \<Rightarrow> agent_record result" where
  "read_agent_fields data seq =
     (let bad = AgentDirectoryProtocolError ''agent-identity-invalid'' seq in
      rbind (read_identifier_or bad data ''agent_id'') (\<lambda>agent_id.
      rbind (read_identifier_or bad data ''session_id'') (\<lambda>session_id.
      rbind (read_identifier_or bad data ''request_id'') (\<lambda>request_id.
      rbind (read_identifier_or bad data ''preset'') (\<lambda>preset.
      rbind (read_identifier_or bad data ''workspace_id'') (\<lambda>workspace_id.
      rbind (read_optional_identifier_or bad data ''owner_agent_id'') (\<lambda>owner.
      rbind (read_optional_identifier_or bad data ''forked_from_session_id'') (\<lambda>forked.
      rbind (read_grants data seq) (\<lambda>grants.
      rbind (read_metadata data seq) (\<lambda>metadata.
        Inr \<lparr>rec_agent_id = agent_id, rec_session_id = session_id, rec_request_id = request_id,
             rec_preset = preset, rec_workspace_id = workspace_id, rec_owner_agent_id = owner,
             rec_forked_from_session_id = forked, rec_capability_grants = grants,
             rec_metadata = metadata, rec_created_seq = seq\<rparr>))))))))))"

definition read_agent_created :: "event_envelope \<Rightarrow> agent_record result" where
  "read_agent_created event =
     (let seq = ev_seq event in
      if ev_type event \<noteq> lit AGENT_CREATED
      then Inl (AgentDirectoryProtocolError ''agent-event-type-unknown'' seq)
      else if ev_stream_id event \<noteq> AGENT_DIRECTORY_STREAM
      then Inl (AgentDirectoryProtocolError ''agent-stream-unexpected'' seq)
      else if ev_schema_version event = 1
      then Inl (AgentDirectoryProtocolError ''agent-budget-history-unsupported'' seq)
      else if ev_schema_version event \<noteq> 2
      then Inl (AgentDirectoryProtocolError ''agent-schema-version-unsupported'' seq)
      else case ev_data event of
        JDict data \<Rightarrow>
          (if \<not> keys_are data AGENT_CREATED_KEYS
           then Inl (AgentDirectoryProtocolError ''agent-payload-keys-unexpected'' seq)
           else read_agent_fields data seq)
      | _ \<Rightarrow> Inl (AgentDirectoryProtocolError ''agent-payload-invalid'' seq))"

definition is_directory_protocol_error :: "exn \<Rightarrow> bool" where
  "is_directory_protocol_error e = (case e of AgentDirectoryProtocolError _ _ \<Rightarrow> True | _ \<Rightarrow> False)"

definition parse_agent_created :: "event_envelope \<Rightarrow> agent_record result" where
  "parse_agent_created event =
     wrap_unless is_directory_protocol_error
       (AgentDirectoryProtocolError ''agent-payload-invalid'' (ev_seq event))
       (read_agent_created event)"

section \<open>Matching a retry and recognising one's own event\<close>

definition field_is :: "payload \<Rightarrow> string \<Rightarrow> json \<Rightarrow> bool result" where
  "field_is data key v = rbind (jindex data key) (\<lambda>w. Inr (v = w))"

fun all_hold :: "bool result list \<Rightarrow> bool result" where
  \<comment> \<open>a chain of \<open>and\<close>, left to right\<close>
  "all_hold [] = Inr True"
| "all_hold (b # bs) = rbind b (\<lambda>x. if x then all_hold bs else Inr False)"

definition creation_matches :: "agent_record \<Rightarrow> payload \<Rightarrow> bool result" where
  "creation_matches record data =
     all_hold
       [field_is data ''preset'' (JStr (rec_preset record)),
        field_is data ''workspace_id'' (JStr (rec_workspace_id record)),
        field_is data ''owner_agent_id'' (json_opt (rec_owner_agent_id record)),
        field_is data ''forked_from_session_id'' (json_opt (rec_forked_from_session_id record)),
        field_is data ''capability_grants'' (JList (map JStr (rec_capability_grants record)))]"

definition is_creation_fact :: "event_envelope \<Rightarrow> payload \<Rightarrow> bool" where
  "is_creation_fact event data =
     (case parse_agent_created event of
        Inl _ \<Rightarrow> False
      | Inr _ \<Rightarrow> canonical_json (ev_data event) = canonical_json (JDict data))"

section \<open>Writer and replay agree\<close>

lemma read_grant_items_Inr:
  "read_grant_items seq gs items = Inr out \<longleftrightarrow>
     (\<exists>ss. items = map JStr ss \<and> out = gs @ ss \<and> (\<forall>s\<in>set ss. ident_ok s) \<and> distinct ss \<and> set gs \<inter> set ss = {})"
proof (induction seq gs items arbitrary: out rule: read_grant_items.induct)
  case (2 seq grants item rest)
  show ?case
  proof (cases item)
    case (JStr s)
    show ?thesis
    proof (cases "ident_ok s \<and> s \<notin> set grants")
      case True
      with JStr show ?thesis by (auto simp: "2.IH"[OF JStr] Cons_eq_map_conv)
    qed (use JStr in \<open>auto simp: Cons_eq_map_conv\<close>)
  qed (auto simp: Cons_eq_map_conv)
qed auto

lemma read_grant_items_error:
  "read_grant_items seq gs items = Inl e \<Longrightarrow> e = AgentDirectoryProtocolError ''agent-grants-invalid'' seq"
  by (induction seq gs items rule: read_grant_items.induct) (auto split: json.splits if_splits)

lemma read_grants_Inr [result_simps]:
  "read_grants d seq = Inr gs \<longleftrightarrow>
     jget d ''capability_grants'' = JList (map JStr gs) \<and> (\<forall>g\<in>set gs. ident_ok g) \<and> distinct gs"
  by (auto simp: read_grants_def read_grant_items_Inr split: json.splits)

lemma read_metadata_Inr [result_simps]:
  "read_metadata d seq = Inr m \<longleftrightarrow>
     jget d ''metadata'' = JDict m \<and> metadata_graph_is_bounded (JDict m) 0"
proof -
  have "read_metadata d seq = Inr m \<longleftrightarrow> normalized_metadata (jget d ''metadata'') = Some m"
    by (simp add: read_metadata_def split: option.splits)
  then show ?thesis unfolding normalized_metadata_Some by metis
qed

definition record_ok :: "agent_record \<Rightarrow> bool" where
  "record_ok r \<longleftrightarrow>
     (\<forall>s \<in> {rec_agent_id r, rec_session_id r, rec_request_id r, rec_preset r, rec_workspace_id r}.
        ident_ok s) \<and>
     (\<forall>s. rec_owner_agent_id r = Some s \<longrightarrow> ident_ok s) \<and>
     (\<forall>s. rec_forked_from_session_id r = Some s \<longrightarrow> ident_ok s) \<and>
     (\<forall>g \<in> set (rec_capability_grants r). ident_ok g) \<and> distinct (rec_capability_grants r) \<and>
     metadata_graph_is_bounded (JDict (rec_metadata r)) 0"

lemma read_agent_fields_Inr:
  "read_agent_fields d seq = Inr r \<longleftrightarrow>
     record_ok r \<and> rec_created_seq r = seq \<and>
     jget d ''agent_id'' = JStr (rec_agent_id r) \<and> jget d ''session_id'' = JStr (rec_session_id r) \<and>
     jget d ''request_id'' = JStr (rec_request_id r) \<and> jget d ''preset'' = JStr (rec_preset r) \<and>
     jget d ''workspace_id'' = JStr (rec_workspace_id r) \<and>
     jindex d ''owner_agent_id'' = Inr (json_opt (rec_owner_agent_id r)) \<and>
     jindex d ''forked_from_session_id'' = Inr (json_opt (rec_forked_from_session_id r)) \<and>
     jget d ''capability_grants'' = JList (map JStr (rec_capability_grants r)) \<and>
     jget d ''metadata'' = JDict (rec_metadata r)"
  by (cases r) (auto simp: read_agent_fields_def Let_def result_simps record_ok_def)

lemma parse_agent_created_Inr:
  "parse_agent_created ev = Inr r \<longleftrightarrow>
     ev_type ev = lit AGENT_CREATED \<and> ev_stream_id ev = AGENT_DIRECTORY_STREAM \<and>
     ev_schema_version ev = 2 \<and>
     (\<exists>d. ev_data ev = JDict d \<and> keys_are d AGENT_CREATED_KEYS \<and> read_agent_fields d (ev_seq ev) = Inr r)"
  by (auto simp: parse_agent_created_def read_agent_created_def Let_def result_simps split: json.splits)

lemma read_optional_identifier_or_Inl:
  "read_optional_identifier_or e d k = Inl x \<Longrightarrow> x = e \<or> x = PyKeyError"
proof (cases "jindex d k")
  case (Inr v)
  then show "read_optional_identifier_or e d k = Inl x \<Longrightarrow> ?thesis"
    by (cases v) (auto simp: read_optional_identifier_or_def split: if_splits)
qed (auto simp: read_optional_identifier_or_def jindex_def split: option.splits)

lemma read_grants_error:
  "read_grants d seq = Inl e \<Longrightarrow> e = AgentDirectoryProtocolError ''agent-grants-invalid'' seq"
  by (cases "jget d ''capability_grants''") (auto simp: read_grants_def dest: read_grant_items_error)

lemma read_metadata_error:
  "read_metadata d seq = Inl e \<Longrightarrow> e = AgentDirectoryProtocolError ''agent-metadata-invalid'' seq"
  by (auto simp: read_metadata_def split: option.splits)

lemma read_agent_fields_error:
  "read_agent_fields d seq = Inl e \<Longrightarrow> e = PyKeyError \<or> (\<exists>code. e = AgentDirectoryProtocolError code seq)"
  unfolding read_agent_fields_def Let_def rbind_eq_Inl read_identifier_or_Inl
  using read_optional_identifier_or_Inl read_grants_error read_metadata_error by (elim disjE exE conjE) blast+

lemma read_agent_created_error:
  "read_agent_created ev = Inl e \<Longrightarrow> e = PyKeyError \<or> (\<exists>code. e = AgentDirectoryProtocolError code (ev_seq ev))"
  unfolding read_agent_created_def Let_def
  by (cases "ev_data ev") (auto split: if_splits dest: read_agent_fields_error)

lemma parse_agent_created_error:
  "parse_agent_created ev = Inl e \<Longrightarrow> \<exists>code. e = AgentDirectoryProtocolError code (ev_seq ev)"
  unfolding parse_agent_created_def wrap_unless_eq_Inl
  by (auto simp: is_directory_protocol_error_def dest!: read_agent_created_error split: if_splits)

section \<open>Properties\<close>

text \<open>
  Every Agent record that replay accepts is well formed: its identifiers pass the one
  identifier rule, its grants are distinct identifiers, its metadata is bounded, and it carries
  the sequence number of its event, which is an \<open>agent/created\<close> fact of schema 2 on the
  directory stream with exactly the nine keys of the protocol.
\<close>

theorem parse_agent_created_sound:
  assumes "parse_agent_created ev = Inr r"
  shows "record_ok r \<and> rec_created_seq r = ev_seq ev \<and>
    ev_type ev = lit AGENT_CREATED \<and> ev_stream_id ev = AGENT_DIRECTORY_STREAM \<and>
    ev_schema_version ev = 2 \<and> (\<exists>d. ev_data ev = JDict d \<and> keys_are d AGENT_CREATED_KEYS)"
  using assms by (auto simp: parse_agent_created_Inr read_agent_fields_Inr)

definition sample_spec :: agent_spec where
  "sample_spec = \<lparr>spec_preset = lit ''coder'', spec_workspace_id = lit ''ws-1'',
     spec_owner_agent_id = Some (lit ''root''), spec_forked_from_session_id = None,
     spec_capability_grants = [lit ''shell'', lit ''read''],
     spec_metadata = JDict [(lit ''note'', JList [JBool True, JInt 1])]\<rparr>"

definition sample_created :: event_envelope where
  "sample_created = materialize 7 \<lparr>dt_micros = 0, dt_utcoffset = Some 0\<rparr> AGENT_DIRECTORY_STREAM 1
     (pending AGENT_CREATED (projr (agent_created_data (lit ''a1'') (lit ''s1'') (lit ''r1'') sample_spec)) 2)"

definition sample_record :: agent_record where
  "sample_record = \<lparr>rec_agent_id = lit ''a1'', rec_session_id = lit ''s1'', rec_request_id = lit ''r1'',
     rec_preset = lit ''coder'', rec_workspace_id = lit ''ws-1'',
     rec_owner_agent_id = Some (lit ''root''), rec_forked_from_session_id = None,
     rec_capability_grants = [lit ''shell'', lit ''read''],
     rec_metadata = [(lit ''note'', JList [JBool True, JInt 1])], rec_created_seq = 1\<rparr>"

lemma sample_created_parses: "parse_agent_created sample_created = Inr sample_record"
  by code_simp

theorem parse_agent_created_sound_witness:
  "parse_agent_created sample_created = Inr sample_record \<and> record_ok sample_record"
  using parse_agent_created_sound[OF sample_created_parses] sample_created_parses by blast

text \<open>
  What the creation transaction writes is what replay reads. For a valid specification and
  valid identifiers the payload is built, and an event that carries it on the directory stream
  parses to the record with exactly these values.
\<close>

theorem agent_created_roundtrip:
  assumes "validate_spec spec = Inr ()"
    and "ident_ok agent_id" "ident_ok session_id" "ident_ok request_id"
    and "ev_type ev = lit AGENT_CREATED" "ev_stream_id ev = AGENT_DIRECTORY_STREAM"
    and "ev_schema_version ev = 2"
  shows "\<exists>data metadata. agent_created_data agent_id session_id request_id spec = Inr data \<and>
    spec_metadata spec = JDict metadata \<and>
    parse_agent_created (ev\<lparr>ev_data := JDict data\<rparr>) = Inr
      \<lparr>rec_agent_id = agent_id, rec_session_id = session_id, rec_request_id = request_id,
       rec_preset = spec_preset spec, rec_workspace_id = spec_workspace_id spec,
       rec_owner_agent_id = spec_owner_agent_id spec,
       rec_forked_from_session_id = spec_forked_from_session_id spec,
       rec_capability_grants = spec_capability_grants spec,
       rec_metadata = metadata, rec_created_seq = ev_seq ev\<rparr>"
proof -
  obtain m where m: "normalized_metadata (spec_metadata spec) = Some m"
    using assms(1) by (auto simp: validate_spec_Inr)
  then have "spec_metadata spec = JDict m" "metadata_graph_is_bounded (JDict m) 0"
    unfolding normalized_metadata_Some by auto
  with assms m show ?thesis
    by (auto simp: agent_created_data_def parse_agent_created_Inr read_agent_fields_Inr
        validate_spec_Inr record_ok_def keys_are_def AGENT_CREATED_KEYS_def)
qed

theorem agent_created_roundtrip_witness:
  "\<exists>data metadata. agent_created_data (lit ''a1'') (lit ''s1'') (lit ''r1'') sample_spec = Inr data \<and>
    spec_metadata sample_spec = JDict metadata \<and>
    (\<exists>r. parse_agent_created (sample_created\<lparr>ev_data := JDict data\<rparr>) = Inr r \<and> rec_metadata r = metadata)"
proof -
  have v: "validate_spec sample_spec = Inr ()" by code_simp
  have i: "ident_ok (lit ''a1'')" "ident_ok (lit ''s1'')" "ident_ok (lit ''r1'')" by code_simp+
  have e: "ev_type sample_created = lit AGENT_CREATED" "ev_stream_id sample_created = AGENT_DIRECTORY_STREAM"
    "ev_schema_version sample_created = 2" by (simp_all add: sample_created_def)
  show ?thesis using agent_created_roundtrip[OF v i e] by force
qed

end
