(* ===== verification/Agent_Directory.thy ===== *)
theory Agent_Directory imports Agent_Identity begin

text \<open>
  The directory of Agents (agents/directory.py): the scan of the directory stream, which
  collects issues and skips the events at fault, the immutable view rebuilt from it and its
  queries. The view is the only proof the other components accept that an Agent exists.
\<close>

type_synonym issue = "string \<times> int"

record directory_scan =
  ds_records :: "agent_record list"
  ds_by_agent :: "(pystr, agent_record) dict"
  ds_by_session :: "(pystr, agent_record) dict"
  ds_by_request :: "(pystr, agent_record) dict"
  ds_issues :: "issue list"
  ds_head_seq :: int

definition empty_scan :: directory_scan where
  "empty_scan = \<lparr>ds_records = [], ds_by_agent = [], ds_by_session = [], ds_by_request = [],
     ds_issues = [], ds_head_seq = 0\<rparr>"

definition record_conflicts :: "directory_scan \<Rightarrow> int \<Rightarrow> agent_record \<Rightarrow> issue list" where
  "record_conflicts s seq record =
     (if dict_has (rec_agent_id record) (ds_by_agent s) then [(''agent-id-duplicate'', seq)] else []) @
     (if dict_has (rec_session_id record) (ds_by_session s) then [(''agent-session-duplicate'', seq)] else []) @
     (if dict_has (rec_request_id record) (ds_by_request s) then [(''agent-request-duplicate'', seq)] else []) @
     (case rec_owner_agent_id record of
        None \<Rightarrow> []
      | Some owner \<Rightarrow>
          if owner = rec_agent_id record then [(''agent-owner-self'', seq)]
          else if \<not> dict_has owner (ds_by_agent s) then [(''agent-owner-unknown'', seq)]
          else [])"

definition scan_event :: "event_envelope \<Rightarrow> directory_scan \<Rightarrow> directory_scan" where
  "scan_event event s0 =
     (let s = s0\<lparr>ds_head_seq := ev_seq event\<rparr> in
      case parse_agent_created event of
        Inl (AgentDirectoryProtocolError code seq) \<Rightarrow> s\<lparr>ds_issues := ds_issues s @ [(code, seq)]\<rparr>
      | Inl _ \<Rightarrow> s\<lparr>ds_issues := ds_issues s @ [(''agent-payload-invalid'', ev_seq event)]\<rparr>
      | Inr record \<Rightarrow>
          (let conflicts = record_conflicts s (ev_seq event) record in
           if conflicts \<noteq> [] then s\<lparr>ds_issues := ds_issues s @ conflicts\<rparr>
           else s\<lparr>ds_records := ds_records s @ [record],
                  ds_by_agent := dict_set (rec_agent_id record) record (ds_by_agent s),
                  ds_by_session := dict_set (rec_session_id record) record (ds_by_session s),
                  ds_by_request := dict_set (rec_request_id record) record (ds_by_request s)\<rparr>))"

definition scan_directory :: "event_envelope list \<Rightarrow> directory_scan" where
  "scan_directory events = fold scan_event events empty_scan"

definition validate_agent_directory_events :: "event_envelope list \<Rightarrow> issue list" where
  "validate_agent_directory_events events = ds_issues (scan_directory events)"

section \<open>The view\<close>

record agent_directory =
  dir_records :: "agent_record list"
  dir_head_seq :: int
  dir_by_agent :: "(pystr, agent_record) dict"
  dir_by_session :: "(pystr, agent_record) dict"
  dir_by_request :: "(pystr, agent_record) dict"

definition make_directory :: "agent_record list \<Rightarrow> int \<Rightarrow> agent_directory" where
  "make_directory records head =
     \<lparr>dir_records = records, dir_head_seq = head,
      dir_by_agent = fold (\<lambda>r. dict_set (rec_agent_id r) r) records [],
      dir_by_session = fold (\<lambda>r. dict_set (rec_session_id r) r) records [],
      dir_by_request = fold (\<lambda>r. dict_set (rec_request_id r) r) records []\<rparr>"

definition rebuild_directory :: "event_envelope list \<Rightarrow> agent_directory result" where
  "rebuild_directory events =
     (let s = scan_directory events in
      case ds_issues s of
        (code, seq) # _ \<Rightarrow> Inl (AgentDirectoryProtocolError code seq)
      | [] \<Rightarrow> Inr (make_directory (ds_records s) (ds_head_seq s)))"

definition directory_records :: "agent_directory \<Rightarrow> agent_record list" where
  "directory_records d = map detach_record (dir_records d)"

definition directory_get :: "agent_directory \<Rightarrow> pystr \<Rightarrow> agent_record option" where
  "directory_get d agent_id = map_option detach_record (map_of (dir_by_agent d) agent_id)"

definition directory_for_session :: "agent_directory \<Rightarrow> pystr \<Rightarrow> agent_record option" where
  "directory_for_session d session_id = map_option detach_record (map_of (dir_by_session d) session_id)"

definition directory_for_request :: "agent_directory \<Rightarrow> pystr \<Rightarrow> agent_record option" where
  "directory_for_request d request_id = map_option detach_record (map_of (dir_by_request d) request_id)"

definition children_of :: "agent_directory \<Rightarrow> pystr \<Rightarrow> agent_record list" where
  "children_of d agent_id =
     map detach_record (filter (\<lambda>r. rec_owner_agent_id r = Some agent_id) (dir_records d))"

section \<open>What a scan keeps\<close>

text \<open>
  Every index holds exactly the records under one of their identities, and every owner was
  recorded before the Agent it owns.
\<close>

definition owned_in_order :: "agent_record list \<Rightarrow> bool" where
  "owned_in_order rs \<longleftrightarrow>
     (\<forall>before r after a. rs = before @ r # after \<longrightarrow> rec_owner_agent_id r = Some a \<longrightarrow>
        a \<in> rec_agent_id ` set before)"

definition scan_inv :: "directory_scan \<Rightarrow> bool" where
  "scan_inv s \<longleftrightarrow> indexes rec_agent_id (ds_records s) (ds_by_agent s) \<and>
     indexes rec_session_id (ds_records s) (ds_by_session s) \<and>
     indexes rec_request_id (ds_records s) (ds_by_request s) \<and>
     owned_in_order (ds_records s) \<and> (\<forall>r \<in> set (ds_records s). record_ok r)"

lemma owned_in_order_snoc:
  "owned_in_order (rs @ [r]) \<longleftrightarrow> owned_in_order rs \<and>
     (\<forall>a. rec_owner_agent_id r = Some a \<longrightarrow> a \<in> rec_agent_id ` set rs)"
proof
  assume *: "owned_in_order (rs @ [r])"
  then show "owned_in_order rs \<and> (\<forall>a. rec_owner_agent_id r = Some a \<longrightarrow> a \<in> rec_agent_id ` set rs)"
    unfolding owned_in_order_def by (metis append.assoc append_Cons)
next
  assume *: "owned_in_order rs \<and> (\<forall>a. rec_owner_agent_id r = Some a \<longrightarrow> a \<in> rec_agent_id ` set rs)"
  show "owned_in_order (rs @ [r])"
    unfolding owned_in_order_def
  proof (intro allI impI)
    fix xs r' ys a
    assume eq: "rs @ [r] = xs @ r' # ys" and own: "rec_owner_agent_id r' = Some a"
    show "a \<in> rec_agent_id ` set xs"
    proof (cases ys rule: rev_cases)
      case Nil
      with eq own * show ?thesis by simp
    next
      case (snoc zs z)
      with eq have "rs = xs @ r' # zs" by simp
      with * own show ?thesis unfolding owned_in_order_def by blast
    qed
  qed
qed

lemma record_conflicts_Nil:
  "record_conflicts s seq r = [] \<longleftrightarrow>
     \<not> dict_has (rec_agent_id r) (ds_by_agent s) \<and> \<not> dict_has (rec_session_id r) (ds_by_session s) \<and>
     \<not> dict_has (rec_request_id r) (ds_by_request s) \<and>
     (\<forall>a. rec_owner_agent_id r = Some a \<longrightarrow> a \<noteq> rec_agent_id r \<and> dict_has a (ds_by_agent s))"
  by (auto simp: record_conflicts_def split: option.splits)

lemma scan_event_cases:
  obtains
    (issue) iss where "iss \<noteq> []" "scan_event e s = s\<lparr>ds_head_seq := ev_seq e, ds_issues := ds_issues s @ iss\<rparr>"
      "\<forall>r. parse_agent_created e = Inr r \<longrightarrow> record_conflicts s (ev_seq e) r \<noteq> []"
  | (accepted) r where "parse_agent_created e = Inr r" "record_conflicts s (ev_seq e) r = []"
      "scan_event e s = s\<lparr>ds_head_seq := ev_seq e, ds_records := ds_records s @ [r],
         ds_by_agent := dict_set (rec_agent_id r) r (ds_by_agent s),
         ds_by_session := dict_set (rec_session_id r) r (ds_by_session s),
         ds_by_request := dict_set (rec_request_id r) r (ds_by_request s)\<rparr>"
proof (cases "parse_agent_created e")
  case (Inl x)
  then obtain code where "x = AgentDirectoryProtocolError code (ev_seq e)"
    using parse_agent_created_error by blast
  with Inl show ?thesis by (intro issue[of "[(code, ev_seq e)]"]) (auto simp: scan_event_def Let_def)
next
  case (Inr r)
  have c: "record_conflicts (s\<lparr>ds_head_seq := ev_seq e\<rparr>) (ev_seq e) r = record_conflicts s (ev_seq e) r"
    by (simp add: record_conflicts_def split: option.split)
  show ?thesis
  proof (cases "record_conflicts s (ev_seq e) r = []")
    case True
    with Inr c show ?thesis by (intro accepted[of r]) (auto simp: scan_event_def Let_def)
  next
    case False
    with Inr c show ?thesis
      by (intro issue[of "record_conflicts s (ev_seq e) r"]) (auto simp: scan_event_def Let_def)
  qed
qed

lemma scan_event_inv: "scan_inv s \<Longrightarrow> scan_inv (scan_event e s)"
proof (cases rule: scan_event_cases[of e s])
  case (issue iss)
  then show "scan_inv s \<Longrightarrow> ?thesis" by (simp add: scan_inv_def)
next
  case (accepted r)
  assume inv: "scan_inv s"
  have "record_ok r" using accepted(1) by (simp add: parse_agent_created_Inr read_agent_fields_Inr) blast
  with inv accepted(2,3) show ?thesis
    unfolding scan_inv_def record_conflicts_Nil
    by (auto simp: indexes_snoc owned_in_order_snoc indexes_has)
qed

interpretation directory: issue_scan scan_event empty_scan ds_issues scan_inv
proof
  show "scan_inv empty_scan" by (simp add: scan_inv_def empty_scan_def owned_in_order_def)
  show "ds_issues empty_scan = []" by (simp add: empty_scan_def)
  show "scan_inv s \<Longrightarrow> scan_inv (scan_event e s)" for s e by (rule scan_event_inv)
  show "\<exists>is. ds_issues (scan_event e s) = ds_issues s @ is" for e s
    by (cases rule: scan_event_cases[of e s]) auto
qed

section \<open>The rebuilt view\<close>

definition directory_ok :: "agent_directory \<Rightarrow> bool" where
  "directory_ok d \<longleftrightarrow> indexes rec_agent_id (dir_records d) (dir_by_agent d) \<and>
     indexes rec_session_id (dir_records d) (dir_by_session d) \<and>
     indexes rec_request_id (dir_records d) (dir_by_request d) \<and>
     owned_in_order (dir_records d) \<and> (\<forall>r \<in> set (dir_records d). record_ok r)"

lemma rebuild_directory_Inr:
  "rebuild_directory es = Inr d \<longleftrightarrow>
     ds_issues (scan_directory es) = [] \<and>
     d = make_directory (ds_records (scan_directory es)) (ds_head_seq (scan_directory es))"
  by (auto simp: rebuild_directory_def Let_def split: list.splits)

lemma make_directory_sel [simp]:
  "dir_records (make_directory rs h) = rs" "dir_head_seq (make_directory rs h) = h"
  by (simp_all add: make_directory_def)

lemma rebuild_directory_ok:
  assumes "rebuild_directory es = Inr d"
  shows "directory_ok d"
proof -
  have "scan_inv (scan_directory es)" unfolding scan_directory_def by (rule directory.run_inv)
  then show ?thesis
    using assms
    by (auto simp: rebuild_directory_Inr directory_ok_def scan_inv_def make_directory_def
        indexes_fold indexes_def[of _ _ "ds_by_agent _"] indexes_def[of _ _ "ds_by_session _"]
        indexes_def[of _ _ "ds_by_request _"])
qed

lemma directory_get_Some:
  "directory_ok d \<Longrightarrow> directory_get d a = Some r \<longleftrightarrow> r \<in> set (dir_records d) \<and> rec_agent_id r = a"
  by (auto simp: directory_get_def directory_ok_def indexes_def)

lemma directory_for_request_Some:
  "directory_ok d \<Longrightarrow> directory_for_request d q = Some r \<longleftrightarrow> r \<in> set (dir_records d) \<and> rec_request_id r = q"
  by (auto simp: directory_for_request_def directory_ok_def indexes_def)

lemma directory_for_session_Some:
  "directory_ok d \<Longrightarrow> directory_for_session d q = Some r \<longleftrightarrow> r \<in> set (dir_records d) \<and> rec_session_id r = q"
  by (auto simp: directory_for_session_def directory_ok_def indexes_def)

lemma scan_event_records: "\<exists>rs. ds_records (scan_event e s) = ds_records s @ rs"
  by (cases rule: scan_event_cases[of e s]) auto

lemma scan_records_grow: "\<exists>rs. ds_records (fold scan_event es s) = ds_records s @ rs"
proof (induction es arbitrary: s)
  case (Cons e es)
  obtain r1 where "ds_records (fold scan_event es (scan_event e s)) = ds_records (scan_event e s) @ r1"
    using Cons by blast
  moreover obtain r2 where "ds_records (scan_event e s) = ds_records s @ r2" using scan_event_records by blast
  ultimately show ?case by simp
qed simp

lemma owner_earlier:
  assumes "directory_ok d" and "r \<in> set (dir_records d)" and "rec_owner_agent_id r = Some a"
  obtains before after q where "dir_records d = before @ r # after" "q \<in> set before" "rec_agent_id q = a"
proof -
  obtain before after where "dir_records d = before @ r # after" using assms(2) by (meson split_list)
  with assms(1,3) that show ?thesis unfolding directory_ok_def owned_in_order_def by blast
qed

lemma directory_grows:
  assumes "rebuild_directory (es @ fs) = Inr d"
  shows "\<exists>d0 rs. rebuild_directory es = Inr d0 \<and> dir_records d = dir_records d0 @ rs \<and>
    (\<forall>a r. directory_get d0 a = Some r \<longrightarrow> directory_get d a = Some r) \<and>
    (\<forall>q r. directory_for_request d0 q = Some r \<longrightarrow> directory_for_request d q = Some r)"
proof -
  have "ds_issues (scan_directory es) = []"
    using assms directory.clean_prefix[of es fs] unfolding rebuild_directory_Inr scan_directory_def by blast
  then obtain d0 where d0: "rebuild_directory es = Inr d0" by (simp add: rebuild_directory_Inr)
  obtain rs where rs: "dir_records d = dir_records d0 @ rs"
    using d0 assms scan_records_grow[of fs "scan_directory es"]
    by (auto simp: rebuild_directory_Inr scan_directory_def)
  have "directory_ok d0" "directory_ok d" using d0 assms rebuild_directory_ok by blast+
  then show ?thesis
    using d0 rs by (auto simp: directory_get_Some directory_for_request_Some)
qed

section \<open>Properties\<close>

text \<open>
  C3: the directory rebuilt from any accepted stream is consistent: no two Agents share an
  Agent, Session or request identity, every lookup answers with the one record of that
  identity, and every owner is an Agent recorded before the Agent it owns.
\<close>

theorem rebuild_directory_consistent:
  assumes "rebuild_directory es = Inr d"
  shows "distinct (map rec_agent_id (dir_records d)) \<and> distinct (map rec_session_id (dir_records d)) \<and>
    distinct (map rec_request_id (dir_records d)) \<and>
    (\<forall>r \<in> set (dir_records d). directory_get d (rec_agent_id r) = Some r \<and>
       directory_for_session d (rec_session_id r) = Some r \<and>
       directory_for_request d (rec_request_id r) = Some r \<and>
       (\<forall>a. rec_owner_agent_id r = Some a \<longrightarrow>
          (\<exists>before after q. dir_records d = before @ r # after \<and> q \<in> set before \<and>
             directory_get d a = Some q)))"
proof -
  have ok: "directory_ok d" using assms by (rule rebuild_directory_ok)
  have own: "\<exists>before after q. dir_records d = before @ r # after \<and> q \<in> set before \<and> directory_get d a = Some q"
    if "r \<in> set (dir_records d)" "rec_owner_agent_id r = Some a" for r a
  proof -
    obtain before after q where "dir_records d = before @ r # after" "q \<in> set before" "rec_agent_id q = a"
      using owner_earlier[OF ok \<open>r \<in> _\<close> \<open>rec_owner_agent_id r = _\<close>] by blast
    then show ?thesis using directory_get_Some[OF ok, of a q] by fastforce
  qed
  show ?thesis
    using ok own directory_get_Some[OF ok] directory_for_session_Some[OF ok] directory_for_request_Some[OF ok]
    by (simp add: directory_ok_def indexes_def)
qed

definition sample_root :: event_envelope where
  "sample_root = materialize 5 \<lparr>dt_micros = 0, dt_utcoffset = Some 0\<rparr> AGENT_DIRECTORY_STREAM 1
     (pending AGENT_CREATED (projr (agent_created_data (lit ''root'') (lit ''s0'') (lit ''r0'')
        (sample_spec\<lparr>spec_owner_agent_id := None\<rparr>))) 2)"

definition sample_directory_events :: "event_envelope list" where
  "sample_directory_events = [sample_root, sample_created\<lparr>ev_seq := 2\<rparr>]"

definition sample_directory :: agent_directory where
  "sample_directory = projr (rebuild_directory sample_directory_events)"

lemma sample_directory_rebuilt: "rebuild_directory sample_directory_events = Inr sample_directory"
proof -
  have "is_ok (rebuild_directory sample_directory_events)" by code_simp
  then show ?thesis unfolding sample_directory_def is_ok_iff by auto
qed

theorem rebuild_directory_consistent_witness:
  "rebuild_directory sample_directory_events = Inr sample_directory \<and>
   distinct (map rec_agent_id (dir_records sample_directory)) \<and>
   length (dir_records sample_directory) = 2"
proof -
  have "length (dir_records sample_directory) = 2" by code_simp
  then show ?thesis
    using sample_directory_rebuilt rebuild_directory_consistent[OF sample_directory_rebuilt] by blast
qed

text \<open>
  Identity is permanent. When a longer stream is accepted, so is every prefix of it, the
  records of the prefix are the first records of the whole, and every lookup that the shorter
  view answered is answered by the same record.
\<close>

theorem directory_append_only:
  assumes "rebuild_directory (es @ fs) = Inr d"
  shows "\<exists>d0 rs. rebuild_directory es = Inr d0 \<and> dir_records d = dir_records d0 @ rs \<and>
    (\<forall>a r. directory_get d0 a = Some r \<longrightarrow> directory_get d a = Some r) \<and>
    (\<forall>q r. directory_for_request d0 q = Some r \<longrightarrow> directory_for_request d q = Some r)"
  using assms by (rule directory_grows)

theorem directory_append_only_witness:
  "\<exists>d0. rebuild_directory [sample_root] = Inr d0 \<and>
     directory_get d0 (lit ''root'') \<noteq> None \<and>
     directory_get sample_directory (lit ''root'') = directory_get d0 (lit ''root'')"
proof -
  have "rebuild_directory ([sample_root] @ [sample_created\<lparr>ev_seq := 2\<rparr>]) = Inr sample_directory"
    using sample_directory_rebuilt by (simp add: sample_directory_events_def)
  from directory_append_only[OF this] obtain d0 where d0: "rebuild_directory [sample_root] = Inr d0"
    and get: "\<forall>a r. directory_get d0 a = Some r \<longrightarrow> directory_get sample_directory a = Some r"
    by blast
  have "directory_get (projr (rebuild_directory [sample_root])) (lit ''root'') \<noteq> None" by code_simp
  with d0 get show ?thesis by fastforce
qed

text \<open>
  malformed history fails closed for ever. Once a stream is refused, every continuation of
  it is refused with the same code at the same sequence number; no later event repairs it.
\<close>

theorem directory_refusal_stable:
  assumes "rebuild_directory es = Inl e"
  shows "rebuild_directory (es @ fs) = Inl e"
proof -
  have ne: "ds_issues (scan_directory es) \<noteq> []"
    using assms by (auto simp: rebuild_directory_def Let_def)
  moreover have "hd (ds_issues (scan_directory (es @ fs))) = hd (ds_issues (scan_directory es))"
    using ne directory.first_issue_stable unfolding scan_directory_def by blast
  moreover have "ds_issues (scan_directory (es @ fs)) \<noteq> []"
    using ne directory.clean_prefix unfolding scan_directory_def by blast
  ultimately show ?thesis
    using assms by (auto simp: rebuild_directory_def Let_def split: list.splits)
qed

theorem directory_refusal_stable_witness:
  "rebuild_directory [sample_root, sample_root] = Inl (AgentDirectoryProtocolError ''agent-id-duplicate'' 1) \<and>
   rebuild_directory ([sample_root, sample_root] @ [sample_created]) =
     Inl (AgentDirectoryProtocolError ''agent-id-duplicate'' 1)"
proof -
  have "rebuild_directory [sample_root, sample_root] = Inl (AgentDirectoryProtocolError ''agent-id-duplicate'' 1)"
    by code_simp
  from this directory_refusal_stable[OF this, of "[sample_created]"] show ?thesis by blast
qed

end
