(* ===== verification/Agent_Registrar.thy ===== *)
theory Agent_Registrar imports Transactions Agent_Directory begin

text \<open>
  The Agent creation transaction (agents/registrar.py): input validation, the check of the
  durable directory, the append at the head that was read, and what a refused append means. The
  identifiers it draws when the caller names none (\<open>uuid4\<close>) are the arguments \<open>fresh_agent\<close> and
  \<open>fresh_session\<close>; what other writers do between the read and the append is \<open>others\<close>.
\<close>

definition load_directory :: "event_store \<Rightarrow> agent_directory result" where
  "load_directory st = rebuild_directory (read_events st AGENT_DIRECTORY_STREAM 1)"

definition requested_identifier :: "pystr option \<Rightarrow> string \<Rightarrow> pystr option result" where
  "requested_identifier value field =
     (case value of None \<Rightarrow> Inr None | Some s \<Rightarrow> rbind (require_identifier s field) (\<lambda>t. Inr (Some t)))"

definition reconcile_request :: "agent_record \<Rightarrow> pystr option \<Rightarrow> pystr option \<Rightarrow> payload \<Rightarrow> agent_record result" where
  "reconcile_request existing requested_agent_id requested_session_id data =
     (if (case requested_agent_id of None \<Rightarrow> False | Some a \<Rightarrow> rec_agent_id existing \<noteq> a)
      then Inl AgentRequestConflictError
      else if (case requested_session_id of None \<Rightarrow> False | Some s \<Rightarrow> rec_session_id existing \<noteq> s)
      then Inl AgentRequestConflictError
      else rbind (creation_matches existing data) (\<lambda>same.
        if \<not> same then Inl AgentRequestConflictError else Inr existing))"

definition append_creation ::
    "drawn \<Rightarrow> (event_store \<Rightarrow> event_store) \<Rightarrow> int \<Rightarrow> payload \<Rightarrow> (event_store, event_envelope) action" where
  "append_creation dr others expected_seq data =
     append_fact dr others AGENT_DIRECTORY_STREAM expected_seq (pending AGENT_CREATED data 2)
       (\<lambda>event. is_creation_fact event data)
       (explain_failed_append AgentDirectoryConflictError AgentCreationError)"

definition owner_missing :: "agent_directory \<Rightarrow> payload \<Rightarrow> bool" where
  "owner_missing directory data =
     (case jget data ''owner_agent_id'' of JStr owner \<Rightarrow> directory_get directory owner = None | _ \<Rightarrow> False)"

definition create_agent ::
    "drawn \<Rightarrow> (event_store \<Rightarrow> event_store) \<Rightarrow> pystr \<Rightarrow> pystr \<Rightarrow> agent_spec \<Rightarrow> pystr \<Rightarrow> pystr option \<Rightarrow> pystr option
       \<Rightarrow> (event_store, agent_record) action" where
  "create_agent dr others fresh_agent fresh_session spec request_id agent_id session_id =
     abind (lift_result (require_identifier request_id ''request_id'')) (\<lambda>request_id.
     abind (lift_result (requested_identifier agent_id ''agent_id'')) (\<lambda>requested_agent_id.
     abind (lift_result (requested_identifier session_id ''session_id'')) (\<lambda>requested_session_id.
     abind (lift_result (validate_spec spec)) (\<lambda>_.
       let agent_id = (case requested_agent_id of Some a \<Rightarrow> a | None \<Rightarrow> fresh_agent);
           session_id = (case requested_session_id of Some s \<Rightarrow> s | None \<Rightarrow> fresh_session) in
     abind (lift_result (agent_created_data agent_id session_id request_id spec)) (\<lambda>data.
     abind (reading load_directory) (\<lambda>directory.
       case directory_for_request directory request_id of
         Some existing \<Rightarrow> lift_result (reconcile_request existing requested_agent_id requested_session_id data)
       | None \<Rightarrow>
           (if directory_get directory agent_id \<noteq> None then lift_result (Inl AgentIdentityConflictError)
            else if directory_for_session directory session_id \<noteq> None then lift_result (Inl AgentSessionConflictError)
            else if owner_missing directory data then lift_result (Inl AgentOwnerNotFoundError)
            else abind (append_creation dr others (dir_head_seq directory) data) (\<lambda>appended.
              lift_result (parse_agent_created appended)))))))))"

section \<open>The directory as a log of facts\<close>

lemma scan_head_seq: "ds_head_seq (scan_directory es) = stream_head es"
proof (induction es rule: rev_induct)
  case (snoc e es)
  show ?case
    by (cases rule: scan_event_cases[of e "scan_directory es"]) (simp_all add: scan_directory_def stream_head_def)
qed (simp add: scan_directory_def empty_scan_def stream_head_def)

interpretation directory_log: fact_log rebuild_directory dir_head_seq
proof
  fix sid es d
  assume n: "numbered sid es" and d: "rebuild_directory es = Inr d"
  then show "dir_head_seq d = int (length es)"
    using stream_head_numbered[OF n] by (auto simp: rebuild_directory_Inr scan_head_seq)
qed

lemma load_directory_Inr: "store_ok st \<Longrightarrow> load_directory st = rebuild_directory (stream_of st AGENT_DIRECTORY_STREAM)"
  by (simp add: load_directory_def read_events_all)

text \<open>A creation fact that the transaction's checks let through extends the directory by its record.\<close>

lemma creation_extends:
  assumes d: "rebuild_directory es = Inr d" and r: "parse_agent_created ev = Inr r"
    and new: "directory_get d (rec_agent_id r) = None" "directory_for_session d (rec_session_id r) = None"
      "directory_for_request d (rec_request_id r) = None"
    and owner: "\<forall>a. rec_owner_agent_id r = Some a \<longrightarrow> directory_get d a \<noteq> None"
  shows "\<exists>d'. rebuild_directory (es @ [ev]) = Inr d' \<and> dir_records d' = dir_records d @ [r]"
proof -
  let ?s = "scan_directory es"
  have dd: "ds_issues ?s = []" "d = make_directory (ds_records ?s) (ds_head_seq ?s)" using d by (auto simp: rebuild_directory_Inr)
  have inv: "scan_inv ?s" unfolding scan_directory_def by (rule directory.run_inv)
  have ok: "directory_ok d" using d by (rule rebuild_directory_ok)
  have idx: "dict_has k (ds_by_agent ?s) \<longleftrightarrow> directory_get d k \<noteq> None"
    "dict_has k (ds_by_session ?s) \<longleftrightarrow> directory_for_session d k \<noteq> None"
    "dict_has k (ds_by_request ?s) \<longleftrightarrow> directory_for_request d k \<noteq> None" for k
    using inv ok dd(2) by (auto simp: scan_inv_def indexes_has directory_ok_def
        directory_get_def directory_for_session_def directory_for_request_def dict_has_def[symmetric] simp del: not_None_eq)
  have "a \<noteq> rec_agent_id r" if "rec_owner_agent_id r = Some a" for a using owner that new(1) by auto
  then have clean: "record_conflicts ?s (ev_seq ev) r = []"
    using new owner by (auto simp: record_conflicts_Nil idx)
  from scan_event_cases[of ev ?s] show ?thesis
  proof cases
    case (issue iss)
    then show ?thesis using r clean by simp
  next
    case (accepted r')
    then have "scan_directory (es @ [ev]) = scan_event ev ?s" "r' = r" using r by (simp_all add: scan_directory_def)
    then show ?thesis using accepted dd by (simp add: rebuild_directory_Inr)
  qed
qed

lemma creation_parses:
  assumes "agent_created_data a s q spec = Inr data" "validate_spec spec = Inr ()" "ident_ok a" "ident_ok s" "ident_ok q"
  shows "\<exists>r. parse_agent_created (fact_envelope dr AGENT_DIRECTORY_STREAM n (pending AGENT_CREATED data 2)) = Inr r \<and>
    rec_agent_id r = a \<and> rec_session_id r = s \<and> rec_request_id r = q \<and> rec_preset r = spec_preset spec \<and>
    rec_workspace_id r = spec_workspace_id spec \<and> rec_owner_agent_id r = spec_owner_agent_id spec \<and>
    rec_forked_from_session_id r = spec_forked_from_session_id spec \<and> rec_capability_grants r = spec_capability_grants spec"
proof -
  obtain m where m: "normalized_metadata (spec_metadata spec) = Some m"
    using assms(2) by (auto simp: validate_spec_Inr)
  then have meta: "metadata_graph_is_bounded (JDict m) 0" unfolding normalized_metadata_Some by auto
  let ?r = "\<lparr>rec_agent_id = a, rec_session_id = s, rec_request_id = q, rec_preset = spec_preset spec,
       rec_workspace_id = spec_workspace_id spec, rec_owner_agent_id = spec_owner_agent_id spec,
       rec_forked_from_session_id = spec_forked_from_session_id spec,
       rec_capability_grants = spec_capability_grants spec, rec_metadata = m, rec_created_seq = n\<rparr>"
  have "parse_agent_created (fact_envelope dr AGENT_DIRECTORY_STREAM n (pending AGENT_CREATED data 2)) = Inr ?r"
    using assms m meta
    by (auto simp: agent_created_data_def parse_agent_created_Inr read_agent_fields_Inr
        validate_spec_Inr record_ok_def keys_are_def AGENT_CREATED_KEYS_def)
  then show ?thesis by (intro exI[of _ ?r]) simp
qed

section \<open>What a call does\<close>

abbreviation creation_envelope :: "drawn \<Rightarrow> agent_directory \<Rightarrow> payload \<Rightarrow> event_envelope" where
  "creation_envelope dr d data \<equiv> fact_envelope dr AGENT_DIRECTORY_STREAM (dir_head_seq d + 1) (pending AGENT_CREATED data 2)"

text \<open>A request on record is answered from the record and nothing is written.\<close>

lemma requested_identifier_Inr [result_simps]:
  "requested_identifier x f = Inr y \<longleftrightarrow> y = x \<and> (\<forall>s. x = Some s \<longrightarrow> ident_ok s)"
  by (auto simp: requested_identifier_def result_simps split: option.splits)

lemma reconcile_request_Inr: "reconcile_request e a s data = Inr r \<Longrightarrow> r = e"
  by (auto simp: reconcile_request_def result_simps split: if_splits)

lemma create_agent_known:
  assumes "load_directory st = Inr d" "directory_for_request d q = Some r"
  shows "\<exists>x. create_agent dr others fa fs spec q a s st = (st, x) \<and> (\<forall>r'. x = Inr r' \<longrightarrow> r' = r)"
proof -
  have "fst (create_agent dr others fa fs spec q a s st) = st \<and>
      (\<forall>r'. snd (create_agent dr others fa fs spec q a s st) = Inr r' \<longrightarrow> r' = r)"
    using assms reconcile_request_Inr
    by (auto simp: create_agent_def abind_def lift_result_def reading_def Let_def require_identifier_def split: sum.splits if_splits prod.splits)
  then show ?thesis by (metis prod.collapse)
qed

lemma create_agent_cases:
  assumes "create_agent dr others fa fs spec q a s st = (st1, x)"
  obtains (unchanged) "st1 = st" "\<And>r. x = Inr r \<Longrightarrow> \<exists>d. load_directory st = Inr d \<and> directory_for_request d q = Some r"
  | (written) d data where "load_directory st = Inr d" "ident_ok q" "validate_spec spec = Inr ()"
      "\<forall>i. a = Some i \<longrightarrow> ident_ok i" "\<forall>i. s = Some i \<longrightarrow> ident_ok i"
      "agent_created_data (case a of Some i \<Rightarrow> i | None \<Rightarrow> fa) (case s of Some i \<Rightarrow> i | None \<Rightarrow> fs) q spec = Inr data"
      "directory_for_request d q = None" "directory_get d (case a of Some i \<Rightarrow> i | None \<Rightarrow> fa) = None"
      "directory_for_session d (case s of Some i \<Rightarrow> i | None \<Rightarrow> fs) = None" "\<not> owner_missing d data"
      "abind (append_creation dr others (dir_head_seq d) data) (\<lambda>appended. lift_result (parse_agent_created appended)) st = (st1, x)"
proof -
  have refused: thesis if "st1 = st" "x = Inl e" for e using that unchanged by simp
  from assms have "\<exists>q' a' s' u. require_identifier q ''request_id'' = Inr q' \<and> requested_identifier a ''agent_id'' = Inr a' \<and>
      requested_identifier s ''session_id'' = Inr s' \<and> validate_spec spec = Inr u \<or> (\<exists>e. st1 = st \<and> x = Inl e)"
    unfolding create_agent_def by (elim abind_liftE) auto
  then consider "\<exists>e. st1 = st \<and> x = Inl e" | "ident_ok q" "\<forall>i. a = Some i \<longrightarrow> ident_ok i" "\<forall>i. s = Some i \<longrightarrow> ident_ok i"
      "validate_spec spec = Inr ()" by (auto simp: result_simps)
  then show thesis
  proof cases
    case 2
    let ?a = "case a of Some i \<Rightarrow> i | None \<Rightarrow> fa" and ?s = "case s of Some i \<Rightarrow> i | None \<Rightarrow> fs"
    have ids: "require_identifier q ''request_id'' = Inr q" "requested_identifier a ''agent_id'' = Inr a"
      "requested_identifier s ''session_id'' = Inr s" using 2 by (simp_all add: result_simps)
    from assms have "abind (lift_result (agent_created_data ?a ?s q spec)) (\<lambda>data. abind (reading load_directory) (\<lambda>directory.
        case directory_for_request directory q of Some existing \<Rightarrow> lift_result (reconcile_request existing a s data)
        | None \<Rightarrow> (if directory_get directory ?a \<noteq> None then lift_result (Inl AgentIdentityConflictError)
            else if directory_for_session directory ?s \<noteq> None then lift_result (Inl AgentSessionConflictError)
            else if owner_missing directory data then lift_result (Inl AgentOwnerNotFoundError)
            else abind (append_creation dr others (dir_head_seq directory) data) (\<lambda>appended.
              lift_result (parse_agent_created appended))))) st = (st1, x)"
      by (simp add: create_agent_def ids 2(4) Let_def)
    then show thesis
    proof (cases rule: abind_liftE)
      case data: (go data)
      from data(2) show thesis
      proof (cases rule: abind_readingE)
        case d: (go d)
        show thesis
        proof (cases "directory_for_request d q")
          case None
          then show thesis using d(2) refused written[OF d(1) 2(1,4,2,3) data(1) None]
            by (auto elim: lift_resultE split: if_splits)
        next
          case (Some existing)
          then show thesis using d unchanged by (auto elim!: lift_resultE dest: reconcile_request_Inr)
        qed
      qed (use refused in blast)
    qed (use refused in blast)
  qed (use refused in blast)
qed

lemma creation_accepted:
  assumes d: "rebuild_directory es = Inr d" and id: "ident_ok q" "ident_ok a" "ident_ok s"
    and spec: "validate_spec spec = Inr ()" and data: "agent_created_data a s q spec = Inr data"
    and new: "directory_for_request d q = None" "directory_get d a = None" "directory_for_session d s = None" "\<not> owner_missing d data"
  shows "\<exists>r d'. parse_agent_created (creation_envelope dr d data) = Inr r \<and> rec_request_id r = q \<and>
    rebuild_directory (es @ [creation_envelope dr d data]) = Inr d' \<and> dir_records d' = dir_records d @ [r]"
proof -
  obtain r where r: "parse_agent_created (creation_envelope dr d data) = Inr r" "rec_agent_id r = a" "rec_session_id r = s"
      "rec_request_id r = q" "rec_owner_agent_id r = spec_owner_agent_id spec"
    using creation_parses[OF data spec id(2,3,1)] by blast
  have owner: "jget data ''owner_agent_id'' = json_opt (spec_owner_agent_id spec)"
    using data by (auto simp: agent_created_data_def split: option.splits)
  have "\<forall>o'. rec_owner_agent_id r = Some o' \<longrightarrow> directory_get d o' \<noteq> None"
    using new(4) owner r(5) by (auto simp: owner_missing_def)
  then show ?thesis using creation_extends[OF d r(1)] new(1-3) r by auto
qed

lemma create_agent_effect:
  assumes st: "store_ok st" "load_directory st = Inr d" and grow: "extends st (others st)" and fresh: "ident_ok fa" "ident_ok fs"
    and run: "create_agent dr others fa fs spec q a s st = (st1, x)"
  obtains (unchanged) "st1 = st" "\<And>r. x = Inr r \<Longrightarrow> directory_for_request d q = Some r"
  | (won) r d' ev where "x = Inr r" "stream_of (others st) AGENT_DIRECTORY_STREAM = stream_of st AGENT_DIRECTORY_STREAM"
      "\<And>sid. stream_of st1 sid = (if sid = AGENT_DIRECTORY_STREAM then stream_of st AGENT_DIRECTORY_STREAM @ [ev] else stream_of (others st) sid)"
      "rebuild_directory (stream_of st1 AGENT_DIRECTORY_STREAM) = Inr d'" "dir_records d' = dir_records d @ [r]" "rec_request_id r = q"
      "store_ok st1"
  | (lost) e where "x = Inl e" "\<And>sid. stream_of st1 sid = stream_of (others st) sid" "store_ok st1"
  using run
proof (cases rule: create_agent_cases)
  case unchanged
  then show thesis using that(1) st(2) by fastforce
next
  case (written d1 data)
  have d1: "d1 = d" using written(1) st(2) by simp
  have dir: "rebuild_directory (stream_of st AGENT_DIRECTORY_STREAM) = Inr d" using st by (simp add: load_directory_Inr)
  have ids: "ident_ok (case a of Some i \<Rightarrow> i | None \<Rightarrow> fa)" "ident_ok (case s of Some i \<Rightarrow> i | None \<Rightarrow> fs)"
    using written(4,5) fresh by (simp_all split: option.split)
  obtain r d' where r: "parse_agent_created (creation_envelope dr d data) = Inr r" "rec_request_id r = q"
    "rebuild_directory (stream_of st AGENT_DIRECTORY_STREAM @ [creation_envelope dr d data]) = Inr d'" "dir_records d' = dir_records d @ [r]"
    using creation_accepted[OF dir written(2) ids written(3,6) written(7-10)[unfolded d1]] by blast
  obtain y where app: "append_creation dr others (dir_head_seq d) data st = (st1, y)"
    and x: "x = (case y of Inl e \<Rightarrow> Inl e | Inr ev \<Rightarrow> parse_agent_created ev)"
    using written(11) by (auto simp: d1 abind_def lift_result_def split: prod.splits sum.splits)
  show thesis
  proof (cases rule: directory_log.transaction_outcome[OF st(1) grow dir r(3) app[unfolded append_creation_def], case_names won lost])
    case won
    then show thesis using x r that(2)[of r "creation_envelope dr d data" d'] by simp
  next
    case (lost e)
    then show thesis using x that(3)[of e] by simp
  qed
qed

lemma create_agent_recorded:
  assumes st: "store_ok st" "load_directory st = Inr d" and grow: "extends st (others st)" and fresh: "ident_ok fa" "ident_ok fs"
    and run: "create_agent dr others fa fs spec q a s st = (st1, Inr r)"
  shows "store_ok st1 \<and> (\<exists>d1. load_directory st1 = Inr d1 \<and> directory_for_request d1 q = Some r)"
  using st grow fresh run
proof (cases rule: create_agent_effect)
  case unchanged
  then show ?thesis using st by simp
next
  case (won r' d' ev)
  have "directory_ok d'" using won(4) by (rule rebuild_directory_ok)
  then have "directory_for_request d' q = Some r" using won(1,5,6) by (simp add: directory_for_request_Some)
  then show ?thesis using won(4,7) by (simp add: load_directory_Inr)
qed simp

lemma request_stays:
  assumes "store_ok st1" "load_directory st1 = Inr d1" "extends st1 st2" "load_directory st2 = Inr d2"
    and r: "directory_for_request d1 q = Some r"
  shows "directory_for_request d2 q = Some r \<and> directory_get d2 (rec_agent_id r) = Some r"
proof -
  obtain xs where xs: "stream_of st2 AGENT_DIRECTORY_STREAM = stream_of st1 AGENT_DIRECTORY_STREAM @ xs" "store_ok st2"
    using assms(3) by (auto simp: extends_def)
  then have "rebuild_directory (stream_of st1 AGENT_DIRECTORY_STREAM @ xs) = Inr d2" using assms(4) by (simp add: load_directory_Inr)
  from directory_grows[OF this] obtain d0 where "rebuild_directory (stream_of st1 AGENT_DIRECTORY_STREAM) = Inr d0"
    and keep: "\<forall>q r. directory_for_request d0 q = Some r \<longrightarrow> directory_for_request d2 q = Some r" by blast
  then have "directory_for_request d2 q = Some r" using assms(1,2) r by (simp add: load_directory_Inr)
  moreover have "directory_ok d2" using assms(4) xs(2) rebuild_directory_ok by (auto simp: load_directory_Inr)
  ultimately show ?thesis by (simp add: directory_for_request_Some directory_get_Some)
qed

section \<open>Properties\<close>

text \<open>
  C19: one request creates one Agent. When a creation returns a record, under any interference of
  other writers, the durable directory holds exactly this record under the request and under the
  Agent identity, in every later readable store; and a call that repeats the request, whatever
  else it asks for, writes nothing and can only return this same record.
\<close>

theorem create_agent_once:
  assumes "store_ok st" "load_directory st = Inr d" "extends st (others st)" "ident_ok fa" "ident_ok fs"
    and "create_agent dr others fa fs spec q a s st = (st1, Inr r)"
    and "extends st1 st2" "load_directory st2 = Inr d2"
  shows "directory_for_request d2 q = Some r \<and> directory_get d2 (rec_agent_id r) = Some r \<and>
    (\<exists>x. create_agent dr2 others2 fa2 fs2 spec2 q a2 s2 st2 = (st2, x) \<and> (\<forall>r'. x = Inr r' \<longrightarrow> r' = r))"
proof -
  obtain d1 where "store_ok st1" "load_directory st1 = Inr d1" "directory_for_request d1 q = Some r"
    using create_agent_recorded[OF assms(1-6)] by blast
  then have "directory_for_request d2 q = Some r \<and> directory_get d2 (rec_agent_id r) = Some r"
    using request_stays assms(7,8) by blast
  then show ?thesis using create_agent_known[OF assms(8)] by blast
qed

definition registrar_store :: event_store where
  "registrar_store = \<lparr>es_streams = [(AGENT_DIRECTORY_STREAM, [sample_root])]\<rparr>"

definition registrar_run :: "event_store \<times> agent_record result" where
  "registrar_run = create_agent (\<lambda>n. (n, sample_time)) (\<lambda>st. st) (lit ''u1'') (lit ''u2'') sample_spec (lit ''r1'') None None registrar_store"

theorem create_agent_once_witness:
  "\<exists>st1 r x. registrar_run = (st1, Inr r) \<and> rec_agent_id r = lit ''u1'' \<and>
     create_agent (\<lambda>n. (n, sample_time)) (\<lambda>st. st) (lit ''u3'') (lit ''u4'') sample_spec (lit ''r1'') None None st1 = (st1, x) \<and>
     (\<forall>r'. x = Inr r' \<longrightarrow> r' = r)"
proof -
  have ok: "store_ok registrar_store"
    by (auto simp: registrar_store_def store_ok_def dict_ok_def numbered_def sample_root_def)
  have "is_ok (load_directory registrar_store)" by code_simp
  then obtain d where d: "load_directory registrar_store = Inr d" by (auto simp: is_ok_iff)
  have ids: "ident_ok (lit ''u1'')" "ident_ok (lit ''u2'')" by code_simp+
  have "is_ok (snd registrar_run)" "rec_agent_id (projr (snd registrar_run)) = lit ''u1''" by code_simp+
  then have "registrar_run = (fst registrar_run, Inr (projr (snd registrar_run))) \<and> rec_agent_id (projr (snd registrar_run)) = lit ''u1''"
    by (auto simp: is_ok_iff prod_eq_iff)
  then obtain st1 r where run: "registrar_run = (st1, Inr r)" "rec_agent_id r = lit ''u1''" by blast
  note rec = create_agent_recorded[OF ok d extends_refl[OF ok] ids run(1)[unfolded registrar_run_def]]
  then obtain d1 where d1: "load_directory st1 = Inr d1" "extends st1 st1" using extends_refl by blast
  show ?thesis
    using create_agent_once[OF ok d extends_refl[OF ok] ids run(1)[unfolded registrar_run_def] d1(2,1)] run by blast
qed

end
