(* ===== verification/Inbox_Identity.thy ===== *)
theory Inbox_Identity imports Agent_Identity begin

text \<open>
  What an accepted Inbox message is (agents/inbox_identity.py): the stream of an Agent, the
  bounds on content, the acceptance payload, its parser and the comparisons used by retries
  and commit reconciliation.
\<close>

record accepted_message =
  acc_agent_id :: pystr
  acc_message :: agent_message
  acc_target :: message_target
  acc_wakeup :: bool
  acc_accepted_seq :: int

record message_receipt =
  rcp_message_id :: pystr
  rcp_agent_id :: pystr
  rcp_accepted_seq :: int

definition receipt :: "accepted_message \<Rightarrow> message_receipt" where
  "receipt a = \<lparr>rcp_message_id = msg_message_id (acc_message a), rcp_agent_id = acc_agent_id a,
     rcp_accepted_seq = acc_accepted_seq a\<rparr>"

abbreviation AGENT_INBOX_STREAM_PREFIX :: pystr where
  "AGENT_INBOX_STREAM_PREFIX \<equiv> lit ''agent-inbox:''"

abbreviation AGENT_MESSAGE_ACCEPTED :: string where
  "AGENT_MESSAGE_ACCEPTED \<equiv> ''agent/message-accepted''"

definition MAX_MESSAGE_CONTENT_CHARS :: int where
  "MAX_MESSAGE_CONTENT_CHARS = 1048576"

definition AGENT_MESSAGE_ACCEPTED_KEYS :: "string list" where
  "AGENT_MESSAGE_ACCEPTED_KEYS = [''agent_id'', ''message_id'', ''content'', ''source'', ''target'',
     ''wakeup'', ''correlation_id'', ''causation_id'']"

section \<open>Writing\<close>

definition require_message_identifier :: "pystr \<Rightarrow> string \<Rightarrow> pystr result" where
  "require_message_identifier value field =
     (if is_agent_identifier (JStr value) then Inr value
      else Inl (AgentMessageError ''inbox-identity-invalid'' field))"

definition agent_inbox_stream :: "pystr \<Rightarrow> pystr result" where
  "agent_inbox_stream agent_id =
     rbind (require_message_identifier agent_id ''agent_id'') (\<lambda>a.
       Inr (AGENT_INBOX_STREAM_PREFIX @ a))"

definition is_message_content :: "json \<Rightarrow> bool" where
  "is_message_content value =
     (case value of
        JStr s \<Rightarrow> (if MAX_MESSAGE_CONTENT_CHARS < py_len s then False else utf8_encodable s)
      | _ \<Rightarrow> False)"

definition require_optional_message_identifier :: "pystr option \<Rightarrow> string \<Rightarrow> unit result" where
  "require_optional_message_identifier value field =
     (case value of None \<Rightarrow> Inr () | Some s \<Rightarrow> rbind (require_message_identifier s field) (\<lambda>_. Inr ()))"

definition validate_message :: "agent_message \<Rightarrow> unit result" where
  "validate_message message =
     rbind (require_message_identifier (msg_message_id message) ''message_id'') (\<lambda>_.
     rbind (require_message_identifier (msg_source message) ''source'') (\<lambda>_.
       if \<not> is_message_content (JStr (msg_content message))
       then Inl (AgentMessageError ''inbox-content-invalid'' ''content'')
       else
         rbind (require_optional_message_identifier (msg_correlation_id message) ''correlation_id'') (\<lambda>_.
           require_optional_message_identifier (msg_causation_id message) ''causation_id'')))"

definition message_accepted_data ::
    "pystr \<Rightarrow> agent_message \<Rightarrow> message_target \<Rightarrow> bool \<Rightarrow> payload result" where
  "message_accepted_data agent_id message target wakeup =
     rbind (validate_message message) (\<lambda>_.
     rbind (require_message_identifier agent_id ''agent_id'') (\<lambda>a.
       Inr [(lit ''agent_id'', JStr a),
            (lit ''message_id'', JStr (msg_message_id message)),
            (lit ''content'', JStr (msg_content message)),
            (lit ''source'', JStr (msg_source message)),
            (lit ''target'', JStr (message_target_value target)),
            (lit ''wakeup'', JBool wakeup),
            (lit ''correlation_id'', json_opt (msg_correlation_id message)),
            (lit ''causation_id'', json_opt (msg_causation_id message))]))"

section \<open>Reading\<close>

definition read_target :: "payload \<Rightarrow> int \<Rightarrow> message_target result" where
  "read_target data seq =
     (let value = jget data ''target'' in
      if value = JStr (message_target_value NEW_TURN) then Inr NEW_TURN
      else if value = JStr (message_target_value NEXT_STEP) then Inr NEXT_STEP
      else Inl (AgentInboxProtocolError ''inbox-target-invalid'' seq))"

definition read_wakeup :: "payload \<Rightarrow> int \<Rightarrow> bool result" where
  "read_wakeup data seq =
     (case jget data ''wakeup'' of
        JBool b \<Rightarrow> Inr b
      | _ \<Rightarrow> Inl (AgentInboxProtocolError ''inbox-wakeup-invalid'' seq))"

definition read_content :: "payload \<Rightarrow> int \<Rightarrow> pystr result" where
  "read_content data seq =
     (case jget data ''content'' of
        JStr s \<Rightarrow> (if is_message_content (JStr s) then Inr s
                   else Inl (AgentInboxProtocolError ''inbox-content-invalid'' seq))
      | _ \<Rightarrow> Inl (AgentInboxProtocolError ''inbox-content-invalid'' seq))"

definition read_message_fields :: "payload \<Rightarrow> pystr \<Rightarrow> int \<Rightarrow> accepted_message result" where
  "read_message_fields data stream seq =
     (let bad = AgentInboxProtocolError ''inbox-identity-invalid'' seq in
      rbind (read_identifier_or bad data ''agent_id'') (\<lambda>agent_id.
      rbind (agent_inbox_stream agent_id) (\<lambda>expected.
      rbind (raise_if (stream \<noteq> expected) (AgentInboxProtocolError ''inbox-stream-unexpected'' seq)) (\<lambda>_.
      rbind (read_content data seq) (\<lambda>content.
      rbind (read_identifier_or bad data ''message_id'') (\<lambda>message_id.
      rbind (read_identifier_or bad data ''source'') (\<lambda>source.
      rbind (read_optional_identifier_or bad data ''correlation_id'') (\<lambda>correlation.
      rbind (read_optional_identifier_or bad data ''causation_id'') (\<lambda>causation.
      rbind (read_target data seq) (\<lambda>target.
      rbind (read_wakeup data seq) (\<lambda>wakeup.
        Inr \<lparr>acc_agent_id = agent_id,
             acc_message = \<lparr>msg_message_id = message_id, msg_content = content, msg_source = source,
                            msg_correlation_id = correlation, msg_causation_id = causation\<rparr>,
             acc_target = target, acc_wakeup = wakeup, acc_accepted_seq = seq\<rparr>)))))))))))"

definition read_message_accepted :: "event_envelope \<Rightarrow> accepted_message result" where
  "read_message_accepted event =
     (let seq = ev_seq event in
      if ev_type event \<noteq> lit AGENT_MESSAGE_ACCEPTED
      then Inl (AgentInboxProtocolError ''inbox-event-type-unknown'' seq)
      else if ev_schema_version event \<noteq> 1
      then Inl (AgentInboxProtocolError ''inbox-schema-version-unsupported'' seq)
      else case ev_data event of
        JDict data \<Rightarrow>
          (if \<not> keys_are data AGENT_MESSAGE_ACCEPTED_KEYS
           then Inl (AgentInboxProtocolError ''inbox-payload-keys-unexpected'' seq)
           else read_message_fields data (ev_stream_id event) seq)
      | _ \<Rightarrow> Inl (AgentInboxProtocolError ''inbox-payload-invalid'' seq))"

definition is_inbox_protocol_error :: "exn \<Rightarrow> bool" where
  "is_inbox_protocol_error e = (case e of AgentInboxProtocolError _ _ \<Rightarrow> True | _ \<Rightarrow> False)"

definition parse_message_accepted :: "event_envelope \<Rightarrow> accepted_message result" where
  "parse_message_accepted event =
     wrap_unless is_inbox_protocol_error
       (AgentInboxProtocolError ''inbox-payload-invalid'' (ev_seq event))
       (read_message_accepted event)"

definition acceptance_matches :: "accepted_message \<Rightarrow> payload \<Rightarrow> bool result" where
  "acceptance_matches accepted data =
     all_hold
       [field_is data ''agent_id'' (JStr (acc_agent_id accepted)),
        field_is data ''message_id'' (JStr (msg_message_id (acc_message accepted))),
        field_is data ''content'' (JStr (msg_content (acc_message accepted))),
        field_is data ''source'' (JStr (msg_source (acc_message accepted))),
        field_is data ''target'' (JStr (message_target_value (acc_target accepted))),
        field_is data ''wakeup'' (JBool (acc_wakeup accepted)),
        field_is data ''correlation_id'' (json_opt (msg_correlation_id (acc_message accepted))),
        field_is data ''causation_id'' (json_opt (msg_causation_id (acc_message accepted)))]"

definition is_acceptance_fact :: "event_envelope \<Rightarrow> payload \<Rightarrow> bool" where
  "is_acceptance_fact event data =
     (case parse_message_accepted event of
        Inl _ \<Rightarrow> False
      | Inr _ \<Rightarrow> canonical_json (ev_data event) = canonical_json (JDict data))"

section \<open>Lemmas\<close>

lemma require_message_identifier_Inr [result_simps]:
  "require_message_identifier s f = Inr t \<longleftrightarrow> t = s \<and> ident_ok s"
  by (auto simp: require_message_identifier_def)

lemma agent_inbox_stream_Inr [result_simps]:
  "agent_inbox_stream a = Inr s \<longleftrightarrow> ident_ok a \<and> s = AGENT_INBOX_STREAM_PREFIX @ a"
  by (auto simp: agent_inbox_stream_def result_simps)

lemma require_optional_message_identifier_Inr [result_simps]:
  "require_optional_message_identifier x f = Inr u \<longleftrightarrow> (\<forall>s. x = Some s \<longrightarrow> ident_ok s)"
  by (auto simp: require_optional_message_identifier_def result_simps split: option.splits)

lemma validate_message_Inr [result_simps]:
  "validate_message m = Inr u \<longleftrightarrow>
     ident_ok (msg_message_id m) \<and> ident_ok (msg_source m) \<and> is_message_content (JStr (msg_content m)) \<and>
     (\<forall>s. msg_correlation_id m = Some s \<longrightarrow> ident_ok s) \<and> (\<forall>s. msg_causation_id m = Some s \<longrightarrow> ident_ok s)"
  by (auto simp: validate_message_def result_simps)

lemma message_target_value_inj [simp]: "message_target_value s = message_target_value t \<longleftrightarrow> s = t"
  by (auto simp: message_target_value_def split: message_target.splits)

lemma read_target_Inr [result_simps]:
  "read_target d seq = Inr t \<longleftrightarrow> jget d ''target'' = JStr (message_target_value t)"
  by (cases t) (auto simp: read_target_def Let_def)

lemma read_wakeup_Inr [result_simps]: "read_wakeup d seq = Inr b \<longleftrightarrow> jget d ''wakeup'' = JBool b"
  by (cases "jget d ''wakeup''") (auto simp: read_wakeup_def)

lemma read_content_Inr [result_simps]:
  "read_content d seq = Inr s \<longleftrightarrow> jget d ''content'' = JStr s \<and> is_message_content (JStr s)"
  by (cases "jget d ''content''") (auto simp: read_content_def)

lemma read_message_fields_Inr:
  "read_message_fields d stream seq = Inr a \<longleftrightarrow>
     validate_message (acc_message a) = Inr () \<and> ident_ok (acc_agent_id a) \<and>
     stream = AGENT_INBOX_STREAM_PREFIX @ acc_agent_id a \<and> acc_accepted_seq a = seq \<and>
     jget d ''agent_id'' = JStr (acc_agent_id a) \<and>
     jget d ''message_id'' = JStr (msg_message_id (acc_message a)) \<and>
     jget d ''content'' = JStr (msg_content (acc_message a)) \<and>
     jget d ''source'' = JStr (msg_source (acc_message a)) \<and>
     jget d ''target'' = JStr (message_target_value (acc_target a)) \<and>
     jget d ''wakeup'' = JBool (acc_wakeup a) \<and>
     jindex d ''correlation_id'' = Inr (json_opt (msg_correlation_id (acc_message a))) \<and>
     jindex d ''causation_id'' = Inr (json_opt (msg_causation_id (acc_message a)))"
  by (cases a; cases "acc_message a") (auto simp: read_message_fields_def Let_def result_simps)

lemma parse_message_accepted_Inr:
  "parse_message_accepted ev = Inr a \<longleftrightarrow>
     ev_type ev = lit AGENT_MESSAGE_ACCEPTED \<and> ev_schema_version ev = 1 \<and>
     (\<exists>d. ev_data ev = JDict d \<and> keys_are d AGENT_MESSAGE_ACCEPTED_KEYS \<and>
        read_message_fields d (ev_stream_id ev) (ev_seq ev) = Inr a)"
  by (auto simp: parse_message_accepted_def read_message_accepted_def Let_def result_simps split: json.splits)

lemma message_accepted_data_shape:
  "message_accepted_data a m t w = Inr data \<Longrightarrow>
     data = [(lit ''agent_id'', JStr a), (lit ''message_id'', JStr (msg_message_id m)),
       (lit ''content'', JStr (msg_content m)), (lit ''source'', JStr (msg_source m)),
       (lit ''target'', JStr (message_target_value t)), (lit ''wakeup'', JBool w),
       (lit ''correlation_id'', json_opt (msg_correlation_id m)),
       (lit ''causation_id'', json_opt (msg_causation_id m))]"
  unfolding message_accepted_data_def rbind_eq_Inr require_message_identifier_Inr by auto

lemma parse_message_accepted_error:
  assumes "parse_message_accepted ev = Inl e"
  shows "\<exists>code seq. e = AgentInboxProtocolError code seq"
proof -
  obtain y where "e = (if is_inbox_protocol_error y then y
      else AgentInboxProtocolError ''inbox-payload-invalid'' (ev_seq ev))"
    using assms by (auto simp: parse_message_accepted_def result_simps)
  then show ?thesis by (cases y) (auto simp: is_inbox_protocol_error_def)
qed

section \<open>Properties\<close>

text \<open>
  An accepted message survives the log. For a message the writer admits, the acceptance
  payload read back from the Agent's own Inbox stream is the same message with the same target
  and wakeup decision, at the position of its event; and the event is recognised as the fact
  the writer wrote and matches the payload on retry.
\<close>

theorem message_accepted_roundtrip:
  assumes "message_accepted_data agent_id m target wakeup = Inr data"
    and "ev_type ev = lit AGENT_MESSAGE_ACCEPTED" "ev_schema_version ev = 1"
    and "agent_inbox_stream agent_id = Inr (ev_stream_id ev)" and "ev_data ev = JDict data"
  shows "parse_message_accepted ev = Inr \<lparr>acc_agent_id = agent_id, acc_message = m,
      acc_target = target, acc_wakeup = wakeup, acc_accepted_seq = ev_seq ev\<rparr> \<and>
    is_acceptance_fact ev data \<and>
    acceptance_matches \<lparr>acc_agent_id = agent_id, acc_message = m, acc_target = target,
      acc_wakeup = wakeup, acc_accepted_seq = ev_seq ev\<rparr> data = Inr True"
proof -
  have p: "parse_message_accepted ev = Inr \<lparr>acc_agent_id = agent_id, acc_message = m,
      acc_target = target, acc_wakeup = wakeup, acc_accepted_seq = ev_seq ev\<rparr>"
    using assms
    by (auto simp: message_accepted_data_def result_simps parse_message_accepted_Inr
        read_message_fields_Inr keys_are_def AGENT_MESSAGE_ACCEPTED_KEYS_def)
  then have "is_acceptance_fact ev data" using assms(5) by (simp add: is_acceptance_fact_def)
  moreover have "acceptance_matches \<lparr>acc_agent_id = agent_id, acc_message = m, acc_target = target,
      acc_wakeup = wakeup, acc_accepted_seq = ev_seq ev\<rparr> data = Inr True"
    using message_accepted_data_shape[OF assms(1)] by (simp add: acceptance_matches_def field_is_def)
  ultimately show ?thesis using p by blast
qed

definition sample_message :: agent_message where
  "sample_message = \<lparr>msg_message_id = lit ''m1'', msg_content = [104, 105, 10, 8364],
     msg_source = lit ''user'', msg_correlation_id = None, msg_causation_id = Some (lit ''c0'')\<rparr>"

definition accept_event :: "pystr \<Rightarrow> agent_message \<Rightarrow> int \<Rightarrow> event_envelope" where
  "accept_event a m n = materialize n \<lparr>dt_micros = 0, dt_utcoffset = Some 0\<rparr>
     (AGENT_INBOX_STREAM_PREFIX @ a) n
     (pending AGENT_MESSAGE_ACCEPTED (projr (message_accepted_data a m NEW_TURN True)) 1)"

theorem message_accepted_roundtrip_witness:
  "\<exists>a. parse_message_accepted (accept_event (lit ''a1'') sample_message 1) = Inr a \<and>
     acc_message a = sample_message"
proof -
  have "is_ok (message_accepted_data (lit ''a1'') sample_message NEW_TURN True)" by code_simp
  then obtain d where d: "message_accepted_data (lit ''a1'') sample_message NEW_TURN True = Inr d"
    by (auto simp: is_ok_iff)
  have s: "agent_inbox_stream (lit ''a1'') = Inr (ev_stream_id (accept_event (lit ''a1'') sample_message 1))"
    by code_simp
  show ?thesis
    using message_accepted_roundtrip[OF d _ _ s] d by (simp add: accept_event_def)
qed

end
