(* ===== verification/Agent_Inbox.thy ===== *)
theory Agent_Inbox imports Event_Store Inbox_Identity Agent_Directory begin

text \<open>
  The Inbox of one Agent (agents/inbox.py): the scan of its acceptance stream, the rebuilt view
  and its queries. Acceptance order is stream order; the equivalence below says that an
  accepted Inbox is exactly the list of its events, read one by one.
\<close>

record inbox_scan =
  is_accepted :: "accepted_message list"
  is_by_message :: "(pystr, accepted_message) dict"
  is_issues :: "issue list"
  is_head_seq :: int

definition empty_inbox_scan :: inbox_scan where
  "empty_inbox_scan = \<lparr>is_accepted = [], is_by_message = [], is_issues = [], is_head_seq = 0\<rparr>"

definition message_id_of :: "accepted_message \<Rightarrow> pystr" where
  "message_id_of a = msg_message_id (acc_message a)"

definition inbox_issue :: "string \<Rightarrow> int \<Rightarrow> inbox_scan \<Rightarrow> inbox_scan" where
  "inbox_issue code seq s = s\<lparr>is_issues := is_issues s @ [(code, seq)]\<rparr>"

definition scan_message :: "pystr \<Rightarrow> event_envelope \<Rightarrow> inbox_scan \<Rightarrow> inbox_scan" where
  "scan_message expected_agent_id event s0 =
     (let s = s0\<lparr>is_head_seq := ev_seq event\<rparr> in
      case parse_message_accepted event of
        Inl (AgentInboxProtocolError code seq) \<Rightarrow> inbox_issue code seq s
      | Inl _ \<Rightarrow> inbox_issue ''inbox-payload-invalid'' (ev_seq event) s
      | Inr message \<Rightarrow>
          (if acc_agent_id message \<noteq> expected_agent_id
           then inbox_issue ''inbox-stream-unexpected'' (ev_seq event) s
           else if dict_has (message_id_of message) (is_by_message s)
           then inbox_issue ''inbox-message-id-duplicate'' (ev_seq event) s
           else s\<lparr>is_accepted := is_accepted s @ [message],
                  is_by_message := dict_set (message_id_of message) message (is_by_message s)\<rparr>))"

definition scan_inbox :: "event_envelope list \<Rightarrow> pystr \<Rightarrow> inbox_scan result" where
  "scan_inbox events agent_id =
     rbind (agent_inbox_stream agent_id) (\<lambda>stream.
       Inr (fold (scan_message (remove_prefix AGENT_INBOX_STREAM_PREFIX stream)) events empty_inbox_scan))"

definition validate_agent_inbox_events :: "event_envelope list \<Rightarrow> pystr \<Rightarrow> issue list result" where
  "validate_agent_inbox_events events agent_id =
     rbind (scan_inbox events agent_id) (\<lambda>s. Inr (is_issues s))"

record agent_inbox =
  ib_agent_id :: pystr
  ib_messages :: "accepted_message list"
  ib_head_seq :: int
  ib_by_message :: "(pystr, accepted_message) dict"

definition make_inbox :: "pystr \<Rightarrow> accepted_message list \<Rightarrow> int \<Rightarrow> agent_inbox" where
  "make_inbox agent_id accepted head =
     \<lparr>ib_agent_id = agent_id, ib_messages = accepted, ib_head_seq = head,
      ib_by_message = fold (\<lambda>m. dict_set (message_id_of m) m) accepted []\<rparr>"

definition rebuild_inbox :: "event_envelope list \<Rightarrow> pystr \<Rightarrow> agent_inbox result" where
  "rebuild_inbox events agent_id =
     rbind (scan_inbox events agent_id) (\<lambda>s.
       case is_issues s of
         (code, seq) # _ \<Rightarrow> Inl (AgentInboxProtocolError code seq)
       | [] \<Rightarrow> Inr (make_inbox agent_id (is_accepted s) (is_head_seq s)))"

definition inbox_get :: "agent_inbox \<Rightarrow> pystr \<Rightarrow> accepted_message option" where
  "inbox_get ib message_id = map_of (ib_by_message ib) message_id"

section \<open>What a scan keeps\<close>

definition inbox_inv :: "pystr \<Rightarrow> inbox_scan \<Rightarrow> bool" where
  "inbox_inv a s \<longleftrightarrow> indexes message_id_of (is_accepted s) (is_by_message s) \<and>
     (\<forall>m \<in> set (is_accepted s). acc_agent_id m = a)"

lemma inbox_issue_sel [simp]:
  "is_accepted (inbox_issue c n s) = is_accepted s" "is_by_message (inbox_issue c n s) = is_by_message s"
  "is_issues (inbox_issue c n s) = is_issues s @ [(c, n)]" "is_head_seq (inbox_issue c n s) = is_head_seq s"
  by (simp_all add: inbox_issue_def)

lemma scan_message_cases:
  obtains
    (issue) code seq where "scan_message a e s = inbox_issue code seq (s\<lparr>is_head_seq := ev_seq e\<rparr>)"
      "\<forall>m. parse_message_accepted e = Inr m \<longrightarrow>
         acc_agent_id m \<noteq> a \<or> dict_has (message_id_of m) (is_by_message s)"
  | (accepted) m where "parse_message_accepted e = Inr m" "acc_agent_id m = a"
      "\<not> dict_has (message_id_of m) (is_by_message s)"
      "scan_message a e s = s\<lparr>is_head_seq := ev_seq e, is_accepted := is_accepted s @ [m],
         is_by_message := dict_set (message_id_of m) m (is_by_message s)\<rparr>"
proof (cases "parse_message_accepted e")
  case (Inl x)
  then obtain code seq where "x = AgentInboxProtocolError code seq"
    using parse_message_accepted_error by blast
  with Inl show ?thesis by (intro issue[of code seq]) (auto simp: scan_message_def Let_def)
next
  case (Inr m)
  consider "acc_agent_id m \<noteq> a" | "acc_agent_id m = a" "dict_has (message_id_of m) (is_by_message s)"
    | "acc_agent_id m = a" "\<not> dict_has (message_id_of m) (is_by_message s)" by blast
  then show ?thesis
    using Inr issue accepted by cases (auto simp: scan_message_def Let_def)
qed

interpretation inbox: issue_scan "scan_message a" empty_inbox_scan is_issues "inbox_inv a" for a
proof
  show "inbox_inv a empty_inbox_scan" by (simp add: inbox_inv_def empty_inbox_scan_def)
  show "is_issues empty_inbox_scan = []" by (simp add: empty_inbox_scan_def)
  show "inbox_inv a s \<Longrightarrow> inbox_inv a (scan_message a e s)" for s e
    by (cases rule: scan_message_cases[of a e s]) (auto simp: inbox_inv_def indexes_snoc)
  show "\<exists>iss. is_issues (scan_message a e s) = is_issues s @ iss" for e s
    by (cases rule: scan_message_cases[of a e s]) auto
qed

text \<open>
  Reference definition: a stream is the Inbox of an Agent when every event parses to an
  acceptance of that Agent and no message identity occurs twice.
\<close>

definition inbox_spec :: "pystr \<Rightarrow> event_envelope list \<Rightarrow> accepted_message list \<Rightarrow> bool" where
  "inbox_spec a es ms \<longleftrightarrow> map parse_message_accepted es = map Inr ms \<and>
     (\<forall>m \<in> set ms. acc_agent_id m = a) \<and> distinct (map message_id_of ms)"

lemma inbox_spec_snoc:
  "inbox_spec a (es @ [e]) (ms @ [m]) \<longleftrightarrow> inbox_spec a es ms \<and> parse_message_accepted e = Inr m \<and>
     acc_agent_id m = a \<and> message_id_of m \<notin> message_id_of ` set ms"
  by (auto simp: inbox_spec_def)

lemma scan_spec:
  "is_issues (fold (scan_message a) es empty_inbox_scan) = [] \<Longrightarrow>
     inbox_spec a es (is_accepted (fold (scan_message a) es empty_inbox_scan))"
proof (induction es rule: rev_induct)
  case Nil
  then show ?case by (simp add: inbox_spec_def empty_inbox_scan_def)
next
  case (snoc e es)
  let ?s = "fold (scan_message a) es empty_inbox_scan"
  have clean: "is_issues ?s = []" using snoc.prems by (rule inbox.clean_prefix)
  have inv: "inbox_inv a ?s" by (rule inbox.run_inv)
  show ?case
  proof (cases rule: scan_message_cases[of a e ?s])
    case (issue code seq)
    with snoc.prems show ?thesis by simp
  next
    case (accepted m)
    have idx: "indexes message_id_of (is_accepted ?s) (is_by_message ?s)"
      using inv by (simp add: inbox_inv_def)
    from accepted snoc.IH[OF clean] show ?thesis
      by (simp add: inbox_spec_snoc indexes_has[OF idx])
  qed
qed

lemma spec_scan:
  "inbox_spec a es ms \<Longrightarrow> is_issues (fold (scan_message a) es empty_inbox_scan) = [] \<and>
     is_accepted (fold (scan_message a) es empty_inbox_scan) = ms"
proof (induction es arbitrary: ms rule: rev_induct)
  case Nil
  then show ?case by (simp add: inbox_spec_def empty_inbox_scan_def)
next
  case (snoc e es)
  have "length ms = length (es @ [e])" using snoc.prems unfolding inbox_spec_def by (metis length_map)
  then obtain ms' m where ms: "ms = ms' @ [m]" by (cases ms rule: rev_cases) auto
  let ?s = "fold (scan_message a) es empty_inbox_scan"
  have IH: "is_issues ?s = []" "is_accepted ?s = ms'" and m: "parse_message_accepted e = Inr m"
    "acc_agent_id m = a" "message_id_of m \<notin> message_id_of ` set ms'"
    using snoc by (auto simp: ms inbox_spec_snoc)
  have inv: "inbox_inv a ?s" by (rule inbox.run_inv)
  show ?case
  proof (cases rule: scan_message_cases[of a e ?s])
    case (issue code seq)
    with IH m inv show ?thesis by (auto simp: inbox_inv_def indexes_has)
  next
    case (accepted m')
    with IH m ms show ?thesis by simp
  qed
qed

lemma fold_head_seq: "is_head_seq (fold (scan_message a) es empty_inbox_scan) = stream_head es"
proof (induction es rule: rev_induct)
  case (snoc e es)
  show ?case
    by (cases rule: scan_message_cases[of a e "fold (scan_message a) es empty_inbox_scan"])
      (auto simp: stream_head_def)
qed (simp add: empty_inbox_scan_def stream_head_def)

lemma rebuild_inbox_Inr:
  "rebuild_inbox es a = Inr ib \<longleftrightarrow> ident_ok a \<and> (\<exists>ms. inbox_spec a es ms \<and> ib = make_inbox a ms (stream_head es))"
proof -
  let ?s = "fold (scan_message a) es empty_inbox_scan"
  have "rebuild_inbox es a = Inr ib \<longleftrightarrow>
      ident_ok a \<and> is_issues ?s = [] \<and> ib = make_inbox a (is_accepted ?s) (stream_head es)"
  proof (cases "ident_ok a")
    case True
    then have "scan_inbox es a = Inr ?s"
      by (simp add: scan_inbox_def agent_inbox_stream_def require_message_identifier_def)
    then have "rebuild_inbox es a = (case is_issues ?s of
         (code, seq) # _ \<Rightarrow> Inl (AgentInboxProtocolError code seq)
       | [] \<Rightarrow> Inr (make_inbox a (is_accepted ?s) (stream_head es)))"
      by (simp only: rebuild_inbox_def rbind.simps fold_head_seq)
    then show ?thesis using True by (cases "is_issues ?s") force+
  next
    case False
    then have "\<not> is_ok (agent_inbox_stream a)" by (auto simp: is_ok_iff agent_inbox_stream_Inr)
    then obtain e where "agent_inbox_stream a = Inl e" by (cases "agent_inbox_stream a") auto
    with False show ?thesis by (simp add: rebuild_inbox_def scan_inbox_def)
  qed
  moreover have "inbox_spec a es ms \<longleftrightarrow> is_issues ?s = [] \<and> ms = is_accepted ?s" for ms
    using scan_spec[of a es] spec_scan[of a es] by blast
  ultimately show ?thesis by simp
qed

section \<open>Properties\<close>

text \<open>
  C4: the projector of an Inbox is equivalent to its reference definition. A stream rebuilds
  exactly when the Agent identity is valid, every event parses to an acceptance of this Agent
  and no message identity repeats; the messages are then the parsed events in stream order, so
  the FIFO order of the Inbox is the order of the log and no event is skipped.
\<close>

theorem rebuild_inbox_equivalence:
  "rebuild_inbox es a = Inr ib \<longleftrightarrow> ident_ok a \<and>
     map parse_message_accepted es = map Inr (ib_messages ib) \<and>
     (\<forall>m \<in> set (ib_messages ib). acc_agent_id m = a) \<and> distinct (map message_id_of (ib_messages ib)) \<and>
     ib = make_inbox a (ib_messages ib) (stream_head es)"
proof -
  have sel: "ib_messages (make_inbox a ms h) = ms" for ms h by (simp add: make_inbox_def)
  have "(\<exists>ms. inbox_spec a es ms \<and> ib = make_inbox a ms (stream_head es)) \<longleftrightarrow>
      inbox_spec a es (ib_messages ib) \<and> ib = make_inbox a (ib_messages ib) (stream_head es)"
    using sel by metis
  then show ?thesis unfolding rebuild_inbox_Inr by (auto simp: inbox_spec_def)
qed

definition sample_inbox_events :: "event_envelope list" where
  "sample_inbox_events =
     [accept_event (lit ''a1'') sample_message 1,
      accept_event (lit ''a1'') (sample_message\<lparr>msg_message_id := lit ''m2''\<rparr>) 2]"

definition sample_inbox :: agent_inbox where
  "sample_inbox = projr (rebuild_inbox sample_inbox_events (lit ''a1''))"

lemma sample_inbox_rebuilt: "rebuild_inbox sample_inbox_events (lit ''a1'') = Inr sample_inbox"
proof -
  have "is_ok (rebuild_inbox sample_inbox_events (lit ''a1''))" by code_simp
  then show ?thesis unfolding sample_inbox_def is_ok_iff by auto
qed

theorem rebuild_inbox_equivalence_witness:
  "map message_id_of (ib_messages sample_inbox) = [lit ''m1'', lit ''m2''] \<and>
   map parse_message_accepted sample_inbox_events = map Inr (ib_messages sample_inbox)"
proof -
  have "map message_id_of (ib_messages sample_inbox) = [lit ''m1'', lit ''m2'']" by code_simp
  then show ?thesis using rebuild_inbox_equivalence[THEN iffD1, OF sample_inbox_rebuilt] by blast
qed

lemma rebuild_inbox_get:
  assumes "rebuild_inbox es a = Inr ib"
  shows "inbox_get ib k = Some m \<longleftrightarrow> m \<in> set (ib_messages ib) \<and> message_id_of m = k"
proof -
  obtain ms where ms: "inbox_spec a es ms" and ib: "ib = make_inbox a ms (stream_head es)"
    using assms rebuild_inbox_Inr by blast
  then have "indexes message_id_of ms (ib_by_message ib)"
    by (simp add: make_inbox_def indexes_fold inbox_spec_def)
  then show ?thesis by (simp add: ib inbox_get_def make_inbox_def indexes_def)
qed

end
