(* ===== verification/Inbox_Service.thy ===== *)
theory Inbox_Service imports Agent_Registrar Agent_Inbox begin

text \<open>
  The acceptance transaction of an Agent's Inbox (agents/inbox_service.py): the Agent must be in
  the durable directory, a message identity on record is answered from the record, and anything
  else is appended at the head of the Inbox that was read.
\<close>

definition load_inbox :: "event_store \<Rightarrow> pystr \<Rightarrow> agent_inbox result" where
  "load_inbox st agent_id =
     rbind (agent_inbox_stream agent_id) (\<lambda>stream. rebuild_inbox (read_events st stream 1) agent_id)"

definition append_acceptance ::
    "drawn \<Rightarrow> (event_store \<Rightarrow> event_store) \<Rightarrow> pystr \<Rightarrow> int \<Rightarrow> payload \<Rightarrow> (event_store, event_envelope) action" where
  "append_acceptance dr others agent_id expected_seq data =
     abind (lift_result (agent_inbox_stream agent_id)) (\<lambda>stream.
       append_fact dr others stream expected_seq (pending AGENT_MESSAGE_ACCEPTED data 1)
         (\<lambda>event. is_acceptance_fact event data)
         (explain_failed_append AgentInboxConflictError AgentMessageAcceptError))"

definition answer_accepted :: "accepted_message \<Rightarrow> payload \<Rightarrow> message_receipt result" where
  "answer_accepted existing data =
     rbind (acceptance_matches existing data) (\<lambda>same.
       if \<not> same then Inl AgentMessageConflictError else Inr (receipt existing))"

definition accept_message ::
    "drawn \<Rightarrow> (event_store \<Rightarrow> event_store) \<Rightarrow> pystr \<Rightarrow> agent_message \<Rightarrow> message_target \<Rightarrow> bool
       \<Rightarrow> (event_store, message_receipt) action" where
  "accept_message dr others agent_id message target wakeup =
     abind (lift_result (message_accepted_data agent_id message target wakeup)) (\<lambda>data.
     abind (reading load_directory) (\<lambda>directory.
       if directory_get directory agent_id = None then lift_result (Inl AgentUnknownError)
       else
         abind (reading (\<lambda>st. load_inbox st agent_id)) (\<lambda>ib.
           case inbox_get ib (msg_message_id message) of
             Some existing \<Rightarrow> lift_result (answer_accepted existing data)
           | None \<Rightarrow>
               abind (append_acceptance dr others agent_id (ib_head_seq ib) data) (\<lambda>appended.
                 lift_result (rbind (parse_message_accepted appended) (\<lambda>m. Inr (receipt m)))))))"

section \<open>The Inbox as a log of facts\<close>

abbreviation inbox_stream :: "pystr \<Rightarrow> pystr" where
  "inbox_stream a \<equiv> AGENT_INBOX_STREAM_PREFIX @ a"

interpretation inbox_log: fact_log "\<lambda>es. rebuild_inbox es a" ib_head_seq for a
proof
  fix sid es ib
  assume n: "numbered sid es" and ib: "rebuild_inbox es a = Inr ib"
  then show "ib_head_seq ib = int (length es)"
    using stream_head_numbered[OF n] by (auto simp: rebuild_inbox_Inr make_inbox_def)
qed

lemma load_inbox_Inr:
  "store_ok st \<Longrightarrow> load_inbox st a = Inr ib \<longleftrightarrow> ident_ok a \<and> rebuild_inbox (stream_of st (inbox_stream a)) a = Inr ib"
  by (auto simp: load_inbox_def read_events_all result_simps)

lemma acceptance_extends:
  assumes ib: "rebuild_inbox es a = Inr ib" and m: "parse_message_accepted ev = Inr m" "acc_agent_id m = a"
    and new: "inbox_get ib (message_id_of m) = None"
  shows "\<exists>ib'. rebuild_inbox (es @ [ev]) a = Inr ib' \<and> ib_messages ib' = ib_messages ib @ [m]"
proof -
  obtain ms where ms: "ident_ok a" "inbox_spec a es ms" "ib = make_inbox a ms (stream_head es)"
    using ib by (auto simp: rebuild_inbox_Inr)
  have "message_id_of m \<notin> message_id_of ` set ms"
  proof
    assume "message_id_of m \<in> message_id_of ` set ms"
    then obtain m' where "m' \<in> set ms" "message_id_of m' = message_id_of m" by auto
    then have "inbox_get ib (message_id_of m) = Some m'" using rebuild_inbox_get[OF ib] ms(3) by (simp add: make_inbox_def)
    then show False using new by simp
  qed
  then have "inbox_spec a (es @ [ev]) (ms @ [m])" using ms(2) m by (simp add: inbox_spec_snoc)
  then show ?thesis using ms by (auto simp: rebuild_inbox_Inr make_inbox_def intro!: exI)
qed

text \<open>The record of a message: who accepted it, what it says and how it is to be delivered.\<close>

definition accepted_as :: "accepted_message \<Rightarrow> pystr \<Rightarrow> agent_message \<Rightarrow> message_target \<Rightarrow> bool \<Rightarrow> bool" where
  "accepted_as m a msg target wakeup \<longleftrightarrow>
     acc_agent_id m = a \<and> acc_message m = msg \<and> acc_target m = target \<and> acc_wakeup m = wakeup"

lemma acceptance_parses:
  assumes "message_accepted_data a msg target wakeup = Inr data"
  shows "\<exists>m. parse_message_accepted (fact_envelope dr (inbox_stream a) n (pending AGENT_MESSAGE_ACCEPTED data 1)) = Inr m \<and>
    accepted_as m a msg target wakeup \<and> acc_accepted_seq m = n"
  using assms
  by (intro exI[of _ "\<lparr>acc_agent_id = a, acc_message = msg, acc_target = target, acc_wakeup = wakeup, acc_accepted_seq = n\<rparr>"])
    (auto simp: message_accepted_data_def parse_message_accepted_Inr read_message_fields_Inr result_simps
      keys_are_def AGENT_MESSAGE_ACCEPTED_KEYS_def accepted_as_def)

section \<open>What a call does\<close>

lemma acceptance_matches_eq:
  assumes "message_accepted_data a msg t w = Inr data"
  shows "acceptance_matches m data = Inr (accepted_as m a msg t w)"
proof -
  have c: "json_opt u = json_opt v \<longleftrightarrow> u = v" for u v by (cases u; cases v) simp_all
  show ?thesis
    using message_accepted_data_shape[OF assms]
    by (cases "acc_message m"; cases msg) (auto simp: acceptance_matches_def field_is_def accepted_as_def c)
qed

lemma answer_accepted_eq:
  assumes "message_accepted_data a msg t w = Inr data"
  shows "answer_accepted m data = (if accepted_as m a msg t w then Inr (receipt m) else Inl AgentMessageConflictError)"
  by (simp add: answer_accepted_def acceptance_matches_eq[OF assms])

abbreviation acceptance_envelope :: "drawn \<Rightarrow> pystr \<Rightarrow> agent_inbox \<Rightarrow> payload \<Rightarrow> event_envelope" where
  "acceptance_envelope dr a ib data \<equiv>
     fact_envelope dr (inbox_stream a) (ib_head_seq ib + 1) (pending AGENT_MESSAGE_ACCEPTED data 1)"

lemma accept_message_cases:
  assumes "accept_message dr others a msg target wakeup st = (st1, x)"
  obtains (refused) e where "st1 = st" "x = Inl e"
  | (known) ib m data d where "st1 = st" "load_inbox st a = Inr ib" "inbox_get ib (msg_message_id msg) = Some m" "x = answer_accepted m data"
      "load_directory st = Inr d" "directory_get d a \<noteq> None" "message_accepted_data a msg target wakeup = Inr data"
  | (written) d ib data y where "load_directory st = Inr d" "directory_get d a \<noteq> None" "load_inbox st a = Inr ib"
      "inbox_get ib (msg_message_id msg) = None" "message_accepted_data a msg target wakeup = Inr data"
      "append_acceptance dr others a (ib_head_seq ib) data st = (st1, y)"
      "x = (case y of Inl e \<Rightarrow> Inl e | Inr ev \<Rightarrow> rbind (parse_message_accepted ev) (\<lambda>m. Inr (receipt m)))"
proof -
  from assms show thesis
    unfolding accept_message_def
  proof (cases rule: abind_liftE)
    case (go data)
    from go(2) show thesis
    proof (cases rule: abind_readingE)
      case d: (go d)
      show thesis
      proof (cases "directory_get d a = None")
        case True
        then show thesis using d(2) refused by (auto elim: lift_resultE)
      next
        case False
        then have "abind (reading (\<lambda>st. load_inbox st a)) (\<lambda>ib. case inbox_get ib (msg_message_id msg) of
             Some existing \<Rightarrow> lift_result (answer_accepted existing data)
           | None \<Rightarrow> abind (append_acceptance dr others a (ib_head_seq ib) data) (\<lambda>appended.
                 lift_result (rbind (parse_message_accepted appended) (\<lambda>m. Inr (receipt m))))) st = (st1, x)"
          using d(2) by (simp only: False if_False)
        then show thesis
        proof (cases rule: abind_readingE)
          case ib: (go ib)
          show thesis
          proof (cases "inbox_get ib (msg_message_id msg)")
            case None
            then obtain y where "append_acceptance dr others a (ib_head_seq ib) data st = (st1, y)"
              "x = (case y of Inl e \<Rightarrow> Inl e | Inr ev \<Rightarrow> rbind (parse_message_accepted ev) (\<lambda>m. Inr (receipt m)))"
              using ib(2) by (auto simp: abind_def[of "append_acceptance _ _ _ _ _"] lift_result_def split: prod.splits sum.splits)
            then show thesis using written[OF d(1) False ib(1) None go(1)] by blast
          next
            case (Some m)
            then show thesis using ib known[OF _ ib(1) Some _ d(1) False go(1)] by (auto elim: lift_resultE)
          qed
        qed (use refused in blast)
      qed
    qed (use refused in blast)
  qed (use refused in blast)
qed

lemma accept_message_effect:
  assumes st: "store_ok st" and grow: "extends st (others st)"
    and run: "accept_message dr others a msg target wakeup st = (st1, x)"
  obtains (unchanged) "st1 = st" "\<And>rc. x = Inr rc \<Longrightarrow> \<exists>d ib m. load_directory st = Inr d \<and> directory_get d a \<noteq> None \<and> load_inbox st a = Inr ib \<and>
      inbox_get ib (msg_message_id msg) = Some m \<and> rc = receipt m \<and> accepted_as m a msg target wakeup \<and> is_ok (message_accepted_data a msg target wakeup)"
  | (won) d ib ib' m ev where "load_directory st = Inr d" "directory_get d a \<noteq> None" "load_inbox st a = Inr ib"
      "x = Inr (receipt m)" "stream_of (others st) (inbox_stream a) = stream_of st (inbox_stream a)"
      "\<And>sid. stream_of st1 sid = (if sid = inbox_stream a then stream_of st (inbox_stream a) @ [ev] else stream_of (others st) sid)"
      "rebuild_inbox (stream_of st1 (inbox_stream a)) a = Inr ib'" "ib_messages ib' = ib_messages ib @ [m]" "acc_message m = msg" "store_ok st1"
      "accepted_as m a msg target wakeup" "is_ok (message_accepted_data a msg target wakeup)"
  | (lost) e where "x = Inl e" "\<And>sid. stream_of st1 sid = stream_of (others st) sid" "store_ok st1"
  using run
proof (cases rule: accept_message_cases)
  case (refused e)
  then show thesis using that(1) by simp
next
  case (known ib m data d)
  then have "rc = receipt m \<and> accepted_as m a msg target wakeup" if "x = Inr rc" for rc
    using that by (auto simp: answer_accepted_eq split: if_splits)
  then show thesis using that(1) known by (auto simp: is_ok_iff)
next
  case (written d ib data y)
  have ib: "ident_ok a" "rebuild_inbox (stream_of st (inbox_stream a)) a = Inr ib" using written(3) st by (simp_all add: load_inbox_Inr)
  obtain m where m: "parse_message_accepted (acceptance_envelope dr a ib data) = Inr m" "acc_agent_id m = a" "acc_message m = msg"
      "accepted_as m a msg target wakeup"
    using acceptance_parses[OF written(5)] by (auto simp: accepted_as_def)
  then obtain ib' where ib': "rebuild_inbox (stream_of st (inbox_stream a) @ [acceptance_envelope dr a ib data]) a = Inr ib'"
      "ib_messages ib' = ib_messages ib @ [m]"
    using acceptance_extends[OF ib(2) m(1,2)] written(4) by (auto simp: message_id_of_def)
  have "agent_inbox_stream a = Inr (inbox_stream a)" using ib(1) by (simp add: result_simps)
  then have app: "append_fact dr others (inbox_stream a) (ib_head_seq ib) (pending AGENT_MESSAGE_ACCEPTED data 1)
      (\<lambda>event. is_acceptance_fact event data) (explain_failed_append AgentInboxConflictError AgentMessageAcceptError) st = (st1, y)"
    using written(6) by (simp add: append_acceptance_def)
  show thesis
  proof (cases rule: inbox_log.transaction_outcome[OF st grow ib(2) ib'(1) app, case_names won lost])
    case won
    then show thesis using written m ib' that(2)[of d ib m "acceptance_envelope dr a ib data" ib'] by (simp add: is_ok_iff)
  next
    case (lost e)
    then show thesis using written(7) that(3)[of e] by simp
  qed
qed

lemma inbox_grows:
  assumes "rebuild_inbox (es @ xs) a = Inr ib2"
  shows "\<exists>ib ms. rebuild_inbox es a = Inr ib \<and> ib_messages ib2 = ib_messages ib @ ms"
proof -
  obtain ms where ms: "ident_ok a" "inbox_spec a (es @ xs) ms" "ib_messages ib2 = ms"
    using assms by (auto simp: rebuild_inbox_Inr make_inbox_def)
  let ?n = "length es"
  have "map parse_message_accepted es = map Inr (take ?n ms)"
    using ms(2) by (simp add: inbox_spec_def) (metis append_eq_conv_conj length_map take_map)
  then have "inbox_spec a es (take ?n ms)"
    using ms(2) by (auto simp: inbox_spec_def take_map[symmetric] dest: in_set_takeD)
  then have "rebuild_inbox es a = Inr (make_inbox a (take ?n ms) (stream_head es))" using ms(1) by (auto simp: rebuild_inbox_Inr)
  then show ?thesis using ms(3) by (intro exI[of _ "make_inbox a (take ?n ms) (stream_head es)"] exI[of _ "drop ?n ms"]) (simp add: make_inbox_def)
qed

lemma message_stays:
  assumes "store_ok st1" "load_inbox st1 a = Inr ib1" "extends st1 st2" "load_inbox st2 a = Inr ib2" "inbox_get ib1 k = Some m"
  shows "inbox_get ib2 k = Some m"
proof -
  obtain xs where xs: "stream_of st2 (inbox_stream a) = stream_of st1 (inbox_stream a) @ xs" "store_ok st2"
    using assms(3) by (auto simp: extends_def)
  have r1: "rebuild_inbox (stream_of st1 (inbox_stream a)) a = Inr ib1" using assms(1,2) by (simp add: load_inbox_Inr)
  have r2: "rebuild_inbox (stream_of st1 (inbox_stream a) @ xs) a = Inr ib2" using assms(4) xs by (simp add: load_inbox_Inr)
  obtain ms where "ib_messages ib2 = ib_messages ib1 @ ms" using inbox_grows[OF r2] r1 by auto
  then show ?thesis using assms(5) rebuild_inbox_get[OF r1] rebuild_inbox_get[OF r2] by simp
qed

lemma accept_message_known:
  assumes "load_directory st = Inr d" "directory_get d a \<noteq> None" "load_inbox st a = Inr ib"
    and "inbox_get ib (msg_message_id msg) = Some m"
  shows "accept_message dr others a msg t w st =
    (st, rbind (message_accepted_data a msg t w) (\<lambda>_. if accepted_as m a msg t w then Inr (receipt m) else Inl AgentMessageConflictError))"
  using assms
  by (cases "message_accepted_data a msg t w") (simp_all add: accept_message_def lift_result_def answer_accepted_eq)

lemma accept_message_recorded:
  assumes st: "store_ok st" and grow: "extends st (others st)" and run: "accept_message dr others a msg t w st = (st1, Inr rc)"
  shows "extends st st1" "is_ok (message_accepted_data a msg t w)" "\<exists>d. load_directory st = Inr d \<and> directory_get d a \<noteq> None"
    "\<exists>ib m. load_inbox st1 a = Inr ib \<and> inbox_get ib (msg_message_id msg) = Some m \<and> rc = receipt m \<and> accepted_as m a msg t w"
proof -
  have "extends st st1 \<and> is_ok (message_accepted_data a msg t w) \<and> (\<exists>d. load_directory st = Inr d \<and> directory_get d a \<noteq> None) \<and>
    (\<exists>ib m. load_inbox st1 a = Inr ib \<and> inbox_get ib (msg_message_id msg) = Some m \<and> rc = receipt m \<and> accepted_as m a msg t w)"
  proof (cases rule: accept_message_effect[OF st grow run, case_names unchanged won lost])
    case unchanged
    then show ?thesis using extends_refl[OF st] by blast
  next
    case (won d ib ib' m ev)
    then have "inbox_get ib' (msg_message_id msg) = Some m" by (simp add: rebuild_inbox_get[OF won(7)] message_id_of_def)
    moreover have "load_inbox st1 a = Inr ib'" using won(3,7,10) st by (simp add: load_inbox_Inr)
    moreover have "extends st st1" using grow won(6,10) by (auto simp: extends_def)
    ultimately show ?thesis using won(1,2,4,11,12) by blast
  qed simp
  then show "extends st st1" "is_ok (message_accepted_data a msg t w)" "\<exists>d. load_directory st = Inr d \<and> directory_get d a \<noteq> None"
    "\<exists>ib m. load_inbox st1 a = Inr ib \<and> inbox_get ib (msg_message_id msg) = Some m \<and> rc = receipt m \<and> accepted_as m a msg t w"
    by blast+
qed

lemma directory_stays:
  assumes "store_ok st1" "load_directory st1 = Inr d1" "extends st1 st2" "load_directory st2 = Inr d2" "directory_get d1 a \<noteq> None"
  shows "directory_get d2 a \<noteq> None"
proof -
  obtain xs where xs: "stream_of st2 AGENT_DIRECTORY_STREAM = stream_of st1 AGENT_DIRECTORY_STREAM @ xs" "store_ok st2"
    using assms(3) by (auto simp: extends_def)
  have "rebuild_directory (stream_of st1 AGENT_DIRECTORY_STREAM @ xs) = Inr d2" using assms(4) xs by (simp add: load_directory_Inr)
  from directory_grows[OF this] show ?thesis using assms(1,2,5) by (auto simp: load_directory_Inr)
qed

section \<open>Properties\<close>

text \<open>
  C20: a message is accepted once. When an acceptance returns a receipt, under any interference of
  other writers, every later store whose directory and Inbox are readable holds the message of that
  receipt under its identity. A call that repeats the identity there writes nothing; it is answered
  by that very receipt when it repeats the message, the target and the wake-up flag, and otherwise
  it is refused, as a conflict whenever its message is valid.
\<close>

theorem accept_message_once:
  assumes "store_ok st" "extends st (others st)" "accept_message dr others a msg target wakeup st = (st1, Inr rc)"
    and "extends st1 st2" "is_ok (load_directory st2)" "load_inbox st2 a = Inr ib2" "msg_message_id msg2 = msg_message_id msg"
  shows "(\<exists>m. inbox_get ib2 (msg_message_id msg) = Some m \<and> receipt m = rc \<and> acc_message m = msg) \<and>
    accept_message dr2 others2 a msg2 t2 w2 st2 =
      (st2, if msg2 = msg \<and> t2 = target \<and> w2 = wakeup then Inr rc
            else case message_accepted_data a msg2 t2 w2 of Inl e \<Rightarrow> Inl e | Inr _ \<Rightarrow> Inl AgentMessageConflictError)"
proof -
  note R = accept_message_recorded[OF assms(1-3)]
  obtain ib1 m where m: "load_inbox st1 a = Inr ib1" "inbox_get ib1 (msg_message_id msg) = Some m" "rc = receipt m"
      "accepted_as m a msg target wakeup" using R(4) by blast
  have ok: "store_ok st1" using R(1) by (simp add: extends_def)
  have get: "inbox_get ib2 (msg_message_id msg2) = Some m" using message_stays[OF ok m(1) assms(4,6) m(2)] assms(7) by simp
  obtain d2 where d2: "load_directory st2 = Inr d2" using assms(5) by (auto simp: is_ok_iff)
  have "directory_get d2 a \<noteq> None" using R(3) directory_stays[OF assms(1) _ extends_trans[OF R(1) assms(4)] d2] by blast
  from accept_message_known[OF d2 this assms(6) get] have
    "accept_message dr2 others2 a msg2 t2 w2 st2 = (st2, rbind (message_accepted_data a msg2 t2 w2)
       (\<lambda>_. if accepted_as m a msg2 t2 w2 then Inr (receipt m) else Inl AgentMessageConflictError))" .
  moreover have "accepted_as m a msg2 t2 w2 \<longleftrightarrow> msg2 = msg \<and> t2 = target \<and> w2 = wakeup" using m(4) by (auto simp: accepted_as_def)
  ultimately have "accept_message dr2 others2 a msg2 t2 w2 st2 =
      (st2, if msg2 = msg \<and> t2 = target \<and> w2 = wakeup then Inr rc
            else case message_accepted_data a msg2 t2 w2 of Inl e \<Rightarrow> Inl e | Inr _ \<Rightarrow> Inl AgentMessageConflictError)"
    using m(3) R(2) by (cases "message_accepted_data a msg2 t2 w2") (auto simp: is_ok_iff)
  then show ?thesis using get m(3,4) assms(7) by (simp add: accepted_as_def)
qed

definition inbox_run :: "event_store \<times> message_receipt result" where
  "inbox_run = accept_message (\<lambda>n. (n, sample_time)) (\<lambda>st. st) (lit ''root'') sample_message NEW_TURN True registrar_store"

text \<open>Retried as it was, the message gets its receipt again; retried with other content, it is refused.\<close>

theorem accept_message_once_witness:
  "\<exists>st1 rc. inbox_run = (st1, Inr rc) \<and> rcp_accepted_seq rc = 1 \<and>
     accept_message (\<lambda>n. (n, sample_time)) (\<lambda>st. st) (lit ''root'') sample_message NEW_TURN True st1 = (st1, Inr rc) \<and>
     accept_message (\<lambda>n. (n, sample_time)) (\<lambda>st. st) (lit ''root'') (sample_message\<lparr>msg_content := [104]\<rparr>) NEW_TURN True st1 =
       (st1, Inl AgentMessageConflictError)"
proof -
  have ok: "store_ok registrar_store"
    by (auto simp: registrar_store_def store_ok_def dict_ok_def numbered_def sample_root_def)
  have "is_ok (snd inbox_run)" "rcp_accepted_seq (projr (snd inbox_run)) = 1" "is_ok (load_directory (fst inbox_run))" by code_simp+
  then have "inbox_run = (fst inbox_run, Inr (projr (snd inbox_run))) \<and> rcp_accepted_seq (projr (snd inbox_run)) = 1 \<and>
      is_ok (load_directory (fst inbox_run))"
    by (auto simp: is_ok_iff prod_eq_iff)
  then obtain st1 rc where run: "inbox_run = (st1, Inr rc)" "rcp_accepted_seq rc = 1" "is_ok (load_directory st1)" by blast
  note run1 = run(1)[unfolded inbox_run_def]
  obtain ib1 where ib1: "load_inbox st1 (lit ''root'') = Inr ib1" using accept_message_recorded(4)[OF ok extends_refl[OF ok] run1] by blast
  have ok1: "store_ok st1" using accept_message_recorded(1)[OF ok extends_refl[OF ok] run1] by (simp add: extends_def)
  let ?other = "sample_message\<lparr>msg_content := [104]\<rparr>"
  have other: "is_ok (message_accepted_data (lit ''root'') ?other NEW_TURN True)" "msg_message_id ?other = msg_message_id sample_message"
      "?other \<noteq> sample_message" by code_simp+
  note once = accept_message_once[OF ok extends_refl[OF ok] run1 extends_refl[OF ok1] run(3) ib1]
  have "accept_message (\<lambda>n. (n, sample_time)) (\<lambda>st. st) (lit ''root'') sample_message NEW_TURN True st1 = (st1, Inr rc)"
    using once[OF refl] by simp
  moreover have "accept_message (\<lambda>n. (n, sample_time)) (\<lambda>st. st) (lit ''root'') ?other NEW_TURN True st1 = (st1, Inl AgentMessageConflictError)"
    using once[OF other(2)] other(1,3) by (auto simp: is_ok_iff)
  ultimately show ?thesis using run(1,2) by blast
qed

end
