(* ===== verification/Delivery_Identity.thy ===== *)
theory Delivery_Identity imports Agent_Identity begin

text \<open>
  What a delivery fact is (supervision/delivery_identity.py): the stream of an Agent's
  deliveries, the four event types with their exact keys, the writers of their payloads and
  the one parser. The parser of the source returns a dictionary whose keys are determined by
  the event type; here each key set is a constructor.
\<close>

abbreviation AGENT_DELIVERY_STREAM_PREFIX :: pystr where
  "AGENT_DELIVERY_STREAM_PREFIX \<equiv> lit ''agent-delivery:''"

abbreviation AGENT_MESSAGE_CLAIMED :: string where "AGENT_MESSAGE_CLAIMED \<equiv> ''agent/message-claimed''"
abbreviation AGENT_MESSAGE_COMPLETED :: string where "AGENT_MESSAGE_COMPLETED \<equiv> ''agent/message-completed''"
abbreviation AGENT_MESSAGE_FAILED :: string where "AGENT_MESSAGE_FAILED \<equiv> ''agent/message-failed''"
abbreviation AGENT_MESSAGE_CANCELLED :: string where "AGENT_MESSAGE_CANCELLED \<equiv> ''agent/message-cancelled''"

definition CLAIMED_KEYS :: "string list" where
  "CLAIMED_KEYS = [''agent_id'', ''message_id'', ''accepted_seq'', ''claim_id'', ''activation_id'', ''session_id'']"

definition COMPLETED_KEYS :: "string list" where
  "COMPLETED_KEYS = [''agent_id'', ''message_id'', ''claim_id'', ''turn_id'', ''reason'']"

definition FAILED_KEYS :: "string list" where
  "FAILED_KEYS = [''agent_id'', ''message_id'', ''claim_id'', ''error_code'']"

definition CANCELLED_KEYS :: "string list" where
  "CANCELLED_KEYS = [''agent_id'', ''message_id'', ''claim_id'', ''reason'']"

definition KEYS_BY_TYPE :: "(pystr, string list) dict" where
  "KEYS_BY_TYPE = [(lit AGENT_MESSAGE_CLAIMED, CLAIMED_KEYS), (lit AGENT_MESSAGE_COMPLETED, COMPLETED_KEYS),
     (lit AGENT_MESSAGE_FAILED, FAILED_KEYS), (lit AGENT_MESSAGE_CANCELLED, CANCELLED_KEYS)]"

definition MAX_REASON_CHARS :: int where
  "MAX_REASON_CHARS = 200"

datatype delivery_fact =
    Claimed_Fact (df_agent_id: pystr) (df_message_id: pystr) (df_claim_id: pystr)
      (df_accepted_seq: int) (df_activation_id: pystr) (df_session_id: pystr)
  | Completed_Fact (df_agent_id: pystr) (df_message_id: pystr) (df_claim_id: pystr)
      (df_turn_id: pystr) (df_reason: pystr)
  | Failed_Fact (df_agent_id: pystr) (df_message_id: pystr) (df_claim_id: pystr) (df_error_code: pystr)
  | Cancelled_Fact (df_agent_id: pystr) (df_message_id: pystr) (df_claim_id: pystr) (df_reason: pystr)

section \<open>Identifiers, reasons and streams\<close>

definition require_delivery_identifier :: "pystr \<Rightarrow> string \<Rightarrow> pystr result" where
  "require_delivery_identifier value field =
     (if is_agent_identifier (JStr value) then Inr value
      else Inl (DeliveryInputError ''delivery-identity-invalid'' field))"

definition is_delivery_reason :: "json \<Rightarrow> bool" where
  "is_delivery_reason value =
     (case value of
        JStr s \<Rightarrow>
          (if s = [] \<or> s \<noteq> py_strip s then False
           else if MAX_REASON_CHARS < py_len s then False
           else is_single_line_safe s)
      | _ \<Rightarrow> False)"

definition require_delivery_reason :: "pystr \<Rightarrow> string \<Rightarrow> pystr result" where
  "require_delivery_reason value field =
     (if is_delivery_reason (JStr value) then Inr value
      else Inl (DeliveryInputError ''delivery-reason-invalid'' field))"

definition agent_delivery_stream :: "pystr \<Rightarrow> pystr result" where
  "agent_delivery_stream agent_id =
     rbind (require_delivery_identifier agent_id ''agent_id'') (\<lambda>a.
       Inr (AGENT_DELIVERY_STREAM_PREFIX @ a))"

section \<open>Writing\<close>

definition claimed_data ::
    "pystr \<Rightarrow> pystr \<Rightarrow> int \<Rightarrow> pystr \<Rightarrow> pystr \<Rightarrow> pystr \<Rightarrow> payload result" where
  "claimed_data agent_id message_id accepted_seq claim_id activation_id session_id =
     (if accepted_seq < 1 then Inl (DeliveryInputError ''delivery-accepted-seq-invalid'' ''accepted_seq'')
      else
        rbind (require_delivery_identifier agent_id ''agent_id'') (\<lambda>a.
        rbind (require_delivery_identifier message_id ''message_id'') (\<lambda>m.
        rbind (require_delivery_identifier claim_id ''claim_id'') (\<lambda>c.
        rbind (require_delivery_identifier activation_id ''activation_id'') (\<lambda>v.
        rbind (require_delivery_identifier session_id ''session_id'') (\<lambda>s.
          Inr [(lit ''agent_id'', JStr a), (lit ''message_id'', JStr m),
               (lit ''accepted_seq'', JInt accepted_seq), (lit ''claim_id'', JStr c),
               (lit ''activation_id'', JStr v), (lit ''session_id'', JStr s)]))))))"

definition completed_data :: "pystr \<Rightarrow> pystr \<Rightarrow> pystr \<Rightarrow> pystr \<Rightarrow> pystr \<Rightarrow> payload result" where
  "completed_data agent_id message_id claim_id turn_id reason =
     rbind (require_delivery_identifier agent_id ''agent_id'') (\<lambda>a.
     rbind (require_delivery_identifier message_id ''message_id'') (\<lambda>m.
     rbind (require_delivery_identifier claim_id ''claim_id'') (\<lambda>c.
     rbind (require_delivery_identifier turn_id ''turn_id'') (\<lambda>t.
     rbind (require_delivery_reason reason ''reason'') (\<lambda>r.
       Inr [(lit ''agent_id'', JStr a), (lit ''message_id'', JStr m), (lit ''claim_id'', JStr c),
            (lit ''turn_id'', JStr t), (lit ''reason'', JStr r)])))))"

definition failed_data :: "pystr \<Rightarrow> pystr \<Rightarrow> pystr \<Rightarrow> pystr \<Rightarrow> payload result" where
  "failed_data agent_id message_id claim_id error_code =
     rbind (require_delivery_identifier agent_id ''agent_id'') (\<lambda>a.
     rbind (require_delivery_identifier message_id ''message_id'') (\<lambda>m.
     rbind (require_delivery_identifier claim_id ''claim_id'') (\<lambda>c.
     rbind (require_delivery_reason error_code ''error_code'') (\<lambda>r.
       Inr [(lit ''agent_id'', JStr a), (lit ''message_id'', JStr m), (lit ''claim_id'', JStr c),
            (lit ''error_code'', JStr r)]))))"

definition cancelled_data :: "pystr \<Rightarrow> pystr \<Rightarrow> pystr \<Rightarrow> pystr \<Rightarrow> payload result" where
  "cancelled_data agent_id message_id claim_id reason =
     rbind (require_delivery_identifier agent_id ''agent_id'') (\<lambda>a.
     rbind (require_delivery_identifier message_id ''message_id'') (\<lambda>m.
     rbind (require_delivery_identifier claim_id ''claim_id'') (\<lambda>c.
     rbind (require_delivery_reason reason ''reason'') (\<lambda>r.
       Inr [(lit ''agent_id'', JStr a), (lit ''message_id'', JStr m), (lit ''claim_id'', JStr c),
            (lit ''reason'', JStr r)]))))"

section \<open>Reading\<close>

definition read_reason :: "payload \<Rightarrow> string \<Rightarrow> int \<Rightarrow> pystr result" where
  "read_reason data key seq =
     (case jget data key of
        JStr s \<Rightarrow> (if is_delivery_reason (JStr s) then Inr s
                   else Inl (DeliveryProtocolError ''delivery-reason-invalid'' seq))
      | _ \<Rightarrow> Inl (DeliveryProtocolError ''delivery-reason-invalid'' seq))"

definition read_accepted_seq :: "payload \<Rightarrow> int \<Rightarrow> int result" where
  "read_accepted_seq data seq =
     (case jget data ''accepted_seq'' of
        JInt value \<Rightarrow> (if value < 1 then Inl (DeliveryProtocolError ''delivery-accepted-seq-invalid'' seq)
                       else Inr value)
      | _ \<Rightarrow> Inl (DeliveryProtocolError ''delivery-accepted-seq-invalid'' seq))"

definition read_delivery_fields :: "pystr \<Rightarrow> payload \<Rightarrow> pystr \<Rightarrow> int \<Rightarrow> delivery_fact result" where
  "read_delivery_fields ty data stream seq =
     (let bad = DeliveryProtocolError ''delivery-identity-invalid'' seq in
      rbind (read_identifier_or bad data ''agent_id'') (\<lambda>agent_id.
      rbind (agent_delivery_stream agent_id) (\<lambda>expected.
      rbind (raise_if (stream \<noteq> expected) (DeliveryProtocolError ''delivery-stream-unexpected'' seq)) (\<lambda>_.
      rbind (read_identifier_or bad data ''message_id'') (\<lambda>message_id.
      rbind (read_identifier_or bad data ''claim_id'') (\<lambda>claim_id.
        if ty = lit AGENT_MESSAGE_CLAIMED then
          rbind (read_accepted_seq data seq) (\<lambda>accepted_seq.
          rbind (read_identifier_or bad data ''activation_id'') (\<lambda>activation_id.
          rbind (read_identifier_or bad data ''session_id'') (\<lambda>session_id.
            Inr (Claimed_Fact agent_id message_id claim_id accepted_seq activation_id session_id))))
        else if ty = lit AGENT_MESSAGE_COMPLETED then
          rbind (read_identifier_or bad data ''turn_id'') (\<lambda>turn_id.
          rbind (read_reason data ''reason'' seq) (\<lambda>reason.
            Inr (Completed_Fact agent_id message_id claim_id turn_id reason)))
        else if ty = lit AGENT_MESSAGE_FAILED then
          rbind (read_reason data ''error_code'' seq) (\<lambda>error_code.
            Inr (Failed_Fact agent_id message_id claim_id error_code))
        else
          rbind (read_reason data ''reason'' seq) (\<lambda>reason.
            Inr (Cancelled_Fact agent_id message_id claim_id reason))))))))"

definition read_delivery_event :: "event_envelope \<Rightarrow> delivery_fact result" where
  "read_delivery_event event =
     (let seq = ev_seq event in
      case map_of KEYS_BY_TYPE (ev_type event) of
        None \<Rightarrow> Inl (DeliveryProtocolError ''delivery-event-type-unknown'' seq)
      | Some keys \<Rightarrow>
          (if ev_schema_version event \<noteq> 1
           then Inl (DeliveryProtocolError ''delivery-schema-version-unsupported'' seq)
           else case ev_data event of
             JDict data \<Rightarrow>
               (if \<not> keys_are data keys
                then Inl (DeliveryProtocolError ''delivery-payload-keys-unexpected'' seq)
                else read_delivery_fields (ev_type event) data (ev_stream_id event) seq)
           | _ \<Rightarrow> Inl (DeliveryProtocolError ''delivery-payload-invalid'' seq)))"

definition is_delivery_protocol_error :: "exn \<Rightarrow> bool" where
  "is_delivery_protocol_error e = (case e of DeliveryProtocolError _ _ \<Rightarrow> True | _ \<Rightarrow> False)"

definition parse_delivery_event :: "event_envelope \<Rightarrow> delivery_fact result" where
  "parse_delivery_event event =
     wrap_unless is_delivery_protocol_error
       (DeliveryProtocolError ''delivery-payload-invalid'' (ev_seq event))
       (read_delivery_event event)"

section \<open>Lemmas\<close>

lemma require_delivery_identifier_Inr [result_simps]:
  "require_delivery_identifier s f = Inr t \<longleftrightarrow> t = s \<and> ident_ok s"
  by (auto simp: require_delivery_identifier_def)

lemma require_delivery_reason_Inr [result_simps]:
  "require_delivery_reason s f = Inr t \<longleftrightarrow> t = s \<and> is_delivery_reason (JStr s)"
  by (auto simp: require_delivery_reason_def)

lemma agent_delivery_stream_Inr [result_simps]:
  "agent_delivery_stream a = Inr s \<longleftrightarrow> ident_ok a \<and> s = AGENT_DELIVERY_STREAM_PREFIX @ a"
  by (auto simp: agent_delivery_stream_def result_simps)

lemma read_reason_Inr [result_simps]:
  "read_reason d k seq = Inr s \<longleftrightarrow> jget d k = JStr s \<and> is_delivery_reason (JStr s)"
  by (cases "jget d k") (auto simp: read_reason_def)

lemma read_accepted_seq_Inr [result_simps]:
  "read_accepted_seq d seq = Inr n \<longleftrightarrow> jget d ''accepted_seq'' = JInt n \<and> 1 \<le> n"
  by (cases "jget d ''accepted_seq''") (auto simp: read_accepted_seq_def)

text \<open>The payload of a fact and the event type it travels under: what the writers produce.\<close>

fun fact_type :: "delivery_fact \<Rightarrow> string" where
  "fact_type (Claimed_Fact _ _ _ _ _ _) = AGENT_MESSAGE_CLAIMED"
| "fact_type (Completed_Fact _ _ _ _ _) = AGENT_MESSAGE_COMPLETED"
| "fact_type (Failed_Fact _ _ _ _) = AGENT_MESSAGE_FAILED"
| "fact_type (Cancelled_Fact _ _ _ _) = AGENT_MESSAGE_CANCELLED"

fun fact_data :: "delivery_fact \<Rightarrow> payload result" where
  "fact_data (Claimed_Fact a m c n v s) = claimed_data a m n c v s"
| "fact_data (Completed_Fact a m c t r) = completed_data a m c t r"
| "fact_data (Failed_Fact a m c e) = failed_data a m c e"
| "fact_data (Cancelled_Fact a m c r) = cancelled_data a m c r"

lemma parse_delivery_event_Inr:
  "parse_delivery_event ev = Inr f \<longleftrightarrow>
     (\<exists>keys d. map_of KEYS_BY_TYPE (ev_type ev) = Some keys \<and> ev_schema_version ev = 1 \<and>
        ev_data ev = JDict d \<and> keys_are d keys \<and>
        read_delivery_fields (ev_type ev) d (ev_stream_id ev) (ev_seq ev) = Inr f)"
  unfolding parse_delivery_event_def read_delivery_event_def Let_def wrap_unless_eq_Inr
  by (cases "ev_data ev") (simp_all split: option.split)

lemma parse_delivery_event_error:
  assumes "parse_delivery_event ev = Inl e"
  shows "\<exists>code seq. e = DeliveryProtocolError code seq"
proof -
  obtain y where "e = (if is_delivery_protocol_error y then y
      else DeliveryProtocolError ''delivery-payload-invalid'' (ev_seq ev))"
    using assms by (auto simp: parse_delivery_event_def result_simps)
  then show ?thesis by (cases y) (auto simp: is_delivery_protocol_error_def)
qed

lemma keys_by_type [simp]:
  "map_of KEYS_BY_TYPE (lit AGENT_MESSAGE_CLAIMED) = Some CLAIMED_KEYS"
  "map_of KEYS_BY_TYPE (lit AGENT_MESSAGE_COMPLETED) = Some COMPLETED_KEYS"
  "map_of KEYS_BY_TYPE (lit AGENT_MESSAGE_FAILED) = Some FAILED_KEYS"
  "map_of KEYS_BY_TYPE (lit AGENT_MESSAGE_CANCELLED) = Some CANCELLED_KEYS"
  by (simp_all add: KEYS_BY_TYPE_def)

lemma parse_delivery_event_ident:
  "parse_delivery_event ev = Inr f \<Longrightarrow>
     ident_ok (df_agent_id f) \<and> ev_stream_id ev = AGENT_DELIVERY_STREAM_PREFIX @ df_agent_id f"
  unfolding parse_delivery_event_Inr read_delivery_fields_def Let_def rbind_eq_Inr
  by (auto simp: result_simps split: if_splits)

lemma fact_parses:
  assumes "fact_data f = Inr data"
    and "ev_type ev = lit (fact_type f)" "ev_schema_version ev = 1" "ev_data ev = JDict data"
    and "agent_delivery_stream (df_agent_id f) = Inr (ev_stream_id ev)"
  shows "parse_delivery_event ev = Inr f"
proof (cases f)
  case (Claimed_Fact a m c n v s)
  with assms show ?thesis
    by (auto simp: claimed_data_def parse_delivery_event_Inr read_delivery_fields_def Let_def result_simps
        keys_are_def CLAIMED_KEYS_def insert_commute split: if_splits)
next
  case (Completed_Fact a m c t r)
  with assms show ?thesis
    by (auto simp: completed_data_def parse_delivery_event_Inr read_delivery_fields_def Let_def result_simps
        keys_are_def COMPLETED_KEYS_def)
next
  case (Failed_Fact a m c e)
  with assms show ?thesis
    by (auto simp: failed_data_def parse_delivery_event_Inr read_delivery_fields_def Let_def result_simps
        keys_are_def FAILED_KEYS_def)
next
  case (Cancelled_Fact a m c r)
  with assms show ?thesis
    by (auto simp: cancelled_data_def parse_delivery_event_Inr read_delivery_fields_def Let_def result_simps
        keys_are_def CANCELLED_KEYS_def)
qed

section \<open>Properties\<close>

text \<open>
  Every delivery fact that a writer admits is read back. The payload of a claim, a
  completion, a failure or a cancellation, carried under its event type on the delivery stream
  of its Agent, parses to exactly the fact that was written.
\<close>

theorem delivery_fact_roundtrip:
  assumes "fact_data f = Inr data"
    and "ev_type ev = lit (fact_type f)" "ev_schema_version ev = 1" "ev_data ev = JDict data"
    and "agent_delivery_stream (df_agent_id f) = Inr (ev_stream_id ev)"
  shows "parse_delivery_event ev = Inr f"
  using assms by (rule fact_parses)

definition fact_event :: "delivery_fact \<Rightarrow> int \<Rightarrow> event_envelope" where
  "fact_event f n = materialize n \<lparr>dt_micros = 0, dt_utcoffset = Some 0\<rparr>
     (AGENT_DELIVERY_STREAM_PREFIX @ df_agent_id f) n
     (pending (fact_type f) (projr (fact_data f)) 1)"

definition sample_claim :: delivery_fact where
  "sample_claim = Claimed_Fact (lit ''a1'') (lit ''m1'') (lit ''c1'') 1 (lit ''act-1'') (lit ''s1'')"

theorem delivery_fact_roundtrip_witness:
  "parse_delivery_event (fact_event sample_claim 1) = Inr sample_claim"
proof -
  have "is_ok (fact_data sample_claim)" by code_simp
  then obtain d where d: "fact_data sample_claim = Inr d" by (auto simp: is_ok_iff)
  have s: "agent_delivery_stream (df_agent_id sample_claim) = Inr (ev_stream_id (fact_event sample_claim 1))"
    by code_simp
  show ?thesis
    using delivery_fact_roundtrip[OF d _ _ _ s] d by (simp add: fact_event_def)
qed

end
