(* ===== verification/Delivery.thy ===== *)
theory Delivery imports Delivery_Identity Agent_Inbox begin

text \<open>
  The delivery lifecycle of one Agent's messages (supervision/delivery.py): the scan of the
  delivery stream against the Inbox, the rebuilt log and its queries. A message is accepted,
  then claimed, then completed, failed or cancelled, and nothing else. The scan is the guard
  that keeps a message from being run twice or out of order.
\<close>

record message_claim =
  mc_agent_id :: pystr
  mc_message_id :: pystr
  mc_accepted_seq :: int
  mc_claim_id :: pystr
  mc_activation_id :: pystr
  mc_session_id :: pystr
  mc_claimed_seq :: int

record message_outcome =
  mo_claim_id :: pystr
  mo_message_id :: pystr
  mo_state :: string
  mo_code :: pystr
  mo_turn_id :: "pystr option"
  mo_terminal_seq :: int

record delivery_scan =
  dl_claims :: "message_claim list"
  dl_by_claim_id :: "(pystr, message_claim) dict"
  dl_by_message :: "(pystr, message_claim) dict"
  dl_outcomes :: "(pystr, message_outcome) dict"
  dl_issues :: "issue list"
  dl_head_seq :: int

definition empty_delivery_scan :: delivery_scan where
  "empty_delivery_scan = \<lparr>dl_claims = [], dl_by_claim_id = [], dl_by_message = [],
     dl_outcomes = [], dl_issues = [], dl_head_seq = 0\<rparr>"

definition delivery_issue :: "string \<Rightarrow> int \<Rightarrow> delivery_scan \<Rightarrow> delivery_scan" where
  "delivery_issue code seq s = s\<lparr>dl_issues := dl_issues s @ [(code, seq)]\<rparr>"

section \<open>The scan\<close>

text \<open>
  The inner loop over the queued messages: the identity of the first unclaimed message, or
  that an open claim blocks the queue.
\<close>

fun scan_queue ::
    "(pystr, message_claim) dict \<Rightarrow> (pystr, message_outcome) dict \<Rightarrow> accepted_message list
       \<Rightarrow> pystr option \<times> bool" where
  "scan_queue by_message outcomes [] = (None, False)"
| "scan_queue by_message outcomes (queued # rest) =
     (case map_of by_message (message_id_of queued) of
        None \<Rightarrow> (Some (message_id_of queued), False)
      | Some prior \<Rightarrow>
          (if \<not> dict_has (mc_claim_id prior) outcomes then (None, True)
           else scan_queue by_message outcomes rest))"

definition claim_refusal :: "delivery_scan \<Rightarrow> agent_inbox \<Rightarrow> delivery_fact \<Rightarrow> string option" where
  "claim_refusal s ib f =
     (case inbox_get ib (df_message_id f) of
        None \<Rightarrow> Some ''delivery-message-unknown''
      | Some accepted \<Rightarrow>
          (if acc_accepted_seq accepted \<noteq> df_accepted_seq f then Some ''delivery-accepted-seq-mismatch''
           else if dict_has (df_claim_id f) (dl_by_claim_id s) then Some ''delivery-claim-id-duplicate''
           else if dict_has (df_message_id f) (dl_by_message s) then Some ''delivery-claim-duplicate''
           else case scan_queue (dl_by_message s) (dl_outcomes s) (ib_messages ib) of
             (next_message_id, blocked_by_open_claim) \<Rightarrow>
               (if blocked_by_open_claim then Some ''delivery-claim-open''
                else if next_message_id \<noteq> Some (df_message_id f) then Some ''delivery-claim-not-next''
                else None)))"

definition make_claim :: "pystr \<Rightarrow> delivery_fact \<Rightarrow> int \<Rightarrow> message_claim" where
  "make_claim expected_agent_id f seq =
     \<lparr>mc_agent_id = expected_agent_id, mc_message_id = df_message_id f,
      mc_accepted_seq = df_accepted_seq f, mc_claim_id = df_claim_id f,
      mc_activation_id = df_activation_id f, mc_session_id = df_session_id f, mc_claimed_seq = seq\<rparr>"

definition add_claim :: "message_claim \<Rightarrow> delivery_scan \<Rightarrow> delivery_scan" where
  "add_claim c s = s\<lparr>dl_claims := dl_claims s @ [c],
     dl_by_claim_id := dict_set (mc_claim_id c) c (dl_by_claim_id s),
     dl_by_message := dict_set (mc_message_id c) c (dl_by_message s)\<rparr>"

definition terminal_refusal :: "delivery_scan \<Rightarrow> delivery_fact \<Rightarrow> string option" where
  "terminal_refusal s f =
     (case map_of (dl_by_claim_id s) (df_claim_id f) of
        None \<Rightarrow> Some ''delivery-claim-unknown''
      | Some claim \<Rightarrow>
          (if mc_message_id claim \<noteq> df_message_id f then Some ''delivery-claim-message-mismatch''
           else if dict_has (df_claim_id f) (dl_outcomes s) then Some ''delivery-claim-already-terminal''
           else None))"

definition make_outcome :: "delivery_fact \<Rightarrow> int \<Rightarrow> message_outcome" where
  "make_outcome f seq =
     (let (state, code, turn_id) =
        (case f of
           Completed_Fact _ _ _ turn reason \<Rightarrow> (''completed'', reason, Some turn)
         | Failed_Fact _ _ _ error_code \<Rightarrow> (''failed'', error_code, None)
         | Cancelled_Fact _ _ _ reason \<Rightarrow> (''cancelled'', reason, None)
         | Claimed_Fact _ _ _ _ _ _ \<Rightarrow> (''claimed'', [], None))
      in \<lparr>mo_claim_id = df_claim_id f, mo_message_id = df_message_id f, mo_state = state,
          mo_code = code, mo_turn_id = turn_id, mo_terminal_seq = seq\<rparr>)"

definition add_outcome :: "message_outcome \<Rightarrow> delivery_scan \<Rightarrow> delivery_scan" where
  "add_outcome oc s = s\<lparr>dl_outcomes := dict_set (mo_claim_id oc) oc (dl_outcomes s)\<rparr>"

fun is_claimed_fact :: "delivery_fact \<Rightarrow> bool" where
  "is_claimed_fact (Claimed_Fact _ _ _ _ _ _) = True"
| "is_claimed_fact _ = False"

definition scan_delivery :: "pystr \<Rightarrow> agent_inbox \<Rightarrow> event_envelope \<Rightarrow> delivery_scan \<Rightarrow> delivery_scan" where
  "scan_delivery expected_agent_id ib event s0 =
     (let s = s0\<lparr>dl_head_seq := ev_seq event\<rparr>; seq = ev_seq event in
      case parse_delivery_event event of
        Inl (DeliveryProtocolError code seq) \<Rightarrow> delivery_issue code seq s
      | Inl _ \<Rightarrow> delivery_issue ''delivery-payload-invalid'' seq s
      | Inr f \<Rightarrow>
          (if df_agent_id f \<noteq> expected_agent_id then delivery_issue ''delivery-stream-unexpected'' seq s
           else if is_claimed_fact f then
             (case claim_refusal s ib f of
                Some code \<Rightarrow> delivery_issue code seq s
              | None \<Rightarrow> add_claim (make_claim expected_agent_id f seq) s)
           else
             (case terminal_refusal s f of
                Some code \<Rightarrow> delivery_issue code seq s
              | None \<Rightarrow> add_outcome (make_outcome f seq) s)))"

definition scan_deliveries :: "event_envelope list \<Rightarrow> pystr \<Rightarrow> agent_inbox \<Rightarrow> delivery_scan result" where
  "scan_deliveries events agent_id ib =
     rbind (agent_delivery_stream agent_id) (\<lambda>stream.
       Inr (fold (scan_delivery (remove_prefix AGENT_DELIVERY_STREAM_PREFIX stream) ib) events
              empty_delivery_scan))"

definition validate_agent_delivery_events ::
    "event_envelope list \<Rightarrow> pystr \<Rightarrow> agent_inbox \<Rightarrow> issue list result" where
  "validate_agent_delivery_events events agent_id ib =
     rbind (scan_deliveries events agent_id ib) (\<lambda>s. Inr (dl_issues s))"

section \<open>The rebuilt log\<close>

record agent_delivery_log =
  adl_agent_id :: pystr
  adl_claims :: "message_claim list"
  adl_outcomes :: "(pystr, message_outcome) dict"
  adl_head_seq :: int
  adl_by_claim_id :: "(pystr, message_claim) dict"
  adl_by_message :: "(pystr, message_claim) dict"

definition make_delivery_log ::
    "pystr \<Rightarrow> message_claim list \<Rightarrow> (pystr, message_outcome) dict \<Rightarrow> int \<Rightarrow> agent_delivery_log" where
  "make_delivery_log agent_id claims outcomes head =
     \<lparr>adl_agent_id = agent_id, adl_claims = claims, adl_outcomes = outcomes, adl_head_seq = head,
      adl_by_claim_id = fold (\<lambda>c. dict_set (mc_claim_id c) c) claims [],
      adl_by_message = fold (\<lambda>c. dict_set (mc_message_id c) c) claims []\<rparr>"

definition rebuild_delivery_log ::
    "event_envelope list \<Rightarrow> pystr \<Rightarrow> agent_inbox \<Rightarrow> agent_delivery_log result" where
  "rebuild_delivery_log events agent_id ib =
     rbind (agent_delivery_stream agent_id) (\<lambda>stream.
     rbind (raise_if (ib_agent_id ib \<noteq> remove_prefix AGENT_DELIVERY_STREAM_PREFIX stream)
              (DeliveryProtocolError ''delivery-inbox-agent-mismatch'' 0)) (\<lambda>_.
     rbind (scan_deliveries events agent_id ib) (\<lambda>s.
       case dl_issues s of
         (code, seq) # _ \<Rightarrow> Inl (DeliveryProtocolError code seq)
       | [] \<Rightarrow> Inr (make_delivery_log agent_id (dl_claims s) (dl_outcomes s) (dl_head_seq s)))))"

definition claim_for :: "agent_delivery_log \<Rightarrow> pystr \<Rightarrow> message_claim option" where
  "claim_for log message_id = map_of (adl_by_message log) message_id"

definition outcome_for_claim :: "agent_delivery_log \<Rightarrow> pystr \<Rightarrow> message_outcome option" where
  "outcome_for_claim log claim_id = map_of (adl_outcomes log) claim_id"

definition outcome_for_message :: "agent_delivery_log \<Rightarrow> pystr \<Rightarrow> message_outcome option" where
  "outcome_for_message log message_id =
     (case map_of (adl_by_message log) message_id of
        None \<Rightarrow> None
      | Some claim \<Rightarrow> map_of (adl_outcomes log) (mc_claim_id claim))"

definition is_claimed :: "agent_delivery_log \<Rightarrow> pystr \<Rightarrow> bool" where
  "is_claimed log message_id = dict_has message_id (adl_by_message log)"

fun first_unclaimed ::
    "(pystr, message_claim) dict \<Rightarrow> (pystr, message_outcome) dict \<Rightarrow> accepted_message list
       \<Rightarrow> accepted_message option" where
  "first_unclaimed by_message outcomes [] = None"
| "first_unclaimed by_message outcomes (accepted # rest) =
     (case map_of by_message (message_id_of accepted) of
        None \<Rightarrow> Some accepted
      | Some claim \<Rightarrow>
          (if \<not> dict_has (mc_claim_id claim) outcomes then None
           else first_unclaimed by_message outcomes rest))"

definition next_unclaimed :: "agent_delivery_log \<Rightarrow> agent_inbox \<Rightarrow> accepted_message option" where
  "next_unclaimed log ib = first_unclaimed (adl_by_message log) (adl_outcomes log) (ib_messages ib)"

definition has_open_claim :: "agent_delivery_log \<Rightarrow> bool" where
  "has_open_claim log = list_ex (\<lambda>c. \<not> dict_has (mc_claim_id c) (adl_outcomes log)) (adl_claims log)"

section \<open>The queue\<close>

lemma scan_queue_first_unclaimed:
  "scan_queue bm oc ms = (map_option message_id_of (first_unclaimed bm oc ms), snd (scan_queue bm oc ms))"
  by (induction ms) (auto split: option.split)

lemma first_unclaimed_closed:
  "(\<And>m. m \<in> set xs \<Longrightarrow> \<exists>c. map_of bm (message_id_of m) = Some c \<and> dict_has (mc_claim_id c) oc) \<Longrightarrow>
     first_unclaimed bm oc (xs @ ys) = first_unclaimed bm oc ys"
proof (induction xs)
  case (Cons x xs)
  then obtain c where "map_of bm (message_id_of x) = Some c" "dict_has (mc_claim_id c) oc" by auto
  with Cons show ?case by simp
qed simp

lemma first_unclaimed_fresh: "first_unclaimed bm oc ms = Some m \<Longrightarrow> \<not> dict_has (message_id_of m) bm"
  by (induction ms) (auto simp: dict_has_def split: option.splits if_splits)

lemma first_unclaimed_scan_queue:
  "first_unclaimed bm oc ms = Some m \<Longrightarrow> scan_queue bm oc ms = (Some (message_id_of m), False)"
  by (induction ms) (auto split: option.splits if_splits)

text \<open>
  The shape of the queue when the claims are those of its first messages, in order: an open
  claim blocks it, and otherwise the first message without a claim is the next.
\<close>

definition fifo_claims :: "accepted_message list \<Rightarrow> message_claim list \<Rightarrow> bool" where
  "fifo_claims ms cs \<longleftrightarrow> map mc_message_id cs = take (length cs) (map message_id_of ms)"

lemma fifo_claims_length: "fifo_claims ms cs \<Longrightarrow> length cs \<le> length ms"
  unfolding fifo_claims_def by (metis length_map length_take min.cobounded2 min_def nat_le_linear)

lemma fifo_claims_nth: "fifo_claims ms cs \<Longrightarrow> i < length cs \<Longrightarrow> mc_message_id (cs ! i) = message_id_of (ms ! i)"
proof -
  assume f: "fifo_claims ms cs" and i: "i < length cs"
  have "map mc_message_id cs ! i = take (length cs) (map message_id_of ms) ! i"
    using f by (simp add: fifo_claims_def)
  with i fifo_claims_length[OF f] show ?thesis by simp
qed

lemma fifo_claims_snoc:
  assumes "fifo_claims ms cs"
  shows "fifo_claims ms (cs @ [c]) \<longleftrightarrow> length cs < length ms \<and> mc_message_id c = message_id_of (ms ! length cs)"
proof (cases "length cs < length ms")
  case True
  then show ?thesis using assms by (simp add: fifo_claims_def take_Suc_conv_app_nth)
next
  case False
  then show ?thesis using fifo_claims_length[of ms "cs @ [c]"] by auto
qed

lemma first_unclaimed_fifo:
  assumes f: "fifo_claims ms cs" and bm: "indexes mc_message_id cs bm"
    and d: "distinct (map message_id_of ms)"
    and closed: "\<And>c. c \<in> set (butlast cs) \<Longrightarrow> dict_has (mc_claim_id c) oc"
  shows "first_unclaimed bm oc ms =
    (if list_ex (\<lambda>c. \<not> dict_has (mc_claim_id c) oc) cs \<or> length ms \<le> length cs then None
     else Some (ms ! length cs))"
proof -
  have at: "map_of bm (message_id_of (ms ! i)) = Some (cs ! i)" if "i < length cs" for i
    using bm fifo_claims_nth[OF f that] that by (simp add: indexes_def)
  have split: "first_unclaimed bm oc ms = first_unclaimed bm oc (drop k ms)"
    if k: "k \<le> length cs" "\<And>i. i < k \<Longrightarrow> dict_has (mc_claim_id (cs ! i)) oc" for k
  proof -
    have "\<exists>c. map_of bm (message_id_of m) = Some c \<and> dict_has (mc_claim_id c) oc" if m: "m \<in> set (take k ms)" for m
    proof -
      obtain i where i: "i < k" "m = ms ! i" using m by (auto simp: in_set_conv_nth)
      then show ?thesis using at[of i] k by auto
    qed
    from first_unclaimed_closed[OF this, of "take k ms" "drop k ms"] show ?thesis by simp
  qed
  have nth_closed: "dict_has (mc_claim_id (cs ! i)) oc" if "i < length cs - 1" for i
    using closed[of "cs ! i"] that by (metis in_set_conv_nth length_butlast nth_butlast)
  show ?thesis
  proof (cases "list_ex (\<lambda>c. \<not> dict_has (mc_claim_id c) oc) cs")
    case True
    then obtain j where j: "j < length cs" "\<not> dict_has (mc_claim_id (cs ! j)) oc"
      by (auto simp: list_ex_iff in_set_conv_nth)
    then have last: "j = length cs - 1" using nth_closed[of j] by linarith
    have "j < length ms" using j fifo_claims_length[OF f] by linarith
    then have "drop j ms = ms ! j # drop (Suc j) ms" by (rule Cons_nth_drop_Suc[symmetric])
    moreover have "first_unclaimed bm oc ms = first_unclaimed bm oc (drop j ms)"
      using split[of j] j last nth_closed by simp
    ultimately show ?thesis using True at[of j] j by simp
  next
    case False
    then have "\<And>i. i < length cs \<Longrightarrow> dict_has (mc_claim_id (cs ! i)) oc" by (auto simp: list_ex_iff)
    then have eq: "first_unclaimed bm oc ms = first_unclaimed bm oc (drop (length cs) ms)"
      using split[of "length cs"] by simp
    show ?thesis
    proof (cases "length cs < length ms")
      case True
      let ?n = "length cs"
      have "message_id_of (ms ! ?n) \<noteq> mc_message_id c" if c: "c \<in> set cs" for c
      proof -
        obtain i where "i < ?n" "c = cs ! i" using c by (auto simp: in_set_conv_nth)
        then show ?thesis using fifo_claims_nth[OF f, of i] d True nth_eq_iff_index_eq[OF d, of ?n i] by simp
      qed
      then have "map_of bm (message_id_of (ms ! ?n)) = None"
        using bm indexes_has[OF bm, of "message_id_of (ms ! ?n)"] by (auto simp: dict_has_def)
      with False True eq show ?thesis by (simp add: Cons_nth_drop_Suc[symmetric])
    qed (use False eq in simp)
  qed
qed

section \<open>What a scan keeps\<close>

definition inbox_ok :: "agent_inbox \<Rightarrow> bool" where
  "inbox_ok ib \<longleftrightarrow> indexes message_id_of (ib_messages ib) (ib_by_message ib)"

definition claim_ok :: "pystr \<Rightarrow> agent_inbox \<Rightarrow> message_claim \<Rightarrow> bool" where
  "claim_ok a ib c \<longleftrightarrow> mc_agent_id c = a \<and>
     (\<exists>m. inbox_get ib (mc_message_id c) = Some m \<and> acc_accepted_seq m = mc_accepted_seq c)"

definition outcomes_ok :: "message_claim list \<Rightarrow> (pystr, message_outcome) dict \<Rightarrow> bool" where
  "outcomes_ok cs ocs \<longleftrightarrow> (\<forall>k oc. map_of ocs k = Some oc \<longrightarrow>
     mo_claim_id oc = k \<and> (\<exists>c \<in> set cs. mc_claim_id c = k \<and> mc_message_id c = mo_message_id oc))"

lemma outcomes_ok_claimed: "outcomes_ok cs ocs \<Longrightarrow> dict_has k ocs \<Longrightarrow> k \<in> mc_claim_id ` set cs"
proof -
  assume ok: "outcomes_ok cs ocs" and "dict_has k ocs"
  then obtain oc where "map_of ocs k = Some oc" by (auto simp: dict_has_iff)
  then have "\<exists>c \<in> set cs. mc_claim_id c = k \<and> mc_message_id c = mo_message_id oc"
    using ok by (simp add: outcomes_ok_def)
  then show ?thesis by blast
qed

definition delivery_ok ::
    "pystr \<Rightarrow> agent_inbox \<Rightarrow> message_claim list \<Rightarrow> (pystr, message_outcome) dict \<Rightarrow> bool" where
  "delivery_ok a ib cs ocs \<longleftrightarrow> distinct (map mc_claim_id cs) \<and> distinct (map mc_message_id cs) \<and>
     (\<forall>c \<in> set cs. claim_ok a ib c) \<and> fifo_claims (ib_messages ib) cs \<and>
     (\<forall>c \<in> set (butlast cs). dict_has (mc_claim_id c) ocs) \<and> outcomes_ok cs ocs"

definition delivery_inv :: "pystr \<Rightarrow> agent_inbox \<Rightarrow> delivery_scan \<Rightarrow> bool" where
  "delivery_inv a ib s \<longleftrightarrow> (inbox_ok ib \<longrightarrow>
     indexes mc_claim_id (dl_claims s) (dl_by_claim_id s) \<and>
     indexes mc_message_id (dl_claims s) (dl_by_message s) \<and>
     delivery_ok a ib (dl_claims s) (dl_outcomes s))"

lemma delivery_issue_sel [simp]:
  "dl_claims (delivery_issue c n s) = dl_claims s" "dl_by_claim_id (delivery_issue c n s) = dl_by_claim_id s"
  "dl_by_message (delivery_issue c n s) = dl_by_message s" "dl_outcomes (delivery_issue c n s) = dl_outcomes s"
  "dl_issues (delivery_issue c n s) = dl_issues s @ [(c, n)]" "dl_head_seq (delivery_issue c n s) = dl_head_seq s"
  by (simp_all add: delivery_issue_def)

lemma add_claim_sel [simp]:
  "dl_claims (add_claim c s) = dl_claims s @ [c]"
  "dl_by_claim_id (add_claim c s) = dict_set (mc_claim_id c) c (dl_by_claim_id s)"
  "dl_by_message (add_claim c s) = dict_set (mc_message_id c) c (dl_by_message s)"
  "dl_outcomes (add_claim c s) = dl_outcomes s" "dl_issues (add_claim c s) = dl_issues s"
  "dl_head_seq (add_claim c s) = dl_head_seq s"
  by (simp_all add: add_claim_def)

lemma add_outcome_sel [simp]:
  "dl_claims (add_outcome oc s) = dl_claims s" "dl_by_claim_id (add_outcome oc s) = dl_by_claim_id s"
  "dl_by_message (add_outcome oc s) = dl_by_message s"
  "dl_outcomes (add_outcome oc s) = dict_set (mo_claim_id oc) oc (dl_outcomes s)"
  "dl_issues (add_outcome oc s) = dl_issues s" "dl_head_seq (add_outcome oc s) = dl_head_seq s"
  by (simp_all add: add_outcome_def)

lemma make_claim_sel [simp]:
  "mc_agent_id (make_claim a f n) = a" "mc_message_id (make_claim a f n) = df_message_id f"
  "mc_claim_id (make_claim a f n) = df_claim_id f" "mc_accepted_seq (make_claim a f n) = df_accepted_seq f"
  by (simp_all add: make_claim_def)

lemma make_outcome_sel [simp]:
  "mo_claim_id (make_outcome f n) = df_claim_id f" "mo_message_id (make_outcome f n) = df_message_id f"
  by (simp_all add: make_outcome_def split: delivery_fact.split)

lemma claim_refusal_None:
  "claim_refusal s ib f = None \<longleftrightarrow>
     (\<exists>m. inbox_get ib (df_message_id f) = Some m \<and> acc_accepted_seq m = df_accepted_seq f) \<and>
     \<not> dict_has (df_claim_id f) (dl_by_claim_id s) \<and> \<not> dict_has (df_message_id f) (dl_by_message s) \<and>
     scan_queue (dl_by_message s) (dl_outcomes s) (ib_messages ib) = (Some (df_message_id f), False)"
  by (auto simp: claim_refusal_def split: option.splits prod.splits)

lemma terminal_refusal_None:
  "terminal_refusal s f = None \<longleftrightarrow>
     (\<exists>c. map_of (dl_by_claim_id s) (df_claim_id f) = Some c \<and> mc_message_id c = df_message_id f) \<and>
     \<not> dict_has (df_claim_id f) (dl_outcomes s)"
  by (auto simp: terminal_refusal_def split: option.splits)

lemma refusals_head [simp]:
  "claim_refusal (s\<lparr>dl_head_seq := n\<rparr>) ib f = claim_refusal s ib f"
  "terminal_refusal (s\<lparr>dl_head_seq := n\<rparr>) f = terminal_refusal s f"
  by (simp_all add: claim_refusal_def terminal_refusal_def split: option.split)

lemma scan_delivery_cases:
  obtains
    (issue) code seq where "scan_delivery a ib e s = delivery_issue code seq (s\<lparr>dl_head_seq := ev_seq e\<rparr>)"
  | (claimed) f where "parse_delivery_event e = Inr f" "df_agent_id f = a" "is_claimed_fact f"
      "claim_refusal s ib f = None"
      "scan_delivery a ib e s = add_claim (make_claim a f (ev_seq e)) (s\<lparr>dl_head_seq := ev_seq e\<rparr>)"
  | (ended) f where "parse_delivery_event e = Inr f" "df_agent_id f = a" "\<not> is_claimed_fact f"
      "terminal_refusal s f = None"
      "scan_delivery a ib e s = add_outcome (make_outcome f (ev_seq e)) (s\<lparr>dl_head_seq := ev_seq e\<rparr>)"
proof (cases "parse_delivery_event e")
  case (Inl x)
  then obtain code seq where "x = DeliveryProtocolError code seq"
    using parse_delivery_event_error by blast
  with Inl show ?thesis by (intro issue[of code seq]) (simp add: scan_delivery_def Let_def)
next
  case (Inr f)
  consider "df_agent_id f \<noteq> a" | "df_agent_id f = a" "is_claimed_fact f" | "df_agent_id f = a" "\<not> is_claimed_fact f"
    by blast
  then show ?thesis
  proof cases
    case 1
    with Inr show ?thesis
      by (intro issue[of "''delivery-stream-unexpected''" "ev_seq e"]) (simp add: scan_delivery_def Let_def)
  next
    case 2
    with Inr show ?thesis
      by (cases "claim_refusal s ib f") (auto intro: claimed issue simp: scan_delivery_def Let_def)
  next
    case 3
    with Inr show ?thesis
      by (cases "terminal_refusal s f") (auto intro: ended issue simp: scan_delivery_def Let_def)
  qed
qed

lemma delivery_inv_claim:
  assumes inv: "delivery_inv a ib s" and f: "claim_refusal s ib f = None" "df_agent_id f = a"
  shows "delivery_inv a ib (add_claim (make_claim a f n) (s\<lparr>dl_head_seq := n\<rparr>))"
  unfolding delivery_inv_def
proof
  assume ib: "inbox_ok ib"
  let ?c = "make_claim a f n" and ?cs = "dl_claims s" and ?oc = "dl_outcomes s"
  have idx: "indexes mc_claim_id ?cs (dl_by_claim_id s)" "indexes mc_message_id ?cs (dl_by_message s)"
    and ok: "delivery_ok a ib ?cs ?oc" using inv ib by (auto simp: delivery_inv_def)
  have fresh: "\<not> dict_has (mc_claim_id ?c) (dl_by_claim_id s)" "\<not> dict_has (mc_message_id ?c) (dl_by_message s)"
    and q: "scan_queue (dl_by_message s) ?oc (ib_messages ib) = (Some (df_message_id f), False)"
    and acc: "\<exists>m. inbox_get ib (df_message_id f) = Some m \<and> acc_accepted_seq m = df_accepted_seq f"
    using f(1) by (auto simp: claim_refusal_None)
  have fifo: "fifo_claims (ib_messages ib) ?cs" using ok by (simp add: delivery_ok_def)
  obtain m where m: "first_unclaimed (dl_by_message s) ?oc (ib_messages ib) = Some m" "message_id_of m = df_message_id f"
    using q scan_queue_first_unclaimed[of "dl_by_message s" ?oc "ib_messages ib"]
    by (metis (no_types, opaque_lifting) fst_conv map_option_eq_Some)
  have "first_unclaimed (dl_by_message s) ?oc (ib_messages ib) =
      (if list_ex (\<lambda>c. \<not> dict_has (mc_claim_id c) ?oc) ?cs \<or> length (ib_messages ib) \<le> length ?cs then None
       else Some (ib_messages ib ! length ?cs))"
    using first_unclaimed_fifo[OF fifo idx(2), of ?oc] ok ib
    by (simp add: delivery_ok_def inbox_ok_def indexes_def)
  with m have closed: "\<forall>c \<in> set ?cs. dict_has (mc_claim_id c) ?oc"
    and at: "length ?cs < length (ib_messages ib)" "ib_messages ib ! length ?cs = m"
    by (auto simp: list_ex_iff split: if_splits)
  have "delivery_ok a ib (?cs @ [?c]) ?oc"
    unfolding delivery_ok_def
  proof (intro conjI)
    show "fifo_claims (ib_messages ib) (?cs @ [?c])" using at m by (simp add: fifo_claims_snoc[OF fifo])
    show "\<forall>c \<in> set (?cs @ [?c]). claim_ok a ib c"
      using ok acc by (auto simp: delivery_ok_def claim_ok_def)
    show "distinct (map mc_claim_id (?cs @ [?c]))" "distinct (map mc_message_id (?cs @ [?c]))"
      using ok fresh indexes_has[OF idx(1)] indexes_has[OF idx(2)] by (auto simp: delivery_ok_def)
    show "\<forall>c \<in> set (butlast (?cs @ [?c])). dict_has (mc_claim_id c) ?oc" using closed by simp
    show "outcomes_ok (?cs @ [?c]) ?oc" using ok by (fastforce simp: delivery_ok_def outcomes_ok_def)
  qed
  then show "indexes mc_claim_id (dl_claims (add_claim ?c (s\<lparr>dl_head_seq := n\<rparr>))) (dl_by_claim_id (add_claim ?c (s\<lparr>dl_head_seq := n\<rparr>))) \<and>
     indexes mc_message_id (dl_claims (add_claim ?c (s\<lparr>dl_head_seq := n\<rparr>))) (dl_by_message (add_claim ?c (s\<lparr>dl_head_seq := n\<rparr>))) \<and>
     delivery_ok a ib (dl_claims (add_claim ?c (s\<lparr>dl_head_seq := n\<rparr>))) (dl_outcomes (add_claim ?c (s\<lparr>dl_head_seq := n\<rparr>)))"
    using idx fresh by (simp add: indexes_snoc del: make_claim_sel)
qed

lemma delivery_inv_outcome:
  assumes inv: "delivery_inv a ib s" and f: "terminal_refusal s f = None"
  shows "delivery_inv a ib (add_outcome (make_outcome f n) (s\<lparr>dl_head_seq := n\<rparr>))"
  unfolding delivery_inv_def
proof
  assume ib: "inbox_ok ib"
  have idx: "indexes mc_claim_id (dl_claims s) (dl_by_claim_id s)"
    and idx2: "indexes mc_message_id (dl_claims s) (dl_by_message s)"
    and ok: "delivery_ok a ib (dl_claims s) (dl_outcomes s)" using inv ib by (auto simp: delivery_inv_def)
  obtain c where "map_of (dl_by_claim_id s) (df_claim_id f) = Some c" "mc_message_id c = df_message_id f"
    using f by (auto simp: terminal_refusal_None)
  then have "c \<in> set (dl_claims s)" "mc_claim_id c = df_claim_id f" "mc_message_id c = df_message_id f"
    using idx by (auto simp: indexes_def)
  then have "delivery_ok a ib (dl_claims s) (dict_set (df_claim_id f) (make_outcome f n) (dl_outcomes s))"
    using ok unfolding delivery_ok_def outcomes_ok_def by auto
  then show "indexes mc_claim_id (dl_claims (add_outcome (make_outcome f n) (s\<lparr>dl_head_seq := n\<rparr>)))
       (dl_by_claim_id (add_outcome (make_outcome f n) (s\<lparr>dl_head_seq := n\<rparr>))) \<and>
     indexes mc_message_id (dl_claims (add_outcome (make_outcome f n) (s\<lparr>dl_head_seq := n\<rparr>)))
       (dl_by_message (add_outcome (make_outcome f n) (s\<lparr>dl_head_seq := n\<rparr>))) \<and>
     delivery_ok a ib (dl_claims (add_outcome (make_outcome f n) (s\<lparr>dl_head_seq := n\<rparr>)))
       (dl_outcomes (add_outcome (make_outcome f n) (s\<lparr>dl_head_seq := n\<rparr>)))"
    using idx idx2 by simp
qed

lemma empty_delivery_ok: "delivery_ok a ib [] []"
  by (simp add: delivery_ok_def fifo_claims_def outcomes_ok_def)

interpretation delivery: issue_scan "scan_delivery a ib" empty_delivery_scan dl_issues "delivery_inv a ib" for a ib
proof
  show "delivery_inv a ib empty_delivery_scan"
    by (simp add: delivery_inv_def empty_delivery_scan_def empty_delivery_ok)
  show "dl_issues empty_delivery_scan = []" by (simp add: empty_delivery_scan_def)
  show "delivery_inv a ib s \<Longrightarrow> delivery_inv a ib (scan_delivery a ib e s)" for s e
    by (cases rule: scan_delivery_cases[of a ib e s])
      (simp_all add: delivery_inv_def[of a ib "delivery_issue _ _ _"] delivery_inv_claim delivery_inv_outcome,
       simp add: delivery_inv_def)
  show "\<exists>is. dl_issues (scan_delivery a ib e s) = dl_issues s @ is" for e s
    by (cases rule: scan_delivery_cases[of a ib e s]) auto
qed

lemma rebuild_delivery_log_Inr:
  "rebuild_delivery_log es a ib = Inr log \<longleftrightarrow> ident_ok a \<and> ib_agent_id ib = a \<and>
     dl_issues (fold (scan_delivery a ib) es empty_delivery_scan) = [] \<and>
     log = make_delivery_log a (dl_claims (fold (scan_delivery a ib) es empty_delivery_scan))
             (dl_outcomes (fold (scan_delivery a ib) es empty_delivery_scan))
             (dl_head_seq (fold (scan_delivery a ib) es empty_delivery_scan))"
proof (cases "ident_ok a")
  case True
  let ?s = "fold (scan_delivery a ib) es empty_delivery_scan"
  have st: "agent_delivery_stream a = Inr (AGENT_DELIVERY_STREAM_PREFIX @ a)"
    using True agent_delivery_stream_Inr by blast
  have sc: "scan_deliveries es a ib = Inr ?s" by (simp add: scan_deliveries_def st)
  have "rebuild_delivery_log es a ib =
      (if ib_agent_id ib \<noteq> a then Inl (DeliveryProtocolError ''delivery-inbox-agent-mismatch'' 0)
       else case dl_issues ?s of
         (code, seq) # _ \<Rightarrow> Inl (DeliveryProtocolError code seq)
       | [] \<Rightarrow> Inr (make_delivery_log a (dl_claims ?s) (dl_outcomes ?s) (dl_head_seq ?s)))"
    by (simp add: rebuild_delivery_log_def st sc)
  then show ?thesis using True by (cases "dl_issues ?s") force+
next
  case False
  then have "\<not> is_ok (agent_delivery_stream a)" by (auto simp: is_ok_iff agent_delivery_stream_Inr)
  then obtain e where "agent_delivery_stream a = Inl e" by (cases "agent_delivery_stream a") auto
  with False show ?thesis by (simp add: rebuild_delivery_log_def)
qed

lemma make_delivery_log_sel [simp]:
  "adl_claims (make_delivery_log a cs ocs h) = cs" "adl_outcomes (make_delivery_log a cs ocs h) = ocs"
  "adl_agent_id (make_delivery_log a cs ocs h) = a" "adl_head_seq (make_delivery_log a cs ocs h) = h"
  by (simp_all add: make_delivery_log_def)

lemma rebuild_inbox_ok: "rebuild_inbox es a = Inr ib \<Longrightarrow> inbox_ok ib"
  by (auto simp: rebuild_inbox_Inr inbox_ok_def inbox_spec_def make_inbox_def indexes_fold)

lemma rebuild_delivery_ok:
  assumes "rebuild_delivery_log es a ib = Inr log" and "inbox_ok ib"
  shows "delivery_ok a ib (adl_claims log) (adl_outcomes log) \<and>
    indexes mc_message_id (adl_claims log) (adl_by_message log) \<and>
    indexes mc_claim_id (adl_claims log) (adl_by_claim_id log)"
proof -
  let ?s = "fold (scan_delivery a ib) es empty_delivery_scan"
  have "delivery_inv a ib ?s" by (rule delivery.run_inv)
  then have ok: "delivery_ok a ib (dl_claims ?s) (dl_outcomes ?s)" using assms(2) by (simp add: delivery_inv_def)
  then have "distinct (map mc_claim_id (dl_claims ?s))" "distinct (map mc_message_id (dl_claims ?s))"
    by (simp_all add: delivery_ok_def)
  then show ?thesis
    using assms(1) ok by (auto simp: rebuild_delivery_log_Inr make_delivery_log_def indexes_fold)
qed

lemma inbox_ok_get: "inbox_ok ib \<Longrightarrow> inbox_get ib k = Some m \<longleftrightarrow> m \<in> set (ib_messages ib) \<and> message_id_of m = k"
  by (simp add: inbox_ok_def indexes_def inbox_get_def)

lemma claim_pins_message:
  assumes ok: "delivery_ok a ib cs ocs" and ib: "inbox_ok ib" and i: "i < length cs"
  shows "mc_agent_id (cs ! i) = a \<and> mc_message_id (cs ! i) = message_id_of (ib_messages ib ! i) \<and>
    mc_accepted_seq (cs ! i) = acc_accepted_seq (ib_messages ib ! i)"
proof -
  have f: "fifo_claims (ib_messages ib) cs" using ok by (simp add: delivery_ok_def)
  have id: "mc_message_id (cs ! i) = message_id_of (ib_messages ib ! i)" using fifo_claims_nth[OF f i] .
  have "claim_ok a ib (cs ! i)" using ok i by (simp add: delivery_ok_def)
  moreover have "inbox_get ib (message_id_of (ib_messages ib ! i)) = Some (ib_messages ib ! i)"
    using inbox_ok_get[OF ib] i fifo_claims_length[OF f] by simp
  ultimately show ?thesis using id by (simp add: claim_ok_def)
qed

lemma scan_delivery_grows:
  assumes "dl_issues (scan_delivery a ib e s) = []"
  shows "\<exists>cs. dl_claims (scan_delivery a ib e s) = dl_claims s @ cs \<and>
    (\<forall>k oc. map_of (dl_outcomes s) k = Some oc \<longrightarrow> map_of (dl_outcomes (scan_delivery a ib e s)) k = Some oc)"
  using assms
proof (cases rule: scan_delivery_cases[of a ib e s])
  case (ended f)
  then show ?thesis by (auto simp: terminal_refusal_None dict_has_def)
qed auto

lemma scan_deliveries_grow:
  assumes "dl_issues (fold (scan_delivery a ib) (xs @ ys) empty_delivery_scan) = []"
  shows "\<exists>cs. dl_claims (fold (scan_delivery a ib) (xs @ ys) empty_delivery_scan) =
      dl_claims (fold (scan_delivery a ib) xs empty_delivery_scan) @ cs \<and>
    (\<forall>k oc. map_of (dl_outcomes (fold (scan_delivery a ib) xs empty_delivery_scan)) k = Some oc \<longrightarrow>
       map_of (dl_outcomes (fold (scan_delivery a ib) (xs @ ys) empty_delivery_scan)) k = Some oc)"
  using assms
proof (induction ys rule: rev_induct)
  case (snoc y ys)
  let ?s = "fold (scan_delivery a ib) (xs @ ys) empty_delivery_scan"
  have "dl_issues ?s = []"
    using snoc.prems delivery.clean_prefix[where xs = "xs @ ys" and ys = "[y]"] by simp
  moreover have "dl_issues (scan_delivery a ib y ?s) = []" using snoc.prems by simp
  ultimately show ?case using snoc.IH scan_delivery_grows[of a ib y ?s] by fastforce
qed simp

lemma delivery_log_grows:
  assumes "rebuild_delivery_log (es @ fs) a ib = Inr log"
  shows "\<exists>log0 cs. rebuild_delivery_log es a ib = Inr log0 \<and> adl_claims log = adl_claims log0 @ cs \<and>
    (\<forall>k oc. outcome_for_claim log0 k = Some oc \<longrightarrow> outcome_for_claim log k = Some oc)"
proof -
  let ?s = "fold (scan_delivery a ib) es empty_delivery_scan"
  have clean: "dl_issues (fold (scan_delivery a ib) (es @ fs) empty_delivery_scan) = []"
    using assms unfolding rebuild_delivery_log_Inr by blast
  have "dl_issues ?s = []" using clean by (rule delivery.clean_prefix)
  then have "rebuild_delivery_log es a ib = Inr (make_delivery_log a (dl_claims ?s) (dl_outcomes ?s) (dl_head_seq ?s))"
    using assms unfolding rebuild_delivery_log_Inr by blast
  then show ?thesis
    using assms scan_deliveries_grow[OF clean] unfolding rebuild_delivery_log_Inr
    by (auto simp: outcome_for_claim_def)
qed

lemma claim_accepted:
  assumes "rebuild_inbox ies a = Inr ib" and "rebuild_delivery_log es a ib = Inr log"
    and "next_unclaimed log ib = Some m"
    and "claimed_data a (message_id_of m) (acc_accepted_seq m) claim activation session = Inr data"
    and "claim \<notin> mc_claim_id ` set (adl_claims log)"
    and "ev_type ev = lit AGENT_MESSAGE_CLAIMED" "ev_schema_version ev = 1" "ev_data ev = JDict data"
    and "agent_delivery_stream a = Inr (ev_stream_id ev)"
  shows "\<exists>log'. rebuild_delivery_log (es @ [ev]) a ib = Inr log' \<and> has_open_claim log' \<and>
    adl_claims log' = adl_claims log @
      [make_claim a (Claimed_Fact a (message_id_of m) claim (acc_accepted_seq m) activation session) (ev_seq ev)]"
proof -
  let ?f = "Claimed_Fact a (message_id_of m) claim (acc_accepted_seq m) activation session"
  let ?s = "fold (scan_delivery a ib) es empty_delivery_scan"
  let ?s' = "add_claim (make_claim a ?f (ev_seq ev)) (?s\<lparr>dl_head_seq := ev_seq ev\<rparr>)"
  have ib: "inbox_ok ib" using assms(1) by (rule rebuild_inbox_ok)
  have log: "log = make_delivery_log a (dl_claims ?s) (dl_outcomes ?s) (dl_head_seq ?s)"
    and clean: "dl_issues ?s = []" and a: "ident_ok a" "ib_agent_id ib = a"
    using assms(2) unfolding rebuild_delivery_log_Inr by blast+
  have ok: "delivery_ok a ib (dl_claims ?s) (dl_outcomes ?s)"
    using rebuild_delivery_ok[OF assms(2) ib] by (simp add: log)
  have idx: "indexes mc_message_id (dl_claims ?s) (dl_by_message ?s)"
    "indexes mc_claim_id (dl_claims ?s) (dl_by_claim_id ?s)"
    using delivery.run_inv[of a ib es] ib by (simp_all add: delivery_inv_def)
  have fifo: "fifo_claims (ib_messages ib) (dl_claims ?s)" using ok by (simp add: delivery_ok_def)
  have d: "distinct (map message_id_of (ib_messages ib))"
    using ib by (simp add: inbox_ok_def indexes_def)
  have "indexes mc_message_id (dl_claims ?s) (adl_by_message log)"
    using rebuild_delivery_ok[OF assms(2) ib] by (simp add: log)
  from first_unclaimed_fifo[OF fifo this d, of "dl_outcomes ?s"] have
    cond: "\<not> list_ex (\<lambda>c. \<not> dict_has (mc_claim_id c) (dl_outcomes ?s)) (dl_claims ?s)"
      "length (dl_claims ?s) < length (ib_messages ib)" "m = ib_messages ib ! length (dl_claims ?s)"
    using assms(3) ok by (auto simp: next_unclaimed_def log delivery_ok_def split: if_splits)
  from first_unclaimed_fifo[OF fifo idx(1) d, of "dl_outcomes ?s"] have
    fu: "first_unclaimed (dl_by_message ?s) (dl_outcomes ?s) (ib_messages ib) = Some m"
    using cond ok by (simp add: delivery_ok_def)
  have m: "m \<in> set (ib_messages ib)" using cond by simp
  have unused: "\<not> dict_has (message_id_of m) (dl_by_message ?s)"
    using fu by (rule first_unclaimed_fresh)
  have "scan_queue (dl_by_message ?s) (dl_outcomes ?s) (ib_messages ib) = (Some (message_id_of m), False)"
    using fu by (rule first_unclaimed_scan_queue)
  then have ref: "claim_refusal ?s ib ?f = None"
    using unused assms(5) m indexes_has[OF idx(2)]
    by (simp add: claim_refusal_None inbox_ok_get[OF ib] log) blast
  have "parse_delivery_event ev = Inr ?f" using assms by (intro fact_parses) simp_all
  then have step: "scan_delivery a ib ev ?s = ?s'" using ref by (simp add: scan_delivery_def Let_def)
  have "mc_claim_id ` set (dl_claims ?s) = mc_claim_id ` set (adl_claims log)" by (simp add: log)
  moreover have "outcomes_ok (dl_claims ?s) (dl_outcomes ?s)" using ok by (simp add: delivery_ok_def)
  ultimately have "\<not> dict_has claim (dl_outcomes ?s)"
    using assms(5) by (metis outcomes_ok_claimed)
  then show ?thesis
    using step clean a log by (simp add: rebuild_delivery_log_Inr has_open_claim_def list_ex_iff)
qed

section \<open>Properties\<close>

text \<open>
  C5: delivery is strictly first-in first-out, and one at a time. In every accepted log the
  claims are exactly those of the first messages of the Inbox, in acceptance order, each pinned
  to its message's position, and every claim but the last has already ended.
\<close>

theorem delivery_fifo:
  assumes "rebuild_inbox ies a = Inr ib" and "rebuild_delivery_log es a ib = Inr log"
  shows "length (adl_claims log) \<le> length (ib_messages ib) \<and>
    (\<forall>i < length (adl_claims log).
       mc_agent_id (adl_claims log ! i) = a \<and>
       mc_message_id (adl_claims log ! i) = message_id_of (ib_messages ib ! i) \<and>
       mc_accepted_seq (adl_claims log ! i) = acc_accepted_seq (ib_messages ib ! i)) \<and>
    (\<forall>c \<in> set (butlast (adl_claims log)). outcome_for_claim log (mc_claim_id c) \<noteq> None)"
proof -
  have ib: "inbox_ok ib" using assms(1) by (rule rebuild_inbox_ok)
  have ok: "delivery_ok a ib (adl_claims log) (adl_outcomes log)"
    using rebuild_delivery_ok[OF assms(2) ib] by simp
  then have "fifo_claims (ib_messages ib) (adl_claims log)" by (simp add: delivery_ok_def)
  with ok claim_pins_message[OF ok ib] fifo_claims_length show ?thesis
    by (simp add: delivery_ok_def outcome_for_claim_def dict_has_def)
qed

definition sample_delivery_events :: "event_envelope list" where
  "sample_delivery_events =
     [fact_event sample_claim 1,
      fact_event (Completed_Fact (lit ''a1'') (lit ''m1'') (lit ''c1'') (lit ''t1'') (lit ''done'')) 2,
      fact_event (Claimed_Fact (lit ''a1'') (lit ''m2'') (lit ''c2'') 2 (lit ''act-1'') (lit ''s1'')) 3]"

definition sample_log :: agent_delivery_log where
  "sample_log = projr (rebuild_delivery_log sample_delivery_events (lit ''a1'') sample_inbox)"

lemma sample_log_rebuilt:
  "rebuild_delivery_log sample_delivery_events (lit ''a1'') sample_inbox = Inr sample_log"
proof -
  have "is_ok (rebuild_delivery_log sample_delivery_events (lit ''a1'') sample_inbox)" by code_simp
  then show ?thesis unfolding sample_log_def is_ok_iff by auto
qed

theorem delivery_fifo_witness:
  "length (adl_claims sample_log) = 2 \<and>
   mc_message_id (adl_claims sample_log ! 1) = message_id_of (ib_messages sample_inbox ! 1)"
proof -
  have "length (adl_claims sample_log) = 2" by code_simp
  then show ?thesis using delivery_fifo[OF sample_inbox_rebuilt sample_log_rebuilt] by simp
qed

text \<open>
  C6: no message is claimed twice, no claim identity is reused, and each outcome belongs to
  exactly one claim, which is the claim of the message the outcome names.
\<close>

theorem delivery_one_claim:
  assumes "rebuild_inbox ies a = Inr ib" and "rebuild_delivery_log es a ib = Inr log"
  shows "distinct (map mc_message_id (adl_claims log)) \<and> distinct (map mc_claim_id (adl_claims log)) \<and>
    (\<forall>k oc. outcome_for_claim log k = Some oc \<longrightarrow> mo_claim_id oc = k \<and>
       (\<exists>!c. c \<in> set (adl_claims log) \<and> mc_claim_id c = k \<and> mc_message_id c = mo_message_id oc)) \<and>
    (\<forall>m c. claim_for log m = Some c \<longleftrightarrow> c \<in> set (adl_claims log) \<and> mc_message_id c = m)"
proof -
  have ib: "inbox_ok ib" using assms(1) by (rule rebuild_inbox_ok)
  have ok: "delivery_ok a ib (adl_claims log) (adl_outcomes log)"
    and idx: "indexes mc_message_id (adl_claims log) (adl_by_message log)"
    using rebuild_delivery_ok[OF assms(2) ib] by simp_all
  have d: "distinct (map mc_claim_id (adl_claims log))" using ok by (simp add: delivery_ok_def)
  have "\<exists>!c. c \<in> set (adl_claims log) \<and> mc_claim_id c = k \<and> mc_message_id c = mo_message_id oc"
    if "outcome_for_claim log k = Some oc" for k oc
  proof -
    have "\<exists>c \<in> set (adl_claims log). mc_claim_id c = k \<and> mc_message_id c = mo_message_id oc"
      using ok that by (simp add: delivery_ok_def outcomes_ok_def outcome_for_claim_def)
    moreover have "inj_on mc_claim_id (set (adl_claims log))" using d by (simp add: distinct_map)
    ultimately show ?thesis by (metis inj_onD)
  qed
  with ok idx show ?thesis
    by (simp add: delivery_ok_def outcomes_ok_def outcome_for_claim_def claim_for_def indexes_def)
qed

theorem delivery_one_claim_witness:
  "claim_for sample_log (lit ''m2'') \<noteq> None \<and> distinct (map mc_message_id (adl_claims sample_log))"
proof -
  have "claim_for sample_log (lit ''m2'') \<noteq> None" by code_simp
  then show ?thesis using delivery_one_claim[OF sample_inbox_rebuilt sample_log_rebuilt] by blast
qed

text \<open>
  which message is next. With an open claim, or with every message claimed, there is none;
  otherwise it is the message right after the claimed ones. No message is ever skipped.
\<close>

theorem next_unclaimed_spec:
  assumes "rebuild_inbox ies a = Inr ib" and "rebuild_delivery_log es a ib = Inr log"
  shows "next_unclaimed log ib =
    (if has_open_claim log \<or> length (ib_messages ib) \<le> length (adl_claims log) then None
     else Some (ib_messages ib ! length (adl_claims log)))"
proof -
  have ib: "inbox_ok ib" using assms(1) by (rule rebuild_inbox_ok)
  have ok: "delivery_ok a ib (adl_claims log) (adl_outcomes log)"
    and idx: "indexes mc_message_id (adl_claims log) (adl_by_message log)"
    using rebuild_delivery_ok[OF assms(2) ib] by simp_all
  have "fifo_claims (ib_messages ib) (adl_claims log)" using ok by (simp add: delivery_ok_def)
  from first_unclaimed_fifo[OF this idx, of "adl_outcomes log"] show ?thesis
    using ok ib by (simp add: next_unclaimed_def has_open_claim_def delivery_ok_def inbox_ok_def indexes_def)
qed

theorem next_unclaimed_spec_witness:
  "next_unclaimed sample_log sample_inbox = None \<and> has_open_claim sample_log"
proof -
  have "has_open_claim sample_log" by code_simp
  then show ?thesis using next_unclaimed_spec[OF sample_inbox_rebuilt sample_log_rebuilt] by simp
qed

text \<open>
  outcomes are final. When a longer delivery stream is accepted, its prefix is accepted,
  the claims of the prefix come first and every outcome recorded there is still the outcome.
\<close>

theorem delivery_outcomes_final:
  assumes "rebuild_delivery_log (es @ fs) a ib = Inr log"
  shows "\<exists>log0 cs. rebuild_delivery_log es a ib = Inr log0 \<and> adl_claims log = adl_claims log0 @ cs \<and>
    (\<forall>k oc. outcome_for_claim log0 k = Some oc \<longrightarrow> outcome_for_claim log k = Some oc)"
  using assms by (rule delivery_log_grows)

theorem delivery_outcomes_final_witness:
  "\<exists>log0 cs. rebuild_delivery_log (take 2 sample_delivery_events) (lit ''a1'') sample_inbox = Inr log0 \<and>
     adl_claims sample_log = adl_claims log0 @ cs"
proof -
  have "rebuild_delivery_log (take 2 sample_delivery_events @ drop 2 sample_delivery_events) (lit ''a1'') sample_inbox
      = Inr sample_log" using sample_log_rebuilt by (simp only: append_take_drop_id)
  from delivery_outcomes_final[OF this] show ?thesis by blast
qed

text \<open>
  C7: the claim transaction and the projector agree. Whatever message \<open>next_unclaimed\<close> offers,
  the claim payload built for it under an unused claim identity is accepted when it is appended:
  the log rebuilt from the longer stream has this one claim more, and it is open.
\<close>

theorem claim_of_next_accepted:
  assumes "rebuild_inbox ies a = Inr ib" and "rebuild_delivery_log es a ib = Inr log"
    and "next_unclaimed log ib = Some m"
    and "claimed_data a (message_id_of m) (acc_accepted_seq m) claim activation session = Inr data"
    and "claim \<notin> mc_claim_id ` set (adl_claims log)"
    and "ev_type ev = lit AGENT_MESSAGE_CLAIMED" "ev_schema_version ev = 1" "ev_data ev = JDict data"
    and "agent_delivery_stream a = Inr (ev_stream_id ev)"
  shows "\<exists>log'. rebuild_delivery_log (es @ [ev]) a ib = Inr log' \<and> has_open_claim log' \<and>
    adl_claims log' = adl_claims log @
      [make_claim a (Claimed_Fact a (message_id_of m) claim (acc_accepted_seq m) activation session) (ev_seq ev)]"
  using assms by (rule claim_accepted)

theorem claim_of_next_accepted_witness:
  "\<exists>log'. rebuild_delivery_log [fact_event sample_claim 1] (lit ''a1'') sample_inbox = Inr log' \<and> has_open_claim log'"
proof -
  define log where "log = projr (rebuild_delivery_log [] (lit ''a1'') sample_inbox)"
  have "is_ok (rebuild_delivery_log [] (lit ''a1'') sample_inbox)" by code_simp
  then have log: "rebuild_delivery_log [] (lit ''a1'') sample_inbox = Inr log"
    unfolding log_def is_ok_iff by auto
  have none: "adl_claims log = []" using log by (auto simp: rebuild_delivery_log_Inr empty_delivery_scan_def)
  define m where "m = hd (ib_messages sample_inbox)"
  have next_m: "next_unclaimed log sample_inbox = Some m" unfolding log_def m_def by code_simp
  have ids: "message_id_of m = lit ''m1''" "acc_accepted_seq m = 1" unfolding m_def by code_simp+
  have "is_ok (fact_data sample_claim)" by code_simp
  then obtain d where d: "fact_data sample_claim = Inr d" by (auto simp: is_ok_iff)
  then have c: "claimed_data (lit ''a1'') (message_id_of m) (acc_accepted_seq m) (lit ''c1'') (lit ''act-1'') (lit ''s1'') = Inr d"
    by (simp add: sample_claim_def ids)
  have s: "agent_delivery_stream (lit ''a1'') = Inr (ev_stream_id (fact_event sample_claim 1))" by code_simp
  show ?thesis
    using claim_of_next_accepted[OF sample_inbox_rebuilt log next_m c _ _ _ _ s] d
    by (simp add: none fact_event_def sample_claim_def) blast
qed

end
