(* ===== verification/Canonical_Json.thy ===== *)
theory Canonical_Json imports Json_Values begin

text \<open>
  The canonical text of api/json_types.py decides identity: retries, reconciliation and request
  fingerprints compare values by this text. The text is unambiguous: two values have the same
  text exactly when they are the same value up to the order in which dictionaries list their
  keys. In particular booleans, integers, floats and strings never collide.
\<close>

section \<open>Well-formed values and equality up to key order\<close>

definition float_text :: "pystr \<Rightarrow> bool" where
  \<comment> \<open>what \<open>json.dumps\<close> prints for a float\<close>
  "float_text t \<longleftrightarrow> t \<in> {lit ''NaN'', lit ''Infinity'', lit ''-Infinity''} \<or>
     (list_all (\<lambda>c. (48 \<le> c \<and> c \<le> 57) \<or> c \<in> {43, 45, 46, 101}) t \<and> list_ex (\<lambda>c. c \<in> {46, 101}) t)"

fun json_ok :: "json \<Rightarrow> bool" where
  "json_ok (JFloat t) = float_text t"
| "json_ok (JList vs) = list_all json_ok vs"
| "json_ok (JDict kvs) = (distinct (map fst kvs) \<and> list_all (\<lambda>kv. json_ok (snd kv)) kvs)"
| "json_ok _ = True"

primrec sort_keys :: "json \<Rightarrow> json" where
  "sort_keys JNull = JNull"
| "sort_keys (JBool b) = JBool b"
| "sort_keys (JInt i) = JInt i"
| "sort_keys (JFloat t) = JFloat t"
| "sort_keys (JStr s) = JStr s"
| "sort_keys (JList vs) = JList (map sort_keys vs)"
| "sort_keys (JDict kvs) = JDict (sort_key fst (map (map_prod id sort_keys) kvs))"

lemma insort_fst_map_prod: "insort_key fst (map_prod id g x) (map (map_prod id g) xs) = map (map_prod id g) (insort_key fst x xs)"
  by (induction xs) (auto simp: map_prod_def split: prod.splits)

lemma sort_key_map_prod: "sort_key fst (map (map_prod id g) kvs) = map (map_prod id g) (sort_key fst kvs)"
  by (induction kvs) (simp_all only: list.map sort_key_simps insort_fst_map_prod)

section \<open>Digits\<close>

lemma dec_digits_chars: "c \<in> set (dec_digits n) \<Longrightarrow> 48 \<le> c \<and> c \<le> 57"
  by (induction n rule: dec_digits.induct) (subst (asm) (2) dec_digits.simps, auto split: if_splits)

lemma dec_digits_nonempty [simp]: "dec_digits n \<noteq> []"
  by (subst dec_digits.simps) simp

lemma dec_digits_inj: "dec_digits n = dec_digits m \<Longrightarrow> n = m"
proof (induction n arbitrary: m rule: dec_digits.induct)
  case (1 n)
  have split: "dec_digits k = (if k < 10 then [] else dec_digits (k div 10)) @ [48 + int (k mod 10)]" for k
    by (subst dec_digits.simps) simp
  have eq: "(if n < 10 then [] else dec_digits (n div 10)) = (if m < 10 then [] else dec_digits (m div 10))" "n mod 10 = m mod 10"
    using 1(2) split[of n] split[of m] by simp_all
  show ?case
  proof (cases "n < 10")
    case True
    then have "m < 10" using eq(1) by (metis dec_digits_nonempty)
    then show ?thesis using True eq(2) by simp
  next
    case False
    then have "\<not> m < 10" using eq(1) by (metis dec_digits_nonempty)
    then have "n div 10 = m div 10" using 1(1)[OF False, of "m div 10"] eq(1) False by simp
    then show ?thesis using eq(2) by (metis div_mult_mod_eq)
  qed
qed

lemma py_int_repr_inj: "py_int_repr i = py_int_repr j \<Longrightarrow> i = j"
proof -
  assume h: "py_int_repr i = py_int_repr j"
  have no_minus: "45 # xs \<noteq> dec_digits n" for xs n
  proof
    assume "45 # xs = dec_digits n"
    then have "45 \<in> set (dec_digits n)" by (metis list.set_intros(1))
    then show False using dec_digits_chars by fastforce
  qed
  show "i = j"
    using h no_minus no_minus[symmetric] dec_digits_inj[of "nat (- i)" "nat (- j)"] dec_digits_inj[of "nat i" "nat j"]
    by (auto simp: py_int_repr_def split: if_splits)
qed

lemma py_int_repr_chars: "c \<in> set (py_int_repr i) \<Longrightarrow> c = 45 \<or> (48 \<le> c \<and> c \<le> 57)"
  by (auto simp: py_int_repr_def dest: dec_digits_chars split: if_splits)

section \<open>Strings are self-delimiting\<close>

lemma hex_digit_inj: "hex_digit m = hex_digit n \<Longrightarrow> m = n"
  by (auto simp: hex_digit_def split: if_splits)

lemma hex_pair_inj: "hex_digit (c div 16) = hex_digit (d div 16) \<Longrightarrow> hex_digit (c mod 16) = hex_digit (d mod 16) \<Longrightarrow> c = d"
  using hex_digit_inj[of "c div 16" "d div 16"] hex_digit_inj[of "c mod 16" "d mod 16"] by (metis div_mult_mod_eq)

lemma json_escape_cases:
  obtains (short) k where "json_escape c = [92, k]" "k \<noteq> 117"
      "c = the (map_of [(34, 34), (92, 92), (110, 10), (114, 13), (116, 9), (102, 12), (98, 8)] k)"
  | (hex) "json_escape c = [92, 117, 48, 48, hex_digit (c div 16), hex_digit (c mod 16)]"
  | (plain) "json_escape c = [c]" "c \<noteq> 92"
proof (cases "c \<in> {34, 92, 10, 13, 9, 12, 8}")
  case True
  then show ?thesis by (intro short[of "json_escape c ! 1"]) (auto simp: json_escape_def)
next
  case False
  then show ?thesis using hex plain by (cases "c < 32") (simp_all add: json_escape_def)
qed

lemma json_escape_prefix_free: "json_escape c @ u = json_escape d @ v \<Longrightarrow> c = d \<and> u = v"
  by (cases rule: json_escape_cases[of c]; cases rule: json_escape_cases[of d]) (auto dest: hex_pair_inj)

lemma json_escape_quote: "json_escape c @ u \<noteq> 34 # v"
  by (simp add: json_escape_def)

lemma json_escapes_inj:
  "concat (map json_escape a) @ 34 # r = concat (map json_escape b) @ 34 # s \<Longrightarrow> a = b \<and> r = s"
proof (induction a arbitrary: b)
  case Nil
  then show ?case using json_escape_quote by (cases b) (auto dest: sym)
next
  case (Cons c a)
  then show ?case
  proof (cases b)
    case Nil
    then show ?thesis using Cons.prems json_escape_quote by simp
  next
    case (Cons d b')
    then show ?thesis using Cons.prems Cons.IH[of b'] json_escape_prefix_free[of c _ d] by force
  qed
qed

lemma json_str_inj: "json_str a @ r = json_str b @ s \<Longrightarrow> a = b \<and> r = s"
  using json_escapes_inj[of a r b s] by (simp add: json_str_def)

section \<open>Texts that end at a delimiter\<close>

definition delimiter :: "int \<Rightarrow> bool" where
  "delimiter c \<longleftrightarrow> c \<in> {44, 93, 125}"

definition closed_rest :: "pystr \<Rightarrow> bool" where
  "closed_rest r \<longleftrightarrow> r = [] \<or> delimiter (hd r)"

definition plain_text :: "pystr \<Rightarrow> bool" where
  "plain_text t \<longleftrightarrow> t \<noteq> [] \<and> hd t \<notin> {34, 91, 123} \<and> list_all (\<lambda>c. \<not> delimiter c) t"

lemma closed_rest_simps [simp]: "closed_rest []" "closed_rest (c # r) = delimiter c" "delimiter 44" "delimiter 93" "delimiter 125"
  by (simp_all add: closed_rest_def delimiter_def)

lemma plain_text_take:
  assumes "list_all (\<lambda>c. \<not> delimiter c) t" "closed_rest r"
  shows "takeWhile (\<lambda>c. \<not> delimiter c) (t @ r) = t"
proof -
  have "takeWhile (\<lambda>c. \<not> delimiter c) r = []" using assms(2) by (cases r) auto
  then show ?thesis using assms(1) by (simp add: takeWhile_append list_all_iff)
qed

lemma plain_text_append:
  assumes "plain_text t" "plain_text u" "closed_rest r" "closed_rest s" "t @ r = u @ s"
  shows "t = u \<and> r = s"
proof -
  have "t = u" using plain_text_take[of t r] plain_text_take[of u s] assms by (simp add: plain_text_def)
  then show ?thesis using assms(5) by simp
qed

text \<open>An item whose text is recovered in front of any closed rest is recovered from a joined list.\<close>

lemma join_comma_Cons:
  "join_comma (x # xs) @ tail = x @ (if xs = [] then tail else 44 # join_comma xs @ tail)"
  by (cases xs) simp_all

lemma join_comma_inj:
  assumes "\<And>x y r s. x \<in> set xs \<Longrightarrow> y \<in> set ys \<Longrightarrow> closed_rest r \<Longrightarrow> closed_rest s \<Longrightarrow> T x @ r = T y @ s \<Longrightarrow> N x = N y \<and> r = s"
    and "\<And>x. x \<in> set xs \<union> set ys \<Longrightarrow> T x \<noteq> [] \<and> \<not> delimiter (hd (T x))"
    and "delimiter e" "e \<noteq> 44"
    and "join_comma (map T xs) @ e # r = join_comma (map T ys) @ e # s"
  shows "map N xs = map N ys \<and> r = s"
  using assms
proof (induction xs arbitrary: ys)
  case Nil
  show ?case
  proof (cases ys)
    case (Cons y ys')
    then have "hd (T y) = e" using Nil.prems(2)[of y] Nil.prems(5)
      by (simp add: join_comma_Cons) (metis hd_append2 list.sel(1))
    then show ?thesis using Nil.prems(2)[of y] Nil.prems(3) Cons by simp
  qed (use Nil.prems(5) in simp)
next
  case (Cons x xs)
  show ?case
  proof (cases ys)
    case Nil
    then have "hd (T x) = e" using Cons.prems(2)[of x] Cons.prems(5)
      by (simp add: join_comma_Cons) (metis hd_append2 list.sel(1))
    then show ?thesis using Cons.prems(2)[of x] Cons.prems(3) by simp
  next
    case (Cons y ys')
    let ?R = "if xs = [] then e # r else 44 # join_comma (map T xs) @ e # r"
    let ?S = "if ys' = [] then e # s else 44 # join_comma (map T ys') @ e # s"
    have "T x @ ?R = T y @ ?S" using Cons.prems(5) by (simp add: Cons join_comma_Cons)
    then have "N x = N y \<and> ?R = ?S" using Cons.prems(1)[of x y ?R ?S] Cons.prems(3) by (simp add: Cons)
    moreover have "map N xs = map N ys' \<and> r = s"
    proof (cases "xs = []")
      case True
      then show ?thesis using calculation Cons.prems(4) by (cases "ys' = []") auto
    next
      case False
      then have "ys' \<noteq> []" using calculation Cons.prems(4) by (cases "ys' = []") auto
      then have "join_comma (map T xs) @ e # r = join_comma (map T ys') @ e # s" using calculation False by simp
      then show ?thesis using Cons.prems(1-4) by (intro Cons.IH) (auto simp: Cons)
    qed
    ultimately show ?thesis by (simp add: Cons)
  qed
qed

section \<open>Atoms\<close>

fun is_atom :: "json \<Rightarrow> bool" where
  "is_atom (JStr _) = False" | "is_atom (JList _) = False" | "is_atom (JDict _) = False" | "is_atom _ = True"

lemma py_int_repr_plain: "plain_text (py_int_repr i)"
proof -
  have ne: "py_int_repr i \<noteq> []" by (simp add: py_int_repr_def)
  have chars: "\<forall>c \<in> set (py_int_repr i). \<not> delimiter c \<and> c \<notin> {34, 91, 123}"
  proof
    fix c assume "c \<in> set (py_int_repr i)"
    from py_int_repr_chars[OF this] show "\<not> delimiter c \<and> c \<notin> {34, 91, 123}" by (auto simp: delimiter_def)
  qed
  then show ?thesis using ne hd_in_set[OF ne] by (auto simp: plain_text_def list_all_iff)
qed

lemma float_text_chars:
  assumes "float_text t"
  shows "\<forall>c \<in> set t. \<not> delimiter c \<and> c \<notin> {34, 91, 123}" "\<exists>c \<in> set t. c \<in> {46, 101, 78, 73}"
proof -
  have words: "list_all (\<lambda>w. list_all (\<lambda>c. \<not> (c = 44 \<or> c = 93 \<or> c = 125 \<or> c = 34 \<or> c = 91 \<or> c = 123)) w \<and>
      list_ex (\<lambda>c. c = 78 \<or> c = 73) w) [lit ''NaN'', lit ''Infinity'', lit ''-Infinity'']"
    by code_simp
  show "\<forall>c \<in> set t. \<not> delimiter c \<and> c \<notin> {34, 91, 123}"
  proof (cases "t \<in> {lit ''NaN'', lit ''Infinity'', lit ''-Infinity''}")
    case True
    then show ?thesis using words by (auto simp: list_all_iff delimiter_def)
  next
    case False
    then have "list_all (\<lambda>c. (48 \<le> c \<and> c \<le> 57) \<or> c \<in> {43, 45, 46, 101}) t" using assms by (simp add: float_text_def)
    then show ?thesis unfolding list_all_iff delimiter_def by fastforce
  qed
  show "\<exists>c \<in> set t. c \<in> {46, 101, 78, 73}"
    using assms words by (auto simp: float_text_def list_ex_iff)
qed

lemma float_text_plain: "float_text t \<Longrightarrow> plain_text t"
  using float_text_chars[of t] by (cases t) (auto simp: plain_text_def list_all_iff)

lemma word_plain: "plain_text (lit ''null'')" "plain_text (lit ''true'')" "plain_text (lit ''false'')"
  by (simp_all add: plain_text_def lit_def delimiter_def)

lemma atom_plain: "is_atom v \<Longrightarrow> json_ok v \<Longrightarrow> plain_text (canonical_json v)"
  by (cases v) (simp_all add: py_int_repr_plain float_text_plain word_plain)

lemma float_not_int: "float_text t \<Longrightarrow> t \<noteq> py_int_repr i"
proof
  assume "float_text t" "t = py_int_repr i"
  then obtain c where c: "c \<in> set (py_int_repr i)" "c \<in> {46, 101, 78, 73}" using float_text_chars(2)[of t] by blast
  from py_int_repr_chars[OF c(1)] show False using c(2) by auto
qed

lemma float_not_word: "float_text t \<Longrightarrow> t \<noteq> lit ''null''" "float_text t \<Longrightarrow> t \<noteq> lit ''true''" "float_text t \<Longrightarrow> t \<noteq> lit ''false''"
  by (auto simp: float_text_def, auto simp: lit_def)

lemma int_not_word: "py_int_repr i \<noteq> lit ''null''" "py_int_repr i \<noteq> lit ''true''" "py_int_repr i \<noteq> lit ''false''"
proof -
  have "hd (py_int_repr i) \<in> set (py_int_repr i)" using py_int_repr_plain[of i] by (intro hd_in_set) (simp add: plain_text_def)
  then have "hd (py_int_repr i) = 45 \<or> (48 \<le> hd (py_int_repr i) \<and> hd (py_int_repr i) \<le> 57)" by (rule py_int_repr_chars)
  then show "py_int_repr i \<noteq> lit ''null''" "py_int_repr i \<noteq> lit ''true''" "py_int_repr i \<noteq> lit ''false''" by (auto simp: lit_def)
qed

lemmas atom_texts_differ = float_not_int float_not_word int_not_word

lemma atom_text_inj:
  assumes "is_atom v" "is_atom w" "json_ok v" "json_ok w" "canonical_json v = canonical_json w"
  shows "v = w"
proof (cases v)
  case (JInt i)
  then show ?thesis using assms py_int_repr_inj[of i] atom_texts_differ[symmetric]
    by (cases w) (simp_all add: atom_texts_differ split: if_splits)
next
  case (JFloat t)
  then show ?thesis using assms by (cases w) (auto simp: float_not_int dest: float_not_word split: if_splits)
qed (use assms atom_texts_differ[symmetric] in \<open>cases w; simp split: if_splits\<close>)+

section \<open>The text determines the value\<close>

definition determined :: "json \<Rightarrow> bool" where
  "determined v \<longleftrightarrow> (\<forall>w r s. json_ok v \<longrightarrow> json_ok w \<longrightarrow> closed_rest r \<longrightarrow> closed_rest s \<longrightarrow>
     canonical_json v @ r = canonical_json w @ s \<longrightarrow> sort_keys v = sort_keys w \<and> r = s)"

lemma determinedD:
  "determined v \<Longrightarrow> json_ok v \<Longrightarrow> json_ok w \<Longrightarrow> closed_rest r \<Longrightarrow> closed_rest s \<Longrightarrow>
     canonical_json v @ r = canonical_json w @ s \<Longrightarrow> sort_keys v = sort_keys w \<and> r = s"
  unfolding determined_def by blast

lemma canonical_head:
  "\<not> is_atom v \<Longrightarrow> hd (canonical_json v) = (case v of JStr _ \<Rightarrow> 34 | JList _ \<Rightarrow> 91 | _ \<Rightarrow> 123)"
  "is_atom v \<Longrightarrow> json_ok v \<Longrightarrow> hd (canonical_json v) \<notin> {34, 91, 123}"
  using atom_plain[of v] by (cases v; simp add: json_str_def plain_text_def)+

lemma canonical_nonempty: "json_ok v \<Longrightarrow> canonical_json v \<noteq> []"
  using atom_plain[of v] by (cases v; simp add: json_str_def plain_text_def)

lemma canonical_item_head: "json_ok v \<Longrightarrow> canonical_json v \<noteq> [] \<and> \<not> delimiter (hd (canonical_json v))"
proof (cases "is_atom v")
  case True
  assume "json_ok v"
  then have "plain_text (canonical_json v)" using True by (rule atom_plain[rotated])
  then show ?thesis by (cases "canonical_json v") (auto simp: plain_text_def)
next
  case False
  assume "json_ok v"
  then show ?thesis using canonical_nonempty[of v] canonical_head(1)[OF False] by (cases v) (auto simp: delimiter_def)
qed

lemma same_head:
  assumes "json_ok v" "json_ok w" "canonical_json v @ r = canonical_json w @ s"
  shows "hd (canonical_json v) = hd (canonical_json w)"
  using assms canonical_nonempty by (metis hd_append2)

lemma atom_determined: "is_atom v \<Longrightarrow> determined v"
  unfolding determined_def
proof (intro allI impI)
  fix w r s
  assume v: "is_atom v" "json_ok v" "json_ok w" "closed_rest r" "closed_rest s" "canonical_json v @ r = canonical_json w @ s"
  have "is_atom w"
    using same_head[OF v(2,3,6)] canonical_head(2)[OF v(1,2)] canonical_head(1)[of w] by (cases w) auto
  then have "canonical_json v = canonical_json w \<and> r = s"
    using plain_text_append atom_plain v by blast
  then show "sort_keys v = sort_keys w \<and> r = s" using atom_text_inj[OF v(1) \<open>is_atom w\<close> v(2,3)] by simp
qed

lemma string_determined: "determined (JStr t)"
  unfolding determined_def
proof (intro allI impI)
  fix w r s
  assume v: "json_ok (JStr t)" "json_ok w" "closed_rest r" "closed_rest s" "canonical_json (JStr t) @ r = canonical_json w @ s"
  obtain u where w: "w = JStr u"
    using same_head[OF v(1,2,5)] canonical_head[of w] v(2) by (cases w) (auto simp: json_str_def)
  show "sort_keys (JStr t) = sort_keys w \<and> r = s" using v(5) json_str_inj[of t r u s] by (simp add: w)
qed

lemma list_determined:
  assumes "\<And>x. x \<in> set vs \<Longrightarrow> determined x"
  shows "determined (JList vs)"
  unfolding determined_def
proof (intro allI impI)
  fix w r s
  assume v: "json_ok (JList vs)" "json_ok w" "closed_rest r" "closed_rest s" "canonical_json (JList vs) @ r = canonical_json w @ s"
  obtain ws where w: "w = JList ws"
    using same_head[OF v(1,2,5)] canonical_head[of w] v(2) by (cases w) auto
  have "map sort_keys vs = map sort_keys ws \<and> r = s"
  proof (rule join_comma_inj[where e = 93 and T = canonical_json and N = sort_keys])
    fix x y r s
    assume "x \<in> set vs" "y \<in> set ws" "closed_rest r" "closed_rest s" "canonical_json x @ r = canonical_json y @ s"
    moreover have "json_ok x" "json_ok y" using calculation(1,2) v(1,2) by (simp_all add: w list_all_iff)
    ultimately show "sort_keys x = sort_keys y \<and> r = s" using determinedD[OF assms] by blast
  next
    fix x assume "x \<in> set vs \<union> set ws"
    then have "json_ok x" using v(1,2) by (auto simp: w list_all_iff)
    then show "canonical_json x \<noteq> [] \<and> \<not> delimiter (hd (canonical_json x))" by (rule canonical_item_head)
  qed (use v(5) in \<open>simp_all add: w\<close>)
  then show "sort_keys (JList vs) = sort_keys w \<and> r = s" by (simp add: w)
qed

lemma dict_determined:
  assumes "\<And>kv. kv \<in> set kvs \<Longrightarrow> determined (snd kv)"
  shows "determined (JDict kvs)"
  unfolding determined_def
proof (intro allI impI)
  fix w r s
  assume v: "json_ok (JDict kvs)" "json_ok w" "closed_rest r" "closed_rest s" "canonical_json (JDict kvs) @ r = canonical_json w @ s"
  obtain ws where w: "w = JDict ws"
    using same_head[OF v(1,2,5)] canonical_head[of w] v(2) by (cases w) auto
  let ?T = "member_text \<circ> map_prod id canonical_json" and ?N = "map_prod id sort_keys"
  have "map ?N (sort_key fst kvs) = map ?N (sort_key fst ws) \<and> r = s"
  proof (rule join_comma_inj[where e = 125 and T = ?T and N = ?N])
    fix x y r s
    assume xy: "x \<in> set (sort_key fst kvs)" "y \<in> set (sort_key fst ws)" "closed_rest r" "closed_rest s" "?T x @ r = ?T y @ s"
    then have ok: "json_ok (snd x)" "json_ok (snd y)" using v(1,2) by (auto simp: w list_all_iff)
    have "json_str (fst x) @ 58 # canonical_json (snd x) @ r = json_str (fst y) @ 58 # canonical_json (snd y) @ s"
      using xy(5) by (simp add: member_text_def)
    from json_str_inj[OF this] have "fst x = fst y \<and> canonical_json (snd x) @ r = canonical_json (snd y) @ s" by simp
    moreover from this have "sort_keys (snd x) = sort_keys (snd y) \<and> r = s"
      using determinedD[OF assms, of x "snd y" r s] xy(1,3,4) ok by simp
    ultimately show "?N x = ?N y \<and> r = s" by (simp add: prod_eq_iff)
  next
    fix x assume "x \<in> set (sort_key fst kvs) \<union> set (sort_key fst ws)"
    show "?T x \<noteq> [] \<and> \<not> delimiter (hd (?T x))" by (simp add: member_text_def json_str_def delimiter_def)
  qed (use v(5) in \<open>simp_all add: w sort_key_map_prod\<close>)
  then show "sort_keys (JDict kvs) = sort_keys w \<and> r = s" by (simp add: w sort_key_map_prod)
qed

lemma every_value_determined: "determined v"
proof (induction v)
  case (JList vs)
  then show ?case by (rule list_determined)
next
  case (JDict kvs)
  then show ?case by (intro dict_determined) (auto simp: snds.simps)
qed (simp_all add: atom_determined string_determined)

lemma canonical_json_determines:
  "json_ok v \<Longrightarrow> json_ok w \<Longrightarrow> canonical_json v = canonical_json w \<Longrightarrow> sort_keys v = sort_keys w"
  using determinedD[OF every_value_determined, of v w "[]" "[]"] by simp

lemma map_of_sort_key: "distinct (map fst kvs) \<Longrightarrow> map_of (sort_key fst kvs) = map_of kvs"
proof -
  assume d: "distinct (map fst kvs)"
  then have "distinct (map fst (sort_key fst kvs))" by (simp add: distinct_map)
  then have "\<forall>k v. map_of (sort_key fst kvs) k = Some v \<longleftrightarrow> map_of kvs k = Some v"
    using d by (simp add: map_of_eq_Some_iff)
  then show ?thesis by (intro ext) (metis option.exhaust)
qed

text \<open>Two dictionaries of the same text hold the same value under every key.\<close>

lemma canonical_dict_get:
  assumes "json_ok (JDict a)" "json_ok (JDict b)" "canonical_json (JDict a) = canonical_json (JDict b)"
  shows "map_option sort_keys (map_of a k) = map_option sort_keys (map_of b k)"
proof -
  have "sort_key fst (map (map_prod id sort_keys) a) = sort_key fst (map (map_prod id sort_keys) b)"
    using canonical_json_determines[OF assms] by simp
  then have "map_of (sort_key fst (map (map_prod id sort_keys) a)) k = map_of (sort_key fst (map (map_prod id sort_keys) b)) k" by simp
  moreover have "distinct (map fst (map (map_prod id sort_keys) a))" "distinct (map fst (map (map_prod id sort_keys) b))"
    using assms(1,2) by (simp_all add: comp_def)
  ultimately have "map_of (map (map_prod id sort_keys) a) k = map_of (map (map_prod id sort_keys) b) k"
    by (simp only: map_of_sort_key)
  then show ?thesis by (simp add: map_of_map map_prod_def id_def comp_def)
qed

lemma canonical_sort_keys: "canonical_json (sort_keys u) = canonical_json u"
proof (induction u)
  case (JDict kvs)
  then have "map_prod id canonical_json (map_prod id sort_keys kv) = map_prod id canonical_json kv" if "kv \<in> set kvs" for kv
    using that by (cases kv) (auto simp: snds.simps)
  then have "map (\<lambda>kv. map_prod id canonical_json (map_prod id sort_keys kv)) (sort_key fst kvs) =
      map (map_prod id canonical_json) (sort_key fst kvs)"
    by (intro map_cong) simp_all
  then have "sort_key fst (map (\<lambda>kv. map_prod id canonical_json (map_prod id sort_keys kv)) (sort_key fst kvs)) =
      map (map_prod id canonical_json) (sort_key fst kvs)"
    by (simp only: sort_key_map_prod) (simp add: sort_key_id_if_sorted)
  then show ?case by (simp add: sort_key_map_prod comp_def)
qed (simp_all cong: map_cong)

lemma sorted_same_text: "sort_keys v = sort_keys w \<Longrightarrow> canonical_json v = canonical_json w"
  using canonical_sort_keys by metis

section \<open>Properties\<close>

text \<open>
  C18: the canonical text is unambiguous. Two values, with distinct keys in every dictionary and
  floats printed as Python prints them, have the same canonical text exactly when they differ in
  the order of dictionary keys only: whatever is compared by this text is compared by value.
\<close>

theorem canonical_json_unambiguous:
  assumes "json_ok v" "json_ok w"
  shows "canonical_json v = canonical_json w \<longleftrightarrow> sort_keys v = sort_keys w"
proof
  assume "canonical_json v = canonical_json w"
  then show "sort_keys v = sort_keys w" by (rule canonical_json_determines[OF assms])
next
  show "sort_keys v = sort_keys w \<Longrightarrow> canonical_json v = canonical_json w" by (rule sorted_same_text)
qed

theorem canonical_json_unambiguous_witness:
  "canonical_json (JDict [(lit ''b'', JInt 1), (lit ''a'', JList [JBool True])]) =
     canonical_json (JDict [(lit ''a'', JList [JBool True]), (lit ''b'', JInt 1)]) \<and>
   canonical_json (JList [JInt 1]) \<noteq> canonical_json (JList [JFloat (lit ''1.0'')])"
proof -
  have "sort_keys (JDict [(lit ''b'', JInt 1), (lit ''a'', JList [JBool True])]) =
     sort_keys (JDict [(lit ''a'', JList [JBool True]), (lit ''b'', JInt 1)])"
    by code_simp
  moreover have "json_ok (JDict [(lit ''b'', JInt 1), (lit ''a'', JList [JBool True])])"
    "json_ok (JDict [(lit ''a'', JList [JBool True]), (lit ''b'', JInt 1)])" "json_ok (JList [JInt 1])" "json_ok (JList [JFloat (lit ''1.0'')])"
    by code_simp+
  ultimately show ?thesis by (simp del: canonical_json.simps json_ok.simps add: canonical_json_unambiguous)
qed

end
