(* ===== verification/Delivery_Service.thy ===== *)
theory Delivery_Service imports Inbox_Service Delivery Canonical_Json begin

text \<open>
  The delivery transactions (supervision/delivery_service.py): claiming the next message of an
  Agent and recording how a claim ended. A caller passes the views it decided from; the
  transaction proves them against the durable ones, by canonical text, before it appends.
\<close>

section \<open>Values as the canonical text sees them\<close>

definition message_json :: "agent_message \<Rightarrow> json" where
  "message_json m = JDict [(lit ''message_id'', JStr (msg_message_id m)), (lit ''content'', JStr (msg_content m)),
     (lit ''source'', JStr (msg_source m)), (lit ''correlation_id'', json_opt (msg_correlation_id m)),
     (lit ''causation_id'', json_opt (msg_causation_id m))]"

definition accepted_json :: "accepted_message \<Rightarrow> json" where
  "accepted_json a = JDict [(lit ''agent_id'', JStr (acc_agent_id a)), (lit ''message'', message_json (acc_message a)),
     (lit ''target'', JStr (message_target_value (acc_target a))), (lit ''wakeup'', JBool (acc_wakeup a)),
     (lit ''accepted_seq'', JInt (acc_accepted_seq a))]"

definition claim_json :: "message_claim \<Rightarrow> json" where
  "claim_json c = JDict [(lit ''agent_id'', JStr (mc_agent_id c)), (lit ''message_id'', JStr (mc_message_id c)),
     (lit ''accepted_seq'', JInt (mc_accepted_seq c)), (lit ''claim_id'', JStr (mc_claim_id c)),
     (lit ''activation_id'', JStr (mc_activation_id c)), (lit ''session_id'', JStr (mc_session_id c)),
     (lit ''claimed_seq'', JInt (mc_claimed_seq c))]"

definition outcome_json :: "message_outcome option \<Rightarrow> json" where
  "outcome_json x = (case x of None \<Rightarrow> JNull | Some oc \<Rightarrow>
     JDict [(lit ''claim_id'', JStr (mo_claim_id oc)), (lit ''message_id'', JStr (mo_message_id oc)),
       (lit ''state'', JStr (lit (mo_state oc))), (lit ''code'', JStr (mo_code oc)),
       (lit ''turn_id'', json_opt (mo_turn_id oc)), (lit ''terminal_seq'', JInt (mo_terminal_seq oc))])"

definition delivery_facts :: "agent_delivery_log \<Rightarrow> json" where
  "delivery_facts log = JDict [(lit ''agent_id'', JStr (adl_agent_id log)), (lit ''head_seq'', JInt (adl_head_seq log)),
     (lit ''claims'', JList (map claim_json (adl_claims log))),
     (lit ''outcomes'', JList (map (\<lambda>c. outcome_json (outcome_for_claim log (mc_claim_id c))) (adl_claims log)))]"

section \<open>Reading and writing\<close>

definition load_delivery :: "event_store \<Rightarrow> pystr \<Rightarrow> agent_inbox \<Rightarrow> agent_delivery_log result" where
  "load_delivery st agent_id ib =
     rbind (agent_delivery_stream agent_id) (\<lambda>stream. rebuild_delivery_log (read_events st stream 1) agent_id ib)"

definition is_delivery_fact :: "event_envelope \<Rightarrow> string \<Rightarrow> payload \<Rightarrow> bool" where
  "is_delivery_fact event event_type data =
     (case parse_delivery_event event of
        Inl _ \<Rightarrow> False
      | Inr _ \<Rightarrow> ev_type event = lit event_type \<and> canonical_json (ev_data event) = canonical_json (JDict data))"

definition append_delivery ::
    "drawn \<Rightarrow> (event_store \<Rightarrow> event_store) \<Rightarrow> pystr \<Rightarrow> string \<Rightarrow> int \<Rightarrow> payload \<Rightarrow> (event_store, event_envelope) action" where
  "append_delivery dr others agent_id event_type expected_seq data =
     abind (lift_result (agent_delivery_stream agent_id)) (\<lambda>stream.
       append_fact dr others stream expected_seq (pending event_type data 1)
         (\<lambda>event. is_delivery_fact event event_type data)
         (explain_failed_append DeliveryConflictError DeliveryAppendError))"

section \<open>Claiming\<close>

definition require_claim_inputs ::
    "pystr \<Rightarrow> accepted_message \<Rightarrow> agent_inbox \<Rightarrow> agent_delivery_log \<Rightarrow> agent_inbox \<Rightarrow> agent_delivery_log \<Rightarrow> unit result" where
  "require_claim_inputs agent_id accepted ib delivery durable_inbox durable_delivery =
     (let head = adl_head_seq durable_delivery in
      if ib_agent_id ib \<noteq> agent_id \<or> adl_agent_id delivery \<noteq> agent_id
      then Inl (DeliveryProtocolError ''delivery-inbox-agent-mismatch'' 0)
      else if (case inbox_get durable_inbox (message_id_of accepted) of
                 None \<Rightarrow> True
               | Some durable \<Rightarrow> canonical_json (accepted_json durable) \<noteq> canonical_json (accepted_json accepted))
      then Inl (DeliveryProtocolError ''delivery-message-unknown'' head)
      else if adl_head_seq delivery \<noteq> head then Inl DeliveryConflictError
      else if canonical_json (delivery_facts delivery) \<noteq> canonical_json (delivery_facts durable_delivery)
      then Inl (DeliveryProtocolError ''delivery-view-stale'' head)
      else case next_unclaimed durable_delivery durable_inbox of
        None \<Rightarrow> Inl (DeliveryProtocolError
                  (if has_open_claim durable_delivery then ''delivery-claim-open'' else ''delivery-claim-not-next'') head)
      | Some next_accepted \<Rightarrow>
          raise_if (canonical_json (accepted_json next_accepted) \<noteq> canonical_json (accepted_json accepted))
            (DeliveryProtocolError ''delivery-claim-not-next'' head))"

definition read_back_claim :: "pystr \<Rightarrow> pystr \<Rightarrow> agent_delivery_log \<Rightarrow> int \<Rightarrow> message_claim result" where
  "read_back_claim message_id claim_id rebuilt seq =
     (case claim_for rebuilt message_id of
        None \<Rightarrow> Inl (DeliveryProtocolError ''delivery-claim-unknown'' seq)
      | Some claim \<Rightarrow>
          (if mc_claim_id claim \<noteq> claim_id then Inl (DeliveryProtocolError ''delivery-claim-unknown'' seq) else Inr claim))"

definition claim_message ::
    "drawn \<Rightarrow> (event_store \<Rightarrow> event_store) \<Rightarrow> pystr \<Rightarrow> accepted_message \<Rightarrow> pystr \<Rightarrow> pystr \<Rightarrow> pystr
       \<Rightarrow> agent_inbox \<Rightarrow> agent_delivery_log \<Rightarrow> (event_store, message_claim) action" where
  "claim_message dr others agent_id accepted claim_id activation_id session_id ib delivery =
     abind (lift_result (require_delivery_identifier agent_id ''agent_id'')) (\<lambda>agent_id.
     abind (lift_result (claimed_data agent_id (message_id_of accepted) (acc_accepted_seq accepted)
              claim_id activation_id session_id)) (\<lambda>data.
     abind (reading (\<lambda>st. load_inbox st agent_id)) (\<lambda>durable_inbox.
     abind (reading (\<lambda>st. load_delivery st agent_id durable_inbox)) (\<lambda>durable_delivery.
     abind (lift_result (require_claim_inputs agent_id accepted ib delivery durable_inbox durable_delivery)) (\<lambda>_.
     abind (append_delivery dr others agent_id AGENT_MESSAGE_CLAIMED (adl_head_seq durable_delivery) data) (\<lambda>appended.
     abind (reading (\<lambda>st. load_delivery st agent_id durable_inbox)) (\<lambda>rebuilt.
       lift_result (read_back_claim (message_id_of accepted) claim_id rebuilt (ev_seq appended)))))))))"

section \<open>Ending a claim\<close>

definition require_open_claim :: "pystr \<Rightarrow> message_claim \<Rightarrow> agent_delivery_log \<Rightarrow> unit result" where
  "require_open_claim agent_id claim delivery =
     (if mc_agent_id claim \<noteq> agent_id \<or>
         (case claim_for delivery (mc_message_id claim) of
            None \<Rightarrow> True
          | Some current \<Rightarrow> canonical_json (claim_json current) \<noteq> canonical_json (claim_json claim))
      then Inl (DeliveryProtocolError ''delivery-claim-unknown'' (adl_head_seq delivery))
      else raise_if (outcome_for_claim delivery (mc_claim_id claim) \<noteq> None)
        (DeliveryProtocolError ''delivery-claim-already-terminal'' (adl_head_seq delivery)))"

definition end_claim ::
    "drawn \<Rightarrow> (event_store \<Rightarrow> event_store) \<Rightarrow> pystr \<Rightarrow> message_claim \<Rightarrow> string \<Rightarrow> payload \<Rightarrow> (event_store, unit) action" where
  "end_claim dr others agent_id claim event_type data =
     abind (lift_result (require_delivery_identifier agent_id ''agent_id'')) (\<lambda>agent_id.
     abind (reading (\<lambda>st. load_inbox st agent_id)) (\<lambda>ib.
     abind (reading (\<lambda>st. load_delivery st agent_id ib)) (\<lambda>delivery.
     abind (lift_result (require_open_claim agent_id claim delivery)) (\<lambda>_.
     abind (append_delivery dr others agent_id event_type (adl_head_seq delivery) data) (\<lambda>_.
       lift_result (Inr ()))))))"

definition complete_claim ::
    "drawn \<Rightarrow> (event_store \<Rightarrow> event_store) \<Rightarrow> pystr \<Rightarrow> message_claim \<Rightarrow> pystr \<Rightarrow> pystr \<Rightarrow> (event_store, unit) action" where
  "complete_claim dr others agent_id claim turn_id reason =
     abind (lift_result (completed_data agent_id (mc_message_id claim) (mc_claim_id claim) turn_id reason))
       (end_claim dr others agent_id claim AGENT_MESSAGE_COMPLETED)"

definition fail_claim ::
    "drawn \<Rightarrow> (event_store \<Rightarrow> event_store) \<Rightarrow> pystr \<Rightarrow> message_claim \<Rightarrow> pystr \<Rightarrow> (event_store, unit) action" where
  "fail_claim dr others agent_id claim error_code =
     abind (lift_result (failed_data agent_id (mc_message_id claim) (mc_claim_id claim) error_code))
       (end_claim dr others agent_id claim AGENT_MESSAGE_FAILED)"

definition cancel_claim ::
    "drawn \<Rightarrow> (event_store \<Rightarrow> event_store) \<Rightarrow> pystr \<Rightarrow> message_claim \<Rightarrow> pystr \<Rightarrow> (event_store, unit) action" where
  "cancel_claim dr others agent_id claim reason =
     abind (lift_result (cancelled_data agent_id (mc_message_id claim) (mc_claim_id claim) reason))
       (end_claim dr others agent_id claim AGENT_MESSAGE_CANCELLED)"

section \<open>The comparisons decide equality\<close>

lemma json_opt_inj [simp]: "json_opt u = json_opt v \<longleftrightarrow> u = v"
  by (cases u; cases v) simp_all

lemma sort_keys_opt [simp]: "sort_keys (json_opt u) = json_opt u" "json_ok (json_opt u)"
  by (cases u; simp)+

lemma accepted_json_inj:
  assumes "canonical_json (accepted_json a) = canonical_json (accepted_json b)"
  shows "a = b"
proof -
  have ok: "json_ok (accepted_json x)" for x by (simp add: accepted_json_def message_json_def)
  note get = canonical_dict_get[OF ok[unfolded accepted_json_def] ok[unfolded accepted_json_def] assms[unfolded accepted_json_def]]
  have "sort_keys (message_json (acc_message a)) = sort_keys (message_json (acc_message b))"
    and outer: "acc_agent_id a = acc_agent_id b" "acc_target a = acc_target b" "acc_wakeup a = acc_wakeup b"
      "acc_accepted_seq a = acc_accepted_seq b"
    using get[of "lit ''message''"] get[of "lit ''agent_id''"] get[of "lit ''target''"] get[of "lit ''wakeup''"]
      get[of "lit ''accepted_seq''"] by simp_all
  moreover have mok: "json_ok (message_json m)" for m by (simp add: message_json_def)
  ultimately have "canonical_json (message_json (acc_message a)) = canonical_json (message_json (acc_message b))"
    using sorted_same_text by blast
  note inner = canonical_dict_get[OF mok[unfolded message_json_def] mok[unfolded message_json_def] this[unfolded message_json_def]]
  have "acc_message a = acc_message b"
    using inner[of "lit ''message_id''"] inner[of "lit ''content''"] inner[of "lit ''source''"]
      inner[of "lit ''correlation_id''"] inner[of "lit ''causation_id''"] by simp
  with outer show ?thesis by simp
qed

lemma claim_json_inj:
  assumes "canonical_json (claim_json a) = canonical_json (claim_json b)"
  shows "a = b"
proof -
  have ok: "json_ok (claim_json x)" for x by (simp add: claim_json_def)
  note get = canonical_dict_get[OF ok[unfolded claim_json_def] ok[unfolded claim_json_def] assms[unfolded claim_json_def]]
  show ?thesis
    using get[of "lit ''agent_id''"] get[of "lit ''message_id''"] get[of "lit ''accepted_seq''"] get[of "lit ''claim_id''"]
      get[of "lit ''activation_id''"] get[of "lit ''session_id''"] get[of "lit ''claimed_seq''"] by simp
qed

section \<open>The delivery log as a log of facts\<close>

abbreviation delivery_stream :: "pystr \<Rightarrow> pystr" where
  "delivery_stream a \<equiv> AGENT_DELIVERY_STREAM_PREFIX @ a"

lemma stream_names [simp]:
  "AGENT_DIRECTORY_STREAM \<noteq> inbox_stream a" "inbox_stream a \<noteq> AGENT_DIRECTORY_STREAM"
  "AGENT_DIRECTORY_STREAM \<noteq> delivery_stream a" "delivery_stream a \<noteq> AGENT_DIRECTORY_STREAM"
  "inbox_stream a \<noteq> delivery_stream b" "delivery_stream b \<noteq> inbox_stream a"
  by (simp_all add: lit_def)

lemma scan_delivery_head: "dl_head_seq (fold (scan_delivery a ib) es empty_delivery_scan) = stream_head es"
proof (induction es rule: rev_induct)
  case (snoc e es)
  show ?case
    by (cases rule: scan_delivery_cases[of a ib e "fold (scan_delivery a ib) es empty_delivery_scan"])
      (simp_all add: stream_head_def)
qed (simp add: empty_delivery_scan_def stream_head_def)

interpretation delivery_log: fact_log "\<lambda>es. rebuild_delivery_log es a ib" adl_head_seq for a ib
proof
  fix sid es log
  assume n: "numbered sid es" and log: "rebuild_delivery_log es a ib = Inr log"
  then show "adl_head_seq log = int (length es)"
    using stream_head_numbered[OF n] by (auto simp: rebuild_delivery_log_Inr scan_delivery_head make_delivery_log_def)
qed

lemma load_delivery_Inr:
  "store_ok st \<Longrightarrow> load_delivery st a ib = Inr log \<longleftrightarrow>
     ident_ok a \<and> rebuild_delivery_log (stream_of st (delivery_stream a)) a ib = Inr log"
  by (auto simp: load_delivery_def read_events_all result_simps)

text \<open>Messages that arrive later do not change what a delivery log means.\<close>

lemma scan_queue_more: "scan_queue bm oc ms = (Some k, False) \<Longrightarrow> scan_queue bm oc (ms @ later) = (Some k, False)"
  by (induction ms) (auto split: option.splits if_splits)

lemma claim_refusal_more:
  assumes "claim_refusal s ib f = None" "inbox_ok ib" "inbox_ok ib2" "ib_messages ib2 = ib_messages ib @ later"
  shows "claim_refusal s ib2 f = None"
proof -
  have "inbox_get ib2 k = Some m" if "inbox_get ib k = Some m" for k m
    using that assms(4) inbox_ok_get[OF assms(2)] inbox_ok_get[OF assms(3)] by simp
  then show ?thesis using assms(1,4) scan_queue_more by (auto simp: claim_refusal_None)
qed

lemma scan_delivery_more:
  assumes "dl_issues (scan_delivery a ib e s) = []" "inbox_ok ib" "inbox_ok ib2" "ib_messages ib2 = ib_messages ib @ later"
  shows "scan_delivery a ib2 e s = scan_delivery a ib e s"
proof (cases rule: scan_delivery_cases[of a ib e s])
  case (claimed f)
  then show ?thesis using claim_refusal_more[OF claimed(4) assms(2-4)] by (simp add: scan_delivery_def Let_def)
next
  case (ended f)
  then show ?thesis by (simp add: scan_delivery_def Let_def)
qed (use assms(1) in simp)

lemma rebuild_delivery_more:
  assumes "rebuild_delivery_log es a ib = Inr log" and ib: "inbox_ok ib" "inbox_ok ib2" "ib_messages ib2 = ib_messages ib @ later"
    and "ib_agent_id ib2 = ib_agent_id ib"
  shows "rebuild_delivery_log es a ib2 = Inr log"
proof -
  have "fold (scan_delivery a ib2) es empty_delivery_scan = fold (scan_delivery a ib) es empty_delivery_scan"
    if "dl_issues (fold (scan_delivery a ib) es empty_delivery_scan) = []" for es
    using that
  proof (induction es rule: rev_induct)
    case (snoc e es)
    have "dl_issues (fold (scan_delivery a ib) es empty_delivery_scan) = []"
      using snoc.prems by (rule delivery.clean_prefix)
    then show ?case using snoc scan_delivery_more[OF _ ib] by simp
  qed simp
  then show ?thesis using assms by (auto simp: rebuild_delivery_log_Inr)
qed

section \<open>What a claim does\<close>

lemma require_claim_inputs_Inr:
  "require_claim_inputs a accepted ib log dib dlog = Inr u \<Longrightarrow> next_unclaimed dlog dib = Some accepted"
  by (auto simp: require_claim_inputs_def Let_def result_simps dest: accepted_json_inj split: if_splits option.splits)

lemma claim_message_cases:
  assumes "claim_message dr others a accepted claim act sess ib log st = (st1, x)"
  obtains (refused) e where "st1 = st" "x = Inl e"
  | (written) data dib dlog y where "claimed_data a (message_id_of accepted) (acc_accepted_seq accepted) claim act sess = Inr data"
      "load_inbox st a = Inr dib" "load_delivery st a dib = Inr dlog" "next_unclaimed dlog dib = Some accepted"
      "append_delivery dr others a AGENT_MESSAGE_CLAIMED (adl_head_seq dlog) data st = (st1, y)"
      "x = (case y of Inl e \<Rightarrow> Inl e | Inr ev \<Rightarrow> rbind (load_delivery st1 a dib) (\<lambda>rebuilt.
         read_back_claim (message_id_of accepted) claim rebuilt (ev_seq ev)))"
proof -
  from assms show thesis
    unfolding claim_message_def
  proof (cases rule: abind_liftE)
    case (go a')
    then have a': "a' = a" by (simp add: result_simps)
    from go(2)[unfolded a'] show thesis
    proof (cases rule: abind_liftE)
      case data: (go data)
      from data(2) show thesis
      proof (cases rule: abind_readingE)
        case dib: (go dib)
        from dib(2) show thesis
        proof (cases rule: abind_readingE)
          case dlog: (go dlog)
          from dlog(2) show thesis
          proof (cases rule: abind_liftE)
            case ok: (go u)
            obtain y where "append_delivery dr others a AGENT_MESSAGE_CLAIMED (adl_head_seq dlog) data st = (st1, y)"
              "x = (case y of Inl e \<Rightarrow> Inl e | Inr ev \<Rightarrow> rbind (load_delivery st1 a dib) (\<lambda>rebuilt.
                 read_back_claim (message_id_of accepted) claim rebuilt (ev_seq ev)))"
              using ok(2) by (cases "append_delivery dr others a AGENT_MESSAGE_CLAIMED (adl_head_seq dlog) data st")
                (auto simp: abind_def[of "append_delivery _ _ _ _ _ _"] lift_result_def split: sum.splits)
            then show thesis using written[OF data(1) dib(1) dlog(1) require_claim_inputs_Inr[OF ok(1)]] by blast
          qed (use refused in blast)
        qed (use refused in blast)
      qed (use refused in blast)
    qed (use refused in blast)
  qed (use refused in blast)
qed

lemma append_delivery_fact:
  assumes "ident_ok a"
  shows "append_delivery dr others a ty n data = append_fact dr others (delivery_stream a) n (pending ty data 1)
    (\<lambda>event. is_delivery_fact event ty data) (explain_failed_append DeliveryConflictError DeliveryAppendError)"
proof -
  have "agent_delivery_stream a = Inr (delivery_stream a)" using assms by (simp add: result_simps)
  then show ?thesis by (simp add: append_delivery_def fun_eq_iff)
qed

abbreviation delivery_envelope :: "drawn \<Rightarrow> pystr \<Rightarrow> agent_delivery_log \<Rightarrow> string \<Rightarrow> payload \<Rightarrow> event_envelope" where
  "delivery_envelope dr a log ty data \<equiv> fact_envelope dr (delivery_stream a) (adl_head_seq log + 1) (pending ty data 1)"

lemma claim_message_effect:
  assumes st: "store_ok st" and grow: "extends st (others st)"
    and new: "\<And>dib dlog. load_inbox st a = Inr dib \<Longrightarrow> load_delivery st a dib = Inr dlog \<Longrightarrow> claim \<notin> mc_claim_id ` set (adl_claims dlog)"
    and run: "claim_message dr others a accepted claim act sess ib log st = (st1, x)"
  obtains (unchanged) "st1 = st"
  | (won) dib log' ev where "load_inbox st a = Inr dib" "stream_of (others st) (delivery_stream a) = stream_of st (delivery_stream a)"
      "\<And>sid. stream_of st1 sid = (if sid = delivery_stream a then stream_of st (delivery_stream a) @ [ev] else stream_of (others st) sid)"
      "rebuild_delivery_log (stream_of st1 (delivery_stream a)) a dib = Inr log'" "store_ok st1"
  | (lost) "\<And>sid. stream_of st1 sid = stream_of (others st) sid" "store_ok st1"
  using run
proof (cases rule: claim_message_cases)
  case (refused e)
  then show thesis using that(1) by simp
next
  case (written data dib dlog y)
  have ib: "ident_ok a" "rebuild_inbox (stream_of st (inbox_stream a)) a = Inr dib" using written(2) st by (simp_all add: load_inbox_Inr)
  have log: "rebuild_delivery_log (stream_of st (delivery_stream a)) a dib = Inr dlog" using written(3) st by (simp add: load_delivery_Inr)
  have "agent_delivery_stream a = Inr (delivery_stream a)" using ib(1) by (simp add: result_simps)
  then obtain log' where log': "rebuild_delivery_log (stream_of st (delivery_stream a) @ [delivery_envelope dr a dlog AGENT_MESSAGE_CLAIMED data]) a dib = Inr log'"
    using claim_accepted[OF ib(2) log written(4,1) new[OF written(2,3)], of "delivery_envelope dr a dlog AGENT_MESSAGE_CLAIMED data"]
    by auto
  show thesis
  proof (cases rule: delivery_log.transaction_outcome[OF st grow log log' written(5)[unfolded append_delivery_fact[OF ib(1)]], case_names won lost])
    case won
    then show thesis using that(2)[of dib "delivery_envelope dr a dlog AGENT_MESSAGE_CLAIMED data" log'] written(2) by simp
  next
    case (lost e)
    then show thesis using that(3) by simp
  qed
qed

text \<open>
  The claim operation does not look at its claim identity. A claim of the offered message under an
  identity that the log has used before is appended like any other, and no later replay accepts it.
\<close>

lemma first_unclaimed_member: "first_unclaimed bm oc ms = Some m \<Longrightarrow> m \<in> set ms"
  by (induction ms) (auto split: option.splits if_splits)

lemma claim_reused:
  assumes ib: "rebuild_inbox ies a = Inr ib" and log: "rebuild_delivery_log es a ib = Inr log" and m: "next_unclaimed log ib = Some m"
    and f: "parse_delivery_event ev = Inr (Claimed_Fact a (message_id_of m) claim (acc_accepted_seq m) act sess)"
    and used: "claim \<in> mc_claim_id ` set (adl_claims log)"
  shows "rebuild_delivery_log (es @ [ev]) a ib = Inl (DeliveryProtocolError ''delivery-claim-id-duplicate'' (ev_seq ev))"
proof -
  let ?s = "fold (scan_delivery a ib) es empty_delivery_scan"
  have l: "log = make_delivery_log a (dl_claims ?s) (dl_outcomes ?s) (dl_head_seq ?s)" "dl_issues ?s = []" "ident_ok a" "ib_agent_id ib = a"
    using log unfolding rebuild_delivery_log_Inr by blast+
  have ok: "inbox_ok ib" using ib by (rule rebuild_inbox_ok)
  have "delivery_inv a ib ?s" by (rule delivery.run_inv)
  then have "dict_has claim (dl_by_claim_id ?s)"
    using used ok indexes_has[of mc_claim_id "dl_claims ?s" "dl_by_claim_id ?s" claim] by (auto simp: delivery_inv_def l(1))
  moreover have "m \<in> set (ib_messages ib)"
    using m by (auto simp: next_unclaimed_def dest: first_unclaimed_member split: if_splits)
  then have "inbox_get ib (message_id_of m) = Some m" using inbox_ok_get[OF ok] by auto
  ultimately have "scan_delivery a ib ev ?s = delivery_issue ''delivery-claim-id-duplicate'' (ev_seq ev) (?s\<lparr>dl_head_seq := ev_seq ev\<rparr>)"
    using f by (simp add: scan_delivery_def Let_def claim_refusal_def)
  then show ?thesis
    using l by (simp add: rebuild_delivery_log_def scan_deliveries_def result_simps delivery_issue_def raise_if_def)
qed

theorem claim_identity_breaks_delivery:
  assumes st: "store_ok st" and ib: "load_inbox st a = Inr dib" and log: "load_delivery st a dib = Inr dlog"
    and views: "require_claim_inputs a accepted ib log dib dlog = Inr ()"
    and data: "claimed_data a (message_id_of accepted) (acc_accepted_seq accepted) claim act sess = Inr data"
    and used: "claim \<in> mc_claim_id ` set (adl_claims dlog)"
  shows "load_delivery (fst (claim_message dr (\<lambda>st. st) a accepted claim act sess ib log st)) a dib =
    Inl (DeliveryProtocolError ''delivery-claim-id-duplicate'' (adl_head_seq dlog + 1))"
proof -
  let ?run = "append_delivery dr (\<lambda>st. st) a AGENT_MESSAGE_CLAIMED (adl_head_seq dlog) data" and ?ev = "delivery_envelope dr a dlog AGENT_MESSAGE_CLAIMED data"
  have i: "ident_ok a" "rebuild_inbox (stream_of st (inbox_stream a)) a = Inr dib" using ib st by (simp_all add: load_inbox_Inr)
  have l: "rebuild_delivery_log (stream_of st (delivery_stream a)) a dib = Inr dlog" using log st by (simp add: load_delivery_Inr)
  have stream: "agent_delivery_stream a = Inr (delivery_stream a)" using i(1) by (simp add: result_simps)
  have ok: "store_ok (fst (?run st))"
    unfolding append_delivery_fact[OF i(1)] using append_fact_ok[of "\<lambda>st. st" st] st by blast
  have "head_seq st (delivery_stream a) = adl_head_seq dlog" using delivery_log.fresh_append[of st "\<lambda>st. st", OF st st l] by simp
  then have "stream_of (fst (?run st)) (delivery_stream a) = stream_of st (delivery_stream a) @ [?ev]"
    unfolding append_delivery_fact[OF i(1)] using st by (simp add: append_fact_stream)
  moreover have "parse_delivery_event ?ev = Inr (Claimed_Fact a (message_id_of accepted) claim (acc_accepted_seq accepted) act sess)"
    using data stream by (intro fact_parses) simp_all
  then have "rebuild_delivery_log (stream_of st (delivery_stream a) @ [?ev]) a dib =
      Inl (DeliveryProtocolError ''delivery-claim-id-duplicate'' (ev_seq ?ev))"
    by (rule claim_reused[OF i(2) l require_claim_inputs_Inr[OF views] _ used])
  ultimately have "load_delivery (fst (?run st)) a dib = Inl (DeliveryProtocolError ''delivery-claim-id-duplicate'' (adl_head_seq dlog + 1))"
    using ok stream by (simp add: load_delivery_def read_events_all)
  moreover have "fst (claim_message dr (\<lambda>st. st) a accepted claim act sess ib log st) = fst (?run st)"
    using i(1) ib log views data
    by (cases "?run st") (auto simp: claim_message_def abind_def[of "?run"] lift_result_def require_delivery_identifier_def split: sum.split)
  ultimately show ?thesis by simp
qed

lemma claim_message_recorded:
  assumes st: "store_ok st" and grow: "extends st (others st)"
    and run: "claim_message dr others a accepted claim act sess ib log st = (st1, Inr c)"
  shows "extends st st1 \<and> (\<exists>dib rebuilt. load_inbox st a = Inr dib \<and> load_delivery st1 a dib = Inr rebuilt \<and>
    claim_for rebuilt (message_id_of accepted) = Some c \<and> mc_claim_id c = claim)"
  using run
proof (cases rule: claim_message_cases)
  case (written data dib dlog y)
  then have a: "ident_ok a" using st by (simp add: load_inbox_Inr)
  have "extends st st1"
    using append_fact_extends[of st others, OF grow] written(5) unfolding append_delivery_fact[OF a] by (metis fst_conv)
  moreover obtain ev :: event_envelope where "rbind (load_delivery st1 a dib) (\<lambda>rebuilt. read_back_claim (message_id_of accepted) claim rebuilt (ev_seq ev)) = Inr c"
    using written(6)[symmetric] by (cases y) auto
  then obtain rebuilt where "load_delivery st1 a dib = Inr rebuilt" "read_back_claim (message_id_of accepted) claim rebuilt (ev_seq ev) = Inr c"
    by (auto simp: rbind_eq_Inr)
  ultimately show ?thesis using written(2) by (auto simp: read_back_claim_def split: option.splits if_splits)
qed simp

section \<open>What ending a claim does\<close>

lemma terminal_accepted:
  assumes log: "rebuild_delivery_log es a ib = Inr log" and ib: "inbox_ok ib"
    and f: "parse_delivery_event ev = Inr f" "df_agent_id f = a" "\<not> is_claimed_fact f"
    and c: "claim_for log (df_message_id f) = Some c" "mc_claim_id c = df_claim_id f" "outcome_for_claim log (df_claim_id f) = None"
  shows "is_ok (rebuild_delivery_log (es @ [ev]) a ib)"
proof -
  let ?s = "fold (scan_delivery a ib) es empty_delivery_scan"
  have l: "log = make_delivery_log a (dl_claims ?s) (dl_outcomes ?s) (dl_head_seq ?s)" "dl_issues ?s = []" "ident_ok a" "ib_agent_id ib = a"
    using log unfolding rebuild_delivery_log_Inr by blast+
  have "indexes mc_message_id (adl_claims log) (adl_by_message log)" using rebuild_delivery_ok[OF log ib] by blast
  then have mem: "c \<in> set (dl_claims ?s)" "mc_message_id c = df_message_id f" using c(1) by (auto simp: claim_for_def indexes_def l(1))
  have "delivery_inv a ib ?s" by (rule delivery.run_inv)
  then have "map_of (dl_by_claim_id ?s) (df_claim_id f) = Some c" using mem ib c(2) by (simp add: delivery_inv_def indexes_def)
  then have "terminal_refusal ?s f = None" using mem(2) c(3) by (simp add: terminal_refusal_None outcome_for_claim_def dict_has_def l(1))
  then have "scan_delivery a ib ev ?s = add_outcome (make_outcome f (ev_seq ev)) (?s\<lparr>dl_head_seq := ev_seq ev\<rparr>)"
    using f by (simp add: scan_delivery_def Let_def)
  then show ?thesis using l by (simp add: is_ok_iff rebuild_delivery_log_Inr)
qed

lemma require_open_claim_Inr:
  assumes "require_open_claim a c log = Inr u"
  shows "mc_agent_id c = a \<and> claim_for log (mc_message_id c) = Some c \<and> outcome_for_claim log (mc_claim_id c) = None"
  using assms by (auto simp: require_open_claim_def result_simps dest: claim_json_inj split: if_splits option.splits)

lemma end_claim_effect:
  assumes st: "store_ok st" and grow: "extends st (others st)"
    and f: "fact_data f = Inr data" "df_agent_id f = a" "df_message_id f = mc_message_id c" "df_claim_id f = mc_claim_id c" "\<not> is_claimed_fact f"
    and run: "end_claim dr others a c (fact_type f) data st = (st1, x)"
  obtains (unchanged) "st1 = st"
  | (won) dib log' ev where "load_inbox st a = Inr dib" "stream_of (others st) (delivery_stream a) = stream_of st (delivery_stream a)"
      "\<And>sid. stream_of st1 sid = (if sid = delivery_stream a then stream_of st (delivery_stream a) @ [ev] else stream_of (others st) sid)"
      "rebuild_delivery_log (stream_of st1 (delivery_stream a)) a dib = Inr log'" "store_ok st1"
  | (lost) "\<And>sid. stream_of st1 sid = stream_of (others st) sid" "store_ok st1"
proof -
  from run show thesis
    unfolding end_claim_def
  proof (cases rule: abind_liftE)
    case (go a')
    then have a': "a' = a" by (simp add: result_simps)
    from go(2)[unfolded a'] show thesis
    proof (cases rule: abind_readingE)
      case dib: (go dib)
      from dib(2) show thesis
      proof (cases rule: abind_readingE)
        case dlog: (go dlog)
        from dlog(2) show thesis
        proof (cases rule: abind_liftE)
          case ok: (go u)
          have ib: "ident_ok a" "rebuild_inbox (stream_of st (inbox_stream a)) a = Inr dib" using dib(1) st by (simp_all add: load_inbox_Inr)
          have log: "rebuild_delivery_log (stream_of st (delivery_stream a)) a dib = Inr dlog" using dlog(1) st by (simp add: load_delivery_Inr)
          let ?ev = "delivery_envelope dr a dlog (fact_type f) data"
          have s: "agent_delivery_stream a = Inr (delivery_stream a)" using ib(1) by (simp add: result_simps)
          have "parse_delivery_event ?ev = Inr f" using f s by (intro fact_parses) simp_all
          then obtain log' where log': "rebuild_delivery_log (stream_of st (delivery_stream a) @ [?ev]) a dib = Inr log'"
            using terminal_accepted[OF log rebuild_inbox_ok[OF ib(2)], of ?ev f c] require_open_claim_Inr[OF ok(1)] f by (auto simp: is_ok_iff)
          obtain y where y: "append_delivery dr others a (fact_type f) (adl_head_seq dlog) data st = (st1, y)"
            using ok(2) by (auto simp: abind_def[of "append_delivery _ _ _ _ _ _"] lift_result_def split: prod.splits sum.splits)
          show thesis
          proof (cases rule: delivery_log.transaction_outcome[OF st grow log log' y[unfolded append_delivery_fact[OF ib(1)]], case_names won lost])
            case won
            then show thesis using that(2)[of dib ?ev log'] dib(1) by simp
          next
            case (lost e)
            then show thesis using that(3) by simp
          qed
        qed (use that(1) in blast)
      qed (use that(1) in blast)
    qed (use that(1) in blast)
  qed (use that(1) in blast)
qed

section \<open>A claim is for ever\<close>

lemma claim_stays:
  assumes st: "extends st st1" "store_ok st" and ib: "load_inbox st a = Inr dib" and log: "load_delivery st1 a dib = Inr rebuilt"
    and c: "claim_for rebuilt k = Some c"
    and st2: "extends st1 st2" "load_inbox st2 a = Inr ib2" "load_delivery st2 a ib2 = Inr log2"
  shows "claim_for log2 k = Some c"
proof -
  have a: "ident_ok a" using ib st(2) by (simp add: load_inbox_Inr)
  have ok: "store_ok st1" "store_ok st2" using st st2 by (auto simp: extends_def)
  obtain xs where xs: "stream_of st2 (inbox_stream a) = stream_of st (inbox_stream a) @ xs"
    using extends_trans[OF st(1) st2(1)] by (auto simp: extends_def)
  have i: "rebuild_inbox (stream_of st (inbox_stream a)) a = Inr dib" "rebuild_inbox (stream_of st2 (inbox_stream a)) a = Inr ib2"
    using ib st2(2) st(2) ok by (simp_all add: load_inbox_Inr)
  obtain ms where ms: "ib_messages ib2 = ib_messages dib @ ms" using inbox_grows i unfolding xs by fastforce
  obtain ys where ys: "stream_of st2 (delivery_stream a) = stream_of st1 (delivery_stream a) @ ys" using st2(1) by (auto simp: extends_def)
  have r: "rebuild_delivery_log (stream_of st1 (delivery_stream a)) a dib = Inr rebuilt" using log ok by (simp add: load_delivery_Inr)
  have "ib_agent_id ib2 = ib_agent_id dib" using i by (auto simp: rebuild_inbox_Inr make_inbox_def)
  from rebuild_delivery_more[OF r rebuild_inbox_ok[OF i(1)] rebuild_inbox_ok[OF i(2)] ms this]
  have r2: "rebuild_delivery_log (stream_of st1 (delivery_stream a)) a ib2 = Inr rebuilt" .
  have whole: "rebuild_delivery_log (stream_of st1 (delivery_stream a) @ ys) a ib2 = Inr log2"
    using st2(3) ok ys by (simp add: load_delivery_Inr)
  obtain cs where "adl_claims log2 = adl_claims rebuilt @ cs" using delivery_log_grows[OF whole] r2 by auto
  moreover have "indexes mc_message_id (adl_claims rebuilt) (adl_by_message rebuilt)" "indexes mc_message_id (adl_claims log2) (adl_by_message log2)"
    using rebuild_delivery_ok[OF r2 rebuild_inbox_ok[OF i(2)]] rebuild_delivery_ok[OF whole rebuild_inbox_ok[OF i(2)]] by blast+
  ultimately show ?thesis using c by (simp add: claim_for_def indexes_def)
qed

lemma claimed_refused:
  assumes "load_inbox st a = Inr ib" "load_delivery st a ib = Inr log" "claim_for log (message_id_of accepted) = Some c"
  shows "\<exists>e. claim_message dr others a accepted k act sess ib' log' st = (st, Inl e)"
proof (cases "claim_message dr others a accepted k act sess ib' log' st")
  case (Pair st1 x)
  from Pair show ?thesis
  proof (cases rule: claim_message_cases)
    case (written data dib dlog y)
    have "\<not> dict_has (message_id_of accepted) (adl_by_message log)"
      using written(2-4) assms(1,2) first_unclaimed_fresh by (simp add: next_unclaimed_def)
    then show ?thesis using assms(3) by (simp add: claim_for_def dict_has_def)
  qed (use Pair in simp)
qed

section \<open>Properties\<close>

text \<open>
  C21: a message is claimed once. Whoever gets a claim on a message, under any interference of
  other workers, is its only owner for ever: every later readable log records this claim as the
  claim of the message, and every later attempt to claim it, from whatever views and under
  whatever claim identity, is refused and writes nothing, so the message is never run twice.
\<close>

theorem message_claimed_once:
  assumes "store_ok st" "extends st (others st)"
    and "claim_message dr others a accepted k act sess ib log st = (st1, Inr c)"
    and "extends st1 st2" "load_inbox st2 a = Inr ib2" "load_delivery st2 a ib2 = Inr log2"
    and "message_id_of accepted2 = message_id_of accepted"
  shows "claim_for log2 (message_id_of accepted) = Some c \<and>
    (\<exists>e. claim_message dr2 others2 a accepted2 k2 act2 sess2 ib3 log3 st2 = (st2, Inl e))"
proof -
  obtain dib rebuilt where rec: "extends st st1" "load_inbox st a = Inr dib" "load_delivery st1 a dib = Inr rebuilt"
      "claim_for rebuilt (message_id_of accepted) = Some c"
    using claim_message_recorded[of st others, OF assms(1-3)] by blast
  have "claim_for log2 (message_id_of accepted) = Some c"
    using claim_stays[OF rec(1) assms(1) rec(2-4) assms(4-6)] .
  then show ?thesis using claimed_refused[OF assms(5,6)] assms(7) by simp
qed

definition delivery_store :: event_store where
  "delivery_store = \<lparr>es_streams = [(AGENT_DIRECTORY_STREAM, [sample_root]), (inbox_stream (lit ''a1''), sample_inbox_events)]\<rparr>"

definition empty_log :: agent_delivery_log where
  "empty_log = projr (rebuild_delivery_log [] (lit ''a1'') sample_inbox)"

definition delivery_run :: "event_store \<times> message_claim result" where
  "delivery_run = claim_message (\<lambda>n. (n, sample_time)) (\<lambda>st. st) (lit ''a1'') (hd (ib_messages sample_inbox)) (lit ''c1'') (lit ''act-1'')
     (lit ''s1'') sample_inbox empty_log delivery_store"

theorem message_claimed_once_witness:
  "\<exists>st1 c e. delivery_run = (st1, Inr c) \<and> mc_message_id c = lit ''m1'' \<and>
     claim_message (\<lambda>n. (n, sample_time)) (\<lambda>st. st) (lit ''a1'') (hd (ib_messages sample_inbox)) (lit ''c2'') (lit ''act-2'')
       (lit ''s2'') sample_inbox empty_log st1 = (st1, Inl e)"
proof -
  have ok: "store_ok delivery_store"
    by (auto simp: delivery_store_def store_ok_def dict_ok_def numbered_def sample_root_def sample_inbox_events_def accept_event_def
        less_Suc_eq nth_Cons')
  have "case delivery_run of (st1, r) \<Rightarrow> is_ok r \<and> mc_message_id (projr r) = lit ''m1'' \<and>
      (case load_inbox st1 (lit ''a1'') of Inl e \<Rightarrow> False | Inr ib2 \<Rightarrow> is_ok (load_delivery st1 (lit ''a1'') ib2))" by code_simp
  then obtain st1 c ib2 log2 where run: "delivery_run = (st1, Inr c)" "mc_message_id c = lit ''m1''"
      and views: "load_inbox st1 (lit ''a1'') = Inr ib2" "load_delivery st1 (lit ''a1'') ib2 = Inr log2"
    by (auto simp: is_ok_iff split: prod.splits sum.splits)
  note run1 = run(1)[unfolded delivery_run_def]
  have "store_ok st1" using claim_message_recorded[OF ok extends_refl[OF ok] run1] by (simp add: extends_def)
  from message_claimed_once[OF ok extends_refl[OF ok] run1 extends_refl[OF this] views refl] show ?thesis using run by blast
qed

end
