(* ===== verification/Control_Plane.thy ===== *)
theory Control_Plane imports Delivery_Service begin

text \<open>
  The control plane as a whole: one durable log, many concurrent transactions. A command is a
  call of one of the three services (agents/registrar.py, agents/inbox_service.py,
  supervision/delivery_service.py). It reads the log at one moment and appends at a later one;
  in between any number of other commands may append, whenever they have read. The plane is
  consistent when every projector accepts its stream and no message waits for an unknown Agent.
\<close>

section \<open>Commands and the history of the log\<close>

datatype plane_command =
    Create_Agent pystr pystr agent_spec pystr "pystr option" "pystr option"
  | Accept_Message pystr agent_message message_target bool
  | Claim_Message pystr accepted_message pystr pystr pystr agent_inbox agent_delivery_log
  | Complete_Claim pystr message_claim pystr pystr
  | Fail_Claim pystr message_claim pystr
  | Cancel_Claim pystr message_claim pystr

fun run_plane :: "drawn \<Rightarrow> (event_store \<Rightarrow> event_store) \<Rightarrow> plane_command \<Rightarrow> event_store \<Rightarrow> event_store" where
  "run_plane dr others (Create_Agent fa fs spec q a s) st = fst (create_agent dr others fa fs spec q a s st)"
| "run_plane dr others (Accept_Message a m target wakeup) st = fst (accept_message dr others a m target wakeup st)"
| "run_plane dr others (Claim_Message a m k act sess ib log) st = fst (claim_message dr others a m k act sess ib log st)"
| "run_plane dr others (Complete_Claim a c turn reason) st = fst (complete_claim dr others a c turn reason st)"
| "run_plane dr others (Fail_Claim a c code) st = fst (fail_claim dr others a c code st)"
| "run_plane dr others (Cancel_Claim a c reason) st = fst (cancel_claim dr others a c reason st)"

text \<open>
  The identifiers a command draws for itself: the registrar and the Supervisor take them from
  \<open>uuid4\<close>, so they are well formed, and a new claim has an identity no claim of the log has.
  The claim operation takes its identity as an argument and does not check it, so this is a
  condition on its caller; \<open>claim_identity_breaks_delivery\<close> shows what happens without it.
\<close>

fun draws_fresh :: "plane_command \<Rightarrow> event_store \<Rightarrow> bool" where
  "draws_fresh (Create_Agent fa fs _ _ _ _) st = (ident_ok fa \<and> ident_ok fs)"
| "draws_fresh (Claim_Message a _ k _ _ _ _) st =
     (case load_inbox st a of Inl _ \<Rightarrow> True
      | Inr ib \<Rightarrow> (case load_delivery st a ib of Inl _ \<Rightarrow> True | Inr log \<Rightarrow> k \<notin> mc_claim_id ` set (adl_claims log)))"
| "draws_fresh _ st = True"

text \<open>
  A history lists the states of the log, the latest first. A command has read the log in any state
  of the history, and acts on the latest; if it has written nothing, the log stays as it is. So the
  appends of concurrent commands may follow one another in any order, each at any distance from
  the read it was decided on.
\<close>

definition settled :: "event_store \<Rightarrow> event_store \<Rightarrow> event_store \<Rightarrow> event_store" where
  "settled read now st = (if st = read then now else st)"

inductive plane_history :: "event_store list \<Rightarrow> bool" where
  empty_log: "plane_history [empty_store]"
| command: "plane_history (now # past) \<Longrightarrow> read \<in> set (now # past) \<Longrightarrow> draws_fresh cmd read
    \<Longrightarrow> plane_history (settled read now (run_plane dr (\<lambda>_. now) cmd read) # now # past)"

section \<open>Consistency\<close>

definition agent_ok :: "event_store \<Rightarrow> agent_directory \<Rightarrow> pystr \<Rightarrow> bool" where
  "agent_ok st d a \<longleftrightarrow> (\<exists>ib log. rebuild_inbox (stream_of st (inbox_stream a)) a = Inr ib \<and>
     rebuild_delivery_log (stream_of st (delivery_stream a)) a ib = Inr log \<and>
     (ib_messages ib \<noteq> [] \<longrightarrow> directory_get d a \<noteq> None))"

definition plane_ok :: "event_store \<Rightarrow> bool" where
  "plane_ok st \<longleftrightarrow> store_ok st \<and> (\<exists>d. rebuild_directory (stream_of st AGENT_DIRECTORY_STREAM) = Inr d \<and>
     (\<forall>a. ident_ok a \<longrightarrow> agent_ok st d a))"

lemma plane_ok_empty: "plane_ok empty_store"
proof -
  have s: "stream_of empty_store sid = []" for sid by (simp add: stream_of_def empty_store_def)
  have "is_ok (rebuild_directory [])" by code_simp
  moreover have "agent_ok empty_store d a" if "ident_ok a" for d a
    using that by (auto simp: agent_ok_def s rebuild_inbox_Inr rebuild_delivery_log_Inr inbox_spec_def make_inbox_def
        empty_delivery_scan_def)
  ultimately show ?thesis by (auto simp: plane_ok_def is_ok_iff store_ok_empty s)
qed

lemma plane_ok_cong: "store_ok st' \<Longrightarrow> (\<And>sid. stream_of st' sid = stream_of st sid) \<Longrightarrow> plane_ok st \<Longrightarrow> plane_ok st'"
  by (simp add: plane_ok_def agent_ok_def)

lemma agent_ok_cong:
  assumes "agent_ok st d a" "stream_of st' (inbox_stream a) = stream_of st (inbox_stream a)"
    "stream_of st' (delivery_stream a) = stream_of st (delivery_stream a)" and "directory_get d a \<noteq> None \<Longrightarrow> directory_get d' a \<noteq> None"
  shows "agent_ok st' d' a"
  using assms unfolding agent_ok_def by auto

text \<open>
  One appended fact keeps the plane consistent: a directory that only grows, an Inbox whose new
  message leaves the meaning of the delivery log alone, a delivery log accepted for its Inbox.
\<close>

lemma plane_ok_directory:
  assumes ok: "plane_ok st" and st': "store_ok st'"
      "\<And>sid. stream_of st' sid = (if sid = AGENT_DIRECTORY_STREAM then stream_of st sid @ [ev] else stream_of st sid)"
    and d': "rebuild_directory (stream_of st' AGENT_DIRECTORY_STREAM) = Inr d'"
  shows "plane_ok st'"
proof -
  obtain d where d: "rebuild_directory (stream_of st AGENT_DIRECTORY_STREAM) = Inr d" "\<And>a. ident_ok a \<Longrightarrow> agent_ok st d a"
    using ok by (auto simp: plane_ok_def)
  have grow: "directory_get d' a \<noteq> None" if "directory_get d a \<noteq> None" for a
    using directory_grows[of "stream_of st AGENT_DIRECTORY_STREAM" "[ev]" d'] d(1) d' that by (auto simp: st'(2))
  have "agent_ok st' d' a" if "ident_ok a" for a
    using agent_ok_cong[OF d(2)[OF that], of st' d'] grow by (simp add: st'(2))
  then show ?thesis using st'(1) d' by (auto simp: plane_ok_def)
qed

lemma plane_ok_inbox:
  assumes ok: "plane_ok st" and st': "store_ok st'"
      "\<And>sid. stream_of st' sid = (if sid = inbox_stream a then stream_of st sid @ [ev] else stream_of st sid)"
    and ib': "rebuild_inbox (stream_of st' (inbox_stream a)) a = Inr ib'"
    and known: "rebuild_directory (stream_of st AGENT_DIRECTORY_STREAM) = Inr d" "directory_get d a \<noteq> None"
  shows "plane_ok st'"
proof -
  have each: "agent_ok st d b" if "ident_ok b" for b using ok known(1) that by (auto simp: plane_ok_def)
  have a: "ident_ok a" using ib' by (simp add: rebuild_inbox_Inr)
  obtain ib log where v: "rebuild_inbox (stream_of st (inbox_stream a)) a = Inr ib"
      "rebuild_delivery_log (stream_of st (delivery_stream a)) a ib = Inr log"
    using each[OF a] by (auto simp: agent_ok_def)
  obtain ms where "ib_messages ib' = ib_messages ib @ ms"
    using inbox_grows[of "stream_of st (inbox_stream a)" "[ev]" a ib'] ib' v(1) by (auto simp: st'(2))
  then have "rebuild_delivery_log (stream_of st (delivery_stream a)) a ib' = Inr log"
    using rebuild_delivery_more[OF v(2) rebuild_inbox_ok[OF v(1)] rebuild_inbox_ok[OF ib']] v(1) ib'
    by (auto simp: rebuild_inbox_Inr make_inbox_def)
  then have "agent_ok st' d a" using ib' known(2) by (auto simp: agent_ok_def st'(2))
  moreover have "agent_ok st' d b" if "ident_ok b" "b \<noteq> a" for b
    using agent_ok_cong[OF each[OF that(1)], of st' d] that(2) by (simp add: st'(2))
  ultimately have "agent_ok st' d b" if "ident_ok b" for b using that by (cases "b = a") simp_all
  then show ?thesis using st' known(1) by (auto simp: plane_ok_def)
qed

lemma plane_ok_delivery:
  assumes ok: "plane_ok st" and st': "store_ok st'"
      "\<And>sid. stream_of st' sid = (if sid = delivery_stream a then stream_of st sid @ [ev] else stream_of st sid)"
    and before: "rebuild_inbox es a = Inr ib0" "stream_of st (inbox_stream a) = es @ later"
    and log': "rebuild_delivery_log (stream_of st' (delivery_stream a)) a ib0 = Inr log'"
  shows "plane_ok st'"
proof -
  obtain d where d: "rebuild_directory (stream_of st AGENT_DIRECTORY_STREAM) = Inr d" and each: "\<And>b. ident_ok b \<Longrightarrow> agent_ok st d b"
    using ok by (auto simp: plane_ok_def)
  have a: "ident_ok a" using before(1) by (simp add: rebuild_inbox_Inr)
  obtain ib where ib: "rebuild_inbox (es @ later) a = Inr ib" "ib_messages ib \<noteq> [] \<longrightarrow> directory_get d a \<noteq> None"
    using each[OF a] by (auto simp: agent_ok_def before(2))
  obtain ms where "ib_messages ib = ib_messages ib0 @ ms" using inbox_grows[OF ib(1)] before(1) by auto
  then have "rebuild_delivery_log (stream_of st' (delivery_stream a)) a ib = Inr log'"
    using rebuild_delivery_more[OF log' rebuild_inbox_ok[OF before(1)] rebuild_inbox_ok[OF ib(1)]] before(1) ib(1)
    by (auto simp: rebuild_inbox_Inr make_inbox_def)
  then have "agent_ok st' d a" using ib before(2) by (auto simp: agent_ok_def st'(2))
  moreover have "agent_ok st' d b" if "ident_ok b" "b \<noteq> a" for b
    using agent_ok_cong[OF each[OF that(1)], of st' d] that(2) by (simp add: st'(2))
  ultimately have "agent_ok st' d b" if "ident_ok b" for b using that by (cases "b = a") simp_all
  then show ?thesis using st' d by (auto simp: plane_ok_def)
qed

section \<open>Every command keeps the plane consistent\<close>

definition kept :: "event_store \<Rightarrow> event_store \<Rightarrow> event_store \<Rightarrow> bool" where
  "kept read moved st \<longleftrightarrow> plane_ok st \<and> (st = read \<or> extends moved st)"

lemma kept_unchanged: "plane_ok read \<Longrightarrow> kept read moved read"
  by (simp add: kept_def)

lemma kept_won:
  "plane_ok st1 \<Longrightarrow> store_ok st1 \<Longrightarrow>
    (\<And>sid. stream_of st1 sid = (if sid = s then stream_of moved sid @ [ev] else stream_of moved sid)) \<Longrightarrow> kept read moved st1"
  by (auto simp: kept_def extends_def)

lemma kept_lost:
  "plane_ok moved \<Longrightarrow> store_ok st1 \<Longrightarrow> (\<And>sid. stream_of st1 sid = stream_of moved sid) \<Longrightarrow> kept read moved st1"
  using plane_ok_cong by (auto simp: kept_def extends_def)

lemma kept_delivery:
  assumes ok: "plane_ok read" "plane_ok moved" "extends read moved" and ib: "load_inbox read a = Inr dib"
    and same: "stream_of moved (delivery_stream a) = stream_of read (delivery_stream a)"
    and st1: "\<And>sid. stream_of st1 sid = (if sid = delivery_stream a then stream_of read (delivery_stream a) @ [ev] else stream_of moved sid)"
      "store_ok st1"
    and log: "rebuild_delivery_log (stream_of st1 (delivery_stream a)) a dib = Inr log'"
  shows "kept read moved st1"
proof -
  obtain later where "stream_of moved (inbox_stream a) = stream_of read (inbox_stream a) @ later" using ok(3) by (auto simp: extends_def)
  moreover have "rebuild_inbox (stream_of read (inbox_stream a)) a = Inr dib" using ib ok(1) by (simp add: plane_ok_def load_inbox_Inr)
  moreover have "stream_of st1 sid = (if sid = delivery_stream a then stream_of moved sid @ [ev] else stream_of moved sid)" for sid
    using st1(1) same by simp
  note whole = this
  have "plane_ok st1" using plane_ok_delivery[OF ok(2) st1(2) whole] log calculation(1,2) by blast
  then show ?thesis using kept_won[OF _ st1(2) whole] by blast
qed

lemma kept_end_claim:
  assumes ok: "plane_ok read" "plane_ok moved" "extends read moved"
    and f: "fact_data f = Inr data" "df_agent_id f = a" "df_message_id f = mc_message_id c" "df_claim_id f = mc_claim_id c" "\<not> is_claimed_fact f"
    and run: "end_claim dr (\<lambda>_. moved) a c (fact_type f) data read = (st1, x)"
  shows "kept read moved st1"
proof -
  have st: "store_ok read" using ok(1) by (simp add: plane_ok_def)
  show ?thesis
  proof (cases rule: end_claim_effect[where others = "\<lambda>_. moved", OF st ok(3) f run, case_names unchanged won lost])
    case unchanged
    then show ?thesis using kept_unchanged[OF ok(1)] by simp
  next
    case (won dib log' ev)
    then show ?thesis using kept_delivery[OF ok won(1-3) won(5,4)] by simp
  qed (use kept_lost[OF ok(2)] in blast)
qed

lemma kept_ended:
  assumes ok: "plane_ok read" "plane_ok moved" "extends read moved"
    and f: "df_agent_id f = a" "df_message_id f = mc_message_id c" "df_claim_id f = mc_claim_id c" "\<not> is_claimed_fact f"
    and run: "abind (lift_result (fact_data f)) (end_claim dr (\<lambda>_. moved) a c (fact_type f)) read = (st1, x)"
  shows "kept read moved st1"
  using run
proof (cases rule: abind_liftE)
  case (go data)
  then show ?thesis using kept_end_claim[OF ok go(1) f] by blast
qed (use kept_unchanged[OF ok(1)] in simp)

lemma kept_create:
  assumes ok: "plane_ok read" "plane_ok moved" "extends read moved" and fresh: "ident_ok fa" "ident_ok fs"
    and run: "create_agent dr (\<lambda>_. moved) fa fs spec q a s read = (st1, x)"
  shows "kept read moved st1"
proof -
  obtain d where st: "store_ok read" "load_directory read = Inr d" using ok(1) by (auto simp: plane_ok_def load_directory_Inr)
  show ?thesis
  proof (cases rule: create_agent_effect[where others = "\<lambda>_. moved", OF st ok(3) fresh run, case_names unchanged won lost])
    case unchanged
    then show ?thesis using kept_unchanged[OF ok(1)] by simp
  next
    case (won r d' ev)
    have "stream_of st1 sid = (if sid = AGENT_DIRECTORY_STREAM then stream_of moved sid @ [ev] else stream_of moved sid)" for sid
      using won(2,3) by simp
    then show ?thesis using plane_ok_directory[OF ok(2) won(7)] won(4) kept_won[OF _ won(7)] by blast
  qed (use kept_lost[OF ok(2)] in blast)
qed

lemma kept_accept:
  assumes ok: "plane_ok read" "plane_ok moved" "extends read moved"
    and run: "accept_message dr (\<lambda>_. moved) a m target wakeup read = (st1, x)"
  shows "kept read moved st1"
proof -
  have st: "store_ok read" using ok(1) by (simp add: plane_ok_def)
  show ?thesis
  proof (cases rule: accept_message_effect[where others = "\<lambda>_. moved", OF st ok(3) run, case_names unchanged won lost])
    case unchanged
    then show ?thesis using kept_unchanged[OF ok(1)] by simp
  next
    case (won d ib ib' m' ev)
    obtain later where l: "stream_of moved AGENT_DIRECTORY_STREAM = stream_of read AGENT_DIRECTORY_STREAM @ later"
      using ok(3) by (auto simp: extends_def)
    obtain d2 where d2: "rebuild_directory (stream_of moved AGENT_DIRECTORY_STREAM) = Inr d2" using ok(2) by (auto simp: plane_ok_def)
    have "directory_get d2 a \<noteq> None"
      using directory_grows[OF d2[unfolded l]] won(1,2) st by (auto simp: load_directory_Inr)
    moreover have "stream_of st1 sid = (if sid = inbox_stream a then stream_of moved sid @ [ev] else stream_of moved sid)" for sid
      using won(5,6) by simp
    ultimately show ?thesis using plane_ok_inbox[OF ok(2) won(10) _ won(7) d2] kept_won[OF _ won(10)] by blast
  qed (use kept_lost[OF ok(2)] in blast)
qed

lemma kept_claim:
  assumes ok: "plane_ok read" "plane_ok moved" "extends read moved" and fresh: "draws_fresh (Claim_Message a m k act sess ib log) read"
    and run: "claim_message dr (\<lambda>_. moved) a m k act sess ib log read = (st1, x)"
  shows "kept read moved st1"
proof -
  have st: "store_ok read" using ok(1) by (simp add: plane_ok_def)
  have new: "k \<notin> mc_claim_id ` set (adl_claims dlog)" if "load_inbox read a = Inr dib" "load_delivery read a dib = Inr dlog" for dib dlog
    using fresh that by simp
  show ?thesis
  proof (cases rule: claim_message_effect[where others = "\<lambda>_. moved", OF st ok(3) new run, case_names _ _ unchanged won lost])
    case unchanged
    then show ?thesis using kept_unchanged[OF ok(1)] by simp
  next
    case (won dib log' ev)
    then show ?thesis using kept_delivery[OF ok won(1-3) won(5,4)] by simp
  qed (use kept_lost[OF ok(2)] in blast)+
qed

lemma run_plane_kept:
  assumes ok: "plane_ok read" "plane_ok moved" "extends read moved" and fresh: "draws_fresh cmd read"
  shows "kept read moved (run_plane dr (\<lambda>_. moved) cmd read)"
proof (cases cmd)
  case (Create_Agent fa fs spec q a s)
  then show ?thesis using kept_create[OF ok, of fa fs] fresh by (auto simp: prod_eq_iff)
next
  case (Accept_Message a m target wakeup)
  then show ?thesis using kept_accept[OF ok] by (simp add: prod_eq_iff)
next
  case (Claim_Message a m k act sess ib log)
  then show ?thesis using kept_claim[OF ok] fresh by (simp add: prod_eq_iff)
next
  case (Complete_Claim a c turn reason)
  then show ?thesis using kept_ended[OF ok, of "Completed_Fact a (mc_message_id c) (mc_claim_id c) turn reason"]
    by (simp add: complete_claim_def prod_eq_iff)
next
  case (Fail_Claim a c code)
  then show ?thesis using kept_ended[OF ok, of "Failed_Fact a (mc_message_id c) (mc_claim_id c) code"]
    by (simp add: fail_claim_def prod_eq_iff)
next
  case (Cancel_Claim a c reason)
  then show ?thesis using kept_ended[OF ok, of "Cancelled_Fact a (mc_message_id c) (mc_claim_id c) reason"]
    by (simp add: cancel_claim_def prod_eq_iff)
qed

lemma history_step:
  assumes past: "\<And>st. st \<in> set (now # past) \<Longrightarrow> plane_ok st \<and> extends st now" and read: "read \<in> set (now # past)"
    and k: "kept read now st1"
  shows "plane_ok (settled read now st1) \<and> extends now (settled read now st1)"
proof (cases "st1 = read")
  case True
  then show ?thesis using past[of now] by (simp add: settled_def)
next
  case False
  then show ?thesis using k by (simp add: settled_def kept_def)
qed

lemma plane_history_ok: "plane_history h \<Longrightarrow> st \<in> set h \<Longrightarrow> plane_ok st \<and> extends st (hd h)"
proof (induction h arbitrary: st rule: plane_history.induct)
  case empty_log
  then show ?case using plane_ok_empty extends_refl by (auto simp: plane_ok_def)
next
  case (command now past read cmd dr)
  let ?next = "settled read now (run_plane dr (\<lambda>_. now) cmd read)"
  have past: "plane_ok x \<and> extends x now" if "x \<in> set (now # past)" for x using command.IH[OF that] by simp
  have "kept read now (run_plane dr (\<lambda>_. now) cmd read)"
    using run_plane_kept[of read now cmd dr] past[of now] past[OF command(2)] command(3) by simp
  from history_step[OF past command(2) this] have ok: "plane_ok ?next" "extends now ?next" by blast+
  show ?case
  proof (cases "st = ?next")
    case True
    have "store_ok ?next" using ok(1) by (simp add: plane_ok_def)
    then show ?thesis using ok(1) extends_refl by (simp add: True)
  next
    case False
    then have "st \<in> set (now # past)" using command.prems by simp
    then show ?thesis using past[of st] extends_trans[OF _ ok(2)] by simp
  qed
qed

section \<open>Properties\<close>

text \<open>
  C22: the control plane stays readable. Creations, acceptances, claims and endings run from the
  empty log, each deciding on the log of any earlier moment and appending to the log as it then is,
  in any order; the identities they draw are well formed, and that of a new claim is unused in the
  log it has read. Then every state of the log is extended by every later one and accepted by
  every projector: the directory rebuilds, each Agent's Inbox and delivery log rebuild, and every
  Inbox with a message belongs to a recorded Agent.
\<close>

theorem control_plane_readable:
  assumes "plane_history h" and "st \<in> set h" and "ident_ok a"
  shows "extends st (hd h) \<and> (\<exists>d ib log. load_directory st = Inr d \<and> load_inbox st a = Inr ib \<and> load_delivery st a ib = Inr log \<and>
    (ib_messages ib \<noteq> [] \<longrightarrow> directory_get d a \<noteq> None))"
proof -
  have ok: "plane_ok st" "extends st (hd h)" using plane_history_ok[OF assms(1,2)] by blast+
  then have "store_ok st" by (simp add: plane_ok_def)
  then show ?thesis using ok assms(3) by (auto simp: plane_ok_def agent_ok_def load_directory_Inr load_inbox_Inr load_delivery_Inr)
qed

text \<open>
  Two creations read the empty log and the second to append is refused; a message is accepted for
  the Agent created; a third creation, which had read the log before all this, is refused as well.
\<close>

definition created_plane :: event_store where
  "created_plane = settled empty_store empty_store (run_plane (\<lambda>n. (n, sample_time)) (\<lambda>_. empty_store)
     (Create_Agent (lit ''u1'') (lit ''u2'') (sample_spec\<lparr>spec_owner_agent_id := None\<rparr>) (lit ''r1'') None None) empty_store)"

definition raced_plane :: event_store where
  "raced_plane = settled empty_store created_plane (run_plane (\<lambda>n. (n, sample_time)) (\<lambda>_. created_plane)
     (Create_Agent (lit ''u3'') (lit ''u4'') (sample_spec\<lparr>spec_owner_agent_id := None\<rparr>) (lit ''r2'') None None) empty_store)"

definition accepted_plane :: event_store where
  "accepted_plane = settled created_plane raced_plane (run_plane (\<lambda>n. (n, sample_time)) (\<lambda>_. raced_plane)
     (Accept_Message (lit ''u1'') sample_message NEW_TURN True) created_plane)"

definition late_plane :: event_store where
  "late_plane = settled empty_store accepted_plane (run_plane (\<lambda>n. (n, sample_time)) (\<lambda>_. accepted_plane)
     (Create_Agent (lit ''u5'') (lit ''u6'') (sample_spec\<lparr>spec_owner_agent_id := None\<rparr>) (lit ''r3'') None None) empty_store)"

lemma sample_history: "plane_history [late_plane, accepted_plane, raced_plane, created_plane, empty_store]"
proof -
  have fresh: "draws_fresh (Create_Agent (lit ''u1'') (lit ''u2'') spec q a s) st" "draws_fresh (Create_Agent (lit ''u3'') (lit ''u4'') spec q a s) st"
    "draws_fresh (Create_Agent (lit ''u5'') (lit ''u6'') spec q a s) st" for spec q a s st by code_simp+
  have "plane_history [created_plane, empty_store]" unfolding created_plane_def
    by (rule plane_history.command[OF plane_history.empty_log]) (simp_all only: fresh list.set_intros)
  then have "plane_history [raced_plane, created_plane, empty_store]" unfolding raced_plane_def
    by (rule plane_history.command) (simp_all only: fresh, simp)
  then have "plane_history [accepted_plane, raced_plane, created_plane, empty_store]" unfolding accepted_plane_def
    by (rule plane_history.command) simp_all
  then show ?thesis unfolding late_plane_def
    by (rule plane_history.command) (simp_all only: fresh, simp)
qed

theorem control_plane_readable_witness:
  "extends accepted_plane late_plane \<and>
   (\<exists>d ib log. load_directory accepted_plane = Inr d \<and> load_inbox accepted_plane (lit ''u1'') = Inr ib \<and>
     load_delivery accepted_plane (lit ''u1'') ib = Inr log \<and> length (ib_messages ib) = 1 \<and> directory_get d (lit ''u1'') \<noteq> None)"
proof -
  have "ident_ok (lit ''u1'')" by code_simp
  then have v: "extends accepted_plane late_plane \<and> (\<exists>d ib log. load_directory accepted_plane = Inr d \<and>
      load_inbox accepted_plane (lit ''u1'') = Inr ib \<and> load_delivery accepted_plane (lit ''u1'') ib = Inr log \<and>
      (ib_messages ib \<noteq> [] \<longrightarrow> directory_get d (lit ''u1'') \<noteq> None))"
    using control_plane_readable[OF sample_history, of accepted_plane] by simp
  have "length (ib_messages (projr (load_inbox accepted_plane (lit ''u1'')))) = 1" by code_simp
  then show ?thesis using v by auto
qed

end
