(* ===== verification/Workflow_Models.thy ===== *)
theory Workflow_Models imports Agent_Identity begin

text \<open>
  The fixed workflow DAG (api/workflow.py, workflow/models.py): the five node kinds, the
  validation that freezes a definition before anything runs, and the identities derived from a
  run and a definition. The values of a definition have the types of its dataclasses, so the
  checks on the Python type of a value (a list where a tuple is due, an integer where a boolean
  is due) have no branch here. SHA-256 is the argument \<open>sha\<close>.
\<close>

section \<open>Values\<close>

datatype workflow_node_kind = AGENT_TASK | MAP | JOIN | VERIFICATION | APPROVAL

definition node_kind_value :: "workflow_node_kind \<Rightarrow> string" where
  "node_kind_value k = (case k of AGENT_TASK \<Rightarrow> ''agent_task'' | MAP \<Rightarrow> ''map'' | JOIN \<Rightarrow> ''join''
     | VERIFICATION \<Rightarrow> ''verification'' | APPROVAL \<Rightarrow> ''approval'')"

datatype workflow_status = Workflow_Running | Workflow_Awaiting_Approval | Workflow_Completed | Workflow_Failed

datatype node_status = Node_Pending | Node_Running | Node_Completed | Node_Failed

definition node_status_value :: "node_status \<Rightarrow> string" where
  "node_status_value s = (case s of Node_Pending \<Rightarrow> ''pending'' | Node_Running \<Rightarrow> ''running''
     | Node_Completed \<Rightarrow> ''completed'' | Node_Failed \<Rightarrow> ''failed'')"

datatype workflow_node =
    AgentTaskNode (node_id: pystr) (predecessors: "pystr list") (spec_binding: pystr) (message_binding: pystr) (capture_artifact: bool)
  | MapNode (node_id: pystr) (predecessors: "pystr list") (keys_binding: pystr) (child_spec_binding: pystr)
      (child_message_binding: pystr) (max_fan_out: int) (capture_artifact: bool)
  | JoinNode (node_id: pystr) (predecessors: "pystr list")
  | VerificationNode (node_id: pystr) (predecessors: "pystr list") (artifact_node_id: pystr) (target_id: pystr)
  | ApprovalNode (node_id: pystr) (predecessors: "pystr list") (review_node_id: pystr)

fun node_kind :: "workflow_node \<Rightarrow> workflow_node_kind" where
  "node_kind (AgentTaskNode _ _ _ _ _) = AGENT_TASK"
| "node_kind (MapNode _ _ _ _ _ _ _) = MAP"
| "node_kind (JoinNode _ _) = JOIN"
| "node_kind (VerificationNode _ _ _ _) = VERIFICATION"
| "node_kind (ApprovalNode _ _ _) = APPROVAL"

record workflow_definition =
  wd_definition_id :: pystr
  wd_nodes :: "workflow_node list"

record node_outcome =
  no_node_id :: pystr
  no_kind :: workflow_node_kind
  no_status :: node_status
  no_agent_id :: "pystr option"
  no_message_id :: "pystr option"
  no_artifact_id :: "pystr option"
  no_review_id :: "pystr option"
  no_approval_digest :: "pystr option"
  no_map_keys :: "pystr list"
  no_failure_code :: "pystr option"

record workflow_run =
  wr_run_id :: pystr
  wr_definition_id :: pystr
  wr_definition_hash :: pystr
  wr_status :: workflow_status
  wr_outcomes :: "node_outcome list"
  wr_awaiting_approval :: "pystr list"
  wr_failure_code :: "pystr option"
  wr_head_seq :: int

definition WORKFLOW_PROTOCOL_VERSION :: int where
  "WORKFLOW_PROTOCOL_VERSION = 1"

definition MAX_NODES :: int where
  "MAX_NODES = 256"

definition MAX_PREDECESSORS :: int where
  "MAX_PREDECESSORS = 32"

definition MAX_FAN_OUT :: int where
  "MAX_FAN_OUT = 64"

definition MAX_MAP_KEY_LENGTH :: int where
  "MAX_MAP_KEY_LENGTH = 256"

section \<open>Checks on values\<close>

definition require_workflow_identifier :: "pystr \<Rightarrow> string \<Rightarrow> pystr result" where
  "require_workflow_identifier value field =
     (if is_agent_identifier (JStr value) then Inr value
      else Inl (WorkflowInputError ''workflow-identity-invalid'' field))"

definition require_bounded_int :: "int \<Rightarrow> int \<Rightarrow> int \<Rightarrow> string \<Rightarrow> int result" where
  "require_bounded_int value minimum maximum field =
     (if value < minimum \<or> maximum < value then Inl (WorkflowInputError (''workflow-'' @ field @ ''-invalid'') field)
      else Inr value)"

definition map_key_ok :: "pystr \<Rightarrow> bool" where
  "map_key_ok item \<longleftrightarrow> item \<noteq> [] \<and> item = py_strip item \<and> py_len item \<le> MAX_MAP_KEY_LENGTH \<and> ident_ok item"

fun check_map_keys :: "pystr list \<Rightarrow> pystr list \<Rightarrow> unit result" where
  "check_map_keys seen [] = Inr ()"
| "check_map_keys seen (item # items) =
     (if \<not> map_key_ok item then Inl (WorkflowInputError ''workflow-map-keys-invalid'' ''map_keys'')
      else if item \<in> set seen then Inl (WorkflowInputError ''workflow-map-keys-duplicate'' ''map_keys'')
      else check_map_keys (item # seen) items)"

definition freeze_map_keys :: "pystr list \<Rightarrow> int \<Rightarrow> pystr list result" where
  "freeze_map_keys value limit =
     (if value = [] then Inl (WorkflowInputError ''workflow-map-keys-empty'' ''map_keys'')
      else if limit < int (length value) then Inl (WorkflowInputError ''workflow-map-fan-out-exceeded'' ''map_keys'')
      else rbind (check_map_keys [] value) (\<lambda>_. Inr (sort value)))"

lemma require_workflow_identifier_Inr [result_simps]:
  "require_workflow_identifier s f = Inr t \<longleftrightarrow> t = s \<and> ident_ok s"
  by (auto simp: require_workflow_identifier_def)

lemma check_map_keys_Inr:
  "check_map_keys seen items = Inr u \<longleftrightarrow> list_all map_key_ok items \<and> distinct items \<and> set items \<inter> set seen = {}"
  by (induction seen items rule: check_map_keys.induct) auto

lemma freeze_map_keys_Inr:
  "freeze_map_keys value limit = Inr keys \<longleftrightarrow>
     keys = sort value \<and> value \<noteq> [] \<and> int (length value) \<le> limit \<and> list_all map_key_ok value \<and> distinct value"
  by (auto simp: freeze_map_keys_def check_map_keys_Inr result_simps)

section \<open>Freezing a definition\<close>

definition freeze_node_fields :: "workflow_node \<Rightarrow> unit result" where
  "freeze_node_fields node = (case node of
     AgentTaskNode _ _ spec message _ \<Rightarrow>
       rbind (require_workflow_identifier spec ''spec_binding'') (\<lambda>_.
       rbind (require_workflow_identifier message ''message_binding'') (\<lambda>_. Inr ()))
   | MapNode _ _ keys spec message fan_out _ \<Rightarrow>
       rbind (require_workflow_identifier keys ''keys_binding'') (\<lambda>_.
       rbind (require_workflow_identifier spec ''spec_binding'') (\<lambda>_.
       rbind (require_workflow_identifier message ''message_binding'') (\<lambda>_.
       rbind (require_bounded_int fan_out 1 MAX_FAN_OUT ''fan-out'') (\<lambda>_. Inr ()))))
   | JoinNode _ _ \<Rightarrow> Inr ()
   | VerificationNode _ _ artifact target \<Rightarrow>
       rbind (require_workflow_identifier artifact ''artifact_node_id'') (\<lambda>_.
       rbind (require_workflow_identifier target ''target_id'') (\<lambda>_. Inr ()))
   | ApprovalNode _ _ review \<Rightarrow> rbind (require_workflow_identifier review ''review_node_id'') (\<lambda>_. Inr ()))"

fun check_predecessors :: "pystr \<Rightarrow> pystr list \<Rightarrow> pystr list \<Rightarrow> unit result" where
  "check_predecessors node seen [] = Inr ()"
| "check_predecessors node seen (predecessor # rest) =
     rbind (require_workflow_identifier predecessor ''predecessor'') (\<lambda>_.
       if predecessor = node then Inl (WorkflowDefinitionError ''workflow-node-self-edge'' (Some node))
       else if predecessor \<in> set seen
       then Inl (WorkflowDefinitionError ''workflow-node-predecessor-duplicate'' (Some node))
       else check_predecessors node (predecessor # seen) rest)"

type_synonym node_index = "(pystr, workflow_node) dict"

fun freeze_nodes :: "node_index \<Rightarrow> workflow_node list \<Rightarrow> node_index result" where
  "freeze_nodes by_id [] = Inr by_id"
| "freeze_nodes by_id (node # nodes) =
     rbind (require_workflow_identifier (node_id node) ''node_id'') (\<lambda>name.
       if dict_has name by_id then Inl (WorkflowDefinitionError ''workflow-node-duplicate'' (Some name))
       else if MAX_PREDECESSORS < int (length (predecessors node))
       then Inl (WorkflowDefinitionError ''workflow-node-predecessors-exceeded'' (Some name))
       else rbind (check_predecessors name [] (predecessors node)) (\<lambda>_.
         rbind (freeze_node_fields node) (\<lambda>_. freeze_nodes (dict_set name node by_id) nodes)))"

text \<open>
  \<open>_reaches\<close> walks the predecessors backwards from the target. Its stack is a list with the top
  first. Every round pops an entry; one that pushes takes a node for the last time.
\<close>

function reaches_from :: "node_index \<Rightarrow> pystr \<Rightarrow> pystr list \<Rightarrow> pystr list \<Rightarrow> bool" where
  "reaches_from by_id source [] seen = False"
| "reaches_from by_id source (current # todo) seen =
     (if current \<in> set seen then reaches_from by_id source todo seen
      else case map_of by_id current of
        None \<Rightarrow> reaches_from by_id source todo (current # seen)
      | Some node \<Rightarrow>
          (if source \<in> set (predecessors node) then True
           else reaches_from by_id source (rev (predecessors node) @ todo) (current # seen)))"
  by pat_completeness auto
termination
proof (relation "measure (\<lambda>(by_id, source, todo, seen). length todo + unseen_weight predecessors by_id (set seen))", goal_cases)
  case (3 by_id source current todo seen)
  then show ?case using unseen_weight_mono[of predecessors by_id current "set seen"] by simp
next
  case (4 by_id source current todo seen node)
  then show ?case using unseen_weight_insert[of by_id current node "set seen" predecessors] by simp
qed auto

definition reaches :: "node_index \<Rightarrow> pystr \<Rightarrow> pystr \<Rightarrow> bool" where
  "reaches by_id source target = reaches_from by_id source [target] []"

definition reference_of :: "workflow_node \<Rightarrow> (pystr \<times> workflow_node_kind) option" where
  "reference_of node = (case node of
     VerificationNode _ _ artifact _ \<Rightarrow> Some (artifact, AGENT_TASK)
   | ApprovalNode _ _ review \<Rightarrow> Some (review, VERIFICATION)
   | _ \<Rightarrow> None)"

definition require_reference :: "workflow_node \<Rightarrow> node_index \<Rightarrow> unit result" where
  "require_reference node by_id = (case reference_of node of
     None \<Rightarrow> Inr ()
   | Some (referenced, expected) \<Rightarrow>
       (if (case map_of by_id referenced of None \<Rightarrow> True | Some target \<Rightarrow> node_kind target \<noteq> expected)
        then Inl (WorkflowDefinitionError ''workflow-node-reference-invalid'' (Some (node_id node)))
        else raise_if (\<not> reaches by_id referenced (node_id node))
          (WorkflowDefinitionError ''workflow-node-reference-unordered'' (Some (node_id node)))))"

fun check_known :: "node_index \<Rightarrow> pystr \<Rightarrow> pystr list \<Rightarrow> unit result" where
  "check_known by_id node [] = Inr ()"
| "check_known by_id node (predecessor # rest) =
     (if \<not> dict_has predecessor by_id then Inl (WorkflowDefinitionError ''workflow-node-predecessor-unknown'' (Some node))
      else check_known by_id node rest)"

fun check_edges :: "node_index \<Rightarrow> workflow_node list \<Rightarrow> unit result" where
  "check_edges by_id [] = Inr ()"
| "check_edges by_id (node # nodes) =
     rbind (check_known by_id (node_id node) (predecessors node)) (\<lambda>_.
     rbind (require_reference node by_id) (\<lambda>_. check_edges by_id nodes))"

text \<open>
  \<open>_require_acyclic\<close>: an entry of the stack with \<open>True\<close> closes a node. A node is 1 while it is
  open and 2 when it is closed.
\<close>

function acyclic_walk :: "node_index \<Rightarrow> (pystr \<times> bool) list \<Rightarrow> (pystr, int) dict \<Rightarrow> (pystr, int) dict result" where
  "acyclic_walk by_id [] state = Inr state"
| "acyclic_walk by_id ((name, leaving) # stack) state =
     (if leaving then acyclic_walk by_id stack (dict_set name 2 state)
      else if map_of state name = Some 2 then acyclic_walk by_id stack state
      else if map_of state name = Some 1 then Inl (WorkflowDefinitionError ''workflow-definition-cycle'' (Some name))
      else case map_of by_id name of
        None \<Rightarrow> Inl PyKeyError
      | Some node \<Rightarrow>
          acyclic_walk by_id (rev (map (\<lambda>p. (p, False)) (predecessors node)) @ (name, True) # stack) (dict_set name 1 state))"
  by pat_completeness auto

definition walked :: "(pystr, int) dict \<Rightarrow> pystr set" where
  "walked state = {k. map_of state k \<in> {Some 1, Some 2}}"

lemma walked_set [simp]: "v = 1 \<or> v = 2 \<Longrightarrow> walked (dict_set k v state) = insert k (walked state)"
  by (auto simp: walked_def)

termination acyclic_walk
proof (relation "measure (\<lambda>(by_id, stack, state). length stack + unseen_weight predecessors by_id (walked state))", goal_cases)
  case (2 by_id name leaving stack state)
  then show ?case using unseen_weight_mono[of predecessors by_id name "walked state"] by simp
next
  case (4 by_id name leaving stack state node)
  then have "name \<notin> walked state" by (simp add: walked_def)
  then show ?case using unseen_weight_insert[of by_id name node "walked state" predecessors] 4 by simp
qed auto

fun acyclic_starts :: "node_index \<Rightarrow> pystr list \<Rightarrow> (pystr, int) dict \<Rightarrow> unit result" where
  "acyclic_starts by_id [] state = Inr ()"
| "acyclic_starts by_id (start # starts) state =
     rbind (acyclic_walk by_id [(start, False)] state) (acyclic_starts by_id starts)"

definition require_acyclic :: "node_index \<Rightarrow> unit result" where
  "require_acyclic by_id = acyclic_starts by_id (dict_keys by_id) []"

text \<open>\<open>_require_reachable\<close> walks forwards from the roots over the lists of successors.\<close>

fun add_successors :: "pystr \<Rightarrow> pystr list \<Rightarrow> (pystr, pystr list) dict \<Rightarrow> (pystr, pystr list) dict result" where
  "add_successors name [] d = Inr d"
| "add_successors name (predecessor # rest) d =
     (case map_of d predecessor of
        None \<Rightarrow> Inl PyKeyError
      | Some names \<Rightarrow> add_successors name rest (dict_set predecessor (names @ [name]) d))"

definition successors :: "node_index \<Rightarrow> (pystr, pystr list) dict result" where
  "successors by_id =
     foldM (\<lambda>d (name, node). add_successors name (predecessors node) d) (map (\<lambda>(name, node). (name, [])) by_id) by_id"

function forward_walk :: "(pystr, pystr list) dict \<Rightarrow> pystr list \<Rightarrow> pystr list \<Rightarrow> pystr list result" where
  "forward_walk succs [] reached = Inr reached"
| "forward_walk succs (name # todo) reached =
     (if name \<in> set reached then forward_walk succs todo reached
      else case map_of succs name of
        None \<Rightarrow> Inl PyKeyError
      | Some names \<Rightarrow> forward_walk succs (rev names @ todo) (name # reached))"
  by pat_completeness auto
termination
proof (relation "measure (\<lambda>(succs, todo, reached). length todo + unseen_weight id succs (set reached))", goal_cases)
  case (3 succs name todo reached names)
  then show ?case using unseen_weight_insert[of "succs" name names "set reached" id] by simp
qed auto

definition require_reachable :: "node_index \<Rightarrow> unit result" where
  "require_reachable by_id =
     (let roots = map fst (filter (\<lambda>(name, node). predecessors node = []) by_id) in
      if roots = [] then Inl (WorkflowDefinitionError ''workflow-definition-rootless'' None)
      else rbind (successors by_id) (\<lambda>succs.
        rbind (forward_walk succs (rev roots) []) (\<lambda>reached.
          case sort (filter (\<lambda>name. name \<notin> set reached) (dict_keys by_id)) of
            [] \<Rightarrow> Inr ()
          | missing # _ \<Rightarrow> Inl (WorkflowDefinitionError ''workflow-node-unreachable'' (Some missing)))))"

definition freeze_workflow_definition :: "workflow_definition \<Rightarrow> workflow_definition result" where
  "freeze_workflow_definition d =
     rbind (require_workflow_identifier (wd_definition_id d) ''definition_id'') (\<lambda>_.
       if wd_nodes d = [] then Inl (WorkflowDefinitionError ''workflow-definition-empty'' None)
       else if MAX_NODES < int (length (wd_nodes d)) then Inl (WorkflowDefinitionError ''workflow-definition-too-large'' None)
       else rbind (freeze_nodes [] (wd_nodes d)) (\<lambda>by_id.
         rbind (check_edges by_id (wd_nodes d)) (\<lambda>_.
         rbind (require_acyclic by_id) (\<lambda>_.
         rbind (require_reachable by_id) (\<lambda>_. Inr d)))))"

section \<open>Derived identities\<close>

definition node_definition_data :: "workflow_node \<Rightarrow> payload" where
  "node_definition_data node =
     [(lit ''node_id'', JStr (node_id node)), (lit ''kind'', JStr (lit (node_kind_value (node_kind node)))),
      (lit ''predecessors'', JList (map JStr (predecessors node)))] @
     (case node of
        AgentTaskNode _ _ spec message capture \<Rightarrow>
          [(lit ''spec_binding'', JStr spec), (lit ''message_binding'', JStr message), (lit ''capture_artifact'', JBool capture)]
      | MapNode _ _ keys spec message fan_out capture \<Rightarrow>
          [(lit ''keys_binding'', JStr keys), (lit ''child_spec_binding'', JStr spec), (lit ''child_message_binding'', JStr message),
           (lit ''capture_artifact'', JBool capture), (lit ''max_fan_out'', JInt fan_out)]
      | JoinNode _ _ \<Rightarrow> []
      | VerificationNode _ _ artifact target \<Rightarrow> [(lit ''artifact_node_id'', JStr artifact), (lit ''target_id'', JStr target)]
      | ApprovalNode _ _ review \<Rightarrow> [(lit ''review_node_id'', JStr review)])"

definition workflow_definition_hash :: "(pystr \<Rightarrow> pystr) \<Rightarrow> workflow_definition \<Rightarrow> pystr result" where
  "workflow_definition_hash sha d =
     rbind (freeze_workflow_definition d) (\<lambda>d. Inr (fingerprint sha (JDict
       [(lit ''protocol'', JInt WORKFLOW_PROTOCOL_VERSION), (lit ''purpose'', JStr (lit ''workflow-definition'')),
        (lit ''definition_id'', JStr (wd_definition_id d)),
        (lit ''nodes'', JList (map (\<lambda>node. JDict (node_definition_data node)) (sort_key node_id (wd_nodes d))))])))"

definition require_optional_map_key :: "pystr option \<Rightarrow> pystr option result" where
  "require_optional_map_key map_key = (case map_key of None \<Rightarrow> Inr None
     | Some key \<Rightarrow> rbind (require_workflow_identifier key ''map_key'') (\<lambda>key. Inr (Some key)))"

definition workflow_operation_id :: "(pystr \<Rightarrow> pystr) \<Rightarrow> pystr \<Rightarrow> pystr \<Rightarrow> string \<Rightarrow> pystr option \<Rightarrow> pystr result" where
  "workflow_operation_id sha run_id node purpose map_key =
     rbind (require_workflow_identifier run_id ''run_id'') (\<lambda>run_id.
     rbind (require_workflow_identifier node ''node_id'') (\<lambda>node.
     rbind (require_workflow_identifier (lit purpose) ''purpose'') (\<lambda>purpose.
     rbind (require_optional_map_key map_key) (\<lambda>map_key.
       Inr (fingerprint sha (JDict [(lit ''protocol'', JInt WORKFLOW_PROTOCOL_VERSION), (lit ''purpose'', JStr purpose),
         (lit ''run_id'', JStr run_id), (lit ''node_id'', JStr node), (lit ''map_key'', json_opt map_key)]))))))"

record agent_identities =
  ai_agent_id :: pystr
  ai_session_id :: pystr
  ai_request_id :: pystr
  ai_message_id :: pystr

definition agent_identity :: "(pystr \<Rightarrow> pystr) \<Rightarrow> pystr \<Rightarrow> pystr \<Rightarrow> agent_identities result" where
  "agent_identity sha run_id node =
     rbind (workflow_operation_id sha run_id node ''create'' None) (\<lambda>create.
     rbind (workflow_operation_id sha run_id node ''message'' None) (\<lambda>message.
       Inr \<lparr>ai_agent_id = lit ''wf-agent-'' @ create, ai_session_id = lit ''wf-session-'' @ create,
            ai_request_id = lit ''wf-create-'' @ create, ai_message_id = lit ''wf-message-'' @ message\<rparr>))"

definition review_request_identity :: "(pystr \<Rightarrow> pystr) \<Rightarrow> pystr \<Rightarrow> pystr \<Rightarrow> pystr result" where
  "review_request_identity sha run_id node =
     rbind (workflow_operation_id sha run_id node ''review'' None) (\<lambda>review. Inr (lit ''wf-review-'' @ review))"

definition map_child_node_id :: "(pystr \<Rightarrow> pystr) \<Rightarrow> pystr \<Rightarrow> pystr \<Rightarrow> pystr result" where
  "map_child_node_id sha parent map_key =
     rbind (require_workflow_identifier parent ''node_id'') (\<lambda>parent.
     rbind (require_workflow_identifier map_key ''map_key'') (\<lambda>map_key.
       Inr (lit ''wf-child-'' @ fingerprint sha (JDict [(lit ''protocol'', JInt WORKFLOW_PROTOCOL_VERSION),
         (lit ''purpose'', JStr (lit ''workflow-map-child'')), (lit ''parent_node_id'', JStr parent), (lit ''map_key'', JStr map_key)]))))"

end
