(* ===== verification/Workflow_Events.thy ===== *)
theory Workflow_Events imports Workflow_Models begin

text \<open>
  The vocabulary of one workflow run (workflow/events.py): the payloads the service writes and
  the header and key checks that replay makes before it reads a payload. A time outside the range
  of \<open>astimezone\<close> has no branch here.
\<close>

abbreviation WORKFLOW_RUN_STARTED :: string where "WORKFLOW_RUN_STARTED \<equiv> ''workflow/run-started''"
abbreviation WORKFLOW_NODE_STARTED :: string where "WORKFLOW_NODE_STARTED \<equiv> ''workflow/node-started''"
abbreviation WORKFLOW_MAP_EXPANDED :: string where "WORKFLOW_MAP_EXPANDED \<equiv> ''workflow/map-expanded''"
abbreviation WORKFLOW_NODE_COMPLETED :: string where "WORKFLOW_NODE_COMPLETED \<equiv> ''workflow/node-completed''"
abbreviation WORKFLOW_NODE_FAILED :: string where "WORKFLOW_NODE_FAILED \<equiv> ''workflow/node-failed''"
abbreviation WORKFLOW_APPROVAL_AWAITED :: string where "WORKFLOW_APPROVAL_AWAITED \<equiv> ''workflow/approval-awaited''"
abbreviation WORKFLOW_RUN_FINISHED :: string where "WORKFLOW_RUN_FINISHED \<equiv> ''workflow/run-finished''"

definition WORKFLOW_SCHEMA_VERSION :: int where
  "WORKFLOW_SCHEMA_VERSION = 1"

definition expected_keys :: "(pystr, string list) dict" where
  "expected_keys =
     [(lit WORKFLOW_RUN_STARTED, [''run_id'', ''definition_id'', ''definition_hash'', ''workflow_protocol_version'']),
      (lit WORKFLOW_NODE_STARTED, [''node_id'', ''kind'', ''map_key'']),
      (lit WORKFLOW_MAP_EXPANDED, [''node_id'', ''map_keys'', ''child_node_ids'']),
      (lit WORKFLOW_NODE_COMPLETED,
        [''node_id'', ''kind'', ''map_key'', ''agent_id'', ''message_id'', ''artifact_id'', ''review_id'', ''approval_digest'']),
      (lit WORKFLOW_NODE_FAILED, [''node_id'', ''kind'', ''map_key'', ''failure_code'']),
      (lit WORKFLOW_APPROVAL_AWAITED, [''node_id'', ''review_id'']),
      (lit WORKFLOW_RUN_FINISHED, [''status'', ''failure_code''])]"

definition WORKFLOW_EVENT_TYPES :: "pystr list" where
  "WORKFLOW_EVENT_TYPES = map lit [WORKFLOW_RUN_STARTED, WORKFLOW_NODE_STARTED, WORKFLOW_MAP_EXPANDED, WORKFLOW_NODE_COMPLETED,
     WORKFLOW_NODE_FAILED, WORKFLOW_APPROVAL_AWAITED, WORKFLOW_RUN_FINISHED]"

section \<open>Writing\<close>

definition is_digest :: "pystr \<Rightarrow> bool" where
  \<comment> \<open>64 lower-case hexadecimal digits, so that \<open>value == value.lower()\<close> as well\<close>
  "is_digest value \<longleftrightarrow> py_len value = 64 \<and> list_all (\<lambda>c. (48 \<le> c \<and> c \<le> 57) \<or> (97 \<le> c \<and> c \<le> 102)) value"

definition invalid_code :: "string \<Rightarrow> string" where
  \<comment> \<open>\<open>"workflow-" + key.replace("_", "-") + "-invalid"\<close>\<close>
  "invalid_code key = ''workflow-'' @ map (\<lambda>c. if c = CHR ''_'' then CHR ''-'' else c) key @ ''-invalid''"

definition require_digest :: "pystr \<Rightarrow> string \<Rightarrow> pystr result" where
  "require_digest value field = (if is_digest value then Inr value else Inl (WorkflowInputError (invalid_code field) field))"

definition optional_identifier :: "pystr option \<Rightarrow> json result" where
  "optional_identifier value = (case value of None \<Rightarrow> Inr JNull
     | Some s \<Rightarrow> rbind (require_workflow_identifier s ''identity'') (\<lambda>s. Inr (JStr s)))"

definition optional_digest_value :: "pystr option \<Rightarrow> json result" where
  "optional_digest_value value = (case value of None \<Rightarrow> Inr JNull
     | Some s \<Rightarrow> rbind (require_digest s ''approval_digest'') (\<lambda>s. Inr (JStr s)))"

definition workflow_stream_id :: "pystr \<Rightarrow> pystr result" where
  "workflow_stream_id run_id = rbind (require_workflow_identifier run_id ''run_id'') (\<lambda>run_id. Inr (lit ''workflow:'' @ run_id))"

definition run_started_data :: "pystr \<Rightarrow> pystr \<Rightarrow> pystr \<Rightarrow> payload result" where
  "run_started_data run_id definition_id definition_hash =
     rbind (require_workflow_identifier run_id ''run_id'') (\<lambda>run_id.
     rbind (require_workflow_identifier definition_id ''definition_id'') (\<lambda>definition_id.
     rbind (require_digest definition_hash ''definition_hash'') (\<lambda>definition_hash.
       Inr [(lit ''run_id'', JStr run_id), (lit ''definition_id'', JStr definition_id),
            (lit ''definition_hash'', JStr definition_hash), (lit ''workflow_protocol_version'', JInt WORKFLOW_PROTOCOL_VERSION)])))"

definition node_started_data :: "pystr \<Rightarrow> workflow_node_kind \<Rightarrow> pystr option \<Rightarrow> payload result" where
  "node_started_data node kind map_key =
     rbind (require_workflow_identifier node ''node_id'') (\<lambda>node.
     rbind (optional_identifier map_key) (\<lambda>map_key.
       Inr [(lit ''node_id'', JStr node), (lit ''kind'', JStr (lit (node_kind_value kind))), (lit ''map_key'', map_key)]))"

definition map_expanded_data :: "(pystr \<Rightarrow> pystr) \<Rightarrow> pystr \<Rightarrow> pystr list \<Rightarrow> payload result" where
  "map_expanded_data sha node map_keys =
     rbind (require_workflow_identifier node ''node_id'') (\<lambda>node.
       if map_keys = [] \<or> MAX_FAN_OUT < int (length map_keys) then Inl (WorkflowInputError ''workflow-map-keys-invalid'' ''map_keys'')
       else rbind (mapM (\<lambda>key. require_workflow_identifier key ''map_key'') map_keys) (\<lambda>keys.
         if \<not> distinct keys then Inl (WorkflowInputError ''workflow-map-keys-duplicate'' ''map_keys'')
         else rbind (mapM (map_child_node_id sha node) keys) (\<lambda>children.
           Inr [(lit ''node_id'', JStr node), (lit ''map_keys'', JList (map JStr keys)),
                (lit ''child_node_ids'', JList (map JStr children))])))"

record node_evidence =
  ne_agent_id :: "pystr option"
  ne_message_id :: "pystr option"
  ne_artifact_id :: "pystr option"
  ne_review_id :: "pystr option"
  ne_approval_digest :: "pystr option"

definition no_evidence :: node_evidence where
  "no_evidence = \<lparr>ne_agent_id = None, ne_message_id = None, ne_artifact_id = None, ne_review_id = None, ne_approval_digest = None\<rparr>"

definition node_completed_data :: "pystr \<Rightarrow> workflow_node_kind \<Rightarrow> pystr option \<Rightarrow> node_evidence \<Rightarrow> payload result" where
  "node_completed_data node kind map_key evidence =
     rbind (require_workflow_identifier node ''node_id'') (\<lambda>node.
     rbind (optional_identifier map_key) (\<lambda>map_key.
     rbind (optional_identifier (ne_agent_id evidence)) (\<lambda>agent_id.
     rbind (optional_identifier (ne_message_id evidence)) (\<lambda>message_id.
     rbind (optional_identifier (ne_artifact_id evidence)) (\<lambda>artifact_id.
     rbind (optional_identifier (ne_review_id evidence)) (\<lambda>review_id.
     rbind (optional_digest_value (ne_approval_digest evidence)) (\<lambda>approval_digest.
       Inr [(lit ''node_id'', JStr node), (lit ''kind'', JStr (lit (node_kind_value kind))), (lit ''map_key'', map_key),
            (lit ''agent_id'', agent_id), (lit ''message_id'', message_id), (lit ''artifact_id'', artifact_id),
            (lit ''review_id'', review_id), (lit ''approval_digest'', approval_digest)])))))))"

definition node_failed_data :: "pystr \<Rightarrow> workflow_node_kind \<Rightarrow> pystr option \<Rightarrow> pystr \<Rightarrow> payload result" where
  "node_failed_data node kind map_key failure_code =
     rbind (require_workflow_identifier node ''node_id'') (\<lambda>node.
     rbind (optional_identifier map_key) (\<lambda>map_key.
     rbind (require_workflow_identifier failure_code ''failure_code'') (\<lambda>failure_code.
       Inr [(lit ''node_id'', JStr node), (lit ''kind'', JStr (lit (node_kind_value kind))), (lit ''map_key'', map_key),
            (lit ''failure_code'', JStr failure_code)])))"

definition approval_awaited_data :: "pystr \<Rightarrow> pystr \<Rightarrow> payload result" where
  "approval_awaited_data node review_id =
     rbind (require_workflow_identifier node ''node_id'') (\<lambda>node.
     rbind (require_workflow_identifier review_id ''review_id'') (\<lambda>review_id.
       Inr [(lit ''node_id'', JStr node), (lit ''review_id'', JStr review_id)]))"

definition terminal_statuses :: "pystr list" where
  "terminal_statuses = [lit (node_status_value Node_Completed), lit (node_status_value Node_Failed)]"

definition run_finished_data :: "pystr \<Rightarrow> pystr option \<Rightarrow> payload result" where
  "run_finished_data status failure_code =
     (if status \<notin> set terminal_statuses then Inl (WorkflowInputError ''workflow-run-status-invalid'' ''status'')
      else case failure_code of
        None \<Rightarrow> Inr [(lit ''status'', JStr status), (lit ''failure_code'', JNull)]
      | Some code \<Rightarrow> rbind (require_workflow_identifier code ''failure_code'') (\<lambda>code.
          Inr [(lit ''status'', JStr status), (lit ''failure_code'', JStr code)]))"

section \<open>Reading\<close>

definition is_workflow_protocol_error :: "exn \<Rightarrow> bool" where
  "is_workflow_protocol_error e = (case e of WorkflowProtocolError _ _ _ \<Rightarrow> True | _ \<Rightarrow> False)"

definition workflow_error :: "string \<Rightarrow> int \<Rightarrow> 'a result" where
  "workflow_error code seq = Inl (WorkflowProtocolError code seq None)"

definition workflow_node_error :: "string \<Rightarrow> pystr \<Rightarrow> 'a result" where
  "workflow_node_error code node = Inl (WorkflowProtocolError code 0 (Some node))"

definition workflow_safe_seq :: "event_envelope \<Rightarrow> int" where
  "workflow_safe_seq event = (if 0 \<le> ev_seq event then ev_seq event else 0)"

definition read_workflow_header :: "event_envelope \<Rightarrow> pystr \<Rightarrow> (pystr \<times> payload \<times> int) result" where
  "read_workflow_header event stream_id =
     (if ev_stream_id event \<noteq> stream_id then workflow_error ''workflow-stream-unexpected'' (workflow_safe_seq event)
      else if ev_seq event < 1 then workflow_error ''workflow-sequence-invalid'' 0
      else if ev_schema_version event \<noteq> WORKFLOW_SCHEMA_VERSION then workflow_error ''workflow-schema-version-unsupported'' (ev_seq event)
      else if ev_type event \<notin> set WORKFLOW_EVENT_TYPES then workflow_error ''workflow-event-type-unknown'' (ev_seq event)
      else if dt_utcoffset (ev_occurred_at event) = None then workflow_error ''workflow-recorded-at-invalid'' (ev_seq event)
      else case ev_data event of
        JDict data \<Rightarrow> Inr (ev_type event, data, ev_seq event)
      | _ \<Rightarrow> workflow_error ''workflow-payload-invalid'' (ev_seq event))"

definition workflow_event_header :: "event_envelope \<Rightarrow> pystr \<Rightarrow> (pystr \<times> payload \<times> int) result" where
  "workflow_event_header event stream_id =
     wrap_unless is_workflow_protocol_error (WorkflowProtocolError ''workflow-payload-invalid'' (workflow_safe_seq event) None)
       (read_workflow_header event stream_id)"

definition is_workflow_fact :: "event_envelope \<Rightarrow> pystr \<Rightarrow> string \<Rightarrow> payload \<Rightarrow> bool" where
  "is_workflow_fact event stream_id event_type data =
     (case workflow_event_header event stream_id of
        Inl _ \<Rightarrow> False
      | Inr (actual_type, _, _) \<Rightarrow>
          (if actual_type \<noteq> lit event_type then False
           else canonical_json (ev_data event) = canonical_json (JDict data)))"

definition workflow_text :: "payload \<Rightarrow> string \<Rightarrow> int \<Rightarrow> pystr result" where
  "workflow_text data key seq =
     (case jget data key of
        JStr s \<Rightarrow> (if ident_ok s then Inr s else workflow_error (invalid_code key) seq)
      | _ \<Rightarrow> workflow_error (invalid_code key) seq)"

definition workflow_optional :: "payload \<Rightarrow> string \<Rightarrow> int \<Rightarrow> pystr option result" where
  "workflow_optional data key seq =
     (if jget data key = JNull then Inr None else rbind (workflow_text data key seq) (\<lambda>s. Inr (Some s)))"

definition workflow_kind :: "payload \<Rightarrow> int \<Rightarrow> workflow_node_kind result" where
  "workflow_kind data seq =
     (case find (\<lambda>k. jget data ''kind'' = JStr (lit (node_kind_value k))) [AGENT_TASK, MAP, JOIN, VERIFICATION, APPROVAL] of
        None \<Rightarrow> workflow_error ''workflow-node-kind-invalid'' seq
      | Some k \<Rightarrow> Inr k)"

definition workflow_digest :: "payload \<Rightarrow> string \<Rightarrow> int \<Rightarrow> pystr result" where
  "workflow_digest data key seq =
     (case jget data key of
        JStr s \<Rightarrow> (if is_digest s then Inr s else workflow_error (invalid_code key) seq)
      | _ \<Rightarrow> workflow_error (invalid_code key) seq)"

definition workflow_optional_digest :: "payload \<Rightarrow> string \<Rightarrow> int \<Rightarrow> pystr option result" where
  "workflow_optional_digest data key seq =
     (if jget data key = JNull then Inr None else rbind (workflow_digest data key seq) (\<lambda>s. Inr (Some s)))"

definition workflow_integer :: "payload \<Rightarrow> string \<Rightarrow> int \<Rightarrow> int result" where
  "workflow_integer data key seq = (case jget data key of JInt i \<Rightarrow> Inr i | _ \<Rightarrow> workflow_error (invalid_code key) seq)"

definition workflow_identifier_list :: "payload \<Rightarrow> string \<Rightarrow> int \<Rightarrow> pystr list result" where
  "workflow_identifier_list data key seq =
     (case jget data key of
        JList items \<Rightarrow>
          (if items = [] then workflow_error (invalid_code key) seq
           else mapM (\<lambda>item. case item of JStr s \<Rightarrow> (if ident_ok s then Inr s else workflow_error (invalid_code key) seq)
                              | _ \<Rightarrow> workflow_error (invalid_code key) seq) items)
      | _ \<Rightarrow> workflow_error (invalid_code key) seq)"

end
