(* ===== verification/Workflow_Projection.thy ===== *)
theory Workflow_Projection imports Workflow_Events begin

text \<open>
  The projector of a workflow run (workflow/projection.py): the fold over its stream with every
  rule a stream alone can decide, the queries of the view, the agreement with a definition and
  the nodes that are ready to run.
\<close>

section \<open>The view\<close>

record map_expansion =
  me_node_id :: pystr
  me_map_keys :: "pystr list"
  me_child_node_ids :: "pystr list"

record node_state =
  ns_node_id :: pystr
  ns_kind :: workflow_node_kind
  ns_map_key :: "pystr option"
  ns_status :: node_status
  ns_agent_id :: "pystr option"
  ns_message_id :: "pystr option"
  ns_artifact_id :: "pystr option"
  ns_review_id :: "pystr option"
  ns_approval_digest :: "pystr option"
  ns_failure_code :: "pystr option"

record workflow_projection =
  wp_run_id :: pystr
  wp_definition_id :: pystr
  wp_definition_hash :: pystr
  wp_nodes :: "(pystr, node_state) dict"
  wp_expansions :: "(pystr, map_expansion) dict"
  wp_awaiting :: "pystr list"
  wp_terminal :: "pystr option"
  wp_failure_code :: "pystr option"
  wp_head_seq :: int

section \<open>Evidence of a completed node\<close>

record evidence_rule =
  er_agent_id :: "pystr option"
  er_message_id :: "pystr option"
  er_artifact :: "bool option"
  er_review :: "bool option"
  er_approval :: "bool option"

definition evidence_expected ::
    "(pystr \<Rightarrow> pystr) \<Rightarrow> pystr \<Rightarrow> pystr \<Rightarrow> workflow_node_kind \<Rightarrow> pystr option \<Rightarrow> bool option \<Rightarrow> evidence_rule result" where
  "evidence_expected sha run_id node kind map_key capture =
     (if kind = MAP \<and> map_key = None
      then Inr \<lparr>er_agent_id = None, er_message_id = None, er_artifact = Some False, er_review = Some False, er_approval = Some False\<rparr>
      else if kind = AGENT_TASK \<or> kind = MAP
      then rbind (agent_identity sha run_id node) (\<lambda>ids.
        Inr \<lparr>er_agent_id = Some (ai_agent_id ids), er_message_id = Some (ai_message_id ids), er_artifact = capture,
             er_review = Some False, er_approval = Some False\<rparr>)
      else Inr \<lparr>er_agent_id = None, er_message_id = None, er_artifact = Some (kind \<noteq> JOIN), er_review = Some (kind \<noteq> JOIN),
                er_approval = Some (kind = APPROVAL)\<rparr>)"

fun check_present :: "pystr \<Rightarrow> (bool \<times> bool option) list \<Rightarrow> unit result" where
  "check_present node [] = Inr ()"
| "check_present node ((present, expected) # rest) =
     (case expected of
        None \<Rightarrow> check_present node rest
      | Some e \<Rightarrow>
          (if present \<noteq> e
           then workflow_node_error (if e then ''workflow-node-result-incomplete'' else ''workflow-node-result-unexpected'') node
           else check_present node rest))"

definition require_evidence :: "(pystr \<Rightarrow> pystr) \<Rightarrow> pystr \<Rightarrow> pystr \<Rightarrow> node_state \<Rightarrow> bool option \<Rightarrow> unit result" where
  "require_evidence sha run_id node state capture =
     rbind (evidence_expected sha run_id node (ns_kind state) (ns_map_key state) capture) (\<lambda>rule.
       if ns_agent_id state \<noteq> er_agent_id rule \<or> ns_message_id state \<noteq> er_message_id rule
       then workflow_node_error ''workflow-node-result-identity-invalid'' node
       else check_present node
         [(ns_artifact_id state \<noteq> None, er_artifact rule), (ns_review_id state \<noteq> None, er_review rule),
          (ns_approval_digest state \<noteq> None, er_approval rule)])"

section \<open>Rebuilding a run\<close>

record workflow_scan =
  ws_nodes :: "(pystr, node_state) dict"
  ws_expansions :: "(pystr, map_expansion) dict"
  ws_child_keys :: "(pystr, pystr) dict"
  ws_awaiting :: "pystr list"
  ws_definition_id :: pystr
  ws_definition_hash :: pystr
  ws_terminal :: "pystr option"
  ws_failure_code :: "pystr option"
  ws_expected_seq :: int

definition empty_workflow_scan :: workflow_scan where
  "empty_workflow_scan = \<lparr>ws_nodes = [], ws_expansions = [], ws_child_keys = [], ws_awaiting = [], ws_definition_id = [],
     ws_definition_hash = [], ws_terminal = None, ws_failure_code = None, ws_expected_seq = 1\<rparr>"

definition apply_run_started :: "pystr \<Rightarrow> payload \<Rightarrow> int \<Rightarrow> workflow_scan \<Rightarrow> workflow_scan result" where
  "apply_run_started run_id data seq s =
     (if seq \<noteq> 1 then workflow_error ''workflow-run-start-unexpected'' seq
      else rbind (workflow_text data ''run_id'' seq) (\<lambda>found.
        if found \<noteq> run_id then workflow_error ''workflow-run-id-invalid'' seq
        else rbind (workflow_text data ''definition_id'' seq) (\<lambda>definition_id.
        rbind (workflow_digest data ''definition_hash'' seq) (\<lambda>definition_hash.
        rbind (workflow_integer data ''workflow_protocol_version'' seq) (\<lambda>version.
          if version \<noteq> 1 then workflow_error ''workflow-protocol-version-unsupported'' seq
          else Inr (s\<lparr>ws_definition_id := definition_id, ws_definition_hash := definition_hash\<rparr>))))))"

definition started_node :: "pystr \<Rightarrow> workflow_node_kind \<Rightarrow> pystr option \<Rightarrow> node_state" where
  "started_node node kind map_key = \<lparr>ns_node_id = node, ns_kind = kind, ns_map_key = map_key, ns_status = Node_Running,
     ns_agent_id = None, ns_message_id = None, ns_artifact_id = None, ns_review_id = None, ns_approval_digest = None, ns_failure_code = None\<rparr>"

definition apply_node_started :: "payload \<Rightarrow> int \<Rightarrow> workflow_scan \<Rightarrow> workflow_scan result" where
  "apply_node_started data seq s =
     rbind (workflow_text data ''node_id'' seq) (\<lambda>node.
       if dict_has node (ws_nodes s) then workflow_error ''workflow-node-restarted'' seq
       else rbind (workflow_optional data ''map_key'' seq) (\<lambda>map_key.
         if map_key \<noteq> map_of (ws_child_keys s) node then workflow_error ''workflow-node-map-key-invalid'' seq
         else rbind (workflow_kind data seq) (\<lambda>kind.
           Inr (s\<lparr>ws_nodes := dict_set node (started_node node kind map_key) (ws_nodes s)\<rparr>))))"

text \<open>The state of a node that is running, as every later fact of the node requires it.\<close>

definition running_state :: "string \<Rightarrow> workflow_scan \<Rightarrow> pystr \<Rightarrow> int \<Rightarrow> node_state result" where
  "running_state code s node seq =
     (case map_of (ws_nodes s) node of
        None \<Rightarrow> workflow_error code seq
      | Some state \<Rightarrow> (if ns_status state \<noteq> Node_Running then workflow_error code seq else Inr state))"

fun record_children :: "workflow_scan \<Rightarrow> int \<Rightarrow> (pystr \<times> pystr) list \<Rightarrow> (pystr, pystr) dict \<Rightarrow> (pystr, pystr) dict result" where
  "record_children s seq [] child_keys = Inr child_keys"
| "record_children s seq ((key, child) # rest) child_keys =
     (if dict_has child child_keys \<or> dict_has child (ws_nodes s) then workflow_error ''workflow-map-child-duplicate'' seq
      else record_children s seq rest (dict_set child key child_keys))"

definition apply_map_expanded :: "(pystr \<Rightarrow> pystr) \<Rightarrow> payload \<Rightarrow> int \<Rightarrow> workflow_scan \<Rightarrow> workflow_scan result" where
  "apply_map_expanded sha data seq s =
     rbind (workflow_text data ''node_id'' seq) (\<lambda>node.
     rbind (running_state ''workflow-map-expansion-unexpected'' s node seq) (\<lambda>state.
       if ns_kind state \<noteq> MAP \<or> ns_map_key state \<noteq> None then workflow_error ''workflow-map-expansion-unexpected'' seq
       else if dict_has node (ws_expansions s) then workflow_error ''workflow-map-expansion-duplicate'' seq
       else rbind (workflow_identifier_list data ''map_keys'' seq) (\<lambda>keys.
         rbind (workflow_identifier_list data ''child_node_ids'' seq) (\<lambda>children.
           if length keys \<noteq> length children \<or> \<not> distinct keys then workflow_error ''workflow-map-expansion-invalid'' seq
           else rbind (mapM (map_child_node_id sha node) keys) (\<lambda>derived.
             if derived \<noteq> children then workflow_error ''workflow-map-child-id-invalid'' seq
             else rbind (record_children s seq (zip keys children) (ws_child_keys s)) (\<lambda>child_keys.
               Inr (s\<lparr>ws_child_keys := child_keys, ws_expansions := dict_set node
                 \<lparr>me_node_id = node, me_map_keys = keys, me_child_node_ids = children\<rparr> (ws_expansions s)\<rparr>)))))))"

definition when_completed :: "bool \<Rightarrow> pystr option result \<Rightarrow> pystr option result" where
  "when_completed completed r = (if completed then r else Inr None)"

definition settled_node :: "node_state \<Rightarrow> bool \<Rightarrow> payload \<Rightarrow> int \<Rightarrow> node_state result" where
  "settled_node state completed data seq =
     rbind (when_completed completed (workflow_optional data ''agent_id'' seq)) (\<lambda>agent_id.
     rbind (when_completed completed (workflow_optional data ''message_id'' seq)) (\<lambda>message_id.
     rbind (when_completed completed (workflow_optional data ''artifact_id'' seq)) (\<lambda>artifact_id.
     rbind (when_completed completed (workflow_optional data ''review_id'' seq)) (\<lambda>review_id.
     rbind (when_completed completed (workflow_optional_digest data ''approval_digest'' seq)) (\<lambda>approval_digest.
     rbind (if completed then Inr None else rbind (workflow_text data ''failure_code'' seq) (\<lambda>code. Inr (Some code))) (\<lambda>failure_code.
       Inr (state\<lparr>ns_status := (if completed then Node_Completed else Node_Failed), ns_agent_id := agent_id, ns_message_id := message_id,
         ns_artifact_id := artifact_id, ns_review_id := review_id, ns_approval_digest := approval_digest,
         ns_failure_code := failure_code\<rparr>)))))))"

definition apply_node_ended :: "(pystr \<Rightarrow> pystr) \<Rightarrow> pystr \<Rightarrow> bool \<Rightarrow> payload \<Rightarrow> int \<Rightarrow> workflow_scan \<Rightarrow> workflow_scan result" where
  "apply_node_ended sha run_id completed data seq s =
     rbind (workflow_text data ''node_id'' seq) (\<lambda>node.
     rbind (running_state ''workflow-node-terminal-unexpected'' s node seq) (\<lambda>state.
     rbind (workflow_kind data seq) (\<lambda>kind.
       if kind \<noteq> ns_kind state then workflow_error ''workflow-node-terminal-mismatch'' seq
       else rbind (workflow_optional data ''map_key'' seq) (\<lambda>map_key.
         if map_key \<noteq> ns_map_key state then workflow_error ''workflow-node-terminal-mismatch'' seq
         else rbind (settled_node state completed data seq) (\<lambda>settled.
         rbind (if completed then require_evidence sha run_id node settled None else Inr ()) (\<lambda>_.
           Inr (s\<lparr>ws_nodes := dict_set node settled (ws_nodes s), ws_awaiting := remove1 node (ws_awaiting s)\<rparr>)))))))"

definition apply_approval_awaited :: "payload \<Rightarrow> int \<Rightarrow> workflow_scan \<Rightarrow> workflow_scan result" where
  "apply_approval_awaited data seq s =
     rbind (workflow_text data ''node_id'' seq) (\<lambda>node.
     rbind (running_state ''workflow-approval-wait-unexpected'' s node seq) (\<lambda>_.
       if node \<in> set (ws_awaiting s) then workflow_error ''workflow-approval-wait-duplicate'' seq
       else Inr (s\<lparr>ws_awaiting := ws_awaiting s @ [node]\<rparr>)))"

definition apply_run_finished :: "payload \<Rightarrow> int \<Rightarrow> workflow_scan \<Rightarrow> workflow_scan result" where
  "apply_run_finished data seq s =
     rbind (workflow_text data ''status'' seq) (\<lambda>status.
       if status \<notin> set terminal_statuses then workflow_error ''workflow-run-status-invalid'' seq
       else rbind (workflow_optional data ''failure_code'' seq) (\<lambda>failure_code.
         Inr (s\<lparr>ws_terminal := Some status, ws_failure_code := failure_code\<rparr>)))"

definition apply_workflow_fact :: "(pystr \<Rightarrow> pystr) \<Rightarrow> pystr \<Rightarrow> pystr \<Rightarrow> payload \<Rightarrow> int \<Rightarrow> workflow_scan \<Rightarrow> workflow_scan result" where
  "apply_workflow_fact sha run_id event_type data seq s =
     (if event_type = lit WORKFLOW_RUN_STARTED then apply_run_started run_id data seq s
      else if seq = 1 then workflow_error ''workflow-run-start-missing'' seq
      else if event_type = lit WORKFLOW_NODE_STARTED then apply_node_started data seq s
      else if event_type = lit WORKFLOW_MAP_EXPANDED then apply_map_expanded sha data seq s
      else if event_type = lit WORKFLOW_NODE_COMPLETED then apply_node_ended sha run_id True data seq s
      else if event_type = lit WORKFLOW_NODE_FAILED then apply_node_ended sha run_id False data seq s
      else if event_type = lit WORKFLOW_APPROVAL_AWAITED then apply_approval_awaited data seq s
      else apply_run_finished data seq s)"

definition scan_workflow :: "(pystr \<Rightarrow> pystr) \<Rightarrow> pystr \<Rightarrow> pystr \<Rightarrow> workflow_scan \<Rightarrow> event_envelope \<Rightarrow> workflow_scan result" where
  "scan_workflow sha run_id stream_id s event =
     rbind (workflow_event_header event stream_id) (\<lambda>(event_type, data, seq).
       if seq \<noteq> ws_expected_seq s then workflow_error ''workflow-sequence-invalid'' seq
       else case map_of expected_keys event_type of
         None \<Rightarrow> Inl PyKeyError
       | Some keys \<Rightarrow>
           (if \<not> keys_are data keys then workflow_error ''workflow-payload-keys-unexpected'' seq
            else if ws_terminal s \<noteq> None then workflow_error ''workflow-run-already-finished'' seq
            else apply_workflow_fact sha run_id event_type data seq (s\<lparr>ws_expected_seq := ws_expected_seq s + 1\<rparr>)))"

definition make_projection :: "pystr \<Rightarrow> workflow_scan \<Rightarrow> workflow_projection" where
  "make_projection run_id s = \<lparr>wp_run_id = run_id, wp_definition_id = ws_definition_id s, wp_definition_hash = ws_definition_hash s,
     wp_nodes = ws_nodes s, wp_expansions = ws_expansions s, wp_awaiting = ws_awaiting s, wp_terminal = ws_terminal s,
     wp_failure_code = ws_failure_code s, wp_head_seq = ws_expected_seq s - 1\<rparr>"

definition rebuild_workflow :: "(pystr \<Rightarrow> pystr) \<Rightarrow> pystr \<Rightarrow> event_envelope list \<Rightarrow> workflow_projection result" where
  "rebuild_workflow sha run_id events =
     rbind (workflow_stream_id run_id) (\<lambda>stream_id.
     rbind (foldM (scan_workflow sha run_id stream_id) empty_workflow_scan events) (\<lambda>s.
       if events \<noteq> [] \<and> ws_definition_hash s = [] then workflow_error ''workflow-run-start-missing'' (ws_expected_seq s)
       else Inr (make_projection run_id s)))"

section \<open>Queries\<close>

definition projection_status :: "workflow_projection \<Rightarrow> workflow_status option" where
  "projection_status p =
     (if wp_head_seq p = 0 then None
      else if wp_terminal p = Some (lit (node_status_value Node_Completed)) then Some Workflow_Completed
      else if wp_terminal p = Some (lit (node_status_value Node_Failed)) then Some Workflow_Failed
      else if wp_awaiting p \<noteq> [] then Some Workflow_Awaiting_Approval
      else Some Workflow_Running)"

definition state_of :: "workflow_projection \<Rightarrow> pystr \<Rightarrow> node_state option" where
  "state_of p node = map_of (wp_nodes p) node"

definition status_of :: "workflow_projection \<Rightarrow> pystr \<Rightarrow> node_status" where
  "status_of p node = (case map_of (wp_nodes p) node of None \<Rightarrow> Node_Pending | Some state \<Rightarrow> ns_status state)"

definition nodes_with :: "node_status \<Rightarrow> workflow_projection \<Rightarrow> pystr list" where
  "nodes_with status p = sort (map fst (filter (\<lambda>(node, state). ns_status state = status) (wp_nodes p)))"

definition running_nodes :: "workflow_projection \<Rightarrow> pystr list" where
  "running_nodes p = nodes_with Node_Running p"

definition failed_nodes :: "workflow_projection \<Rightarrow> pystr list" where
  "failed_nodes p = nodes_with Node_Failed p"

definition is_terminal :: "workflow_projection \<Rightarrow> pystr \<Rightarrow> bool" where
  "is_terminal p node \<longleftrightarrow> status_of p node \<in> {Node_Completed, Node_Failed}"

definition map_keys_for :: "workflow_projection \<Rightarrow> pystr \<Rightarrow> pystr list" where
  "map_keys_for p node = (case map_of (wp_expansions p) node of None \<Rightarrow> [] | Some e \<Rightarrow> me_map_keys e)"

definition child_in :: "pystr \<Rightarrow> (pystr \<times> map_expansion) \<Rightarrow> (pystr \<times> pystr) option" where
  "child_in node pe = map_option (\<lambda>(key, _). (fst pe, key))
     (find (\<lambda>(_, child). child = node) (zip (me_map_keys (snd pe)) (me_child_node_ids (snd pe))))"

definition origin_of_child :: "workflow_projection \<Rightarrow> pystr \<Rightarrow> (pystr \<times> pystr) option" where
  "origin_of_child p node =
     (case find (\<lambda>pe. child_in node pe \<noteq> None) (wp_expansions p) of None \<Rightarrow> None | Some pe \<Rightarrow> child_in node pe)"

end
