(* ===== verification/Workflow_Graph.thy ===== *)
theory Workflow_Graph imports Workflow_Models begin

text \<open>
  What freezing a workflow definition establishes (workflow/models.py). The walks over the
  predecessors decide ancestry and acyclicity exactly, and an accepted definition is precisely a
  bounded DAG with well-formed nodes whose references point to earlier nodes of the right kind.
\<close>

section \<open>Edges\<close>

definition index_edges :: "node_index \<Rightarrow> (pystr \<times> pystr) set" where
  "index_edges by_id = {(p, n). \<exists>node. map_of by_id n = Some node \<and> p \<in> set (predecessors node)}"

lemma index_edgesI: "map_of by_id n = Some node \<Longrightarrow> p \<in> set (predecessors node) \<Longrightarrow> (p, n) \<in> index_edges by_id"
  by (auto simp: index_edges_def)

lemma index_edges_Some: "map_of by_id n = Some node \<Longrightarrow> (p, n) \<in> index_edges by_id \<longleftrightarrow> p \<in> set (predecessors node)"
  by (simp add: index_edges_def)

lemma index_edges_None: "map_of by_id n = None \<Longrightarrow> (p, n) \<notin> index_edges by_id"
  by (simp add: index_edges_def)

lemma index_edges_trancl_None: "map_of by_id n = None \<Longrightarrow> (p, n) \<notin> (index_edges by_id)\<^sup>+"
  by (auto dest: tranclD2 index_edges_None)

definition index_closed :: "node_index \<Rightarrow> bool" where
  "index_closed by_id \<longleftrightarrow> dict_ok by_id \<and> (\<forall>p n. (p, n) \<in> index_edges by_id \<longrightarrow> dict_has p by_id)"

section \<open>Ancestry\<close>

definition searched :: "node_index \<Rightarrow> pystr \<Rightarrow> pystr set \<Rightarrow> pystr set \<Rightarrow> bool" where
  "searched by_id source seen todo \<longleftrightarrow>
     (\<forall>n \<in> seen. (source, n) \<notin> index_edges by_id \<and> (\<forall>p. (p, n) \<in> index_edges by_id \<longrightarrow> p \<in> seen \<union> todo))"

lemma searched_frontier:
  assumes "(source, n) \<in> (index_edges by_id)\<^sup>+" "searched by_id source seen todo" "n \<in> seen"
  shows "\<exists>t \<in> todo - seen. (source, t) \<in> (index_edges by_id)\<^sup>+"
  using assms
proof (induction rule: trancl_induct)
  case (step y z)
  then have "y \<in> seen \<union> todo" by (auto simp: searched_def)
  then show ?case using step by (cases "y \<in> seen") blast+
qed (auto simp: searched_def)

lemma reaches_from_iff:
  assumes "searched by_id source (set seen) (set todo)"
  shows "reaches_from by_id source todo seen \<longleftrightarrow> (\<exists>t \<in> set todo - set seen. (source, t) \<in> (index_edges by_id)\<^sup>+)"
  using assms
proof (induction by_id source todo seen rule: reaches_from.induct)
  case (2 by_id source current todo seen)
  let ?E = "index_edges by_id"
  show ?case
  proof (cases "current \<in> set seen")
    case True
    moreover have "searched by_id source (set seen) (set todo)" using 2(4) True by (auto simp: searched_def)
    ultimately show ?thesis using 2(1) by simp
  next
    case new: False
    show ?thesis
    proof (cases "map_of by_id current")
      case None
      then have "searched by_id source (set (current # seen)) (set todo)"
        using 2(4) index_edges_None[OF None] by (auto simp: searched_def)
      then show ?thesis using 2(2)[OF new None] None new index_edges_trancl_None[OF None] by auto
    next
      case (Some node)
      show ?thesis
      proof (cases "source \<in> set (predecessors node)")
        case True
        then show ?thesis using Some new index_edgesI[OF Some True] by auto
      next
        case far: False
        have s: "searched by_id source (set (current # seen)) (set (rev (predecessors node) @ todo))"
          using 2(4) far index_edges_Some[OF Some] by (auto simp: searched_def)
        have "\<exists>t \<in> set (rev (predecessors node) @ todo) - set (current # seen). (source, t) \<in> ?E\<^sup>+"
          if "(source, current) \<in> ?E\<^sup>+" using searched_frontier[OF that s] by simp
        moreover have "(source, current) \<in> ?E\<^sup>+" if "t \<in> set (predecessors node)" "(source, t) \<in> ?E\<^sup>+" for t
          using that index_edgesI[OF Some] by (meson trancl_into_trancl)
        ultimately show ?thesis using 2(3)[OF new Some far s] Some new far by auto
      qed
    qed
  qed
qed simp

lemma reaches_iff: "reaches by_id source target \<longleftrightarrow> (source, target) \<in> (index_edges by_id)\<^sup>+"
  using reaches_from_iff[of by_id source "[]" "[target]"] by (simp add: reaches_def searched_def)

section \<open>Acyclicity\<close>

definition closed_nodes :: "(pystr, int) dict \<Rightarrow> pystr set" where
  "closed_nodes state = {k. map_of state k = Some 2}"

fun open_ok :: "(pystr \<times> pystr) set \<Rightarrow> pystr set \<Rightarrow> pystr set \<Rightarrow> (pystr \<times> bool) list \<Rightarrow> bool" where
  "open_ok E shut over [] = True"
| "open_ok E shut over ((n, leaving) # stack) =
     ((leaving \<longrightarrow> (\<forall>p. (p, n) \<in> E \<longrightarrow> p \<in> shut \<or> p \<in> over) \<and> (\<forall>x \<in> over. (x, n) \<in> E\<^sup>+)) \<and>
      open_ok E shut (insert n over) stack)"

lemma open_ok_change:
  assumes "open_ok E shut over stack" "shut \<subseteq> shut'" "over \<subseteq> shut' \<union> over'" "\<And>x. x \<in> over' \<Longrightarrow> \<exists>y \<in> over. (x, y) \<in> E\<^sup>*"
  shows "open_ok E shut' over' stack"
  using assms
proof (induction stack arbitrary: over over')
  case (Cons e stack)
  obtain n leaving where e: "e = (n, leaving)" by (cases e)
  have "open_ok E shut' (insert n over') stack"
    using Cons.prems(3,4) by (intro Cons.IH[of "insert n over"] Cons.prems(2)) (use Cons.prems(1) e in auto)
  moreover have "(x, n) \<in> E\<^sup>+" if "x \<in> over'" leaving for x
    using Cons.prems(1) Cons.prems(4)[OF that(1)] that(2) e by (auto intro: rtrancl_trancl_trancl)
  moreover have "p \<in> shut' \<or> p \<in> over'" if "(p, n) \<in> E" leaving for p
    using Cons.prems(1-3) that e by auto
  ultimately show ?case by (simp add: e)
qed simp

definition walk_ok :: "node_index \<Rightarrow> (pystr \<times> bool) list \<Rightarrow> (pystr, int) dict \<Rightarrow> bool" where
  "walk_ok by_id stack state \<longleftrightarrow>
     (\<forall>k. map_of state k \<in> {None, Some 1, Some 2}) \<and>
     (\<forall>k. map_of state k = Some 1 \<longleftrightarrow> (k, True) \<in> set stack) \<and>
     distinct (map fst (filter snd stack)) \<and>
     (\<forall>n \<in> fst ` set stack. dict_has n by_id) \<and>
     (\<forall>n \<in> closed_nodes state. (n, n) \<notin> (index_edges by_id)\<^sup>+ \<and> (\<forall>p. (p, n) \<in> index_edges by_id \<longrightarrow> p \<in> closed_nodes state)) \<and>
     open_ok (index_edges by_id) (closed_nodes state) {} stack"

lemma closed_nodes_set: "closed_nodes (dict_set k v state) = (if v = 2 then insert k (closed_nodes state) else closed_nodes state - {k})"
  by (auto simp: closed_nodes_def)

lemma closed_ancestors:
  assumes "(p, n) \<in> (index_edges by_id)\<^sup>+" "\<And>p. (p, n) \<in> index_edges by_id \<Longrightarrow> p \<in> S"
    and "\<And>m p. m \<in> S \<Longrightarrow> (p, m) \<in> index_edges by_id \<Longrightarrow> p \<in> S"
  shows "p \<in> S"
  using assms(1)
proof (induction rule: converse_trancl_induct)
  case (step y z)
  then show ?case using assms(3) by blast
qed (use assms(2) in blast)

lemma walk_okD:
  assumes "walk_ok by_id stack state"
  shows "map_of state k = None \<or> map_of state k = Some 1 \<or> map_of state k = Some 2"
    and "map_of state k = Some 1 \<longleftrightarrow> (k, True) \<in> set stack"
    and "distinct (map fst (filter snd stack))"
    and "n \<in> fst ` set stack \<Longrightarrow> dict_has n by_id"
    and "n \<in> closed_nodes state \<Longrightarrow> (n, n) \<notin> (index_edges by_id)\<^sup>+"
    and "n \<in> closed_nodes state \<Longrightarrow> (p, n) \<in> index_edges by_id \<Longrightarrow> p \<in> closed_nodes state"
    and "open_ok (index_edges by_id) (closed_nodes state) {} stack"
  using assms unfolding walk_ok_def by blast+

lemma walk_okI:
  assumes "\<And>k. map_of state k = None \<or> map_of state k = Some 1 \<or> map_of state k = Some 2"
    and "\<And>k. map_of state k = Some 1 \<longleftrightarrow> (k, True) \<in> set stack"
    and "distinct (map fst (filter snd stack))"
    and "\<And>n. n \<in> fst ` set stack \<Longrightarrow> dict_has n by_id"
    and "\<And>n. n \<in> closed_nodes state \<Longrightarrow> (n, n) \<notin> (index_edges by_id)\<^sup>+"
    and "\<And>n p. n \<in> closed_nodes state \<Longrightarrow> (p, n) \<in> index_edges by_id \<Longrightarrow> p \<in> closed_nodes state"
    and "open_ok (index_edges by_id) (closed_nodes state) {} stack"
  shows "walk_ok by_id stack state"
  using assms unfolding walk_ok_def by blast

lemma walk_ok_rest:
  assumes "walk_ok by_id ((n, leaving) # stack) state"
  shows "open_ok (index_edges by_id) (closed_nodes state) {n} stack"
    and "leaving \<Longrightarrow> (p, n) \<in> index_edges by_id \<Longrightarrow> p \<in> closed_nodes state"
  using walk_okD(7)[OF assms] by simp_all

lemma open_ok_shut: "open_ok E shut over stack \<Longrightarrow> shut \<subseteq> shut' \<Longrightarrow> over \<subseteq> shut' \<Longrightarrow> open_ok E shut' {} stack"
  by (rule open_ok_change[of E shut over stack shut' "{}"]) simp_all

lemma walk_ok_leave:
  assumes ok: "walk_ok by_id ((n, True) # stack) state"
  shows "walk_ok by_id stack (dict_set n 2 state)"
proof -
  let ?E = "index_edges by_id" and ?S = "closed_nodes state"
  have fresh: "(n, True) \<notin> set stack" using walk_okD(3)[OF ok] by (auto simp: image_iff)
  have S: "closed_nodes (dict_set n 2 state) = insert n ?S" by (simp add: closed_nodes_set)
  have preds: "\<And>p. (p, n) \<in> ?E \<Longrightarrow> p \<in> ?S" using walk_ok_rest(2)[OF ok] by blast
  have "n \<notin> ?S" using walk_okD(2)[OF ok, of n] by (simp add: closed_nodes_def)
  moreover have "p \<in> ?S" if "(p, n) \<in> ?E\<^sup>+" for p using closed_ancestors[OF that preds walk_okD(6)[OF ok]] .
  ultimately have acyc: "(n, n) \<notin> ?E\<^sup>+" by blast
  show ?thesis
  proof (rule walk_okI, unfold S)
    show "map_of (dict_set n 2 state) k = None \<or> map_of (dict_set n 2 state) k = Some 1 \<or> map_of (dict_set n 2 state) k = Some 2" for k
      using walk_okD(1)[OF ok, of k] by simp
    show "map_of (dict_set n 2 state) k = Some 1 \<longleftrightarrow> (k, True) \<in> set stack" for k
      using walk_okD(2)[OF ok, of k] fresh by auto
    show "distinct (map fst (filter snd stack))" using walk_okD(3)[OF ok] by simp
    show "dict_has m by_id" if "m \<in> fst ` set stack" for m using walk_okD(4)[OF ok] that by simp
    show "(m, m) \<notin> ?E\<^sup>+" if "m \<in> insert n ?S" for m using walk_okD(5)[OF ok] acyc that by blast
    show "p \<in> insert n ?S" if "m \<in> insert n ?S" "(p, m) \<in> ?E" for m p using walk_okD(6)[OF ok] preds that by blast
    show "open_ok ?E (insert n ?S) {} stack"
      by (rule open_ok_shut[OF walk_ok_rest(1)[OF ok]]) blast+
  qed
qed

lemma walk_ok_skip:
  assumes ok: "walk_ok by_id ((n, False) # stack) state" and n: "map_of state n = Some 2"
  shows "walk_ok by_id stack state"
proof (rule walk_okI)
  show "open_ok (index_edges by_id) (closed_nodes state) {} stack"
    by (rule open_ok_shut[OF walk_ok_rest(1)[OF ok]]) (use n in \<open>auto simp: closed_nodes_def\<close>)
qed (use walk_okD[OF ok] in simp_all)

lemma open_ok_push:
  "open_ok E shut over (map (\<lambda>p. (p, False)) ps @ stack) = open_ok E shut (set ps \<union> over) stack"
  by (induction ps arbitrary: over) simp_all

lemma walk_ok_enter:
  assumes ok: "walk_ok by_id ((n, False) # stack) state" and n: "map_of state n = None" "map_of by_id n = Some node"
    and closed: "index_closed by_id"
  shows "walk_ok by_id (rev (map (\<lambda>p. (p, False)) (predecessors node)) @ (n, True) # stack) (dict_set n 1 state)"
proof -
  let ?E = "index_edges by_id" and ?S = "closed_nodes state" and ?ps = "set (predecessors node)"
  let ?stack = "rev (map (\<lambda>p. (p, False)) (predecessors node)) @ (n, True) # stack"
  have S: "closed_nodes (dict_set n 1 state) = ?S" using n(1) by (auto simp: closed_nodes_set closed_nodes_def)
  have E: "(p, n) \<in> ?E \<longleftrightarrow> p \<in> ?ps" for p by (rule index_edges_Some[OF n(2)])
  have fresh: "(n, True) \<notin> set stack" using walk_okD(2)[OF ok, of n] n(1) by simp
  have set: "set ?stack = (\<lambda>p. (p, False)) ` ?ps \<union> insert (n, True) (set stack)" by auto
  have open_entries: "filter snd ?stack = (n, True) # filter snd stack" by (simp add: rev_map filter_map o_def)
  show ?thesis
  proof (rule walk_okI, unfold S)
    show "map_of (dict_set n 1 state) k = None \<or> map_of (dict_set n 1 state) k = Some 1 \<or> map_of (dict_set n 1 state) k = Some 2" for k
      using walk_okD(1)[OF ok, of k] by simp
    show "map_of (dict_set n 1 state) k = Some 1 \<longleftrightarrow> (k, True) \<in> set ?stack" for k
      using walk_okD(2)[OF ok, of k] unfolding set by auto
    show "distinct (map fst (filter snd ?stack))"
      using walk_okD(3)[OF ok] fresh unfolding open_entries by (auto simp: image_iff)
    show "dict_has m by_id" if "m \<in> fst ` set ?stack" for m
    proof -
      have "m \<in> ?ps \<or> m = n \<or> m \<in> fst ` set stack" using that unfolding set by force
      then show ?thesis using walk_okD(4)[OF ok, of m] closed n(2) E[of m] by (auto simp: index_closed_def dict_has_def)
    qed
    have "open_ok ?E ?S (insert n ?ps) stack"
      by (rule open_ok_change[OF walk_ok_rest(1)[OF ok]]) (use E in blast)+
    then show "open_ok ?E ?S {} ?stack" unfolding rev_map open_ok_push by (auto simp: E)
  qed (use walk_okD(5,6)[OF ok] in blast)+
qed

lemma open_ok_path: "open_ok E shut over stack \<Longrightarrow> x \<in> over \<Longrightarrow> (n, True) \<in> set stack \<Longrightarrow> (x, n) \<in> E\<^sup>+"
  by (induction stack arbitrary: over) auto

lemma acyclic_walk_outcome:
  assumes "walk_ok by_id stack state" "index_closed by_id"
  shows "case acyclic_walk by_id stack state of
      Inr state' \<Rightarrow> walk_ok by_id [] state' \<and> closed_nodes state \<union> fst ` set stack \<subseteq> closed_nodes state'
    | Inl e \<Rightarrow> \<exists>n. e = WorkflowDefinitionError ''workflow-definition-cycle'' (Some n) \<and> (n, n) \<in> (index_edges by_id)\<^sup>+"
  using assms
proof (induction by_id stack state rule: acyclic_walk.induct)
  case (2 by_id n leaving stack state)
  consider (leave) leaving | (skip) "\<not> leaving" "map_of state n = Some 2" | (gray) "\<not> leaving" "map_of state n = Some 1"
    | (enter) "\<not> leaving" "map_of state n = None"
    using walk_okD(1)[OF 2(4), of n] by auto
  then show ?case
  proof cases
    case leave
    then show ?thesis using 2(1)[OF leave] walk_ok_leave 2(4,5) by (fastforce simp: closed_nodes_set split: sum.splits)
  next
    case skip
    then have "n \<in> closed_nodes state" by (simp add: closed_nodes_def)
    then show ?thesis using 2(2)[OF skip] walk_ok_skip skip 2(4,5) by (fastforce split: sum.splits)
  next
    case gray
    have "(n, True) \<in> set stack" using gray 2(4) by (auto simp: walk_ok_def)
    then have "(n, n) \<in> (index_edges by_id)\<^sup>+" using open_ok_path[OF walk_ok_rest(1)[OF 2(4)]] by simp
    then show ?thesis using gray by simp
  next
    case enter
    then obtain node where node: "map_of by_id n = Some node" using 2(4) by (auto simp: walk_ok_def dict_has_def)
    have "closed_nodes (dict_set n 1 state) = closed_nodes state" using enter by (auto simp: closed_nodes_set closed_nodes_def)
    moreover have ok: "walk_ok by_id (rev (map (\<lambda>p. (p, False)) (predecessors node)) @ (n, True) # stack) (dict_set n 1 state)"
      using walk_ok_enter[OF _ enter(2) node 2(5)] 2(4) enter(1) by simp
    have "map_of state n \<noteq> Some 2" "map_of state n \<noteq> Some 1" using enter(2) by simp_all
    note walk = 2(3)[OF enter(1) this node ok 2(5)]
    have step: "acyclic_walk by_id ((n, leaving) # stack) state =
        acyclic_walk by_id (rev (map (\<lambda>p. (p, False)) (predecessors node)) @ (n, True) # stack) (dict_set n 1 state)"
      using enter node by simp
    ultimately show ?thesis using walk unfolding step by (auto split: sum.splits)
  qed
qed simp

lemma acyclic_starts_iff:
  assumes "walk_ok by_id [] state" "index_closed by_id" "\<forall>n \<in> set starts. dict_has n by_id"
  shows "case acyclic_starts by_id starts state of
      Inr u \<Rightarrow> \<forall>n \<in> set starts. (n, n) \<notin> (index_edges by_id)\<^sup>+
    | Inl e \<Rightarrow> \<exists>n. e = WorkflowDefinitionError ''workflow-definition-cycle'' (Some n) \<and> (n, n) \<in> (index_edges by_id)\<^sup>+"
  using assms
proof (induction starts arbitrary: state)
  case (Cons n starts)
  have "walk_ok by_id [(n, False)] state" using Cons.prems by (auto simp: walk_ok_def)
  note outcome = acyclic_walk_outcome[OF this Cons.prems(2)]
  show ?case
  proof (cases "acyclic_walk by_id [(n, False)] state")
    case (Inl e)
    then show ?thesis using outcome by simp
  next
    case (Inr state')
    then have ok: "walk_ok by_id [] state'" "n \<in> closed_nodes state'" using outcome by simp_all
    then have "(n, n) \<notin> (index_edges by_id)\<^sup>+" by (auto simp: walk_ok_def)
    then show ?thesis using Cons.IH[OF ok(1) Cons.prems(2)] Cons.prems(3) Inr by (simp split: sum.splits)
  qed
qed simp

lemma require_acyclic_outcome:
  assumes "index_closed by_id"
  shows "(require_acyclic by_id = Inr () \<and> acyclic (index_edges by_id)) \<or>
    (\<exists>n. require_acyclic by_id = Inl (WorkflowDefinitionError ''workflow-definition-cycle'' (Some n)) \<and> (n, n) \<in> (index_edges by_id)\<^sup>+)"
proof -
  have "walk_ok by_id [] []" by (simp add: walk_ok_def closed_nodes_def)
  moreover have "\<forall>n \<in> set (dict_keys by_id). dict_has n by_id" by (auto simp: dict_keys_def dict_has_def map_of_eq_None_iff)
  ultimately have *: "case require_acyclic by_id of
      Inr u \<Rightarrow> \<forall>n \<in> set (dict_keys by_id). (n, n) \<notin> (index_edges by_id)\<^sup>+
    | Inl e \<Rightarrow> \<exists>n. e = WorkflowDefinitionError ''workflow-definition-cycle'' (Some n) \<and> (n, n) \<in> (index_edges by_id)\<^sup>+"
    using acyclic_starts_iff[OF _ assms] by (simp add: require_acyclic_def)
  show ?thesis
  proof (cases "require_acyclic by_id")
    case (Inr u)
    have "n \<in> set (dict_keys by_id)" if "(n, n) \<in> (index_edges by_id)\<^sup>+" for n
      using that index_edges_trancl_None[of by_id n n] by (force simp: dict_keys_def map_of_eq_None_iff)
    then show ?thesis using * Inr by (auto simp: acyclic_def)
  qed (use * in auto)
qed

section \<open>Every node of an acyclic definition is reachable from a root\<close>

lemma add_successors_Inr:
  assumes "set ps \<subseteq> fst ` set d"
  shows "\<exists>d'. add_successors name ps d = Inr d' \<and> fst ` set d' = fst ` set d \<and>
    (\<forall>n l. map_of d n = Some l \<longrightarrow> (\<exists>l'. map_of d' n = Some (l @ l') \<and> set l' = (if n \<in> set ps then {name} else {})))"
  using assms
proof (induction ps arbitrary: d)
  case (Cons p ps)
  then obtain names where p: "map_of d p = Some names" by (cases "map_of d p") (auto simp: map_of_eq_None_iff)
  let ?d = "dict_set p (names @ [name]) d"
  have dom: "fst ` set ?d = fst ` set d" using Cons.prems by (auto simp: fst_set_dict_set)
  then obtain d' where d': "add_successors name ps ?d = Inr d'" "fst ` set d' = fst ` set d"
      "\<And>n l. map_of ?d n = Some l \<Longrightarrow> \<exists>l'. map_of d' n = Some (l @ l') \<and> set l' = (if n \<in> set ps then {name} else {})"
    using Cons.IH[of ?d] Cons.prems by auto
  have "\<exists>l'. map_of d' n = Some (l @ l') \<and> set l' = (if n \<in> set (p # ps) then {name} else {})" if "map_of d n = Some l" for n l
  proof (cases "n = p")
    case True
    then have "l = names" using that p by simp
    moreover obtain l' where "map_of d' p = Some ((names @ [name]) @ l')" "set l' \<subseteq> {name}" using d'(3)[of p "names @ [name]"] by (auto split: if_splits)
    ultimately show ?thesis using True by (intro exI[of _ "name # l'"]) auto
  next
    case False
    then show ?thesis using d'(3)[of n l] that by simp
  qed
  then show ?case using d' p by auto
qed simp

lemma successors_fold:
  assumes "\<forall>node \<in> snd ` set entries. set (predecessors node) \<subseteq> fst ` set d"
  shows "\<exists>d'. foldM (\<lambda>d (name, node). add_successors name (predecessors node) d) d entries = Inr d' \<and> fst ` set d' = fst ` set d \<and>
    (\<forall>n l. map_of d n = Some l \<longrightarrow>
       (\<exists>l'. map_of d' n = Some (l @ l') \<and> set l' = {k. \<exists>node. (k, node) \<in> set entries \<and> n \<in> set (predecessors node)}))"
  using assms
proof (induction entries arbitrary: d)
  case (Cons e entries)
  obtain k node where e: "e = (k, node)" by (cases e)
  obtain d1 where d1: "add_successors k (predecessors node) d = Inr d1" "fst ` set d1 = fst ` set d"
      "\<And>n l. map_of d n = Some l \<Longrightarrow> \<exists>l'. map_of d1 n = Some (l @ l') \<and> set l' = (if n \<in> set (predecessors node) then {k} else {})"
    using add_successors_Inr[of "predecessors node" d k] Cons.prems by (auto simp: e)
  have known: "\<forall>node \<in> snd ` set entries. set (predecessors node) \<subseteq> fst ` set d1"
    using Cons.prems unfolding d1(2) by auto
  obtain d2 where d2: "foldM (\<lambda>d (name, node). add_successors name (predecessors node) d) d1 entries = Inr d2" "fst ` set d2 = fst ` set d1"
      "\<forall>n l. map_of d1 n = Some l \<longrightarrow>
         (\<exists>l'. map_of d2 n = Some (l @ l') \<and> set l' = {k. \<exists>node. (k, node) \<in> set entries \<and> n \<in> set (predecessors node)})"
    using Cons.IH[OF known] by (elim exE conjE) (rule that)
  have "\<exists>l'. map_of d2 n = Some (l @ l') \<and> set l' = {k. \<exists>node. (k, node) \<in> set (e # entries) \<and> n \<in> set (predecessors node)}"
    if l: "map_of d n = Some l" for n l
  proof -
    obtain l1 where l1: "map_of d1 n = Some (l @ l1)" "set l1 = (if n \<in> set (predecessors node) then {k} else {})" using d1(3)[OF l] by blast
    obtain l2 where "map_of d2 n = Some ((l @ l1) @ l2)" "set l2 = {k. \<exists>node. (k, node) \<in> set entries \<and> n \<in> set (predecessors node)}"
      using d2(3)[rule_format, OF l1(1)] by blast
    then show ?thesis using l1(2) by (intro exI[of _ "l1 @ l2"]) (auto simp: e)
  qed
  then show ?case using d1 d2 by (simp add: e)
qed simp

lemma index_entries: "index_closed by_id \<Longrightarrow> (k, node) \<in> set by_id \<longleftrightarrow> map_of by_id k = Some node"
  by (auto simp: index_closed_def dict_ok_def dest: map_of_SomeD)

lemma successors_Inr:
  assumes "index_closed by_id"
  obtains succs where "successors by_id = Inr succs" "\<And>n. dict_has n by_id \<longleftrightarrow> dict_has n succs"
    "\<And>n l. map_of succs n = Some l \<Longrightarrow> set l = {k. (n, k) \<in> index_edges by_id}"
proof -
  let ?d = "map (\<lambda>(name, node). (name, [])) by_id"
  have dom: "fst ` set ?d = fst ` set by_id" by force
  have known: "\<forall>node \<in> snd ` set by_id. set (predecessors node) \<subseteq> fst ` set ?d"
  proof
    fix node assume "node \<in> snd ` set by_id"
    then obtain k where "map_of by_id k = Some node" using index_entries[OF assms] by auto
    then have "dict_has p by_id" if "p \<in> set (predecessors node)" for p
      using assms that by (auto simp: index_closed_def index_edges_def)
    then show "set (predecessors node) \<subseteq> fst ` set ?d" unfolding dom by (auto simp: dict_has_def map_of_eq_None_iff)
  qed
  obtain succs where s: "successors by_id = Inr succs" "fst ` set succs = fst ` set by_id"
      "\<forall>n l. map_of ?d n = Some l \<longrightarrow> (\<exists>l'. map_of succs n = Some (l @ l') \<and> set l' = {k. \<exists>node. (k, node) \<in> set by_id \<and> n \<in> set (predecessors node)})"
    using successors_fold[OF known, folded successors_def, unfolded dom] by (elim exE conjE) (rule that)
  have "map_of ?d n = Some []" if "map_of by_id n \<noteq> None" for n
    using that by (induction by_id) (auto split: if_splits)
  moreover have "map_of by_id n \<noteq> None" if "map_of succs n = Some l" for n l
    using that s(2) by (metis map_of_eq_None_iff option.simps(3))
  ultimately have "set l = {k. (n, k) \<in> index_edges by_id}" if "map_of succs n = Some l" for n l
    using s(3)[rule_format, of n "[]"] that by (fastforce simp: index_entries[OF assms] index_edges_def)
  then show thesis using that[of succs] s(1,2) by (simp add: dict_has_def map_of_eq_None_iff)
qed

lemma forward_walk_closed:
  assumes "\<forall>n l k. map_of succs n = Some l \<longrightarrow> k \<in> set l \<longrightarrow> dict_has k succs" "\<forall>n \<in> set todo. dict_has n succs"
    and "\<forall>n \<in> set reached. \<forall>l. map_of succs n = Some l \<longrightarrow> set l \<subseteq> set reached \<union> set todo"
  shows "\<exists>r. forward_walk succs todo reached = Inr r \<and> set reached \<union> set todo \<subseteq> set r \<and>
    (\<forall>n \<in> set r. \<forall>l. map_of succs n = Some l \<longrightarrow> set l \<subseteq> set r)"
  using assms
proof (induction succs todo reached rule: forward_walk.induct)
  case (2 succs n todo reached)
  show ?case
  proof (cases "n \<in> set reached")
    case True
    then show ?thesis using 2(1)[OF True 2(3)] 2(4,5) by (auto simp: insert_absorb)
  next
    case new: False
    obtain names where names: "map_of succs n = Some names" using 2(4) by (auto simp: dict_has_def)
    have "\<forall>m \<in> set (rev names @ todo). dict_has m succs" using 2(3,4) names by (auto simp del: dict_has_iff)
    moreover have "\<forall>m \<in> set (n # reached). \<forall>l. map_of succs m = Some l \<longrightarrow> set l \<subseteq> set (n # reached) \<union> set (rev names @ todo)"
      using 2(5) names by auto
    ultimately obtain r where "forward_walk succs (rev names @ todo) (n # reached) = Inr r"
        "set (n # reached) \<union> set (rev names @ todo) \<subseteq> set r" "\<forall>n \<in> set r. \<forall>l. map_of succs n = Some l \<longrightarrow> set l \<subseteq> set r"
      using 2(2)[OF new names 2(3)] by blast
    then show ?thesis using names new by (intro exI[of _ r]) auto
  qed
qed simp

lemma index_edges_finite: "finite (index_edges by_id)"
proof (rule finite_subset)
  show "index_edges by_id \<subseteq> (\<Union>(k, node) \<in> set by_id. (\<lambda>p. (p, k)) ` set (predecessors node))"
    by (auto simp: index_edges_def dest!: map_of_SomeD)
qed auto

lemma require_reachable_acyclic:
  assumes closed: "index_closed by_id" and "acyclic (index_edges by_id)" "by_id \<noteq> []"
  shows "require_reachable by_id = Inr ()"
proof -
  let ?roots = "map fst (filter (\<lambda>(name, node). predecessors node = []) by_id)"
  have wf: "wf (index_edges by_id)" using finite_acyclic_wf[OF index_edges_finite assms(2)] .
  have roots: "n \<in> set ?roots \<longleftrightarrow> (\<exists>node. map_of by_id n = Some node \<and> predecessors node = [])" for n
    using index_entries[OF closed] by force
  have from_roots: "n \<in> R" if R: "set ?roots \<subseteq> R" "\<And>p n. p \<in> R \<Longrightarrow> (p, n) \<in> index_edges by_id \<Longrightarrow> n \<in> R" and n: "dict_has n by_id" for n R
    using wf n
  proof (induction n rule: wf_induct_rule)
    case (less n)
    then obtain node where node: "map_of by_id n = Some node" by (auto simp: dict_has_def)
    show ?case
    proof (cases "predecessors node")
      case Nil
      then show ?thesis using R(1) roots node by blast
    next
      case (Cons p ps)
      then have e: "(p, n) \<in> index_edges by_id" using node by (simp add: index_edges_def)
      then have "dict_has p by_id" using closed by (auto simp: index_closed_def)
      then show ?thesis using less.IH[OF e] R(2)[OF _ e] by blast
    qed
  qed
  obtain k node where "(k, node) \<in> set by_id" using assms(3) by (cases by_id) auto
  then have known: "dict_has k by_id" using index_entries[OF closed] by (simp add: dict_has_def)
  have some_root: "?roots \<noteq> []"
  proof
    assume none: "?roots = []"
    have "set ?roots \<subseteq> {}" unfolding none by simp
    from from_roots[OF this _ known] show False by simp
  qed
  obtain succs where succs: "successors by_id = Inr succs" "\<And>n. dict_has n by_id \<longleftrightarrow> dict_has n succs"
    "\<And>n l. map_of succs n = Some l \<Longrightarrow> set l = {k. (n, k) \<in> index_edges by_id}"
    using successors_Inr[OF closed] by blast
  have dom: "\<forall>n l k. map_of succs n = Some l \<longrightarrow> k \<in> set l \<longrightarrow> dict_has k succs"
    using succs by (auto simp: index_edges_def dict_has_def)
  have start: "\<forall>n \<in> set (rev ?roots). dict_has n succs"
  proof
    fix n assume "n \<in> set (rev ?roots)"
    then show "dict_has n succs" using roots[of n] succs(2)[of n] by (auto simp: dict_has_def)
  qed
  obtain r where r: "forward_walk succs (rev ?roots) [] = Inr r" "set ?roots \<subseteq> set r"
      "\<And>n l. n \<in> set r \<Longrightarrow> map_of succs n = Some l \<Longrightarrow> set l \<subseteq> set r"
    using forward_walk_closed[OF dom start, of "[]"] by auto
  have step: "n \<in> set r" if "p \<in> set r" "(p, n) \<in> index_edges by_id" for p n
  proof -
    have "dict_has p succs" using closed that(2) succs(2) by (auto simp: index_closed_def)
    then show ?thesis using r(3)[OF that(1)] succs(3) that(2) by (auto simp: dict_has_def)
  qed
  have "n \<in> set r" if "dict_has n by_id" for n using from_roots[OF r(2) step that] .
  then have none: "filter (\<lambda>name. name \<notin> set r) (dict_keys by_id) = []"
    by (force simp: filter_empty_conv dict_keys_def dict_has_def map_of_eq_None_iff)
  show ?thesis using some_root succs(1) r(1) unfolding require_reachable_def by (simp add: Let_def none)
qed

section \<open>Exactly the DAGs are accepted\<close>

definition fields_ok :: "workflow_node \<Rightarrow> bool" where
  "fields_ok node = (case node of
     AgentTaskNode _ _ spec message _ \<Rightarrow> ident_ok spec \<and> ident_ok message
   | MapNode _ _ keys spec message fan_out _ \<Rightarrow> ident_ok keys \<and> ident_ok spec \<and> ident_ok message \<and> 1 \<le> fan_out \<and> fan_out \<le> MAX_FAN_OUT
   | JoinNode _ _ \<Rightarrow> True
   | VerificationNode _ _ artifact target \<Rightarrow> ident_ok artifact \<and> ident_ok target
   | ApprovalNode _ _ review \<Rightarrow> ident_ok review)"

definition node_well_formed :: "workflow_node \<Rightarrow> bool" where
  "node_well_formed n \<longleftrightarrow> ident_ok (node_id n) \<and> int (length (predecessors n)) \<le> MAX_PREDECESSORS \<and> distinct (predecessors n) \<and>
     list_all ident_ok (predecessors n) \<and> node_id n \<notin> set (predecessors n) \<and> fields_ok n"

definition workflow_edges :: "workflow_definition \<Rightarrow> (pystr \<times> pystr) set" where
  "workflow_edges d = {(p, node_id n) |p n. n \<in> set (wd_nodes d) \<and> p \<in> set (predecessors n)}"

definition reference_ok :: "workflow_definition \<Rightarrow> workflow_node \<Rightarrow> bool" where
  "reference_ok d n \<longleftrightarrow> (case reference_of n of None \<Rightarrow> True
     | Some (r, k) \<Rightarrow> (\<exists>t \<in> set (wd_nodes d). node_id t = r \<and> node_kind t = k) \<and> (r, node_id n) \<in> (workflow_edges d)\<^sup>+)"

definition valid_workflow :: "workflow_definition \<Rightarrow> bool" where
  "valid_workflow d \<longleftrightarrow> ident_ok (wd_definition_id d) \<and> wd_nodes d \<noteq> [] \<and> int (length (wd_nodes d)) \<le> MAX_NODES \<and>
     distinct (map node_id (wd_nodes d)) \<and>
     (\<forall>n \<in> set (wd_nodes d). node_well_formed n \<and> set (predecessors n) \<subseteq> node_id ` set (wd_nodes d) \<and> reference_ok d n) \<and>
     acyclic (workflow_edges d)"

definition index_of :: "workflow_node list \<Rightarrow> node_index" where
  "index_of nodes = map (\<lambda>n. (node_id n, n)) nodes"

lemma index_of_Nil [simp]: "index_of nodes = [] \<longleftrightarrow> nodes = []"
  by (simp add: index_of_def)

lemma check_predecessors_Inr:
  "check_predecessors node seen ps = Inr u \<longleftrightarrow> list_all ident_ok ps \<and> node \<notin> set ps \<and> distinct ps \<and> set ps \<inter> set seen = {}"
  by (induction node seen ps rule: check_predecessors.induct) (auto simp: result_simps)

lemma freeze_node_fields_Inr: "freeze_node_fields n = Inr u \<longleftrightarrow> fields_ok n"
  by (cases n) (auto simp: freeze_node_fields_def fields_ok_def result_simps require_bounded_int_def)

lemma freeze_nodes_Inr:
  "freeze_nodes by_id nodes = Inr idx \<longleftrightarrow> idx = by_id @ index_of nodes \<and> distinct (map node_id nodes) \<and>
     node_id ` set nodes \<inter> fst ` set by_id = {} \<and> list_all node_well_formed nodes"
proof (induction nodes arbitrary: by_id)
  case Nil
  then show ?case by (auto simp: index_of_def)
next
  case (Cons n nodes)
  let ?k = "node_id n"
  show ?case
  proof (cases "node_well_formed n \<and> \<not> dict_has ?k by_id")
    case True
    then have new: "map_of by_id ?k = None" by (simp add: dict_has_def)
    have head: "freeze_nodes by_id (n # nodes) = freeze_nodes (dict_set ?k n by_id) nodes"
    proof -
      have "check_predecessors ?k [] (predecessors n) = Inr ()" "freeze_node_fields n = Inr ()" "require_workflow_identifier ?k ''node_id'' = Inr ?k"
        using True by (auto simp: check_predecessors_Inr freeze_node_fields_Inr result_simps node_well_formed_def)
      then show ?thesis using True by (simp add: node_well_formed_def)
    qed
    have IH: "freeze_nodes (dict_set ?k n by_id) nodes = Inr idx \<longleftrightarrow> idx = dict_set ?k n by_id @ index_of nodes \<and> distinct (map node_id nodes) \<and>
        node_id ` set nodes \<inter> fst ` set (dict_set ?k n by_id) = {} \<and> list_all node_well_formed nodes"
      by (rule Cons.IH)
    show ?thesis unfolding head IH using True new by (auto simp: dict_set_new index_of_def map_of_eq_None_iff)
  next
    case False
    have "\<not> (\<exists>idx. freeze_nodes by_id (n # nodes) = Inr idx)"
      using False by (auto simp: result_simps node_well_formed_def check_predecessors_Inr freeze_node_fields_Inr split: if_splits)
    then show ?thesis using False by (auto simp: dict_has_def map_of_eq_None_iff)
  qed
qed

lemma check_known_Inr: "check_known by_id n ps = Inr u \<longleftrightarrow> (\<forall>p \<in> set ps. dict_has p by_id)"
  by (induction by_id n ps rule: check_known.induct) auto

lemma check_edges_Inr:
  "check_edges by_id nodes = Inr u \<longleftrightarrow> (\<forall>n \<in> set nodes. (\<forall>p \<in> set (predecessors n). dict_has p by_id) \<and> require_reference n by_id = Inr ())"
  by (induction by_id nodes rule: check_edges.induct) (auto simp: result_simps check_known_Inr)

lemma map_of_index_of: "distinct (map node_id nodes) \<Longrightarrow> map_of (index_of nodes) k = Some n \<longleftrightarrow> n \<in> set nodes \<and> node_id n = k"
proof -
  assume "distinct (map node_id nodes)"
  then have "distinct (map fst (index_of nodes))" by (simp add: index_of_def o_def)
  then show ?thesis by (auto simp: index_of_def)
qed

lemma dict_has_index_of: "dict_has k (index_of nodes) \<longleftrightarrow> k \<in> node_id ` set nodes"
  unfolding dict_has_def index_of_def by (induction nodes) auto

lemma index_edges_of: "distinct (map node_id (wd_nodes d)) \<Longrightarrow> index_edges (index_of (wd_nodes d)) = workflow_edges d"
  by (auto simp: index_edges_def workflow_edges_def map_of_index_of)

lemma require_reference_Inr:
  assumes "distinct (map node_id (wd_nodes d))"
  shows "require_reference n (index_of (wd_nodes d)) = Inr () \<longleftrightarrow> reference_ok d n"
proof (cases "reference_of n")
  case (Some rk)
  obtain r k where rk: "rk = (r, k)" by (cases rk)
  have "(case map_of (index_of (wd_nodes d)) r of None \<Rightarrow> True | Some target \<Rightarrow> node_kind target \<noteq> k) \<longleftrightarrow>
      \<not> (\<exists>t \<in> set (wd_nodes d). node_id t = r \<and> node_kind t = k)"
  proof (cases "map_of (index_of (wd_nodes d)) r")
    case None
    then show ?thesis using map_of_index_of[OF assms, of r] by auto
  next
    case (Some t)
    then have "t \<in> set (wd_nodes d) \<and> node_id t = r" using map_of_index_of[OF assms] by simp
    moreover have "t' = t" if "t' \<in> set (wd_nodes d)" "node_id t' = r" for t' using map_of_index_of[OF assms, of r t'] that Some by simp
    ultimately show ?thesis using Some by auto
  qed
  then show ?thesis using Some rk
    by (simp add: require_reference_def reference_ok_def reaches_iff index_edges_of[OF assms] raise_if_eq_Inr)
qed (simp add: require_reference_def reference_ok_def)

lemma freeze_workflow_definition_Inr:
  "freeze_workflow_definition d = Inr d' \<longleftrightarrow> d' = d \<and> valid_workflow d"
proof (cases "distinct (map node_id (wd_nodes d)) \<and> list_all node_well_formed (wd_nodes d)")
  case True
  let ?idx = "index_of (wd_nodes d)"
  note edges = index_edges_of[OF conjunct1[OF True]]
  have nodes: "freeze_nodes [] (wd_nodes d) = Inr ?idx" using True by (simp add: freeze_nodes_Inr)
  have ok: "dict_ok ?idx" using True by (simp add: dict_ok_def index_of_def o_def)
  show ?thesis
  proof (cases "\<forall>n \<in> set (wd_nodes d). set (predecessors n) \<subseteq> node_id ` set (wd_nodes d)")
    case known: True
    then have closed: "index_closed ?idx" using ok by (auto simp: index_closed_def edges workflow_edges_def dict_has_index_of)
    have "require_acyclic ?idx = Inr () \<longleftrightarrow> acyclic (workflow_edges d)"
      using require_acyclic_outcome[OF closed] by (auto simp: edges acyclic_def)
    moreover have "wd_nodes d \<noteq> [] \<Longrightarrow> acyclic (workflow_edges d) \<Longrightarrow> require_reachable ?idx = Inr ()"
      using require_reachable_acyclic[OF closed] by (simp add: edges index_of_Nil)
    ultimately show ?thesis using True known
      by (auto simp: freeze_workflow_definition_def valid_workflow_def result_simps nodes check_edges_Inr dict_has_index_of
          require_reference_Inr list_all_iff split: if_splits)
  next
    case False
    then have "\<nexists>u. check_edges ?idx (wd_nodes d) = Inr u" by (auto simp: check_edges_Inr dict_has_index_of)
    then show ?thesis using False by (auto simp: freeze_workflow_definition_def valid_workflow_def result_simps nodes split: if_splits)
  qed
next
  case False
  then have "\<nexists>idx. freeze_nodes [] (wd_nodes d) = Inr idx" by (auto simp: freeze_nodes_Inr)
  then show ?thesis using False
    by (auto simp: freeze_workflow_definition_def valid_workflow_def result_simps list_all_iff split: if_splits)
qed

text \<open>
  C23: freezing accepts exactly the workflow DAGs, and returns them unchanged. A definition is
  accepted when, and only when, it has a valid identity, between one and 256 well-formed nodes
  with distinct identities, edges only between its own nodes and no cycle, and every Verification
  names an earlier Agent task and every Approval an earlier Verification. Both walks over the
  graph end for every input, and the checks for roots and reachability never refuse what the
  others accept.
\<close>

theorem freeze_accepts_exactly_dags:
  "freeze_workflow_definition d = Inr d' \<longleftrightarrow> d' = d \<and> valid_workflow d"
  by (rule freeze_workflow_definition_Inr)

end
