(* ===== verification/Workflow_Run.thy ===== *)
theory Workflow_Run imports Workflow_Projection Workflow_Graph begin

text \<open>
  A run against its definition (workflow/projection.py): the stream may only describe nodes the
  definition declares, a completed run has completed the whole DAG, and the nodes that are ready
  are those whose predecessors are durably settled.
\<close>

section \<open>Agreement with the definition\<close>

definition declared_capture :: "workflow_node \<Rightarrow> pystr option \<Rightarrow> bool option" where
  "declared_capture node expected_key =
     (if node_kind node = AGENT_TASK \<or> (node_kind node = MAP \<and> expected_key \<noteq> None) then Some (capture_artifact node) else None)"

definition require_declared_evidence ::
    "(pystr \<Rightarrow> pystr) \<Rightarrow> workflow_projection \<Rightarrow> workflow_node \<Rightarrow> pystr \<Rightarrow> node_state \<Rightarrow> pystr option \<Rightarrow> unit result" where
  "require_declared_evidence sha p node name state expected_key =
     require_evidence sha (wp_run_id p) name state (declared_capture node expected_key)"

definition declared_role :: "workflow_projection \<Rightarrow> node_index \<Rightarrow> pystr \<Rightarrow> (workflow_node \<times> pystr option) result" where
  "declared_role p by_id name =
     (case map_of by_id name of
        Some node \<Rightarrow> Inr (node, None)
      | None \<Rightarrow>
          (case origin_of_child p name of
             None \<Rightarrow> workflow_node_error ''workflow-node-undeclared'' name
           | Some (parent, key) \<Rightarrow>
               (case map_of by_id parent of
                  None \<Rightarrow> workflow_node_error ''workflow-node-undeclared'' name
                | Some node \<Rightarrow>
                    (if node_kind node \<noteq> MAP then workflow_node_error ''workflow-node-undeclared'' name
                     else Inr (node, Some key)))))"

definition agree_node :: "(pystr \<Rightarrow> pystr) \<Rightarrow> workflow_projection \<Rightarrow> node_index \<Rightarrow> pystr \<times> node_state \<Rightarrow> unit result" where
  "agree_node sha p by_id entry =
     (let (name, state) = entry in
      rbind (declared_role p by_id name) (\<lambda>(node, expected_key).
        if ns_map_key state \<noteq> expected_key then workflow_node_error ''workflow-node-map-key-invalid'' name
        else if ns_kind state \<noteq> node_kind node then workflow_node_error ''workflow-node-kind-mismatch'' name
        else if ns_status state = Node_Completed then require_declared_evidence sha p node name state expected_key
        else Inr ()))"

definition require_completed :: "workflow_projection \<Rightarrow> pystr \<Rightarrow> unit result" where
  "require_completed p name =
     (case state_of p name of
        None \<Rightarrow> workflow_node_error ''workflow-run-completion-incomplete'' name
      | Some state \<Rightarrow>
          (if ns_status state \<noteq> Node_Completed then workflow_node_error ''workflow-run-completion-incomplete'' name else Inr ()))"

fun each :: "('a \<Rightarrow> unit result) \<Rightarrow> 'a list \<Rightarrow> unit result" where
  "each f [] = Inr ()"
| "each f (x # xs) = rbind (f x) (\<lambda>_. each f xs)"

definition require_map_completed :: "workflow_projection \<Rightarrow> workflow_node \<Rightarrow> unit result" where
  "require_map_completed p node =
     (if node_kind node \<noteq> MAP then Inr ()
      else case map_of (wp_expansions p) (node_id node) of
        None \<Rightarrow> workflow_node_error ''workflow-run-completion-incomplete'' (node_id node)
      | Some expansion \<Rightarrow> each (require_completed p) (me_child_node_ids expansion))"

definition require_dag_completed :: "workflow_projection \<Rightarrow> workflow_definition \<Rightarrow> unit result" where
  "require_dag_completed p d =
     rbind (each (require_completed p) (map node_id (wd_nodes d))) (\<lambda>_.
       each (require_map_completed p) (wd_nodes d))"

definition require_definition_agrees :: "(pystr \<Rightarrow> pystr) \<Rightarrow> workflow_projection \<Rightarrow> workflow_definition \<Rightarrow> unit result" where
  "require_definition_agrees sha p d =
     rbind (each (agree_node sha p (index_of (wd_nodes d))) (wp_nodes p)) (\<lambda>_.
       if wp_terminal p = Some (lit (node_status_value Node_Completed)) then require_dag_completed p d else Inr ())"

definition node_outcome_of :: "workflow_projection \<Rightarrow> node_state \<Rightarrow> node_outcome" where
  "node_outcome_of p state = \<lparr>no_node_id = ns_node_id state, no_kind = ns_kind state, no_status = ns_status state,
     no_agent_id = ns_agent_id state, no_message_id = ns_message_id state, no_artifact_id = ns_artifact_id state,
     no_review_id = ns_review_id state, no_approval_digest = ns_approval_digest state,
     no_map_keys = map_keys_for p (ns_node_id state), no_failure_code = ns_failure_code state\<rparr>"

definition run_of :: "(pystr \<Rightarrow> pystr) \<Rightarrow> workflow_projection \<Rightarrow> workflow_definition \<Rightarrow> workflow_run result" where
  "run_of sha p d =
     rbind (freeze_workflow_definition d) (\<lambda>d.
     rbind (require_definition_agrees sha p d) (\<lambda>_.
       let outcomes = map (node_outcome_of p) (sort_key ns_node_id (dict_values (wp_nodes p)));
           status = (if wp_terminal p = Some (lit (node_status_value Node_Completed)) then Workflow_Completed
                     else if wp_terminal p = Some (lit (node_status_value Node_Failed)) then Workflow_Failed
                     else if wp_awaiting p \<noteq> [] then Workflow_Awaiting_Approval else Workflow_Running) in
       Inr \<lparr>wr_run_id = wp_run_id p, wr_definition_id = wp_definition_id p, wr_definition_hash = wp_definition_hash p,
            wr_status = status, wr_outcomes = outcomes, wr_awaiting_approval = wp_awaiting p,
            wr_failure_code = wp_failure_code p, wr_head_seq = wp_head_seq p\<rparr>))"

definition run_outcome :: "workflow_run \<Rightarrow> pystr \<Rightarrow> node_outcome option" where
  "run_outcome r name = find (\<lambda>item. no_node_id item = name) (wr_outcomes r)"

section \<open>Ready nodes\<close>

definition predecessor_settled :: "node_index \<Rightarrow> workflow_projection \<Rightarrow> pystr \<Rightarrow> bool" where
  "predecessor_settled by_id p predecessor =
     (if \<not> is_terminal p predecessor then False
      else case map_of by_id predecessor of
        None \<Rightarrow> True
      | Some node \<Rightarrow>
          (if node_kind node = MAP
           then (case map_of (wp_expansions p) predecessor of
                   None \<Rightarrow> False
                 | Some expansion \<Rightarrow> list_all (is_terminal p) (me_child_node_ids expansion))
           else True))"

definition map_children_failed :: "workflow_projection \<Rightarrow> pystr \<Rightarrow> bool" where
  "map_children_failed p predecessor =
     (case map_of (wp_expansions p) predecessor of
        None \<Rightarrow> False
      | Some expansion \<Rightarrow> list_ex (\<lambda>child. status_of p child = Node_Failed) (me_child_node_ids expansion))"

definition node_ready :: "node_index \<Rightarrow> workflow_projection \<Rightarrow> workflow_node \<Rightarrow> bool" where
  "node_ready by_id p node \<longleftrightarrow> status_of p (node_id node) = Node_Pending \<and>
     list_all (predecessor_settled by_id p) (predecessors node) \<and>
     \<not> list_ex (\<lambda>q. status_of p q = Node_Failed \<or> map_children_failed p q) (predecessors node)"

definition ready_children :: "node_index \<Rightarrow> workflow_projection \<Rightarrow> pystr \<times> map_expansion \<Rightarrow> (workflow_node \<times> pystr option) list" where
  "ready_children by_id p entry =
     (let (parent_id, expansion) = entry in
      case map_of by_id parent_id of
        None \<Rightarrow> []
      | Some parent \<Rightarrow>
          (if node_kind parent \<noteq> MAP then []
           else map (\<lambda>(key, child). (parent, Some key))
             (filter (\<lambda>(key, child). status_of p child = Node_Pending) (zip (me_map_keys expansion) (me_child_node_ids expansion)))))"

definition ready_nodes :: "workflow_definition \<Rightarrow> workflow_projection \<Rightarrow> (workflow_node \<times> pystr option) list" where
  "ready_nodes d p =
     (let by_id = index_of (wd_nodes d) in
      map (\<lambda>node. (node, None)) (filter (node_ready by_id p) (sort_key node_id (wd_nodes d))) @
      concat (map (ready_children by_id p) (sort_key fst (wp_expansions p))))"

section \<open>A completed run is whole\<close>

lemma each_Inr: "each f xs = Inr u \<longleftrightarrow> (\<forall>x \<in> set xs. f x = Inr ())"
  by (induction xs) (auto simp: rbind_eq_Inr)

lemma require_completed_Inr: "require_completed p name = Inr u \<longleftrightarrow> status_of p name = Node_Completed"
  by (auto simp: require_completed_def state_of_def status_of_def workflow_node_error_def split: option.splits)

definition node_done :: "workflow_projection \<Rightarrow> workflow_node \<Rightarrow> bool" where
  "node_done p node \<longleftrightarrow> status_of p (node_id node) = Node_Completed \<and>
     (node_kind node = MAP \<longrightarrow> (\<exists>expansion. map_of (wp_expansions p) (node_id node) = Some expansion \<and>
        (\<forall>child \<in> set (me_child_node_ids expansion). status_of p child = Node_Completed)))"

lemma require_dag_completed_Inr: "require_dag_completed p d = Inr u \<longleftrightarrow> (\<forall>node \<in> set (wd_nodes d). node_done p node)"
proof -
  have "require_map_completed p node = Inr () \<longleftrightarrow> (node_kind node = MAP \<longrightarrow> (\<exists>expansion. map_of (wp_expansions p) (node_id node) = Some expansion \<and>
        (\<forall>child \<in> set (me_child_node_ids expansion). status_of p child = Node_Completed)))" for node
    by (auto simp: require_map_completed_def each_Inr require_completed_Inr workflow_node_error_def split: option.splits)
  then show ?thesis by (auto simp: require_dag_completed_def rbind_eq_Inr each_Inr require_completed_Inr node_done_def)
qed

section \<open>Nothing is left when nothing is ready\<close>

lemma status_of_nodes_with:
  "dict_ok (wp_nodes p) \<Longrightarrow> s \<noteq> Node_Pending \<Longrightarrow> name \<in> set (nodes_with s p) \<longleftrightarrow> status_of p name = s"
proof -
  assume ok: "dict_ok (wp_nodes p)" "s \<noteq> Node_Pending"
  have "name \<in> set (nodes_with s p) \<longleftrightarrow> (\<exists>state. map_of (wp_nodes p) name = Some state \<and> ns_status state = s)"
    using ok(1) by (force simp: nodes_with_def dict_ok_def)
  then show ?thesis using ok(2) by (auto simp: status_of_def split: option.splits)
qed

text \<open>
  Where the predecessors of a node are done it is either started or ready, so by induction along
  the edges a quiet run in which nothing is ready has done everything.
\<close>

lemma quiet_node_done:
  assumes valid: "valid_workflow d" and quiet: "\<And>name. status_of p name \<in> {Node_Pending, Node_Completed}"
    and expanded: "\<And>node. node \<in> set (wd_nodes d) \<Longrightarrow> node_kind node = MAP \<Longrightarrow> status_of p (node_id node) = Node_Completed
      \<Longrightarrow> \<exists>e. map_of (wp_expansions p) (node_id node) = Some e \<and> length (me_map_keys e) = length (me_child_node_ids e)"
    and no_ready: "ready_nodes d p = []" and node: "node \<in> set (wd_nodes d)"
  shows "node_done p node"
proof -
  let ?by_id = "index_of (wd_nodes d)"
  have distinct: "distinct (map node_id (wd_nodes d))" and preds: "\<And>n. n \<in> set (wd_nodes d) \<Longrightarrow> set (predecessors n) \<subseteq> node_id ` set (wd_nodes d)"
    and acyclic: "acyclic (workflow_edges d)" using valid by (auto simp: valid_workflow_def)
  have edges: "workflow_edges d = index_edges ?by_id" using index_edges_of[OF distinct] by simp
  have wf: "wf (workflow_edges d)" unfolding edges using finite_acyclic_wf[OF index_edges_finite] acyclic edges by simp
  have not_ready: "\<not> node_ready ?by_id p n" if "n \<in> set (wd_nodes d)" for n
  proof
    assume "node_ready ?by_id p n"
    then have "(n, None) \<in> set (ready_nodes d p)" using that by (auto simp: ready_nodes_def Let_def)
    then show False using no_ready by simp
  qed
  have children: "status_of p child = Node_Completed"
    if n: "n \<in> set (wd_nodes d)" "node_kind n = MAP" and e: "map_of (wp_expansions p) (node_id n) = Some e" "length (me_map_keys e) = length (me_child_node_ids e)"
      and child: "child \<in> set (me_child_node_ids e)" for n e child
  proof (rule ccontr)
    assume "status_of p child \<noteq> Node_Completed"
    then have "status_of p child = Node_Pending" using quiet[of child] by simp
    moreover obtain key where "(key, child) \<in> set (zip (me_map_keys e) (me_child_node_ids e))"
      using child e(2) by (metis in_set_impl_in_set_zip2)
    ultimately have "(n, Some key) \<in> set (ready_children ?by_id p (node_id n, e))"
      using n map_of_index_of[OF distinct, of "node_id n" n] by (force simp: ready_children_def)
    then show False using no_ready map_of_SomeD[OF e(1)] by (force simp: ready_nodes_def Let_def)
  qed
  have "\<forall>n \<in> set (wd_nodes d). node_id n = k \<longrightarrow> node_done p n" for k
    using wf
  proof (induction k rule: wf_induct_rule)
    case (less k)
    show ?case
    proof (intro ballI impI)
      fix n assume n: "n \<in> set (wd_nodes d)" "node_id n = k"
      have earlier: "node_done p m" if "q \<in> set (predecessors n)" "m \<in> set (wd_nodes d)" "node_id m = q" for q m
        using less.IH[of q] n that by (auto simp: workflow_edges_def)
      have "status_of p k \<noteq> Node_Pending"
      proof
        assume waits: "status_of p k = Node_Pending"
        have "predecessor_settled ?by_id p q \<and> \<not> (status_of p q = Node_Failed \<or> map_children_failed p q)" if q: "q \<in> set (predecessors n)" for q
        proof -
          obtain m where m: "m \<in> set (wd_nodes d)" "node_id m = q" using preds[OF n(1)] q by auto
          have "map_of ?by_id q = Some m" using map_of_index_of[OF distinct] m by simp
          moreover have "\<not> status_of p c = Node_Failed" for c using quiet[of c] by auto
          ultimately show ?thesis using earlier[OF q m] m(2) expanded[OF m(1)]
            by (auto simp: predecessor_settled_def map_children_failed_def is_terminal_def node_done_def list_all_iff list_ex_iff split: option.splits)
        qed
        then have "node_ready ?by_id p n" using waits n(2) by (auto simp: node_ready_def list_all_iff list_ex_iff)
        then show False using not_ready[OF n(1)] by simp
      qed
      then have "status_of p k = Node_Completed" using quiet[of k] by simp
      then show "node_done p n" using n expanded[OF n(1)] children[OF n(1)] by (auto simp: node_done_def)
    qed
  qed
  then show ?thesis using node by blast
qed

end
