(* ===== verification/Workflow_Refinement.thy ===== *)
theory Workflow_Refinement imports Workflow_Projection begin

text \<open>
  What an accepted workflow stream means. The projector refines an abstract machine that starts
  nodes, expands maps, raises barriers, ends nodes and finishes, each once and in the order a
  node's life allows; the invariant says how the parts of the view hang together.
\<close>

section \<open>What each fact does\<close>

lemma mapM_Inr: "mapM f xs = Inr ys \<longleftrightarrow> list_all2 (\<lambda>x y. f x = Inr y) xs ys"
  by (induction xs arbitrary: ys) (auto simp: rbind_eq_Inr list_all2_Cons1)

lemma workflow_error_simps [simp]:
  "workflow_error c n \<noteq> Inr x" "Inr x \<noteq> workflow_error c n" "workflow_node_error c k \<noteq> Inr x" "Inr x \<noteq> workflow_node_error c k"
  by (simp_all add: workflow_error_def workflow_node_error_def)

lemma workflow_text_Inr [result_simps]: "workflow_text d k n = Inr s \<longleftrightarrow> jget d k = JStr s \<and> ident_ok s"
  by (auto simp: workflow_text_def split: json.splits)

lemma workflow_optional_Inr [result_simps]:
  "workflow_optional d k n = Inr x \<longleftrightarrow> jget d k = json_opt x \<and> (\<forall>s. x = Some s \<longrightarrow> ident_ok s)"
  by (cases x) (auto simp: workflow_optional_def result_simps)

lemma workflow_digest_Inr [result_simps]: "workflow_digest d k n = Inr s \<longleftrightarrow> jget d k = JStr s \<and> is_digest s"
  by (auto simp: workflow_digest_def split: json.splits)

lemma workflow_integer_Inr [result_simps]: "workflow_integer d k n = Inr i \<longleftrightarrow> jget d k = JInt i"
  by (auto simp: workflow_integer_def split: json.splits)

lemma workflow_identifier_list_Inr:
  "workflow_identifier_list d k n = Inr xs \<longleftrightarrow> jget d k = JList (map JStr xs) \<and> xs \<noteq> [] \<and> list_all ident_ok xs"
proof -
  have "list_all2 (\<lambda>item s. (case item of JStr s \<Rightarrow> (if ident_ok s then Inr s else workflow_error (invalid_code k) n)
          | _ \<Rightarrow> workflow_error (invalid_code k) n) = Inr s) items xs \<longleftrightarrow> items = map JStr xs \<and> list_all ident_ok xs" for items
  proof (induction items arbitrary: xs)
    case (Cons item items)
    then show ?case by (cases xs; cases item) auto
  qed auto
  then show ?thesis by (cases "jget d k") (auto simp: workflow_identifier_list_def mapM_Inr)
qed

lemma running_state_Inr: "running_state c s n q = Inr st \<longleftrightarrow> map_of (ws_nodes s) n = Some st \<and> ns_status st = Node_Running"
  by (auto simp: running_state_def split: option.splits if_splits)

lemma settled_node_Inr:
  assumes "settled_node st completed d q = Inr st'"
  shows "ns_node_id st' = ns_node_id st \<and> ns_kind st' = ns_kind st \<and> ns_map_key st' = ns_map_key st \<and>
    ns_status st' = (if completed then Node_Completed else Node_Failed)"
  using assms by (auto simp: settled_node_def result_simps)

lemma apply_workflow_fact_cases:
  assumes "apply_workflow_fact sha run ty d q s = Inr s'"
  obtains
    (run_started) "q = 1" "\<exists>i h. is_digest h \<and> s' = s\<lparr>ws_definition_id := i, ws_definition_hash := h\<rparr>"
  | (node_started) n kind where "q \<noteq> 1" "\<not> dict_has n (ws_nodes s)"
      "s' = s\<lparr>ws_nodes := dict_set n (started_node n kind (map_of (ws_child_keys s) n)) (ws_nodes s)\<rparr>"
  | (map_expanded) n st keys children ck where "q \<noteq> 1" "map_of (ws_nodes s) n = Some st" "ns_status st = Node_Running" "ns_kind st = MAP"
      "ns_map_key st = None" "\<not> dict_has n (ws_expansions s)" "keys \<noteq> []" "length keys = length children" "distinct keys"
      "list_all2 (\<lambda>k c. map_child_node_id sha n k = Inr c) keys children"
      "record_children s q (zip keys children) (ws_child_keys s) = Inr ck"
      "s' = s\<lparr>ws_child_keys := ck, ws_expansions := dict_set n
         \<lparr>me_node_id = n, me_map_keys = keys, me_child_node_ids = children\<rparr> (ws_expansions s)\<rparr>"
  | (node_ended) n st st' completed where "q \<noteq> 1" "map_of (ws_nodes s) n = Some st" "ns_status st = Node_Running"
      "ns_node_id st' = ns_node_id st" "ns_kind st' = ns_kind st" "ns_map_key st' = ns_map_key st"
      "ns_status st' = (if completed then Node_Completed else Node_Failed)"
      "completed \<Longrightarrow> require_evidence sha run n st' None = Inr ()"
      "s' = s\<lparr>ws_nodes := dict_set n st' (ws_nodes s), ws_awaiting := remove1 n (ws_awaiting s)\<rparr>"
  | (awaited) n st where "q \<noteq> 1" "map_of (ws_nodes s) n = Some st" "ns_status st = Node_Running" "n \<notin> set (ws_awaiting s)"
      "s' = s\<lparr>ws_awaiting := ws_awaiting s @ [n]\<rparr>"
  | (finished) status code where "q \<noteq> 1" "status \<in> set terminal_statuses" "s' = s\<lparr>ws_terminal := Some status, ws_failure_code := code\<rparr>"
proof -
  consider (a) "apply_run_started run d q s = Inr s'" | (b) "q \<noteq> 1" "apply_node_started d q s = Inr s'"
    | (c) "q \<noteq> 1" "apply_map_expanded sha d q s = Inr s'" | (e) completed where "q \<noteq> 1" "apply_node_ended sha run completed d q s = Inr s'"
    | (f) "q \<noteq> 1" "apply_approval_awaited d q s = Inr s'" | (g) "q \<noteq> 1" "apply_run_finished d q s = Inr s'"
    using assms by (auto simp: apply_workflow_fact_def split: if_splits)
  then show thesis
  proof cases
    case a
    then show thesis using run_started by (auto simp: apply_run_started_def result_simps split: if_splits)
  next
    case b
    then show thesis using node_started by (auto simp: apply_node_started_def result_simps split: if_splits)
  next
    case c
    then show thesis using map_expanded
      by (auto simp: apply_map_expanded_def result_simps running_state_Inr workflow_identifier_list_Inr mapM_Inr split: if_splits)
  next
    case e
    then obtain n st st' where r: "map_of (ws_nodes s) n = Some st" "ns_status st = Node_Running" "settled_node st completed d q = Inr st'"
        "completed \<Longrightarrow> require_evidence sha run n st' None = Inr ()"
        "s' = s\<lparr>ws_nodes := dict_set n st' (ws_nodes s), ws_awaiting := remove1 n (ws_awaiting s)\<rparr>"
      by (auto simp: apply_node_ended_def result_simps running_state_Inr split: if_splits)
    then show thesis using node_ended[of n st st' completed] e(1) settled_node_Inr[OF r(3)] by blast
  next
    case f
    then show thesis using awaited by (auto simp: apply_approval_awaited_def result_simps running_state_Inr split: if_splits)
  next
    case g
    then show thesis using finished by (auto simp: apply_run_finished_def result_simps split: if_splits)
  qed
qed

lemma scan_workflow_Inr:
  assumes "scan_workflow sha run sid s ev = Inr s'"
  obtains ty d where "ev_seq ev = ws_expected_seq s" "ev_stream_id ev = sid" "0 < ws_expected_seq s" "ws_terminal s = None"
    "apply_workflow_fact sha run ty d (ws_expected_seq s) (s\<lparr>ws_expected_seq := ws_expected_seq s + 1\<rparr>) = Inr s'"
  using assms
  by (auto simp: scan_workflow_def workflow_event_header_def read_workflow_header_def result_simps split: if_splits json.splits option.splits)

section \<open>The abstract machine\<close>

record orchestration =
  or_status :: "pystr \<Rightarrow> node_status"
  or_role :: "pystr \<Rightarrow> (workflow_node_kind \<times> pystr option) option"
  or_children :: "pystr \<Rightarrow> (pystr \<times> pystr) list"
  or_barrier :: "pystr set"
  or_verdict :: "pystr option"

definition child_role :: "orchestration \<Rightarrow> pystr \<Rightarrow> pystr option \<Rightarrow> bool" where
  "child_role s n key \<longleftrightarrow> (case key of None \<Rightarrow> \<forall>p. n \<notin> snd ` set (or_children s p) | Some k \<Rightarrow> \<exists>p. (k, n) \<in> set (or_children s p))"

inductive orchestrates :: "orchestration \<Rightarrow> orchestration \<Rightarrow> bool" where
  begin_run: "or_verdict s = None \<Longrightarrow> (\<And>n. or_status s n = Node_Pending) \<Longrightarrow> or_barrier s = {} \<Longrightarrow> orchestrates s s"
| start_node: "or_verdict s = None \<Longrightarrow> or_status s n = Node_Pending \<Longrightarrow> or_role s n = None \<Longrightarrow> child_role s n key \<Longrightarrow>
    orchestrates s (s\<lparr>or_status := (or_status s)(n := Node_Running), or_role := (or_role s)(n \<mapsto> (kind, key))\<rparr>)"
| expand_map: "or_verdict s = None \<Longrightarrow> or_status s n = Node_Running \<Longrightarrow> or_role s n = Some (MAP, None) \<Longrightarrow> or_children s n = [] \<Longrightarrow> kcs \<noteq> [] \<Longrightarrow>
    distinct (map fst kcs) \<Longrightarrow> distinct (map snd kcs) \<Longrightarrow>
    (\<And>c m. c \<in> snd ` set kcs \<Longrightarrow> or_status s c = Node_Pending \<and> c \<notin> snd ` set (or_children s m)) \<Longrightarrow>
    orchestrates s (s\<lparr>or_children := (or_children s)(n := kcs)\<rparr>)"
| raise_barrier: "or_verdict s = None \<Longrightarrow> or_status s n = Node_Running \<Longrightarrow> n \<notin> or_barrier s \<Longrightarrow> orchestrates s (s\<lparr>or_barrier := insert n (or_barrier s)\<rparr>)"
| end_node: "or_verdict s = None \<Longrightarrow> or_status s n = Node_Running \<Longrightarrow> status \<in> {Node_Completed, Node_Failed} \<Longrightarrow>
    orchestrates s (s\<lparr>or_status := (or_status s)(n := status), or_barrier := or_barrier s - {n}\<rparr>)"
| finish_run: "or_verdict s = None \<Longrightarrow> verdict \<in> set terminal_statuses \<Longrightarrow> orchestrates s (s\<lparr>or_verdict := Some verdict\<rparr>)"

definition expanded_children :: "(pystr, map_expansion) dict \<Rightarrow> pystr \<Rightarrow> (pystr \<times> pystr) list" where
  "expanded_children d n = (case map_of d n of None \<Rightarrow> [] | Some e \<Rightarrow> zip (me_map_keys e) (me_child_node_ids e))"

definition abstract_run :: "workflow_projection \<Rightarrow> orchestration" where
  "abstract_run p = \<lparr>or_status = status_of p, or_role = (\<lambda>n. map_option (\<lambda>st. (ns_kind st, ns_map_key st)) (map_of (wp_nodes p) n)),
     or_children = expanded_children (wp_expansions p), or_barrier = set (wp_awaiting p), or_verdict = wp_terminal p\<rparr>"

section \<open>The invariant of the projector\<close>

definition node_inv :: "(pystr \<Rightarrow> pystr) \<Rightarrow> pystr \<Rightarrow> (pystr, pystr) dict \<Rightarrow> pystr \<Rightarrow> node_state \<Rightarrow> bool" where
  "node_inv sha run child_keys n st \<longleftrightarrow> ns_node_id st = n \<and> ns_status st \<noteq> Node_Pending \<and> ns_map_key st = map_of child_keys n \<and>
     (ns_status st = Node_Completed \<longrightarrow> require_evidence sha run n st None = Inr ())"

definition expansion_inv :: "(pystr, node_state) dict \<Rightarrow> pystr \<Rightarrow> map_expansion \<Rightarrow> bool" where
  "expansion_inv nodes n e \<longleftrightarrow> me_node_id e = n \<and> me_map_keys e \<noteq> [] \<and> length (me_map_keys e) = length (me_child_node_ids e) \<and>
     distinct (me_map_keys e) \<and> distinct (me_child_node_ids e) \<and>
     (\<exists>st. map_of nodes n = Some st \<and> ns_kind st = MAP \<and> ns_map_key st = None)"

definition children_inv :: "(pystr, pystr) dict \<Rightarrow> (pystr, map_expansion) dict \<Rightarrow> bool" where
  "children_inv child_keys expansions \<longleftrightarrow>
     (\<forall>c k. map_of child_keys c = Some k \<longleftrightarrow> (\<exists>n. (k, c) \<in> set (expanded_children expansions n))) \<and>
     (\<forall>n m c. c \<in> snd ` set (expanded_children expansions n) \<longrightarrow> c \<in> snd ` set (expanded_children expansions m) \<longrightarrow> n = m)"

definition workflow_inv :: "(pystr \<Rightarrow> pystr) \<Rightarrow> pystr \<Rightarrow> workflow_scan \<Rightarrow> bool" where
  "workflow_inv sha run s \<longleftrightarrow> dict_ok (ws_nodes s) \<and> dict_ok (ws_expansions s) \<and>
     (\<forall>n st. map_of (ws_nodes s) n = Some st \<longrightarrow> node_inv sha run (ws_child_keys s) n st) \<and>
     (\<forall>n e. map_of (ws_expansions s) n = Some e \<longrightarrow> expansion_inv (ws_nodes s) n e) \<and>
     children_inv (ws_child_keys s) (ws_expansions s) \<and>
     distinct (ws_awaiting s) \<and> (\<forall>n \<in> set (ws_awaiting s). \<exists>st. map_of (ws_nodes s) n = Some st \<and> ns_status st = Node_Running) \<and>
     1 \<le> ws_expected_seq s \<and> (1 < ws_expected_seq s \<longrightarrow> ws_definition_hash s \<noteq> []) \<and>
     (ws_expected_seq s = 1 \<longrightarrow> ws_nodes s = [] \<and> ws_awaiting s = [])"

lemma workflow_invD:
  assumes "workflow_inv sha run s"
  shows "dict_ok (ws_nodes s)" "dict_ok (ws_expansions s)" "map_of (ws_nodes s) n = Some st \<Longrightarrow> node_inv sha run (ws_child_keys s) n st"
    "map_of (ws_expansions s) m = Some e \<Longrightarrow> expansion_inv (ws_nodes s) m e" "children_inv (ws_child_keys s) (ws_expansions s)"
    "distinct (ws_awaiting s)" "k \<in> set (ws_awaiting s) \<Longrightarrow> \<exists>st. map_of (ws_nodes s) k = Some st \<and> ns_status st = Node_Running"
    "1 \<le> ws_expected_seq s" "1 < ws_expected_seq s \<Longrightarrow> ws_definition_hash s \<noteq> []"
    "ws_expected_seq s = 1 \<Longrightarrow> ws_nodes s = [] \<and> ws_awaiting s = []"
  using assms by (simp_all add: workflow_inv_def)

lemma workflow_inv_empty: "workflow_inv sha run empty_workflow_scan"
  by (simp add: workflow_inv_def empty_workflow_scan_def children_inv_def expanded_children_def)

lemma record_children_Inr:
  assumes "record_children s q kcs ck = Inr ck'"
  shows "distinct (map snd kcs) \<and> (\<forall>c \<in> snd ` set kcs. map_of ck c = None \<and> map_of (ws_nodes s) c = None) \<and>
    (\<forall>c k. map_of ck' c = Some k \<longleftrightarrow> map_of ck c = Some k \<or> (k, c) \<in> set kcs)"
  using assms
proof (induction s q kcs ck rule: record_children.induct)
  case (2 s q key child rest ck)
  then have new: "map_of ck child = None" "map_of (ws_nodes s) child = None" and rest: "record_children s q rest (dict_set child key ck) = Inr ck'"
    by (auto simp: dict_has_def split: if_splits)
  have "\<not> (dict_has child ck \<or> dict_has child (ws_nodes s))" using new by (simp add: dict_has_def)
  note ih = 2(1)[OF this rest]
  note IH = conjunct1[OF ih] bspec[OF conjunct1[OF conjunct2[OF ih]]] conjunct2[OF conjunct2[OF ih], rule_format]
  have fresh: "child \<notin> snd ` set rest" using IH(2)[of child] by auto
  have "map_of ck c = None \<and> map_of (ws_nodes s) c = None" if "c \<in> snd ` set rest" for c
    using IH(2)[OF that] that fresh by (auto split: if_splits)
  moreover have "map_of ck' c = Some k \<longleftrightarrow> map_of ck c = Some k \<or> (k, c) \<in> set ((key, child) # rest)" for c k
    using IH(3)[of c k] new fresh by (cases "c = child") (auto simp: image_iff)
  ultimately show ?case using IH(1) fresh new by simp
qed simp

section \<open>Every accepted fact keeps the invariant\<close>

lemma expanded_children_set [simp]:
  "expanded_children (dict_set n e d) m = (if m = n then zip (me_map_keys e) (me_child_node_ids e) else expanded_children d m)"
  by (simp add: expanded_children_def)

lemma is_digest_nonempty: "is_digest h \<Longrightarrow> h \<noteq> []"
  by (auto simp: is_digest_def py_len_def)

lemma started_node_sel [simp]:
  "ns_node_id (started_node n k m) = n" "ns_kind (started_node n k m) = k" "ns_map_key (started_node n k m) = m"
  "ns_status (started_node n k m) = Node_Running"
  by (simp_all add: started_node_def)

lemma inv_node_started:
  assumes inv: "workflow_inv sha run s" and new: "\<not> dict_has n (ws_nodes s)" and q: "ws_expected_seq s \<noteq> 1"
  shows "workflow_inv sha run (s\<lparr>ws_expected_seq := ws_expected_seq s + 1,
    ws_nodes := dict_set n (started_node n kind (map_of (ws_child_keys s) n)) (ws_nodes s)\<rparr>)"
proof -
  note D = workflow_invD[OF inv]
  have n: "map_of (ws_nodes s) n = None" using new by (simp add: dict_has_def)
  have "expansion_inv (dict_set n st (ws_nodes s)) m e" if "map_of (ws_expansions s) m = Some e" for m e st
    using D(4)[OF that] n by (auto simp: expansion_inv_def)
  moreover have "\<exists>st. (if m = n then Some x else map_of (ws_nodes s) m) = Some st \<and> ns_status st = Node_Running" if "m \<in> set (ws_awaiting s)" for m x
    using D(7)[OF that] n by auto
  moreover have "node_inv sha run (ws_child_keys s) n (started_node n kind (map_of (ws_child_keys s) n))"
    by (simp add: node_inv_def)
  ultimately show ?thesis using D q unfolding workflow_inv_def by (simp add: fun_upd_def)
qed

lemma inv_map_expanded:
  assumes inv: "workflow_inv sha run s" and q: "ws_expected_seq s \<noteq> 1"
    and n: "map_of (ws_nodes s) n = Some st" "ns_kind st = MAP" "ns_map_key st = None" "\<not> dict_has n (ws_expansions s)"
    and keys: "keys \<noteq> []" "length keys = length children" "distinct keys"
    and rc: "record_children s' r (zip keys children) (ws_child_keys s) = Inr ck" "ws_nodes s' = ws_nodes s"
  shows "workflow_inv sha run (s\<lparr>ws_expected_seq := ws_expected_seq s + 1, ws_child_keys := ck,
    ws_expansions := dict_set n \<lparr>me_node_id = n, me_map_keys = keys, me_child_node_ids = children\<rparr> (ws_expansions s)\<rparr>)"
proof -
  note D = workflow_invD[OF inv]
  note ck = record_children_Inr[OF rc(1), unfolded rc(2)]
  have none: "expanded_children (ws_expansions s) n = []" using n(4) by (simp add: expanded_children_def dict_has_def)
  have ck_iff: "map_of ck c = Some k \<longleftrightarrow> map_of (ws_child_keys s) c = Some k \<or> (k, c) \<in> set (zip keys children)" for c k
    using ck by blast
  have fresh: "map_of (ws_child_keys s) c = None \<and> map_of (ws_nodes s) c = None" if "(k, c) \<in> set (zip keys children)" for k c
  proof -
    have "c \<in> snd ` set (zip keys children)" using that by force
    then show ?thesis by (rule bspec[OF conjunct1[OF conjunct2[OF ck]]])
  qed
  have same: "map_of ck m = map_of (ws_child_keys s) m" if "map_of (ws_nodes s) m = Some st'" for m st'
  proof -
    have "map_of ck m = Some k \<longleftrightarrow> map_of (ws_child_keys s) m = Some k" for k using ck_iff[of m k] fresh[of k m] that by auto
    then show ?thesis by (cases "map_of ck m") (metis not_None_eq)+
  qed
  have "node_inv sha run ck m st'" if "map_of (ws_nodes s) m = Some st'" for m st'
    using D(3)[OF that] same[OF that] by (simp add: node_inv_def)
  moreover have "distinct children" using ck keys(2) by (simp add: map_snd_zip)
  then have "expansion_inv (ws_nodes s) n \<lparr>me_node_id = n, me_map_keys = keys, me_child_node_ids = children\<rparr>"
    using keys n by (simp add: expansion_inv_def)
  moreover have "children_inv ck (dict_set n \<lparr>me_node_id = n, me_map_keys = keys, me_child_node_ids = children\<rparr> (ws_expansions s))"
  proof -
    have old: "map_of (ws_child_keys s) c = Some k \<longleftrightarrow> (\<exists>m. (k, c) \<in> set (expanded_children (ws_expansions s) m))" for c k
      using D(5) unfolding children_inv_def by blast
    have uniq: "m = m'" if "c \<in> snd ` set (expanded_children (ws_expansions s) m)" "c \<in> snd ` set (expanded_children (ws_expansions s) m')" for c m m'
      using D(5) that unfolding children_inv_def by blast
    have apart: "c \<notin> snd ` set (expanded_children (ws_expansions s) m)" if zipped: "c \<in> snd ` set (zip keys children)" for c m
    proof
      assume "c \<in> snd ` set (expanded_children (ws_expansions s) m)"
      then obtain k where "(k, c) \<in> set (expanded_children (ws_expansions s) m)" by auto
      then have "map_of (ws_child_keys s) c = Some k" using old by blast
      moreover obtain k' where "(k', c) \<in> set (zip keys children)" using zipped by auto
      ultimately show False using fresh by simp
    qed
    have "map_of ck c = Some k \<longleftrightarrow> (\<exists>m. (k, c) \<in> set (if m = n then zip keys children else expanded_children (ws_expansions s) m))" for c k
    proof
      assume "map_of ck c = Some k"
      then consider "(k, c) \<in> set (zip keys children)" | m where "(k, c) \<in> set (expanded_children (ws_expansions s) m)"
        using ck_iff[of c k] old[of c k] by blast
      then show "\<exists>m. (k, c) \<in> set (if m = n then zip keys children else expanded_children (ws_expansions s) m)"
      proof cases
        case (2 m)
        then have "m \<noteq> n" using none by auto
        then show ?thesis using 2 by (intro exI[of _ m]) simp
      qed (intro exI[of _ n], simp)
    next
      assume "\<exists>m. (k, c) \<in> set (if m = n then zip keys children else expanded_children (ws_expansions s) m)"
      then show "map_of ck c = Some k" using ck_iff[of c k] old[of c k] by (auto split: if_splits)
    qed
    moreover have "m = m'" if "c \<in> snd ` set (if m = n then zip keys children else expanded_children (ws_expansions s) m)"
      "c \<in> snd ` set (if m' = n then zip keys children else expanded_children (ws_expansions s) m')" for c m m'
      using that uniq[of c m m'] apart[of c m] apart[of c m'] by (cases "m = n"; cases "m' = n") (simp_all only: if_True if_False simp_thms)
    ultimately show ?thesis unfolding children_inv_def expanded_children_set map_expansion.simps by (intro conjI allI impI)
  qed
  ultimately show ?thesis using D q unfolding workflow_inv_def by simp
qed

lemma inv_node_ended:
  assumes inv: "workflow_inv sha run s" and q: "ws_expected_seq s \<noteq> 1"
    and n: "map_of (ws_nodes s) n = Some st" "ns_node_id st' = ns_node_id st" "ns_kind st' = ns_kind st" "ns_map_key st' = ns_map_key st"
      "ns_status st' = (if completed then Node_Completed else Node_Failed)" "completed \<Longrightarrow> require_evidence sha run n st' None = Inr ()"
  shows "workflow_inv sha run (s\<lparr>ws_expected_seq := ws_expected_seq s + 1, ws_nodes := dict_set n st' (ws_nodes s),
    ws_awaiting := remove1 n (ws_awaiting s)\<rparr>)"
proof -
  note D = workflow_invD[OF inv]
  have "node_inv sha run (ws_child_keys s) n st'" using D(3)[OF n(1)] n(2-6) by (auto simp: node_inv_def)
  moreover have "expansion_inv (dict_set n st' (ws_nodes s)) m e" if "map_of (ws_expansions s) m = Some e" for m e
    using D(4)[OF that] n(1,3,4) by (auto simp: expansion_inv_def)
  moreover have "\<exists>x. (if m = n then Some st' else map_of (ws_nodes s) m) = Some x \<and> ns_status x = Node_Running" if "m \<in> set (remove1 n (ws_awaiting s))" for m
    using D(6) D(7)[of m] that by (auto dest: notin_set_remove1)
  ultimately show ?thesis using D q unfolding workflow_inv_def by (simp add: fun_upd_def distinct_remove1)
qed

lemma workflow_step_inv:
  assumes inv: "workflow_inv sha run s" and step: "scan_workflow sha run sid s ev = Inr s'"
  shows "workflow_inv sha run s'"
proof -
  obtain ty d where f: "apply_workflow_fact sha run ty d (ws_expected_seq s) (s\<lparr>ws_expected_seq := ws_expected_seq s + 1\<rparr>) = Inr s'"
    using scan_workflow_Inr[OF step] by blast
  note D = workflow_invD[OF inv]
  from f show ?thesis
  proof (cases rule: apply_workflow_fact_cases)
    case run_started
    then show ?thesis using inv is_digest_nonempty by (auto simp: workflow_inv_def)
  next
    case (node_started n kind)
    then show ?thesis using inv_node_started[OF inv, of n kind] by simp
  next
    case (map_expanded n st keys children ck)
    then show ?thesis using inv_map_expanded[OF inv, of n st keys children _ _ ck] by simp
  next
    case (node_ended n st st' completed)
    then show ?thesis using inv_node_ended[OF inv, of n st st' completed] by simp
  next
    case (awaited n st)
    then show ?thesis using inv by (auto simp: workflow_inv_def)
  next
    case (finished status code)
    then show ?thesis using inv by (auto simp: workflow_inv_def)
  qed
qed

interpretation workflow: replay "scan_workflow sha run sid" empty_workflow_scan "workflow_inv sha run" for sha run sid
  by unfold_locales (rule workflow_inv_empty, rule workflow_step_inv)

section \<open>Every accepted fact is one step of the abstract machine\<close>

definition settled_kept :: "workflow_projection \<Rightarrow> workflow_projection \<Rightarrow> bool" where
  "settled_kept p p' \<longleftrightarrow> (\<forall>n. is_terminal p n \<longrightarrow> state_of p' n = state_of p n) \<and>
     (\<forall>n e. map_of (wp_expansions p) n = Some e \<longrightarrow> map_of (wp_expansions p') n = Some e)"

lemma abstract_sel [simp]:
  "or_status (abstract_run p) n = status_of p n"
  "or_role (abstract_run p) n = map_option (\<lambda>st. (ns_kind st, ns_map_key st)) (map_of (wp_nodes p) n)"
  "or_children (abstract_run p) n = expanded_children (wp_expansions p) n"
  "or_barrier (abstract_run p) = set (wp_awaiting p)"
  "or_verdict (abstract_run p) = wp_terminal p"
  by (simp_all add: abstract_run_def)

lemma make_projection_sel [simp]:
  "wp_nodes (make_projection run s) = ws_nodes s" "wp_expansions (make_projection run s) = ws_expansions s"
  "wp_awaiting (make_projection run s) = ws_awaiting s" "wp_terminal (make_projection run s) = ws_terminal s"
  "wp_definition_hash (make_projection run s) = ws_definition_hash s" "wp_run_id (make_projection run s) = run"
  "wp_head_seq (make_projection run s) = ws_expected_seq s - 1"
  by (simp_all add: make_projection_def)

lemma step_start:
  assumes inv: "workflow_inv sha run s" and going: "ws_terminal s = None" and new: "\<not> dict_has n (ws_nodes s)"
    and s': "ws_nodes s' = dict_set n (started_node n kind (map_of (ws_child_keys s) n)) (ws_nodes s)" "ws_expansions s' = ws_expansions s"
      "ws_awaiting s' = ws_awaiting s" "ws_terminal s' = ws_terminal s"
  shows "orchestrates (abstract_run (make_projection run s)) (abstract_run (make_projection run s'))"
proof -
  let ?a = "abstract_run (make_projection run s)" and ?key = "map_of (ws_child_keys s) n"
  have n: "map_of (ws_nodes s) n = None" using new by (simp add: dict_has_def)
  have kids: "map_of (ws_child_keys s) n = Some k \<longleftrightarrow> (\<exists>m. (k, n) \<in> set (expanded_children (ws_expansions s) m))" for k
    using workflow_invD(5)[OF inv] by (simp add: children_inv_def)
  have "child_role ?a n ?key"
  proof (cases ?key)
    case None
    then have "(k, n) \<notin> set (expanded_children (ws_expansions s) m)" for k m using kids[of k] by auto
    then show ?thesis using None by (auto simp: child_role_def)
  next
    case (Some k)
    then have "\<exists>m. (k, n) \<in> set (expanded_children (ws_expansions s) m)" using kids[of k] by blast
    then show ?thesis unfolding Some by (simp add: child_role_def)
  qed
  moreover have "abstract_run (make_projection run s') =
      ?a\<lparr>or_status := (or_status ?a)(n := Node_Running), or_role := (or_role ?a)(n \<mapsto> (kind, ?key))\<rparr>"
    using s' by (simp add: abstract_run_def status_of_def fun_eq_iff)
  ultimately show ?thesis using n going orchestrates.start_node[of ?a n ?key kind] by (simp add: status_of_def)
qed

lemma step_expand:
  assumes inv: "workflow_inv sha run s" and going: "ws_terminal s = None"
    and n: "map_of (ws_nodes s) n = Some st" "ns_status st = Node_Running" "ns_kind st = MAP" "ns_map_key st = None" "\<not> dict_has n (ws_expansions s)"
    and keys: "keys \<noteq> []" "length keys = length children" "distinct keys"
    and rc: "record_children r q (zip keys children) (ws_child_keys s) = Inr ck" "ws_nodes r = ws_nodes s"
    and s': "ws_nodes s' = ws_nodes s" "ws_awaiting s' = ws_awaiting s" "ws_terminal s' = ws_terminal s"
      "ws_expansions s' = dict_set n \<lparr>me_node_id = n, me_map_keys = keys, me_child_node_ids = children\<rparr> (ws_expansions s)"
  shows "orchestrates (abstract_run (make_projection run s)) (abstract_run (make_projection run s'))"
proof -
  let ?a = "abstract_run (make_projection run s)" and ?kcs = "zip keys children"
  note ck = record_children_Inr[OF rc(1), unfolded rc(2)]
  have kids: "map_of (ws_child_keys s) c = Some k \<longleftrightarrow> (\<exists>m. (k, c) \<in> set (expanded_children (ws_expansions s) m))" for c k
    using workflow_invD(5)[OF inv] by (simp add: children_inv_def)
  have fresh: "or_status ?a c = Node_Pending \<and> c \<notin> snd ` set (or_children ?a m)" if "c \<in> snd ` set ?kcs" for c m
  proof -
    have c: "map_of (ws_child_keys s) c = None" "map_of (ws_nodes s) c = None"
      using bspec[OF conjunct1[OF conjunct2[OF ck]] that] by simp_all
    then have "(k, c) \<notin> set (expanded_children (ws_expansions s) m)" for k using kids[of c k] by auto
    then show ?thesis using c(2) by (auto simp: status_of_def)
  qed
  have "or_status ?a n = Node_Running" "or_role ?a n = Some (MAP, None)" "or_children ?a n = []"
    using n by (simp_all add: status_of_def expanded_children_def dict_has_def)
  moreover have "?kcs \<noteq> []" "distinct (map fst ?kcs)" "distinct (map snd ?kcs)"
    using keys ck by (auto simp: map_fst_zip zip_eq_Nil_iff)
  moreover have "abstract_run (make_projection run s') = ?a\<lparr>or_children := (or_children ?a)(n := ?kcs)\<rparr>"
    using s' by (simp add: abstract_run_def status_of_def fun_eq_iff)
  ultimately show ?thesis using orchestrates.expand_map[of ?a n ?kcs] fresh going by simp
qed

lemma step_end:
  assumes inv: "workflow_inv sha run s" and going: "ws_terminal s = None"
    and n: "map_of (ws_nodes s) n = Some st" "ns_status st = Node_Running" "ns_kind st' = ns_kind st" "ns_map_key st' = ns_map_key st"
      "ns_status st' = (if completed then Node_Completed else Node_Failed)"
    and s': "ws_nodes s' = dict_set n st' (ws_nodes s)" "ws_awaiting s' = remove1 n (ws_awaiting s)" "ws_terminal s' = ws_terminal s"
      "ws_expansions s' = ws_expansions s"
  shows "orchestrates (abstract_run (make_projection run s)) (abstract_run (make_projection run s'))"
proof -
  let ?a = "abstract_run (make_projection run s)"
  have "set (remove1 n (ws_awaiting s)) = set (ws_awaiting s) - {n}" using workflow_invD(6)[OF inv] by (rule set_remove1_eq)
  then have "abstract_run (make_projection run s') = ?a\<lparr>or_status := (or_status ?a)(n := ns_status st'), or_barrier := or_barrier ?a - {n}\<rparr>"
    using n s' by (simp add: abstract_run_def status_of_def fun_eq_iff)
  then show ?thesis using orchestrates.end_node[of ?a n "ns_status st'"] n going by (simp add: status_of_def)
qed

lemma scan_refines:
  assumes inv: "workflow_inv sha run s" and step: "scan_workflow sha run sid s ev = Inr s'"
  shows "orchestrates (abstract_run (make_projection run s)) (abstract_run (make_projection run s')) \<and>
    settled_kept (make_projection run s) (make_projection run s')"
proof -
  let ?a = "abstract_run (make_projection run s)"
  obtain ty d where f: "apply_workflow_fact sha run ty d (ws_expected_seq s) (s\<lparr>ws_expected_seq := ws_expected_seq s + 1\<rparr>) = Inr s'"
      and going: "ws_terminal s = None" using scan_workflow_Inr[OF step] by blast
  have same: "abstract_run (make_projection run s') = ?a"
    if "ws_nodes s' = ws_nodes s" "ws_expansions s' = ws_expansions s" "ws_awaiting s' = ws_awaiting s" "ws_terminal s' = ws_terminal s"
    using that by (simp add: abstract_run_def status_of_def fun_eq_iff)
  note kept = settled_kept_def is_terminal_def state_of_def status_of_def dict_has_def
  from f show ?thesis
  proof (cases rule: apply_workflow_fact_cases)
    case run_started
    then have none: "ws_nodes s = []" "ws_awaiting s = []" using workflow_invD(10)[OF inv] by simp_all
    have "or_status ?a n = Node_Pending" for n by (simp add: none status_of_def)
    then have "orchestrates ?a ?a" using going none by (intro orchestrates.begin_run) simp_all
    then show ?thesis using same run_started(2) by (auto simp: kept)
  next
    case (node_started n kind)
    then show ?thesis using step_start[OF inv going, of n s' kind] by (auto simp: kept)
  next
    case (map_expanded n st keys children ck)
    then show ?thesis using step_expand[OF inv going, of n st keys children _ _ ck s'] by (auto simp: kept)
  next
    case (node_ended n st st' completed)
    then show ?thesis using step_end[OF inv going, of n st st' completed s'] by (auto simp: kept)
  next
    case (awaited n st)
    have "abstract_run (make_projection run s') = ?a\<lparr>or_barrier := insert n (or_barrier ?a)\<rparr>"
      using awaited(5) by (simp add: abstract_run_def status_of_def fun_eq_iff)
    moreover have "or_status ?a n = Node_Running" "n \<notin> or_barrier ?a" using awaited(2-4) by (simp_all add: status_of_def)
    ultimately show ?thesis using orchestrates.raise_barrier[of ?a n] awaited(5) going by (auto simp: kept)
  next
    case (finished status code)
    have "abstract_run (make_projection run s') = ?a\<lparr>or_verdict := Some status\<rparr>"
      using finished(3) by (simp add: abstract_run_def status_of_def fun_eq_iff)
    then show ?thesis using orchestrates.finish_run[of ?a status] finished(2,3) going by (auto simp: kept)
  qed
qed

lemma settled_kept_refl: "settled_kept p p"
  by (simp add: settled_kept_def)

lemma settled_kept_trans: "settled_kept p q \<Longrightarrow> settled_kept q r \<Longrightarrow> settled_kept p r"
  by (auto simp: settled_kept_def is_terminal_def status_of_def state_of_def)

lemma rebuild_workflow_Inr:
  "rebuild_workflow sha run es = Inr p \<longleftrightarrow> ident_ok run \<and>
     (\<exists>s. foldM (scan_workflow sha run (lit ''workflow:'' @ run)) empty_workflow_scan es = Inr s \<and> p = make_projection run s)"
proof -
  let ?f = "scan_workflow sha run (lit ''workflow:'' @ run)"
  have seq: "ws_expected_seq s = 1 + int (length es)" if "foldM ?f empty_workflow_scan es = Inr s" for s es
    using that
  proof (induction es arbitrary: s rule: rev_induct)
    case (snoc e es)
    then obtain t where t: "foldM ?f empty_workflow_scan es = Inr t" "?f t e = Inr s" by (auto simp: foldM_append result_simps)
    have "ws_expected_seq s = ws_expected_seq t + 1"
    proof -
      obtain ty d where "apply_workflow_fact sha run ty d (ws_expected_seq t) (t\<lparr>ws_expected_seq := ws_expected_seq t + 1\<rparr>) = Inr s"
        using scan_workflow_Inr[OF t(2)] by blast
      then show ?thesis by (cases rule: apply_workflow_fact_cases) auto
    qed
    then show ?case using snoc.IH[OF t(1)] by simp
  qed (simp add: empty_workflow_scan_def)
  have "es \<noteq> [] \<Longrightarrow> ws_definition_hash s \<noteq> []" if "foldM ?f empty_workflow_scan es = Inr s" for s
    using workflow_invD(9)[OF workflow.run_inv[OF that]] seq[OF that] by simp
  then show ?thesis by (auto simp: rebuild_workflow_def workflow_stream_id_def result_simps)
qed

lemma rebuild_workflow_prefix:
  assumes "rebuild_workflow sha run (es @ fs) = Inr p'"
  shows "\<exists>p. rebuild_workflow sha run es = Inr p \<and> orchestrates\<^sup>*\<^sup>* (abstract_run p) (abstract_run p') \<and> settled_kept p p'"
proof -
  let ?f = "scan_workflow sha run (lit ''workflow:'' @ run)"
  define R where "R s t \<longleftrightarrow> orchestrates\<^sup>*\<^sup>* (abstract_run (make_projection run s)) (abstract_run (make_projection run t)) \<and>
    settled_kept (make_projection run s) (make_projection run t)" for s t
  obtain t where t: "ident_ok run" "foldM ?f empty_workflow_scan (es @ fs) = Inr t" "p' = make_projection run t"
    using assms by (auto simp: rebuild_workflow_Inr)
  have "\<exists>s. foldM ?f empty_workflow_scan es = Inr s \<and> R s t"
  proof (rule workflow.run_relation[OF _ _ _ t(2)])
    show "R s s" for s by (simp add: R_def settled_kept_refl)
    show "R a b \<Longrightarrow> R b c \<Longrightarrow> R a c" for a b c unfolding R_def using settled_kept_trans by (meson rtranclp_trans)
    show "workflow_inv sha run s \<Longrightarrow> ?f s x = Inr s' \<Longrightarrow> R s s'" for s x s' using scan_refines by (auto simp: R_def)
  qed
  then show ?thesis using t by (auto simp: rebuild_workflow_Inr R_def)
qed

lemma run_steps:
  assumes "foldM (scan_workflow sha run sid) s fs = Inr t" "workflow_inv sha run s"
  shows "(orchestrates ^^ length fs) (abstract_run (make_projection run s)) (abstract_run (make_projection run t))"
  using assms
proof (induction fs arbitrary: s)
  case (Cons f fs)
  then obtain u where u: "scan_workflow sha run sid s f = Inr u" "foldM (scan_workflow sha run sid) u fs = Inr t"
    by (auto simp: result_simps)
  have "orchestrates (abstract_run (make_projection run s)) (abstract_run (make_projection run u))"
    using scan_refines[OF Cons.prems(2) u(1)] by blast
  moreover have "(orchestrates ^^ length fs) (abstract_run (make_projection run u)) (abstract_run (make_projection run t))"
    using Cons.IH[OF u(2) workflow_step_inv[OF Cons.prems(2) u(1)]] .
  ultimately show ?case unfolding length_Cons by (rule relpowp_Suc_I2)
qed simp

lemma rebuild_workflow_steps:
  assumes "rebuild_workflow sha run (es @ fs) = Inr p'" "rebuild_workflow sha run es = Inr p"
  shows "(orchestrates ^^ length fs) (abstract_run p) (abstract_run p')"
proof -
  let ?f = "scan_workflow sha run (lit ''workflow:'' @ run)"
  obtain s t where st: "foldM ?f empty_workflow_scan es = Inr s" "p = make_projection run s" "foldM ?f s fs = Inr t" "p' = make_projection run t"
    using assms by (auto simp: rebuild_workflow_Inr foldM_append result_simps)
  show ?thesis using run_steps[OF st(3) workflow.run_inv[OF st(1)]] st(2,4) by simp
qed

lemma finished_run_is_last:
  assumes "rebuild_workflow sha run (es @ fs) = Inr p'" "rebuild_workflow sha run es = Inr p" "wp_terminal p \<noteq> None"
  shows "fs = []"
proof (rule ccontr)
  assume "fs \<noteq> []"
  then obtain f fs' where fs: "fs = f # fs'" by (cases fs) auto
  let ?f = "scan_workflow sha run (lit ''workflow:'' @ run)"
  obtain s t where "foldM ?f empty_workflow_scan es = Inr s" "p = make_projection run s" "?f s f = Inr t"
    using assms(1,2) by (auto simp: rebuild_workflow_Inr foldM_append result_simps fs)
  moreover then have "ws_terminal s = None" using scan_workflow_Inr by blast
  ultimately show False using assms(3) by simp
qed

end
