(* ===== verification/Workflow_Properties.thy ===== *)
theory Workflow_Properties imports Workflow_Run Workflow_Refinement Event_Store begin

text \<open>
  The properties of workflow definitions and streams (workflow/models.py, workflow/projection.py),
  each at a run of three nodes: an Agent task that captures an artifact, its verification and the
  human approval of the verification.
\<close>

section \<open>A sample run\<close>

definition sample_sha :: "pystr \<Rightarrow> pystr" where
  "sample_sha text = replicate 64 97"

definition sample_workflow :: workflow_definition where
  "sample_workflow = \<lparr>wd_definition_id = lit ''d'', wd_nodes =
     [AgentTaskNode (lit ''a'') [] (lit ''s'') (lit ''m'') True, VerificationNode (lit ''v'') [lit ''a''] (lit ''a'') (lit ''t''),
      ApprovalNode (lit ''h'') [lit ''v''] (lit ''v'')]\<rparr>"

definition workflow_fact_event :: "int \<Rightarrow> string \<times> payload result \<Rightarrow> event_envelope" where
  "workflow_fact_event n f = materialize n sample_time (lit ''workflow:r'') n (pending (fst f) (projr (snd f)) 1)"

definition sample_task_evidence :: node_evidence where
  "sample_task_evidence = no_evidence\<lparr>ne_agent_id := Some (lit ''wf-agent-'' @ sample_sha []),
     ne_message_id := Some (lit ''wf-message-'' @ sample_sha []), ne_artifact_id := Some (lit ''art'')\<rparr>"

definition sample_review_evidence :: node_evidence where
  "sample_review_evidence = no_evidence\<lparr>ne_artifact_id := Some (lit ''art''), ne_review_id := Some (lit ''rev'')\<rparr>"

definition sample_run_events :: "event_envelope list" where
  "sample_run_events = map (\<lambda>(n, f). workflow_fact_event n f) (zip [1..9]
     [(WORKFLOW_RUN_STARTED, run_started_data (lit ''r'') (lit ''d'') (sample_sha [])),
      (WORKFLOW_NODE_STARTED, node_started_data (lit ''a'') AGENT_TASK None),
      (WORKFLOW_NODE_COMPLETED, node_completed_data (lit ''a'') AGENT_TASK None sample_task_evidence),
      (WORKFLOW_NODE_STARTED, node_started_data (lit ''v'') VERIFICATION None),
      (WORKFLOW_NODE_COMPLETED, node_completed_data (lit ''v'') VERIFICATION None sample_review_evidence),
      (WORKFLOW_NODE_STARTED, node_started_data (lit ''h'') APPROVAL None),
      (WORKFLOW_APPROVAL_AWAITED, approval_awaited_data (lit ''h'') (lit ''rev'')),
      (WORKFLOW_NODE_COMPLETED, node_completed_data (lit ''h'') APPROVAL None
        (sample_review_evidence\<lparr>ne_approval_digest := Some (sample_sha [])\<rparr>)),
      (WORKFLOW_RUN_FINISHED, run_finished_data (lit ''completed'') None)])"

definition sample_projection :: "nat \<Rightarrow> workflow_projection" where
  "sample_projection n = projr (rebuild_workflow sample_sha (lit ''r'') (take n sample_run_events))"

lemma sample_rebuilt_8: "rebuild_workflow sample_sha (lit ''r'') (take 8 sample_run_events) = Inr (sample_projection 8) \<and>
    is_ok (run_of sample_sha (sample_projection 8) sample_workflow) \<and> running_nodes (sample_projection 8) = [] \<and>
    failed_nodes (sample_projection 8) = [] \<and> ready_nodes sample_workflow (sample_projection 8) = [] \<and>
    is_terminal (sample_projection 8) (lit ''v'')"
proof -
  have "case rebuild_workflow sample_sha (lit ''r'') (take 8 sample_run_events) of Inl e \<Rightarrow> False | Inr p \<Rightarrow>
      is_ok (run_of sample_sha p sample_workflow) \<and> running_nodes p = [] \<and> failed_nodes p = [] \<and> ready_nodes sample_workflow p = [] \<and>
      is_terminal p (lit ''v'')" by code_simp
  then show ?thesis by (auto simp: sample_projection_def split: sum.splits)
qed

lemma sample_rebuilt_9: "rebuild_workflow sample_sha (lit ''r'') (take 9 sample_run_events) = Inr (sample_projection 9) \<and>
    (\<exists>r. run_of sample_sha (sample_projection 9) sample_workflow = Inr r \<and> wr_status r = Workflow_Completed)"
proof -
  have "case rebuild_workflow sample_sha (lit ''r'') (take 9 sample_run_events) of Inl e \<Rightarrow> False | Inr p \<Rightarrow>
      (case run_of sample_sha p sample_workflow of Inl e \<Rightarrow> False | Inr r \<Rightarrow> wr_status r = Workflow_Completed)" by code_simp
  then show ?thesis by (auto simp: sample_projection_def split: sum.splits)
qed

text \<open>A run of one map over one key; the third event of its stream is the expansion.\<close>

definition sample_map_workflow :: workflow_definition where
  "sample_map_workflow = \<lparr>wd_definition_id = lit ''d'',
     wd_nodes = [MapNode (lit ''m'') [] (lit ''k'') (lit ''s'') (lit ''b'') 2 True]\<rparr>"

definition sample_child :: pystr where
  "sample_child = lit ''wf-child-'' @ sample_sha []"

definition sample_map_events :: "event_envelope list" where
  "sample_map_events = map (\<lambda>(n, f). workflow_fact_event n f) (zip [1..7]
     [(WORKFLOW_RUN_STARTED, run_started_data (lit ''r'') (lit ''d'') (sample_sha [])),
      (WORKFLOW_NODE_STARTED, node_started_data (lit ''m'') MAP None),
      (WORKFLOW_MAP_EXPANDED, map_expanded_data sample_sha (lit ''m'') [lit ''x'']),
      (WORKFLOW_NODE_COMPLETED, node_completed_data (lit ''m'') MAP None no_evidence),
      (WORKFLOW_NODE_STARTED, node_started_data sample_child MAP (Some (lit ''x''))),
      (WORKFLOW_NODE_COMPLETED, node_completed_data sample_child MAP (Some (lit ''x'')) sample_task_evidence),
      (WORKFLOW_RUN_FINISHED, run_finished_data (lit ''completed'') None)])"

definition sample_map_projection :: "nat \<Rightarrow> workflow_projection" where
  "sample_map_projection n = projr (rebuild_workflow sample_sha (lit ''r'') (take n sample_map_events))"

lemma sample_map_rebuilt_6: "rebuild_workflow sample_sha (lit ''r'') (take 6 sample_map_events) = Inr (sample_map_projection 6) \<and>
    is_ok (run_of sample_sha (sample_map_projection 6) sample_map_workflow) \<and> running_nodes (sample_map_projection 6) = [] \<and>
    failed_nodes (sample_map_projection 6) = [] \<and> ready_nodes sample_map_workflow (sample_map_projection 6) = [] \<and>
    dict_has (lit ''m'') (wp_expansions (sample_map_projection 6))"
proof -
  have "case rebuild_workflow sample_sha (lit ''r'') (take 6 sample_map_events) of Inl e \<Rightarrow> False | Inr p \<Rightarrow>
      is_ok (run_of sample_sha p sample_map_workflow) \<and> running_nodes p = [] \<and> failed_nodes p = [] \<and> ready_nodes sample_map_workflow p = [] \<and>
      dict_has (lit ''m'') (wp_expansions p)" by code_simp
  then show ?thesis by (auto simp: sample_map_projection_def split: sum.splits)
qed

lemma sample_map_rebuilt_7: "rebuild_workflow sample_sha (lit ''r'') (take 7 sample_map_events) = Inr (sample_map_projection 7) \<and>
    (\<exists>r. run_of sample_sha (sample_map_projection 7) sample_map_workflow = Inr r \<and> wr_status r = Workflow_Completed) \<and>
    map_option me_child_node_ids (map_of (wp_expansions (sample_map_projection 7)) (lit ''m'')) = Some [sample_child]"
proof -
  have "case rebuild_workflow sample_sha (lit ''r'') (take 7 sample_map_events) of Inl e \<Rightarrow> False | Inr p \<Rightarrow>
      (case run_of sample_sha p sample_map_workflow of Inl e \<Rightarrow> False | Inr r \<Rightarrow> wr_status r = Workflow_Completed) \<and>
      map_option me_child_node_ids (map_of (wp_expansions p) (lit ''m'')) = Some [sample_child]" by code_simp
  then show ?thesis by (auto simp: sample_map_projection_def split: sum.splits)
qed

text \<open>The same map completed without an expansion: the projector accepts this stream as well.\<close>

definition sample_unexpanded_events :: "event_envelope list" where
  "sample_unexpanded_events = map (\<lambda>(n, f). workflow_fact_event n f) (zip [1..3]
     [(WORKFLOW_RUN_STARTED, run_started_data (lit ''r'') (lit ''d'') (sample_sha [])),
      (WORKFLOW_NODE_STARTED, node_started_data (lit ''m'') MAP None),
      (WORKFLOW_NODE_COMPLETED, node_completed_data (lit ''m'') MAP None no_evidence)])"

definition sample_unexpanded :: workflow_projection where
  "sample_unexpanded = projr (rebuild_workflow sample_sha (lit ''r'') sample_unexpanded_events)"

lemma sample_unexpanded_rebuilt: "rebuild_workflow sample_sha (lit ''r'') sample_unexpanded_events = Inr sample_unexpanded \<and>
    is_ok (run_of sample_sha sample_unexpanded sample_map_workflow) \<and> running_nodes sample_unexpanded = [] \<and>
    failed_nodes sample_unexpanded = [] \<and> ready_nodes sample_map_workflow sample_unexpanded = [] \<and>
    is_terminal sample_unexpanded (lit ''m'') \<and> \<not> dict_has (lit ''m'') (wp_expansions sample_unexpanded)"
proof -
  have "case rebuild_workflow sample_sha (lit ''r'') sample_unexpanded_events of Inl e \<Rightarrow> False | Inr p \<Rightarrow>
      is_ok (run_of sample_sha p sample_map_workflow) \<and> running_nodes p = [] \<and> failed_nodes p = [] \<and> ready_nodes sample_map_workflow p = [] \<and>
      is_terminal p (lit ''m'') \<and> \<not> dict_has (lit ''m'') (wp_expansions p)" by code_simp
  then show ?thesis by (auto simp: sample_unexpanded_def split: sum.splits)
qed

section \<open>Evidence\<close>

definition evidence_whole :: "(pystr \<Rightarrow> pystr) \<Rightarrow> pystr \<Rightarrow> workflow_node \<Rightarrow> node_state \<Rightarrow> bool" where
  "evidence_whole sha run n st \<longleftrightarrow> (case node_kind n of
     AGENT_TASK \<Rightarrow> (\<exists>ids. agent_identity sha run (node_id n) = Inr ids \<and> ns_agent_id st = Some (ai_agent_id ids) \<and>
         ns_message_id st = Some (ai_message_id ids)) \<and>
       (ns_artifact_id st \<noteq> None \<longleftrightarrow> capture_artifact n) \<and> ns_review_id st = None \<and> ns_approval_digest st = None
   | VERIFICATION \<Rightarrow> ns_agent_id st = None \<and> ns_artifact_id st \<noteq> None \<and> ns_review_id st \<noteq> None \<and> ns_approval_digest st = None
   | APPROVAL \<Rightarrow> ns_agent_id st = None \<and> ns_artifact_id st \<noteq> None \<and> ns_review_id st \<noteq> None \<and> ns_approval_digest st \<noteq> None
   | _ \<Rightarrow> ns_agent_id st = None \<and> ns_artifact_id st = None \<and> ns_review_id st = None \<and> ns_approval_digest st = None)"

text \<open>
  A child of a map does the work of an Agent task under the child's own derived identities, and
  captures an artifact exactly when the map declares it.
\<close>

definition child_whole :: "(pystr \<Rightarrow> pystr) \<Rightarrow> pystr \<Rightarrow> workflow_node \<Rightarrow> pystr \<Rightarrow> node_state \<Rightarrow> bool" where
  "child_whole sha run n child st \<longleftrightarrow> ns_status st = Node_Completed \<and>
     (\<exists>ids. agent_identity sha run child = Inr ids \<and> ns_agent_id st = Some (ai_agent_id ids) \<and> ns_message_id st = Some (ai_message_id ids)) \<and>
     (ns_artifact_id st \<noteq> None \<longleftrightarrow> capture_artifact n) \<and> ns_review_id st = None \<and> ns_approval_digest st = None"

definition children_whole :: "(pystr \<Rightarrow> pystr) \<Rightarrow> workflow_projection \<Rightarrow> workflow_node \<Rightarrow> bool" where
  "children_whole sha p n \<longleftrightarrow> (node_kind n = MAP \<longrightarrow> (\<exists>e. map_of (wp_expansions p) (node_id n) = Some e \<and>
     (\<forall>child \<in> set (me_child_node_ids e). \<exists>st. state_of p child = Some st \<and> child_whole sha (wp_run_id p) n child st)))"

lemma run_of_Inr:
  assumes "run_of sha p d = Inr r"
  shows "valid_workflow d" "require_definition_agrees sha p d = Inr ()"
    "wr_status r = Workflow_Completed \<longleftrightarrow> wp_terminal p = Some (lit (node_status_value Node_Completed))"
  using assms by (auto simp: run_of_def result_simps freeze_workflow_definition_Inr Let_def split: if_splits)

lemma declared_evidence_whole:
  assumes agrees: "require_definition_agrees sha p d = Inr ()" and valid: "valid_workflow d"
    and n: "n \<in> set (wd_nodes d)" "state_of p (node_id n) = Some st" "ns_status st = Node_Completed"
  shows "evidence_whole sha (wp_run_id p) n st"
proof -
  have "map_of (index_of (wd_nodes d)) (node_id n) = Some n" using n(1) valid by (simp add: map_of_index_of valid_workflow_def)
  then have role: "declared_role p (index_of (wd_nodes d)) (node_id n) = Inr (n, None)" by (simp add: declared_role_def)
  have "(node_id n, st) \<in> set (wp_nodes p)" using n(2) by (simp add: state_of_def map_of_SomeD)
  then have "agree_node sha p (index_of (wd_nodes d)) (node_id n, st) = Inr ()"
    using agrees by (auto simp: require_definition_agrees_def result_simps each_Inr)
  then have "ns_kind st = node_kind n" "ns_map_key st = None" "require_declared_evidence sha p n (node_id n) st None = Inr ()"
    using role n(3) by (auto simp: agree_node_def split: if_splits)
  then show ?thesis
    by (cases n) (auto simp: require_declared_evidence_def declared_capture_def require_evidence_def evidence_expected_def
        evidence_whole_def result_simps split: if_splits option.splits)
qed

text \<open>Where a child is looked up, its map is found: no two expansions share a child.\<close>

lemma find_member: "find P xs = Some x \<Longrightarrow> x \<in> set xs \<and> P x"
  by (induction xs) (auto split: if_splits)

lemma origin_of_child_Some:
  assumes "origin_of_child p c = Some (parent, key)"
  shows "\<exists>e. (parent, e) \<in> set (wp_expansions p) \<and> c \<in> snd ` set (zip (me_map_keys e) (me_child_node_ids e))"
proof -
  obtain pe where pe: "find (\<lambda>pe. child_in c pe \<noteq> None) (wp_expansions p) = Some pe" "child_in c pe = Some (parent, key)"
    using assms by (auto simp: origin_of_child_def split: option.splits)
  obtain kc where "find (\<lambda>(_, child). child = c) (zip (me_map_keys (snd pe)) (me_child_node_ids (snd pe))) = Some kc" "fst pe = parent"
    using pe(2) by (auto simp: child_in_def)
  then have "kc \<in> set (zip (me_map_keys (snd pe)) (me_child_node_ids (snd pe)))" "snd kc = c" "fst pe = parent"
    by (auto dest: find_member)
  moreover have "pe \<in> set (wp_expansions p)" using pe(1) by (auto dest: find_member)
  ultimately show ?thesis by (cases pe) (auto intro!: exI[of _ "snd pe"] image_eqI[of _ snd kc])
qed

lemma child_role_of:
  assumes inv: "workflow_inv sha run s" and p: "p = make_projection run s" and valid: "valid_workflow d"
    and n: "n \<in> set (wd_nodes d)" "map_of (wp_expansions p) (node_id n) = Some e" "c \<in> set (me_child_node_ids e)"
    and st: "state_of p c = Some st" and role: "declared_role p (index_of (wd_nodes d)) c = Inr (m, expected)" "ns_map_key st = expected"
  shows "m = n \<and> expected \<noteq> None"
proof -
  note D = workflow_invD[OF inv]
  have e: "map_of (ws_expansions s) (node_id n) = Some e" using n(2) p by simp
  then have "length (me_map_keys e) = length (me_child_node_ids e)" using D(4) by (auto simp: expansion_inv_def)
  then obtain key where key: "(key, c) \<in> set (expanded_children (ws_expansions s) (node_id n))"
    using n(3) e by (auto simp: expanded_children_def) (metis in_set_impl_in_set_zip2)
  then have "map_of (ws_child_keys s) c = Some key" using D(5) by (auto simp: children_inv_def)
  then have some: "expected = Some key" using D(3)[of c st] st p role(2) by (simp add: state_of_def node_inv_def)
  then obtain parent key' where o: "origin_of_child p c = Some (parent, key')" "map_of (index_of (wd_nodes d)) parent = Some m"
    using role(1) by (auto simp: declared_role_def workflow_node_error_def split: option.splits if_splits)
  obtain e' where "(parent, e') \<in> set (wp_expansions p)" "c \<in> snd ` set (zip (me_map_keys e') (me_child_node_ids e'))"
    using origin_of_child_Some[OF o(1)] by blast
  then have "c \<in> snd ` set (expanded_children (ws_expansions s) parent)"
    using D(2) p by (simp add: expanded_children_def dict_ok_def)
  moreover have "c \<in> snd ` set (expanded_children (ws_expansions s) (node_id n))" using key by force
  ultimately have "parent = node_id n" using D(5) unfolding children_inv_def by blast
  moreover have "map_of (index_of (wd_nodes d)) (node_id n) = Some n" using n(1) valid by (simp add: map_of_index_of valid_workflow_def)
  ultimately show ?thesis using o(2) some by simp
qed

lemma declared_children_whole:
  assumes run: "rebuild_workflow sha run es = Inr p" and agrees: "require_definition_agrees sha p d = Inr ()" and valid: "valid_workflow d"
    and n: "n \<in> set (wd_nodes d)" and whole: "node_done p n"
  shows "children_whole sha p n"
  unfolding children_whole_def
proof
  assume map: "node_kind n = MAP"
  then obtain e where e: "map_of (wp_expansions p) (node_id n) = Some e" and completed: "\<And>c. c \<in> set (me_child_node_ids e) \<Longrightarrow> status_of p c = Node_Completed"
    using whole by (auto simp: node_done_def)
  obtain s where s: "workflow_inv sha run s" "p = make_projection run s"
    using run by (auto simp: rebuild_workflow_Inr dest: workflow.run_inv)
  have "\<exists>st. state_of p c = Some st \<and> child_whole sha (wp_run_id p) n c st" if c: "c \<in> set (me_child_node_ids e)" for c
  proof -
    obtain st where st: "state_of p c = Some st" "ns_status st = Node_Completed"
      using completed[OF c] by (auto simp: status_of_def state_of_def split: option.splits)
    then have "(c, st) \<in> set (wp_nodes p)" by (simp add: state_of_def map_of_SomeD)
    then have "agree_node sha p (index_of (wd_nodes d)) (c, st) = Inr ()"
      using agrees by (auto simp: require_definition_agrees_def result_simps each_Inr)
    then obtain m expected where m: "declared_role p (index_of (wd_nodes d)) c = Inr (m, expected)" "ns_map_key st = expected"
        "ns_kind st = node_kind m" "require_declared_evidence sha p m c st expected = Inr ()"
      using st(2) by (auto simp: agree_node_def workflow_node_error_def result_simps split: if_splits)
    have "m = n" "expected \<noteq> None" using child_role_of[OF s valid n e c st(1) m(1,2)] by blast+
    then have "child_whole sha (wp_run_id p) n c st"
      using m st(2) map by (auto simp: child_whole_def require_declared_evidence_def declared_capture_def require_evidence_def
          evidence_expected_def result_simps split: if_splits option.splits)
    then show ?thesis using st(1) by blast
  qed
  then show "\<exists>e. map_of (wp_expansions p) (node_id n) = Some e \<and>
      (\<forall>child \<in> set (me_child_node_ids e). \<exists>st. state_of p child = Some st \<and> child_whole sha (wp_run_id p) n child st)"
    using e by blast
qed

section \<open>Properties\<close>

text \<open>
  C24: the projector of a workflow run refines the abstract orchestration machine, event by event.
  Every prefix of an accepted stream is accepted, and the events that follow it are as many steps
  of the machine: each single event is exactly one step (the run begins, a pending node starts, a
  running map expands once into fresh children, a running node waits at a barrier, a running node
  ends, the run gets its verdict). The state of a node that has ended never changes again, and
  nothing follows the verdict.
\<close>

theorem workflow_refines_orchestration:
  assumes "rebuild_workflow sha run (es @ fs) = Inr p'"
  shows "\<exists>p. rebuild_workflow sha run es = Inr p \<and> (orchestrates ^^ length fs) (abstract_run p) (abstract_run p') \<and>
    (\<forall>n. is_terminal p n \<longrightarrow> state_of p' n = state_of p n) \<and> (wp_terminal p \<noteq> None \<longrightarrow> fs = [])"
proof -
  obtain p where p: "rebuild_workflow sha run es = Inr p" "settled_kept p p'"
    using rebuild_workflow_prefix[OF assms] by blast
  then show ?thesis using finished_run_is_last[OF assms] rebuild_workflow_steps[OF assms] by (auto simp: settled_kept_def)
qed

theorem workflow_refines_orchestration_witness:
  "\<exists>p. rebuild_workflow sample_sha (lit ''r'') (take 8 sample_run_events) = Inr p \<and>
     orchestrates (abstract_run p) (abstract_run (sample_projection 9)) \<and> is_terminal p (lit ''v'') \<and>
     state_of (sample_projection 9) (lit ''v'') = state_of p (lit ''v'')"
proof -
  have "take 9 sample_run_events = take 8 sample_run_events @ take 1 (drop 8 sample_run_events)" by (simp add: take_add[symmetric])
  then have run: "rebuild_workflow sample_sha (lit ''r'') (take 8 sample_run_events @ take 1 (drop 8 sample_run_events)) = Inr (sample_projection 9)"
    using sample_rebuilt_9 by simp
  have "length (take 1 (drop 8 sample_run_events)) = 1" by (simp add: sample_run_events_def)
  moreover have "is_terminal (sample_projection 8) (lit ''v'')" using sample_rebuilt_8 by blast
  ultimately show ?thesis using workflow_refines_orchestration[OF run] sample_rebuilt_8 by auto
qed

text \<open>Every map that has ended has an expansion on record.\<close>

definition maps_expanded :: "workflow_definition \<Rightarrow> workflow_projection \<Rightarrow> bool" where
  "maps_expanded d p \<longleftrightarrow> list_all (\<lambda>n. node_kind n = MAP \<longrightarrow> is_terminal p (node_id n) \<longrightarrow> dict_has (node_id n) (wp_expansions p)) (wd_nodes d)"

lemma done_maps_expanded: "\<forall>n \<in> set (wd_nodes d). node_done p n \<Longrightarrow> maps_expanded d p"
  by (auto simp: maps_expanded_def list_all_iff node_done_def dict_has_def)

lemma quiet_expanded_complete:
  assumes "rebuild_workflow sha run es = Inr p" and "run_of sha p d = Inr r"
    and "running_nodes p = []" and "failed_nodes p = []" and "ready_nodes d p = []"
    and "\<forall>n \<in> set (wd_nodes d). node_kind n = MAP \<longrightarrow> is_terminal p (node_id n) \<longrightarrow> dict_has (node_id n) (wp_expansions p)"
  shows "(\<forall>n \<in> set (wd_nodes d). node_done p n) \<and>
    (\<exists>r'. run_of sha (p\<lparr>wp_terminal := Some (lit (node_status_value Node_Completed))\<rparr>) d = Inr r' \<and> wr_status r' = Workflow_Completed)"
proof -
  obtain s where s: "foldM (scan_workflow sha run (lit ''workflow:'' @ run)) empty_workflow_scan es = Inr s" "p = make_projection run s"
    using assms(1) by (auto simp: rebuild_workflow_Inr)
  note D = workflow_invD[OF workflow.run_inv[OF s(1)]]
  have ok: "dict_ok (wp_nodes p)" using D(1) s(2) by simp
  have not: "status_of p n \<noteq> Node_Running \<and> status_of p n \<noteq> Node_Failed" for n
    using status_of_nodes_with[OF ok, of Node_Running n] status_of_nodes_with[OF ok, of Node_Failed n] assms(3,4)
    by (simp add: running_nodes_def failed_nodes_def)
  then have quiet: "status_of p n \<in> {Node_Pending, Node_Completed}" for n by (cases "status_of p n") auto
  have expanded: "\<exists>e. map_of (wp_expansions p) (node_id n) = Some e \<and> length (me_map_keys e) = length (me_child_node_ids e)"
    if "n \<in> set (wd_nodes d)" "node_kind n = MAP" "status_of p (node_id n) = Node_Completed" for n
    using assms(6) that D(4) s(2) by (auto simp: is_terminal_def dict_has_iff expansion_inv_def)
  have all: "\<forall>n \<in> set (wd_nodes d). node_done p n"
    using quiet_node_done[OF run_of_Inr(1)[OF assms(2)] quiet expanded assms(5)] by blast
  let ?p = "p\<lparr>wp_terminal := Some (lit (node_status_value Node_Completed))\<rparr>"
  have origin: "origin_of_child ?p = origin_of_child p" by (simp add: fun_eq_iff origin_of_child_def)
  have evidence: "require_declared_evidence sha ?p = require_declared_evidence sha p" by (simp add: fun_eq_iff require_declared_evidence_def)
  have role: "declared_role ?p = declared_role p" unfolding fun_eq_iff declared_role_def origin by simp
  have "agree_node sha ?p by_id entry = agree_node sha p by_id entry" for by_id entry
    unfolding agree_node_def evidence role ..
  moreover have "node_done ?p n = node_done p n" for n by (simp add: node_done_def status_of_def)
  ultimately have "require_definition_agrees sha ?p d = Inr ()"
    using run_of_Inr(2)[OF assms(2)] all
    by (auto simp: require_definition_agrees_def result_simps each_Inr require_dag_completed_Inr)
  then show ?thesis using all run_of_Inr(1)[OF assms(2)] freeze_workflow_definition_Inr[of d d] by (simp add: run_of_def Let_def)
qed

text \<open>
  C25: a quiet run is a complete run, unless a map was never expanded. Take an accepted run that
  agrees with its definition, in which nothing runs, nothing has failed and nothing is ready. Then
  every node of the definition has completed and so has every child of every map, exactly when
  every map that has ended has an expansion on record; and exactly then the run can be finished as
  completed and the projector will agree. No acyclic definition deadlocks otherwise. The service
  records the expansion of a map before its completion; the projector does not ask for it.
\<close>

theorem quiet_run_is_complete:
  assumes "rebuild_workflow sha run es = Inr p" and "run_of sha p d = Inr r"
    and "running_nodes p = []" and "failed_nodes p = []" and "ready_nodes d p = []"
  shows "((\<forall>n \<in> set (wd_nodes d). node_done p n) \<longleftrightarrow> maps_expanded d p) \<and>
    ((\<exists>r'. run_of sha (p\<lparr>wp_terminal := Some (lit (node_status_value Node_Completed))\<rparr>) d = Inr r' \<and> wr_status r' = Workflow_Completed)
      \<longleftrightarrow> maps_expanded d p)"
proof -
  let ?p = "p\<lparr>wp_terminal := Some (lit (node_status_value Node_Completed))\<rparr>"
  have "(\<forall>n \<in> set (wd_nodes d). node_done p n) \<and> (\<exists>r'. run_of sha ?p d = Inr r' \<and> wr_status r' = Workflow_Completed)"
    if "maps_expanded d p"
    using quiet_expanded_complete[OF assms] that by (simp add: maps_expanded_def list_all_iff)
  moreover have "maps_expanded d p" if "run_of sha ?p d = Inr r'" for r'
  proof -
    have "require_dag_completed ?p d = Inr ()" using run_of_Inr(2)[OF that] by (auto simp: require_definition_agrees_def result_simps)
    then have "\<forall>n \<in> set (wd_nodes d). node_done p n" by (auto simp: require_dag_completed_Inr node_done_def status_of_def)
    then show ?thesis by (rule done_maps_expanded)
  qed
  ultimately show ?thesis using done_maps_expanded[of d p] by blast
qed

text \<open>The map of one key, expanded and done; and the same map completed without an expansion, which cannot be finished.\<close>

theorem quiet_run_is_complete_witness:
  "list_all (node_done (sample_map_projection 6)) (wd_nodes sample_map_workflow) \<and>
   (\<exists>r'. run_of sample_sha ((sample_map_projection 6)\<lparr>wp_terminal := Some (lit (node_status_value Node_Completed))\<rparr>) sample_map_workflow = Inr r' \<and>
     wr_status r' = Workflow_Completed) \<and>
   \<not> list_all (node_done sample_unexpanded) (wd_nodes sample_map_workflow) \<and>
   \<not> (\<exists>r'. run_of sample_sha (sample_unexpanded\<lparr>wp_terminal := Some (lit (node_status_value Node_Completed))\<rparr>) sample_map_workflow = Inr r' \<and>
     wr_status r' = Workflow_Completed)"
proof -
  have nodes: "wd_nodes sample_map_workflow = [MapNode (lit ''m'') [] (lit ''k'') (lit ''s'') (lit ''b'') 2 True]"
    by (simp add: sample_map_workflow_def)
  obtain r where "run_of sample_sha (sample_map_projection 6) sample_map_workflow = Inr r" using sample_map_rebuilt_6 by (auto simp: is_ok_iff)
  moreover have "maps_expanded sample_map_workflow (sample_map_projection 6)" using sample_map_rebuilt_6 by (simp add: maps_expanded_def nodes)
  moreover obtain r0 where "run_of sample_sha sample_unexpanded sample_map_workflow = Inr r0" using sample_unexpanded_rebuilt by (auto simp: is_ok_iff)
  moreover have "\<not> maps_expanded sample_map_workflow sample_unexpanded" using sample_unexpanded_rebuilt by (simp add: maps_expanded_def nodes)
  ultimately show ?thesis
    using quiet_run_is_complete[OF conjunct1[OF sample_map_rebuilt_6], of sample_map_workflow r] sample_map_rebuilt_6
      quiet_run_is_complete[OF conjunct1[OF sample_unexpanded_rebuilt], of sample_map_workflow r0] sample_unexpanded_rebuilt
    unfolding list_all_iff by blast
qed

text \<open>
  C26: a run that is reported completed has done everything its definition asks, with evidence.
  Every node has completed; an Agent task names exactly the Agent and the message derived from the
  run and the node, and an artifact exactly when it captures one; a verification names its artifact
  and review; no approval node is passed without the digest of a human approval. Every map has an
  expansion, and each of its children has completed, names exactly the Agent and the message
  derived from the run and the child, and an artifact exactly when the map captures one.
\<close>

theorem completed_run_is_whole:
  assumes "rebuild_workflow sha run es = Inr p" and "run_of sha p d = Inr r" and "wr_status r = Workflow_Completed" and "n \<in> set (wd_nodes d)"
  shows "node_done p n \<and> (\<exists>st. state_of p (node_id n) = Some st \<and> evidence_whole sha run n st) \<and> children_whole sha p n"
proof -
  have "require_dag_completed p d = Inr ()"
    using run_of_Inr(2,3)[OF assms(2)] assms(3) by (auto simp: require_definition_agrees_def result_simps)
  then have nd: "node_done p n" using assms(4) by (simp add: require_dag_completed_Inr)
  then obtain st where "state_of p (node_id n) = Some st" "ns_status st = Node_Completed"
    by (auto simp: node_done_def status_of_def state_of_def split: option.splits)
  moreover have "wp_run_id p = run" using assms(1) by (auto simp: rebuild_workflow_Inr)
  ultimately show ?thesis
    using nd declared_evidence_whole[OF run_of_Inr(2,1)[OF assms(2)] assms(4)]
      declared_children_whole[OF assms(1) run_of_Inr(2,1)[OF assms(2)] assms(4) nd] by auto
qed

text \<open>The run of three nodes, and the map whose child captures an artifact.\<close>

theorem completed_run_is_whole_witness:
  "list_all (\<lambda>n. node_done (sample_projection 9) n \<and>
      (\<exists>st. state_of (sample_projection 9) (node_id n) = Some st \<and> evidence_whole sample_sha (lit ''r'') n st)) (wd_nodes sample_workflow) \<and>
   (\<exists>st. state_of (sample_map_projection 7) sample_child = Some st \<and> ns_status st = Node_Completed \<and> ns_artifact_id st \<noteq> None)"
proof -
  obtain r where "run_of sample_sha (sample_projection 9) sample_workflow = Inr r" "wr_status r = Workflow_Completed"
    using sample_rebuilt_9 by blast
  then have whole: "node_done (sample_projection 9) n \<and>
      (\<exists>st. state_of (sample_projection 9) (node_id n) = Some st \<and> evidence_whole sample_sha (lit ''r'') n st)"
    if "n \<in> set (wd_nodes sample_workflow)" for n
    using completed_run_is_whole[OF conjunct1[OF sample_rebuilt_9]] that by blast
  let ?n = "MapNode (lit ''m'') [] (lit ''k'') (lit ''s'') (lit ''b'') 2 True"
  obtain r' where "run_of sample_sha (sample_map_projection 7) sample_map_workflow = Inr r'" "wr_status r' = Workflow_Completed"
    using sample_map_rebuilt_7 by blast
  then have "children_whole sample_sha (sample_map_projection 7) ?n"
    using completed_run_is_whole[OF conjunct1[OF sample_map_rebuilt_7], of sample_map_workflow r' ?n] by (simp add: sample_map_workflow_def)
  then have "\<exists>st. state_of (sample_map_projection 7) sample_child = Some st \<and> ns_status st = Node_Completed \<and> ns_artifact_id st \<noteq> None"
    using sample_map_rebuilt_7 by (auto simp: children_whole_def child_whole_def)
  then show ?thesis using whole unfolding list_all_iff by blast
qed

end
