(* ===== verification/Lifecycle.thy ===== *)
theory Lifecycle imports Agent_Registrar begin

text \<open>
  Lifecycle ownership (supervision/lifecycle.py): the ownership graph projected from the
  directory, its lineages and its child-first orders. The loops over owners and children have no
  visited set of their own: they are partial functions, and that they return is proved for every
  directory the projector accepts.
\<close>

section \<open>The ownership graph\<close>

type_synonym owner_index = "(pystr, pystr option) dict"

record ownership_graph =
  og_order :: "pystr list"
  og_owner :: owner_index
  og_children :: "(pystr, pystr list) dict"

fun link_children :: "owner_index \<Rightarrow> pystr list \<Rightarrow> (pystr, pystr list) dict \<Rightarrow> (pystr, pystr list) dict result" where
  "link_children owner [] children = Inr children"
| "link_children owner (a # as) children =
     (case map_of owner a of
        None \<Rightarrow> Inl PyKeyError
      | Some None \<Rightarrow> link_children owner as children
      | Some (Some b) \<Rightarrow>
          (if b = a then Inl (AgentOwnershipGraphError ''agent-owner-self'')
           else if \<not> dict_has b owner then Inl (AgentOwnershipGraphError ''agent-owner-unknown'')
           else case map_of children b of
             None \<Rightarrow> Inl PyKeyError
           | Some cs \<Rightarrow> link_children owner as (dict_set b (cs @ [a]) children)))"

function owner_walk :: "owner_index \<Rightarrow> pystr list \<Rightarrow> pystr option \<Rightarrow> unit result" where
  "owner_walk owner seen None = Inr ()"
| "owner_walk owner seen (Some a) =
     (if a \<in> set seen then Inl (AgentOwnershipGraphError ''agent-owner-cycle'')
      else case map_of owner a of
        None \<Rightarrow> Inl PyKeyError
      | Some cursor \<Rightarrow> owner_walk owner (a # seen) cursor)"
  by pat_completeness auto
termination
proof (relation "measure (\<lambda>(owner, seen, cursor). unseen_weight (\<lambda>_. [] :: unit list) owner (set seen))", goal_cases)
  case (2 owner seen a cursor)
  have "unseen_weight (\<lambda>_. [] :: unit list) owner (insert a (set seen)) < unseen_weight (\<lambda>_. [] :: unit list) owner (set seen)"
    using unseen_weight_insert[where edges = "\<lambda>_. [] :: unit list", OF 2(2,1)] by linarith
  then show ?case by simp
qed simp

fun check_cycles :: "owner_index \<Rightarrow> pystr list \<Rightarrow> unit result" where
  "check_cycles owner [] = Inr ()"
| "check_cycles owner (a # as) = rbind (owner_walk owner [] (Some a)) (\<lambda>_. check_cycles owner as)"

definition ownership_graph_of :: "agent_directory \<Rightarrow> ownership_graph result" where
  "ownership_graph_of directory =
     (let records = directory_records directory; order = map rec_agent_id records in
      if \<not> distinct order then Inl (AgentOwnershipGraphError ''agent-owner-id-duplicate'')
      else
        let owner = fold (\<lambda>r. dict_set (rec_agent_id r) (rec_owner_agent_id r)) records [];
            children = fold (\<lambda>a. dict_set a []) order [] in
        rbind (link_children owner order children) (\<lambda>children.
        rbind (check_cycles owner order) (\<lambda>_.
          Inr \<lparr>og_order = order, og_owner = owner, og_children = children\<rparr>)))"

partial_function (option) lineage_walk :: "owner_index \<Rightarrow> pystr option \<Rightarrow> pystr list \<Rightarrow> pystr list result option" where
  "lineage_walk owner cursor path =
     (case cursor of
        None \<Rightarrow> Some (Inr path)
      | Some a \<Rightarrow>
          (case map_of owner a of
             None \<Rightarrow> Some (Inl PyKeyError)
           | Some parent \<Rightarrow> lineage_walk owner parent (a # path)))"

definition lineage :: "ownership_graph \<Rightarrow> pystr \<Rightarrow> pystr list result option" where
  "lineage g a = (if \<not> dict_has a (og_owner g) then Some (Inr []) else lineage_walk (og_owner g) (Some a) [])"

definition lineage_for_new :: "ownership_graph \<Rightarrow> pystr \<Rightarrow> pystr option \<Rightarrow> pystr list result option" where
  "lineage_for_new g a owner =
     (case owner of
        None \<Rightarrow> Some (Inr [a])
      | Some b \<Rightarrow> map_option (\<lambda>r. rbind (r :: pystr list result) (\<lambda>path.
          if path = [] then Inl (AgentOwnershipGraphError ''agent-owner-unknown'') else Inr (path @ [a]))) (lineage g b))"

partial_function (option) postorder_walk ::
    "(pystr, pystr list) dict \<Rightarrow> (pystr \<times> bool) list \<Rightarrow> pystr list \<Rightarrow> pystr list result option" where
  "postorder_walk children stack out =
     (case stack of
        [] \<Rightarrow> Some (Inr out)
      | (a, expanded) # rest \<Rightarrow>
          (if expanded then postorder_walk children rest (out @ [a])
           else case map_of children a of
             None \<Rightarrow> Some (Inl PyKeyError)
           | Some cs \<Rightarrow> postorder_walk children (map (\<lambda>c. (c, False)) cs @ (a, True) # rest) out))"

definition subtree_postorder :: "ownership_graph \<Rightarrow> pystr \<Rightarrow> pystr list result option" where
  "subtree_postorder g a = (if \<not> dict_has a (og_owner g) then Some (Inr []) else postorder_walk (og_children g) [(a, False)] [])"

fun forest_walk :: "ownership_graph \<Rightarrow> pystr list \<Rightarrow> pystr list \<Rightarrow> pystr list result option" where
  "forest_walk g [] out = Some (Inr out)"
| "forest_walk g (a # as) out =
     (case map_of (og_owner g) a of
        None \<Rightarrow> Some (Inl PyKeyError)
      | Some (Some _) \<Rightarrow> forest_walk g as out
      | Some None \<Rightarrow>
          (case subtree_postorder g a of
             None \<Rightarrow> None
           | Some (Inl e) \<Rightarrow> Some (Inl e)
           | Some (Inr sub) \<Rightarrow> forest_walk g as (out @ sub)))"

definition forest_postorder :: "ownership_graph \<Rightarrow> pystr list result option" where
  "forest_postorder g = forest_walk g (og_order g) []"

section \<open>Ownership is a forest\<close>

definition owned_by :: "agent_record list \<Rightarrow> (pystr \<times> pystr) set" where
  "owned_by rs = {(rec_agent_id r, a) |r a. r \<in> set rs \<and> rec_owner_agent_id r = Some a}"

lemma owned_byI: "r \<in> set rs \<Longrightarrow> rec_owner_agent_id r = Some b \<Longrightarrow> (rec_agent_id r, b) \<in> owned_by rs"
  by (auto simp: owned_by_def)

lemma owned_byE:
  assumes "(a, b) \<in> owned_by rs"
  obtains r where "r \<in> set rs" "rec_agent_id r = a" "rec_owner_agent_id r = Some b"
  using assms by (auto simp: owned_by_def)

lemma owned_by_finite: "finite (owned_by rs)"
proof (rule finite_subset)
  show "owned_by rs \<subseteq> (\<lambda>r. (rec_agent_id r, the (rec_owner_agent_id r))) ` set rs" by (force simp: owned_by_def)
qed simp

lemma owned_by_known:
  assumes "owned_in_order rs"
  shows "(a, b) \<in> owned_by rs \<Longrightarrow> a \<in> rec_agent_id ` set rs \<and> b \<in> rec_agent_id ` set rs"
  using assms
proof (induction rs rule: rev_induct)
  case (snoc r rs)
  then show ?case by (auto simp: owned_in_order_snoc owned_by_def)
qed (simp add: owned_by_def)

lemma owned_by_acyclic: "owned_in_order rs \<Longrightarrow> distinct (map rec_agent_id rs) \<Longrightarrow> acyclic (owned_by rs)"
proof (induction rs rule: rev_induct)
  case Nil
  then show ?case by (simp add: owned_by_def acyclic_def)
next
  case (snoc r rs)
  then have rs: "owned_in_order rs" "acyclic (owned_by rs)" and own: "\<And>a. rec_owner_agent_id r = Some a \<Longrightarrow> a \<in> rec_agent_id ` set rs"
    and new: "rec_agent_id r \<notin> rec_agent_id ` set rs" by (auto simp: owned_in_order_snoc)
  show ?case
  proof (cases "rec_owner_agent_id r")
    case None
    then have "owned_by (rs @ [r]) = owned_by rs" by (auto simp: owned_by_def)
    then show ?thesis using rs by simp
  next
    case (Some a)
    have "owned_by (rs @ [r]) = insert (rec_agent_id r, a) (owned_by rs)" using Some by (auto simp: owned_by_def)
    moreover have "(a, rec_agent_id r) \<notin> (owned_by rs)\<^sup>*"
    proof
      assume "(a, rec_agent_id r) \<in> (owned_by rs)\<^sup>*"
      then have "a = rec_agent_id r \<or> rec_agent_id r \<in> rec_agent_id ` set rs"
        by (cases rule: rtranclE) (use owned_by_known[OF rs(1)] in auto)
      then show False using own[OF Some] new by auto
    qed
    ultimately show ?thesis using rs by (simp add: acyclic_insert)
  qed
qed

lemma owned_by_unique:
  assumes "distinct (map rec_agent_id rs)" "(a, b) \<in> owned_by rs" "(a, c) \<in> owned_by rs"
  shows "b = c"
proof -
  obtain r where r: "r \<in> set rs" "rec_agent_id r = a" "rec_owner_agent_id r = Some b"
    using assms(2) by (rule owned_byE)
  moreover obtain s where s: "s \<in> set rs" "rec_agent_id s = a" "rec_owner_agent_id s = Some c"
    using assms(3) by (rule owned_byE)
  moreover have "inj_on rec_agent_id (set rs)" using assms(1) by (simp add: distinct_map)
  ultimately have "r = s" using inj_onD[of rec_agent_id "set rs" r s] by simp
  then show ?thesis using r s by simp
qed

section \<open>Building the graph never fails on an accepted directory\<close>

lemma fold_dict_new:
  "distinct (map f xs @ map fst d) \<Longrightarrow> fold (\<lambda>x. dict_set (f x) (g x)) xs d = d @ map (\<lambda>x. (f x, g x)) xs"
  by (induction xs arbitrary: d) (auto simp: dict_set_new map_of_eq_None_iff)

lemma link_children_Inr:
  assumes "\<forall>a \<in> set as. \<exists>x. map_of owner a = Some x \<and> (\<forall>b. x = Some b \<longrightarrow> b \<noteq> a \<and> dict_has b owner)"
    and "\<forall>b. dict_has b children \<longleftrightarrow> dict_has b owner"
  obtains ch where "link_children owner as children = Inr ch" and "\<forall>b. dict_has b ch \<longleftrightarrow> dict_has b owner"
    and "\<forall>b cs. map_of children b = Some cs \<longrightarrow> map_of ch b = Some (cs @ filter (\<lambda>a. map_of owner a = Some (Some b)) as)"
  using assms
proof (induction as arbitrary: children thesis)
  case (Cons a as)
  have tail: "\<forall>a \<in> set as. \<exists>x. map_of owner a = Some x \<and> (\<forall>b. x = Some b \<longrightarrow> b \<noteq> a \<and> dict_has b owner)"
    using Cons.prems(2) by simp
  have "a \<in> set (a # as)" by simp
  from bspec[OF Cons.prems(2) this] obtain x where x: "map_of owner a = Some x" "\<forall>b. x = Some b \<longrightarrow> b \<noteq> a \<and> dict_has b owner"
    by (elim exE conjE) (rule that)
  show ?case
  proof (cases x)
    case None
    show ?thesis
    proof (rule Cons.IH[OF _ tail Cons.prems(3)])
      fix ch assume ch: "link_children owner as children = Inr ch" "\<forall>b. dict_has b ch \<longleftrightarrow> dict_has b owner"
        "\<forall>b cs. map_of children b = Some cs \<longrightarrow> map_of ch b = Some (cs @ filter (\<lambda>a. map_of owner a = Some (Some b)) as)"
      have "\<forall>b cs. map_of children b = Some cs \<longrightarrow> map_of ch b = Some (cs @ filter (\<lambda>a. map_of owner a = Some (Some b)) (a # as))"
        using ch(3) x(1) None by simp
      then show thesis using Cons.prems(1) ch(1,2) x(1) None by simp
    qed
  next
    case (Some b)
    then have b: "b \<noteq> a" "dict_has b owner" using x(2) by simp_all
    then obtain cs where cs: "map_of children b = Some cs" using Cons.prems(3)[rule_format, of b] by (auto simp: dict_has_iff)
    let ?children = "dict_set b (cs @ [a]) children"
    have keys: "\<forall>c. dict_has c ?children \<longleftrightarrow> dict_has c owner"
      using Cons.prems(3) b(2) by auto
    show ?thesis
    proof (rule Cons.IH[OF _ tail keys])
      fix ch assume ch: "link_children owner as ?children = Inr ch" "\<forall>b. dict_has b ch \<longleftrightarrow> dict_has b owner"
        "\<forall>c ds. map_of ?children c = Some ds \<longrightarrow> map_of ch c = Some (ds @ filter (\<lambda>a. map_of owner a = Some (Some c)) as)"
      have "map_of ch c = Some (ds @ filter (\<lambda>a. map_of owner a = Some (Some c)) (a # as))" if ds: "map_of children c = Some ds" for c ds
      proof (cases "c = b")
        case True
        then show ?thesis using ch(3)[rule_format, of b "cs @ [a]"] ds cs x(1) Some by simp
      next
        case False
        then show ?thesis using ch(3)[rule_format, of c ds] ds x(1) Some by simp
      qed
      then have "\<forall>c ds. map_of children c = Some ds \<longrightarrow> map_of ch c = Some (ds @ filter (\<lambda>a. map_of owner a = Some (Some c)) (a # as))"
        by blast
      moreover have "link_children owner (a # as) children = Inr ch" using ch(1) b cs x(1) Some by simp
      ultimately show thesis using Cons.prems(1) ch(2) by simp
    qed
  qed
qed (simp)

definition graph_over :: "agent_record list \<Rightarrow> ownership_graph \<Rightarrow> bool" where
  "graph_over rs g \<longleftrightarrow> og_order g = map rec_agent_id rs \<and> distinct (map rec_agent_id rs) \<and> owned_in_order rs \<and>
     og_owner g = map (\<lambda>r. (rec_agent_id r, rec_owner_agent_id r)) rs \<and>
     (\<forall>b. dict_has b (og_children g) \<longleftrightarrow> b \<in> rec_agent_id ` set rs) \<and>
     (\<forall>b cs. map_of (og_children g) b = Some cs \<longrightarrow> cs = filter (\<lambda>a. (a, b) \<in> owned_by rs) (map rec_agent_id rs))"

lemma owner_dict:
  assumes "distinct (map rec_agent_id rs)"
  shows "map_of (map (\<lambda>r. (rec_agent_id r, rec_owner_agent_id r)) rs) a = Some x \<longleftrightarrow>
    (\<exists>r \<in> set rs. rec_agent_id r = a \<and> rec_owner_agent_id r = x)"
proof -
  have "distinct (map fst (map (\<lambda>r. (rec_agent_id r, rec_owner_agent_id r)) rs))" using assms by (simp add: o_def)
  then have "map_of (map (\<lambda>r. (rec_agent_id r, rec_owner_agent_id r)) rs) a = Some x \<longleftrightarrow>
      (a, x) \<in> set (map (\<lambda>r. (rec_agent_id r, rec_owner_agent_id r)) rs)" by simp
  also have "\<dots> \<longleftrightarrow> (\<exists>r \<in> set rs. rec_agent_id r = a \<and> rec_owner_agent_id r = x)" by auto
  finally show ?thesis .
qed

lemma owner_is:
  assumes "graph_over rs g"
  shows "map_of (og_owner g) a = Some (Some b) \<longleftrightarrow> (a, b) \<in> owned_by rs"
    and "dict_has a (og_owner g) \<longleftrightarrow> a \<in> rec_agent_id ` set rs"
    and "map_of (og_owner g) a = Some None \<Longrightarrow> (a, b) \<notin> owned_by rs"
proof -
  have owner: "map_of (og_owner g) a = Some x \<longleftrightarrow> (\<exists>r \<in> set rs. rec_agent_id r = a \<and> rec_owner_agent_id r = x)" for a x
    using assms owner_dict[of rs] by (simp add: graph_over_def)
  show *: "map_of (og_owner g) a = Some (Some b) \<longleftrightarrow> (a, b) \<in> owned_by rs" for b
    unfolding owner owned_by_def by blast
  show "dict_has a (og_owner g) \<longleftrightarrow> a \<in> rec_agent_id ` set rs" unfolding dict_has_iff owner by blast
  show "map_of (og_owner g) a = Some None \<Longrightarrow> (a, b) \<notin> owned_by rs" using * by auto
qed

lemma owner_walk_Inr:
  assumes "acyclic R" and "\<forall>a x. map_of owner a = Some x \<longrightarrow> (\<forall>b. x = Some b \<longrightarrow> (a, b) \<in> R \<and> dict_has b owner)"
    and "\<forall>a. cursor = Some a \<longrightarrow> dict_has a owner \<and> (\<forall>b \<in> set seen. (b, a) \<in> R\<^sup>+)"
  shows "owner_walk owner seen cursor = Inr ()"
  using assms(2,3)
proof (induction owner seen cursor rule: owner_walk.induct)
  case (2 owner seen a)
  obtain x where x: "map_of owner a = Some x" using 2(3) by (auto simp: dict_has_iff)
  have below: "\<forall>b \<in> set seen. (b, a) \<in> R\<^sup>+" using 2(3) by simp
  then have new: "a \<notin> set seen" using assms(1) by (auto simp: acyclic_def)
  have "owner_walk owner (a # seen) x = Inr ()"
  proof (rule 2(1)[OF new x 2(2)], intro allI impI)
    fix b assume "x = Some b"
    then have b: "(a, b) \<in> R" "dict_has b owner" using 2(2) x by auto
    then show "dict_has b owner \<and> (\<forall>c \<in> set (a # seen). (c, b) \<in> R\<^sup>+)"
      using below by (auto intro: trancl_into_trancl)
  qed
  then show ?case using new x by simp
qed simp

lemma check_cycles_Inr: "check_cycles owner as = Inr () \<longleftrightarrow> (\<forall>a \<in> set as. owner_walk owner [] (Some a) = Inr ())"
  by (induction as) (simp_all add: result_simps del: owner_walk.simps)

lemma ownership_graph_built:
  assumes ok: "directory_ok d"
  obtains g where "ownership_graph_of d = Inr g" and "graph_over (dir_records d) g"
proof -
  let ?rs = "dir_records d"
  let ?owner = "map (\<lambda>r. (rec_agent_id r, rec_owner_agent_id r)) ?rs"
  let ?none = "map (\<lambda>a. (a, [])) (map rec_agent_id ?rs) :: (pystr, pystr list) dict"
  have ids: "distinct (map rec_agent_id ?rs)" "owned_in_order ?rs" using ok by (simp_all add: directory_ok_def indexes_def)
  have records: "directory_records d = ?rs" by (simp add: directory_records_def map_idI)
  have owner: "fold (\<lambda>r. dict_set (rec_agent_id r) (rec_owner_agent_id r)) ?rs [] = ?owner"
    using fold_dict_new[where f = rec_agent_id and g = rec_owner_agent_id and xs = ?rs and d = "[]"] ids(1) by simp
  have none: "fold (\<lambda>a. dict_set a []) (map rec_agent_id ?rs) [] = ?none"
    using fold_dict_new[where f = "\<lambda>a. a" and g = "\<lambda>a. []" and xs = "map rec_agent_id ?rs" and d = "[]"] ids(1) by simp
  note D = owner_dict[OF ids(1)]
  have has: "dict_has b ?owner \<longleftrightarrow> b \<in> rec_agent_id ` set ?rs" for b unfolding dict_has_iff D by blast
  have has0: "dict_has b ?none \<longleftrightarrow> b \<in> rec_agent_id ` set ?rs" for b by (simp add: dict_has_def map_of_eq_None_iff image_image)
  have edge: "map_of ?owner a = Some (Some b) \<longleftrightarrow> (a, b) \<in> owned_by ?rs" for a b unfolding D owned_by_def by blast
  have irrefl: "b \<noteq> a" if "(a, b) \<in> owned_by ?rs" for a b
    using owned_by_acyclic[OF ids(2,1)] that by (auto simp: acyclic_def)
  have step: "\<forall>a \<in> set (map rec_agent_id ?rs). \<exists>x. map_of ?owner a = Some x \<and> (\<forall>b. x = Some b \<longrightarrow> b \<noteq> a \<and> dict_has b ?owner)"
  proof
    fix a assume "a \<in> set (map rec_agent_id ?rs)"
    then obtain x where "map_of ?owner a = Some x" using has by (auto simp: dict_has_iff)
    then show "\<exists>x. map_of ?owner a = Some x \<and> (\<forall>b. x = Some b \<longrightarrow> b \<noteq> a \<and> dict_has b ?owner)"
      using edge irrefl owned_by_known[OF ids(2)] has by blast
  qed
  have same: "\<forall>b. dict_has b ?none \<longleftrightarrow> dict_has b ?owner" using has has0 by blast
  from link_children_Inr[OF step same] obtain ch where ch: "link_children ?owner (map rec_agent_id ?rs) ?none = Inr ch"
    "\<forall>b. dict_has b ch \<longleftrightarrow> dict_has b ?owner"
    "\<forall>b cs. map_of ?none b = Some cs \<longrightarrow> map_of ch b = Some (cs @ filter (\<lambda>a. map_of ?owner a = Some (Some b)) (map rec_agent_id ?rs))"
    by blast
  have kids: "cs = filter (\<lambda>a. (a, b) \<in> owned_by ?rs) (map rec_agent_id ?rs)" if "map_of ch b = Some cs" for b cs
  proof -
    have "dict_has b ch" using that by (simp add: dict_has_iff)
    then have "dict_has b ?none" by (simp only: ch(2) has has0)
    then have "map_of ?none b = Some []" using map_of_SomeD[of ?none b] by (auto simp: dict_has_iff)
    then show ?thesis using ch(3)[rule_format, of b "[]"] that by (simp only: edge append_Nil option.inject)
  qed
  have "\<forall>a x. map_of ?owner a = Some x \<longrightarrow> (\<forall>b. x = Some b \<longrightarrow> (a, b) \<in> owned_by ?rs \<and> dict_has b ?owner)"
  proof (intro allI impI)
    fix a x b assume "map_of ?owner a = Some x" "x = Some b"
    then have "(a, b) \<in> owned_by ?rs" using edge[of a b] by (simp only:)
    then show "(a, b) \<in> owned_by ?rs \<and> dict_has b ?owner" using owned_by_known[OF ids(2), of a b] has[of b] by simp
  qed
  then have "owner_walk ?owner [] (Some a) = Inr ()" if "a \<in> set (map rec_agent_id ?rs)" for a
    using that has by (intro owner_walk_Inr[OF owned_by_acyclic[OF ids(2,1)]]) auto
  then have "check_cycles ?owner (map rec_agent_id ?rs) = Inr ()" by (simp only: check_cycles_Inr) blast
  then have "ownership_graph_of d = Inr \<lparr>og_order = map rec_agent_id ?rs, og_owner = ?owner, og_children = ch\<rparr>"
    unfolding ownership_graph_of_def Let_def records owner none using ids(1) ch(1) by (simp add: result_simps)
  moreover have "graph_over ?rs \<lparr>og_order = map rec_agent_id ?rs, og_owner = ?owner, og_children = ch\<rparr>"
    unfolding graph_over_def using ids kids ch(2) has by simp
  ultimately show thesis by (rule that)
qed

section \<open>Lineages\<close>

text \<open>
  The lineage of an Agent goes from its root to itself, each Agent owned by the one before it;
  without its last member it holds exactly the strict owners.
\<close>

definition lineage_of :: "(pystr \<times> pystr) set \<Rightarrow> pystr \<Rightarrow> pystr list \<Rightarrow> bool" where
  "lineage_of R a path \<longleftrightarrow> path \<noteq> [] \<and> last path = a \<and> successively (\<lambda>x y. (y, x) \<in> R) path \<and>
     (\<forall>b. (hd path, b) \<notin> R) \<and> set (butlast path) = {b. (a, b) \<in> R\<^sup>+}"

lemma lineage_of_root: "\<forall>b. (a, b) \<notin> R \<Longrightarrow> lineage_of R a [a]"
  by (auto simp: lineage_of_def elim: converse_tranclE)

lemma lineage_of_snoc:
  assumes path: "lineage_of R b path" and edge: "(a, b) \<in> R" and unique: "single_valued R"
  shows "lineage_of R a (path @ [a])"
proof -
  have up: "{c. (a, c) \<in> R\<^sup>+} = insert b {c. (b, c) \<in> R\<^sup>+}"
    using edge unique by (auto elim: converse_tranclE dest: single_valuedD trancl_into_trancl2)
  have "set path = insert b (set (butlast path))"
    using path by (metis append_butlast_last_id lineage_of_def list.simps(15) rotate1.simps(2) set_rotate1)
  then show ?thesis using path edge up unfolding lineage_of_def by (simp add: successively_append_iff)
qed

lemma owned_by_wf:
  assumes "graph_over rs g"
  shows "wf (owned_by rs)" "wf ((owned_by rs)\<inverse>)" "acyclic (owned_by rs)" "single_valued (owned_by rs)"
proof -
  have ids: "owned_in_order rs" "distinct (map rec_agent_id rs)" using assms by (simp_all add: graph_over_def)
  show ac: "acyclic (owned_by rs)" by (rule owned_by_acyclic[OF ids])
  show "wf (owned_by rs)" by (rule finite_acyclic_wf[OF owned_by_finite ac])
  show "wf ((owned_by rs)\<inverse>)" by (rule finite_acyclic_wf_converse[OF owned_by_finite ac])
  show "single_valued (owned_by rs)" using owned_by_unique[OF ids(2)] by (blast intro: single_valuedI)
qed

lemma lineage_walk_returns:
  assumes g: "graph_over rs g" and "a \<in> rec_agent_id ` set rs"
  shows "\<exists>path. lineage_of (owned_by rs) a path \<and> (\<forall>rest. lineage_walk (og_owner g) (Some a) rest = Some (Inr (path @ rest)))"
  using assms(2)
proof (induction a rule: wf_induct_rule[OF owned_by_wf(2)[OF g]])
  case (1 a)
  obtain x where x: "map_of (og_owner g) a = Some x" using owner_is(2)[OF g] 1(2) by (auto simp: dict_has_iff)
  show ?case
  proof (cases x)
    case None
    then have "lineage_of (owned_by rs) a [a]" using owner_is(3)[OF g] x by (blast intro: lineage_of_root)
    then show ?thesis using x None by (intro exI[of _ "[a]"]) (simp add: lineage_walk.simps)
  next
    case (Some b)
    then have edge: "(a, b) \<in> owned_by rs" using owner_is(1)[OF g] x by simp
    then have "b \<in> rec_agent_id ` set rs" using g owned_by_known[of rs a b] by (simp add: graph_over_def)
    then obtain path where path: "lineage_of (owned_by rs) b path" "\<forall>rest. lineage_walk (og_owner g) (Some b) rest = Some (Inr (path @ rest))"
      using 1(1)[of b] edge by auto
    have "lineage_walk (og_owner g) (Some a) rest = Some (Inr ((path @ [a]) @ rest))" for rest
      using path(2) x Some by (subst lineage_walk.simps) simp
    then show ?thesis using lineage_of_snoc[OF path(1) edge owned_by_wf(4)[OF g]] by blast
  qed
qed

lemma lineage_returns:
  assumes g: "graph_over rs g"
  obtains (unknown) "a \<notin> rec_agent_id ` set rs" "lineage g a = Some (Inr [])"
  | (known) path where "a \<in> rec_agent_id ` set rs" "lineage g a = Some (Inr path)" "lineage_of (owned_by rs) a path"
proof (cases "a \<in> rec_agent_id ` set rs")
  case True
  then show thesis using lineage_walk_returns[OF g True] owner_is(2)[OF g] known by (auto simp: lineage_def)
next
  case False
  then show thesis using owner_is(2)[OF g] unknown by (simp add: lineage_def)
qed

section \<open>Child-first orders\<close>

text \<open>
  A child-first order of the trees below some Agents lists each of their Agents once, and no
  Agent after one of its owners. The Agents at the top must not own each other.
\<close>

definition unrelated :: "(pystr \<times> pystr) set \<Rightarrow> pystr list \<Rightarrow> bool" where
  "unrelated R as \<longleftrightarrow> distinct as \<and> (\<forall>a \<in> set as. \<forall>b \<in> set as. (a, b) \<notin> R\<^sup>+)"

definition child_first :: "(pystr \<times> pystr) set \<Rightarrow> pystr list \<Rightarrow> pystr list \<Rightarrow> bool" where
  "child_first R tops order \<longleftrightarrow> distinct order \<and> set order = {x. \<exists>a \<in> set tops. (x, a) \<in> R\<^sup>*} \<and>
     sorted_wrt (\<lambda>x y. (y, x) \<notin> R\<^sup>+) order"

lemma child_first_Nil: "child_first R [] []"
  by (simp add: child_first_def)

lemma child_first_append:
  assumes unrelated: "unrelated R (a # as)" and unique: "single_valued R"
    and first: "child_first R [a] xs" and rest: "child_first R as ys"
  shows "child_first R (a # as) (xs @ ys)"
proof -
  have apart: False if "(x, a) \<in> R\<^sup>*" "(x, b) \<in> R\<^sup>*" "b \<in> set as" for x b
  proof -
    have "(a, b) \<in> R\<^sup>* \<or> (b, a) \<in> R\<^sup>*" using single_valued_confluent[OF unique that(1,2)] .
    moreover have "a \<noteq> b" "(a, b) \<notin> R\<^sup>+" "(b, a) \<notin> R\<^sup>+" using unrelated that(3) by (auto simp: unrelated_def)
    ultimately show False by (auto dest: rtranclD)
  qed
  have sets: "set xs = {x. (x, a) \<in> R\<^sup>*}" "set ys = {x. \<exists>a \<in> set as. (x, a) \<in> R\<^sup>*}"
    using first rest by (simp_all add: child_first_def)
  have "set xs \<inter> set ys = {}" unfolding sets using apart by blast
  moreover have "(y, x) \<notin> R\<^sup>+" if "x \<in> set xs" "y \<in> set ys" for x y
  proof
    assume "(y, x) \<in> R\<^sup>+"
    then have "(y, a) \<in> R\<^sup>*" using that(1) sets(1) by (auto dest: trancl_into_rtrancl rtrancl_trans)
    then show False using that(2) sets(2) apart by blast
  qed
  ultimately show ?thesis using first rest sets by (auto simp: child_first_def sorted_wrt_append)
qed

lemma child_first_top:
  assumes acyclic: "acyclic R" and children: "set cs = {c. (c, a) \<in> R}" and below: "child_first R cs xs"
  shows "child_first R [a] (xs @ [a])"
proof -
  have set: "set xs = {x. (x, a) \<in> R\<^sup>+}"
    using below children unfolding child_first_def
    by (auto simp: trancl_unfold_right)
  have "(a, x) \<notin> R\<^sup>+" if "x \<in> insert a (set xs)" for x
    using that acyclic set by (auto simp: acyclic_def dest: trancl_trans)
  then show ?thesis using below set by (auto simp: child_first_def sorted_wrt_append rtrancl_eq_or_trancl)
qed

definition walks_to :: "(pystr, pystr list) dict \<Rightarrow> (pystr \<times> bool) list \<Rightarrow> pystr list \<Rightarrow> bool" where
  "walks_to children stack order \<longleftrightarrow>
     (\<forall>rest out. postorder_walk children (stack @ rest) out = postorder_walk children rest (out @ order))"

lemma walks_to_Nil: "walks_to ch [] []"
  by (simp add: walks_to_def)

lemma walks_to_append: "walks_to ch s xs \<Longrightarrow> walks_to ch t ys \<Longrightarrow> walks_to ch (s @ t) (xs @ ys)"
  by (simp add: walks_to_def)

lemma walks_to_expanded: "walks_to ch [(a, True)] [a]"
  unfolding walks_to_def by (subst postorder_walk.simps) simp

lemma walks_to_expand:
  assumes "map_of ch a = Some cs" and "walks_to ch (map (\<lambda>c. (c, False)) cs) xs"
  shows "walks_to ch [(a, False)] (xs @ [a])"
proof -
  have "walks_to ch (map (\<lambda>c. (c, False)) cs @ [(a, True)]) (xs @ [a])"
    using assms(2) walks_to_expanded by (rule walks_to_append)
  then show ?thesis using assms(1) unfolding walks_to_def by (subst postorder_walk.simps) simp
qed

lemma walks_to_returns: "walks_to ch stack order \<Longrightarrow> postorder_walk ch stack [] = Some (Inr order)"
  using postorder_walk.simps[of ch "[]" order] unfolding walks_to_def by (metis append_Nil append_Nil2 list.case(1))

lemma walk_unrelated:
  assumes unique: "single_valued R" and "unrelated R as"
    and "\<forall>a \<in> set as. \<exists>order. walks_to ch [(a, False)] order \<and> child_first R [a] order"
  shows "\<exists>order. walks_to ch (map (\<lambda>c. (c, False)) as) order \<and> child_first R as order"
  using assms(2,3)
proof (induction as)
  case Nil
  then show ?case using walks_to_Nil child_first_Nil by auto
next
  case (Cons a as)
  obtain xs where xs: "walks_to ch [(a, False)] xs" "child_first R [a] xs" using Cons.prems(2) by auto
  have "unrelated R as" using Cons.prems(1) by (simp add: unrelated_def)
  then obtain ys where ys: "walks_to ch (map (\<lambda>c. (c, False)) as) ys" "child_first R as ys" using Cons by auto
  show ?case
    using walks_to_append[OF xs(1) ys(1)] child_first_append[OF Cons.prems(1) unique xs(2) ys(2)] by auto
qed

lemma siblings_unrelated:
  assumes "acyclic R" "single_valued R" "distinct cs" "\<forall>c \<in> set cs. (c, a) \<in> R"
  shows "unrelated R cs"
proof -
  have "(c, d) \<notin> R\<^sup>+" if "c \<in> set cs" "d \<in> set cs" for c d
  proof
    assume "(c, d) \<in> R\<^sup>+"
    then obtain b where b: "(c, b) \<in> R" "(b, d) \<in> R\<^sup>*" by (auto dest: tranclD)
    then have "b = a" using single_valuedD[OF assms(2)] assms(4) that(1) by auto
    then have "(d, d) \<in> R\<^sup>+" using b(2) assms(4) that(2) by (auto intro: rtrancl_into_trancl2)
    then show False using assms(1) by (simp add: acyclic_def)
  qed
  then show ?thesis using assms(3) by (simp add: unrelated_def)
qed

lemma subtree_walk:
  assumes g: "graph_over rs g" and "a \<in> rec_agent_id ` set rs"
  shows "\<exists>order. walks_to (og_children g) [(a, False)] order \<and> child_first (owned_by rs) [a] order"
  using assms(2)
proof (induction a rule: wf_induct_rule[OF owned_by_wf(1)[OF g]])
  case (1 a)
  note R = owned_by_wf[OF g]
  obtain cs where cs: "map_of (og_children g) a = Some cs" using g 1(2) by (auto simp: graph_over_def dict_has_iff)
  then have children: "cs = filter (\<lambda>c. (c, a) \<in> owned_by rs) (map rec_agent_id rs)" using g by (simp add: graph_over_def)
  have known: "c \<in> rec_agent_id ` set rs" if "(c, a) \<in> owned_by rs" for c
    using that g owned_by_known[of rs c a] by (simp add: graph_over_def)
  have cs_set: "set cs = {c. (c, a) \<in> owned_by rs}" unfolding children using known by auto
  have "distinct cs" unfolding children using g by (auto simp: graph_over_def)
  then have "unrelated (owned_by rs) cs" using siblings_unrelated[OF R(3,4)] cs_set by auto
  moreover have "\<forall>c \<in> set cs. \<exists>order. walks_to (og_children g) [(c, False)] order \<and> child_first (owned_by rs) [c] order"
    using 1(1) known cs_set by auto
  ultimately obtain xs where xs: "walks_to (og_children g) (map (\<lambda>c. (c, False)) cs) xs" "child_first (owned_by rs) cs xs"
    using walk_unrelated[OF R(4)] by blast
  show ?case using walks_to_expand[OF cs xs(1)] child_first_top[OF R(3) cs_set xs(2)] by blast
qed

lemma subtree_postorder_returns:
  assumes g: "graph_over rs g" and "a \<in> rec_agent_id ` set rs"
  shows "\<exists>order. subtree_postorder g a = Some (Inr order) \<and> child_first (owned_by rs) [a] order"
  using subtree_walk[OF assms] walks_to_returns owner_is(2)[OF g] assms(2) by (auto simp: subtree_postorder_def)

lemma forest_walk_returns:
  assumes g: "graph_over rs g" and "set as \<subseteq> rec_agent_id ` set rs" and "distinct as"
  shows "\<exists>order. forest_walk g as out = Some (Inr (out @ order)) \<and>
    child_first (owned_by rs) (filter (\<lambda>a. map_of (og_owner g) a = Some None) as) order"
  using assms(2,3)
proof (induction as arbitrary: out)
  case (Cons a as)
  obtain x where x: "map_of (og_owner g) a = Some x" using owner_is(2)[OF g, of a] Cons.prems(1) by (auto simp: dict_has_iff)
  show ?case
  proof (cases x)
    case None
    have roots: "\<forall>b \<in> set (filter (\<lambda>a. map_of (og_owner g) a = Some None) (a # as)). \<forall>c. (b, c) \<notin> owned_by rs"
      using owner_is(3)[OF g] by auto
    then have unrelated: "unrelated (owned_by rs) (filter (\<lambda>a. map_of (og_owner g) a = Some None) (a # as))"
      using Cons.prems(2) unfolding unrelated_def by (auto dest: tranclD)
    obtain xs where xs: "subtree_postorder g a = Some (Inr xs)" "child_first (owned_by rs) [a] xs"
      using subtree_postorder_returns[OF g] Cons.prems(1) by auto
    obtain ys where ys: "forest_walk g as (out @ xs) = Some (Inr ((out @ xs) @ ys))"
      "child_first (owned_by rs) (filter (\<lambda>a. map_of (og_owner g) a = Some None) as) ys"
      using Cons.IH[of "out @ xs"] Cons.prems by auto
    have "child_first (owned_by rs) (a # filter (\<lambda>a. map_of (og_owner g) a = Some None) as) (xs @ ys)"
      using child_first_append[OF _ owned_by_wf(4)[OF g] xs(2) ys(2)] unrelated x None by simp
    then show ?thesis using x None xs(1) ys(1) by auto
  next
    case (Some b)
    then show ?thesis using Cons x by simp
  qed
qed (simp add: child_first_Nil)

lemma every_agent_below_a_root:
  assumes g: "graph_over rs g" and "a \<in> rec_agent_id ` set rs"
  shows "\<exists>r. map_of (og_owner g) r = Some None \<and> r \<in> rec_agent_id ` set rs \<and> (a, r) \<in> (owned_by rs)\<^sup>*"
  using assms(2)
proof (induction a rule: wf_induct_rule[OF owned_by_wf(2)[OF g]])
  case (1 a)
  obtain x where x: "map_of (og_owner g) a = Some x" using owner_is(2)[OF g] 1(2) by (auto simp: dict_has_iff)
  show ?case
  proof (cases x)
    case (Some b)
    then have edge: "(a, b) \<in> owned_by rs" using owner_is(1)[OF g] x by simp
    then have "b \<in> rec_agent_id ` set rs" using g owned_by_known[of rs a b] by (simp add: graph_over_def)
    then show ?thesis using 1(1)[of b] edge by (auto intro: converse_rtrancl_into_rtrancl)
  qed (use x 1(2) in auto)
qed

lemma forest_postorder_returns:
  assumes g: "graph_over rs g"
  shows "\<exists>order. forest_postorder g = Some (Inr order) \<and> distinct order \<and> set order = rec_agent_id ` set rs \<and>
    sorted_wrt (\<lambda>x y. (y, x) \<notin> (owned_by rs)\<^sup>+) order"
proof -
  let ?roots = "filter (\<lambda>a. map_of (og_owner g) a = Some None) (og_order g)"
  obtain order where order: "forest_postorder g = Some (Inr order)" "child_first (owned_by rs) ?roots order"
    using forest_walk_returns[OF g, of "og_order g" "[]"] g by (auto simp: forest_postorder_def graph_over_def)
  have known: "x \<in> rec_agent_id ` set rs" if "(x, a) \<in> (owned_by rs)\<^sup>*" "a \<in> rec_agent_id ` set rs" for x a
    using that owned_by_known[of rs] g by (cases rule: converse_rtranclE) (auto simp: graph_over_def)
  have roots: "a \<in> set ?roots \<longleftrightarrow> map_of (og_owner g) a = Some None \<and> a \<in> rec_agent_id ` set rs" for a
    using g by (auto simp: graph_over_def)
  have set: "x \<in> set order \<longleftrightarrow> (\<exists>a \<in> set ?roots. (x, a) \<in> (owned_by rs)\<^sup>*)" for x
    using order(2) unfolding child_first_def by blast
  have "set order = rec_agent_id ` set rs"
  proof (rule set_eqI, rule iffI)
    fix x assume "x \<in> set order"
    then show "x \<in> rec_agent_id ` set rs" unfolding set Bex_def roots using known by blast
  next
    fix x assume "x \<in> rec_agent_id ` set rs"
    then show "x \<in> set order" unfolding set Bex_def roots using every_agent_below_a_root[OF g] by blast
  qed
  then show ?thesis using order by (simp add: child_first_def)
qed

section \<open>Properties\<close>

lemma owner_listed_later:
  assumes "sorted_wrt (\<lambda>x y. (y, x) \<notin> R\<^sup>+) order" "(c, b) \<in> R" "c \<in> set order" "b \<in> set order" "c \<noteq> b"
  shows "\<exists>xs ys zs. order = xs @ c # ys @ b # zs"
proof -
  obtain xs zs where order: "order = xs @ b # zs" using assms(4) by (meson split_list)
  have "c \<notin> set zs" using assms(1,2) unfolding order by (auto simp: sorted_wrt_append)
  then have "c \<in> set xs" using assms(3,5) unfolding order by auto
  then obtain us vs where "xs = us @ c # vs" by (meson split_list)
  then show ?thesis using order by auto
qed

text \<open>
  C27: the cleanup order of the whole forest. For every directory that replay accepts, the
  ownership graph is built, the loop over owners and the stack of children end, and the order
  lists every Agent exactly once, before its owner.
\<close>

theorem forest_postorder_child_first:
  assumes "rebuild_directory es = Inr d"
  shows "\<exists>g order. ownership_graph_of d = Inr g \<and> forest_postorder g = Some (Inr order) \<and> distinct order \<and>
    set order = rec_agent_id ` set (dir_records d) \<and>
    (\<forall>r \<in> set (dir_records d). \<forall>b. rec_owner_agent_id r = Some b \<longrightarrow> (\<exists>xs ys zs. order = xs @ rec_agent_id r # ys @ b # zs))"
proof -
  have ok: "directory_ok d" using assms by (rule rebuild_directory_ok)
  obtain g where g: "ownership_graph_of d = Inr g" "graph_over (dir_records d) g" using ownership_graph_built[OF ok] by blast
  obtain order where order: "forest_postorder g = Some (Inr order)" "distinct order" "set order = rec_agent_id ` set (dir_records d)"
    "sorted_wrt (\<lambda>x y. (y, x) \<notin> (owned_by (dir_records d))\<^sup>+) order"
    using forest_postorder_returns[OF g(2)] by blast
  have "\<exists>xs ys zs. order = xs @ rec_agent_id r # ys @ b # zs" if r: "r \<in> set (dir_records d)" "rec_owner_agent_id r = Some b" for r b
  proof -
    have edge: "(rec_agent_id r, b) \<in> owned_by (dir_records d)" using r by (auto simp: owned_by_def)
    then have "rec_agent_id r \<noteq> b" using owned_by_wf(3)[OF g(2)] by (auto simp: acyclic_def)
    moreover have "rec_agent_id r \<in> set order" "b \<in> set order"
      using owned_by_known[OF _ edge] g(2) order(3) by (simp_all add: graph_over_def)
    ultimately show ?thesis using owner_listed_later[OF order(4) edge] by blast
  qed
  then show ?thesis using g(1) order(1,2,3) by blast
qed

theorem forest_postorder_child_first_witness:
  "\<exists>g order. ownership_graph_of sample_directory = Inr g \<and> forest_postorder g = Some (Inr order) \<and> distinct order \<and>
     set order = {lit ''root'', lit ''a1''}"
proof -
  have "rec_agent_id ` set (dir_records sample_directory) = {lit ''root'', lit ''a1''}" by code_simp
  then show ?thesis using forest_postorder_child_first[OF sample_directory_rebuilt] by auto
qed

end
