(* ===== verification/Agent_Authority.thy ===== *)
theory Agent_Authority imports Lifecycle begin

text \<open>
  The authority of a bound Agent over the Agents it owns (supervision/authority.py): every
  decision loads the directory afresh and reads the lineage of the target from it. The authority
  keeps the identity of its owner and nothing else.
\<close>

definition tool_authority :: "pystr \<Rightarrow> pystr result" where
  "tool_authority owner_agent_id = require_identifier owner_agent_id ''owner_agent_id''"

definition require_bound_owner :: "agent_directory \<Rightarrow> pystr \<Rightarrow> pystr \<Rightarrow> agent_record result" where
  "require_bound_owner directory owner_agent_id caller_session_id =
     (case directory_get directory owner_agent_id of
        None \<Rightarrow> Inl AgentToolBindingError
      | Some owner \<Rightarrow> (if rec_session_id owner \<noteq> caller_session_id then Inl AgentToolBindingError else Inr owner))"

definition require_caller :: "pystr \<Rightarrow> pystr \<Rightarrow> event_store \<Rightarrow> agent_record result" where
  "require_caller owner_agent_id caller_session_id st =
     rbind (load_directory st) (\<lambda>directory. require_bound_owner directory owner_agent_id caller_session_id)"

definition target_or_denied :: "pystr \<Rightarrow> agent_record option \<Rightarrow> pystr list \<Rightarrow> agent_record result" where
  "target_or_denied owner_agent_id target path =
     (case target of
        None \<Rightarrow> Inl AgentToolAuthorizationError
      | Some record \<Rightarrow>
          (if path = [] \<or> owner_agent_id \<notin> set (butlast path) then Inl AgentToolAuthorizationError else Inr record))"

text \<open>The outer \<open>None\<close> would mean that the walk to the root of the target never returned.\<close>

definition require_owned :: "pystr \<Rightarrow> pystr \<Rightarrow> pystr \<Rightarrow> event_store \<Rightarrow> agent_record result option" where
  "require_owned owner_agent_id target_agent_id caller_session_id st =
     (case rbind (require_identifier target_agent_id ''agent_id'') (\<lambda>target_agent_id.
           rbind (load_directory st) (\<lambda>directory.
           rbind (require_bound_owner directory owner_agent_id caller_session_id) (\<lambda>_.
           rbind (ownership_graph_of directory) (\<lambda>graph. Inr (directory, graph))))) of
        Inl e \<Rightarrow> Some (Inl e)
      | Inr (directory, graph) \<Rightarrow>
          (case lineage graph target_agent_id of
             None \<Rightarrow> None
           | Some outcome \<Rightarrow>
               Some (rbind outcome (\<lambda>path. target_or_denied owner_agent_id (directory_get directory target_agent_id) path))))"

section \<open>Who may act on whom\<close>

definition caller_bound :: "agent_directory \<Rightarrow> pystr \<Rightarrow> pystr \<Rightarrow> bool" where
  "caller_bound d owner session \<longleftrightarrow> (\<exists>c. directory_get d owner = Some c \<and> rec_session_id c = session)"

lemma require_bound_owner_Inr:
  "require_bound_owner d owner session = Inr c \<longleftrightarrow> directory_get d owner = Some c \<and> rec_session_id c = session"
  by (auto simp: require_bound_owner_def split: option.split)

lemma load_directory_ok: "load_directory st = Inr d \<Longrightarrow> directory_ok d"
  unfolding load_directory_def by (rule rebuild_directory_ok)

lemma require_owned_outcome:
  assumes d: "load_directory st = Inr d"
  shows "\<exists>x. require_owned owner target session st = Some x \<and> (\<forall>r. x = Inr r \<longleftrightarrow>
    ident_ok target \<and> caller_bound d owner session \<and> directory_get d target = Some r \<and> (target, owner) \<in> (owned_by (dir_records d))\<^sup>+)"
proof -
  have ok: "directory_ok d" using d by (rule load_directory_ok)
  obtain g where g: "ownership_graph_of d = Inr g" "graph_over (dir_records d) g" using ownership_graph_built[OF ok] by blast
  show ?thesis
  proof (cases "ident_ok target \<and> caller_bound d owner session")
    case True
    then obtain c where c: "require_bound_owner d owner session = Inr c" "ident_ok target"
      by (auto simp: caller_bound_def require_bound_owner_Inr)
    show ?thesis
    proof (cases rule: lineage_returns[OF g(2), where a = target, case_names unknown known])
      case unknown
      have "directory_get d target = None"
      proof (rule ccontr)
        assume "directory_get d target \<noteq> None"
        then obtain r where "r \<in> set (dir_records d)" "rec_agent_id r = target" using directory_get_Some[OF ok] by auto
        then show False using unknown(1) by auto
      qed
      then show ?thesis using unknown c d g(1) by (simp add: require_owned_def require_identifier_def target_or_denied_def result_simps)
    next
      case (known path)
      then have "path \<noteq> []" "owner \<in> set (butlast path) \<longleftrightarrow> (target, owner) \<in> (owned_by (dir_records d))\<^sup>+"
        by (simp_all add: lineage_of_def)
      then show ?thesis using known c d g(1) True
        by (auto simp: require_owned_def require_identifier_def target_or_denied_def result_simps split: option.splits)
    qed
  next
    case False
    then show ?thesis using d
      by (auto simp: require_owned_def require_identifier_def caller_bound_def require_bound_owner_def result_simps split: option.splits)
  qed
qed

lemma owned_by_append: "owned_by rs \<subseteq> owned_by (rs @ rs')"
  by (auto simp: owned_by_def)

text \<open>
  C28: authority is strict descent. A bound Agent may act on a target exactly when the call comes
  from its own Session and the target lies strictly below it in the ownership forest of the
  directory as it is now: not on itself, its owners, its siblings or another tree. The check
  always returns, and what it granted it grants again after the directory has grown.
\<close>

theorem authority_is_strict_descent:
  assumes "store_ok st" and "load_directory st = Inr d"
  shows "(require_owned owner target session st = Some (Inr r) \<longleftrightarrow>
      ident_ok target \<and> caller_bound d owner session \<and> directory_get d target = Some r \<and> (target, owner) \<in> (owned_by (dir_records d))\<^sup>+) \<and>
    require_owned owner target session st \<noteq> None \<and>
    (extends st st' \<longrightarrow> load_directory st' = Inr d' \<longrightarrow> require_owned owner target session st = Some (Inr r) \<longrightarrow>
       require_owned owner target session st' = Some (Inr r))"
proof -
  obtain x where x: "require_owned owner target session st = Some x" "\<forall>r. x = Inr r \<longleftrightarrow>
      ident_ok target \<and> caller_bound d owner session \<and> directory_get d target = Some r \<and> (target, owner) \<in> (owned_by (dir_records d))\<^sup>+"
    using require_owned_outcome[OF assms(2)] by blast
  have "require_owned owner target session st' = Some (Inr r)"
    if grow: "extends st st'" "load_directory st' = Inr d'" and r: "require_owned owner target session st = Some (Inr r)"
  proof -
    obtain xs where xs: "stream_of st' AGENT_DIRECTORY_STREAM = stream_of st AGENT_DIRECTORY_STREAM @ xs"
      using grow(1) by (auto simp: extends_def)
    have "store_ok st'" using grow(1) by (simp add: extends_def)
    then have "rebuild_directory (stream_of st AGENT_DIRECTORY_STREAM @ xs) = Inr d'"
      using grow(2) xs by (simp add: load_directory_Inr)
    from directory_grows[OF this] obtain rs where rs: "dir_records d' = dir_records d @ rs"
      "\<forall>a r. directory_get d a = Some r \<longrightarrow> directory_get d' a = Some r"
      using assms by (auto simp: load_directory_Inr)
    have "(target, owner) \<in> (owned_by (dir_records d'))\<^sup>+"
      using r x trancl_mono[OF _ owned_by_append] unfolding rs(1) by auto
    moreover have "ident_ok target" "caller_bound d' owner session" "directory_get d' target = Some r"
      using r x rs(2) by (auto simp: caller_bound_def)
    ultimately show ?thesis using require_owned_outcome[OF grow(2), of owner target session] by auto
  qed
  then show ?thesis using x by auto
qed

section \<open>A sample store\<close>

definition sample_directory_store :: event_store where
  "sample_directory_store = fst (append_events (\<lambda>n. (7, \<lparr>dt_micros = 0, dt_utcoffset = Some 0\<rparr>)) AGENT_DIRECTORY_STREAM 0
     [pending AGENT_CREATED (projr (agent_created_data (lit ''root'') (lit ''s0'') (lit ''r0'') (sample_spec\<lparr>spec_owner_agent_id := None\<rparr>))) 2,
      pending AGENT_CREATED (projr (agent_created_data (lit ''a1'') (lit ''s1'') (lit ''r1'') sample_spec)) 2] empty_store)"

theorem authority_is_strict_descent_witness:
  "\<exists>r. require_owned (lit ''root'') (lit ''a1'') (lit ''s0'') sample_directory_store = Some (Inr r) \<and>
     require_owned (lit ''a1'') (lit ''root'') (lit ''s1'') sample_directory_store \<noteq> Some (Inr r)"
proof -
  have ok: "store_ok sample_directory_store"
    unfolding sample_directory_store_def by (rule store_ok_append) (simp add: store_ok_def empty_store_def dict_ok_def numbered_def)
  have "case load_directory sample_directory_store of Inl e \<Rightarrow> False | Inr d \<Rightarrow>
      ident_ok (lit ''a1'') \<and> (case directory_get d (lit ''root'') of None \<Rightarrow> False | Some c \<Rightarrow> rec_session_id c = lit ''s0'') \<and>
      (case directory_get d (lit ''a1'') of None \<Rightarrow> False | Some r \<Rightarrow> rec_owner_agent_id r = Some (lit ''root'') \<and>
         (case directory_get d (lit ''root'') of None \<Rightarrow> False | Some c \<Rightarrow> c \<noteq> r))" by code_simp
  then obtain d c r where d: "load_directory sample_directory_store = Inr d" "ident_ok (lit ''a1'')"
    "directory_get d (lit ''root'') = Some c" "rec_session_id c = lit ''s0''"
    "directory_get d (lit ''a1'') = Some r" "rec_owner_agent_id r = Some (lit ''root'')" "c \<noteq> r"
    by (auto split: sum.splits option.splits)
  have "r \<in> set (dir_records d)" "rec_agent_id r = lit ''a1''"
    using d(5) directory_get_Some[OF load_directory_ok[OF d(1)]] by auto
  then have "(lit ''a1'', lit ''root'') \<in> owned_by (dir_records d)" using d(6) by (metis owned_byI)
  then have "(lit ''a1'', lit ''root'') \<in> (owned_by (dir_records d))\<^sup>+" by blast
  then show ?thesis
    using authority_is_strict_descent[OF ok d(1)] d by (auto simp: caller_bound_def)
qed

end
