(* ===== verification/Lifecycle_Coordinator.thy ===== *)
theory Lifecycle_Coordinator imports Lifecycle begin

text \<open>
  The coordinator of admissions and disposals (supervision/lifecycle.py). Every operation is one
  critical section under the condition's lock: an attempt enters, is refused, or waits, and a
  waiting attempt is made again whenever the condition is notified. A run is therefore any
  sequence of attempts and endings.
\<close>

record coordinator =
  co_admissions :: "(int, pystr set) dict"
  co_scopes :: "(int, pystr set) dict"
  co_next_token :: int
  co_closing :: bool

definition new_coordinator :: coordinator where
  "new_coordinator = \<lparr>co_admissions = [], co_scopes = [], co_next_token = 0, co_closing = False\<rparr>"

definition overlaps :: "pystr set \<Rightarrow> (int, pystr set) dict \<Rightarrow> bool" where
  "overlaps members d = list_ex (\<lambda>item. members \<inter> item \<noteq> {}) (dict_values d)"

datatype attempt = Enters int | Waits | Refused exn

definition admission_attempt :: "pystr list \<Rightarrow> coordinator \<Rightarrow> coordinator \<times> attempt" where
  "admission_attempt path c =
     (let members = set path; token = co_next_token c + 1 in
      if members = {} then (c, Refused (AgentOwnershipGraphError ''agent-owner-lineage-empty''))
      else if co_closing c then (c, Refused LifecycleAdmissionClosed)
      else if \<not> overlaps members (co_scopes c)
      then (c\<lparr>co_next_token := token, co_admissions := dict_set token members (co_admissions c)\<rparr>, Enters token)
      else (c, Waits))"

definition admission_ends :: "int \<Rightarrow> coordinator \<Rightarrow> coordinator" where
  "admission_ends token c = c\<lparr>co_admissions := dict_pop token (co_admissions c)\<rparr>"

definition disposal_attempt :: "pystr list \<Rightarrow> coordinator \<Rightarrow> coordinator \<times> attempt" where
  "disposal_attempt affected c =
     (let members = set affected; token = co_next_token c + 1 in
      if members = {} then (c, Refused (AgentOwnershipGraphError ''agent-owner-subtree-empty''))
      else if overlaps members (co_scopes c) then (c, Waits)
      else (c\<lparr>co_next_token := token, co_scopes := dict_set token members (co_scopes c)\<rparr>, Enters token))"

definition disposal_ends :: "int \<Rightarrow> coordinator \<Rightarrow> coordinator" where
  "disposal_ends token c = c\<lparr>co_scopes := dict_pop token (co_scopes c)\<rparr>"

definition begin_close :: "coordinator \<Rightarrow> coordinator" where
  "begin_close c = c\<lparr>co_closing := True\<rparr>"

definition cleanup_is_fenced :: "pystr \<Rightarrow> coordinator \<Rightarrow> bool" where
  "cleanup_is_fenced agent_id c \<longleftrightarrow>
     (co_closing c \<or> list_ex (\<lambda>scope. agent_id \<in> scope) (dict_values (co_scopes c))) \<and>
     \<not> list_ex (\<lambda>members. agent_id \<in> members) (dict_values (co_admissions c))"

text \<open>The conditions the waits end on.\<close>

definition quiescent :: "coordinator \<Rightarrow> bool" where
  "quiescent c \<longleftrightarrow> co_admissions c = []"

definition subtree_quiescent :: "pystr set \<Rightarrow> coordinator \<Rightarrow> bool" where
  "subtree_quiescent members c \<longleftrightarrow> \<not> overlaps members (co_admissions c)"

datatype coordinator_event = Admission "pystr list" | Admission_Ends int | Disposal "pystr list" | Disposal_Ends int | Close_Begins

fun coordinator_step :: "coordinator_event \<Rightarrow> coordinator \<Rightarrow> coordinator" where
  "coordinator_step (Admission members) c = fst (admission_attempt members c)"
| "coordinator_step (Admission_Ends token) c = admission_ends token c"
| "coordinator_step (Disposal affected) c = fst (disposal_attempt affected c)"
| "coordinator_step (Disposal_Ends token) c = disposal_ends token c"
| "coordinator_step Close_Begins c = begin_close c"

definition run_coordinator :: "coordinator_event list \<Rightarrow> coordinator \<Rightarrow> coordinator" where
  "run_coordinator events c = fold coordinator_step events c"

section \<open>What every step keeps\<close>

lemma overlaps_iff: "dict_ok d \<Longrightarrow> overlaps members d \<longleftrightarrow> (\<exists>k item. map_of d k = Some item \<and> members \<inter> item \<noteq> {})"
  by (simp add: overlaps_def list_ex_iff Bex_def dict_values_mem) blast

definition coordinator_ok :: "coordinator \<Rightarrow> bool" where
  "coordinator_ok c \<longleftrightarrow> dict_ok (co_admissions c) \<and> dict_ok (co_scopes c) \<and>
     (\<forall>k. dict_has k (co_admissions c) \<or> dict_has k (co_scopes c) \<longrightarrow> k \<le> co_next_token c) \<and>
     (\<forall>s t S T. map_of (co_scopes c) s = Some S \<longrightarrow> map_of (co_scopes c) t = Some T \<longrightarrow> s \<noteq> t \<longrightarrow> S \<inter> T = {})"

lemma new_coordinator_ok: "coordinator_ok new_coordinator"
  by (simp add: coordinator_ok_def new_coordinator_def dict_ok_def dict_has_def)

lemma admission_attempt_cases:
  obtains (entered) "fst (admission_attempt members c) =
      c\<lparr>co_next_token := co_next_token c + 1, co_admissions := dict_set (co_next_token c + 1) (set members) (co_admissions c)\<rparr>"
    "\<not> overlaps (set members) (co_scopes c)" "\<not> co_closing c"
  | (kept) "fst (admission_attempt members c) = c"
  by (cases "members \<noteq> [] \<and> \<not> co_closing c \<and> \<not> overlaps (set members) (co_scopes c)") (auto simp: admission_attempt_def Let_def)

lemma disposal_attempt_cases:
  obtains (entered) "fst (disposal_attempt members c) =
      c\<lparr>co_next_token := co_next_token c + 1, co_scopes := dict_set (co_next_token c + 1) (set members) (co_scopes c)\<rparr>"
    "\<not> overlaps (set members) (co_scopes c)"
  | (kept) "fst (disposal_attempt members c) = c"
  by (cases "members \<noteq> [] \<and> \<not> overlaps (set members) (co_scopes c)") (auto simp: disposal_attempt_def Let_def)

lemma coordinator_step_ok:
  assumes ok: "coordinator_ok c"
  shows "coordinator_ok (coordinator_step e c)"
proof (cases e)
  case (Admission members)
  show ?thesis
  proof (cases rule: admission_attempt_cases[of members c])
    case entered
    then show ?thesis using ok Admission by (auto simp: coordinator_ok_def dict_ok_set)
  qed (use ok Admission in simp)
next
  case (Admission_Ends token)
  then show ?thesis using ok by (auto simp: coordinator_ok_def admission_ends_def dict_ok_pop dict_has_def map_of_dict_pop split: if_splits)
next
  case (Disposal members)
  show ?thesis
  proof (cases rule: disposal_attempt_cases[of members c])
    case entered
    have dict: "dict_ok (co_scopes c)" using ok by (simp add: coordinator_ok_def)
    have apart: "set members \<inter> T = {}" if "map_of (co_scopes c) t = Some T" for t T
      using entered(2) that unfolding overlaps_iff[OF dict] by blast
    have "\<forall>k. dict_has k (co_admissions c) \<or> dict_has k (co_scopes c) \<longrightarrow> k \<le> co_next_token c + 1"
      using ok unfolding coordinator_ok_def by (meson add_increasing2 zero_le_one)
    then show ?thesis using ok entered(1) Disposal apart
      by (auto simp: coordinator_ok_def dict_ok_set split: if_splits)
  qed (use ok Disposal in simp)
next
  case (Disposal_Ends token)
  then show ?thesis using ok by (auto simp: coordinator_ok_def disposal_ends_def dict_ok_pop dict_has_def map_of_dict_pop split: if_splits)
next
  case Close_Begins
  then show ?thesis using ok by (simp add: coordinator_ok_def begin_close_def)
qed

lemma run_coordinator_ok: "coordinator_ok c \<Longrightarrow> coordinator_ok (run_coordinator es c)"
  unfolding run_coordinator_def by (induction es arbitrary: c) (simp_all add: coordinator_step_ok)

section \<open>A registered scope fences its subtree\<close>

definition fenced_since :: "int \<Rightarrow> pystr set \<Rightarrow> coordinator \<Rightarrow> coordinator \<Rightarrow> bool" where
  "fenced_since t S c c' \<longleftrightarrow> coordinator_ok c' \<and> map_of (co_scopes c') t = Some S \<and>
     (\<forall>k L. map_of (co_admissions c') k = Some L \<longrightarrow> L \<inter> S \<noteq> {} \<longrightarrow> map_of (co_admissions c) k = Some L)"

lemma coordinator_step_fenced:
  assumes since: "fenced_since t S c c'" and e: "e \<noteq> Disposal_Ends t"
  shows "fenced_since t S c (coordinator_step e c')"
proof -
  have ok: "coordinator_ok c'" "dict_ok (co_scopes c')" "dict_ok (co_admissions c')" and S: "map_of (co_scopes c') t = Some S"
    and old: "\<And>k L. map_of (co_admissions c') k = Some L \<Longrightarrow> L \<inter> S \<noteq> {} \<Longrightarrow> map_of (co_admissions c) k = Some L"
    using since by (auto simp: fenced_since_def coordinator_ok_def)
  note ok' = coordinator_step_ok[OF ok(1), of e]
  show ?thesis
  proof (cases e)
    case (Admission members)
    show ?thesis
    proof (cases rule: admission_attempt_cases[of members c'])
      case entered
      have "set members \<inter> S = {}" using entered(2) S unfolding overlaps_iff[OF ok(2)] by blast
      then show ?thesis using ok' old S entered(1) Admission by (auto simp: fenced_since_def split: if_splits)
    qed (use since Admission in simp)
  next
    case (Admission_Ends k)
    then show ?thesis using ok' S old
      by (auto simp: fenced_since_def admission_ends_def map_of_dict_pop[OF ok(3)] split: if_splits)
  next
    case (Disposal members)
    show ?thesis
    proof (cases rule: disposal_attempt_cases[of members c'])
      case entered
      have "t \<le> co_next_token c'" using ok(1) S by (auto simp: coordinator_ok_def dict_has_iff)
      then show ?thesis using ok' S old entered(1) Disposal by (auto simp: fenced_since_def)
    qed (use since Disposal in simp)
  next
    case (Disposal_Ends s)
    then show ?thesis using ok' S old e by (auto simp: fenced_since_def disposal_ends_def map_of_dict_pop[OF ok(2)])
  next
    case Close_Begins
    then show ?thesis using ok' S old by (simp add: fenced_since_def begin_close_def)
  qed
qed

lemma run_coordinator_fenced:
  assumes "coordinator_ok c" "map_of (co_scopes c) t = Some S" "Disposal_Ends t \<notin> set fs"
  shows "fenced_since t S c (run_coordinator fs c)"
proof -
  have "fenced_since t S c (fold coordinator_step fs c')" if "fenced_since t S c c'" for c'
    using that assms(3)
  proof (induction fs arbitrary: c')
    case (Cons e fs)
    then show ?case using coordinator_step_fenced[of t S c c' e] by auto
  qed simp
  moreover have "fenced_since t S c c" using assms(1,2) by (simp add: fenced_since_def)
  ultimately show ?thesis unfolding run_coordinator_def by blast
qed

section \<open>Properties\<close>

text \<open>
  C29: a disposal fences its subtree until it ends. Whatever is admitted, disposed or closed in
  the meantime, its scope stays registered and apart from every other scope, no further admission
  reaches into it, and once the older ones have left it is quiet: its cleanup stays fenced for
  every Agent of the subtree.
\<close>

theorem disposal_fences_its_subtree:
  assumes "c = run_coordinator es new_coordinator" and "map_of (co_scopes c) t = Some S"
    and "Disposal_Ends t \<notin> set fs" and "c' = run_coordinator fs c"
  shows "map_of (co_scopes c') t = Some S \<and>
    (\<forall>s T. map_of (co_scopes c') s = Some T \<longrightarrow> s \<noteq> t \<longrightarrow> T \<inter> S = {}) \<and>
    (\<forall>k L. map_of (co_admissions c') k = Some L \<longrightarrow> L \<inter> S \<noteq> {} \<longrightarrow> map_of (co_admissions c) k = Some L) \<and>
    (subtree_quiescent S c \<longrightarrow> (\<forall>a \<in> S. cleanup_is_fenced a c'))"
proof -
  have ok: "coordinator_ok c" using run_coordinator_ok[OF new_coordinator_ok] assms(1) by simp
  have fenced: "fenced_since t S c c'" using run_coordinator_fenced[OF ok assms(2,3)] assms(4) by simp
  then have ok': "coordinator_ok c'" "dict_ok (co_admissions c')" "dict_ok (co_scopes c')" by (simp_all add: fenced_since_def coordinator_ok_def)
  have fence: "cleanup_is_fenced a c'" if quiet: "subtree_quiescent S c" and a: "a \<in> S" for a
  proof -
    have "dict_ok (co_admissions c)" using ok by (simp add: coordinator_ok_def)
    then have "S \<inter> L = {}" if "map_of (co_admissions c) k = Some L" for k L
      using quiet that unfolding subtree_quiescent_def overlaps_iff[OF \<open>dict_ok (co_admissions c)\<close>] by blast
    then have "a \<notin> L" if "map_of (co_admissions c') k = Some L" for k L
      using that fenced a unfolding fenced_since_def by blast
    moreover have "S \<in> set (dict_values (co_scopes c'))" using fenced unfolding dict_values_mem[OF ok'(3)] fenced_since_def by blast
    moreover from this have "\<exists>scope \<in> set (dict_values (co_scopes c')). a \<in> scope" using a by (intro bexI[of _ S])
    ultimately show ?thesis unfolding cleanup_is_fenced_def list_ex_iff Bex_def dict_values_mem[OF ok'(2)] by blast
  qed
  have kept: "map_of (co_scopes c') t = Some S"
    using fenced by (simp only: fenced_since_def)
  have apart: "T \<inter> S = {}" if "map_of (co_scopes c') s = Some T" "s \<noteq> t" for s T
    using ok'(1)[unfolded coordinator_ok_def, THEN conjunct2, THEN conjunct2, THEN conjunct2, rule_format, OF that(1) kept that(2)] .
  have old: "map_of (co_admissions c) k = Some L" if "map_of (co_admissions c') k = Some L" "L \<inter> S \<noteq> {}" for k L
    using fenced[unfolded fenced_since_def, THEN conjunct2, THEN conjunct2, rule_format, OF that] .
  show ?thesis by (intro conjI allI impI ballI) (rule kept apart old fence; assumption)+
qed

theorem disposal_fences_its_subtree_witness:
  "\<exists>c c'. c = run_coordinator [Admission [lit ''r''], Admission [lit ''r'', lit ''a''], Admission_Ends 2, Disposal [lit ''b'', lit ''a'']] new_coordinator \<and>
     c' = run_coordinator [Admission [lit ''r'', lit ''a''], Disposal [lit ''a'', lit ''r''], Close_Begins, Admission_Ends 1] c \<and>
     map_of (co_scopes c') 3 = Some {lit ''b'', lit ''a''} \<and> cleanup_is_fenced (lit ''a'') c'"
proof -
  let ?es = "[Admission [lit ''r''], Admission [lit ''r'', lit ''a''], Admission_Ends 2, Disposal [lit ''b'', lit ''a'']]"
  let ?fs = "[Admission [lit ''r'', lit ''a''], Disposal [lit ''a'', lit ''r''], Close_Begins, Admission_Ends 1]"
  have S: "map_of (co_scopes (run_coordinator ?es new_coordinator)) 3 = Some {lit ''b'', lit ''a''} \<and>
      subtree_quiescent {lit ''b'', lit ''a''} (run_coordinator ?es new_coordinator)"
    by code_simp
  have "Disposal_Ends 3 \<notin> set ?fs" by simp
  note fenced = disposal_fences_its_subtree[OF refl conjunct1[OF S] this refl]
  have "cleanup_is_fenced (lit ''a'') (run_coordinator ?fs (run_coordinator ?es new_coordinator))"
    using bspec[OF mp[OF conjunct2[OF conjunct2[OF conjunct2[OF fenced]]] conjunct2[OF S]], of "lit ''a''"] by simp
  then show ?thesis using conjunct1[OF fenced] by blast
qed

lemma attempt_after_disposal:
  assumes ok: "coordinator_ok c" and disposal: "disposal_attempt affected c = (c', Enters t)"
    and before: "snd (admission_attempt path c) = Enters k"
  shows "snd (admission_attempt path c') = Waits \<longleftrightarrow> set path \<inter> set affected \<noteq> {}"
proof -
  have c': "co_scopes c' = dict_set t (set affected) (co_scopes c)" "co_closing c' = co_closing c"
    using disposal by (auto simp: disposal_attempt_def Let_def split: if_splits)
  have path: "path \<noteq> []" "\<not> co_closing c" "\<not> overlaps (set path) (co_scopes c)"
    using before by (auto simp: admission_attempt_def Let_def split: if_splits)
  have dict: "dict_ok (co_scopes c)" using ok by (simp add: coordinator_ok_def)
  have apart: "set path \<inter> item = {}" if "map_of (co_scopes c) k = Some item" for k item
    using path(3) that unfolding overlaps_iff[OF dict] by blast
  have "overlaps (set path) (dict_set t (set affected) (co_scopes c)) \<longleftrightarrow> set path \<inter> set affected \<noteq> {}"
    unfolding overlaps_iff[OF dict_ok_set[OF dict]] map_of_dict_set fun_upd_apply using apart by (auto split: if_splits)
  then show ?thesis using path(1,2) c' by (simp add: admission_attempt_def Let_def)
qed

lemma lineage_members:
  assumes "graph_over rs g" and "lineage g a = Some (Inr path)" and "path \<noteq> []"
  shows "set path = {x. (a, x) \<in> (owned_by rs)\<^sup>*}"
proof (cases rule: lineage_returns[OF assms(1), where a = a, case_names unknown known])
  case unknown
  then show ?thesis using assms(2,3) by simp
next
  case (known p)
  then have p: "path \<noteq> []" "last path = a" "set (butlast path) = {b. (a, b) \<in> (owned_by rs)\<^sup>+}"
    using assms(2) by (simp_all add: lineage_of_def)
  then have "set path = insert a (set (butlast path))"
    by (metis append_butlast_last_id list.simps(15) rotate1.simps(2) set_rotate1)
  then show ?thesis using p(3) by (auto simp: rtrancl_eq_or_trancl)
qed

lemma subtree_members:
  assumes "graph_over rs g" and "subtree_postorder g b = Some (Inr affected)" and "affected \<noteq> []"
  shows "set affected = {x. (x, b) \<in> (owned_by rs)\<^sup>*}" "b \<in> rec_agent_id ` set rs"
proof -
  show b: "b \<in> rec_agent_id ` set rs"
    using assms(2,3) owner_is(2)[OF assms(1), of b] by (auto simp: subtree_postorder_def split: if_splits)
  show "set affected = {x. (x, b) \<in> (owned_by rs)\<^sup>*}"
    using subtree_postorder_returns[OF assms(1) b] assms(2) by (auto simp: child_first_def)
qed

text \<open>
  C30: a disposal stops exactly its subtree. With the ownership graph of an accepted directory, an
  Agent that could be activated before waits after the disposal of \<open>b\<close> has begun if and only if it
  is \<open>b\<close> or lies below \<open>b\<close>; and an Agent that does not exist yet waits if and only if its owner
  does: no child appears in a subtree that is being disposed.
\<close>

theorem disposal_stops_exactly_its_subtree:
  assumes "rebuild_directory es = Inr d" and "ownership_graph_of d = Inr g" and "c = run_coordinator fs new_coordinator"
    and "subtree_postorder g b = Some (Inr affected)" and "disposal_attempt affected c = (c', Enters t)"
    and "lineage g a = Some (Inr path)" and "snd (admission_attempt path c) = Enters k"
    and "n \<notin> rec_agent_id ` set (dir_records d)" and "lineage_for_new g n (Some a) = Some (Inr born)"
    and "snd (admission_attempt born c) = Enters k"
  shows "(snd (admission_attempt path c') = Waits \<longleftrightarrow> (a, b) \<in> (owned_by (dir_records d))\<^sup>*) \<and>
    (snd (admission_attempt born c') = Waits \<longleftrightarrow> (a, b) \<in> (owned_by (dir_records d))\<^sup>*)"
proof -
  let ?R = "owned_by (dir_records d)"
  have g: "graph_over (dir_records d) g"
    using ownership_graph_built[OF rebuild_directory_ok[OF assms(1)]] assms(2) by (metis sum.inject(2))
  have ok: "coordinator_ok c" using run_coordinator_ok[OF new_coordinator_ok] assms(3) by simp
  have "affected \<noteq> []" "path \<noteq> []"
    using assms(5,7) by (auto simp: disposal_attempt_def admission_attempt_def Let_def split: if_splits)
  then have sets: "set path = {x. (a, x) \<in> ?R\<^sup>*}" "set affected = {x. (x, b) \<in> ?R\<^sup>*}" "b \<in> rec_agent_id ` set (dir_records d)"
    using lineage_members[OF g assms(6)] subtree_members[OF g assms(4)] by simp_all
  have born: "born = path @ [n]" using assms(6,9) \<open>path \<noteq> []\<close> by (auto simp: lineage_for_new_def result_simps)
  have "n \<notin> set affected"
  proof
    assume "n \<in> set affected"
    then have "(n, b) \<in> ?R\<^sup>*" using sets(2) by simp
    then show False using assms(8) sets(3) owned_by_known[of "dir_records d"] g
      by (cases rule: converse_rtranclE) (auto simp: graph_over_def)
  qed
  moreover have "{x. (a, x) \<in> ?R\<^sup>*} \<inter> {x. (x, b) \<in> ?R\<^sup>*} \<noteq> {} \<longleftrightarrow> (a, b) \<in> ?R\<^sup>*" by (auto intro: rtrancl_trans)
  ultimately show ?thesis
    using attempt_after_disposal[OF ok assms(5,7)] attempt_after_disposal[OF ok assms(5,10)] sets(1,2) born by simp
qed

theorem disposal_stops_exactly_its_subtree_witness:
  "\<exists>g affected c' t path. ownership_graph_of sample_directory = Inr g \<and> subtree_postorder g (lit ''root'') = Some (Inr affected) \<and>
     disposal_attempt affected new_coordinator = (c', Enters t) \<and> lineage g (lit ''a1'') = Some (Inr path) \<and>
     snd (admission_attempt path c') = Waits"
proof -
  have facts: "rec_agent_id ` set (dir_records sample_directory) = {lit ''root'', lit ''a1''} \<and>
      list_ex (\<lambda>r. rec_agent_id r = lit ''a1'' \<and> rec_owner_agent_id r = Some (lit ''root'')) (dir_records sample_directory)" by code_simp
  then have edge: "(lit ''a1'', lit ''root'') \<in> owned_by (dir_records sample_directory)"
    unfolding list_ex_iff using owned_byI by metis
  obtain g where g: "ownership_graph_of sample_directory = Inr g" "graph_over (dir_records sample_directory) g"
    using ownership_graph_built[OF rebuild_directory_ok[OF sample_directory_rebuilt]] by blast
  obtain affected where affected: "subtree_postorder g (lit ''root'') = Some (Inr affected)"
    "child_first (owned_by (dir_records sample_directory)) [lit ''root''] affected"
    using subtree_postorder_returns[OF g(2), of "lit ''root''"] facts by blast
  obtain path where path: "lineage g (lit ''a1'') = Some (Inr path)" "path \<noteq> []"
  proof (cases rule: lineage_returns[OF g(2), where a = "lit ''a1''", case_names unknown known])
    case (known p)
    then show thesis using that by (simp add: lineage_of_def)
  qed (use facts in simp)
  have born: "lineage_for_new g (lit ''n'') (Some (lit ''a1'')) = Some (Inr (path @ [lit ''n'']))"
    using path by (simp add: lineage_for_new_def)
  have "lit ''root'' \<in> set affected" using affected(2) by (simp add: child_first_def)
  then have "affected \<noteq> []" by auto
  then obtain c' where c': "disposal_attempt affected new_coordinator = (c', Enters 1)"
    by (simp add: disposal_attempt_def new_coordinator_def overlaps_def dict_values_def)
  have enters: "snd (admission_attempt p new_coordinator) = Enters 1" if "p \<noteq> []" for p
    using that by (simp add: admission_attempt_def new_coordinator_def overlaps_def dict_values_def)
  have new: "lit ''n'' \<notin> rec_agent_id ` set (dir_records sample_directory)" using facts by (simp add: lit_def)
  have start: "new_coordinator = run_coordinator [] new_coordinator" by (simp add: run_coordinator_def)
  have "path @ [lit ''n''] \<noteq> []" by simp
  from disposal_stops_exactly_its_subtree[OF sample_directory_rebuilt g(1) start affected(1) c' path(1) enters[OF path(2)] new born enters[OF this]]
  show ?thesis using g(1) affected(1) c' path(1) edge by blast
qed

end
