(* ===== verification/Promotion_Values.thy ===== *)
theory Promotion_Values imports Agent_Identity Canonical_Json Events begin

text \<open>
  The values of patch review and promotion (api/promotion.py) and the rules both sides of the
  ledger share (promotion/models.py): frozen host plans, verifier results, and the identities and
  digests derived from them. The values have the types of their dataclasses, so the checks on the
  Python type of a value have no branch here; the exception is a receipt reference
  (api/sandbox.py), whose stream identity may be any JSON value. SHA-256 is the argument \<open>sha\<close>.
\<close>

section \<open>Values\<close>

record verifier_command =
  vc_command_id :: pystr
  vc_argv :: "pystr list"
  vc_timeout_ms :: int
  vc_public_requirement :: "pystr option"

record environment_policy =
  ep_policy_id :: pystr
  ep_passthrough :: "pystr list"
  ep_overrides :: "(pystr \<times> pystr) list"

record verification_plan =
  vp_plan_id :: pystr
  vp_plan_version :: int
  vp_commands :: "verifier_command list"
  vp_environment :: environment_policy
  vp_max_output_bytes :: int
  vp_protocol_version :: int

record receipt_reference =
  sr_stream_id :: json
  sr_execution_id :: pystr
  sr_receipt_digest :: pystr
  sr_policy_digest :: pystr

record verifier_outcome =
  vo_command_id :: pystr
  vo_argv_digest :: pystr
  vo_status :: pystr
  vo_exit_code :: "int option"
  vo_stdout_sha256 :: pystr
  vo_stdout_bytes :: int
  vo_stderr_sha256 :: pystr
  vo_stderr_bytes :: int
  vo_execution :: "receipt_reference option"

definition outcome_passed :: "verifier_outcome \<Rightarrow> bool" where
  "outcome_passed outcome \<longleftrightarrow> vo_status outcome = lit ''passed''"

record promotion_target =
  pt_target_id :: pystr
  pt_repository_path :: pystr
  pt_repository_fingerprint :: pystr
  pt_target_ref :: pystr
  pt_expected_revision :: pystr

text \<open>What a Review fact says, and with it the report that replay rebuilds from it.\<close>

record review_fact =
  rv_review_id :: pystr
  rv_review_request_id :: pystr
  rv_artifact_id :: pystr
  rv_manifest_digest :: pystr
  rv_patch_sha256 :: pystr
  rv_patch_size_bytes :: int
  rv_target_id :: pystr
  rv_repository_fingerprint :: pystr
  rv_target_ref :: pystr
  rv_expected_revision :: pystr
  rv_integration_tree :: pystr
  rv_integration_commit :: pystr
  rv_verifier_definition_digest :: pystr
  rv_verification_evidence_digest :: pystr
  rv_results :: "verifier_outcome list"
  rv_passed :: bool
  rv_merge_policy_version :: int
  rv_promotion_protocol_version :: int

record patch_review_report = review_fact +
  rv_reviewed_at :: datetime
  rv_review_digest :: pystr
  rv_recorded_seq :: int

record approval_fact =
  pa_operation_id :: pystr
  pa_review_id :: pystr
  pa_approval_digest :: pystr
  pa_approver_id :: pystr

record patch_approval = approval_fact +
  pa_approved_at :: datetime
  pa_recorded_seq :: int

record promotion_fact =
  pp_promotion_id :: pystr
  pp_review_id :: pystr
  pp_approval_digest :: pystr
  pp_target_id :: pystr
  pp_repository_fingerprint :: pystr
  pp_target_ref :: pystr
  pp_previous_revision :: pystr
  pp_new_revision :: pystr
  pp_integration_tree :: pystr
  pp_merge_policy_version :: int
  pp_promotion_protocol_version :: int

record patch_promotion = promotion_fact +
  pp_promoted_at :: datetime
  pp_recorded_seq :: int

definition PROMOTION_PROTOCOL_VERSION :: int where "PROMOTION_PROTOCOL_VERSION = 3"
definition MERGE_POLICY_VERSION :: int where "MERGE_POLICY_VERSION = 1"
definition MAX_VERIFIER_COMMANDS :: int where "MAX_VERIFIER_COMMANDS = 32"
definition MAX_VERIFIER_ARGUMENTS :: int where "MAX_VERIFIER_ARGUMENTS = 64"
definition MAX_ARGUMENT_LENGTH :: int where "MAX_ARGUMENT_LENGTH = 4096"
definition MAX_TIMEOUT_MS :: int where "MAX_TIMEOUT_MS = 3600000"
definition MAX_OUTPUT_BYTES :: int where "MAX_OUTPUT_BYTES = 64 * 1024 * 1024"
definition MAX_ENVIRONMENT_ENTRIES :: int where "MAX_ENVIRONMENT_ENTRIES = 64"
definition MAX_ENVIRONMENT_VALUE_LENGTH :: int where "MAX_ENVIRONMENT_VALUE_LENGTH = 4096"
definition MAX_PATCH_BYTES :: int where "MAX_PATCH_BYTES = 1024 * 1024 * 1024"

definition VERIFIER_STATUSES :: "pystr list" where
  "VERIFIER_STATUSES = map lit [''passed'', ''failed'', ''timed-out'', ''start-failed'', ''output-exceeded'']"

section \<open>Checks on values\<close>

definition promotion_input_error :: "string \<Rightarrow> string \<Rightarrow> 'a result" where
  "promotion_input_error code field = Inl (PromotionInputError code field)"

definition require_promotion_identifier :: "pystr \<Rightarrow> string \<Rightarrow> pystr result" where
  "require_promotion_identifier value field =
     (if is_agent_identifier (JStr value) then Inr value else promotion_input_error ''promotion-identity-invalid'' field)"

definition is_hex_digest :: "json \<Rightarrow> int list \<Rightarrow> bool" where
  \<comment> \<open>a string of hexadecimal digits without capitals is its own \<open>lower()\<close>\<close>
  "is_hex_digest value lengths = (case value of
     JStr s \<Rightarrow> py_len s \<in> set lengths \<and> list_all (\<lambda>c. (48 \<le> c \<and> c \<le> 57) \<or> (97 \<le> c \<and> c \<le> 102)) s
   | _ \<Rightarrow> False)"

definition require_hex_digest :: "pystr \<Rightarrow> int list \<Rightarrow> string \<Rightarrow> pystr result" where
  "require_hex_digest value lengths field =
     (if is_hex_digest (JStr value) lengths then Inr value
      else promotion_input_error (''promotion-'' @ field @ ''-invalid'') field)"

definition promotion_bounded_int :: "int \<Rightarrow> int \<Rightarrow> int \<Rightarrow> string \<Rightarrow> int result" where
  "promotion_bounded_int value minimum maximum field =
     (if value < minimum \<or> maximum < value then promotion_input_error (''promotion-'' @ field @ ''-invalid'') field
      else Inr value)"

definition has_suffix :: "'a list \<Rightarrow> 'a list \<Rightarrow> bool" where
  \<comment> \<open>\<open>s.endswith(p)\<close>\<close>
  "has_suffix p s = is_prefix (rev p) (rev s)"

fun split_at :: "int \<Rightarrow> pystr \<Rightarrow> pystr list" where
  \<comment> \<open>\<open>s.split(sep)\<close> for a one-character separator\<close>
  "split_at sep [] = [[]]"
| "split_at sep (c # s) = (if c = sep then [] # split_at sep s else (case split_at sep s of [] \<Rightarrow> [[c]] | part # parts \<Rightarrow> (c # part) # parts))"

definition ref_component_ok :: "pystr \<Rightarrow> bool" where
  "ref_component_ok component \<longleftrightarrow> component \<noteq> [] \<and> component \<noteq> lit ''.'' \<and> component \<noteq> lit ''..'' \<and>
     \<not> is_prefix (lit ''.'') component \<and> \<not> has_suffix (lit ''.lock'') component"

definition target_ref_ok :: "pystr \<Rightarrow> bool" where
  "target_ref_ok value \<longleftrightarrow>
     (let name = remove_prefix (lit ''refs/heads/'') value in
      is_prefix (lit ''refs/heads/'') value \<and> py_len value \<le> 512 \<and> value = py_strip value \<and>
      name \<noteq> [] \<and> \<not> is_prefix (lit ''/'') name \<and> \<not> has_suffix (lit ''/'') name \<and> list_all ref_component_ok (split_at 47 name) \<and>
      list_all (\<lambda>c. c \<notin> {126, 94, 58, 63, 42, 91, 92, 0, 32, 9} \<and> \<not> (c < 32 \<or> c = 127)) value)"

definition require_target_ref :: "json \<Rightarrow> pystr result" where
  \<comment> \<open>all its failures are the same error; \<open>"//" in name\<close> is an empty component\<close>
  "require_target_ref value = (case value of
     JStr s \<Rightarrow> (if target_ref_ok s then Inr s else promotion_input_error ''promotion-target-ref-invalid'' ''target_ref'')
   | _ \<Rightarrow> promotion_input_error ''promotion-target-ref-invalid'' ''target_ref'')"

section \<open>The frozen plan of the host\<close>

definition ascii_upper :: "int \<Rightarrow> int" where
  "ascii_upper c = (if 97 \<le> c \<and> c \<le> 122 then c - 32 else c)"

definition name_start :: "int \<Rightarrow> bool" where
  "name_start c \<longleftrightarrow> (65 \<le> c \<and> c \<le> 90) \<or> (97 \<le> c \<and> c \<le> 122) \<or> c = 95"

definition require_environment_name :: "pystr \<Rightarrow> string \<Rightarrow> pystr result" where
  \<comment> \<open>the characters of a name are ASCII where it is raised to upper case\<close>
  "require_environment_name value field =
     (if value = [] \<or> 256 < py_len value \<or> \<not> name_start (hd value) \<or> \<not> list_all (\<lambda>c. name_start c \<or> (48 \<le> c \<and> c \<le> 57)) value
      then promotion_input_error ''promotion-environment-name-invalid'' field
      else if is_prefix (lit ''GIT_'') (map ascii_upper value) then promotion_input_error ''promotion-environment-name-invalid'' field
      else Inr value)"

fun check_passthrough :: "pystr list \<Rightarrow> pystr list \<Rightarrow> pystr list result" where
  "check_passthrough seen [] = Inr seen"
| "check_passthrough seen (name # rest) =
     rbind (require_environment_name name ''passthrough'') (\<lambda>name.
       if name \<in> set seen then promotion_input_error ''promotion-environment-invalid'' ''environment''
       else check_passthrough (name # seen) rest)"

fun check_overrides :: "pystr list \<Rightarrow> (pystr \<times> pystr) list \<Rightarrow> unit result" where
  "check_overrides seen [] = Inr ()"
| "check_overrides seen ((name, override_value) # rest) =
     rbind (require_environment_name name ''overrides'') (\<lambda>name.
       if MAX_ENVIRONMENT_VALUE_LENGTH < py_len override_value \<or> 0 \<in> set override_value
       then promotion_input_error ''promotion-environment-value-invalid'' ''environment''
       else if name \<in> set seen then promotion_input_error ''promotion-environment-invalid'' ''environment''
       else check_overrides (name # seen) rest)"

definition freeze_environment_policy :: "environment_policy \<Rightarrow> environment_policy result" where
  "freeze_environment_policy value =
     rbind (require_promotion_identifier (ep_policy_id value) ''environment_policy_id'') (\<lambda>_.
       if MAX_ENVIRONMENT_ENTRIES < int (length (ep_passthrough value) + length (ep_overrides value))
       then promotion_input_error ''promotion-environment-invalid'' ''environment''
       else rbind (check_passthrough [] (ep_passthrough value)) (\<lambda>seen.
            rbind (check_overrides seen (ep_overrides value)) (\<lambda>_. Inr value)))"

definition printable :: "pystr \<Rightarrow> bool" where
  "printable s \<longleftrightarrow> list_all (\<lambda>c. \<not> (c < 32 \<or> c = 127)) s"

definition requirement_ok :: "pystr option \<Rightarrow> bool" where
  "requirement_ok requirement = (case requirement of None \<Rightarrow> True
     | Some s \<Rightarrow> py_strip s \<noteq> [] \<and> py_len s \<le> 1000 \<and> printable s)"

definition argv_ok :: "pystr list \<Rightarrow> bool" where
  "argv_ok argv \<longleftrightarrow> argv \<noteq> [] \<and> int (length argv) \<le> MAX_VERIFIER_ARGUMENTS \<and>
     list_all (\<lambda>a. py_len a \<le> MAX_ARGUMENT_LENGTH \<and> 0 \<notin> set a) argv \<and> hd argv \<noteq> [] \<and> hd argv = py_strip (hd argv)"

definition freeze_verifier_command :: "verifier_command \<Rightarrow> verifier_command result" where
  "freeze_verifier_command value =
     rbind (require_promotion_identifier (vc_command_id value) ''command_id'') (\<lambda>_.
       if \<not> requirement_ok (vc_public_requirement value)
       then promotion_input_error ''promotion-public-requirement-invalid'' ''public_requirement''
       else if \<not> argv_ok (vc_argv value) then promotion_input_error ''promotion-verifier-argv-invalid'' ''argv''
       else rbind (promotion_bounded_int (vc_timeout_ms value) 1 MAX_TIMEOUT_MS ''timeout-ms'') (\<lambda>_. Inr value))"

fun check_commands :: "pystr list \<Rightarrow> verifier_command list \<Rightarrow> unit result" where
  "check_commands identifiers [] = Inr ()"
| "check_commands identifiers (command # rest) =
     rbind (freeze_verifier_command command) (\<lambda>frozen.
       if vc_command_id frozen \<in> set identifiers then promotion_input_error ''promotion-plan-commands-invalid'' ''commands''
       else check_commands (vc_command_id frozen # identifiers) rest)"

definition freeze_verification_plan :: "verification_plan \<Rightarrow> verification_plan result" where
  "freeze_verification_plan value =
     rbind (require_promotion_identifier (vp_plan_id value) ''plan_id'') (\<lambda>_.
     rbind (promotion_bounded_int (vp_plan_version value) 1 1000000 ''plan-version'') (\<lambda>_.
       if vp_protocol_version value \<noteq> PROMOTION_PROTOCOL_VERSION then promotion_input_error ''promotion-plan-protocol-invalid'' ''plan''
       else rbind (promotion_bounded_int (vp_max_output_bytes value) 1 MAX_OUTPUT_BYTES ''max-output-bytes'') (\<lambda>_.
         if vp_commands value = [] \<or> MAX_VERIFIER_COMMANDS < int (length (vp_commands value))
         then promotion_input_error ''promotion-plan-commands-invalid'' ''commands''
         else rbind (check_commands [] (vp_commands value)) (\<lambda>_.
              rbind (freeze_environment_policy (vp_environment value)) (\<lambda>_. Inr value)))))"

section \<open>Digests\<close>

definition protocol_fields :: "string \<Rightarrow> payload" where
  "protocol_fields purpose = [(lit ''protocol'', JInt PROMOTION_PROTOCOL_VERSION), (lit ''purpose'', JStr (lit purpose))]"

definition environment_policy_digest :: "(pystr \<Rightarrow> pystr) \<Rightarrow> environment_policy \<Rightarrow> pystr result" where
  "environment_policy_digest sha policy =
     rbind (freeze_environment_policy policy) (\<lambda>policy. Inr (fingerprint sha (JDict (protocol_fields ''verifier-environment-policy'' @
       [(lit ''policy_id'', JStr (ep_policy_id policy)), (lit ''passthrough'', JList (map JStr (sort (ep_passthrough policy)))),
        (lit ''overrides'', JList (map (\<lambda>(name, value). JList [JStr name, JStr value])
          (sort_key fst (sort_key snd (ep_overrides policy)))))]))))"

definition command_data :: "verifier_command \<Rightarrow> payload" where
  "command_data command = [(lit ''command_id'', JStr (vc_command_id command)), (lit ''argv'', JList (map JStr (vc_argv command))),
     (lit ''timeout_ms'', JInt (vc_timeout_ms command)), (lit ''public_requirement'', json_opt (vc_public_requirement command))]"

definition verifier_command_digest :: "(pystr \<Rightarrow> pystr) \<Rightarrow> verifier_command \<Rightarrow> pystr result" where
  "verifier_command_digest sha command =
     rbind (freeze_verifier_command command) (\<lambda>command.
       Inr (fingerprint sha (JDict (protocol_fields ''verifier-command'' @ command_data command))))"

definition verifier_definition_digest :: "(pystr \<Rightarrow> pystr) \<Rightarrow> verification_plan \<Rightarrow> pystr result" where
  "verifier_definition_digest sha plan =
     rbind (freeze_verification_plan plan) (\<lambda>plan.
     rbind (environment_policy_digest sha (vp_environment plan)) (\<lambda>environment_digest.
       Inr (fingerprint sha (JDict (protocol_fields ''verifier-definition'' @
         [(lit ''plan_id'', JStr (vp_plan_id plan)), (lit ''plan_version'', JInt (vp_plan_version plan)),
          (lit ''max_output_bytes'', JInt (vp_max_output_bytes plan)),
          (lit ''environment_policy_id'', JStr (ep_policy_id (vp_environment plan))),
          (lit ''environment_policy_digest'', JStr environment_digest),
          (lit ''commands'', JList (map (\<lambda>command. JDict (command_data command)) (vp_commands plan)))])))))"

definition exit_code_ok :: "int option \<Rightarrow> bool" where
  "exit_code_ok exit_code = (case exit_code of None \<Rightarrow> True | Some i \<Rightarrow> - 1000000 \<le> i \<and> i \<le> 1000000)"

definition freeze_verifier_outcome :: "verifier_outcome \<Rightarrow> verifier_outcome result" where
  "freeze_verifier_outcome value =
     rbind (require_promotion_identifier (vo_command_id value) ''command_id'') (\<lambda>_.
     rbind (require_hex_digest (vo_argv_digest value) [64] ''argv-digest'') (\<lambda>_.
     rbind (require_hex_digest (vo_stdout_sha256 value) [64] ''stdout-digest'') (\<lambda>_.
     rbind (require_hex_digest (vo_stderr_sha256 value) [64] ''stderr-digest'') (\<lambda>_.
       if vo_status value \<notin> set VERIFIER_STATUSES then promotion_input_error ''promotion-verifier-status-invalid'' ''results''
       else if \<not> exit_code_ok (vo_exit_code value) then promotion_input_error ''promotion-verifier-exit-code-invalid'' ''results''
       else if outcome_passed value \<and> vo_exit_code value \<noteq> Some 0 then promotion_input_error ''promotion-verifier-status-invalid'' ''results''
       else rbind (promotion_bounded_int (vo_stdout_bytes value) 0 MAX_OUTPUT_BYTES ''stdout-bytes'') (\<lambda>_.
            rbind (promotion_bounded_int (vo_stderr_bytes value) 0 MAX_OUTPUT_BYTES ''stderr-bytes'') (\<lambda>_. Inr value))))))"

definition receipt_data :: "receipt_reference \<Rightarrow> payload" where
  \<comment> \<open>\<open>asdict(reference)\<close>\<close>
  "receipt_data r = [(lit ''stream_id'', sr_stream_id r), (lit ''execution_id'', JStr (sr_execution_id r)),
     (lit ''receipt_digest'', JStr (sr_receipt_digest r)), (lit ''policy_digest'', JStr (sr_policy_digest r))]"

definition outcome_data :: "verifier_outcome \<Rightarrow> payload" where
  "outcome_data outcome = [(lit ''command_id'', JStr (vo_command_id outcome)), (lit ''argv_digest'', JStr (vo_argv_digest outcome)),
     (lit ''status'', JStr (vo_status outcome)), (lit ''exit_code'', json_int_opt (vo_exit_code outcome)),
     (lit ''stdout_sha256'', JStr (vo_stdout_sha256 outcome)), (lit ''stdout_bytes'', JInt (vo_stdout_bytes outcome)),
     (lit ''stderr_sha256'', JStr (vo_stderr_sha256 outcome)), (lit ''stderr_bytes'', JInt (vo_stderr_bytes outcome)),
     (lit ''execution'', case vo_execution outcome of None \<Rightarrow> JNull | Some r \<Rightarrow> JDict (receipt_data r))]"

definition verifier_result_data :: "verifier_outcome \<Rightarrow> payload result" where
  "verifier_result_data outcome = rbind (freeze_verifier_outcome outcome) (\<lambda>outcome. Inr (outcome_data outcome))"

definition verification_evidence_digest :: "(pystr \<Rightarrow> pystr) \<Rightarrow> pystr \<Rightarrow> verifier_outcome list \<Rightarrow> pystr result" where
  "verification_evidence_digest sha definition_digest results =
     rbind (require_hex_digest definition_digest [64] ''verifier-definition-digest'') (\<lambda>definition_digest.
       if MAX_VERIFIER_COMMANDS < int (length results) then promotion_input_error ''promotion-verifier-result-invalid'' ''results''
       else rbind (mapM verifier_result_data results) (\<lambda>data.
         Inr (fingerprint sha (JDict (protocol_fields ''verification-evidence'' @
           [(lit ''verifier_definition_digest'', JStr definition_digest), (lit ''results'', JList (map JDict data))])))))"

fun results_match :: "(pystr \<Rightarrow> pystr) \<Rightarrow> verifier_command list \<Rightarrow> verifier_outcome list \<Rightarrow> bool result" where
  "results_match sha (command # commands) (outcome # outcomes) =
     rbind (freeze_verifier_outcome outcome) (\<lambda>_.
       if vo_command_id outcome \<noteq> vc_command_id command then Inr False
       else rbind (verifier_command_digest sha command) (\<lambda>digest.
         if vo_argv_digest outcome \<noteq> digest then Inr False else results_match sha commands outcomes))"
| "results_match sha _ _ = Inr True"

definition review_matches_verification_plan :: "(pystr \<Rightarrow> pystr) \<Rightarrow> 'a review_fact_scheme \<Rightarrow> verification_plan \<Rightarrow> bool" where
  "review_matches_verification_plan sha report plan =
     (case rbind (freeze_verification_plan plan) (\<lambda>frozen.
           rbind (verifier_definition_digest sha frozen) (\<lambda>definition_digest.
             if rv_verifier_definition_digest report \<noteq> definition_digest then Inr False
             else if length (rv_results report) \<noteq> length (vp_commands frozen) then Inr False
             else rbind (results_match sha (vp_commands frozen) (rv_results report)) (\<lambda>same.
               if \<not> same then Inr False
               else rbind (verification_evidence_digest sha definition_digest (rv_results report)) (\<lambda>evidence.
                 if rv_verification_evidence_digest report \<noteq> evidence then Inr False
                 else Inr (rv_passed report \<longleftrightarrow> list_all outcome_passed (rv_results report)))))) of
        Inl _ \<Rightarrow> False | Inr matches \<Rightarrow> matches)"

definition review_identity :: "(pystr \<Rightarrow> pystr) \<Rightarrow> pystr \<Rightarrow> pystr result" where
  "review_identity sha review_request_id =
     rbind (require_promotion_identifier review_request_id ''review_request_id'') (\<lambda>review_request_id.
       Inr (lit ''review-'' @ fingerprint sha (JDict (protocol_fields ''patch-review'' @ [(lit ''review_request_id'', JStr review_request_id)]))))"

definition approval_data :: "'a review_fact_scheme \<Rightarrow> payload" where
  "approval_data report = protocol_fields ''patch-promotion-approval'' @
     [(lit ''review_id'', JStr (rv_review_id report)), (lit ''review_request_id'', JStr (rv_review_request_id report)),
      (lit ''artifact_id'', JStr (rv_artifact_id report)), (lit ''manifest_digest'', JStr (rv_manifest_digest report)),
      (lit ''patch_sha256'', JStr (rv_patch_sha256 report)), (lit ''patch_size_bytes'', JInt (rv_patch_size_bytes report)),
      (lit ''target_id'', JStr (rv_target_id report)), (lit ''repository_fingerprint'', JStr (rv_repository_fingerprint report)),
      (lit ''target_ref'', JStr (rv_target_ref report)), (lit ''expected_revision'', JStr (rv_expected_revision report)),
      (lit ''integration_tree'', JStr (rv_integration_tree report)), (lit ''integration_commit'', JStr (rv_integration_commit report)),
      (lit ''verifier_definition_digest'', JStr (rv_verifier_definition_digest report)),
      (lit ''verification_evidence_digest'', JStr (rv_verification_evidence_digest report)),
      (lit ''merge_policy_version'', JInt (rv_merge_policy_version report)), (lit ''passed'', JBool (rv_passed report))]"

definition expected_approval_digest :: "(pystr \<Rightarrow> pystr) \<Rightarrow> 'a review_fact_scheme \<Rightarrow> pystr" where
  "expected_approval_digest sha report = fingerprint sha (JDict (approval_data report))"

definition promotion_identity :: "pystr \<Rightarrow> pystr result" where
  "promotion_identity approval_digest =
     rbind (require_hex_digest approval_digest [64] ''approval-digest'') (\<lambda>approval_digest. Inr (lit ''promotion-'' @ approval_digest))"

definition integration_commit_message :: "pystr \<Rightarrow> pystr \<Rightarrow> pystr result" where
  "integration_commit_message artifact_id manifest_digest =
     rbind (require_promotion_identifier artifact_id ''artifact_id'') (\<lambda>artifact_id.
     rbind (require_hex_digest manifest_digest [64] ''manifest-digest'') (\<lambda>manifest_digest.
       Inr (lit ''traceh-promotion/'' @ py_int_repr PROMOTION_PROTOCOL_VERSION @ lit '' policy='' @ py_int_repr MERGE_POLICY_VERSION @
            lit '' artifact='' @ artifact_id @ lit '' manifest='' @ manifest_digest)))"

section \<open>Times\<close>

definition padded :: "nat \<Rightarrow> int \<Rightarrow> pystr" where
  "padded width i = replicate (width - length (py_int_repr i)) 48 @ py_int_repr i"

definition civil_date :: "int \<Rightarrow> int \<times> int \<times> int" where
  \<comment> \<open>year, month and day of a day counted from 1970-01-01 in the proleptic Gregorian calendar\<close>
  "civil_date days =
     (let z = days + 719468; era = z div 146097; doe = z mod 146097;
          yoe = (doe - doe div 1460 + doe div 36524 - doe div 146096) div 365;
          doy = doe - (365 * yoe + yoe div 4 - yoe div 100);
          mp = (5 * doy + 2) div 153;
          month = (if mp < 10 then mp + 3 else mp - 9)
      in (yoe + era * 400 + (if month \<le> 2 then 1 else 0), month, doy - (153 * mp + 2) div 5 + 1))"

definition utc_isoformat :: "datetime \<Rightarrow> pystr" where
  \<comment> \<open>\<open>value.astimezone(UTC).isoformat()\<close>, for microseconds since 1970-01-01\<close>
  "utc_isoformat value =
     (let micros = dt_micros value; seconds = micros div 1000000; fraction = micros mod 1000000;
          (year, month, day) = civil_date (seconds div 86400); s = seconds mod 86400
      in padded 4 year @ lit ''-'' @ padded 2 month @ lit ''-'' @ padded 2 day @ lit ''T'' @
         padded 2 (s div 3600) @ lit '':'' @ padded 2 (s mod 3600 div 60) @ lit '':'' @ padded 2 (s mod 60) @
         (if fraction = 0 then [] else lit ''.'' @ padded 6 fraction) @ lit ''+00:00'')"

definition review_report_digest :: "(pystr \<Rightarrow> pystr) \<Rightarrow> payload \<Rightarrow> datetime \<Rightarrow> pystr result" where
  "review_report_digest sha data recorded_at =
     (if dt_utcoffset recorded_at = None then promotion_input_error ''promotion-recorded-at-invalid'' ''recorded_at''
      else Inr (fingerprint sha (JDict [(lit ''recorded_at'', JStr (utc_isoformat recorded_at)), (lit ''review'', JDict data)])))"

lemma iso_samples:
  "utc_isoformat \<lparr>dt_micros = 0, dt_utcoffset = Some 0\<rparr> = lit ''1970-01-01T00:00:00+00:00''"
  "utc_isoformat \<lparr>dt_micros = 1709210096000007, dt_utcoffset = Some 0\<rparr> = lit ''2024-02-29T12:34:56.000007+00:00''"
  by code_simp+

end
