(* ===== verification/Promotion_Events.thy ===== *)
theory Promotion_Events imports Promotion_Values begin

text \<open>
  The vocabulary of review, approval and promotion (promotion/events.py): three facts on one
  stream, the writer of each payload and its reader. A reader of the source returns the normalized
  dictionary, which holds exactly the values it has read; here it returns these values as a
  record, and \<open>review_data\<close>, \<open>approval_payload\<close> and \<open>promotion_payload\<close> are the dictionaries.
\<close>

abbreviation PROMOTION_LEDGER_STREAM :: pystr where "PROMOTION_LEDGER_STREAM \<equiv> lit ''patch-promotions:ledger''"
abbreviation PATCH_REVIEW_RECORDED :: string where "PATCH_REVIEW_RECORDED \<equiv> ''patch/review-recorded''"
abbreviation PATCH_APPROVAL_RECORDED :: string where "PATCH_APPROVAL_RECORDED \<equiv> ''patch/approval-recorded''"
abbreviation PATCH_PROMOTION_COMMITTED :: string where "PATCH_PROMOTION_COMMITTED \<equiv> ''patch/promotion-committed''"

definition PROMOTION_SCHEMA_VERSION :: int where "PROMOTION_SCHEMA_VERSION = 1"

definition PROMOTION_EVENT_TYPES :: "pystr list" where
  "PROMOTION_EVENT_TYPES = map lit [PATCH_REVIEW_RECORDED, PATCH_APPROVAL_RECORDED, PATCH_PROMOTION_COMMITTED]"

definition REVIEW_KEYS :: "string list" where
  "REVIEW_KEYS = [''review_id'', ''review_request_id'', ''artifact_id'', ''manifest_digest'', ''patch_sha256'', ''patch_size_bytes'',
     ''target_id'', ''repository_fingerprint'', ''target_ref'', ''expected_revision'', ''integration_tree'', ''integration_commit'',
     ''verifier_definition_digest'', ''verification_evidence_digest'', ''results'', ''passed'', ''merge_policy_version'',
     ''promotion_protocol_version'']"

definition APPROVAL_KEYS :: "string list" where
  "APPROVAL_KEYS = [''operation_id'', ''review_id'', ''approval_digest'', ''approver_id'']"

definition PROMOTION_KEYS :: "string list" where
  "PROMOTION_KEYS = [''promotion_id'', ''review_id'', ''approval_digest'', ''target_id'', ''repository_fingerprint'', ''target_ref'',
     ''previous_revision'', ''new_revision'', ''integration_tree'', ''merge_policy_version'', ''promotion_protocol_version'']"

definition RESULT_KEYS :: "string list" where
  "RESULT_KEYS = [''command_id'', ''argv_digest'', ''status'', ''exit_code'', ''stdout_sha256'', ''stdout_bytes'', ''stderr_sha256'',
     ''stderr_bytes'', ''execution'']"

section \<open>Writing\<close>

definition review_data :: "'a review_fact_scheme \<Rightarrow> payload" where
  "review_data f =
     [(lit ''review_id'', JStr (rv_review_id f)), (lit ''review_request_id'', JStr (rv_review_request_id f)),
      (lit ''artifact_id'', JStr (rv_artifact_id f)), (lit ''manifest_digest'', JStr (rv_manifest_digest f)),
      (lit ''patch_sha256'', JStr (rv_patch_sha256 f)), (lit ''patch_size_bytes'', JInt (rv_patch_size_bytes f)),
      (lit ''target_id'', JStr (rv_target_id f)), (lit ''repository_fingerprint'', JStr (rv_repository_fingerprint f)),
      (lit ''target_ref'', JStr (rv_target_ref f)), (lit ''expected_revision'', JStr (rv_expected_revision f)),
      (lit ''integration_tree'', JStr (rv_integration_tree f)), (lit ''integration_commit'', JStr (rv_integration_commit f)),
      (lit ''verifier_definition_digest'', JStr (rv_verifier_definition_digest f)),
      (lit ''verification_evidence_digest'', JStr (rv_verification_evidence_digest f)),
      (lit ''results'', JList (map (\<lambda>r. JDict (outcome_data r)) (rv_results f))), (lit ''passed'', JBool (rv_passed f)),
      (lit ''merge_policy_version'', JInt (rv_merge_policy_version f)),
      (lit ''promotion_protocol_version'', JInt (rv_promotion_protocol_version f))]"

definition approval_payload :: "'a approval_fact_scheme \<Rightarrow> payload" where
  "approval_payload f = [(lit ''operation_id'', JStr (pa_operation_id f)), (lit ''review_id'', JStr (pa_review_id f)),
     (lit ''approval_digest'', JStr (pa_approval_digest f)), (lit ''approver_id'', JStr (pa_approver_id f))]"

definition promotion_payload :: "'a promotion_fact_scheme \<Rightarrow> payload" where
  "promotion_payload f =
     [(lit ''promotion_id'', JStr (pp_promotion_id f)), (lit ''review_id'', JStr (pp_review_id f)),
      (lit ''approval_digest'', JStr (pp_approval_digest f)), (lit ''target_id'', JStr (pp_target_id f)),
      (lit ''repository_fingerprint'', JStr (pp_repository_fingerprint f)), (lit ''target_ref'', JStr (pp_target_ref f)),
      (lit ''previous_revision'', JStr (pp_previous_revision f)), (lit ''new_revision'', JStr (pp_new_revision f)),
      (lit ''integration_tree'', JStr (pp_integration_tree f)), (lit ''merge_policy_version'', JInt (pp_merge_policy_version f)),
      (lit ''promotion_protocol_version'', JInt (pp_promotion_protocol_version f))]"

text \<open>What a Review is written from: the artifact, the target and the integration it verified.\<close>

record review_subject =
  rs_artifact_id :: pystr
  rs_manifest_digest :: pystr
  rs_patch_sha256 :: pystr
  rs_patch_size_bytes :: int
  rs_target :: promotion_target
  rs_integration_tree :: pystr
  rs_integration_commit :: pystr

definition review_recorded_fact :: "(pystr \<Rightarrow> pystr) \<Rightarrow> pystr \<Rightarrow> review_subject \<Rightarrow> pystr \<Rightarrow> verifier_outcome list \<Rightarrow> review_fact result" where
  "review_recorded_fact sha review_request_id subject definition_digest results =
     (let target = rs_target subject in
      rbind (require_promotion_identifier review_request_id ''review_request_id'') (\<lambda>request.
      rbind (require_promotion_identifier (rs_artifact_id subject) ''artifact_id'') (\<lambda>artifact.
      rbind (require_promotion_identifier (pt_target_id target) ''target_id'') (\<lambda>target_id.
        if results = [] \<or> MAX_VERIFIER_COMMANDS < int (length results)
        then promotion_input_error ''promotion-verifier-result-invalid'' ''results''
        else rbind (require_hex_digest definition_digest [64] ''verifier-definition-digest'') (\<lambda>definition_digest.
             rbind (mapM verifier_result_data results) (\<lambda>_.
             rbind (review_identity sha request) (\<lambda>review_id.
             rbind (require_hex_digest (rs_manifest_digest subject) [64] ''manifest-digest'') (\<lambda>manifest.
             rbind (require_hex_digest (rs_patch_sha256 subject) [64] ''patch-digest'') (\<lambda>patch.
             rbind (promotion_bounded_int (rs_patch_size_bytes subject) 0 MAX_PATCH_BYTES ''patch-bytes'') (\<lambda>size.
             rbind (require_hex_digest (pt_repository_fingerprint target) [64] ''repository-fingerprint'') (\<lambda>repository.
             rbind (require_target_ref (JStr (pt_target_ref target))) (\<lambda>ref.
             rbind (require_hex_digest (pt_expected_revision target) [40, 64] ''expected-revision'') (\<lambda>revision.
             rbind (require_hex_digest (rs_integration_tree subject) [40, 64] ''integration-tree'') (\<lambda>tree.
             rbind (require_hex_digest (rs_integration_commit subject) [40, 64] ''integration-commit'') (\<lambda>commit.
             rbind (verification_evidence_digest sha definition_digest results) (\<lambda>evidence.
               Inr \<lparr>rv_review_id = review_id, rv_review_request_id = request, rv_artifact_id = artifact,
                 rv_manifest_digest = manifest, rv_patch_sha256 = patch, rv_patch_size_bytes = size, rv_target_id = target_id,
                 rv_repository_fingerprint = repository, rv_target_ref = ref, rv_expected_revision = revision,
                 rv_integration_tree = tree, rv_integration_commit = commit, rv_verifier_definition_digest = definition_digest,
                 rv_verification_evidence_digest = evidence, rv_results = results, rv_passed = list_all outcome_passed results,
                 rv_merge_policy_version = MERGE_POLICY_VERSION,
                 rv_promotion_protocol_version = PROMOTION_PROTOCOL_VERSION\<rparr>))))))))))))))))"

definition review_recorded_data :: "(pystr \<Rightarrow> pystr) \<Rightarrow> pystr \<Rightarrow> review_subject \<Rightarrow> pystr \<Rightarrow> verifier_outcome list \<Rightarrow> payload result" where
  "review_recorded_data sha review_request_id subject definition_digest results =
     rbind (review_recorded_fact sha review_request_id subject definition_digest results) (\<lambda>f. Inr (review_data f))"

definition approval_recorded_data :: "pystr \<Rightarrow> pystr \<Rightarrow> pystr \<Rightarrow> pystr \<Rightarrow> payload result" where
  "approval_recorded_data operation_id review_id approval_digest approver_id =
     rbind (require_promotion_identifier operation_id ''operation_id'') (\<lambda>operation_id.
     rbind (require_promotion_identifier review_id ''review_id'') (\<lambda>review_id.
     rbind (require_hex_digest approval_digest [64] ''approval-digest'') (\<lambda>approval_digest.
     rbind (require_promotion_identifier approver_id ''approver_id'') (\<lambda>approver_id.
       Inr (approval_payload \<lparr>pa_operation_id = operation_id, pa_review_id = review_id, pa_approval_digest = approval_digest,
         pa_approver_id = approver_id\<rparr>)))))"

definition promotion_committed_data ::
    "pystr \<Rightarrow> pystr \<Rightarrow> pystr \<Rightarrow> pystr \<Rightarrow> pystr \<Rightarrow> pystr \<Rightarrow> pystr \<Rightarrow> pystr \<Rightarrow> payload result" where
  "promotion_committed_data review_id approval_digest target repository_fingerprint target_ref previous_revision new_revision integration_tree =
     rbind (require_hex_digest approval_digest [64] ''approval-digest'') (\<lambda>approval_digest.
     rbind (promotion_identity approval_digest) (\<lambda>promotion_id.
     rbind (require_promotion_identifier review_id ''review_id'') (\<lambda>review_id.
     rbind (require_promotion_identifier target ''target_id'') (\<lambda>target.
     rbind (require_hex_digest repository_fingerprint [64] ''repository-fingerprint'') (\<lambda>repository_fingerprint.
     rbind (require_target_ref (JStr target_ref)) (\<lambda>target_ref.
     rbind (require_hex_digest previous_revision [40, 64] ''previous-revision'') (\<lambda>previous_revision.
     rbind (require_hex_digest new_revision [40, 64] ''new-revision'') (\<lambda>new_revision.
     rbind (require_hex_digest integration_tree [40, 64] ''integration-tree'') (\<lambda>integration_tree.
       Inr (promotion_payload \<lparr>pp_promotion_id = promotion_id, pp_review_id = review_id, pp_approval_digest = approval_digest,
         pp_target_id = target, pp_repository_fingerprint = repository_fingerprint, pp_target_ref = target_ref,
         pp_previous_revision = previous_revision, pp_new_revision = new_revision, pp_integration_tree = integration_tree,
         pp_merge_policy_version = MERGE_POLICY_VERSION, pp_promotion_protocol_version = PROMOTION_PROTOCOL_VERSION\<rparr>))))))))))"

section \<open>Reading\<close>

definition is_promotion_protocol_error :: "exn \<Rightarrow> bool" where
  "is_promotion_protocol_error e = (case e of PromotionProtocolError _ _ \<Rightarrow> True | _ \<Rightarrow> False)"

definition promotion_error :: "string \<Rightarrow> int \<Rightarrow> 'a result" where
  "promotion_error code seq = Inl (PromotionProtocolError code seq)"

definition promotion_code :: "string \<Rightarrow> string" where
  \<comment> \<open>\<open>"promotion-" + key.replace("_", "-") + "-invalid"\<close>\<close>
  "promotion_code key = ''promotion-'' @ map (\<lambda>c. if c = CHR ''_'' then CHR ''-'' else c) key @ ''-invalid''"

definition promotion_safe_seq :: "event_envelope \<Rightarrow> int" where
  "promotion_safe_seq event = (if 0 \<le> ev_seq event then ev_seq event else 0)"

definition read_promotion_header :: "event_envelope \<Rightarrow> (pystr \<times> payload \<times> datetime \<times> int) result" where
  "read_promotion_header event =
     (if ev_stream_id event \<noteq> PROMOTION_LEDGER_STREAM then promotion_error ''promotion-stream-unexpected'' (promotion_safe_seq event)
      else if ev_seq event < 1 then promotion_error ''promotion-sequence-invalid'' 0
      else if ev_schema_version event \<noteq> PROMOTION_SCHEMA_VERSION then promotion_error ''promotion-schema-version-unsupported'' (ev_seq event)
      else if ev_type event \<notin> set PROMOTION_EVENT_TYPES then promotion_error ''promotion-event-type-unknown'' (ev_seq event)
      else if dt_utcoffset (ev_occurred_at event) = None then promotion_error ''promotion-recorded-at-invalid'' (ev_seq event)
      else case ev_data event of
        JDict data \<Rightarrow> Inr (ev_type event, data, (ev_occurred_at event)\<lparr>dt_utcoffset := Some 0\<rparr>, ev_seq event)
      | _ \<Rightarrow> promotion_error ''promotion-payload-invalid'' (ev_seq event))"

definition promotion_event_header :: "event_envelope \<Rightarrow> (pystr \<times> payload \<times> datetime \<times> int) result" where
  "promotion_event_header event =
     wrap_unless is_promotion_protocol_error (PromotionProtocolError ''promotion-payload-invalid'' (promotion_safe_seq event))
       (read_promotion_header event)"

definition is_promotion_fact :: "event_envelope \<Rightarrow> string \<Rightarrow> payload \<Rightarrow> bool" where
  "is_promotion_fact event event_type data =
     (case promotion_event_header event of
        Inl _ \<Rightarrow> False
      | Inr (actual_type, _) \<Rightarrow> (if actual_type \<noteq> lit event_type then False else canonical_json (ev_data event) = canonical_json (JDict data)))"

definition protocol_identifier :: "json \<Rightarrow> string \<Rightarrow> int \<Rightarrow> pystr result" where
  "protocol_identifier value key seq =
     (case value of JStr s \<Rightarrow> (if ident_ok s then Inr s else promotion_error (promotion_code key) seq)
      | _ \<Rightarrow> promotion_error (promotion_code key) seq)"

definition promotion_identifier :: "payload \<Rightarrow> string \<Rightarrow> int \<Rightarrow> pystr result" where
  "promotion_identifier data key seq = protocol_identifier (jget data key) key seq"

definition promotion_digest :: "payload \<Rightarrow> string \<Rightarrow> int list \<Rightarrow> int \<Rightarrow> pystr result" where
  "promotion_digest data key lengths seq =
     (case jget data key of JStr s \<Rightarrow> (if is_hex_digest (JStr s) lengths then Inr s else promotion_error (promotion_code key) seq)
      | _ \<Rightarrow> promotion_error (promotion_code key) seq)"

definition promotion_integer :: "payload \<Rightarrow> string \<Rightarrow> int \<Rightarrow> int \<Rightarrow> int \<Rightarrow> int result" where
  "promotion_integer data key seq minimum maximum =
     (case jget data key of JInt i \<Rightarrow> (if i < minimum \<or> maximum < i then promotion_error (promotion_code key) seq else Inr i)
      | _ \<Rightarrow> promotion_error (promotion_code key) seq)"

definition promotion_target_ref :: "payload \<Rightarrow> int \<Rightarrow> pystr result" where
  "promotion_target_ref data seq =
     (case require_target_ref (jget data ''target_ref'') of Inl _ \<Rightarrow> promotion_error ''promotion-target-ref-invalid'' seq | Inr s \<Rightarrow> Inr s)"

definition json_truthy :: "json \<Rightarrow> bool" where
  "json_truthy value = (case value of JNull \<Rightarrow> False | JBool b \<Rightarrow> b | JInt i \<Rightarrow> i \<noteq> 0 | JFloat t \<Rightarrow> t \<notin> {lit ''0.0'', lit ''-0.0''}
     | JStr s \<Rightarrow> s \<noteq> [] | JList vs \<Rightarrow> vs \<noteq> [] | JDict kvs \<Rightarrow> kvs \<noteq> [])"

definition execution_reference :: "json \<Rightarrow> int \<Rightarrow> receipt_reference option result" where
  "execution_reference value seq =
     (case value of
        JNull \<Rightarrow> Inr None
      | JDict d \<Rightarrow>
          (case (jget d ''execution_id'', jget d ''receipt_digest'', jget d ''policy_digest'') of
             (JStr execution, JStr receipt, JStr policy) \<Rightarrow>
               (if \<not> keys_are d [''stream_id'', ''execution_id'', ''receipt_digest'', ''policy_digest''] \<or> \<not> json_truthy (jget d ''stream_id'') \<or>
                   \<not> is_hex_digest (JStr execution) [32] \<or> \<not> is_hex_digest (JStr receipt) [64] \<or> \<not> is_hex_digest (JStr policy) [64]
                then promotion_error ''promotion-sandbox-reference-invalid'' seq
                else Inr (Some \<lparr>sr_stream_id = jget d ''stream_id'', sr_execution_id = execution, sr_receipt_digest = receipt,
                  sr_policy_digest = policy\<rparr>))
           | _ \<Rightarrow> promotion_error ''promotion-sandbox-reference-invalid'' seq)
      | _ \<Rightarrow> promotion_error ''promotion-sandbox-reference-invalid'' seq)"

definition read_exit_code :: "json \<Rightarrow> int \<Rightarrow> int option result" where
  "read_exit_code value seq =
     (case value of
        JNull \<Rightarrow> Inr None
      | JInt i \<Rightarrow> (if exit_code_ok (Some i) then Inr (Some i) else promotion_error ''promotion-verifier-result-invalid'' seq)
      | _ \<Rightarrow> promotion_error ''promotion-verifier-result-invalid'' seq)"

definition read_status :: "json \<Rightarrow> int \<Rightarrow> pystr result" where
  "read_status value seq =
     (case value of JStr s \<Rightarrow> (if s \<in> set VERIFIER_STATUSES then Inr s else promotion_error ''promotion-verifier-status-invalid'' seq)
      | _ \<Rightarrow> promotion_error ''promotion-verifier-status-invalid'' seq)"

definition read_result :: "pystr list \<Rightarrow> json \<Rightarrow> int \<Rightarrow> verifier_outcome result" where
  "read_result identifiers item seq =
     (case item of
        JDict d \<Rightarrow>
          (if \<not> keys_are d RESULT_KEYS then promotion_error ''promotion-verifier-result-invalid'' seq
           else rbind (promotion_identifier d ''command_id'' seq) (\<lambda>command_id.
             if command_id \<in> set identifiers then promotion_error ''promotion-verifier-result-invalid'' seq
             else rbind (read_status (jget d ''status'') seq) (\<lambda>status.
                  rbind (read_exit_code (jget d ''exit_code'') seq) (\<lambda>exit_code.
                    if status = lit ''passed'' \<and> exit_code \<noteq> Some 0 then promotion_error ''promotion-verifier-status-invalid'' seq
                    else rbind (promotion_digest d ''argv_digest'' [64] seq) (\<lambda>argv.
                         rbind (promotion_digest d ''stdout_sha256'' [64] seq) (\<lambda>stdout.
                         rbind (promotion_integer d ''stdout_bytes'' seq 0 MAX_OUTPUT_BYTES) (\<lambda>stdout_bytes.
                         rbind (promotion_digest d ''stderr_sha256'' [64] seq) (\<lambda>stderr.
                         rbind (promotion_integer d ''stderr_bytes'' seq 0 MAX_OUTPUT_BYTES) (\<lambda>stderr_bytes.
                         rbind (execution_reference (jget d ''execution'') seq) (\<lambda>execution.
                           Inr \<lparr>vo_command_id = command_id, vo_argv_digest = argv, vo_status = status, vo_exit_code = exit_code,
                             vo_stdout_sha256 = stdout, vo_stdout_bytes = stdout_bytes, vo_stderr_sha256 = stderr,
                             vo_stderr_bytes = stderr_bytes, vo_execution = execution\<rparr>))))))))))
      | _ \<Rightarrow> promotion_error ''promotion-verifier-result-invalid'' seq)"

fun read_results :: "pystr list \<Rightarrow> json list \<Rightarrow> int \<Rightarrow> verifier_outcome list result" where
  "read_results identifiers [] seq = Inr []"
| "read_results identifiers (item # items) seq =
     rbind (read_result identifiers item seq) (\<lambda>outcome.
     rbind (read_results (vo_command_id outcome # identifiers) items seq) (\<lambda>outcomes. Inr (outcome # outcomes)))"

definition normalized_results :: "json \<Rightarrow> int \<Rightarrow> verifier_outcome list result" where
  "normalized_results value seq =
     (case value of
        JList items \<Rightarrow>
          (if items = [] \<or> MAX_VERIFIER_COMMANDS < int (length items) then promotion_error ''promotion-verifier-result-invalid'' seq
           else read_results [] items seq)
      | _ \<Rightarrow> promotion_error ''promotion-verifier-result-invalid'' seq)"

definition normalized_review_payload :: "(pystr \<Rightarrow> pystr) \<Rightarrow> payload \<Rightarrow> int \<Rightarrow> review_fact result" where
  "normalized_review_payload sha data seq =
     (if \<not> keys_are data REVIEW_KEYS then promotion_error ''promotion-payload-keys-unexpected'' seq
      else rbind (promotion_identifier data ''review_request_id'' seq) (\<lambda>request.
           rbind (promotion_identifier data ''review_id'' seq) (\<lambda>review_id.
           rbind (review_identity sha request) (\<lambda>identity.
             if review_id \<noteq> identity then promotion_error ''promotion-review-id-invalid'' seq
             else rbind (normalized_results (jget data ''results'') seq) (\<lambda>results.
                  rbind (promotion_digest data ''verifier_definition_digest'' [64] seq) (\<lambda>definition_digest.
                  rbind (promotion_digest data ''verification_evidence_digest'' [64] seq) (\<lambda>evidence.
                  rbind (verification_evidence_digest sha definition_digest results) (\<lambda>expected.
                    if evidence \<noteq> expected then promotion_error ''promotion-evidence-digest-invalid'' seq
                    else case jget data ''passed'' of
                      JBool passed \<Rightarrow>
                        (if passed \<noteq> list_all outcome_passed results then promotion_error ''promotion-passed-invalid'' seq
                         else rbind (promotion_identifier data ''artifact_id'' seq) (\<lambda>artifact.
                              rbind (promotion_digest data ''manifest_digest'' [64] seq) (\<lambda>manifest.
                              rbind (promotion_digest data ''patch_sha256'' [64] seq) (\<lambda>patch.
                              rbind (promotion_integer data ''patch_size_bytes'' seq 0 MAX_PATCH_BYTES) (\<lambda>size.
                              rbind (promotion_identifier data ''target_id'' seq) (\<lambda>target.
                              rbind (promotion_digest data ''repository_fingerprint'' [64] seq) (\<lambda>repository.
                              rbind (promotion_target_ref data seq) (\<lambda>ref.
                              rbind (promotion_digest data ''expected_revision'' [40, 64] seq) (\<lambda>revision.
                              rbind (promotion_digest data ''integration_tree'' [40, 64] seq) (\<lambda>tree.
                              rbind (promotion_digest data ''integration_commit'' [40, 64] seq) (\<lambda>commit.
                              rbind (promotion_integer data ''merge_policy_version'' seq MERGE_POLICY_VERSION MERGE_POLICY_VERSION) (\<lambda>merge.
                              rbind (promotion_integer data ''promotion_protocol_version'' seq PROMOTION_PROTOCOL_VERSION PROMOTION_PROTOCOL_VERSION) (\<lambda>protocol.
                                Inr \<lparr>rv_review_id = review_id, rv_review_request_id = request, rv_artifact_id = artifact,
                                  rv_manifest_digest = manifest, rv_patch_sha256 = patch, rv_patch_size_bytes = size, rv_target_id = target,
                                  rv_repository_fingerprint = repository, rv_target_ref = ref, rv_expected_revision = revision,
                                  rv_integration_tree = tree, rv_integration_commit = commit,
                                  rv_verifier_definition_digest = definition_digest, rv_verification_evidence_digest = evidence,
                                  rv_results = results, rv_passed = passed, rv_merge_policy_version = merge,
                                  rv_promotion_protocol_version = protocol\<rparr>)))))))))))))
                    | _ \<Rightarrow> promotion_error ''promotion-passed-invalid'' seq))))))))"

definition normalized_approval_payload :: "payload \<Rightarrow> int \<Rightarrow> approval_fact result" where
  "normalized_approval_payload data seq =
     (if \<not> keys_are data APPROVAL_KEYS then promotion_error ''promotion-payload-keys-unexpected'' seq
      else rbind (promotion_identifier data ''operation_id'' seq) (\<lambda>operation_id.
           rbind (promotion_identifier data ''review_id'' seq) (\<lambda>review_id.
           rbind (promotion_digest data ''approval_digest'' [64] seq) (\<lambda>approval_digest.
           rbind (promotion_identifier data ''approver_id'' seq) (\<lambda>approver_id.
             Inr \<lparr>pa_operation_id = operation_id, pa_review_id = review_id, pa_approval_digest = approval_digest,
               pa_approver_id = approver_id\<rparr>)))))"

definition normalized_promotion_payload :: "payload \<Rightarrow> int \<Rightarrow> promotion_fact result" where
  "normalized_promotion_payload data seq =
     (if \<not> keys_are data PROMOTION_KEYS then promotion_error ''promotion-payload-keys-unexpected'' seq
      else rbind (promotion_digest data ''approval_digest'' [64] seq) (\<lambda>approval_digest.
           rbind (promotion_identifier data ''promotion_id'' seq) (\<lambda>promotion_id.
           rbind (promotion_identity approval_digest) (\<lambda>identity.
             if promotion_id \<noteq> identity then promotion_error ''promotion-id-invalid'' seq
             else rbind (promotion_identifier data ''review_id'' seq) (\<lambda>review_id.
                  rbind (promotion_identifier data ''target_id'' seq) (\<lambda>target.
                  rbind (promotion_digest data ''repository_fingerprint'' [64] seq) (\<lambda>repository.
                  rbind (promotion_target_ref data seq) (\<lambda>ref.
                  rbind (promotion_digest data ''previous_revision'' [40, 64] seq) (\<lambda>previous.
                  rbind (promotion_digest data ''new_revision'' [40, 64] seq) (\<lambda>revision.
                  rbind (promotion_digest data ''integration_tree'' [40, 64] seq) (\<lambda>tree.
                  rbind (promotion_integer data ''merge_policy_version'' seq MERGE_POLICY_VERSION MERGE_POLICY_VERSION) (\<lambda>merge.
                  rbind (promotion_integer data ''promotion_protocol_version'' seq PROMOTION_PROTOCOL_VERSION PROMOTION_PROTOCOL_VERSION) (\<lambda>protocol.
                    Inr \<lparr>pp_promotion_id = promotion_id, pp_review_id = review_id, pp_approval_digest = approval_digest,
                      pp_target_id = target, pp_repository_fingerprint = repository, pp_target_ref = ref,
                      pp_previous_revision = previous, pp_new_revision = revision, pp_integration_tree = tree,
                      pp_merge_policy_version = merge, pp_promotion_protocol_version = protocol\<rparr>)))))))))))))"

end
