(* ===== verification/Promotion_Ledger.thy ===== *)
theory Promotion_Ledger imports Promotion_Events Event_Store begin

text \<open>
  The ledger of reviews, approvals and promotions, rebuilt from its stream on every load
  (promotion/projection.py). The local variables of \<open>PromotionLedger.rebuild\<close> are the fields of
  the scan. What the chain of facts means is proved at the end: a promotion stands on the one
  approval of the one review whose content a human has named by its digest.
\<close>

section \<open>The projector\<close>

record promotion_scan =
  sc_reviews :: "patch_review_report list"
  sc_approvals :: "patch_approval list"
  sc_promotions :: "patch_promotion list"
  sc_review_by_id :: "(pystr, patch_review_report) dict"
  sc_request_ids :: "pystr list"
  sc_approval_by_digest :: "(pystr, patch_approval) dict"
  sc_approved_reviews :: "pystr list"
  sc_operation_ids :: "pystr list"
  sc_promoted_digests :: "pystr list"
  sc_promotion_ids :: "pystr list"
  sc_expected_seq :: int

definition empty_promotion_scan :: promotion_scan where
  "empty_promotion_scan = \<lparr>sc_reviews = [], sc_approvals = [], sc_promotions = [], sc_review_by_id = [], sc_request_ids = [],
     sc_approval_by_digest = [], sc_approved_reviews = [], sc_operation_ids = [], sc_promoted_digests = [], sc_promotion_ids = [],
     sc_expected_seq = 1\<rparr>"

definition review_report_of :: "(pystr \<Rightarrow> pystr) \<Rightarrow> review_fact \<Rightarrow> datetime \<Rightarrow> int \<Rightarrow> patch_review_report result" where
  "review_report_of sha f recorded_at seq =
     rbind (review_report_digest sha (review_data f) recorded_at) (\<lambda>digest.
       Inr (review_fact.extend f (patch_review_report.fields recorded_at digest seq)))"

definition apply_review_recorded :: "(pystr \<Rightarrow> pystr) \<Rightarrow> payload \<Rightarrow> datetime \<Rightarrow> int \<Rightarrow> promotion_scan \<Rightarrow> promotion_scan result" where
  "apply_review_recorded sha data recorded_at seq s =
     rbind (normalized_review_payload sha data seq) (\<lambda>f.
     rbind (review_report_of sha f recorded_at seq) (\<lambda>review.
       if dict_has (rv_review_id review) (sc_review_by_id s) then promotion_error ''promotion-review-duplicate'' seq
       else if rv_review_request_id review \<in> set (sc_request_ids s) then promotion_error ''promotion-request-duplicate'' seq
       else Inr (s\<lparr>sc_review_by_id := dict_set (rv_review_id review) review (sc_review_by_id s),
         sc_request_ids := rv_review_request_id review # sc_request_ids s, sc_reviews := sc_reviews s @ [review]\<rparr>)))"

definition apply_approval_recorded :: "(pystr \<Rightarrow> pystr) \<Rightarrow> payload \<Rightarrow> datetime \<Rightarrow> int \<Rightarrow> promotion_scan \<Rightarrow> promotion_scan result" where
  "apply_approval_recorded sha data recorded_at seq s =
     rbind (normalized_approval_payload data seq) (\<lambda>f.
       let approval = approval_fact.extend f (patch_approval.fields recorded_at seq) in
       case map_of (sc_review_by_id s) (pa_review_id approval) of
         None \<Rightarrow> promotion_error ''promotion-review-unknown'' seq
       | Some review \<Rightarrow>
           (if \<not> rv_passed review then promotion_error ''promotion-review-not-passed'' seq
            else if pa_approval_digest approval \<noteq> expected_approval_digest sha review then promotion_error ''promotion-approval-digest-invalid'' seq
            else if pa_operation_id approval \<in> set (sc_operation_ids s) then promotion_error ''promotion-operation-duplicate'' seq
            else if pa_review_id approval \<in> set (sc_approved_reviews s) \<or> dict_has (pa_approval_digest approval) (sc_approval_by_digest s)
            then promotion_error ''promotion-approval-duplicate'' seq
            else Inr (s\<lparr>sc_operation_ids := pa_operation_id approval # sc_operation_ids s,
              sc_approved_reviews := pa_review_id approval # sc_approved_reviews s,
              sc_approval_by_digest := dict_set (pa_approval_digest approval) approval (sc_approval_by_digest s),
              sc_approvals := sc_approvals s @ [approval]\<rparr>)))"

definition promotion_of_fact :: "promotion_fact \<Rightarrow> datetime \<Rightarrow> int \<Rightarrow> patch_promotion result" where
  "promotion_of_fact f recorded_at seq =
     rbind (promotion_identity (pp_approval_digest f)) (\<lambda>identity.
       if pp_promotion_id f \<noteq> identity then promotion_error ''promotion-id-invalid'' seq
       else Inr (promotion_fact.extend f (patch_promotion.fields recorded_at seq)))"

definition promotion_binds :: "'a promotion_fact_scheme \<Rightarrow> 'b review_fact_scheme \<Rightarrow> bool" where
  "promotion_binds promotion review \<longleftrightarrow> pp_target_id promotion = rv_target_id review \<and>
     pp_repository_fingerprint promotion = rv_repository_fingerprint review \<and> pp_target_ref promotion = rv_target_ref review \<and>
     pp_previous_revision promotion = rv_expected_revision review \<and> pp_new_revision promotion = rv_integration_commit review \<and>
     pp_integration_tree promotion = rv_integration_tree review"

definition apply_promotion_committed :: "payload \<Rightarrow> datetime \<Rightarrow> int \<Rightarrow> promotion_scan \<Rightarrow> promotion_scan result" where
  "apply_promotion_committed data recorded_at seq s =
     rbind (normalized_promotion_payload data seq) (\<lambda>f.
     rbind (promotion_of_fact f recorded_at seq) (\<lambda>promotion.
       case map_of (sc_approval_by_digest s) (pp_approval_digest promotion) of
         None \<Rightarrow> promotion_error ''promotion-approval-unknown'' seq
       | Some approval \<Rightarrow>
           (if pp_review_id promotion \<noteq> pa_review_id approval then promotion_error ''promotion-review-mismatch'' seq
            else if pp_promotion_id promotion \<in> set (sc_promotion_ids s) then promotion_error ''promotion-duplicate'' seq
            else if pp_approval_digest promotion \<in> set (sc_promoted_digests s) then promotion_error ''promotion-duplicate'' seq
            else case map_of (sc_review_by_id s) (pa_review_id approval) of
              None \<Rightarrow> Inl PyKeyError
            | Some review \<Rightarrow>
                (if \<not> promotion_binds promotion review then promotion_error ''promotion-binding-invalid'' seq
                 else Inr (s\<lparr>sc_promotion_ids := pp_promotion_id promotion # sc_promotion_ids s,
                   sc_promoted_digests := pp_approval_digest promotion # sc_promoted_digests s,
                   sc_promotions := sc_promotions s @ [promotion]\<rparr>)))))"

definition scan_promotion :: "(pystr \<Rightarrow> pystr) \<Rightarrow> promotion_scan \<Rightarrow> event_envelope \<Rightarrow> promotion_scan result" where
  "scan_promotion sha s event =
     rbind (promotion_event_header event) (\<lambda>(event_type, data, recorded_at, seq).
       if seq \<noteq> sc_expected_seq s then promotion_error ''promotion-sequence-invalid'' seq
       else let s = s\<lparr>sc_expected_seq := sc_expected_seq s + 1\<rparr> in
         if event_type = lit PATCH_REVIEW_RECORDED then apply_review_recorded sha data recorded_at seq s
         else if event_type = lit PATCH_APPROVAL_RECORDED then apply_approval_recorded sha data recorded_at seq s
         else apply_promotion_committed data recorded_at seq s)"

record promotion_ledger =
  pl_reviews :: "patch_review_report list"
  pl_approvals :: "patch_approval list"
  pl_promotions :: "patch_promotion list"
  pl_head_seq :: int

definition ledger_of_scan :: "promotion_scan \<Rightarrow> promotion_ledger" where
  "ledger_of_scan s = \<lparr>pl_reviews = sc_reviews s, pl_approvals = sc_approvals s, pl_promotions = sc_promotions s,
     pl_head_seq = sc_expected_seq s - 1\<rparr>"

definition rebuild_promotions :: "(pystr \<Rightarrow> pystr) \<Rightarrow> event_envelope list \<Rightarrow> promotion_ledger result" where
  "rebuild_promotions sha events = rbind (foldM (scan_promotion sha) empty_promotion_scan events) (\<lambda>s. Inr (ledger_of_scan s))"

section \<open>Queries\<close>

definition last_with :: "('a \<Rightarrow> pystr) \<Rightarrow> 'a list \<Rightarrow> pystr \<Rightarrow> 'a option" where
  \<comment> \<open>\<open>{key(item): item for item in items}.get(k)\<close>: the last item of a key wins\<close>
  "last_with key items k = find (\<lambda>item. key item = k) (rev items)"

definition ledger_review :: "promotion_ledger \<Rightarrow> pystr \<Rightarrow> patch_review_report option" where
  "ledger_review l = last_with rv_review_id (pl_reviews l)"

definition review_for_request :: "promotion_ledger \<Rightarrow> pystr \<Rightarrow> patch_review_report option" where
  "review_for_request l = last_with rv_review_request_id (pl_reviews l)"

definition approval_for_review :: "promotion_ledger \<Rightarrow> pystr \<Rightarrow> patch_approval option" where
  "approval_for_review l = last_with pa_review_id (pl_approvals l)"

definition approval_for_digest :: "promotion_ledger \<Rightarrow> pystr \<Rightarrow> patch_approval option" where
  "approval_for_digest l = last_with pa_approval_digest (pl_approvals l)"

definition approval_for_operation :: "promotion_ledger \<Rightarrow> pystr \<Rightarrow> patch_approval option" where
  "approval_for_operation l = last_with pa_operation_id (pl_approvals l)"

definition promotion_for_approval :: "promotion_ledger \<Rightarrow> pystr \<Rightarrow> patch_promotion option" where
  "promotion_for_approval l = last_with pp_approval_digest (pl_promotions l)"

definition ledger_promotion :: "promotion_ledger \<Rightarrow> pystr \<Rightarrow> patch_promotion option" where
  "ledger_promotion l promotion_id = find (\<lambda>item. pp_promotion_id item = promotion_id) (pl_promotions l)"

definition load_promotions :: "(pystr \<Rightarrow> pystr) \<Rightarrow> event_store \<Rightarrow> promotion_ledger result" where
  "load_promotions sha st = rebuild_promotions sha (read_events st PROMOTION_LEDGER_STREAM 1)"

definition validate_promotion_events :: "(pystr \<Rightarrow> pystr) \<Rightarrow> event_store \<Rightarrow> (string \<times> int) list result" where
  "validate_promotion_events sha st =
     (case load_promotions sha st of
        Inl (PromotionProtocolError code seq) \<Rightarrow> Inr [(code, seq)] | Inl e \<Rightarrow> Inl e | Inr _ \<Rightarrow> Inr [])"

section \<open>What replay has read\<close>

lemma promotion_error_simps [simp]: "promotion_error c n \<noteq> Inr x" "promotion_input_error c f \<noteq> Inr x"
  by (simp_all add: promotion_error_def promotion_input_error_def)

lemma require_promotion_identifier_Inr [result_simps]: "require_promotion_identifier s f = Inr t \<longleftrightarrow> t = s \<and> ident_ok s"
  by (auto simp: require_promotion_identifier_def)

lemma require_hex_digest_Inr [result_simps]: "require_hex_digest s ls f = Inr t \<longleftrightarrow> t = s \<and> is_hex_digest (JStr s) ls"
  by (auto simp: require_hex_digest_def)

lemma promotion_bounded_int_Inr [result_simps]: "promotion_bounded_int i lo hi f = Inr j \<longleftrightarrow> j = i \<and> lo \<le> i \<and> i \<le> hi"
  by (auto simp: promotion_bounded_int_def)

lemma require_target_ref_Inr [result_simps]: "require_target_ref v = Inr s \<longleftrightarrow> v = JStr s \<and> target_ref_ok s"
  by (auto simp: require_target_ref_def split: json.split)

lemma promotion_identifier_Inr [result_simps]: "promotion_identifier d k n = Inr s \<longleftrightarrow> jget d k = JStr s \<and> ident_ok s"
  by (auto simp: promotion_identifier_def protocol_identifier_def split: json.split)

lemma promotion_digest_Inr [result_simps]: "promotion_digest d k ls n = Inr s \<longleftrightarrow> jget d k = JStr s \<and> is_hex_digest (JStr s) ls"
  by (auto simp: promotion_digest_def split: json.split)

lemma promotion_integer_Inr [result_simps]: "promotion_integer d k n lo hi = Inr i \<longleftrightarrow> jget d k = JInt i \<and> lo \<le> i \<and> i \<le> hi"
  by (auto simp: promotion_integer_def split: json.split)

lemma promotion_target_ref_Inr [result_simps]: "promotion_target_ref d n = Inr s \<longleftrightarrow> jget d ''target_ref'' = JStr s \<and> target_ref_ok s"
  by (cases "jget d ''target_ref''") (auto simp: promotion_target_ref_def require_target_ref_def promotion_input_error_def promotion_error_def)

lemma promotion_identity_Inr [result_simps]: "promotion_identity d = Inr i \<longleftrightarrow> i = lit ''promotion-'' @ d \<and> is_hex_digest (JStr d) [64]"
  by (auto simp: promotion_identity_def result_simps)

lemma report_sel [simp]:
  "rv_review_id (review_fact.extend f x) = rv_review_id f" "rv_review_request_id (review_fact.extend f x) = rv_review_request_id f"
  "rv_passed (review_fact.extend f x) = rv_passed f" "rv_results (review_fact.extend f x) = rv_results f"
  "rv_recorded_seq (review_fact.extend f (patch_review_report.fields t d n)) = n"
  "rv_reviewed_at (review_fact.extend f (patch_review_report.fields t d n)) = t"
  "review_fact.truncate (review_fact.extend f x) = f"
  by (cases f, simp add: review_fact.defs patch_review_report.defs)+

lemma approval_sel [simp]:
  "pa_operation_id (approval_fact.extend f x) = pa_operation_id f" "pa_review_id (approval_fact.extend f x) = pa_review_id f"
  "pa_approval_digest (approval_fact.extend f x) = pa_approval_digest f" "pa_approver_id (approval_fact.extend f x) = pa_approver_id f"
  "pa_recorded_seq (approval_fact.extend f (patch_approval.fields t n)) = n"
  by (cases f, simp add: approval_fact.defs patch_approval.defs)+

lemma promotion_sel [simp]:
  "pp_promotion_id (promotion_fact.extend f x) = pp_promotion_id f" "pp_review_id (promotion_fact.extend f x) = pp_review_id f"
  "pp_approval_digest (promotion_fact.extend f x) = pp_approval_digest f"
  "promotion_binds (promotion_fact.extend f x) r = promotion_binds f r"
  "pp_recorded_seq (promotion_fact.extend f (patch_promotion.fields t n)) = n"
  by (cases f, simp add: promotion_fact.defs patch_promotion.defs promotion_binds_def)+

lemma report_data [simp]:
  "review_data (review_fact.extend f x) = review_data f"
  "expected_approval_digest sha (review_fact.extend f x) = expected_approval_digest sha f"
  by (cases f, simp add: review_fact.defs review_data_def expected_approval_digest_def approval_data_def)+

text \<open>A verifier result that replay has read passed only with the exit code zero.\<close>

definition result_sound :: "verifier_outcome \<Rightarrow> bool" where
  "result_sound r \<longleftrightarrow> (outcome_passed r \<longrightarrow> vo_exit_code r = Some 0)"

lemma read_result_sound: "read_result ids item n = Inr r \<Longrightarrow> result_sound r \<and> vo_command_id r \<notin> set ids"
  unfolding read_result_def
  by (cases item) (auto simp: result_simps result_sound_def outcome_passed_def split: if_splits)

lemma read_results_sound:
  "read_results ids items n = Inr rs \<Longrightarrow> list_all result_sound rs \<and> distinct (map vo_command_id rs) \<and> set (map vo_command_id rs) \<inter> set ids = {}"
proof (induction ids items n arbitrary: rs rule: read_results.induct)
  case (2 ids item items n)
  then obtain r rs' where r: "read_result ids item n = Inr r" "read_results (vo_command_id r # ids) items n = Inr rs'" "rs = r # rs'"
    by (auto simp: result_simps)
  from read_result_sound[OF r(1)] "2.IH"[OF r(2)] show ?case unfolding r(3) by auto
qed simp

definition review_sound :: "(pystr \<Rightarrow> pystr) \<Rightarrow> 'a review_fact_scheme \<Rightarrow> bool" where
  "review_sound sha r \<longleftrightarrow> review_identity sha (rv_review_request_id r) = Inr (rv_review_id r) \<and> rv_results r \<noteq> [] \<and>
     list_all result_sound (rv_results r) \<and> distinct (map vo_command_id (rv_results r)) \<and>
     (rv_passed r \<longleftrightarrow> list_all outcome_passed (rv_results r)) \<and>
     verification_evidence_digest sha (rv_verifier_definition_digest r) (rv_results r) = Inr (rv_verification_evidence_digest r)"

lemma normalized_results_sound:
  "normalized_results v n = Inr rs \<Longrightarrow> rs \<noteq> [] \<and> list_all result_sound rs \<and> distinct (map vo_command_id rs)"
proof -
  assume a: "normalized_results v n = Inr rs"
  then obtain items where items: "v = JList items" "items \<noteq> []" "read_results [] items n = Inr rs"
    by (cases v) (auto simp: normalized_results_def split: if_splits)
  from items(2,3) have "rs \<noteq> []" by (cases items) (auto simp: result_simps)
  then show ?thesis using read_results_sound[OF items(3)] by simp
qed

lemma normalized_review_sound:
  assumes "normalized_review_payload sha data n = Inr f"
  shows "review_sound sha f"
proof -
  obtain request results definition_digest evidence passed where
    "review_identity sha request = Inr (rv_review_id f)" "rv_review_request_id f = request"
    and results: "normalized_results (jget data ''results'') n = Inr results" "rv_results f = results"
    and "verification_evidence_digest sha definition_digest results = Inr evidence" "rv_verifier_definition_digest f = definition_digest"
      "rv_verification_evidence_digest f = evidence" "rv_passed f = list_all outcome_passed results"
    using assms unfolding normalized_review_payload_def
    by (auto simp: result_simps split: if_splits json.splits)
  then show ?thesis using normalized_results_sound[OF results(1)] by (simp add: review_sound_def)
qed

section \<open>The chain of facts\<close>

definition approves :: "(pystr \<Rightarrow> pystr) \<Rightarrow> patch_review_report \<Rightarrow> patch_approval \<Rightarrow> bool" where
  "approves sha r a \<longleftrightarrow> pa_review_id a = rv_review_id r \<and> rv_passed r \<and> pa_approval_digest a = expected_approval_digest sha r \<and>
     rv_recorded_seq r < pa_recorded_seq a"

definition promotes :: "patch_review_report \<Rightarrow> patch_approval \<Rightarrow> patch_promotion \<Rightarrow> bool" where
  "promotes r a p \<longleftrightarrow> pp_approval_digest p = pa_approval_digest a \<and> pp_review_id p = pa_review_id a \<and> promotion_binds p r \<and>
     pp_promotion_id p = lit ''promotion-'' @ pa_approval_digest a \<and> pa_recorded_seq a < pp_recorded_seq p"

definition promotion_inv :: "(pystr \<Rightarrow> pystr) \<Rightarrow> promotion_scan \<Rightarrow> bool" where
  "promotion_inv sha s \<longleftrightarrow>
     (\<forall>k r. map_of (sc_review_by_id s) k = Some r \<longleftrightarrow> r \<in> set (sc_reviews s) \<and> rv_review_id r = k) \<and>
     set (sc_request_ids s) = rv_review_request_id ` set (sc_reviews s) \<and>
     distinct (map rv_review_id (sc_reviews s)) \<and> distinct (map rv_review_request_id (sc_reviews s)) \<and>
     (\<forall>k a. map_of (sc_approval_by_digest s) k = Some a \<longleftrightarrow> a \<in> set (sc_approvals s) \<and> pa_approval_digest a = k) \<and>
     set (sc_approved_reviews s) = pa_review_id ` set (sc_approvals s) \<and> set (sc_operation_ids s) = pa_operation_id ` set (sc_approvals s) \<and>
     distinct (map pa_review_id (sc_approvals s)) \<and> distinct (map pa_operation_id (sc_approvals s)) \<and>
     distinct (map pa_approval_digest (sc_approvals s)) \<and>
     set (sc_promoted_digests s) = pp_approval_digest ` set (sc_promotions s) \<and>
     set (sc_promotion_ids s) = pp_promotion_id ` set (sc_promotions s) \<and> distinct (map pp_approval_digest (sc_promotions s)) \<and>
     (\<forall>r \<in> set (sc_reviews s). review_sound sha r \<and> rv_recorded_seq r < sc_expected_seq s) \<and>
     (\<forall>a \<in> set (sc_approvals s). pa_recorded_seq a < sc_expected_seq s \<and> (\<exists>r \<in> set (sc_reviews s). approves sha r a)) \<and>
     (\<forall>p \<in> set (sc_promotions s). \<exists>a \<in> set (sc_approvals s). \<exists>r \<in> set (sc_reviews s). approves sha r a \<and> promotes r a p)"

lemma scan_promotion_Inr:
  assumes "scan_promotion sha s ev = Inr s'"
  obtains (review) data t where "ev_data ev = JDict data" "ev_type ev = lit PATCH_REVIEW_RECORDED" "ev_seq ev = sc_expected_seq s"
      "apply_review_recorded sha data t (sc_expected_seq s) (s\<lparr>sc_expected_seq := sc_expected_seq s + 1\<rparr>) = Inr s'"
  | (approval) data t where "ev_data ev = JDict data" "ev_type ev = lit PATCH_APPROVAL_RECORDED" "ev_seq ev = sc_expected_seq s"
      "apply_approval_recorded sha data t (sc_expected_seq s) (s\<lparr>sc_expected_seq := sc_expected_seq s + 1\<rparr>) = Inr s'"
  | (promotion) data t where "ev_data ev = JDict data" "ev_type ev = lit PATCH_PROMOTION_COMMITTED" "ev_seq ev = sc_expected_seq s"
      "apply_promotion_committed data t (sc_expected_seq s) (s\<lparr>sc_expected_seq := sc_expected_seq s + 1\<rparr>) = Inr s'"
proof -
  obtain ty data t n where h: "promotion_event_header ev = Inr (ty, data, t, n)" "n = sc_expected_seq s"
    and step: "(if ty = lit PATCH_REVIEW_RECORDED then apply_review_recorded sha data t n (s\<lparr>sc_expected_seq := sc_expected_seq s + 1\<rparr>)
      else if ty = lit PATCH_APPROVAL_RECORDED then apply_approval_recorded sha data t n (s\<lparr>sc_expected_seq := sc_expected_seq s + 1\<rparr>)
      else apply_promotion_committed data t n (s\<lparr>sc_expected_seq := sc_expected_seq s + 1\<rparr>)) = Inr s'"
    using assms by (auto simp: scan_promotion_def Let_def result_simps split: if_splits)
  have ev: "ty \<in> set PROMOTION_EVENT_TYPES" "ev_type ev = ty" "ev_data ev = JDict data" "ev_seq ev = n"
    using h(1) by (auto simp: promotion_event_header_def read_promotion_header_def result_simps split: if_splits json.splits)
  then consider "ty = lit PATCH_REVIEW_RECORDED" | "ty = lit PATCH_APPROVAL_RECORDED" | "ty = lit PATCH_PROMOTION_COMMITTED"
    by (auto simp: PROMOTION_EVENT_TYPES_def)
  then show thesis
  proof cases
    case 1
    then show ?thesis using review[of data t] step h(2) ev by simp
  next
    case 2
    then show ?thesis using approval[of data t] step h(2) ev by simp
  next
    case 3
    then show ?thesis using promotion[of data t] step h(2) ev by simp
  qed
qed

lemma apply_review_Inr:
  assumes "apply_review_recorded sha data t n s = Inr s'"
  obtains review where "review_sound sha review" "rv_recorded_seq review = n" "\<not> dict_has (rv_review_id review) (sc_review_by_id s)"
    "rv_review_request_id review \<notin> set (sc_request_ids s)"
    "s' = s\<lparr>sc_review_by_id := dict_set (rv_review_id review) review (sc_review_by_id s),
         sc_request_ids := rv_review_request_id review # sc_request_ids s, sc_reviews := sc_reviews s @ [review]\<rparr>"
proof -
  obtain f d where f: "normalized_review_payload sha data n = Inr f" and s':
    "\<not> dict_has (rv_review_id f) (sc_review_by_id s)" "rv_review_request_id f \<notin> set (sc_request_ids s)"
    "s' = s\<lparr>sc_review_by_id := dict_set (rv_review_id f) (review_fact.extend f (patch_review_report.fields t d n)) (sc_review_by_id s),
         sc_request_ids := rv_review_request_id f # sc_request_ids s,
         sc_reviews := sc_reviews s @ [review_fact.extend f (patch_review_report.fields t d n)]\<rparr>"
    using assms by (auto simp: apply_review_recorded_def review_report_of_def result_simps split: if_splits)
  have "review_sound sha (review_fact.extend f (patch_review_report.fields t d n))"
    using normalized_review_sound[OF f] by (cases f) (simp add: review_sound_def review_fact.defs)
  then show thesis using that[of "review_fact.extend f (patch_review_report.fields t d n)"] s' by simp
qed

lemma apply_approval_Inr:
  assumes "apply_approval_recorded sha data t n s = Inr s'"
  obtains approval review where "map_of (sc_review_by_id s) (pa_review_id approval) = Some review" "rv_passed review"
    "pa_approval_digest approval = expected_approval_digest sha review" "pa_recorded_seq approval = n"
    "pa_operation_id approval \<notin> set (sc_operation_ids s)" "pa_review_id approval \<notin> set (sc_approved_reviews s)"
    "\<not> dict_has (pa_approval_digest approval) (sc_approval_by_digest s)"
    "s' = s\<lparr>sc_operation_ids := pa_operation_id approval # sc_operation_ids s,
              sc_approved_reviews := pa_review_id approval # sc_approved_reviews s,
              sc_approval_by_digest := dict_set (pa_approval_digest approval) approval (sc_approval_by_digest s),
              sc_approvals := sc_approvals s @ [approval]\<rparr>"
proof -
  obtain f review where f: "map_of (sc_review_by_id s) (pa_review_id f) = Some review" "rv_passed review"
    "pa_approval_digest f = expected_approval_digest sha review" "pa_operation_id f \<notin> set (sc_operation_ids s)"
    "pa_review_id f \<notin> set (sc_approved_reviews s)" "\<not> dict_has (pa_approval_digest f) (sc_approval_by_digest s)"
    "s' = s\<lparr>sc_operation_ids := pa_operation_id f # sc_operation_ids s, sc_approved_reviews := pa_review_id f # sc_approved_reviews s,
              sc_approval_by_digest := dict_set (pa_approval_digest f) (approval_fact.extend f (patch_approval.fields t n)) (sc_approval_by_digest s),
              sc_approvals := sc_approvals s @ [approval_fact.extend f (patch_approval.fields t n)]\<rparr>"
    using assms by (auto simp: apply_approval_recorded_def Let_def result_simps split: if_splits option.splits)
  then show thesis using that[of "approval_fact.extend f (patch_approval.fields t n)" review] by simp
qed

lemma apply_promotion_Inr:
  assumes "apply_promotion_committed data t n s = Inr s'"
  obtains promotion approval review where "map_of (sc_approval_by_digest s) (pp_approval_digest promotion) = Some approval"
    "pp_review_id promotion = pa_review_id approval" "pp_promotion_id promotion = lit ''promotion-'' @ pp_approval_digest promotion"
    "pp_approval_digest promotion \<notin> set (sc_promoted_digests s)" "map_of (sc_review_by_id s) (pa_review_id approval) = Some review"
    "promotion_binds promotion review" "pp_recorded_seq promotion = n"
    "s' = s\<lparr>sc_promotion_ids := pp_promotion_id promotion # sc_promotion_ids s,
                   sc_promoted_digests := pp_approval_digest promotion # sc_promoted_digests s,
                   sc_promotions := sc_promotions s @ [promotion]\<rparr>"
proof -
  obtain f approval review where f: "map_of (sc_approval_by_digest s) (pp_approval_digest f) = Some approval"
    "pp_review_id f = pa_review_id approval" "pp_promotion_id f = lit ''promotion-'' @ pp_approval_digest f"
    "pp_approval_digest f \<notin> set (sc_promoted_digests s)" "map_of (sc_review_by_id s) (pa_review_id approval) = Some review"
    "promotion_binds f review"
    "s' = s\<lparr>sc_promotion_ids := pp_promotion_id f # sc_promotion_ids s, sc_promoted_digests := pp_approval_digest f # sc_promoted_digests s,
                   sc_promotions := sc_promotions s @ [promotion_fact.extend f (patch_promotion.fields t n)]\<rparr>"
    using assms by (auto simp: apply_promotion_committed_def promotion_of_fact_def result_simps split: if_splits option.splits)
  then show thesis using that[of "promotion_fact.extend f (patch_promotion.fields t n)" approval review] by simp
qed

lemma promotion_inv_empty: "promotion_inv sha empty_promotion_scan"
  by (simp add: promotion_inv_def empty_promotion_scan_def)

lemma promotion_invD:
  assumes "promotion_inv sha s"
  shows "map_of (sc_review_by_id s) k = Some r \<longleftrightarrow> r \<in> set (sc_reviews s) \<and> rv_review_id r = k"
    "set (sc_request_ids s) = rv_review_request_id ` set (sc_reviews s)"
    "distinct (map rv_review_id (sc_reviews s))" "distinct (map rv_review_request_id (sc_reviews s))"
    "map_of (sc_approval_by_digest s) k = Some a \<longleftrightarrow> a \<in> set (sc_approvals s) \<and> pa_approval_digest a = k"
    "set (sc_approved_reviews s) = pa_review_id ` set (sc_approvals s)" "set (sc_operation_ids s) = pa_operation_id ` set (sc_approvals s)"
    "distinct (map pa_review_id (sc_approvals s))" "distinct (map pa_operation_id (sc_approvals s))"
    "distinct (map pa_approval_digest (sc_approvals s))"
    "set (sc_promoted_digests s) = pp_approval_digest ` set (sc_promotions s)"
    "set (sc_promotion_ids s) = pp_promotion_id ` set (sc_promotions s)" "distinct (map pp_approval_digest (sc_promotions s))"
    "r \<in> set (sc_reviews s) \<Longrightarrow> review_sound sha r \<and> rv_recorded_seq r < sc_expected_seq s"
    "a \<in> set (sc_approvals s) \<Longrightarrow> pa_recorded_seq a < sc_expected_seq s \<and> (\<exists>r \<in> set (sc_reviews s). approves sha r a)"
    "p \<in> set (sc_promotions s) \<Longrightarrow> \<exists>a \<in> set (sc_approvals s). \<exists>r \<in> set (sc_reviews s). approves sha r a \<and> promotes r a p"
  using assms by (simp_all add: promotion_inv_def)

lemma promotion_review_inv:
  assumes inv: "promotion_inv sha s" and r: "review_sound sha review" "rv_recorded_seq review = sc_expected_seq s"
    "\<not> dict_has (rv_review_id review) (sc_review_by_id s)" "rv_review_request_id review \<notin> set (sc_request_ids s)"
  shows "promotion_inv sha (s\<lparr>sc_expected_seq := sc_expected_seq s + 1, sc_review_by_id := dict_set (rv_review_id review) review (sc_review_by_id s),
         sc_request_ids := rv_review_request_id review # sc_request_ids s, sc_reviews := sc_reviews s @ [review]\<rparr>)"
proof -
  note I = promotion_invD[OF inv]
  have fresh: "rv_review_id x \<noteq> rv_review_id review" if "x \<in> set (sc_reviews s)" for x
    using that r(3) I(1) by (metis dict_has_iff)
  have "pa_recorded_seq a < sc_expected_seq s + 1 \<and> (\<exists>x \<in> set (sc_reviews s @ [review]). approves sha x a)" if "a \<in> set (sc_approvals s)" for a
    using I(15)[OF that] by auto
  moreover have "\<exists>a \<in> set (sc_approvals s). \<exists>x \<in> set (sc_reviews s @ [review]). approves sha x a \<and> promotes x a p" if "p \<in> set (sc_promotions s)" for p
    using I(16)[OF that] by auto
  moreover have "review_sound sha x \<and> rv_recorded_seq x < sc_expected_seq s + 1" if "x \<in> set (sc_reviews s @ [review])" for x
    using that I(14)[of x] r(1,2) by auto
  moreover have "map_of (dict_set (rv_review_id review) review (sc_review_by_id s)) k = Some x \<longleftrightarrow> x \<in> set (sc_reviews s @ [review]) \<and> rv_review_id x = k" for k x
    using I(1)[of k x] fresh[of x] by auto
  moreover have "rv_review_id review \<notin> rv_review_id ` set (sc_reviews s)" using fresh by (metis imageE)
  ultimately show ?thesis
    using I(2-13) r(4) unfolding promotion_inv_def by simp
qed

lemma promotion_approval_inv:
  assumes inv: "promotion_inv sha s" and a: "map_of (sc_review_by_id s) (pa_review_id approval) = Some review" "rv_passed review"
    "pa_approval_digest approval = expected_approval_digest sha review" "pa_recorded_seq approval = sc_expected_seq s"
    "pa_operation_id approval \<notin> set (sc_operation_ids s)" "pa_review_id approval \<notin> set (sc_approved_reviews s)"
    "\<not> dict_has (pa_approval_digest approval) (sc_approval_by_digest s)"
  shows "promotion_inv sha (s\<lparr>sc_expected_seq := sc_expected_seq s + 1, sc_operation_ids := pa_operation_id approval # sc_operation_ids s,
              sc_approved_reviews := pa_review_id approval # sc_approved_reviews s,
              sc_approval_by_digest := dict_set (pa_approval_digest approval) approval (sc_approval_by_digest s),
              sc_approvals := sc_approvals s @ [approval]\<rparr>)"
proof -
  note I = promotion_invD[OF inv]
  have review: "review \<in> set (sc_reviews s)" "rv_review_id review = pa_review_id approval" using a(1) I(1) by auto
  have fresh: "pa_approval_digest x \<noteq> pa_approval_digest approval" if "x \<in> set (sc_approvals s)" for x
    using that a(7) I(5) by (metis dict_has_iff)
  have "approves sha review approval" using review a(2-4) I(14)[OF review(1)] by (simp add: approves_def)
  then have "pa_recorded_seq x < sc_expected_seq s + 1 \<and> (\<exists>r \<in> set (sc_reviews s). approves sha r x)" if "x \<in> set (sc_approvals s @ [approval])" for x
    using that I(15)[of x] review(1) a(4) by auto
  moreover have "\<exists>x \<in> set (sc_approvals s @ [approval]). \<exists>r \<in> set (sc_reviews s). approves sha r x \<and> promotes r x p" if "p \<in> set (sc_promotions s)" for p
    using I(16)[OF that] by auto
  moreover have "review_sound sha x \<and> rv_recorded_seq x < sc_expected_seq s + 1" if "x \<in> set (sc_reviews s)" for x
    using I(14)[OF that] by simp
  moreover have "map_of (dict_set (pa_approval_digest approval) approval (sc_approval_by_digest s)) k = Some x \<longleftrightarrow>
      x \<in> set (sc_approvals s @ [approval]) \<and> pa_approval_digest x = k" for k x
    using I(5)[of k x] fresh[of x] by auto
  moreover have "pa_approval_digest approval \<notin> pa_approval_digest ` set (sc_approvals s)" using fresh by (metis imageE)
  ultimately show ?thesis
    using I(1-4,6-13) a(5,6) unfolding promotion_inv_def by simp
qed

lemma promotion_promotion_inv:
  assumes inv: "promotion_inv sha s" and p: "map_of (sc_approval_by_digest s) (pp_approval_digest promotion) = Some approval"
    "pp_review_id promotion = pa_review_id approval" "pp_promotion_id promotion = lit ''promotion-'' @ pp_approval_digest promotion"
    "pp_approval_digest promotion \<notin> set (sc_promoted_digests s)" "map_of (sc_review_by_id s) (pa_review_id approval) = Some review"
    "promotion_binds promotion review" "pp_recorded_seq promotion = sc_expected_seq s"
  shows "promotion_inv sha (s\<lparr>sc_expected_seq := sc_expected_seq s + 1, sc_promotion_ids := pp_promotion_id promotion # sc_promotion_ids s,
                   sc_promoted_digests := pp_approval_digest promotion # sc_promoted_digests s,
                   sc_promotions := sc_promotions s @ [promotion]\<rparr>)"
proof -
  note I = promotion_invD[OF inv]
  have a: "approval \<in> set (sc_approvals s)" "pa_approval_digest approval = pp_approval_digest promotion" using p(1) I(5) by auto
  obtain r where r: "r \<in> set (sc_reviews s)" "approves sha r approval" using I(15)[OF a(1)] by blast
  have "map_of (sc_review_by_id s) (pa_review_id approval) = Some r" using r I(1) by (simp add: approves_def)
  then have "review = r" using p(5) by simp
  then have "approves sha r approval \<and> promotes r approval promotion"
    using r(2) a p(2,3,6,7) I(15)[OF a(1)] by (simp add: promotes_def)
  then have "\<exists>x \<in> set (sc_approvals s). \<exists>y \<in> set (sc_reviews s). approves sha y x \<and> promotes y x q" if "q \<in> set (sc_promotions s @ [promotion])" for q
    using that I(16)[of q] a(1) r(1) by auto
  moreover have "pa_recorded_seq x < sc_expected_seq s + 1 \<and> (\<exists>y \<in> set (sc_reviews s). approves sha y x)" if "x \<in> set (sc_approvals s)" for x
    using I(15)[OF that] by auto
  moreover have "review_sound sha x \<and> rv_recorded_seq x < sc_expected_seq s + 1" if "x \<in> set (sc_reviews s)" for x
    using I(14)[OF that] by simp
  ultimately show ?thesis
    using I(1-13) p(4) unfolding promotion_inv_def by (simp add: image_iff)
qed

lemma promotion_step_inv:
  assumes inv: "promotion_inv sha s" and step: "scan_promotion sha s ev = Inr s'"
  shows "promotion_inv sha s'"
  using step
proof (cases rule: scan_promotion_Inr)
  case (review data t)
  from review(4) show ?thesis
  proof (cases rule: apply_review_Inr)
    case (1 r)
    show ?thesis unfolding 1(5) using promotion_review_inv[OF inv 1(1,2)] 1(3,4) by simp
  qed
next
  case (approval data t)
  from approval(4) show ?thesis
  proof (cases rule: apply_approval_Inr)
    case (1 a r)
    show ?thesis unfolding 1(8) using promotion_approval_inv[OF inv _ 1(2,3,4), of] 1(1,5-7) by simp
  qed
next
  case (promotion data t)
  from promotion(4) show ?thesis
  proof (cases rule: apply_promotion_Inr)
    case (1 p a r)
    show ?thesis unfolding 1(8) using promotion_promotion_inv[OF inv _ 1(2,3) _ _ 1(6,7)] 1(1,4,5) by simp
  qed
qed

interpretation promotions: replay "scan_promotion sha" empty_promotion_scan "promotion_inv sha" for sha
  by unfold_locales (rule promotion_inv_empty, rule promotion_step_inv)

end
