(* ===== verification/Promotion_Chain.thy ===== *)
theory Promotion_Chain imports Promotion_Ledger Transactions begin

text \<open>
  What the chain of reviews, approvals and promotions is worth (promotion/models.py, events.py and
  projection.py): the digest a human names binds every field a decision rests on, the ledger never
  forgets, and a promotion stands on one approval of one passed review.
\<close>

section \<open>Rebuilding\<close>

lemma rebuild_promotions_Inr:
  "rebuild_promotions sha es = Inr l \<longleftrightarrow> (\<exists>s. foldM (scan_promotion sha) empty_promotion_scan es = Inr s \<and> l = ledger_of_scan s)"
  by (auto simp: rebuild_promotions_def result_simps)

lemma scan_promotion_seq: "scan_promotion sha s ev = Inr s' \<Longrightarrow> sc_expected_seq s' = sc_expected_seq s + 1"
proof (erule scan_promotion_Inr)
  fix data t
  let ?s = "s\<lparr>sc_expected_seq := sc_expected_seq s + 1\<rparr>"
  show "sc_expected_seq s' = sc_expected_seq s + 1" if "apply_review_recorded sha data t (sc_expected_seq s) ?s = Inr s'"
    using that by (rule apply_review_Inr) simp
  show "sc_expected_seq s' = sc_expected_seq s + 1" if "apply_approval_recorded sha data t (sc_expected_seq s) ?s = Inr s'"
    using that by (rule apply_approval_Inr) simp
  show "sc_expected_seq s' = sc_expected_seq s + 1" if "apply_promotion_committed data t (sc_expected_seq s) ?s = Inr s'"
    using that by (rule apply_promotion_Inr) simp
qed

lemma promotions_seq: "foldM (scan_promotion sha) empty_promotion_scan es = Inr s \<Longrightarrow> sc_expected_seq s = 1 + int (length es)"
proof (induction es arbitrary: s rule: rev_induct)
  case (snoc e es)
  then obtain t where t: "foldM (scan_promotion sha) empty_promotion_scan es = Inr t" "scan_promotion sha t e = Inr s"
    by (auto simp: foldM_append result_simps)
  then show ?case using snoc.IH[OF t(1)] scan_promotion_seq[OF t(2)] by simp
qed (simp add: empty_promotion_scan_def)

interpretation promotion_log: fact_log "rebuild_promotions sha" pl_head_seq for sha
  by unfold_locales (auto simp: rebuild_promotions_Inr ledger_of_scan_def promotions_seq)

lemma load_promotions_Inr:
  "store_ok st \<Longrightarrow> load_promotions sha st = rebuild_promotions sha (stream_of st PROMOTION_LEDGER_STREAM)"
  by (simp add: load_promotions_def read_events_all)

definition promotions_ok :: "(pystr \<Rightarrow> pystr) \<Rightarrow> promotion_ledger \<Rightarrow> bool" where
  "promotions_ok sha l \<longleftrightarrow> distinct (map rv_review_id (pl_reviews l)) \<and> distinct (map rv_review_request_id (pl_reviews l)) \<and>
     distinct (map pa_review_id (pl_approvals l)) \<and> distinct (map pa_operation_id (pl_approvals l)) \<and>
     distinct (map pa_approval_digest (pl_approvals l)) \<and> distinct (map pp_approval_digest (pl_promotions l)) \<and>
     (\<forall>r \<in> set (pl_reviews l). review_sound sha r) \<and>
     (\<forall>a \<in> set (pl_approvals l). \<exists>r \<in> set (pl_reviews l). approves sha r a) \<and>
     (\<forall>p \<in> set (pl_promotions l). \<exists>a \<in> set (pl_approvals l). \<exists>r \<in> set (pl_reviews l). approves sha r a \<and> promotes r a p)"

lemma rebuilt_promotions_ok: "rebuild_promotions sha es = Inr l \<Longrightarrow> promotions_ok sha l"
proof -
  assume "rebuild_promotions sha es = Inr l"
  then obtain s where s: "foldM (scan_promotion sha) empty_promotion_scan es = Inr s" "l = ledger_of_scan s"
    by (auto simp: rebuild_promotions_Inr)
  show "promotions_ok sha l"
    using promotions.run_inv[OF s(1)] unfolding s(2) promotions_ok_def promotion_inv_def by (simp add: ledger_of_scan_def)
qed

lemma find_Some_sound: "find P xs = Some x \<Longrightarrow> x \<in> set xs \<and> P x"
  by (induction xs) (auto split: if_splits)

lemma last_with_sound: "last_with key xs k = Some x \<Longrightarrow> x \<in> set xs \<and> key x = k"
  unfolding last_with_def by (drule find_Some_sound) simp

lemma last_with_Some:
  assumes "distinct (map key xs)"
  shows "last_with key xs k = Some x \<longleftrightarrow> x \<in> set xs \<and> key x = k"
proof
  assume x: "x \<in> set xs \<and> key x = k"
  then obtain y where y: "last_with key xs k = Some y" by (cases "last_with key xs k") (auto simp: last_with_def find_None_iff)
  then show "last_with key xs k = Some x" using last_with_sound[OF y] x assms by (auto simp: distinct_map inj_on_def)
qed (rule last_with_sound)

lemma last_with_None: "last_with key xs k = None \<longleftrightarrow> (\<forall>x \<in> set xs. key x \<noteq> k)"
  by (auto simp: last_with_def find_None_iff)

lemma ledger_queries:
  assumes "promotions_ok sha l"
  shows "ledger_review l k = Some r \<longleftrightarrow> r \<in> set (pl_reviews l) \<and> rv_review_id r = k"
    "approval_for_review l k = Some a \<longleftrightarrow> a \<in> set (pl_approvals l) \<and> pa_review_id a = k"
    "approval_for_digest l k = Some a \<longleftrightarrow> a \<in> set (pl_approvals l) \<and> pa_approval_digest a = k"
    "approval_for_operation l k = Some a \<longleftrightarrow> a \<in> set (pl_approvals l) \<and> pa_operation_id a = k"
    "promotion_for_approval l k = Some p \<longleftrightarrow> p \<in> set (pl_promotions l) \<and> pp_approval_digest p = k"
  using assms unfolding promotions_ok_def ledger_review_def approval_for_review_def approval_for_digest_def approval_for_operation_def
    promotion_for_approval_def by (simp_all add: last_with_Some)

section \<open>What a human approves\<close>

lemma approval_data_ok: "json_ok (JDict (approval_data r))"
  by (simp add: approval_data_def protocol_fields_def)

definition same_decision :: "'a review_fact_scheme \<Rightarrow> 'b review_fact_scheme \<Rightarrow> bool" where
  "same_decision r r' \<longleftrightarrow> rv_review_id r = rv_review_id r' \<and> rv_review_request_id r = rv_review_request_id r' \<and>
     rv_artifact_id r = rv_artifact_id r' \<and> rv_manifest_digest r = rv_manifest_digest r' \<and> rv_patch_sha256 r = rv_patch_sha256 r' \<and>
     rv_patch_size_bytes r = rv_patch_size_bytes r' \<and> rv_target_id r = rv_target_id r' \<and>
     rv_repository_fingerprint r = rv_repository_fingerprint r' \<and> rv_target_ref r = rv_target_ref r' \<and>
     rv_expected_revision r = rv_expected_revision r' \<and> rv_integration_tree r = rv_integration_tree r' \<and>
     rv_integration_commit r = rv_integration_commit r' \<and> rv_verifier_definition_digest r = rv_verifier_definition_digest r' \<and>
     rv_verification_evidence_digest r = rv_verification_evidence_digest r' \<and> rv_merge_policy_version r = rv_merge_policy_version r' \<and>
     rv_passed r = rv_passed r'"

lemma approval_text_binds:
  assumes "canonical_json (JDict (approval_data r)) = canonical_json (JDict (approval_data r'))"
  shows "same_decision r r'"
proof -
  have get: "map_option sort_keys (map_of (approval_data r) (lit k)) = map_option sort_keys (map_of (approval_data r') (lit k))" for k
    by (rule canonical_dict_get[OF approval_data_ok approval_data_ok assms])
  show ?thesis
    unfolding same_decision_def
    using get[of "''review_id''"] get[of "''review_request_id''"] get[of "''artifact_id''"] get[of "''manifest_digest''"] get[of "''patch_sha256''"]
      get[of "''patch_size_bytes''"] get[of "''target_id''"] get[of "''repository_fingerprint''"] get[of "''target_ref''"] get[of "''expected_revision''"]
      get[of "''integration_tree''"] get[of "''integration_commit''"] get[of "''verifier_definition_digest''"] get[of "''verification_evidence_digest''"]
      get[of "''merge_policy_version''"] get[of "''passed''"]
    by (simp add: approval_data_def protocol_fields_def)
qed

section \<open>Properties\<close>

text \<open>
  C34: a promotion stands on one human decision about one passed review. In every ledger that
  replay accepts, a promotion has exactly one approval of its digest and one review behind it: the
  review is older than the approval and the approval older than the promotion, the digest is the
  one computed from the content of the review, the promotion names the target, revisions and tree
  of that review, every verifier result of the review passed with exit code zero, and no second
  promotion uses the approval.
\<close>

theorem promotion_is_backed:
  assumes "rebuild_promotions sha es = Inr l" and "p \<in> set (pl_promotions l)"
  shows "(\<exists>a r. a \<in> set (pl_approvals l) \<and> r \<in> set (pl_reviews l) \<and> approves sha r a \<and> promotes r a p \<and>
      list_all (\<lambda>x. outcome_passed x \<and> vo_exit_code x = Some 0) (rv_results r)) \<and>
    (\<exists>!a. a \<in> set (pl_approvals l) \<and> pa_approval_digest a = pp_approval_digest p) \<and>
    (\<exists>!q. q \<in> set (pl_promotions l) \<and> pp_approval_digest q = pp_approval_digest p)"
proof (intro conjI)
  note ok = rebuilt_promotions_ok[OF assms(1)] and Q = ledger_queries[OF rebuilt_promotions_ok[OF assms(1)]]
  obtain a r where ar: "a \<in> set (pl_approvals l)" "r \<in> set (pl_reviews l)" "approves sha r a" "promotes r a p"
    using ok assms(2) unfolding promotions_ok_def by blast
  have "review_sound sha r" using ok ar(2) unfolding promotions_ok_def by blast
  then have "list_all (\<lambda>x. outcome_passed x \<and> vo_exit_code x = Some 0) (rv_results r)"
    using ar(3) by (simp add: review_sound_def approves_def list_all_iff result_sound_def)
  then show "\<exists>a r. a \<in> set (pl_approvals l) \<and> r \<in> set (pl_reviews l) \<and> approves sha r a \<and> promotes r a p \<and>
      list_all (\<lambda>x. outcome_passed x \<and> vo_exit_code x = Some 0) (rv_results r)" using ar by blast
  have "a \<in> set (pl_approvals l) \<and> pa_approval_digest a = pp_approval_digest p" using ar by (simp add: promotes_def)
  then show "\<exists>!a. a \<in> set (pl_approvals l) \<and> pa_approval_digest a = pp_approval_digest p"
    using Q(3)[of "pp_approval_digest p"] by (metis option.inject)
  show "\<exists>!q. q \<in> set (pl_promotions l) \<and> pp_approval_digest q = pp_approval_digest p"
    using Q(5)[of "pp_approval_digest p"] assms(2) by (metis option.inject)
qed

text \<open>
  C35: the digest a human repeats binds the decision. Two reviews with the same approval digest,
  unless their two texts are a collision of the hash, agree on everything a promotion depends on:
  the review and its request, the artifact, its manifest, patch digest and size, the target, its
  repository, ref and expected revision, the integration tree and commit, the verifier definition
  and evidence, the merge policy and whether it passed.
\<close>

theorem approval_binds_decision:
  assumes "expected_approval_digest sha r = expected_approval_digest sha r'"
    and "sha (canonical_json (JDict (approval_data r))) = sha (canonical_json (JDict (approval_data r'))) \<longrightarrow>
      canonical_json (JDict (approval_data r)) = canonical_json (JDict (approval_data r'))"
  shows "same_decision r r'"
  using assms approval_text_binds by (simp add: expected_approval_digest_def fingerprint_def)

end
