(* ===== verification/Workflow_Execution.thy ===== *)
theory Workflow_Execution imports Workflow_Run Workflow_Refinement Inbox_Service Promotion_Chain begin

text \<open>
  What the five node kinds do (workflow/execution.py). The services a workflow composes are
  arguments: the supervisor is a protocol (api/agents.py), capture keeps its own ledger and a
  review runs verifiers, so each of these calls is an action on the store that answers or fails,
  and what concurrent nodes and other hosts do meanwhile is part of the action. What a human has
  approved is read from the ledger of promotions in the store.
\<close>

section \<open>The services\<close>

record workflow_services =
  sv_create :: "agent_spec \<Rightarrow> pystr \<Rightarrow> pystr \<Rightarrow> pystr \<Rightarrow> (event_store, unit) action"
  sv_resume :: "pystr \<Rightarrow> (event_store, unit) action"
  sv_send :: "pystr \<Rightarrow> agent_message \<Rightarrow> message_target \<Rightarrow> bool \<Rightarrow> (event_store, unit) action"
  sv_wait_message :: "pystr \<Rightarrow> pystr \<Rightarrow> (event_store, pystr) action"
  sv_dispose :: "pystr \<Rightarrow> (event_store, unit) action"
  sv_capture :: "(pystr \<Rightarrow> pystr \<Rightarrow> (event_store, pystr) action) option"
  sv_promotion :: "(pystr \<Rightarrow> pystr \<Rightarrow> pystr \<Rightarrow> (event_store, patch_review_report) action) option"

record binding_resolver =
  br_agent_spec :: "pystr \<Rightarrow> pystr \<Rightarrow> pystr \<Rightarrow> pystr option \<Rightarrow> (event_store, agent_spec) action"
  br_message_content :: "pystr \<Rightarrow> pystr \<Rightarrow> pystr \<Rightarrow> pystr option \<Rightarrow> (event_store, pystr) action"
  br_map_keys :: "pystr \<Rightarrow> pystr \<Rightarrow> pystr \<Rightarrow> (event_store, pystr list) action"

record node_execution =
  nx_completed :: "payload option"
  nx_map_keys :: "pystr list"
  nx_awaiting_review_id :: "pystr option"

definition completed_execution :: "payload \<Rightarrow> node_execution" where
  "completed_execution data = \<lparr>nx_completed = Some data, nx_map_keys = [], nx_awaiting_review_id = None\<rparr>"

section \<open>An Agent task\<close>

definition node_failed :: "string \<Rightarrow> pystr \<Rightarrow> 'a result" where
  "node_failed code name = Inl (WorkflowNodeFailedError code name)"

definition require_same_agent :: "agent_record \<Rightarrow> agent_spec \<Rightarrow> pystr \<Rightarrow> pystr \<Rightarrow> pystr \<Rightarrow> unit result" where
  "require_same_agent existing spec session_id request_id name =
     (if rec_session_id existing \<noteq> session_id \<or> rec_request_id existing \<noteq> request_id
      then node_failed ''workflow-agent-identity-conflict'' name
      else case agent_created_data (rec_agent_id existing) session_id request_id (spec\<lparr>spec_workspace_id := rec_workspace_id existing\<rparr>) of
        Inl _ \<Rightarrow> node_failed ''workflow-agent-identity-conflict'' name
      | Inr expected \<Rightarrow> rbind (creation_matches existing expected) (\<lambda>same.
          if \<not> same then node_failed ''workflow-agent-identity-conflict'' name else Inr ()))"

definition find_accepted_message :: "event_store \<Rightarrow> pystr \<Rightarrow> pystr \<Rightarrow> accepted_message option result" where
  "find_accepted_message st agent_id message_id =
     rbind (load_inbox st agent_id) (\<lambda>inbox. Inr (find (\<lambda>item. msg_message_id (acc_message item) = message_id) (ib_messages inbox)))"

definition require_same_message :: "accepted_message \<Rightarrow> agent_message \<Rightarrow> pystr \<Rightarrow> pystr \<Rightarrow> unit result" where
  "require_same_message accepted expected agent_id name =
     (case message_accepted_data agent_id expected NEW_TURN True of
        Inl _ \<Rightarrow> node_failed ''workflow-message-conflict'' name
      | Inr data \<Rightarrow> rbind (acceptance_matches accepted data) (\<lambda>same.
          if \<not> same then node_failed ''workflow-message-conflict'' name else Inr ()))"

definition capture_artifact_of :: "workflow_services \<Rightarrow> pystr \<Rightarrow> pystr \<Rightarrow> pystr \<Rightarrow> (event_store, pystr) action" where
  "capture_artifact_of sv agent_id message_id name =
     (case sv_capture sv of
        None \<Rightarrow> lift_result (Inl (WorkflowStateError ''workflow-capture-service-missing'' (Some name)))
      | Some capture \<Rightarrow> capture agent_id message_id)"

definition message_content_of :: "binding_resolver \<Rightarrow> pystr \<Rightarrow> pystr \<Rightarrow> pystr \<Rightarrow> pystr option \<Rightarrow> (event_store, pystr) action" where
  "message_content_of rs run_id binding name map_key =
     abind (br_message_content rs binding run_id name map_key) (\<lambda>content.
       lift_result (if content = [] then Inl (WorkflowInputError ''workflow-message-invalid'' ''message_binding'') else Inr content))"

definition deliver_task ::
    "workflow_services \<Rightarrow> binding_resolver \<Rightarrow> pystr \<Rightarrow> pystr \<Rightarrow> agent_identities \<Rightarrow> pystr \<Rightarrow> bool \<Rightarrow> pystr option
       \<Rightarrow> (event_store, pystr option) action" where
  "deliver_task sv rs run_id name ids message_b capture map_key =
     abind (message_content_of rs run_id message_b name map_key) (\<lambda>content.
       let message = \<lparr>msg_message_id = ai_message_id ids, msg_content = content, msg_source = lit ''workflow:'' @ run_id,
                      msg_correlation_id = None, msg_causation_id = None\<rparr> in
     abind (reading (\<lambda>st. find_accepted_message st (ai_agent_id ids) (ai_message_id ids))) (\<lambda>accepted.
     abind (case accepted of
              None \<Rightarrow> sv_send sv (ai_agent_id ids) message NEW_TURN True
            | Some item \<Rightarrow> lift_result (require_same_message item message (ai_agent_id ids) name)) (\<lambda>_.
     abind (sv_wait_message sv (ai_agent_id ids) (ai_message_id ids)) (\<lambda>status.
       if status \<noteq> lit ''completed'' then lift_result (node_failed ''workflow-agent-message-failed'' name)
       else abind (sv_dispose sv (ai_agent_id ids)) (\<lambda>_.
         if capture then abind (capture_artifact_of sv (ai_agent_id ids) (ai_message_id ids) name) (\<lambda>artifact. lift_result (Inr (Some artifact)))
         else lift_result (Inr None))))))"

definition agent_task ::
    "(pystr \<Rightarrow> pystr) \<Rightarrow> workflow_services \<Rightarrow> binding_resolver \<Rightarrow> pystr \<Rightarrow> pystr \<Rightarrow> workflow_node_kind \<Rightarrow> pystr \<Rightarrow> pystr \<Rightarrow> bool
       \<Rightarrow> pystr option \<Rightarrow> (event_store, node_execution) action" where
  "agent_task sha sv rs run_id name kind spec_b message_b capture map_key =
     abind (lift_result (agent_identity sha run_id name)) (\<lambda>ids.
     abind (br_agent_spec rs spec_b run_id name map_key) (\<lambda>spec.
     abind (reading load_directory) (\<lambda>directory.
     abind (case directory_get directory (ai_agent_id ids) of
              None \<Rightarrow> sv_create sv spec (ai_request_id ids) (ai_agent_id ids) (ai_session_id ids)
            | Some existing \<Rightarrow>
                abind (lift_result (require_same_agent existing spec (ai_session_id ids) (ai_request_id ids) name)) (\<lambda>_.
                  sv_resume sv (ai_session_id ids))) (\<lambda>_.
     abind (try_finally (deliver_task sv rs run_id name ids message_b capture map_key) (sv_dispose sv (ai_agent_id ids))) (\<lambda>artifact.
       lift_result (rbind (node_completed_data name kind map_key
         (no_evidence\<lparr>ne_agent_id := Some (ai_agent_id ids), ne_message_id := Some (ai_message_id ids), ne_artifact_id := artifact\<rparr>))
         (\<lambda>data. Inr (completed_execution data))))))))"

section \<open>The other kinds\<close>

definition expand_map_node :: "binding_resolver \<Rightarrow> pystr \<Rightarrow> pystr \<Rightarrow> pystr \<Rightarrow> int \<Rightarrow> (event_store, node_execution) action" where
  "expand_map_node rs run_id name keys_b fan_out =
     abind (br_map_keys rs keys_b run_id name) (\<lambda>raw.
       lift_result (rbind (freeze_map_keys raw fan_out) (\<lambda>keys.
         rbind (node_completed_data name MAP None no_evidence) (\<lambda>data.
           Inr \<lparr>nx_completed = Some data, nx_map_keys = keys, nx_awaiting_review_id = None\<rparr>))))"

definition promotion_of :: "workflow_services \<Rightarrow> pystr \<Rightarrow> (pystr \<Rightarrow> pystr \<Rightarrow> pystr \<Rightarrow> (event_store, patch_review_report) action) result" where
  "promotion_of sv name =
     (case sv_promotion sv of
        None \<Rightarrow> Inl (WorkflowStateError ''workflow-promotion-service-missing'' (Some name))
      | Some promotion \<Rightarrow> Inr promotion)"

definition verify_node ::
    "(pystr \<Rightarrow> pystr) \<Rightarrow> workflow_services \<Rightarrow> pystr \<Rightarrow> pystr \<Rightarrow> pystr \<Rightarrow> pystr \<Rightarrow> workflow_projection \<Rightarrow> (event_store, node_execution) action" where
  "verify_node sha sv run_id name artifact_node target p =
     abind (lift_result (promotion_of sv name)) (\<lambda>review.
     abind (lift_result (case Option.bind (state_of p artifact_node) ns_artifact_id of
            None \<Rightarrow> node_failed ''workflow-artifact-missing'' name | Some artifact \<Rightarrow> Inr artifact)) (\<lambda>artifact.
     abind (lift_result (review_request_identity sha run_id name)) (\<lambda>request.
     abind (review request artifact target) (\<lambda>report.
       lift_result (if \<not> rv_passed report then node_failed ''workflow-verification-not-passed'' name
         else rbind (node_completed_data name VERIFICATION None
           (no_evidence\<lparr>ne_artifact_id := Some artifact, ne_review_id := Some (rv_review_id report)\<rparr>)) (\<lambda>data. Inr (completed_execution data)))))))"

definition approval_execution ::
    "(pystr \<Rightarrow> pystr) \<Rightarrow> promotion_ledger \<Rightarrow> pystr \<Rightarrow> pystr option \<Rightarrow> pystr \<Rightarrow> node_execution result" where
  "approval_execution sha ledger name source_artifact source_review =
     (case ledger_review ledger source_review of
        None \<Rightarrow> node_failed ''workflow-review-not-approvable'' name
      | Some review \<Rightarrow>
          (if \<not> rv_passed review then node_failed ''workflow-review-not-approvable'' name
           else case approval_for_review ledger (rv_review_id review) of
             None \<Rightarrow> Inr \<lparr>nx_completed = None, nx_map_keys = [], nx_awaiting_review_id = Some (rv_review_id review)\<rparr>
           | Some approval \<Rightarrow>
               (if pa_approval_digest approval \<noteq> expected_approval_digest sha review \<or>
                   Some (rv_artifact_id review) \<noteq> source_artifact \<or> pa_review_id approval \<noteq> rv_review_id review
                then node_failed ''workflow-approval-stale'' name
                else rbind (node_completed_data name APPROVAL None
                  (no_evidence\<lparr>ne_artifact_id := Some (rv_artifact_id review), ne_review_id := Some (rv_review_id review),
                     ne_approval_digest := Some (pa_approval_digest approval)\<rparr>)) (\<lambda>data. Inr (completed_execution data)))))"

definition approve_node :: "(pystr \<Rightarrow> pystr) \<Rightarrow> workflow_services \<Rightarrow> pystr \<Rightarrow> pystr \<Rightarrow> workflow_projection \<Rightarrow> (event_store, node_execution) action" where
  "approve_node sha sv name review_node p =
     abind (lift_result (promotion_of sv name)) (\<lambda>_.
       case state_of p review_node of
         None \<Rightarrow> lift_result (node_failed ''workflow-review-missing'' name)
       | Some source \<Rightarrow>
           (case ns_review_id source of
              None \<Rightarrow> lift_result (node_failed ''workflow-review-missing'' name)
            | Some review \<Rightarrow> abind (reading (load_promotions sha)) (\<lambda>ledger.
                lift_result (approval_execution sha ledger name (ns_artifact_id source) review))))"

definition execute_node ::
    "(pystr \<Rightarrow> pystr) \<Rightarrow> workflow_services \<Rightarrow> binding_resolver \<Rightarrow> pystr \<Rightarrow> workflow_node \<Rightarrow> pystr option \<Rightarrow> workflow_projection
       \<Rightarrow> (event_store, node_execution) action" where
  "execute_node sha sv rs run_id node map_key p =
     (case node of
        AgentTaskNode name _ spec_b message_b capture \<Rightarrow> agent_task sha sv rs run_id name AGENT_TASK spec_b message_b capture None
      | MapNode name _ keys_b spec_b message_b fan_out capture \<Rightarrow>
          (case map_key of
             None \<Rightarrow> expand_map_node rs run_id name keys_b fan_out
           | Some key \<Rightarrow> abind (lift_result (map_child_node_id sha name key)) (\<lambda>child.
               agent_task sha sv rs run_id child MAP spec_b message_b capture (Some key)))
      | JoinNode name _ \<Rightarrow> lift_result (rbind (node_completed_data name JOIN None no_evidence) (\<lambda>data. Inr (completed_execution data)))
      | VerificationNode name _ artifact_node target \<Rightarrow> verify_node sha sv run_id name artifact_node target p
      | ApprovalNode name _ review_node \<Rightarrow> approve_node sha sv name review_node p)"

definition effective_node_id :: "(pystr \<Rightarrow> pystr) \<Rightarrow> workflow_node \<Rightarrow> pystr option \<Rightarrow> pystr result" where
  "effective_node_id sha node map_key = (case map_key of None \<Rightarrow> Inr (node_id node) | Some key \<Rightarrow> map_child_node_id sha (node_id node) key)"

section \<open>What an executor reports is accepted\<close>

text \<open>
  The evidence behind a completed fact, read back: the values the projector finds in the payload
  are the ones the executor put there, and they are the ones the kind of the node requires.
\<close>

lemma optional_identifier_Inr: "optional_identifier x = Inr j \<longleftrightarrow> j = json_opt x \<and> (\<forall>s. x = Some s \<longrightarrow> ident_ok s)"
  by (cases x) (auto simp: optional_identifier_def result_simps)

lemma optional_digest_value_Inr: "optional_digest_value x = Inr j \<longleftrightarrow> j = json_opt x \<and> (\<forall>s. x = Some s \<longrightarrow> is_digest s)"
  by (cases x) (auto simp: optional_digest_value_def require_digest_def result_simps)

lemma node_completed_data_Inr:
  "node_completed_data name kind key ev = Inr data \<longleftrightarrow> ident_ok name \<and> (\<forall>s. key = Some s \<longrightarrow> ident_ok s) \<and>
     (\<forall>s. ne_agent_id ev = Some s \<longrightarrow> ident_ok s) \<and> (\<forall>s. ne_message_id ev = Some s \<longrightarrow> ident_ok s) \<and>
     (\<forall>s. ne_artifact_id ev = Some s \<longrightarrow> ident_ok s) \<and> (\<forall>s. ne_review_id ev = Some s \<longrightarrow> ident_ok s) \<and>
     (\<forall>s. ne_approval_digest ev = Some s \<longrightarrow> is_digest s) \<and>
     data = [(lit ''node_id'', JStr name), (lit ''kind'', JStr (lit (node_kind_value kind))), (lit ''map_key'', json_opt key),
            (lit ''agent_id'', json_opt (ne_agent_id ev)), (lit ''message_id'', json_opt (ne_message_id ev)),
            (lit ''artifact_id'', json_opt (ne_artifact_id ev)), (lit ''review_id'', json_opt (ne_review_id ev)),
            (lit ''approval_digest'', json_opt (ne_approval_digest ev))]"
  by (auto simp: node_completed_data_def result_simps optional_identifier_Inr optional_digest_value_Inr)

lemma workflow_kind_value: "jget data ''kind'' = JStr (lit (node_kind_value k)) \<Longrightarrow> workflow_kind data seq = Inr k"
  by (cases k) (auto simp: workflow_kind_def node_kind_value_def)

definition settled_with :: "node_state \<Rightarrow> node_evidence \<Rightarrow> node_state" where
  "settled_with st ev = st\<lparr>ns_status := Node_Completed, ns_agent_id := ne_agent_id ev, ns_message_id := ne_message_id ev,
     ns_artifact_id := ne_artifact_id ev, ns_review_id := ne_review_id ev, ns_approval_digest := ne_approval_digest ev, ns_failure_code := None\<rparr>"

lemma workflow_optional_digest_Inr:
  "workflow_optional_digest d k n = Inr x \<longleftrightarrow> jget d k = json_opt x \<and> (\<forall>s. x = Some s \<longrightarrow> is_digest s)"
  by (cases x) (auto simp: workflow_optional_digest_def result_simps)

lemma completed_fact_applies:
  assumes data: "node_completed_data name kind key ev = Inr data"
    and st: "map_of (ws_nodes s) name = Some st" "ns_status st = Node_Running" "ns_kind st = kind" "ns_map_key st = key"
    and evidence: "require_evidence sha run name (settled_with st ev) None = Inr ()"
  shows "apply_node_ended sha run True data seq s =
    Inr (s\<lparr>ws_nodes := dict_set name (settled_with st ev) (ws_nodes s), ws_awaiting := remove1 name (ws_awaiting s)\<rparr>)"
proof -
  note D = data[unfolded node_completed_data_Inr]
  have get: "jget data ''node_id'' = JStr name" "jget data ''kind'' = JStr (lit (node_kind_value kind))" "jget data ''map_key'' = json_opt key"
    "jget data ''agent_id'' = json_opt (ne_agent_id ev)" "jget data ''message_id'' = json_opt (ne_message_id ev)"
    "jget data ''artifact_id'' = json_opt (ne_artifact_id ev)" "jget data ''review_id'' = json_opt (ne_review_id ev)"
    "jget data ''approval_digest'' = json_opt (ne_approval_digest ev)"
    using D by simp_all
  have name: "workflow_text data ''node_id'' seq = Inr name" using D get by (simp add: workflow_text_Inr)
  have kind: "workflow_kind data seq = Inr kind" using get(2) by (rule workflow_kind_value)
  have key: "workflow_optional data ''map_key'' seq = Inr key" using D get by (simp add: workflow_optional_Inr)
  have "settled_node st True data seq = Inr (settled_with st ev)"
  proof -
    have "workflow_optional data ''agent_id'' seq = Inr (ne_agent_id ev)" "workflow_optional data ''message_id'' seq = Inr (ne_message_id ev)"
      "workflow_optional data ''artifact_id'' seq = Inr (ne_artifact_id ev)" "workflow_optional data ''review_id'' seq = Inr (ne_review_id ev)"
      "workflow_optional_digest data ''approval_digest'' seq = Inr (ne_approval_digest ev)"
      using D get by (simp_all add: workflow_optional_Inr workflow_optional_digest_Inr)
    then show ?thesis by (simp add: settled_node_def when_completed_def settled_with_def)
  qed
  then show ?thesis using name kind key st evidence by (simp add: apply_node_ended_def running_state_def)
qed

lemma check_present_Inr:
  "check_present name ((present, expected) # rest) = Inr u \<longleftrightarrow> (expected = None \<or> expected = Some present) \<and> check_present name rest = Inr u"
  by (cases expected) auto

lemma evidence_as_declared:
  assumes p: "wp_run_id p = run" and kind: "ns_kind st = node_kind node" and key: "ns_map_key st = key"
    and rule: "evidence_expected sha run name (node_kind node) key (declared_capture node key) = Inr rule"
    and ids: "ne_agent_id ev = er_agent_id rule" "ne_message_id ev = er_message_id rule"
    and parts: "er_artifact rule = None \<or> er_artifact rule = Some (ne_artifact_id ev \<noteq> None)"
      "er_review rule = None \<or> er_review rule = Some (ne_review_id ev \<noteq> None)"
      "er_approval rule = None \<or> er_approval rule = Some (ne_approval_digest ev \<noteq> None)"
  shows "require_declared_evidence sha p node name (settled_with st ev) key = Inr ()"
proof -
  have "require_declared_evidence sha p node name (settled_with st ev) key =
      check_present name [(ne_artifact_id ev \<noteq> None, er_artifact rule), (ne_review_id ev \<noteq> None, er_review rule),
        (ne_approval_digest ev \<noteq> None, er_approval rule)]"
    using p kind key rule ids by (simp add: require_declared_evidence_def require_evidence_def settled_with_def)
  also have "\<dots> = Inr ()" using parts by (simp only: check_present_Inr check_present.simps(1))
  finally show ?thesis .
qed

lemma evidence_expected_unread:
  assumes "evidence_expected sha run name kind key (Some b) = Inr rule"
  obtains a where "evidence_expected sha run name kind key None = Inr (rule\<lparr>er_artifact := a\<rparr>)" "a = None \<or> a = er_artifact rule"
proof (cases "kind = AGENT_TASK \<or> kind = MAP \<and> key \<noteq> None")
  case True
  then show thesis using assms that[of None] by (auto simp: evidence_expected_def result_simps)
next
  case False
  then have "evidence_expected sha run name kind key None = Inr (rule\<lparr>er_artifact := er_artifact rule\<rparr>)"
    using assms by (auto simp: evidence_expected_def)
  then show thesis using that by blast
qed

lemma evidence_unread:
  assumes "require_evidence sha run name st (Some b) = Inr ()"
  shows "require_evidence sha run name st None = Inr ()"
proof -
  obtain rule where rule: "evidence_expected sha run name (ns_kind st) (ns_map_key st) (Some b) = Inr rule"
    using assms by (auto simp: require_evidence_def result_simps)
  obtain a where a: "evidence_expected sha run name (ns_kind st) (ns_map_key st) None = Inr (rule\<lparr>er_artifact := a\<rparr>)" "a = None \<or> a = er_artifact rule"
    using rule by (rule evidence_expected_unread)
  have "check_present name [(ns_artifact_id st \<noteq> None, er_artifact rule), (ns_review_id st \<noteq> None, er_review rule),
      (ns_approval_digest st \<noteq> None, er_approval rule)] = Inr ()"
    and ids: "ns_agent_id st = er_agent_id rule" "ns_message_id st = er_message_id rule"
    using assms unfolding require_evidence_def rule by (simp_all only: rbind.simps split: if_splits) auto
  then have "check_present name [(ns_artifact_id st \<noteq> None, a), (ns_review_id st \<noteq> None, er_review rule),
      (ns_approval_digest st \<noteq> None, er_approval rule)] = Inr ()"
    using a(2) by (simp only: check_present_Inr check_present.simps(1)) blast
  then show ?thesis using ids by (simp add: require_evidence_def a(1) del: check_present.simps(2))
qed

lemma declared_evidence_base:
  "require_declared_evidence sha p node name st key = Inr () \<Longrightarrow> require_evidence sha (wp_run_id p) name st None = Inr ()"
  using evidence_unread by (cases "declared_capture node key") (auto simp: require_declared_evidence_def)

text \<open>The evidence that a finished execution of a node stands on, kind by kind.\<close>

definition reported :: "(pystr \<Rightarrow> pystr) \<Rightarrow> pystr \<Rightarrow> workflow_node \<Rightarrow> pystr option \<Rightarrow> pystr \<Rightarrow> node_evidence \<Rightarrow> bool" where
  "reported sha run node key name ev \<longleftrightarrow> (\<exists>rule. evidence_expected sha run name (node_kind node) key (declared_capture node key) = Inr rule \<and>
     ne_agent_id ev = er_agent_id rule \<and> ne_message_id ev = er_message_id rule \<and>
     (er_artifact rule = None \<or> er_artifact rule = Some (ne_artifact_id ev \<noteq> None)) \<and>
     (er_review rule = None \<or> er_review rule = Some (ne_review_id ev \<noteq> None)) \<and>
     (er_approval rule = None \<or> er_approval rule = Some (ne_approval_digest ev \<noteq> None)))"

lemma deliver_task_artifact:
  assumes "deliver_task sv rs run name ids message_b capture key st = (st2, Inr artifact)"
  shows "artifact \<noteq> None \<longleftrightarrow> capture"
  using assms unfolding deliver_task_def Let_def
  by (elim abind_Inr) (auto simp: lift_result_def node_failed_def elim!: abind_Inr split: if_splits)

lemma agent_task_reported:
  assumes "agent_task sha sv rs run name kind spec_b message_b capture key st = (st2, Inr x)"
  shows "\<exists>ids artifact data. agent_identity sha run name = Inr ids \<and> (artifact \<noteq> None \<longleftrightarrow> capture) \<and>
    node_completed_data name kind key (no_evidence\<lparr>ne_agent_id := Some (ai_agent_id ids), ne_message_id := Some (ai_message_id ids),
      ne_artifact_id := artifact\<rparr>) = Inr data \<and> x = completed_execution data"
  using assms unfolding agent_task_def
  by (elim abind_Inr) (auto simp: lift_result_def result_simps dest!: try_finally_Inr deliver_task_artifact)

lemma evidence_expected_agent:
  assumes "agent_identity sha run name = Inr ids" "kind = AGENT_TASK \<or> kind = MAP \<and> key \<noteq> None"
  shows "evidence_expected sha run name kind key c = Inr \<lparr>er_agent_id = Some (ai_agent_id ids), er_message_id = Some (ai_message_id ids),
    er_artifact = c, er_review = Some False, er_approval = Some False\<rparr>"
  using assms by (auto simp: evidence_expected_def)

lemma agent_task_evidence:
  assumes "agent_task sha sv rs run name (node_kind node) spec_b message_b (capture_artifact node) key st = (st2, Inr x)"
    and "node_kind node = AGENT_TASK \<or> node_kind node = MAP \<and> key \<noteq> None"
  shows "\<exists>ev data. node_completed_data name (node_kind node) key ev = Inr data \<and> x = completed_execution data \<and> reported sha run node key name ev"
proof -
  obtain ids artifact data where x: "agent_identity sha run name = Inr ids" "artifact \<noteq> None \<longleftrightarrow> capture_artifact node"
    "node_completed_data name (node_kind node) key (no_evidence\<lparr>ne_agent_id := Some (ai_agent_id ids), ne_message_id := Some (ai_message_id ids),
      ne_artifact_id := artifact\<rparr>) = Inr data" "x = completed_execution data"
    using agent_task_reported[OF assms(1)] by blast
  have "declared_capture node key = Some (capture_artifact node)" using assms(2) by (auto simp: declared_capture_def)
  then have "reported sha run node key name (no_evidence\<lparr>ne_agent_id := Some (ai_agent_id ids), ne_message_id := Some (ai_message_id ids),
      ne_artifact_id := artifact\<rparr>)"
    using evidence_expected_agent[OF x(1) assms(2)] x(2) by (simp add: reported_def no_evidence_def)
  then show ?thesis using x(3,4) by blast
qed

lemma declared_capture_other: "node_kind node \<notin> {AGENT_TASK, MAP} \<Longrightarrow> declared_capture node key = None"
  by (simp add: declared_capture_def)

lemma execute_node_reported:
  assumes run: "execute_node sha sv rs run node key p st = (st2, Inr x)" and data: "nx_completed x = Some data"
    and key: "node_kind node \<noteq> MAP \<Longrightarrow> key = None"
  shows "\<exists>name ev. effective_node_id sha node key = Inr name \<and> node_completed_data name (node_kind node) key ev = Inr data \<and>
    reported sha run node key name ev"
proof (cases node)
  case (AgentTaskNode name ps spec_b message_b capture)
  then have "agent_task sha sv rs run name (node_kind node) spec_b message_b (capture_artifact node) key st = (st2, Inr x)"
    using run key by (simp add: execute_node_def)
  from agent_task_evidence[OF this] data AgentTaskNode key show ?thesis
    by (auto simp: effective_node_id_def completed_execution_def)
next
  case (MapNode name ps keys_b spec_b message_b fan_out capture)
  show ?thesis
  proof (cases key)
    case None
    then obtain raw where "node_completed_data name MAP None no_evidence = Inr data"
      using run data MapNode by (auto simp: execute_node_def expand_map_node_def lift_result_def result_simps elim!: abind_Inr)
    moreover have "reported sha run node key name no_evidence"
      using MapNode None by (simp add: reported_def evidence_expected_def declared_capture_def no_evidence_def)
    ultimately show ?thesis using MapNode None by (auto simp: effective_node_id_def)
  next
    case (Some k)
    then obtain child where child: "map_child_node_id sha name k = Inr child"
      "agent_task sha sv rs run child (node_kind node) spec_b message_b (capture_artifact node) key st = (st2, Inr x)"
      using run MapNode by (auto simp: execute_node_def lift_result_def elim!: abind_Inr)
    from agent_task_evidence[OF child(2)] data MapNode Some child(1) show ?thesis
      by (auto simp: effective_node_id_def completed_execution_def)
  qed
next
  case (JoinNode name ps)
  then have "node_completed_data name JOIN None no_evidence = Inr data"
    using run data by (auto simp: execute_node_def lift_result_def completed_execution_def result_simps)
  moreover have "reported sha run node None name no_evidence"
    using JoinNode by (simp add: reported_def evidence_expected_def declared_capture_def no_evidence_def)
  ultimately show ?thesis using JoinNode key by (auto simp: effective_node_id_def)
next
  case (VerificationNode name ps artifact_node target)
  then obtain artifact review where "node_completed_data name VERIFICATION None
      (no_evidence\<lparr>ne_artifact_id := Some artifact, ne_review_id := Some review\<rparr>) = Inr data"
    using run data
    by (auto simp: execute_node_def verify_node_def lift_result_def completed_execution_def node_failed_def result_simps elim!: abind_Inr split: if_splits)
  moreover have "reported sha run node None name (no_evidence\<lparr>ne_artifact_id := Some artifact, ne_review_id := Some review\<rparr>)"
    using VerificationNode by (simp add: reported_def evidence_expected_def declared_capture_def no_evidence_def)
  ultimately show ?thesis using VerificationNode key by (auto simp: effective_node_id_def)
next
  case (ApprovalNode name ps review_node)
  then obtain ledger source_artifact review where "approval_execution sha ledger name source_artifact review = Inr x"
    using run by (auto simp: execute_node_def approve_node_def lift_result_def node_failed_def elim!: abind_Inr split: option.splits)
  then obtain artifact rv digest where "node_completed_data name APPROVAL None
      (no_evidence\<lparr>ne_artifact_id := Some artifact, ne_review_id := Some rv, ne_approval_digest := Some digest\<rparr>) = Inr data"
    using data by (auto simp: approval_execution_def node_failed_def completed_execution_def result_simps split: option.splits if_splits)
  moreover have "reported sha run node None name
      (no_evidence\<lparr>ne_artifact_id := Some artifact, ne_review_id := Some rv, ne_approval_digest := Some digest\<rparr>)"
    using ApprovalNode by (simp add: reported_def evidence_expected_def declared_capture_def no_evidence_def)
  ultimately show ?thesis using ApprovalNode key by (auto simp: effective_node_id_def)
qed

text \<open>
  C32: what an executor reports, the projector accepts. When the execution of a started node or
  map child ends with a completed fact, the projector applies that fact to the running node, and
  the evidence it then holds is what the definition declares for the node: the derived Agent and
  message of an Agent task and an artifact exactly when it captures one, an artifact and review
  for a verification, and the approval digest for an approval.
\<close>

theorem executor_evidence_is_accepted:
  assumes "execute_node sha sv rs run node key p st = (st2, Inr x)" and "nx_completed x = Some data"
    and "node_kind node \<noteq> MAP \<longrightarrow> key = None" and "effective_node_id sha node key = Inr name"
    and "map_of (ws_nodes s) name = Some running" and "ns_status running = Node_Running"
    and "ns_kind running = node_kind node" and "ns_map_key running = key"
  shows "\<exists>settled. apply_node_ended sha run True data seq s =
      Inr (s\<lparr>ws_nodes := dict_set name settled (ws_nodes s), ws_awaiting := remove1 name (ws_awaiting s)\<rparr>) \<and>
    ns_status settled = Node_Completed \<and>
    require_declared_evidence sha (make_projection run s) node name settled key = Inr ()"
proof -
  obtain ev where ev: "node_completed_data name (node_kind node) key ev = Inr data" "reported sha run node key name ev"
    using execute_node_reported[OF assms(1,2)] assms(3,4) by auto
  obtain rule where rule: "evidence_expected sha run name (node_kind node) key (declared_capture node key) = Inr rule"
    "ne_agent_id ev = er_agent_id rule" "ne_message_id ev = er_message_id rule"
    "er_artifact rule = None \<or> er_artifact rule = Some (ne_artifact_id ev \<noteq> None)"
    "er_review rule = None \<or> er_review rule = Some (ne_review_id ev \<noteq> None)"
    "er_approval rule = None \<or> er_approval rule = Some (ne_approval_digest ev \<noteq> None)"
    using ev(2) unfolding reported_def by (elim exE conjE) (rule that)
  have run_id: "wp_run_id (make_projection run s) = run" by simp
  note declared = evidence_as_declared[OF run_id assms(7,8) rule]
  have "require_evidence sha run name (settled_with running ev) None = Inr ()"
    using declared_evidence_base[OF declared] by (simp only: run_id)
  from completed_fact_applies[OF ev(1) assms(5,6,7,8) this] declared show ?thesis
    by (intro exI[of _ "settled_with running ev"]) (simp add: settled_with_def)
qed

lemma approve_node_Inr:
  assumes "approve_node sha sv name review_node p st = (st', Inr x)"
  obtains l source review where "load_promotions sha st = Inr l" "st' = st" "state_of p review_node = Some source" "ns_review_id source = Some review"
    "approval_execution sha l name (ns_artifact_id source) review = Inr x"
proof (cases "promotion_of sv name")
  case (Inl e)
  then show thesis using assms by (simp add: approve_node_def)
next
  case (Inr services)
  show thesis
  proof (cases "state_of p review_node")
    case None
    then show thesis using assms Inr by (simp add: approve_node_def lift_result_def node_failed_def)
  next
    case (Some source)
    note state = this
    show thesis
    proof (cases "ns_review_id source")
      case None
      then show thesis using assms Inr state by (simp add: approve_node_def lift_result_def node_failed_def)
    next
      case (Some review)
      then show thesis using that[of _ source review] assms Inr state
        by (cases "load_promotions sha st") (simp_all add: approve_node_def lift_result_def)
    qed
  qed
qed

text \<open>
  C40: a workflow never approves on anyone's behalf. When an approval node finishes, the ledger of
  promotions in the store holds a human approval of the very review that the review node of the
  run has recorded, of the same artifact and with the digest of that review, which passed; this
  digest is what the completed fact says. Otherwise the node only reports the review it waits for,
  a review that passed and has no approval. Executing an approval node writes nothing.
\<close>

theorem workflow_approval_is_human:
  assumes "store_ok st" and "execute_node sha sv rs run (ApprovalNode name parents review_node) key p st = (st', Inr x)"
  shows "st' = st \<and> (\<exists>l source r. load_promotions sha st = Inr l \<and> state_of p review_node = Some source \<and>
    ns_review_id source = Some (rv_review_id r) \<and> r \<in> set (pl_reviews l) \<and> rv_passed r \<and>
    (case nx_completed x of
       None \<Rightarrow> nx_awaiting_review_id x = Some (rv_review_id r) \<and> approval_for_review l (rv_review_id r) = None
     | Some data \<Rightarrow> ns_artifact_id source = Some (rv_artifact_id r) \<and> jget data ''review_id'' = JStr (rv_review_id r) \<and>
         (\<exists>a. a \<in> set (pl_approvals l) \<and> approves sha r a \<and> jget data ''approval_digest'' = JStr (pa_approval_digest a))))"
proof -
  obtain l source review where l: "load_promotions sha st = Inr l" "st' = st" "state_of p review_node = Some source" "ns_review_id source = Some review"
    and x: "approval_execution sha l name (ns_artifact_id source) review = Inr x"
  proof (rule approve_node_Inr)
    show "approve_node sha sv name review_node p st = (st', Inr x)" using assms(2) by (simp add: execute_node_def)
  qed
  have ok: "promotions_ok sha l"
    using l(1) rebuilt_promotions_ok unfolding load_promotions_Inr[OF assms(1)] by blast
  obtain r where found: "ledger_review l review = Some r" and passed: "rv_passed r"
    using x by (auto simp: approval_execution_def node_failed_def split: option.splits if_splits)
  note Q = ledger_queries[OF ok]
  have r: "r \<in> set (pl_reviews l)" "rv_review_id r = review" using found Q(1) by blast+
  show ?thesis
  proof (cases "approval_for_review l review")
    case None
    then have "x = \<lparr>nx_completed = None, nx_map_keys = [], nx_awaiting_review_id = Some review\<rparr>"
      using x found passed r(2) by (simp add: approval_execution_def)
    then show ?thesis using l r passed None by auto
  next
    case (Some a)
    have same: "ns_artifact_id source = Some (rv_artifact_id r)"
    proof (rule ccontr)
      assume "ns_artifact_id source \<noteq> Some (rv_artifact_id r)"
      then have "Some (rv_artifact_id r) \<noteq> ns_artifact_id source" by (rule not_sym)
      then show False using x Some by (simp add: approval_execution_def node_failed_def found passed r(2))
    qed
    obtain data where data: "node_completed_data name APPROVAL None (no_evidence\<lparr>ne_artifact_id := Some (rv_artifact_id r),
        ne_review_id := Some review, ne_approval_digest := Some (pa_approval_digest a)\<rparr>) = Inr data" "x = completed_execution data"
      using x Some
      by (cases "node_completed_data name APPROVAL None (no_evidence\<lparr>ne_artifact_id := Some (rv_artifact_id r), ne_review_id := Some review,
          ne_approval_digest := Some (pa_approval_digest a)\<rparr>)")
        (simp_all add: approval_execution_def node_failed_def found passed r(2) split: if_splits)
    have a: "a \<in> set (pl_approvals l)" "pa_review_id a = review" using Some Q(2) by blast+
    obtain r' where r': "r' \<in> set (pl_reviews l)" "approves sha r' a" using ok a(1) unfolding promotions_ok_def by blast
    have "r' = r" using Q(1)[of review r] Q(1)[of review r'] r r' a(2) by (simp add: approves_def)
    moreover have "jget data ''review_id'' = JStr review" "jget data ''approval_digest'' = JStr (pa_approval_digest a)"
      using data(1) by (simp_all add: node_completed_data_Inr)
    ultimately have "case nx_completed x of
       None \<Rightarrow> nx_awaiting_review_id x = Some (rv_review_id r) \<and> approval_for_review l (rv_review_id r) = None
     | Some data \<Rightarrow> ns_artifact_id source = Some (rv_artifact_id r) \<and> jget data ''review_id'' = JStr (rv_review_id r) \<and>
         (\<exists>a. a \<in> set (pl_approvals l) \<and> approves sha r a \<and> jget data ''approval_digest'' = JStr (pa_approval_digest a))"
      using same r(2) a(1) r'(2) unfolding data(2) completed_execution_def by auto
    then show ?thesis using l(1-3) l(4)[folded r(2)] r(1) passed by blast
  qed
qed

end
