(* ===== verification/Workflow_Service.thy ===== *)
theory Workflow_Service imports Workflow_Execution begin

text \<open>
  The workflow coordinator (workflow/service.py): the append of a node fact with its retries, one
  round of ready nodes, the recheck of approvals and the loop that advances a run until it is
  finished or waits for a human. What other writers do before the n-th attempt of an append is
  \<open>others n\<close>; the concurrent tasks of a round are executed one after the other, and the effects
  of a sibling between two calls belong to the action of the called service. The table of tasks
  of this process, its lock, cancellation and closing are not modelled.
\<close>

section \<open>Reading and appending\<close>

definition MAX_APPEND_ATTEMPTS :: nat where
  "MAX_APPEND_ATTEMPTS = 8"

definition load_workflow :: "(pystr \<Rightarrow> pystr) \<Rightarrow> pystr \<Rightarrow> event_store \<Rightarrow> workflow_projection result" where
  "load_workflow sha run_id st = rbind (workflow_stream_id run_id) (\<lambda>stream_id. rebuild_workflow sha run_id (read_events st stream_id 1))"

type_synonym interference = "nat \<Rightarrow> event_store \<Rightarrow> event_store"

function append_attempt ::
    "(pystr \<Rightarrow> pystr) \<Rightarrow> drawn \<Rightarrow> interference \<Rightarrow> pystr \<Rightarrow> string \<Rightarrow> payload \<Rightarrow> nat \<Rightarrow> int \<Rightarrow> (event_store, unit) action" where
  "append_attempt sha dr others run_id event_type data attempts expected_seq st =
     (let stream_id = lit ''workflow:'' @ run_id in
      case append_events dr stream_id expected_seq [pending event_type data WORKFLOW_SCHEMA_VERSION] (others attempts st) of
        (st1, Inr _) \<Rightarrow> (st1, Inr ())
      | (st1, Inl error) \<Rightarrow>
          (let committed = committed_after_failure (Some (read_events st1 stream_id 1)) (\<lambda>event. is_workflow_fact event stream_id event_type data) in
           if committed = Some True then (st1, Inr ())
           else if is_concurrency_conflict error \<and> committed = Some False then
             (if MAX_APPEND_ATTEMPTS \<le> attempts then (st1, Inl WorkflowLedgerConflictError)
              else case load_workflow sha run_id st1 of
                Inl e \<Rightarrow> (st1, Inl e)
              | Inr p \<Rightarrow> append_attempt sha dr others run_id event_type data (Suc attempts) (wp_head_seq p) st1)
           else (st1, Inl (WorkflowWriteError committed))))"
  by pat_completeness auto
termination by (relation "measure (\<lambda>(_, _, _, _, _, _, attempts, _, _). MAX_APPEND_ATTEMPTS - attempts)") auto

declare append_attempt.simps [simp del]

record workflow_host =
  wh_sha :: "pystr \<Rightarrow> pystr"
  wh_drawn :: drawn
  wh_others :: interference
  wh_run_id :: pystr

definition append_workflow :: "workflow_host \<Rightarrow> int \<Rightarrow> string \<Rightarrow> payload \<Rightarrow> (event_store, unit) action" where
  "append_workflow h expected_seq event_type data =
     append_attempt (wh_sha h) (wh_drawn h) (wh_others h) (wh_run_id h) event_type data 1 expected_seq"

definition append_reload ::
    "workflow_host \<Rightarrow> string \<Rightarrow> payload result \<Rightarrow> workflow_projection \<Rightarrow> (event_store, workflow_projection) action" where
  "append_reload h event_type data p =
     abind (lift_result data) (\<lambda>data.
     abind (append_workflow h (wp_head_seq p) event_type data) (\<lambda>_. reading (load_workflow (wh_sha h) (wh_run_id h))))"

section \<open>One round of ready nodes\<close>

type_synonym ready_node = "workflow_node \<times> pystr option"
type_synonym executor = "workflow_node \<Rightarrow> pystr option \<Rightarrow> workflow_projection \<Rightarrow> (event_store, node_execution) action"

fun start_nodes :: "workflow_host \<Rightarrow> ready_node list \<Rightarrow> workflow_projection \<Rightarrow> (event_store, workflow_projection) action" where
  "start_nodes h [] p = lift_result (Inr p)"
| "start_nodes h ((node, map_key) # rest) p =
     abind (lift_result (effective_node_id (wh_sha h) node map_key)) (\<lambda>name.
     abind (append_reload h WORKFLOW_NODE_STARTED (node_started_data name (node_kind node) map_key) p) (start_nodes h rest))"

fun execute_ready :: "executor \<Rightarrow> workflow_projection \<Rightarrow> ready_node list \<Rightarrow> event_store \<Rightarrow> event_store \<times> node_execution result list" where
  "execute_ready exec p [] st = (st, [])"
| "execute_ready exec p ((node, map_key) # rest) st =
     (let (st1, outcome) = exec node map_key p st; (st2, outcomes) = execute_ready exec p rest st1 in (st2, outcome # outcomes))"

definition exn_code :: "exn \<Rightarrow> pystr option" where
  "exn_code e = (case e of
     AgentIdentityError c _ \<Rightarrow> Some (lit c) | AgentDirectoryProtocolError c _ \<Rightarrow> Some (lit c) | AgentInboxProtocolError c _ \<Rightarrow> Some (lit c)
   | AgentMessageError c _ \<Rightarrow> Some (lit c) | AgentOwnershipGraphError c \<Rightarrow> Some (lit c)
   | AgentIdentityConflictError \<Rightarrow> Some (lit ''agent-id-taken'') | AgentSessionConflictError \<Rightarrow> Some (lit ''agent-session-taken'')
   | AgentRequestConflictError \<Rightarrow> Some (lit ''agent-request-reused'') | AgentOwnerNotFoundError \<Rightarrow> Some (lit ''agent-owner-unknown'')
   | AgentDirectoryConflictError \<Rightarrow> Some (lit ''agent-directory-changed'') | AgentCreationError _ \<Rightarrow> Some (lit ''agent-creation-failed'')
   | AgentUnknownError \<Rightarrow> Some (lit ''agent-unknown'') | AgentMessageConflictError \<Rightarrow> Some (lit ''inbox-message-reused'')
   | AgentInboxConflictError \<Rightarrow> Some (lit ''inbox-changed'') | AgentMessageAcceptError _ \<Rightarrow> Some (lit ''inbox-accept-failed'')
   | DeliveryConflictError \<Rightarrow> Some (lit ''delivery-changed'') | DeliveryAppendError _ \<Rightarrow> Some (lit ''delivery-append-failed'')
   | DeliveryInputError c _ \<Rightarrow> Some (lit c) | DeliveryProtocolError c _ \<Rightarrow> Some (lit c)
   | BudgetInputError c _ \<Rightarrow> Some (lit c) | BudgetProtocolError c _ \<Rightarrow> Some (lit c) | BudgetExhaustedError _ \<Rightarrow> Some (lit ''budget-exhausted'')
   | BudgetAccountNotFoundError \<Rightarrow> Some (lit ''budget-account-not-found'') | BudgetAccountClosedError \<Rightarrow> Some (lit ''budget-account-closed'')
   | BudgetOperationConflictError \<Rightarrow> Some (lit ''budget-operation-reused'') | BudgetDirectoryMismatchError \<Rightarrow> Some (lit ''budget-directory-mismatch'')
   | BudgetReservationNotFoundError \<Rightarrow> Some (lit ''budget-reservation-not-found'')
   | BudgetReservationStateError \<Rightarrow> Some (lit ''budget-reservation-state-invalid'')
   | BudgetLedgerConflictError \<Rightarrow> Some (lit ''budget-ledger-changed'') | BudgetWriteError _ \<Rightarrow> Some (lit ''budget-write-failed'')
   | WorkflowInputError c _ \<Rightarrow> Some (lit c) | WorkflowDefinitionError c _ \<Rightarrow> Some (lit c) | WorkflowProtocolError c _ _ \<Rightarrow> Some (lit c)
   | WorkflowStateError c _ \<Rightarrow> Some (lit c) | WorkflowNodeFailedError c _ \<Rightarrow> Some (lit c) | WorkflowRecoveryError c _ \<Rightarrow> Some (lit c)
   | WorkflowLedgerConflictError \<Rightarrow> Some (lit ''workflow-stream-changed'') | WorkflowWriteError _ \<Rightarrow> Some (lit ''workflow-write-failed'')
   | PromotionInputError c _ \<Rightarrow> Some (lit c) | PromotionProtocolError c _ \<Rightarrow> Some (lit c) | PromotionNotFoundError c \<Rightarrow> Some (lit c)
   | PromotionStateError c \<Rightarrow> Some (lit c) | PromotionApprovalError c \<Rightarrow> Some (lit c)
   | PromotionTargetDriftError \<Rightarrow> Some (lit ''promotion-target-drift'') | PromotionOperationConflictError \<Rightarrow> Some (lit ''promotion-operation-reused'')
   | PromotionLedgerConflictError \<Rightarrow> Some (lit ''promotion-ledger-changed'') | PromotionWriteError _ \<Rightarrow> Some (lit ''promotion-write-failed'')
   | ForeignError c \<Rightarrow> c
   | _ \<Rightarrow> None)"

definition safe_code :: "pystr option \<Rightarrow> pystr" where
  "safe_code code = (case code of
     Some c \<Rightarrow> (if is_agent_identifier (JStr c) then c else lit ''workflow-node-error'') | None \<Rightarrow> lit ''workflow-node-error'')"

fun record_outcomes ::
    "workflow_host \<Rightarrow> (ready_node \<times> node_execution result) list \<Rightarrow> exn list \<Rightarrow> workflow_projection
       \<Rightarrow> (event_store, workflow_projection \<times> exn list) action" where
  "record_outcomes h [] failures p = lift_result (Inr (p, failures))"
| "record_outcomes h (((node, map_key), outcome) # rest) failures p =
     abind (lift_result (effective_node_id (wh_sha h) node map_key)) (\<lambda>name.
       case outcome of
         Inl error \<Rightarrow>
           (if error = PyCancelledError then record_outcomes h rest (failures @ [error]) p
            else abind (append_reload h WORKFLOW_NODE_FAILED
                   (node_failed_data name (node_kind node) map_key (safe_code (exn_code error))) p)
                 (record_outcomes h rest (failures @ [error])))
       | Inr x \<Rightarrow>
           (case nx_awaiting_review_id x of
              Some review \<Rightarrow> abind (append_reload h WORKFLOW_APPROVAL_AWAITED (approval_awaited_data name review) p) (record_outcomes h rest failures)
            | None \<Rightarrow>
                abind (if nx_map_keys x \<noteq> [] then append_reload h WORKFLOW_MAP_EXPANDED (map_expanded_data (wh_sha h) name (nx_map_keys x)) p
                       else lift_result (Inr p)) (\<lambda>p.
                  case nx_completed x of
                    None \<Rightarrow> lift_result (Inl PyAssertionError)
                  | Some data \<Rightarrow> abind (append_reload h WORKFLOW_NODE_COMPLETED (Inr data) p) (record_outcomes h rest failures))))"

definition finish_run_of :: "workflow_host \<Rightarrow> workflow_projection \<Rightarrow> (event_store, workflow_projection) action" where
  "finish_run_of h p =
     (let failed = failed_nodes p \<noteq> [];
          status = lit (node_status_value (if failed then Node_Failed else Node_Completed));
          failure_code = (if failed then Some (lit ''workflow-node-failed'') else None) in
      append_reload h WORKFLOW_RUN_FINISHED (run_finished_data status failure_code) p)"

definition report_failures :: "workflow_host \<Rightarrow> exn list \<Rightarrow> workflow_projection \<Rightarrow> (event_store, workflow_projection) action" where
  "report_failures h failures p st =
     (let node_failure = PyExceptionGroup ''workflow nodes failed'' failures in
      case finish_run_of h p st of
        (st1, Inr _) \<Rightarrow> (st1, Inl node_failure)
      | (st1, Inl terminal_error) \<Rightarrow>
          (st1, Inl (if terminal_error = PyCancelledError then PyCancelledError
             else PyExceptionGroup ''workflow nodes failed and the run terminal was not recorded'' [node_failure, terminal_error])))"

definition run_ready :: "workflow_host \<Rightarrow> executor \<Rightarrow> ready_node list \<Rightarrow> workflow_projection \<Rightarrow> (event_store, workflow_projection) action" where
  "run_ready h exec ready p =
     abind (start_nodes h ready p) (\<lambda>p st.
       let (st1, outcomes) = execute_ready exec p ready st in
       abind (record_outcomes h (zip ready outcomes) [] p) (\<lambda>(p, failures).
         if PyCancelledError \<in> set failures then lift_result (Inl PyCancelledError)
         else if failures \<noteq> [] then report_failures h failures p
         else lift_result (Inr p)) st1)"

section \<open>The loop\<close>

fun recheck_approvals :: "workflow_host \<Rightarrow> executor \<Rightarrow> node_index \<Rightarrow> pystr list \<Rightarrow> workflow_projection \<Rightarrow> (event_store, workflow_projection) action" where
  "recheck_approvals h exec by_id [] p = lift_result (Inr p)"
| "recheck_approvals h exec by_id (name # rest) p =
     (case map_of by_id name of
        None \<Rightarrow> lift_result (Inl (WorkflowStateError ''workflow-definition-changed'' (Some name)))
      | Some node \<Rightarrow> abind (exec node None p) (\<lambda>x.
          if nx_awaiting_review_id x \<noteq> None then recheck_approvals h exec by_id rest p
          else case nx_completed x of
            None \<Rightarrow> lift_result (Inl PyAssertionError)
          | Some data \<Rightarrow> abind (append_reload h WORKFLOW_NODE_COMPLETED (Inr data) p) (recheck_approvals h exec by_id rest)))"

partial_function (option) run_loop ::
    "workflow_host \<Rightarrow> executor \<Rightarrow> workflow_definition \<Rightarrow> workflow_projection \<Rightarrow> event_store \<Rightarrow> (event_store \<times> workflow_run result) option" where
  "run_loop h exec d p st =
     (case run_of (wh_sha h) p d of
        Inl e \<Rightarrow> Some (st, Inl e)
      | Inr run \<Rightarrow>
          (if wr_status run = Workflow_Completed \<or> wr_status run = Workflow_Failed then Some (st, Inr run)
           else case recheck_approvals h exec (index_of (wd_nodes d)) (wp_awaiting p) p st of
             (st1, Inl e) \<Rightarrow> Some (st1, Inl e)
           | (st1, Inr p1) \<Rightarrow>
               (let ready = ready_nodes d p1 in
                if ready = [] \<and> wp_awaiting p1 \<noteq> [] then Some (st1, Inr run)
                else case (if ready = [] then finish_run_of h p1 st1 else run_ready h exec ready p1 st1) of
                  (st2, Inl e) \<Rightarrow> Some (st2, Inl e)
                | (st2, Inr p2) \<Rightarrow> run_loop h exec d p2 st2)))"

declare run_loop.simps [code]

definition require_same_definition :: "workflow_projection \<Rightarrow> pystr \<Rightarrow> unit result" where
  "require_same_definition p digest =
     raise_if (wp_head_seq p \<noteq> 0 \<and> wp_definition_hash p \<noteq> digest) (WorkflowStateError ''workflow-definition-changed'' None)"

definition require_continuable :: "workflow_projection \<Rightarrow> unit result" where
  "require_continuable p =
     (case filter (\<lambda>name. name \<notin> set (wp_awaiting p)) (running_nodes p) of
        [] \<Rightarrow> Inr ()
      | name # _ \<Rightarrow> Inl (WorkflowRecoveryError ''workflow-node-still-running'' (Some name)))"

definition open_run :: "workflow_host \<Rightarrow> workflow_definition \<Rightarrow> pystr \<Rightarrow> bool \<Rightarrow> (event_store, workflow_projection) action" where
  "open_run h d digest allow_start =
     abind (reading (load_workflow (wh_sha h) (wh_run_id h))) (\<lambda>p.
       if wp_head_seq p = 0 then
         (if \<not> allow_start then lift_result (Inl (WorkflowStateError ''workflow-run-unknown'' None))
          else append_reload h WORKFLOW_RUN_STARTED (run_started_data (wh_run_id h) (wd_definition_id d) digest) p)
       else abind (lift_result (require_same_definition p digest)) (\<lambda>_.
            abind (lift_result (require_continuable p)) (\<lambda>_. lift_result (Inr p))))"

definition advance_run ::
    "workflow_host \<Rightarrow> workflow_services \<Rightarrow> binding_resolver \<Rightarrow> workflow_definition \<Rightarrow> bool \<Rightarrow> event_store
       \<Rightarrow> (event_store \<times> workflow_run result) option" where
  "advance_run h sv rs d allow_start st =
     (case rbind (require_workflow_identifier (wh_run_id h) ''run_id'') (\<lambda>_.
           rbind (freeze_workflow_definition d) (\<lambda>d.
           rbind (workflow_definition_hash (wh_sha h) d) (\<lambda>digest. Inr (d, digest)))) of
        Inl e \<Rightarrow> Some (st, Inl e)
      | Inr (d, digest) \<Rightarrow>
          (case open_run h d digest allow_start st of
             (st1, Inl e) \<Rightarrow> Some (st1, Inl e)
           | (st1, Inr p) \<Rightarrow> run_loop h (execute_node (wh_sha h) sv rs (wh_run_id h)) d p st1))"

definition start_workflow :: "workflow_host \<Rightarrow> workflow_services \<Rightarrow> binding_resolver \<Rightarrow> workflow_definition \<Rightarrow> event_store
    \<Rightarrow> (event_store \<times> workflow_run result) option" where
  "start_workflow h sv rs d = advance_run h sv rs d True"

definition resume_workflow :: "workflow_host \<Rightarrow> workflow_services \<Rightarrow> binding_resolver \<Rightarrow> workflow_definition \<Rightarrow> event_store
    \<Rightarrow> (event_store \<times> workflow_run result) option" where
  "resume_workflow h sv rs d = advance_run h sv rs d False"

definition workflow_status_of :: "(pystr \<Rightarrow> pystr) \<Rightarrow> pystr \<Rightarrow> event_store \<Rightarrow> workflow_status option result" where
  "workflow_status_of sha run_id st =
     rbind (require_workflow_identifier run_id ''run_id'') (\<lambda>run_id.
     rbind (load_workflow sha run_id st) (\<lambda>p. Inr (projection_status p)))"

definition workflow_state :: "(pystr \<Rightarrow> pystr) \<Rightarrow> pystr \<Rightarrow> workflow_definition \<Rightarrow> event_store \<Rightarrow> workflow_run result" where
  "workflow_state sha run_id d st =
     rbind (require_workflow_identifier run_id ''run_id'') (\<lambda>run_id.
     rbind (freeze_workflow_definition d) (\<lambda>d.
     rbind (load_workflow sha run_id st) (\<lambda>p.
     rbind (workflow_definition_hash sha d) (\<lambda>digest.
     rbind (require_same_definition p digest) (\<lambda>_. run_of sha p d)))))"

end
