(* ===== verification/Workflow_Advance.thy ===== *)
theory Workflow_Advance imports Workflow_Service Canonical_Json begin

text \<open>
  What the coordinator does to the store and to the run it advances: every step only extends the
  store, a fact it reports as written is in the stream, and every round of ready nodes leaves
  less work than it found. The loop therefore returns, whatever other writers append.
\<close>

section \<open>Actions that only extend the store\<close>

definition clean_store :: "event_store \<Rightarrow> bool" where
  "clean_store st \<longleftrightarrow> store_ok st \<and> (\<forall>sid. \<forall>e \<in> set (stream_of st sid). json_ok (ev_data e))"

definition grows_to :: "event_store \<Rightarrow> event_store \<Rightarrow> bool" where
  "grows_to st st' \<longleftrightarrow> clean_store st' \<and> extends st st'"

definition growing :: "(event_store, 'a) action \<Rightarrow> bool" where
  "growing m \<longleftrightarrow> (\<forall>st. clean_store st \<longrightarrow> grows_to st (fst (m st)))"

lemma grows_to_refl: "clean_store st \<Longrightarrow> grows_to st st"
  by (simp add: grows_to_def clean_store_def extends_refl)

lemma grows_to_trans: "grows_to a b \<Longrightarrow> grows_to b c \<Longrightarrow> grows_to a c"
  unfolding grows_to_def using extends_trans by blast

lemma grows_to_clean: "grows_to a b \<Longrightarrow> clean_store b"
  by (simp add: grows_to_def)

lemma growingD: "growing m \<Longrightarrow> clean_store st \<Longrightarrow> m st = (st', r) \<Longrightarrow> grows_to st st'"
  unfolding growing_def by (metis fst_conv)

lemma growing_lift [simp]: "growing (lift_result r)"
  by (simp add: growing_def lift_result_def grows_to_refl)

lemma growing_reading [simp]: "growing (reading g)"
  by (simp add: growing_def reading_def grows_to_refl)

lemma growing_abind:
  assumes "growing m" "\<And>x. growing (f x)"
  shows "growing (abind m f)"
  unfolding growing_def
proof (intro allI impI)
  fix st assume st: "clean_store st"
  obtain st1 r where m: "m st = (st1, r)" by (cases "m st")
  have g: "grows_to st st1" using growingD[OF assms(1) st m] .
  show "grows_to st (fst (abind m f st))"
  proof (cases r)
    case (Inr x)
    have "grows_to st1 (fst (f x st1))" using assms(2)[of x] grows_to_clean[OF g] by (simp add: growing_def)
    then show ?thesis using m Inr grows_to_trans[OF g] by (simp add: abind_def)
  qed (use m g in \<open>simp add: abind_def\<close>)
qed

lemma growing_try_finally:
  assumes "growing m" "growing f"
  shows "growing (try_finally m f)"
  unfolding growing_def
proof (intro allI impI)
  fix st assume st: "clean_store st"
  obtain st1 r where m: "m st = (st1, r)" by (cases "m st")
  obtain st2 q where f: "f st1 = (st2, q)" by (cases "f st1")
  have g: "grows_to st st1" using growingD[OF assms(1) st m] .
  then have "grows_to st st2" using growingD[OF assms(2) grows_to_clean[OF g] f] grows_to_trans by blast
  then show "grows_to st (fst (try_finally m f st))" using m f by (cases q) (simp_all add: try_finally_def)
qed

section \<open>A fact that was written is in the stream\<close>

definition recorded :: "pystr \<Rightarrow> string \<Rightarrow> payload \<Rightarrow> event_store \<Rightarrow> bool" where
  "recorded run ty data st \<longleftrightarrow> (\<exists>e \<in> set (stream_of st (lit ''workflow:'' @ run)). ev_type e = lit ty \<and>
     canonical_json (ev_data e) = canonical_json (JDict data))"

lemma workflow_event_header_Inr:
  "workflow_event_header e sid = Inr (ty, d, n) \<Longrightarrow> ty = ev_type e \<and> ev_data e = JDict d \<and> n = ev_seq e"
  by (cases "ev_data e")
    (auto simp: workflow_event_header_def read_workflow_header_def workflow_error_def result_simps split: if_splits)

lemma is_workflow_fact_recorded:
  assumes "list_ex (\<lambda>e. is_workflow_fact e (lit ''workflow:'' @ run) ty data) (stream_of st (lit ''workflow:'' @ run))"
  shows "recorded run ty data st"
proof -
  obtain e where e: "e \<in> set (stream_of st (lit ''workflow:'' @ run))" "is_workflow_fact e (lit ''workflow:'' @ run) ty data"
    using assms by (auto simp: list_ex_iff)
  have "ev_type e = lit ty \<and> canonical_json (ev_data e) = canonical_json (JDict data)"
  proof (cases "workflow_event_header e (lit ''workflow:'' @ run)")
    case (Inr h)
    obtain t d n where "h = (t, d, n)" by (cases h)
    then show ?thesis using e(2) Inr workflow_event_header_Inr[of e _ t d n] by (simp add: is_workflow_fact_def split: if_splits)
  qed (use e(2) in \<open>simp add: is_workflow_fact_def\<close>)
  then show ?thesis using e(1) unfolding recorded_def by blast
qed

lemma append_one_grows:
  assumes "clean_store st" "json_ok (JDict data)" "append_events dr sid n [pending ty data v] st = (st', r)"
  shows "grows_to st st'" "\<And>x. r = Inr x \<Longrightarrow> \<exists>e \<in> set (stream_of st' sid). ev_type e = lit ty \<and> ev_data e = JDict data"
proof -
  have st': "st' = fst (append_events dr sid n [pending ty data v] st)" "r = snd (append_events dr sid n [pending ty data v] st)"
    using assms(3) by simp_all
  have ok: "store_ok st'" unfolding st'(1) using assms(1) by (intro store_ok_append) (simp add: clean_store_def)
  have "\<exists>xs. stream_of st' sid' = stream_of st sid' @ xs \<and> (\<forall>e \<in> set xs. json_ok (ev_data e))" for sid'
    using assms(2) unfolding st'(1) append_events_stream by auto
  then show "grows_to st st'" using ok assms(1) unfolding grows_to_def clean_store_def extends_def by (metis Un_iff set_append)
  show "\<exists>e \<in> set (stream_of st' sid). ev_type e = lit ty \<and> ev_data e = JDict data" if "r = Inr x" for x
    using that unfolding st' append_events_stream append_events_result by (auto split: if_splits)
qed

definition interferes :: "interference \<Rightarrow> bool" where
  "interferes others \<longleftrightarrow> (\<forall>n st. clean_store st \<longrightarrow> grows_to st (others n st))"

lemma append_attempt_effect:
  assumes others: "interferes others" and json: "json_ok (JDict data)"
    and st: "clean_store st" and run: "append_attempt sha dr others run ty data k n st = (st', r)"
  shows "grows_to st st' \<and> (r = Inr () \<longrightarrow> recorded run ty data st')"
  using st run
proof (induction "MAX_APPEND_ATTEMPTS - k" arbitrary: k n st rule: less_induct)
  case less
  let ?sid = "lit ''workflow:'' @ run"
  obtain st1 q where a: "append_events dr ?sid n [pending ty data WORKFLOW_SCHEMA_VERSION] (others k st) = (st1, q)"
    by (cases "append_events dr ?sid n [pending ty data WORKFLOW_SCHEMA_VERSION] (others k st)")
  have g0: "grows_to st (others k st)" using others less.prems(1) by (simp add: interferes_def)
  note app = append_one_grows[OF grows_to_clean[OF g0] json a]
  have g1: "grows_to st st1" using grows_to_trans[OF g0 app(1)] .
  have reads: "read_events st1 ?sid 1 = stream_of st1 ?sid"
    using grows_to_clean[OF g1] by (simp add: clean_store_def read_events_all)
  note step = less.prems(2)[unfolded append_attempt.simps[of sha dr others run ty data k n st] Let_def a prod.case]
  show ?case
  proof (cases q)
    case (Inr x)
    then have "recorded run ty data st1" using app(2)[of x] by (auto simp: recorded_def)
    then show ?thesis using step Inr g1 by simp
  next
    case (Inl e)
    let ?c = "committed_after_failure (Some (stream_of st1 ?sid)) (\<lambda>event. is_workflow_fact event ?sid ty data)"
    consider (there) "?c = Some True" | (again) "?c = Some False" "is_concurrency_conflict e" "\<not> MAX_APPEND_ATTEMPTS \<le> k"
      | (stop) "?c \<noteq> Some True" "\<not> (is_concurrency_conflict e \<and> ?c = Some False) \<or> MAX_APPEND_ATTEMPTS \<le> k"
      by (auto simp: committed_after_failure_def)
    then show ?thesis
    proof cases
      case there
      then have "recorded run ty data st1" using is_workflow_fact_recorded by (simp add: committed_after_failure_def)
      then show ?thesis using step Inl there g1 reads by simp
    next
      case again
      show ?thesis
      proof (cases "load_workflow sha run st1")
        case (Inl e')
        then show ?thesis using step \<open>q = Inl e\<close> again g1 reads by (auto split: if_splits)
      next
        case (Inr p)
        then have again_run: "append_attempt sha dr others run ty data (Suc k) (wp_head_seq p) st1 = (st', r)"
          using step \<open>q = Inl e\<close> again reads by (simp split: if_splits)
        have "MAX_APPEND_ATTEMPTS - Suc k < MAX_APPEND_ATTEMPTS - k" using again(3) by simp
        from less.hyps[OF this grows_to_clean[OF g1] again_run] show ?thesis using grows_to_trans[OF g1] by blast
      qed
    next
      case stop
      then show ?thesis using step Inl g1 reads by (auto split: if_splits)
    qed
  qed
qed

section \<open>What a recorded fact does to the view\<close>

lemma load_workflow_Inr:
  assumes "clean_store st"
  shows "load_workflow sha run st = Inr p \<longleftrightarrow> rebuild_workflow sha run (stream_of st (lit ''workflow:'' @ run)) = Inr p"
proof -
  have "read_events st sid 1 = stream_of st sid" for sid using assms by (simp add: clean_store_def read_events_all)
  then show ?thesis by (auto simp: load_workflow_def workflow_stream_id_def result_simps rebuild_workflow_Inr)
qed

lemma scan_workflow_fact:
  assumes "scan_workflow sha run sid s ev = Inr s'"
  shows "ws_terminal s = None" "\<exists>d. ev_data ev = JDict d \<and>
    apply_workflow_fact sha run (ev_type ev) d (ws_expected_seq s) (s\<lparr>ws_expected_seq := ws_expected_seq s + 1\<rparr>) = Inr s'"
  using assms unfolding scan_workflow_def
  by (auto simp: result_simps dest!: workflow_event_header_Inr split: if_splits option.splits)

lemma recorded_applied:
  assumes st: "clean_store st" and rec: "recorded run ty data st" and load: "load_workflow sha run st = Inr p"
    and json: "json_ok (JDict data)"
  shows "\<exists>es fs s d s'. stream_of st (lit ''workflow:'' @ run) = es @ fs \<and> rebuild_workflow sha run es = Inr (make_projection run s') \<and>
    apply_workflow_fact sha run (lit ty) d (ws_expected_seq s) (s\<lparr>ws_expected_seq := ws_expected_seq s + 1\<rparr>) = Inr s' \<and>
    (\<forall>k x. jget data k = JStr x \<longrightarrow> jget d k = JStr x)"
proof -
  let ?sid = "lit ''workflow:'' @ run" and ?f = "scan_workflow sha run (lit ''workflow:'' @ run)"
  obtain e where e: "e \<in> set (stream_of st ?sid)" "ev_type e = lit ty" "canonical_json (ev_data e) = canonical_json (JDict data)"
    using rec by (auto simp: recorded_def)
  obtain es fs where split: "stream_of st ?sid = es @ e # fs" using e(1) by (meson split_list)
  have "rebuild_workflow sha run ((es @ [e]) @ fs) = Inr p" using load split by (simp add: load_workflow_Inr[OF st])
  then obtain p1 where p1: "rebuild_workflow sha run (es @ [e]) = Inr p1" using rebuild_workflow_prefix by blast
  then obtain s s' where s: "?f s e = Inr s'" "p1 = make_projection run s'"
    by (auto simp: rebuild_workflow_Inr foldM_append result_simps)
  obtain d where d: "ev_data e = JDict d"
    "apply_workflow_fact sha run (lit ty) d (ws_expected_seq s) (s\<lparr>ws_expected_seq := ws_expected_seq s + 1\<rparr>) = Inr s'"
    using scan_workflow_fact(2)[OF s(1)] e(2) by auto
  have json_d: "json_ok (JDict d)" using st e(1) d(1) unfolding clean_store_def by metis
  have "jget d k = JStr x" if x: "jget data k = JStr x" for k x
  proof -
    have "map_option sort_keys (map_of d (lit k)) = map_option sort_keys (map_of data (lit k))"
      using canonical_dict_get[OF json_d json] e(3) d(1) by simp
    moreover have "map_of data (lit k) = Some (JStr x)" using x by (auto simp: jget_def split: option.splits)
    ultimately obtain v where v: "map_of d (lit k) = Some v" "sort_keys v = JStr x" by auto
    then have "v = JStr x" by (cases v) auto
    then show ?thesis using v(1) by (simp add: jget_def)
  qed
  then have "\<forall>k x. jget data k = JStr x \<longrightarrow> jget d k = JStr x" by simp
  moreover have "stream_of st ?sid = (es @ [e]) @ fs" using split by simp
  ultimately show ?thesis using p1 d(2) unfolding s(2) by (intro exI conjI)
qed

lemma apply_started_fact:
  "apply_workflow_fact sha run (lit WORKFLOW_NODE_STARTED) d q s = Inr s' \<Longrightarrow> apply_node_started d q s = Inr s'"
  by (simp add: apply_workflow_fact_def split: if_splits)

lemma apply_finished_fact:
  "apply_workflow_fact sha run (lit WORKFLOW_RUN_FINISHED) d q s = Inr s' \<Longrightarrow> apply_run_finished d q s = Inr s'"
  by (simp add: apply_workflow_fact_def split: if_splits)

lemma apply_node_started_status:
  assumes "apply_node_started d q s = Inr s'" "jget d ''node_id'' = JStr name"
  shows "status_of (make_projection run s') name = Node_Running"
proof -
  obtain kind key where "s' = s\<lparr>ws_nodes := dict_set name (started_node name kind key) (ws_nodes s)\<rparr>"
    using assms by (auto simp: apply_node_started_def result_simps split: if_splits)
  then show ?thesis by (simp add: status_of_def started_node_def)
qed

lemma apply_run_finished_terminal:
  assumes "apply_run_finished d q s = Inr s'"
  obtains status where "status \<in> set terminal_statuses" "ws_terminal s' = Some status"
  using assms by (auto simp: apply_run_finished_def result_simps split: if_splits)

lemma orchestrates_status:
  assumes "orchestrates\<^sup>*\<^sup>* a b" "or_status a n \<noteq> Node_Pending"
  shows "or_status b n \<noteq> Node_Pending"
  using assms
proof (induction rule: rtranclp_induct)
  case (step b c)
  from step(2) show ?case using step(3)[OF step(4)] by (cases rule: orchestrates.cases) auto
qed simp

lemma node_started_data_Inr:
  "node_started_data name kind key = Inr data \<Longrightarrow> jget data ''node_id'' = JStr name \<and> json_ok (JDict data)"
  by (cases key) (auto simp: node_started_data_def optional_identifier_Inr result_simps)

lemma run_finished_data_ok: "run_finished_data status code = Inr data \<Longrightarrow> json_ok (JDict data)"
  by (auto simp: run_finished_data_def result_simps split: if_splits option.splits)

lemma status_stays:
  assumes "rebuild_workflow sha run (es @ fs) = Inr p'" "rebuild_workflow sha run es = Inr p"
  shows "status_of p n \<noteq> Node_Pending \<Longrightarrow> status_of p' n \<noteq> Node_Pending"
    and "map_of (wp_expansions p) m = Some e \<Longrightarrow> map_of (wp_expansions p') m = Some e"
proof -
  have steps: "orchestrates\<^sup>*\<^sup>* (abstract_run p) (abstract_run p')" "settled_kept p p'"
    using rebuild_workflow_prefix[OF assms(1)] assms(2) by auto
  show "status_of p n \<noteq> Node_Pending \<Longrightarrow> status_of p' n \<noteq> Node_Pending"
    using orchestrates_status[OF steps(1), of n] by simp
  show "map_of (wp_expansions p) m = Some e \<Longrightarrow> map_of (wp_expansions p') m = Some e"
    using steps(2) by (simp add: settled_kept_def)
qed

lemma started_not_waiting:
  assumes st: "clean_store st" and rec: "recorded run WORKFLOW_NODE_STARTED data st" and load: "load_workflow sha run st = Inr p"
    and data: "node_started_data name kind key = Inr data"
  shows "status_of p name \<noteq> Node_Pending"
proof -
  note D = node_started_data_Inr[OF data]
  obtain es fs s d s' where a: "stream_of st (lit ''workflow:'' @ run) = es @ fs" "rebuild_workflow sha run es = Inr (make_projection run s')"
    "apply_workflow_fact sha run (lit WORKFLOW_NODE_STARTED) d (ws_expected_seq s) (s\<lparr>ws_expected_seq := ws_expected_seq s + 1\<rparr>) = Inr s'"
    "\<forall>k x. jget data k = JStr x \<longrightarrow> jget d k = JStr x"
    using recorded_applied[OF st rec load conjunct2[OF D]] by (elim exE conjE) (rule that)
  have "status_of (make_projection run s') name = Node_Running"
    using apply_started_fact[OF a(3)] a(4)[rule_format, OF conjunct1[OF D]] by (rule apply_node_started_status)
  moreover have "rebuild_workflow sha run (es @ fs) = Inr p" using load a(1) by (simp add: load_workflow_Inr[OF st])
  ultimately show ?thesis using status_stays(1)[OF _ a(2), of fs p name] by simp
qed

lemma finished_is_last:
  assumes st: "clean_store st" and rec: "recorded run WORKFLOW_RUN_FINISHED data st" and load: "load_workflow sha run st = Inr p"
    and json: "json_ok (JDict data)"
  shows "\<exists>status \<in> set terminal_statuses. wp_terminal p = Some status"
proof -
  obtain es fs s d s' where a: "stream_of st (lit ''workflow:'' @ run) = es @ fs" "rebuild_workflow sha run es = Inr (make_projection run s')"
    "apply_workflow_fact sha run (lit WORKFLOW_RUN_FINISHED) d (ws_expected_seq s) (s\<lparr>ws_expected_seq := ws_expected_seq s + 1\<rparr>) = Inr s'"
    using recorded_applied[OF st rec load json] by (elim exE conjE) (rule that)
  obtain status where status: "status \<in> set terminal_statuses" "wp_terminal (make_projection run s') = Some status"
    using apply_run_finished_terminal[OF apply_finished_fact[OF a(3)]] by auto
  have "rebuild_workflow sha run (es @ fs) = Inr p" using load a(1) by (simp add: load_workflow_Inr[OF st])
  moreover from finished_run_is_last[OF this a(2)] status have "fs = []" by auto
  ultimately have "p = make_projection run s'" using a(2) by simp
  then show ?thesis using status by auto
qed

end
