(* ===== verification/Workflow_Rounds.thy ===== *)
theory Workflow_Rounds imports Workflow_Advance begin

text \<open>
  Why the loop of the coordinator (workflow/service.py) returns: the work left in a run is the
  number of maps that may still expand, and then the number of known nodes that have not started.
  It never grows, and a round of ready nodes takes some of it away.
\<close>

section \<open>The children of a map are derived from it\<close>

definition derived_children :: "(pystr \<Rightarrow> pystr) \<Rightarrow> workflow_scan \<Rightarrow> bool" where
  "derived_children sha s \<longleftrightarrow> (\<forall>n e. map_of (ws_expansions s) n = Some e \<longrightarrow>
     list_all2 (\<lambda>k c. map_child_node_id sha n k = Inr c) (me_map_keys e) (me_child_node_ids e))"

lemma derived_children_step:
  assumes inv: "derived_children sha s" and step: "scan_workflow sha run sid s ev = Inr s'"
  shows "derived_children sha s'"
proof -
  obtain ty d where f: "apply_workflow_fact sha run ty d (ws_expected_seq s) (s\<lparr>ws_expected_seq := ws_expected_seq s + 1\<rparr>) = Inr s'"
    using scan_workflow_Inr[OF step] by blast
  from f show ?thesis
  proof (cases rule: apply_workflow_fact_cases)
    case (map_expanded n st keys children ck)
    have "list_all2 (\<lambda>k c. map_child_node_id sha m k = Inr c) (me_map_keys e) (me_child_node_ids e)"
      if "map_of (ws_expansions s') m = Some e" for m e
      using that map_expanded(10,12) inv by (cases "m = n") (auto simp: derived_children_def)
    then show ?thesis by (simp add: derived_children_def)
  qed (use inv in \<open>auto simp: derived_children_def\<close>)
qed

interpretation expansions: replay "scan_workflow sha run sid" empty_workflow_scan "derived_children sha" for sha run sid
  by unfold_locales (simp add: derived_children_def empty_workflow_scan_def, rule derived_children_step)

lemma rebuilt_children:
  assumes "rebuild_workflow sha run es = Inr p" "map_of (wp_expansions p) n = Some e"
  shows "list_all2 (\<lambda>k c. map_child_node_id sha n k = Inr c) (me_map_keys e) (me_child_node_ids e)"
proof -
  obtain s where s: "foldM (scan_workflow sha run (lit ''workflow:'' @ run)) empty_workflow_scan es = Inr s" "p = make_projection run s"
    using assms(1) by (auto simp: rebuild_workflow_Inr)
  show ?thesis using expansions.run_inv[OF s(1)] assms(2) s(2) by (simp add: derived_children_def)
qed

section \<open>The work left in a run\<close>

definition declared_ids :: "workflow_definition \<Rightarrow> pystr set" where
  "declared_ids d = node_id ` set (wd_nodes d)"

definition known_ids :: "workflow_definition \<Rightarrow> workflow_projection \<Rightarrow> pystr set" where
  "known_ids d p = declared_ids d \<union> (\<Union>n \<in> declared_ids d. case map_of (wp_expansions p) n of None \<Rightarrow> {} | Some e \<Rightarrow> set (me_child_node_ids e))"

definition unexpanded :: "workflow_definition \<Rightarrow> workflow_projection \<Rightarrow> pystr set" where
  "unexpanded d p = {n \<in> declared_ids d. \<not> dict_has n (wp_expansions p)}"

definition waiting_ids :: "workflow_definition \<Rightarrow> workflow_projection \<Rightarrow> pystr set" where
  "waiting_ids d p = {n \<in> known_ids d p. status_of p n = Node_Pending}"

definition work_order :: "workflow_definition \<Rightarrow> (workflow_projection \<times> workflow_projection) set" where
  "work_order d = inv_image (less_than <*lex*> less_than) (\<lambda>p. (card (unexpanded d p), card (waiting_ids d p)))"

lemma work_order_wf: "wf (work_order d)"
  unfolding work_order_def by (intro wf_inv_image wf_lex_prod wf_less_than)

lemma finite_work: "finite (unexpanded d p)" "finite (waiting_ids d p)"
proof -
  have "finite (declared_ids d)" by (simp add: declared_ids_def)
  moreover from this have "finite (known_ids d p)" by (simp add: known_ids_def split: option.split)
  ultimately show "finite (unexpanded d p)" "finite (waiting_ids d p)" by (simp_all add: unexpanded_def waiting_ids_def)
qed

definition later :: "(pystr \<Rightarrow> pystr) \<Rightarrow> pystr \<Rightarrow> workflow_projection \<Rightarrow> workflow_projection \<Rightarrow> bool" where
  "later sha run p p' \<longleftrightarrow> (\<exists>es fs. rebuild_workflow sha run es = Inr p \<and> rebuild_workflow sha run (es @ fs) = Inr p')"

lemma work_shrinks:
  assumes later: "later sha run p p'"
  shows "unexpanded d p' \<subseteq> unexpanded d p"
    and "unexpanded d p' = unexpanded d p \<Longrightarrow> waiting_ids d p' \<subseteq> waiting_ids d p"
proof -
  obtain es fs where r: "rebuild_workflow sha run (es @ fs) = Inr p'" "rebuild_workflow sha run es = Inr p"
    using later by (auto simp: later_def)
  note stays = status_stays[OF r]
  have kept: "dict_has m (wp_expansions p')" if "dict_has m (wp_expansions p)" for m
    using that stays(2) by (auto simp: dict_has_iff)
  then show "unexpanded d p' \<subseteq> unexpanded d p" by (auto simp: unexpanded_def)
  assume same: "unexpanded d p' = unexpanded d p"
  have "map_of (wp_expansions p') m = map_of (wp_expansions p) m" if m: "m \<in> declared_ids d" for m
  proof (cases "map_of (wp_expansions p) m")
    case None
    then have "m \<in> unexpanded d p" using m by (simp add: unexpanded_def dict_has_def)
    then have "m \<in> unexpanded d p'" using same by simp
    then show ?thesis using None by (simp add: unexpanded_def dict_has_def)
  qed (use stays(2) in simp)
  then have "known_ids d p' = known_ids d p" by (simp add: known_ids_def)
  then show "waiting_ids d p' \<subseteq> waiting_ids d p" using stays(1) by (auto simp: waiting_ids_def)
qed

lemma work_decreases:
  assumes later: "later sha run p p'" and n: "n \<in> waiting_ids d p" "status_of p' n \<noteq> Node_Pending"
  shows "(p', p) \<in> work_order d"
proof -
  have n': "n \<notin> waiting_ids d p'" using n(2) by (simp add: waiting_ids_def)
  show ?thesis
  proof (cases "unexpanded d p' = unexpanded d p")
    case True
    have "waiting_ids d p' \<subset> waiting_ids d p" using work_shrinks(2)[OF later True] n(1) n' by (metis psubsetI)
    then show ?thesis using True finite_work(2) by (simp add: work_order_def psubset_card_mono)
  next
    case False
    then have "unexpanded d p' \<subset> unexpanded d p" using work_shrinks(1)[OF later] by (simp add: psubset_eq)
    then show ?thesis using finite_work(1) by (simp add: work_order_def psubset_card_mono)
  qed
qed

lemma less_work_later:
  assumes later: "later sha run p p1" and less: "(p2, p1) \<in> work_order d"
  shows "(p2, p) \<in> work_order d"
proof (cases "unexpanded d p1 = unexpanded d p")
  case True
  have "card (waiting_ids d p1) \<le> card (waiting_ids d p)" using work_shrinks(2)[OF later True] finite_work(2) by (rule card_mono[rotated])
  then show ?thesis using less True by (auto simp: work_order_def)
next
  case False
  then have "unexpanded d p1 \<subset> unexpanded d p" using work_shrinks(1)[OF later] by (simp add: psubset_eq)
  then have "card (unexpanded d p1) < card (unexpanded d p)" using finite_work(1) by (rule psubset_card_mono[rotated])
  then show ?thesis using less by (auto simp: work_order_def)
qed

text \<open>Every node that is ready is known and has not started.\<close>

lemma ready_node_waits:
  assumes p: "rebuild_workflow sha run es = Inr p" and d: "distinct (map node_id (wd_nodes d))"
    and ready: "(node, key) \<in> set (ready_nodes d p)"
  shows "\<exists>name \<in> waiting_ids d p. effective_node_id sha node key = Inr name"
proof -
  consider (declared) "key = None" "node \<in> set (wd_nodes d)" "node_ready (index_of (wd_nodes d)) p node"
    | (child) m e where "(m, e) \<in> set (wp_expansions p)" "(node, key) \<in> set (ready_children (index_of (wd_nodes d)) p (m, e))"
    using ready by (auto simp: ready_nodes_def Let_def)
  then show ?thesis
  proof cases
    case declared
    then have "node_id node \<in> waiting_ids d p" by (auto simp: waiting_ids_def known_ids_def declared_ids_def node_ready_def)
    then show ?thesis using declared(1) by (simp add: effective_node_id_def)
  next
    case child
    have ok: "dict_ok (wp_expansions p)" using p workflow_invD(2)[OF workflow.run_inv] by (auto simp: rebuild_workflow_Inr)
    then have e: "map_of (wp_expansions p) m = Some e" using child(1) by (simp add: dict_ok_def)
    obtain k c where c: "map_of (index_of (wd_nodes d)) m = Some node" "key = Some k"
      "(k, c) \<in> set (zip (me_map_keys e) (me_child_node_ids e))" "status_of p c = Node_Pending"
      using child(2) by (auto simp: ready_children_def split: option.splits if_splits)
    have m: "m \<in> declared_ids d" "node_id node = m"
      using c(1) map_of_index_of[OF d, of m node] by (auto simp: declared_ids_def)
    have "map_child_node_id sha m k = Inr c" using rebuilt_children[OF p e] c(3) by (auto simp: list_all2_iff)
    moreover have "c \<in> waiting_ids d p"
      using c(4) m(1) e set_zip_rightD[OF c(3)] by (auto simp: waiting_ids_def known_ids_def intro!: bexI[of _ m])
    ultimately show ?thesis using c(2) m(2) by (auto simp: effective_node_id_def)
  qed
qed

section \<open>Steps that move a view forward\<close>

text \<open>
  A view was read somewhere between the store a round began with and the store as it is now. A
  step that moves keeps this: it only extends the store and answers with such a view.
\<close>

definition viewed :: "workflow_host \<Rightarrow> event_store \<Rightarrow> workflow_projection \<Rightarrow> event_store \<Rightarrow> bool" where
  "viewed h base p st \<longleftrightarrow> (\<exists>s. clean_store base \<and> grows_to base s \<and> load_workflow (wh_sha h) (wh_run_id h) s = Inr p \<and> grows_to s st)"

definition moves :: "workflow_host \<Rightarrow> ('a \<Rightarrow> workflow_projection) \<Rightarrow> (workflow_projection \<Rightarrow> (event_store, 'a) action) \<Rightarrow> bool" where
  "moves h view m \<longleftrightarrow> (\<forall>base p st. viewed h base p st \<longrightarrow> (case m p st of (st', r) \<Rightarrow>
     grows_to st st' \<and> (case r of Inl e \<Rightarrow> True | Inr x \<Rightarrow> viewed h base (view x) st')))"

lemma viewed_clean: "viewed h base p st \<Longrightarrow> clean_store st"
  by (auto simp: viewed_def grows_to_def)

lemma viewed_grows: "viewed h base p st \<Longrightarrow> grows_to st st' \<Longrightarrow> viewed h base p st'"
  unfolding viewed_def using grows_to_trans by blast

lemma viewed_self: "clean_store st \<Longrightarrow> load_workflow (wh_sha h) (wh_run_id h) st = Inr p \<Longrightarrow> viewed h st p st"
  unfolding viewed_def using grows_to_refl by blast

lemma viewed_later:
  assumes "viewed h base p' st" "load_workflow (wh_sha h) (wh_run_id h) base = Inr p"
  shows "later (wh_sha h) (wh_run_id h) p p'"
proof -
  let ?sid = "lit ''workflow:'' @ wh_run_id h"
  obtain s where s: "clean_store base" "grows_to base s" "load_workflow (wh_sha h) (wh_run_id h) s = Inr p'"
    using assms(1) by (auto simp: viewed_def)
  obtain fs where "stream_of s ?sid = stream_of base ?sid @ fs" using s(2) by (auto simp: grows_to_def extends_def)
  then show ?thesis
    using assms(2) s(1,3) grows_to_clean[OF s(2)] unfolding later_def load_workflow_Inr[OF s(1)] load_workflow_Inr[OF grows_to_clean[OF s(2)]]
    by (intro exI[of _ "stream_of base ?sid"] exI[of _ fs]) simp
qed

lemma movesD:
  assumes "moves h view m" "viewed h base p st" "m p st = (st', r)"
  shows "grows_to st st'" "r = Inr x \<Longrightarrow> viewed h base (view x) st'"
  using assms unfolding moves_def by (force)+

lemma moves_return: "view x = p \<Longrightarrow> viewed h base p st \<Longrightarrow> grows_to st st \<and> viewed h base (view x) st"
  by (simp add: grows_to_refl viewed_clean)

lemma moves_pure:
  assumes "\<And>p x. f p = Inr x \<Longrightarrow> view x = p"
  shows "moves h view (\<lambda>p. lift_result (f p))"
  unfolding moves_def lift_result_def using assms by (auto simp: grows_to_refl viewed_clean split: sum.split)

lemma moves_fail [simp]: "moves h view (\<lambda>p. lift_result (Inl (e p)))"
  by (rule moves_pure) simp

lemma moves_bind:
  assumes m: "moves h view1 m" and f: "\<And>x. moves h view2 (f x)"
  shows "moves h view2 (\<lambda>p. abind (m p) (\<lambda>x. f x (view1 x)))"
  unfolding moves_def
proof (intro allI impI)
  fix base p st assume v: "viewed h base p st"
  obtain st1 r where 1: "m p st = (st1, r)" by (cases "m p st")
  note M = movesD[OF m v 1]
  show "case abind (m p) (\<lambda>x. f x (view1 x)) st of (st', r) \<Rightarrow>
      grows_to st st' \<and> (case r of Inl e \<Rightarrow> True | Inr x \<Rightarrow> viewed h base (view2 x) st')"
  proof (cases r)
    case (Inr x)
    obtain st2 q where 2: "f x (view1 x) st1 = (st2, q)" by (cases "f x (view1 x) st1")
    note F = movesD[OF f M(2)[OF Inr] 2]
    show ?thesis using 1 2 Inr grows_to_trans[OF M(1) F(1)] F(2) by (auto simp: abind_def split: sum.split)
  qed (use 1 M(1) in \<open>simp add: abind_def\<close>)
qed

lemma moves_lift:
  assumes "\<And>x. r = Inr x \<Longrightarrow> moves h view (f x)"
  shows "moves h view (\<lambda>p. abind (lift_result r) (\<lambda>x. f x p))"
  using assms by (cases r) (simp_all add: moves_def abind_def lift_result_def grows_to_refl viewed_clean)

lemma moves_execute:
  assumes "\<And>p. growing (g p)" "\<And>x. moves h view (f x)"
  shows "moves h view (\<lambda>p. abind (g p) (\<lambda>x. f x p))"
  unfolding moves_def
proof (intro allI impI)
  fix base p st assume v: "viewed h base p st"
  obtain st1 r where 1: "g p st = (st1, r)" by (cases "g p st")
  have g: "grows_to st st1" using growingD[OF assms(1) viewed_clean[OF v] 1] .
  show "case abind (g p) (\<lambda>x. f x p) st of (st', r) \<Rightarrow> grows_to st st' \<and> (case r of Inl e \<Rightarrow> True | Inr x \<Rightarrow> viewed h base (view x) st')"
  proof (cases r)
    case (Inr x)
    obtain st2 q where 2: "f x p st1 = (st2, q)" by (cases "f x p st1")
    note F = movesD[OF assms(2) viewed_grows[OF v g] 2]
    show ?thesis using 1 2 Inr grows_to_trans[OF g F(1)] F(2) by (auto simp: abind_def split: sum.split)
  qed (use 1 g in \<open>simp add: abind_def\<close>)
qed

lemma moves_then:
  assumes "moves h (\<lambda>p. p) m" "moves h view f"
  shows "moves h view (\<lambda>p. abind (m p) f)"
  using moves_bind[where f = "\<lambda>_. f", OF assms(1)] assms(2) by simp

section \<open>The steps of the coordinator\<close>

lemma append_reload_effect:
  assumes others: "interferes (wh_others h)" and json: "\<forall>d. data = Inr d \<longrightarrow> json_ok (JDict d)"
    and st: "clean_store st" and run: "append_reload h ty data p st = (st', r)"
  shows "grows_to st st'" "r = Inr p' \<Longrightarrow> \<exists>d. data = Inr d \<and> recorded (wh_run_id h) ty d st' \<and> load_workflow (wh_sha h) (wh_run_id h) st' = Inr p'"
proof -
  have "grows_to st st' \<and> (\<forall>p'. r = Inr p' \<longrightarrow> (\<exists>d. data = Inr d \<and> recorded (wh_run_id h) ty d st' \<and>
      load_workflow (wh_sha h) (wh_run_id h) st' = Inr p'))"
  proof (cases data)
    case (Inl e)
    then show ?thesis using run grows_to_refl[OF st] by (auto simp: append_reload_def)
  next
    case (Inr d)
    obtain st1 q where a: "append_workflow h (wp_head_seq p) ty d st = (st1, q)" by (cases "append_workflow h (wp_head_seq p) ty d st")
    note A = append_attempt_effect[OF others json[rule_format, OF Inr] st a[unfolded append_workflow_def]]
    have "append_reload h ty data p st = (case q of Inl e \<Rightarrow> (st1, Inl e) | Inr _ \<Rightarrow> (st1, load_workflow (wh_sha h) (wh_run_id h) st1))"
      using a Inr by (cases q) (simp_all add: append_reload_def abind_result reading_def)
    then show ?thesis using A Inr run by (cases q) auto
  qed
  then show "grows_to st st'" "r = Inr p' \<Longrightarrow> \<exists>d. data = Inr d \<and> recorded (wh_run_id h) ty d st' \<and> load_workflow (wh_sha h) (wh_run_id h) st' = Inr p'"
    by auto
qed

lemma append_reload_moves:
  assumes others: "interferes (wh_others h)" and json: "\<forall>d. data = Inr d \<longrightarrow> json_ok (JDict d)"
  shows "moves h (\<lambda>p. p) (append_reload h ty data)"
  unfolding moves_def
proof (intro allI impI)
  fix base p st assume v: "viewed h base p st"
  obtain st1 r where 1: "append_reload h ty data p st = (st1, r)" by (cases "append_reload h ty data p st")
  note E = append_reload_effect[OF others json viewed_clean[OF v] 1]
  have "viewed h base p' st1" if "r = Inr p'" for p'
    using E(1) E(2)[OF that] v grows_to_trans grows_to_refl grows_to_clean unfolding viewed_def by blast
  then show "case append_reload h ty data p st of (st', r) \<Rightarrow> grows_to st st' \<and> (case r of Inl e \<Rightarrow> True | Inr x \<Rightarrow> viewed h base x st')"
    using 1 E(1) by (simp split: sum.split)
qed

lemma payloads_ok:
  "node_failed_data name kind key code = Inr data \<Longrightarrow> json_ok (JDict data)"
  "approval_awaited_data name review = Inr data \<Longrightarrow> json_ok (JDict data)"
  "map_expanded_data sha name keys = Inr data \<Longrightarrow> json_ok (JDict data)"
  "node_completed_data name kind key ev = Inr data \<Longrightarrow> json_ok (JDict data)"
  "run_started_data run i digest = Inr data \<Longrightarrow> json_ok (JDict data)"
proof -
  have opt: "json_ok (json_opt x)" for x by (cases x) simp_all
  have strs: "list_all json_ok (map JStr xs)" for xs by (simp add: list_all_iff)
  show "node_failed_data name kind key code = Inr data \<Longrightarrow> json_ok (JDict data)"
    using opt by (auto simp: node_failed_data_def optional_identifier_Inr result_simps)
  show "approval_awaited_data name review = Inr data \<Longrightarrow> json_ok (JDict data)"
    by (auto simp: approval_awaited_data_def result_simps)
  show "map_expanded_data sha name keys = Inr data \<Longrightarrow> json_ok (JDict data)"
    using strs by (auto simp: map_expanded_data_def result_simps split: if_splits)
  show "node_completed_data name kind key ev = Inr data \<Longrightarrow> json_ok (JDict data)"
    using opt by (auto simp: node_completed_data_Inr)
  show "run_started_data run i digest = Inr data \<Longrightarrow> json_ok (JDict data)"
    by (auto simp: run_started_data_def result_simps)
qed

definition sound_executor :: "executor \<Rightarrow> bool" where
  "sound_executor exec \<longleftrightarrow> (\<forall>node key p. growing (exec node key p)) \<and>
     (\<forall>node key p st st' x data. exec node key p st = (st', Inr x) \<longrightarrow> nx_completed x = Some data \<longrightarrow> json_ok (JDict data))"

lemma sound_executorD:
  assumes "sound_executor exec"
  shows "growing (exec node key p)" "exec node key p st = (st', Inr x) \<Longrightarrow> nx_completed x = Some data \<Longrightarrow> json_ok (JDict data)"
  using assms unfolding sound_executor_def by blast+

lemma start_nodes_moves:
  assumes others: "interferes (wh_others h)"
  shows "moves h (\<lambda>p. p) (start_nodes h ready)"
proof (induction ready)
  case Nil
  then show ?case using moves_pure[of "\<lambda>p. Inr p" "\<lambda>p. p" h] by (simp add: fun_eq_iff moves_def)
next
  case (Cons nk ready)
  obtain node key where nk: "nk = (node, key)" by (cases nk)
  have "moves h (\<lambda>p. p) (\<lambda>p. abind (append_reload h WORKFLOW_NODE_STARTED (node_started_data name (node_kind node) key) p) (start_nodes h ready))" for name
    using node_started_data_Inr by (intro moves_then[OF append_reload_moves[OF others] Cons.IH]) blast
  then have "moves h (\<lambda>p. p) (\<lambda>p. abind (lift_result (effective_node_id (wh_sha h) node key)) (\<lambda>name.
      abind (append_reload h WORKFLOW_NODE_STARTED (node_started_data name (node_kind node) key) p) (start_nodes h ready)))"
    by (rule moves_lift)
  then show ?case by (simp add: moves_def nk)
qed

lemma finish_run_moves: "interferes (wh_others h) \<Longrightarrow> moves h (\<lambda>p. p) (finish_run_of h)"
  using append_reload_moves[of h "run_finished_data status code" WORKFLOW_RUN_FINISHED for status code] run_finished_data_ok
  unfolding moves_def finish_run_of_def Let_def by simp

lemma recheck_moves:
  assumes others: "interferes (wh_others h)" and exec: "sound_executor exec"
  shows "moves h (\<lambda>p. p) (recheck_approvals h exec by_id names)"
proof (induction names)
  case Nil
  then show ?case using moves_pure[of "\<lambda>p. Inr p" "\<lambda>p. p" h] by (simp add: moves_def)
next
  case (Cons name names)
  show ?case
  proof (cases "map_of by_id name")
    case None
    then show ?thesis using moves_fail[of h "\<lambda>p. p"] by (simp add: moves_def)
  next
    case (Some node)
    let ?f = "\<lambda>x p. if nx_awaiting_review_id x \<noteq> None then recheck_approvals h exec by_id names p
      else case nx_completed x of None \<Rightarrow> lift_result (Inl PyAssertionError)
        | Some data \<Rightarrow> abind (append_reload h WORKFLOW_NODE_COMPLETED (Inr data) p) (recheck_approvals h exec by_id names)"
    have "moves h (\<lambda>p. p) (recheck_approvals h exec by_id (name # names))"
      unfolding moves_def
    proof (intro allI impI)
      fix base p st assume v: "viewed h base p st"
      obtain st1 r where 1: "exec node None p st = (st1, r)" by (cases "exec node None p st")
      have g: "grows_to st st1" using growingD[OF sound_executorD(1)[OF exec] viewed_clean[OF v] 1] .
      have unfold: "recheck_approvals h exec by_id (name # names) p st = (case r of Inl e \<Rightarrow> (st1, Inl e) | Inr x \<Rightarrow> ?f x p st1)"
        unfolding recheck_approvals.simps Some option.case abind_result[of "exec node None p" st, OF 1] ..
      show "case recheck_approvals h exec by_id (name # names) p st of (st', r) \<Rightarrow>
          grows_to st st' \<and> (case r of Inl e \<Rightarrow> True | Inr x \<Rightarrow> viewed h base x st')"
      proof (cases r)
        case (Inr x)
        have "moves h (\<lambda>p. p) (?f x)"
        proof (cases "nx_awaiting_review_id x \<noteq> None")
          case True
          then show ?thesis using Cons.IH by (simp add: moves_def)
        next
          case False
          show ?thesis
          proof (cases "nx_completed x")
            case None
            then show ?thesis using False moves_fail[of h "\<lambda>p. p"] by (simp add: moves_def)
          next
            case (Some data)
            have "\<forall>d. Inr data = (Inr d :: payload result) \<longrightarrow> json_ok (JDict d)"
              using sound_executorD(2)[OF exec 1[unfolded Inr] Some] by simp
            from moves_then[OF append_reload_moves[OF others this] Cons.IH] show ?thesis using False Some by simp
          qed
        qed
        from movesD[OF this viewed_grows[OF v g]] show ?thesis
          unfolding unfold Inr sum.case using grows_to_trans[OF g] by (cases "?f x p st1") (simp split: sum.split)
      qed (use unfold g in simp)
    qed
    then show ?thesis .
  qed
qed

lemma execute_ready_grows:
  assumes "sound_executor exec" "clean_store st" "execute_ready exec p ready st = (st', outcomes)"
  shows "grows_to st st' \<and> (\<forall>x data. Inr x \<in> set outcomes \<longrightarrow> nx_completed x = Some data \<longrightarrow> json_ok (JDict data))"
  using assms(2,3)
proof (induction ready arbitrary: st st' outcomes)
  case Nil
  then show ?case using grows_to_refl by auto
next
  case (Cons nk ready)
  obtain node key where nk: "nk = (node, key)" by (cases nk)
  obtain st1 r where 1: "exec node key p st = (st1, r)" by (cases "exec node key p st")
  obtain st2 rs where 2: "execute_ready exec p ready st1 = (st2, rs)" by (cases "execute_ready exec p ready st1")
  have g: "grows_to st st1" using growingD[OF sound_executorD(1)[OF assms(1)] Cons.prems(1) 1] .
  have eq: "st' = st2" "outcomes = r # rs" using Cons.prems(2) 1 2 nk by simp_all
  note IH = Cons.IH[OF grows_to_clean[OF g] 2]
  have head: "json_ok (JDict data)" if "r = Inr x" "nx_completed x = Some data" for x data
    using sound_executorD(2)[OF assms(1) 1[unfolded that(1)] that(2)] .
  show ?case using IH grows_to_trans[OF g] head unfolding eq by (metis set_ConsD)
qed

lemma record_outcomes_moves:
  assumes others: "interferes (wh_others h)"
    and json: "\<forall>nk x data. (nk, Inr x) \<in> set outcomes \<longrightarrow> nx_completed x = Some data \<longrightarrow> json_ok (JDict data)"
  shows "moves h fst (record_outcomes h outcomes failures)"
  using json
proof (induction outcomes arbitrary: failures)
  case Nil
  then show ?case using moves_pure[of "\<lambda>p. Inr (p, failures)" fst h] by (simp add: moves_def)
next
  case (Cons o1 outcomes)
  obtain node key r where o1: "o1 = ((node, key), r)" by (cases o1) auto
  have tail: "\<forall>nk x data. (nk, Inr x) \<in> set outcomes \<longrightarrow> nx_completed x = Some data \<longrightarrow> json_ok (JDict data)"
    using Cons.prems by simp
  note IH = Cons.IH[OF tail]
  note written = moves_then[OF append_reload_moves[OF others] IH]
  let ?f = "\<lambda>name p. case r of
      Inl error \<Rightarrow> (if error = PyCancelledError then record_outcomes h outcomes (failures @ [error]) p
         else abind (append_reload h WORKFLOW_NODE_FAILED (node_failed_data name (node_kind node) key (safe_code (exn_code error))) p)
           (record_outcomes h outcomes (failures @ [error])))
    | Inr x \<Rightarrow> (case nx_awaiting_review_id x of
         Some review \<Rightarrow> abind (append_reload h WORKFLOW_APPROVAL_AWAITED (approval_awaited_data name review) p) (record_outcomes h outcomes failures)
       | None \<Rightarrow> abind (if nx_map_keys x \<noteq> [] then append_reload h WORKFLOW_MAP_EXPANDED (map_expanded_data (wh_sha h) name (nx_map_keys x)) p
             else lift_result (Inr p)) (\<lambda>p. case nx_completed x of
               None \<Rightarrow> lift_result (Inl PyAssertionError)
             | Some data \<Rightarrow> abind (append_reload h WORKFLOW_NODE_COMPLETED (Inr data) p) (record_outcomes h outcomes failures)))"
  have "moves h fst (?f name)" for name
  proof (cases r)
    case (Inl e)
    show ?thesis
    proof (cases "e = PyCancelledError")
      case True
      then show ?thesis using Inl IH by (simp add: moves_def)
    next
      case False
      have "moves h fst (\<lambda>p. abind (append_reload h WORKFLOW_NODE_FAILED (node_failed_data name (node_kind node) key (safe_code (exn_code e))) p)
          (record_outcomes h outcomes (failures @ [e])))"
        by (rule written) (blast intro: payloads_ok(1))
      then show ?thesis using Inl False by simp
    qed
  next
    case (Inr x)
    show ?thesis
    proof (cases "nx_awaiting_review_id x")
      case (Some review)
      have "moves h fst (\<lambda>p. abind (append_reload h WORKFLOW_APPROVAL_AWAITED (approval_awaited_data name review) p) (record_outcomes h outcomes failures))"
        by (rule written) (blast intro: payloads_ok(2))
      then show ?thesis using Inr Some by simp
    next
      case None
      have "moves h (\<lambda>p. p) (\<lambda>p. if nx_map_keys x \<noteq> [] then append_reload h WORKFLOW_MAP_EXPANDED (map_expanded_data (wh_sha h) name (nx_map_keys x)) p
          else lift_result (Inr p))"
      proof (cases "nx_map_keys x \<noteq> []")
        case True
        have "moves h (\<lambda>p. p) (append_reload h WORKFLOW_MAP_EXPANDED (map_expanded_data (wh_sha h) name (nx_map_keys x)))"
          by (rule append_reload_moves[OF others]) (blast intro: payloads_ok(3))
        then show ?thesis using True by (simp add: moves_def)
      next
        case False
        then show ?thesis using moves_pure[of "\<lambda>p. Inr p" "\<lambda>p. p" h] by (simp add: moves_def)
      qed
      moreover have "moves h fst (\<lambda>p. case nx_completed x of None \<Rightarrow> lift_result (Inl PyAssertionError)
          | Some data \<Rightarrow> abind (append_reload h WORKFLOW_NODE_COMPLETED (Inr data) p) (record_outcomes h outcomes failures))"
      proof (cases "nx_completed x")
        case None
        then show ?thesis using moves_fail[of h fst] by simp
      next
        case (Some data)
        have "\<forall>d. Inr data = (Inr d :: payload result) \<longrightarrow> json_ok (JDict d)"
          using Cons.prems o1 Inr Some by auto
        from written[OF this] show ?thesis using Some by simp
      qed
      ultimately show ?thesis using Inr None moves_then by simp
    qed
  qed
  then have "moves h fst (\<lambda>p. abind (lift_result (effective_node_id (wh_sha h) node key)) (\<lambda>name. ?f name p))" by (rule moves_lift)
  then show ?case by (simp add: moves_def o1)
qed

end
