(* ===== verification/Workflow_Liveness.thy ===== *)
theory Workflow_Liveness imports Workflow_Rounds Workflow_Properties begin

text \<open>
  The loop of the coordinator (workflow/service.py) returns: a round of ready nodes leaves less
  work than it found, a finished run is reported at once, and so advancing a run ends with a
  finished run, a run that waits for a human or an error, whatever other writers append.
\<close>

section \<open>A round takes work away\<close>

lemma later_status: "later sha run p p' \<Longrightarrow> status_of p n \<noteq> Node_Pending \<Longrightarrow> status_of p' n \<noteq> Node_Pending"
  unfolding later_def using status_stays(1) by blast

lemma viewed_restart:
  assumes "viewed h base p st"
  obtains s where "viewed h s p st" "clean_store s" "load_workflow (wh_sha h) (wh_run_id h) s = Inr p"
proof -
  obtain s where s: "clean_store base" "grows_to base s" "load_workflow (wh_sha h) (wh_run_id h) s = Inr p" "grows_to s st"
    using assms by (auto simp: viewed_def)
  have "viewed h s p st" unfolding viewed_def using s(3,4) grows_to_clean[OF s(2)] grows_to_refl by blast
  then show ?thesis using that grows_to_clean[OF s(2)] s(3) by blast
qed

lemma start_nodes_first:
  assumes others: "interferes (wh_others h)" and v: "viewed h base p st"
    and run: "start_nodes h ((node, key) # ready) p st = (st', Inr p')"
    and name: "effective_node_id (wh_sha h) node key = Inr name"
  shows "status_of p' name \<noteq> Node_Pending"
proof -
  let ?data = "node_started_data name (node_kind node) key"
  obtain st1 q where 1: "append_reload h WORKFLOW_NODE_STARTED ?data p st = (st1, q)"
    by (cases "append_reload h WORKFLOW_NODE_STARTED ?data p st")
  have json: "\<forall>d. ?data = Inr d \<longrightarrow> json_ok (JDict d)" using node_started_data_Inr by blast
  note E = append_reload_effect[OF others json viewed_clean[OF v] 1]
  have "start_nodes h ((node, key) # ready) p st = (case q of Inl e \<Rightarrow> (st1, Inl e) | Inr p1 \<Rightarrow> start_nodes h ready p1 st1)"
    using name 1 by (simp add: abind_def lift_result_def split: sum.split)
  then obtain p1 where q: "q = Inr p1" and tail: "start_nodes h ready p1 st1 = (st', Inr p')"
    using run by (cases q) auto
  obtain d where d: "?data = Inr d" "recorded (wh_run_id h) WORKFLOW_NODE_STARTED d st1" "load_workflow (wh_sha h) (wh_run_id h) st1 = Inr p1"
    using E(2)[OF q] by (elim exE conjE) (rule that)
  have clean: "clean_store st1" using grows_to_clean[OF E(1)] .
  have started: "status_of p1 name \<noteq> Node_Pending" using started_not_waiting[OF clean d(2,3,1)] .
  have "viewed h st1 p' st'" using movesD(2)[OF start_nodes_moves[OF others] viewed_self[OF clean d(3)] tail refl] .
  then have "later (wh_sha h) (wh_run_id h) p1 p'" using d(3) by (rule viewed_later)
  then show ?thesis using started by (rule later_status)
qed

lemma run_ready_effect:
  assumes others: "interferes (wh_others h)" and exec: "sound_executor exec" and v: "viewed h base p st"
    and run: "run_ready h exec ready p st = (st', r)"
  shows "grows_to st st' \<and> (\<forall>p'. r = Inr p' \<longrightarrow> viewed h base p' st' \<and>
    (\<exists>s p1. start_nodes h ready p st = (s, Inr p1) \<and> later (wh_sha h) (wh_run_id h) p1 p'))"
proof -
  obtain st1 q where 1: "start_nodes h ready p st = (st1, q)" by (cases "start_nodes h ready p st")
  note M = movesD[OF start_nodes_moves[OF others] v 1]
  show ?thesis
  proof (cases q)
    case (Inl e)
    then show ?thesis using run 1 Inl M(1) by (auto simp: run_ready_def abind_def)
  next
    case (Inr p1)
    obtain st2 outcomes where 2: "execute_ready exec p1 ready st1 = (st2, outcomes)" by (cases "execute_ready exec p1 ready st1")
    have v1: "viewed h base p1 st1" using M(2)[OF Inr] .
    have X: "grows_to st1 st2" "\<forall>x data. Inr x \<in> set outcomes \<longrightarrow> nx_completed x = Some data \<longrightarrow> json_ok (JDict data)"
      using execute_ready_grows[OF exec viewed_clean[OF v1] 2] by (rule conjunct1, rule conjunct2)
    have json: "\<forall>nk x data. (nk, Inr x) \<in> set (zip ready outcomes) \<longrightarrow> nx_completed x = Some data \<longrightarrow> json_ok (JDict data)"
      using X(2) by (auto dest: set_zip_rightD)
    obtain st3 q3 where 3: "record_outcomes h (zip ready outcomes) [] p1 st2 = (st3, q3)" by (cases "record_outcomes h (zip ready outcomes) [] p1 st2")
    note rec = record_outcomes_moves[OF others json]
    note R = movesD[OF rec viewed_grows[OF v1 X(1)] 3]
    have g3: "grows_to st st3" using grows_to_trans[OF M(1) grows_to_trans[OF X(1) R(1)]] .
    have unfold: "run_ready h exec ready p st = (case q3 of Inl e \<Rightarrow> (st3, Inl e) | Inr (p', failures) \<Rightarrow>
        (if PyCancelledError \<in> set failures then (st3, Inl PyCancelledError)
         else if failures \<noteq> [] then report_failures h failures p' st3 else (st3, Inr p')))"
      using 1 2 3 Inr by (simp add: run_ready_def abind_def lift_result_def split: sum.split)
    show ?thesis
    proof (cases q3)
      case (Inl e)
      then show ?thesis using run unfold g3 by auto
    next
      case Inr3: (Inr pf)
      obtain p' failures where pf: "pf = (p', failures)" by (cases pf)
      have v3: "viewed h base p' st3" using R(2)[OF Inr3] pf by simp
      obtain s where s: "viewed h s p1 st1" "clean_store s" "load_workflow (wh_sha h) (wh_run_id h) s = Inr p1"
        using viewed_restart[OF v1] .
      have "viewed h s p' st3" using movesD(2)[OF rec viewed_grows[OF s(1) X(1)] 3 Inr3] pf by simp
      then have late: "later (wh_sha h) (wh_run_id h) p1 p'" using s(3) by (rule viewed_later)
      show ?thesis
      proof (cases "PyCancelledError \<notin> set failures \<and> failures \<noteq> []")
        case True
        obtain st4 q4 where 4: "finish_run_of h p' st3 = (st4, q4)" by (cases "finish_run_of h p' st3")
        have "grows_to st st4" using grows_to_trans[OF g3 movesD(1)[OF finish_run_moves[OF others] v3 4]] .
        then show ?thesis using run unfold Inr3 pf True 4 by (cases q4) (auto simp: report_failures_def Let_def)
      next
        case False
        then show ?thesis using run unfold Inr3 pf g3 v3 late 1 Inr by (auto split: if_splits)
      qed
    qed
  qed
qed

lemma run_ready_decreases:
  assumes others: "interferes (wh_others h)" and exec: "sound_executor exec" and v: "viewed h base p st"
    and d: "distinct (map node_id (wd_nodes d))" and ready: "ready_nodes d p \<noteq> []"
    and run: "run_ready h exec (ready_nodes d p) p st = (st', Inr p')"
  shows "(p', p) \<in> work_order d"
proof -
  obtain node key rest where r: "ready_nodes d p = (node, key) # rest" using ready by (cases "ready_nodes d p") auto
  obtain s where s: "viewed h s p st" "clean_store s" "load_workflow (wh_sha h) (wh_run_id h) s = Inr p"
    using viewed_restart[OF v] .
  note E = run_ready_effect[OF others exec s(1) run, THEN conjunct2, rule_format, OF refl]
  have late: "later (wh_sha h) (wh_run_id h) p p'" using conjunct1[OF E] s(3) by (rule viewed_later)
  obtain s1 p1 where start: "start_nodes h (ready_nodes d p) p st = (s1, Inr p1)" "later (wh_sha h) (wh_run_id h) p1 p'"
    using conjunct2[OF E] by (elim exE conjE) (rule that)
  have rebuilt: "rebuild_workflow (wh_sha h) (wh_run_id h) (stream_of s (lit ''workflow:'' @ wh_run_id h)) = Inr p"
    using s(3) by (simp add: load_workflow_Inr[OF s(2)])
  obtain name where name: "name \<in> waiting_ids d p" "effective_node_id (wh_sha h) node key = Inr name"
    using ready_node_waits[OF rebuilt d, of node key] r by auto
  have "status_of p1 name \<noteq> Node_Pending" using start_nodes_first[OF others v start(1)[unfolded r] name(2)] .
  then have "status_of p' name \<noteq> Node_Pending" by (rule later_status[OF start(2)])
  then show ?thesis by (rule work_decreases[OF late name(1)])
qed

section \<open>A finished run is reported\<close>

lemma finish_run_terminal:
  assumes others: "interferes (wh_others h)" and v: "viewed h base p st" and run: "finish_run_of h p st = (st', Inr p')"
  shows "\<exists>status \<in> set terminal_statuses. wp_terminal p' = Some status"
proof -
  obtain status code where c: "append_reload h WORKFLOW_RUN_FINISHED (run_finished_data status code) p st = (st', Inr p')"
    using run by (auto simp: finish_run_of_def Let_def)
  have json: "\<forall>d. run_finished_data status code = Inr d \<longrightarrow> json_ok (JDict d)" using run_finished_data_ok by blast
  note E = append_reload_effect[OF others json viewed_clean[OF v] c]
  obtain d where d: "run_finished_data status code = Inr d" "recorded (wh_run_id h) WORKFLOW_RUN_FINISHED d st'"
    "load_workflow (wh_sha h) (wh_run_id h) st' = Inr p'"
    using E(2)[OF refl] by (elim exE conjE) (rule that)
  show ?thesis using finished_is_last[OF grows_to_clean[OF E(1)] d(2,3)] run_finished_data_ok[OF d(1)] .
qed

lemma run_of_status:
  assumes "run_of sha p d = Inr run"
  shows "\<exists>status \<in> set terminal_statuses. wp_terminal p = Some status \<Longrightarrow> wr_status run = Workflow_Completed \<or> wr_status run = Workflow_Failed"
    and "wp_awaiting p \<noteq> [] \<Longrightarrow> wr_status run \<noteq> Workflow_Running"
  using assms by (auto simp: run_of_def result_simps terminal_statuses_def Let_def split: if_splits)

lemma run_loop_finished:
  assumes "\<exists>status \<in> set terminal_statuses. wp_terminal p = Some status"
  shows "run_loop h exec d p st = Some (st, run_of (wh_sha h) p d)"
  using run_of_status(1)[OF _ assms] by (subst run_loop.simps) (auto split: sum.split)

section \<open>The loop returns\<close>

definition ends_settled :: "event_store \<Rightarrow> (event_store \<times> workflow_run result) option \<Rightarrow> bool" where
  "ends_settled st result \<longleftrightarrow> (\<exists>st' r. result = Some (st', r) \<and> grows_to st st' \<and> (\<forall>run. r = Inr run \<longrightarrow> wr_status run \<noteq> Workflow_Running))"

lemma ends_settled_error [simp]: "ends_settled st (Some (st', Inl e)) \<longleftrightarrow> grows_to st st'"
  by (simp add: ends_settled_def)

lemma ends_settled_run [simp]: "ends_settled st (Some (st', Inr run)) \<longleftrightarrow> grows_to st st' \<and> wr_status run \<noteq> Workflow_Running"
  by (auto simp: ends_settled_def)

lemma ends_settled_grows: "grows_to st st1 \<Longrightarrow> ends_settled st1 result \<Longrightarrow> ends_settled st result"
  unfolding ends_settled_def using grows_to_trans by blast

lemma run_loop_ends:
  assumes others: "interferes (wh_others h)" and exec: "sound_executor exec" and d: "distinct (map node_id (wd_nodes d))"
    and v: "viewed h base p st"
  shows "ends_settled st (run_loop h exec d p st)"
  using v
proof (induction p arbitrary: base st rule: wf_induct_rule[OF work_order_wf[of d]])
  case (1 p)
  note v = "1.prems"
  note clean = viewed_clean[OF v]
  let ?ids = "index_of (wd_nodes d)"
  show ?case
  proof (cases "run_of (wh_sha h) p d")
    case (Inl e)
    then show ?thesis using grows_to_refl[OF clean] by (subst run_loop.simps) simp
  next
    case run: (Inr run)
    show ?thesis
    proof (cases "wr_status run = Workflow_Completed \<or> wr_status run = Workflow_Failed")
      case True
      then show ?thesis using run grows_to_refl[OF clean] by (subst run_loop.simps) auto
    next
      case False
      obtain st1 q where 1: "recheck_approvals h exec ?ids (wp_awaiting p) p st = (st1, q)"
        by (cases "recheck_approvals h exec ?ids (wp_awaiting p) p st")
      note M = movesD[OF recheck_moves[OF others exec] v 1]
      show ?thesis
      proof (cases q)
        case (Inl e)
        then show ?thesis using run False 1 M(1) by (subst run_loop.simps) simp
      next
        case q: (Inr p1)
        have v1: "viewed h base p1 st1" using M(2)[OF q] .
        let ?ready = "ready_nodes d p1"
        obtain st2 r where 2: "(if ?ready = [] then finish_run_of h p1 st1 else run_ready h exec ?ready p1 st1) = (st2, r)"
          by (cases "if ?ready = [] then finish_run_of h p1 st1 else run_ready h exec ?ready p1 st1")
        have loop: "run_loop h exec d p st = (if ?ready = [] \<and> wp_awaiting p1 \<noteq> [] then Some (st1, Inr run)
            else case r of Inl e \<Rightarrow> Some (st2, Inl e) | Inr p2 \<Rightarrow> run_loop h exec d p2 st2)"
          by (subst run_loop.simps) (simp only: run sum.case False if_False 1 prod.case q Let_def 2)
        show ?thesis
        proof (cases "?ready = [] \<and> wp_awaiting p1 \<noteq> []")
          case True
          then have "wp_awaiting p \<noteq> []" using 1 q by (auto simp: lift_result_def)
          then have "wr_status run \<noteq> Workflow_Running" by (rule run_of_status(2)[OF run])
          then show ?thesis using loop True M(1) by simp
        next
          case go: False
          have step: "grows_to st1 st2 \<and> (\<forall>p2. r = Inr p2 \<longrightarrow> ends_settled st2 (run_loop h exec d p2 st2))"
          proof (cases "?ready = []")
            case True
            then have fin: "finish_run_of h p1 st1 = (st2, r)" using 2 by simp
            have g: "grows_to st1 st2" using movesD(1)[OF finish_run_moves[OF others] v1 fin] .
            have "ends_settled st2 (run_loop h exec d p2 st2)" if "r = Inr p2" for p2
            proof -
              have t: "\<exists>status \<in> set terminal_statuses. wp_terminal p2 = Some status"
                using finish_run_terminal[OF others v1 fin[unfolded that]] .
              show ?thesis
                unfolding run_loop_finished[OF t] using run_of_status(1)[of "wh_sha h" p2 d, OF _ t] grows_to_refl[OF grows_to_clean[OF g]]
                by (cases "run_of (wh_sha h) p2 d") fastforce+
            qed
            then show ?thesis using g by simp
          next
            case False
            then have rr: "run_ready h exec ?ready p1 st1 = (st2, r)" using 2 by simp
            note E = run_ready_effect[OF others exec v1 rr]
            have "ends_settled st2 (run_loop h exec d p2 st2)" if "r = Inr p2" for p2
            proof -
              have less: "(p2, p1) \<in> work_order d" using run_ready_decreases[OF others exec v1 d False rr[unfolded that]] .
              obtain s where s: "viewed h s p st" "load_workflow (wh_sha h) (wh_run_id h) s = Inr p" using viewed_restart[OF v] .
              have "later (wh_sha h) (wh_run_id h) p p1" using movesD(2)[OF recheck_moves[OF others exec] s(1) 1 q] s(2) by (rule viewed_later)
              then have "(p2, p) \<in> work_order d" using less by (rule less_work_later)
              then show ?thesis using E that "1.IH" by blast
            qed
            then show ?thesis using E by blast
          qed
          then have "grows_to st st2" using grows_to_trans[OF M(1)] by blast
          then show ?thesis using loop go step ends_settled_grows by (cases r) auto
        qed
      qed
    qed
  qed
qed

section \<open>The executor of the program\<close>

definition services_grow :: "workflow_services \<Rightarrow> bool" where
  "services_grow sv \<longleftrightarrow> (\<forall>spec request agent session. growing (sv_create sv spec request agent session)) \<and>
     (\<forall>session. growing (sv_resume sv session)) \<and> (\<forall>agent msg target wake. growing (sv_send sv agent msg target wake)) \<and>
     (\<forall>agent message. growing (sv_wait_message sv agent message)) \<and> (\<forall>agent. growing (sv_dispose sv agent)) \<and>
     (\<forall>capture agent message. sv_capture sv = Some capture \<longrightarrow> growing (capture agent message)) \<and>
     (\<forall>promotion request artifact place. sv_promotion sv = Some promotion \<longrightarrow>
        growing (promotion request artifact place))"

definition resolver_grows :: "binding_resolver \<Rightarrow> bool" where
  "resolver_grows rs \<longleftrightarrow> (\<forall>b run name key. growing (br_agent_spec rs b run name key) \<and> growing (br_message_content rs b run name key)) \<and>
     (\<forall>b run name. growing (br_map_keys rs b run name))"

lemma services_growD:
  assumes "services_grow sv"
  shows "growing (sv_create sv spec request agent session)" "growing (sv_resume sv session)" "growing (sv_send sv agent msg target wake)"
    "growing (sv_wait_message sv agent message)" "growing (sv_dispose sv agent)"
    "sv_capture sv = Some capture \<Longrightarrow> growing (capture agent message)"
    "sv_promotion sv = Some promotion \<Longrightarrow> growing (promotion request artifact place)"
  using assms unfolding services_grow_def by blast+

lemma resolver_growsD:
  assumes "resolver_grows rs"
  shows "growing (br_agent_spec rs b run name key)" "growing (br_message_content rs b run name key)" "growing (br_map_keys rs b run name)"
  using assms unfolding resolver_grows_def by blast+

lemma growing_after_lift:
  assumes "\<And>x. r = Inr x \<Longrightarrow> growing (f x)"
  shows "growing (abind (lift_result r) f)"
proof (cases r)
  case (Inl e)
  then have "abind (lift_result r) f = lift_result (Inl e)" by (simp add: abind_def lift_result_def fun_eq_iff)
  then show ?thesis by simp
next
  case (Inr x)
  then have "abind (lift_result r) f = f x" by (simp add: abind_def lift_result_def fun_eq_iff)
  then show ?thesis using assms Inr by simp
qed

lemma promotion_of_Inr: "promotion_of sv name = Inr promotion \<Longrightarrow> sv_promotion sv = Some promotion"
  by (simp add: promotion_of_def split: option.splits)

lemma growing_if: "growing a \<Longrightarrow> growing b \<Longrightarrow> growing (if c then a else b)"
  by simp

lemma growing_option: "growing a \<Longrightarrow> (\<And>x. m = Some x \<Longrightarrow> growing (f x)) \<Longrightarrow> growing (case m of None \<Rightarrow> a | Some x \<Rightarrow> f x)"
  by (cases m) simp_all

lemmas growing_rules = growing_abind growing_lift growing_reading growing_try_finally growing_if growing_option

lemma agent_task_grows:
  assumes sv: "services_grow sv" and rs: "resolver_grows rs"
  shows "growing (agent_task sha sv rs run name kind spec_b message_b capture key)"
proof -
  have "growing (message_content_of rs run b n k)" for b n k
    unfolding message_content_of_def by (intro growing_rules resolver_growsD[OF rs])
  moreover have "growing (capture_artifact_of sv agent message n)" for agent message n
    unfolding capture_artifact_of_def by (intro growing_rules services_growD(6)[OF sv])
  ultimately have "growing (deliver_task sv rs run name ids message_b capture key)" for ids
    unfolding deliver_task_def Let_def by (intro growing_rules services_growD(1-5)[OF sv])
  then show ?thesis unfolding agent_task_def by (intro growing_rules services_growD(1-5)[OF sv] resolver_growsD[OF rs])
qed

lemma execute_node_grows:
  assumes sv: "services_grow sv" and rs: "resolver_grows rs"
  shows "growing (execute_node sha sv rs run node key p)"
proof (cases node)
  case (AgentTaskNode name ps spec_b message_b capture)
  then show ?thesis using agent_task_grows[OF sv rs] by (simp add: execute_node_def)
next
  case (MapNode name ps keys_b spec_b message_b fan_out capture)
  have "growing (expand_map_node rs run name keys_b fan_out)"
    unfolding expand_map_node_def by (intro growing_rules resolver_growsD[OF rs])
  moreover have "growing (abind (lift_result (map_child_node_id sha name k)) (\<lambda>child. agent_task sha sv rs run child MAP spec_b message_b capture (Some k)))" for k
    by (intro growing_rules agent_task_grows[OF sv rs])
  ultimately show ?thesis using MapNode by (cases key) (simp_all add: execute_node_def)
next
  case (VerificationNode name ps artifact_node target)
  have "growing (verify_node sha sv run name artifact_node target p)"
    unfolding verify_node_def
    by (rule growing_after_lift) (intro growing_rules services_growD(7)[OF sv] promotion_of_Inr)
  then show ?thesis using VerificationNode by (simp add: execute_node_def)
next
  case (ApprovalNode name ps review_node)
  have "growing (approve_node sha sv name review_node p)"
    unfolding approve_node_def
    by (intro growing_rules)
  then show ?thesis using ApprovalNode by (simp add: execute_node_def)
qed (simp add: execute_node_def)

lemma execute_node_sound:
  assumes "services_grow sv" "resolver_grows rs"
  shows "sound_executor (execute_node sha sv rs run)"
proof -
  have "json_ok (JDict data)" if x: "execute_node sha sv rs run node key p st = (st', Inr x)" "nx_completed x = Some data"
    for node key p st st' x data
  proof -
    let ?key = "if node_kind node = MAP then key else None"
    have run: "execute_node sha sv rs run node ?key p st = (st', Inr x)" using x(1) by (cases node) (simp_all add: execute_node_def)
    obtain name ev where "node_completed_data name (node_kind node) ?key ev = Inr data"
      using execute_node_reported[OF run x(2)] by (auto simp del: if_split)
    then show ?thesis by (rule payloads_ok(4))
  qed
  then show ?thesis using execute_node_grows[OF assms] unfolding sound_executor_def by blast
qed

section \<open>Advancing a run\<close>

lemma open_run_effect:
  assumes others: "interferes (wh_others h)" and st: "clean_store st" and run: "open_run h d digest allow st = (st', r)"
  shows "grows_to st st' \<and> (\<forall>p. r = Inr p \<longrightarrow> viewed h st p st')"
proof (cases "load_workflow (wh_sha h) (wh_run_id h) st")
  case (Inl e)
  then show ?thesis using run grows_to_refl[OF st] by (auto simp: open_run_def abind_def reading_def)
next
  case (Inr p)
  note v = viewed_self[of st h p, OF st Inr]
  have "moves h (\<lambda>p. p) (\<lambda>p. if wp_head_seq p = 0 then
       (if \<not> allow then lift_result (Inl (WorkflowStateError ''workflow-run-unknown'' None))
        else append_reload h WORKFLOW_RUN_STARTED (run_started_data (wh_run_id h) (wd_definition_id d) digest) p)
     else abind (lift_result (require_same_definition p digest)) (\<lambda>_.
          abind (lift_result (require_continuable p)) (\<lambda>_. lift_result (Inr p))))" (is "moves h _ ?f")
  proof -
    have start: "moves h (\<lambda>p. p) (append_reload h WORKFLOW_RUN_STARTED (run_started_data (wh_run_id h) (wd_definition_id d) digest))"
      by (rule append_reload_moves[OF others]) (blast intro: payloads_ok(5))
    show ?thesis
      unfolding moves_def
    proof (intro allI impI)
      fix base p st assume v: "viewed h base p st"
      show "case ?f p st of (st', r) \<Rightarrow> grows_to st st' \<and> (case r of Inl e \<Rightarrow> True | Inr x \<Rightarrow> viewed h base x st')"
        using start[unfolded moves_def, rule_format, OF v] v grows_to_refl[OF viewed_clean[OF v]]
        by (cases "require_same_definition p digest"; cases "require_continuable p") (auto simp: abind_def lift_result_def)
    qed
  qed
  from movesD[OF this v, of st' r] show ?thesis using run Inr by (auto simp: open_run_def abind_def reading_def)
qed

text \<open>
  C31: advancing a run returns. Whatever other writers append before each attempt and whatever the
  services answer, as long as they only extend the store, start and resume end: with an error, or
  with a run that has finished or waits for a human. The history of the store is kept, and the
  run is never handed back while it still has work of its own to do.
\<close>

theorem advance_returns:
  assumes "clean_store st" and "interferes (wh_others h)" and "services_grow sv" and "resolver_grows rs"
  shows "\<exists>st' r. advance_run h sv rs d allow_start st = Some (st', r) \<and> grows_to st st' \<and>
    (case r of Inl error \<Rightarrow> True | Inr run \<Rightarrow> wr_status run \<in> {Workflow_Completed, Workflow_Failed, Workflow_Awaiting_Approval})"
proof -
  have "ends_settled st (advance_run h sv rs d allow_start st)"
  proof (cases "rbind (require_workflow_identifier (wh_run_id h) ''run_id'') (\<lambda>_.
      rbind (freeze_workflow_definition d) (\<lambda>d. rbind (workflow_definition_hash (wh_sha h) d) (\<lambda>digest. Inr (d, digest))))")
    case (Inl e)
    then show ?thesis using grows_to_refl[OF assms(1)] by (simp add: advance_run_def)
  next
    case (Inr x)
    then obtain digest where x: "x = (d, digest)" and d: "distinct (map node_id (wd_nodes d))"
      by (auto simp: result_simps freeze_workflow_definition_Inr valid_workflow_def)
    obtain st1 r where 1: "open_run h d digest allow_start st = (st1, r)" by (cases "open_run h d digest allow_start st")
    note O = open_run_effect[OF assms(2,1) 1]
    show ?thesis
    proof (cases r)
      case (Inr p)
      have "ends_settled st1 (run_loop h (execute_node (wh_sha h) sv rs (wh_run_id h)) d p st1)"
        by (rule run_loop_ends[OF assms(2) execute_node_sound[OF assms(3,4)] d]) (use O Inr in blast)
      then have "ends_settled st (run_loop h (execute_node (wh_sha h) sv rs (wh_run_id h)) d p st1)" using O ends_settled_grows by blast
      then show ?thesis using \<open>_ = Inr x\<close> x 1 Inr by (simp add: advance_run_def)
    qed (use O \<open>_ = Inr x\<close> x 1 in \<open>simp add: advance_run_def\<close>)
  qed
  moreover have "wr_status run \<noteq> Workflow_Running \<longleftrightarrow> wr_status run \<in> {Workflow_Completed, Workflow_Failed, Workflow_Awaiting_Approval}" for run
    by (cases "wr_status run") auto
  ultimately show ?thesis unfolding ends_settled_def by (fastforce split: sum.split)
qed

end
