(* ===== verification/Promotion_Service.thy ===== *)
theory Promotion_Service imports Promotion_Chain begin

text \<open>
  The transactions of review, approval and promotion (promotion/service.py). The state is the
  event store and the world outside of it. The Git engine, the resolver of targets, the artifact
  reader, the verification runner and the check of its sandbox receipts are arguments: each call
  is an action on that state which answers or fails, and what other hosts do meanwhile is part of
  it. The append of one fact looks at the ledger again before every attempt. The table of running
  tasks and closing are not modelled; paths are POSIX paths.
\<close>

section \<open>Services\<close>

record patch_artifact =
  ar_artifact_id :: pystr
  ar_manifest_digest :: pystr
  ar_sha256 :: pystr
  ar_size_bytes :: int
  ar_session_id :: pystr
  ar_agent_id :: pystr
  ar_content :: "int list"

record integration_build =
  ib_integration_tree :: pystr
  ib_integration_commit :: pystr

record verification_evidence =
  ve_definition_digest :: pystr
  ve_evidence_digest :: pystr
  ve_results :: "verifier_outcome list"
  ve_passed :: bool

record verification_owner =
  vn_operation_id :: pystr
  vn_session_id :: pystr
  vn_agent_id :: pystr

record 's promotion_engine =
  pe_resolve :: "pystr \<Rightarrow> ('s, promotion_target) action"
  pe_artifact :: "pystr \<Rightarrow> ('s, patch_artifact) action"
  pe_require_identity :: "promotion_target \<Rightarrow> ('s, unit) action"
  pe_read_ref :: "promotion_target \<Rightarrow> ('s, pystr option) action"
  pe_rebuild :: "promotion_target \<Rightarrow> int list \<Rightarrow> pystr \<Rightarrow> pystr \<Rightarrow> ('s, integration_build) action"
  pe_compare_and_swap :: "promotion_target \<Rightarrow> pystr \<Rightarrow> pystr \<Rightarrow> ('s, bool) action"
  pe_enter :: "promotion_target \<Rightarrow> int list \<Rightarrow> pystr \<Rightarrow> ('s, integration_build) action"
  pe_run :: "verification_owner \<Rightarrow> integration_build \<Rightarrow> ('s, verification_evidence) action"
  pe_check_receipt :: "verification_owner \<Rightarrow> verifier_command \<Rightarrow> verifier_outcome \<Rightarrow> ('s, unit) action"
  pe_reverify :: "integration_build \<Rightarrow> ('s, integration_build) action"
  pe_leave :: "integration_build \<Rightarrow> ('s, unit) action"

record promotion_host =
  ph_sha :: "pystr \<Rightarrow> pystr"
  ph_drawn :: drawn
  ph_others :: "nat \<Rightarrow> event_store \<Rightarrow> event_store"
  ph_plan :: verification_plan
  ph_policy_digest :: "(verifier_command \<Rightarrow> pystr) option"

definition on_store :: "(event_store, 'a) action \<Rightarrow> (event_store \<times> 'w, 'a) action" where
  "on_store m s = (let (st, r) = m (fst s) in ((st, snd s), r))"

section \<open>Recording a fact\<close>

definition MAX_LEDGER_APPEND_ATTEMPTS :: nat where
  "MAX_LEDGER_APPEND_ATTEMPTS = 8"

definition stored_fact :: "(pystr \<Rightarrow> pystr) \<Rightarrow> (promotion_ledger \<Rightarrow> 'a option result) \<Rightarrow> event_store \<Rightarrow> 'a result" where
  "stored_fact sha finder st =
     rbind (load_promotions sha st) (\<lambda>l. rbind (finder l) (\<lambda>found.
       case found of None \<Rightarrow> Inl (PromotionWriteError None) | Some x \<Rightarrow> Inr x))"

function record_promotion ::
    "promotion_host \<Rightarrow> string \<Rightarrow> payload \<Rightarrow> (promotion_ledger \<Rightarrow> 'a option result) \<Rightarrow> nat \<Rightarrow> (event_store, 'a) action" where
  "record_promotion h event_type data finder attempts st =
     (case load_promotions (ph_sha h) st of
        Inl e \<Rightarrow> (st, Inl e)
      | Inr l \<Rightarrow>
          (case finder l of
             Inl e \<Rightarrow> (st, Inl e)
           | Inr (Some x) \<Rightarrow> (st, Inr x)
           | Inr None \<Rightarrow>
               (case append_events (ph_drawn h) PROMOTION_LEDGER_STREAM (pl_head_seq l) [pending event_type data PROMOTION_SCHEMA_VERSION]
                   (ph_others h attempts st) of
                  (st1, Inr _) \<Rightarrow> (st1, stored_fact (ph_sha h) finder st1)
                | (st1, Inl error) \<Rightarrow>
                    (let committed = committed_after_failure (Some (read_events st1 PROMOTION_LEDGER_STREAM 1))
                           (\<lambda>event. is_promotion_fact event event_type data) in
                     if committed = Some True then (st1, stored_fact (ph_sha h) finder st1)
                     else if is_concurrency_conflict error \<and> committed = Some False then
                       (if MAX_LEDGER_APPEND_ATTEMPTS \<le> attempts then (st1, Inl PromotionLedgerConflictError)
                        else record_promotion h event_type data finder (Suc attempts) st1)
                     else (st1, Inl (PromotionWriteError committed))))))"
  by pat_completeness auto
termination by (relation "measure (\<lambda>(_, _, _, _, attempts, _). MAX_LEDGER_APPEND_ATTEMPTS - attempts)") auto

declare record_promotion.simps [simp del]

section \<open>Checks shared by the transactions\<close>

definition matches_sandbox_policy :: "promotion_host \<Rightarrow> 'a review_fact_scheme \<Rightarrow> bool" where
  \<comment> \<open>asked only of a review with as many results as the plan has commands\<close>
  "matches_sandbox_policy h review =
     (case ph_policy_digest h of
        None \<Rightarrow> list_all (\<lambda>r. vo_execution r = None) (rv_results review)
      | Some digest \<Rightarrow> list_all (\<lambda>(command, r). case vo_execution r of None \<Rightarrow> False | Some x \<Rightarrow> sr_policy_digest x = digest command)
          (zip (vp_commands (ph_plan h)) (rv_results review)))"

definition verified_by_host :: "promotion_host \<Rightarrow> 'a review_fact_scheme \<Rightarrow> bool" where
  "verified_by_host h review \<longleftrightarrow> review_matches_verification_plan (ph_sha h) review (ph_plan h) \<and> matches_sandbox_policy h review"

definition check_target :: "pystr \<Rightarrow> promotion_target \<Rightarrow> promotion_target result" where
  "check_target name target =
     rbind (require_promotion_identifier (pt_target_id target) ''target_id'') (\<lambda>resolved.
       if resolved \<noteq> name then promotion_input_error ''promotion-target-invalid'' ''target''
       else rbind (require_hex_digest (pt_repository_fingerprint target) [64] ''repository-fingerprint'') (\<lambda>_.
            rbind (require_hex_digest (pt_expected_revision target) [40, 64] ''expected-revision'') (\<lambda>_.
            rbind (require_target_ref (JStr (pt_target_ref target))) (\<lambda>_.
              if \<not> is_prefix (lit ''/'') (pt_repository_path target) then promotion_input_error ''promotion-target-path-invalid'' ''target''
              else Inr target))))"

definition resolve_target :: "'s promotion_engine \<Rightarrow> pystr \<Rightarrow> ('s, promotion_target) action" where
  "resolve_target eng name = abind (pe_resolve eng name) (\<lambda>target. lift_result (check_target name target))"

definition same_target :: "promotion_target \<Rightarrow> 'a review_fact_scheme \<Rightarrow> bool" where
  "same_target target review \<longleftrightarrow> pt_target_id target = rv_target_id review \<and>
     pt_repository_fingerprint target = rv_repository_fingerprint review \<and> pt_target_ref target = rv_target_ref review"

section \<open>Review\<close>

definition require_same_review :: "promotion_host \<Rightarrow> 'a review_fact_scheme \<Rightarrow> pystr \<Rightarrow> pystr \<Rightarrow> unit result" where
  "require_same_review h review artifact_id target =
     raise_if (rv_artifact_id review \<noteq> artifact_id \<or> rv_target_id review \<noteq> target \<or> \<not> verified_by_host h review) PromotionOperationConflictError"

definition find_review :: "promotion_host \<Rightarrow> pystr \<Rightarrow> pystr \<Rightarrow> pystr \<Rightarrow> promotion_ledger \<Rightarrow> patch_review_report option result" where
  "find_review h review_id artifact_id target l =
     (case ledger_review l review_id of
        None \<Rightarrow> Inr None
      | Some found \<Rightarrow> rbind (require_same_review h found artifact_id target) (\<lambda>_. Inr (Some found)))"

definition check_outcome :: "promotion_host \<Rightarrow> verifier_command \<Rightarrow> verifier_outcome \<Rightarrow> unit result" where
  "check_outcome h command outcome =
     rbind (freeze_verifier_outcome outcome) (\<lambda>_.
       if vo_command_id outcome \<noteq> vc_command_id command then Inl (PromotionStateError ''promotion-verifier-result-mismatch'')
       else rbind (verifier_command_digest (ph_sha h) command) (\<lambda>digest.
         raise_if (vo_argv_digest outcome \<noteq> digest) (PromotionStateError ''promotion-verifier-result-mismatch'')))"

fun check_outcomes ::
    "promotion_host \<Rightarrow> (verifier_command \<Rightarrow> verifier_outcome \<Rightarrow> ('s, unit) action) \<Rightarrow> verifier_command list \<Rightarrow> verifier_outcome list
       \<Rightarrow> ('s, unit) action" where
  "check_outcomes h receipt (command # commands) (outcome # outcomes) =
     abind (lift_result (check_outcome h command outcome)) (\<lambda>_.
     abind (if ph_policy_digest h = None then lift_result (Inr ()) else receipt command outcome) (\<lambda>_.
       check_outcomes h receipt commands outcomes))"
| "check_outcomes h receipt _ _ = lift_result (Inr ())"

definition verify_patch :: "promotion_host \<Rightarrow> 's promotion_engine \<Rightarrow> verification_owner \<Rightarrow> integration_build \<Rightarrow> ('s, verification_evidence) action" where
  \<comment> \<open>the definition digest is the one of the plan, which the constructor has frozen\<close>
  "verify_patch h eng owner build =
     abind (pe_run eng owner build) (\<lambda>evidence.
     abind (lift_result (rbind (verifier_definition_digest (ph_sha h) (ph_plan h)) (\<lambda>definition_digest.
       if ve_definition_digest evidence \<noteq> definition_digest then Inl (PromotionStateError ''promotion-verifier-definition-mismatch'')
       else raise_if (length (ve_results evidence) \<noteq> length (vp_commands (ph_plan h))) (PromotionStateError ''promotion-verification-invalid'')))) (\<lambda>_.
     abind (check_outcomes h (pe_check_receipt eng owner) (vp_commands (ph_plan h)) (ve_results evidence)) (\<lambda>_.
     lift_result (rbind (verification_evidence_digest (ph_sha h) (ve_definition_digest evidence) (ve_results evidence)) (\<lambda>digest.
       if ve_evidence_digest evidence \<noteq> digest then Inl (PromotionStateError ''promotion-verifier-evidence-mismatch'')
       else if ve_passed evidence \<noteq> list_all outcome_passed (ve_results evidence) then Inl (PromotionStateError ''promotion-verification-invalid'')
       else Inr evidence)))))"

definition integrate_and_verify ::
    "promotion_host \<Rightarrow> 's promotion_engine \<Rightarrow> promotion_target \<Rightarrow> patch_artifact \<Rightarrow> pystr \<Rightarrow> pystr
       \<Rightarrow> ('s, verification_evidence \<times> integration_build) action" where
  \<comment> \<open>the body of \<open>async with\<close>, and its exit whatever the outcome\<close>
  "integrate_and_verify h eng target artifact message review_id =
     abind (pe_enter eng target (ar_content artifact) message) (\<lambda>environment.
     abind (try_finally
       (abind (verify_patch h eng \<lparr>vn_operation_id = review_id, vn_session_id = ar_session_id artifact, vn_agent_id = ar_agent_id artifact\<rparr> environment)
          (\<lambda>evidence. abind (pe_reverify eng environment) (\<lambda>build. lift_result (Inr (evidence, build)))))
       (pe_leave eng environment)) (\<lambda>(evidence, build). lift_result
         (if ib_integration_tree build \<noteq> ib_integration_tree environment \<or> ib_integration_commit build \<noteq> ib_integration_commit environment
          then Inl (PromotionStateError ''promotion-integration-drift'') else Inr (evidence, build))))"

definition confirm_unchanged :: "'s promotion_engine \<Rightarrow> promotion_target \<Rightarrow> patch_artifact \<Rightarrow> pystr \<Rightarrow> ('s, unit) action" where
  "confirm_unchanged eng target artifact artifact_id =
     abind (pe_artifact eng artifact_id) (\<lambda>confirmed.
       if ar_manifest_digest confirmed \<noteq> ar_manifest_digest artifact \<or> ar_sha256 confirmed \<noteq> ar_sha256 artifact \<or>
          ar_content confirmed \<noteq> ar_content artifact
       then lift_result (Inl (PromotionStateError ''promotion-artifact-drift''))
       else abind (pe_require_identity eng target) (\<lambda>_.
            abind (pe_read_ref eng target) (\<lambda>current.
              lift_result (raise_if (current \<noteq> Some (pt_expected_revision target)) PromotionTargetDriftError))))"

definition run_review ::
    "promotion_host \<Rightarrow> (event_store \<times> 'w) promotion_engine \<Rightarrow> pystr \<Rightarrow> pystr \<Rightarrow> pystr \<Rightarrow> pystr \<Rightarrow> (event_store \<times> 'w, patch_review_report) action" where
  "run_review h eng review_id review_request_id artifact_id target_name =
     abind (pe_artifact eng artifact_id) (\<lambda>artifact.
     abind (resolve_target eng target_name) (\<lambda>target.
     abind (lift_result (integration_commit_message (ar_artifact_id artifact) (ar_manifest_digest artifact))) (\<lambda>message.
     abind (integrate_and_verify h eng target artifact message review_id) (\<lambda>(evidence, build).
     abind (confirm_unchanged eng target artifact artifact_id) (\<lambda>_.
     abind (lift_result (review_recorded_data (ph_sha h) review_request_id
       \<lparr>rs_artifact_id = ar_artifact_id artifact, rs_manifest_digest = ar_manifest_digest artifact, rs_patch_sha256 = ar_sha256 artifact,
        rs_patch_size_bytes = ar_size_bytes artifact, rs_target = target, rs_integration_tree = ib_integration_tree build,
        rs_integration_commit = ib_integration_commit build\<rparr> (ve_definition_digest evidence) (ve_results evidence))) (\<lambda>data.
       on_store (record_promotion h PATCH_REVIEW_RECORDED data (find_review h review_id artifact_id target_name) 1)))))))"

definition review_patch ::
    "promotion_host \<Rightarrow> (event_store \<times> 'w) promotion_engine \<Rightarrow> pystr \<Rightarrow> pystr \<Rightarrow> pystr \<Rightarrow> (event_store \<times> 'w, patch_review_report) action" where
  "review_patch h eng review_request_id artifact_id target_name =
     abind (lift_result (require_promotion_identifier review_request_id ''review_request_id'')) (\<lambda>review_request_id.
     abind (lift_result (require_promotion_identifier artifact_id ''artifact_id'')) (\<lambda>artifact_id.
     abind (lift_result (require_promotion_identifier target_name ''target_id'')) (\<lambda>target_name.
     abind (lift_result (review_identity (ph_sha h) review_request_id)) (\<lambda>review_id.
     abind (on_store (reading (load_promotions (ph_sha h)))) (\<lambda>l.
       case ledger_review l review_id of
         Some existing \<Rightarrow> lift_result (rbind (require_same_review h existing artifact_id target_name) (\<lambda>_. Inr existing))
       | None \<Rightarrow> run_review h eng review_id review_request_id artifact_id target_name)))))"

section \<open>Approval\<close>

definition require_same_approval :: "'a approval_fact_scheme \<Rightarrow> pystr \<Rightarrow> pystr \<Rightarrow> pystr \<Rightarrow> pystr \<Rightarrow> unit result" where
  "require_same_approval approval operation_id review_id approval_digest approver_id =
     raise_if (pa_operation_id approval \<noteq> operation_id \<or> pa_review_id approval \<noteq> review_id \<or>
       pa_approval_digest approval \<noteq> approval_digest \<or> pa_approver_id approval \<noteq> approver_id) PromotionOperationConflictError"

definition find_approval :: "pystr \<Rightarrow> pystr \<Rightarrow> pystr \<Rightarrow> pystr \<Rightarrow> promotion_ledger \<Rightarrow> patch_approval option result" where
  "find_approval operation_id review_id approval_digest approver_id l =
     (case approval_for_operation l operation_id of
        None \<Rightarrow> (if approval_for_review l review_id \<noteq> None then Inl PromotionOperationConflictError else Inr None)
      | Some found \<Rightarrow> rbind (require_same_approval found operation_id review_id approval_digest approver_id) (\<lambda>_. Inr (Some found)))"

definition admit_approval ::
    "promotion_host \<Rightarrow> promotion_ledger \<Rightarrow> pystr \<Rightarrow> pystr \<Rightarrow> pystr \<Rightarrow> pystr \<Rightarrow> (patch_approval + patch_review_report) result" where
  \<comment> \<open>the approval already on record, or the review that may be approved\<close>
  "admit_approval h l review_id approval_digest approver_id operation_id =
     (let recorded = approval_for_operation l operation_id in
      rbind (case recorded of None \<Rightarrow> Inr () | Some a \<Rightarrow> require_same_approval a operation_id review_id approval_digest approver_id) (\<lambda>_.
        case ledger_review l review_id of
          None \<Rightarrow> Inl (PromotionNotFoundError ''promotion-review-unknown'')
        | Some review \<Rightarrow>
            (if \<not> verified_by_host h review then Inl (PromotionApprovalError ''promotion-review-verification-mismatch'')
             else case recorded of
               Some a \<Rightarrow> Inr (Inl a)
             | None \<Rightarrow>
                 (if \<not> rv_passed review then Inl (PromotionApprovalError ''promotion-review-not-passed'')
                  else if approval_digest \<noteq> expected_approval_digest (ph_sha h) review
                  then Inl (PromotionApprovalError ''promotion-approval-digest-stale'')
                  else if approval_for_review l review_id \<noteq> None then Inl PromotionOperationConflictError
                  else Inr (Inr review)))))"

definition approve_admitted ::
    "promotion_host \<Rightarrow> (event_store \<times> 'w) promotion_engine \<Rightarrow> pystr \<Rightarrow> pystr \<Rightarrow> pystr \<Rightarrow> pystr \<Rightarrow> (event_store \<times> 'w, patch_approval) action" where
  "approve_admitted h eng review_id approval_digest approver_id operation_id =
     abind (on_store (reading (load_promotions (ph_sha h)))) (\<lambda>l.
     abind (lift_result (approval_recorded_data operation_id review_id approval_digest approver_id)) (\<lambda>data.
     abind (lift_result (admit_approval h l review_id approval_digest approver_id operation_id)) (\<lambda>admitted.
       case admitted of
         Inl recorded \<Rightarrow> lift_result (Inr recorded)
       | Inr review \<Rightarrow>
           abind (resolve_target eng (rv_target_id review)) (\<lambda>target.
             if \<not> same_target target review \<or> pt_expected_revision target \<noteq> rv_expected_revision review
             then lift_result (Inl PromotionTargetDriftError)
             else on_store (record_promotion h PATCH_APPROVAL_RECORDED data
               (find_approval operation_id review_id approval_digest approver_id) 1)))))"

definition approve_patch ::
    "promotion_host \<Rightarrow> (event_store \<times> 'w) promotion_engine \<Rightarrow> pystr \<Rightarrow> pystr \<Rightarrow> pystr \<Rightarrow> pystr \<Rightarrow> (event_store \<times> 'w, patch_approval) action" where
  "approve_patch h eng review_id approval_digest approver_id operation_id =
     abind (lift_result (require_promotion_identifier review_id ''review_id'')) (\<lambda>review_id.
     abind (lift_result (require_promotion_identifier approver_id ''approver_id'')) (\<lambda>approver_id.
     abind (lift_result (require_promotion_identifier operation_id ''operation_id'')) (\<lambda>operation_id.
       if \<not> is_hex_digest (JStr approval_digest) [64]
       then lift_result (promotion_input_error ''promotion-approval-digest-invalid'' ''approval_digest'')
       else approve_admitted h eng review_id approval_digest approver_id operation_id)))"

section \<open>Promotion\<close>

definition ref_state :: "'s promotion_engine \<Rightarrow> promotion_target \<Rightarrow> 'a review_fact_scheme \<Rightarrow> ('s, bool) action" where
  "ref_state eng target review =
     abind (pe_read_ref eng target) (\<lambda>current. lift_result
       (if current = Some (rv_integration_commit review) then Inr True
        else if current = Some (rv_expected_revision review) then Inr False
        else Inl PromotionTargetDriftError))"

definition swap_ref :: "'s promotion_engine \<Rightarrow> promotion_target \<Rightarrow> 'a review_fact_scheme \<Rightarrow> ('s, unit) action" where
  "swap_ref eng target review =
     abind (pe_compare_and_swap eng target (rv_expected_revision review) (rv_integration_commit review)) (\<lambda>swapped.
     abind (pe_read_ref eng target) (\<lambda>current. lift_result
       (if current = Some (rv_integration_commit review) then Inr ()
        else if current = Some (rv_expected_revision review)
        then Inl (PromotionStateError (if \<not> swapped then ''promotion-ref-update-rejected'' else ''promotion-ref-update-unknown''))
        else Inl PromotionTargetDriftError)))"

definition admit_promotion ::
    "promotion_host \<Rightarrow> promotion_ledger \<Rightarrow> pystr \<Rightarrow> (patch_promotion + patch_review_report) result" where
  "admit_promotion h l approval_digest =
     (case approval_for_digest l approval_digest of
        None \<Rightarrow> Inl (PromotionApprovalError ''promotion-approval-unknown'')
      | Some approval \<Rightarrow>
          (case ledger_review l (pa_review_id approval) of
             None \<Rightarrow> Inl (PromotionApprovalError ''promotion-review-not-passed'')
           | Some review \<Rightarrow>
               (if \<not> rv_passed review then Inl (PromotionApprovalError ''promotion-review-not-passed'')
                else if \<not> verified_by_host h review then Inl (PromotionApprovalError ''promotion-review-verification-mismatch'')
                else if approval_digest \<noteq> expected_approval_digest (ph_sha h) review
                then Inl (PromotionApprovalError ''promotion-approval-digest-stale'')
                else case promotion_for_approval l approval_digest of
                  Some recorded \<Rightarrow> Inr (Inl recorded)
                | None \<Rightarrow> Inr (Inr review))))"

definition promote_admitted ::
    "promotion_host \<Rightarrow> (event_store \<times> 'w) promotion_engine \<Rightarrow> patch_review_report \<Rightarrow> pystr \<Rightarrow> (event_store \<times> 'w, patch_promotion) action" where
  "promote_admitted h eng review approval_digest =
     abind (pe_artifact eng (rv_artifact_id review)) (\<lambda>artifact.
       if ar_manifest_digest artifact \<noteq> rv_manifest_digest review \<or> ar_sha256 artifact \<noteq> rv_patch_sha256 review \<or>
          ar_size_bytes artifact \<noteq> rv_patch_size_bytes review
       then lift_result (Inl (PromotionStateError ''promotion-artifact-drift''))
       else abind (resolve_target eng (rv_target_id review)) (\<lambda>target.
         if \<not> same_target target review then lift_result (Inl PromotionTargetDriftError)
         else
           abind (pe_require_identity eng target) (\<lambda>_.
           abind (ref_state eng target review) (\<lambda>converged.
           abind (lift_result (integration_commit_message (rv_artifact_id review) (rv_manifest_digest review))) (\<lambda>message.
           abind (pe_rebuild eng target (ar_content artifact) message (rv_expected_revision review)) (\<lambda>build.
             if ib_integration_tree build \<noteq> rv_integration_tree review \<or> ib_integration_commit build \<noteq> rv_integration_commit review
             then lift_result (Inl (PromotionStateError ''promotion-reconstruction-mismatch''))
             else
               abind (if converged then abind (ref_state eng target review) (\<lambda>still. lift_result (if still then Inr () else Inl PromotionTargetDriftError))
                      else swap_ref eng target review) (\<lambda>_.
               abind (lift_result (promotion_committed_data (rv_review_id review) approval_digest (rv_target_id review)
                  (rv_repository_fingerprint review) (rv_target_ref review) (rv_expected_revision review) (rv_integration_commit review)
                  (rv_integration_tree review))) (\<lambda>data.
                 on_store (record_promotion h PATCH_PROMOTION_COMMITTED data
                   (\<lambda>l. Inr (promotion_for_approval l approval_digest)) 1)))))))))"

definition promote_patch :: "promotion_host \<Rightarrow> (event_store \<times> 'w) promotion_engine \<Rightarrow> pystr \<Rightarrow> (event_store \<times> 'w, patch_promotion) action" where
  "promote_patch h eng approval_digest =
     (if \<not> is_hex_digest (JStr approval_digest) [64]
      then lift_result (promotion_input_error ''promotion-approval-digest-invalid'' ''approval_digest'')
      else
        abind (on_store (reading (load_promotions (ph_sha h)))) (\<lambda>l.
        abind (lift_result (admit_promotion h l approval_digest)) (\<lambda>admitted.
          case admitted of Inl recorded \<Rightarrow> lift_result (Inr recorded) | Inr review \<Rightarrow> promote_admitted h eng review approval_digest)))"

end
