(* ===== verification/Promotion_Writes.thy ===== *)
theory Promotion_Writes imports Promotion_Service begin

text \<open>
  What recording one fact does to the ledger: nothing is lost, a race is tried again on the ledger
  read afresh, and the fact that wins is accepted by replay. The last section gives the rule for
  composing the calls of a transaction, proved once for any relation between states they keep.
\<close>

section \<open>The ledger only grows\<close>

definition ledger_grows :: "promotion_scan \<Rightarrow> promotion_scan \<Rightarrow> bool" where
  "ledger_grows s s' \<longleftrightarrow> set (sc_reviews s) \<subseteq> set (sc_reviews s') \<and> set (sc_approvals s) \<subseteq> set (sc_approvals s') \<and>
     set (sc_promotions s) \<subseteq> set (sc_promotions s')"

lemma scan_promotion_grows: "scan_promotion sha s ev = Inr s' \<Longrightarrow> ledger_grows s s'"
proof (erule scan_promotion_Inr)
  fix data t
  let ?s = "s\<lparr>sc_expected_seq := sc_expected_seq s + 1\<rparr>"
  show "ledger_grows s s'" if "apply_review_recorded sha data t (sc_expected_seq s) ?s = Inr s'"
    using that by (rule apply_review_Inr) (auto simp: ledger_grows_def)
  show "ledger_grows s s'" if "apply_approval_recorded sha data t (sc_expected_seq s) ?s = Inr s'"
    using that by (rule apply_approval_Inr) (auto simp: ledger_grows_def)
  show "ledger_grows s s'" if "apply_promotion_committed data t (sc_expected_seq s) ?s = Inr s'"
    using that by (rule apply_promotion_Inr) (auto simp: ledger_grows_def)
qed

lemma rebuild_promotions_prefix:
  assumes "rebuild_promotions sha (es @ fs) = Inr l'"
  obtains l where "rebuild_promotions sha es = Inr l" "set (pl_reviews l) \<subseteq> set (pl_reviews l')"
    "set (pl_approvals l) \<subseteq> set (pl_approvals l')" "set (pl_promotions l) \<subseteq> set (pl_promotions l')"
proof -
  obtain s' where s': "foldM (scan_promotion sha) empty_promotion_scan (es @ fs) = Inr s'" "l' = ledger_of_scan s'"
    using assms by (auto simp: rebuild_promotions_Inr)
  have "\<exists>s. foldM (scan_promotion sha) empty_promotion_scan es = Inr s \<and> ledger_grows s s'"
    by (rule promotions.run_relation[OF _ _ _ s'(1)]) (auto simp: ledger_grows_def dest: scan_promotion_grows[unfolded ledger_grows_def])
  then show thesis using that s'(2) by (auto simp: rebuild_promotions_Inr ledger_grows_def ledger_of_scan_def)
qed

text \<open>
  Two different reviews whose approval digests are the same would be a collision of SHA-256. That
  is the one event under which a fact that the service admits may break replay.
\<close>

definition digests_collide :: "(pystr \<Rightarrow> pystr) \<Rightarrow> event_envelope list \<Rightarrow> bool" where
  "digests_collide sha es \<longleftrightarrow> (\<exists>n l r r'. rebuild_promotions sha (take n es) = Inr l \<and> r \<in> set (pl_reviews l) \<and> r' \<in> set (pl_reviews l) \<and>
     rv_review_id r \<noteq> rv_review_id r' \<and> expected_approval_digest sha r = expected_approval_digest sha r')"

lemma digests_collide_prefix: "digests_collide sha es \<Longrightarrow> digests_collide sha (es @ fs)"
proof -
  assume "digests_collide sha es"
  then obtain n l r r' where c: "rebuild_promotions sha (take n es) = Inr l" "r \<in> set (pl_reviews l)" "r' \<in> set (pl_reviews l)"
    "rv_review_id r \<noteq> rv_review_id r'" "expected_approval_digest sha r = expected_approval_digest sha r'"
    unfolding digests_collide_def by (elim exE conjE) (rule that)
  have "take n es = take (min n (length es)) (es @ fs)" by (simp add: min_def)
  then show ?thesis using c unfolding digests_collide_def by metis
qed

definition promotions_grow :: "(pystr \<Rightarrow> pystr) \<Rightarrow> event_store \<Rightarrow> event_store \<Rightarrow> bool" where
  "promotions_grow sha st st' \<longleftrightarrow> extends st st' \<and>
     (is_ok (load_promotions sha st) \<and> \<not> digests_collide sha (stream_of st' PROMOTION_LEDGER_STREAM) \<longrightarrow> is_ok (load_promotions sha st'))"

lemma promotions_grow_refl: "store_ok st \<Longrightarrow> promotions_grow sha st st"
  by (simp add: promotions_grow_def extends_refl)

lemma promotions_grow_trans:
  assumes ab: "promotions_grow sha a b" and bc: "promotions_grow sha b c"
  shows "promotions_grow sha a c"
proof -
  obtain xs where "stream_of c PROMOTION_LEDGER_STREAM = stream_of b PROMOTION_LEDGER_STREAM @ xs"
    using bc by (auto simp: promotions_grow_def extends_def)
  then have "digests_collide sha (stream_of b PROMOTION_LEDGER_STREAM) \<Longrightarrow> digests_collide sha (stream_of c PROMOTION_LEDGER_STREAM)"
    using digests_collide_prefix by simp
  then show ?thesis using ab bc extends_trans[of a b c] unfolding promotions_grow_def by blast
qed

lemma promotions_grow_ok: "promotions_grow sha a b \<Longrightarrow> store_ok b"
  by (simp add: promotions_grow_def extends_def)

lemma load_promotions_grows:
  assumes "store_ok st" "extends st st'" "load_promotions sha st = Inr l" "load_promotions sha st' = Inr l'"
  shows "set (pl_reviews l) \<subseteq> set (pl_reviews l') \<and> set (pl_approvals l) \<subseteq> set (pl_approvals l') \<and> set (pl_promotions l) \<subseteq> set (pl_promotions l')"
proof -
  have ok: "store_ok st'" using assms(2) by (simp add: extends_def)
  obtain xs where xs: "stream_of st' PROMOTION_LEDGER_STREAM = stream_of st PROMOTION_LEDGER_STREAM @ xs"
    using assms(2) by (auto simp: extends_def)
  have "rebuild_promotions sha (stream_of st PROMOTION_LEDGER_STREAM @ xs) = Inr l'"
    using assms(4) load_promotions_Inr[OF ok, of sha] xs by simp
  from rebuild_promotions_prefix[OF this] obtain l2 where l2: "rebuild_promotions sha (stream_of st PROMOTION_LEDGER_STREAM) = Inr l2"
    "set (pl_reviews l2) \<subseteq> set (pl_reviews l')" "set (pl_approvals l2) \<subseteq> set (pl_approvals l')" "set (pl_promotions l2) \<subseteq> set (pl_promotions l')" .
  moreover have "l2 = l" using l2(1) assms(3) load_promotions_Inr[OF assms(1), of sha] by simp
  ultimately show ?thesis by blast
qed

lemma load_promotions_ok: "store_ok st \<Longrightarrow> load_promotions sha st = Inr l \<Longrightarrow> promotions_ok sha l"
  using rebuilt_promotions_ok by (simp add: load_promotions_Inr)

section \<open>Recording one fact\<close>

abbreviation promotion_envelope :: "promotion_host \<Rightarrow> string \<Rightarrow> payload \<Rightarrow> int \<Rightarrow> event_envelope" where
  "promotion_envelope h ty data n \<equiv> fact_envelope (ph_drawn h) PROMOTION_LEDGER_STREAM n (pending ty data PROMOTION_SCHEMA_VERSION)"

definition promotion_interferes :: "promotion_host \<Rightarrow> bool" where
  "promotion_interferes h \<longleftrightarrow> (\<forall>n st. store_ok st \<longrightarrow> promotions_grow (ph_sha h) st (ph_others h n st))"

lemma stored_fact_Inr: "stored_fact sha finder st = Inr x \<Longrightarrow> \<exists>l. load_promotions sha st = Inr l \<and> finder l = Inr (Some x)"
  by (auto simp: stored_fact_def result_simps split: option.splits)

lemma append_promotion:
  assumes "store_ok st" and a: "append_events dr PROMOTION_LEDGER_STREAM n [p] st = (st', r)"
  shows "extends st st'" "\<And>e. r = Inl e \<Longrightarrow> promotions_grow sha st st'"
    "\<And>x. r = Inr x \<Longrightarrow> stream_of st' PROMOTION_LEDGER_STREAM =
       stream_of st PROMOTION_LEDGER_STREAM @ [fact_envelope dr PROMOTION_LEDGER_STREAM (n + 1) p] \<and> head_seq st PROMOTION_LEDGER_STREAM = n"
proof -
  have st': "st' = fst (append_events dr PROMOTION_LEDGER_STREAM n [p] st)" "r = snd (append_events dr PROMOTION_LEDGER_STREAM n [p] st)"
    using a by simp_all
  have ok: "store_ok st'" unfolding st'(1) using assms(1) by (rule store_ok_append)
  then show ext: "extends st st'" unfolding extends_def st'(1) append_events_stream by auto
  show "promotions_grow sha st st'" if "r = Inl e" for e
  proof -
    have "stream_of st' PROMOTION_LEDGER_STREAM = stream_of st PROMOTION_LEDGER_STREAM"
      using that unfolding st' append_events_stream append_events_result by (simp split: if_splits)
    then show ?thesis using ext by (simp add: promotions_grow_def load_promotions_Inr[OF ok] load_promotions_Inr[OF assms(1)])
  qed
  show "stream_of st' PROMOTION_LEDGER_STREAM = stream_of st PROMOTION_LEDGER_STREAM @ [fact_envelope dr PROMOTION_LEDGER_STREAM (n + 1) p] \<and>
      head_seq st PROMOTION_LEDGER_STREAM = n" if "r = Inr x" for x
    using that unfolding st' append_events_stream append_events_result by (simp split: if_splits)
qed

lemma record_promotion_answer:
  "record_promotion h ty data finder k st = (st', Inr x) \<Longrightarrow> \<exists>l. load_promotions (ph_sha h) st' = Inr l \<and> finder l = Inr (Some x)"
proof (induction "MAX_LEDGER_APPEND_ATTEMPTS - k" arbitrary: k st rule: less_induct)
  case less
  note step = less.prems[unfolded record_promotion.simps[of h ty data finder k st]]
  show ?case
  proof (cases "\<exists>l. load_promotions (ph_sha h) st = Inr l \<and> finder l = Inr None")
    case False
    then show ?thesis using step by (auto split: sum.splits option.splits)
  next
    case True
    then obtain l where l: "load_promotions (ph_sha h) st = Inr l" "finder l = Inr None" by blast
    obtain st1 q where a: "append_events (ph_drawn h) PROMOTION_LEDGER_STREAM (pl_head_seq l) [pending ty data PROMOTION_SCHEMA_VERSION]
        (ph_others h k st) = (st1, q)"
      by (cases "append_events (ph_drawn h) PROMOTION_LEDGER_STREAM (pl_head_seq l) [pending ty data PROMOTION_SCHEMA_VERSION] (ph_others h k st)")
    have "stored_fact (ph_sha h) finder st' = Inr x \<or> k < MAX_LEDGER_APPEND_ATTEMPTS \<and> record_promotion h ty data finder (Suc k) st1 = (st', Inr x)"
      using step l a by (auto simp: Let_def split: sum.splits if_splits)
    then show ?thesis using less.hyps[of "Suc k" st1] stored_fact_Inr[of "ph_sha h" finder st'] by auto
  qed
qed

lemma record_promotion_effect:
  assumes others: "promotion_interferes h" and st: "store_ok st"
    and run: "record_promotion h ty data finder k st = (st', r)"
    and accepted: "\<And>st1 l. extends st st1 \<Longrightarrow> load_promotions (ph_sha h) st1 = Inr l \<Longrightarrow> finder l = Inr None \<Longrightarrow>
       \<not> digests_collide (ph_sha h) (stream_of st1 PROMOTION_LEDGER_STREAM) \<Longrightarrow>
       is_ok (rebuild_promotions (ph_sha h) (stream_of st1 PROMOTION_LEDGER_STREAM @ [promotion_envelope h ty data (pl_head_seq l + 1)]))"
  shows "promotions_grow (ph_sha h) st st'"
  using st run accepted
proof (induction "MAX_LEDGER_APPEND_ATTEMPTS - k" arbitrary: k st rule: less_induct)
  case less
  let ?grow = "promotions_grow (ph_sha h)" and ?S = PROMOTION_LEDGER_STREAM
  note refl = promotions_grow_refl[OF less.prems(1)]
  note step = less.prems(2)[unfolded record_promotion.simps[of h ty data finder k st]]
  show ?case
  proof (cases "load_promotions (ph_sha h) st")
    case (Inl e)
    then show ?thesis using step refl by auto
  next
    case l: (Inr l)
    show ?thesis
    proof (cases "finder l")
      case (Inl e)
      then show ?thesis using step refl l by auto
    next
      case f: (Inr found)
      show ?thesis
      proof (cases found)
        case (Some x)
        then show ?thesis using step refl l f by auto
      next
        case None
        let ?st = "ph_others h k st"
        have g0: "?grow st ?st" using others less.prems(1) by (simp add: promotion_interferes_def)
        note ok0 = promotions_grow_ok[OF g0]
        obtain st1 q where a: "append_events (ph_drawn h) ?S (pl_head_seq l) [pending ty data PROMOTION_SCHEMA_VERSION] ?st = (st1, q)"
          by (cases "append_events (ph_drawn h) ?S (pl_head_seq l) [pending ty data PROMOTION_SCHEMA_VERSION] ?st")
        note app = append_promotion[OF ok0 a]
        note step = step[unfolded l sum.case f None option.case a prod.case]
        show ?thesis
        proof (cases q)
          case (Inr x)
          then have st': "st' = st1" "r = stored_fact (ph_sha h) finder st1" using step by auto
          obtain xs where xs: "stream_of ?st ?S = stream_of st ?S @ xs" using g0 by (auto simp: promotions_grow_def extends_def)
          have "rebuild_promotions (ph_sha h) (stream_of st ?S) = Inr l" using l load_promotions_Inr[OF less.prems(1)] by simp
          from promotion_log.fresh_append[of st "ph_others h k" _ _ l xs, OF less.prems(1) ok0 this xs] have "xs = []" using app(3)[OF Inr] by simp
          then have stream: "stream_of st' ?S = stream_of st ?S @ [promotion_envelope h ty data (pl_head_seq l + 1)]"
            using app(3)[OF Inr] xs st'(1) by simp
          have ext: "extends st st'" using extends_trans[OF _ app(1)] g0 st'(1) by (simp add: promotions_grow_def)
          have "is_ok (load_promotions (ph_sha h) st')" if "\<not> digests_collide (ph_sha h) (stream_of st' ?S)"
          proof -
            have "\<not> digests_collide (ph_sha h) (stream_of st ?S)" using that digests_collide_prefix unfolding stream by blast
            from less.prems(3)[OF extends_refl[OF less.prems(1)] l _ this]
            have "is_ok (rebuild_promotions (ph_sha h) (stream_of st' ?S))" using f None unfolding stream by simp
            then show ?thesis using ext by (simp add: load_promotions_Inr extends_def)
          qed
          then show ?thesis using st'(2) stored_fact_Inr[of "ph_sha h" finder st1] st'(1) ext by (auto simp: promotions_grow_def)
        next
          case (Inl e)
          have g1: "?grow st st1" using promotions_grow_trans[OF g0 app(2)[OF Inl]] .
          note step = step[unfolded Inl sum.case Let_def]
          let ?c = "committed_after_failure (Some (read_events st1 ?S 1)) (\<lambda>event. is_promotion_fact event ty data)"
          show ?thesis
          proof (cases "?c = Some True \<or> \<not> (is_concurrency_conflict e \<and> ?c = Some False) \<or> MAX_LEDGER_APPEND_ATTEMPTS \<le> k")
            case True
            then show ?thesis using step g1 stored_fact_Inr[of "ph_sha h" finder st1] by (auto split: if_splits)
          next
            case False
            then have again: "record_promotion h ty data finder (Suc k) st1 = (st', r)" and k: "k < MAX_LEDGER_APPEND_ATTEMPTS"
              using step by auto
            have accept: "is_ok (rebuild_promotions (ph_sha h) (stream_of st2 ?S @ [promotion_envelope h ty data (pl_head_seq l2 + 1)]))"
              if "extends st1 st2" "load_promotions (ph_sha h) st2 = Inr l2" "finder l2 = Inr None" "\<not> digests_collide (ph_sha h) (stream_of st2 ?S)"
              for st2 l2
            proof -
              have "extends st st2" using extends_trans[OF _ that(1)] g1 by (simp add: promotions_grow_def)
              then show ?thesis using less.prems(3) that(2-4) by blast
            qed
            have "MAX_LEDGER_APPEND_ATTEMPTS - Suc k < MAX_LEDGER_APPEND_ATTEMPTS - k" using k by simp
            have "?grow st1 st'"
              by (rule less.hyps[OF \<open>_ - _ < _\<close> promotions_grow_ok[OF g1] again]) (rule accept)
            then show ?thesis using promotions_grow_trans[OF g1] by blast
          qed
        qed
      qed
    qed
  qed
qed

section \<open>Composing the calls of a transaction\<close>

definition keeps :: "('s \<Rightarrow> 's \<Rightarrow> bool) \<Rightarrow> ('s, 'a) action \<Rightarrow> bool" where
  "keeps R m \<longleftrightarrow> (\<forall>s. R s s \<longrightarrow> R s (fst (m s)))"

locale growth =
  fixes R :: "'s \<Rightarrow> 's \<Rightarrow> bool"
  assumes R_trans: "R a b \<Longrightarrow> R b c \<Longrightarrow> R a c" and R_valid: "R a b \<Longrightarrow> R b b"
begin

lemma keepsD: "keeps R m \<Longrightarrow> R s s \<Longrightarrow> m s = (s', r) \<Longrightarrow> R s s'"
  unfolding keeps_def by (metis fst_conv)

lemma keeps_lift: "keeps R (lift_result r)"
  by (simp add: keeps_def lift_result_def)

lemma keeps_abind_if:
  assumes m: "keeps R m" and f: "\<And>s s' x. R s s \<Longrightarrow> m s = (s', Inr x) \<Longrightarrow> R s' (fst (f x s'))"
  shows "keeps R (abind m f)"
  unfolding keeps_def
proof (intro allI impI)
  fix s assume s: "R s s"
  obtain s1 r where 1: "m s = (s1, r)" by (cases "m s")
  have "R s s1" using keepsD[OF m s 1] .
  then show "R s (fst (abind m f s))" using f[OF s] 1 R_trans by (cases r) (simp_all add: abind_result)
qed

lemma keeps_abind: "keeps R m \<Longrightarrow> (\<And>x. keeps R (f x)) \<Longrightarrow> keeps R (abind m f)"
  by (rule keeps_abind_if) (use R_valid keepsD in \<open>auto simp: keeps_def\<close>)

lemma keeps_abind_when: "keeps R m \<Longrightarrow> (\<And>s s' x. m s = (s', Inr x) \<Longrightarrow> keeps R (f x)) \<Longrightarrow> keeps R (abind m f)"
  by (rule keeps_abind_if) (use R_valid keepsD in \<open>auto simp: keeps_def\<close>)

lemma keeps_lift_bind: "(\<And>x. r = Inr x \<Longrightarrow> keeps R (f x)) \<Longrightarrow> keeps R (abind (lift_result r) f)"
  by (cases r) (auto simp: keeps_def)

lemma keeps_try_finally:
  assumes m: "keeps R m" and f: "keeps R f"
  shows "keeps R (try_finally m f)"
  unfolding keeps_def
proof (intro allI impI)
  fix s assume s: "R s s"
  obtain s1 r where 1: "m s = (s1, r)" by (cases "m s")
  obtain s2 q where 2: "f s1 = (s2, q)" by (cases "f s1")
  have g: "R s s1" using keepsD[OF m s 1] .
  then have "R s s2" using keepsD[OF f R_valid[OF g] 2] R_trans by blast
  then show "R s (fst (try_finally m f s))" using 1 2 by (cases q) (simp_all add: try_finally_def)
qed

lemma keeps_if: "(c \<Longrightarrow> keeps R a) \<Longrightarrow> (\<not> c \<Longrightarrow> keeps R b) \<Longrightarrow> keeps R (if c then a else b)"
  by simp

lemma keeps_option: "(m = None \<Longrightarrow> keeps R a) \<Longrightarrow> (\<And>x. m = Some x \<Longrightarrow> keeps R (f x)) \<Longrightarrow> keeps R (case m of None \<Rightarrow> a | Some x \<Rightarrow> f x)"
  by (cases m) simp_all

lemma keeps_sum: "(\<And>x. m = Inl x \<Longrightarrow> keeps R (f x)) \<Longrightarrow> (\<And>y. m = Inr y \<Longrightarrow> keeps R (g y)) \<Longrightarrow> keeps R (case m of Inl x \<Rightarrow> f x | Inr y \<Rightarrow> g y)"
  by (cases m) simp_all

lemma keeps_pair: "(\<And>x y. keeps R (f x y)) \<Longrightarrow> keeps R (case m of (x, y) \<Rightarrow> f x y)"
  by (cases m) simp

lemmas keeps_rules = keeps_lift keeps_try_finally keeps_if keeps_option keeps_sum keeps_pair keeps_abind

end

definition state_grows :: "(pystr \<Rightarrow> pystr) \<Rightarrow> event_store \<times> 'w \<Rightarrow> event_store \<times> 'w \<Rightarrow> bool" where
  "state_grows sha s s' \<longleftrightarrow> promotions_grow sha (fst s) (fst s')"

interpretation ledgers: growth "state_grows sha" for sha
  by unfold_locales (auto simp: state_grows_def promotions_grow_refl intro: promotions_grow_trans dest: promotions_grow_ok)

text \<open>The states after one at which the ledger has been looked at.\<close>

definition grows_from :: "(pystr \<Rightarrow> pystr) \<Rightarrow> event_store \<Rightarrow> event_store \<times> 'w \<Rightarrow> event_store \<times> 'w \<Rightarrow> bool" where
  "grows_from sha st0 s s' \<longleftrightarrow> extends st0 (fst s) \<and> state_grows sha s s'"

interpretation looked: growth "grows_from sha st0" for sha st0
proof
  fix a b c :: "event_store \<times> 'w" assume ab: "grows_from sha st0 a b"
  then have "extends st0 (fst b)" using extends_trans unfolding grows_from_def state_grows_def promotions_grow_def by blast
  then show "grows_from sha st0 b b" using ab ledgers.R_valid[of sha a b] unfolding grows_from_def by blast
  show "grows_from sha st0 a c" if "grows_from sha st0 b c" using ab that ledgers.R_trans[of sha a b c] unfolding grows_from_def by blast
qed

lemma keeps_from: "keeps (state_grows sha) m \<Longrightarrow> keeps (grows_from sha st0) m"
  by (auto simp: keeps_def grows_from_def)

lemma record_keeps:
  assumes "promotion_interferes h"
    and "\<And>st1 l. extends st0 st1 \<Longrightarrow> load_promotions (ph_sha h) st1 = Inr l \<Longrightarrow> finder l = Inr None \<Longrightarrow>
       \<not> digests_collide (ph_sha h) (stream_of st1 PROMOTION_LEDGER_STREAM) \<Longrightarrow>
       is_ok (rebuild_promotions (ph_sha h) (stream_of st1 PROMOTION_LEDGER_STREAM @ [promotion_envelope h ty data (pl_head_seq l + 1)]))"
  shows "keeps (grows_from (ph_sha h) st0) (on_store (record_promotion h ty data finder k))"
  unfolding keeps_def
proof (intro allI impI)
  fix s :: "event_store \<times> 'w" assume s: "grows_from (ph_sha h) st0 s s"
  then have ext: "extends st0 (fst s)" by (simp add: grows_from_def)
  then have ok: "store_ok (fst s)" by (simp add: extends_def)
  obtain st' r where run: "record_promotion h ty data finder k (fst s) = (st', r)" by (cases "record_promotion h ty data finder k (fst s)")
  have "promotions_grow (ph_sha h) (fst s) st'"
    by (rule record_promotion_effect[OF assms(1) ok run]) (use assms(2) extends_trans[OF ext] in blast)
  then show "grows_from (ph_sha h) st0 s (fst (on_store (record_promotion h ty data finder k) s))"
    using ext run by (simp add: grows_from_def state_grows_def on_store_def)
qed

end
