(* ===== verification/Promotion_Accepted.thy ===== *)
theory Promotion_Accepted imports Promotion_Writes begin

text \<open>
  What the writers admit, the readers accept: each of the three facts, written over the ledger its
  transaction has looked at, is read back, and replay of the longer stream succeeds.
\<close>

section \<open>The envelope of a fact\<close>

definition aware_times :: "promotion_host \<Rightarrow> bool" where
  "aware_times h \<longleftrightarrow> (\<forall>n. dt_utcoffset (snd (ph_drawn h n)) \<noteq> None)"

lemma promotion_envelope_header:
  assumes "aware_times h" "1 \<le> n" "lit ty \<in> set PROMOTION_EVENT_TYPES"
  shows "\<exists>t. promotion_event_header (promotion_envelope h ty data n) = Inr (lit ty, data, t, n) \<and> dt_utcoffset t \<noteq> None"
  using assms(2,3) assms(1)[unfolded aware_times_def, rule_format, of n]
  by (auto simp: promotion_event_header_def read_promotion_header_def materialize_def pending_def PROMOTION_SCHEMA_VERSION_def)

lemma fact_type_lits: "lit PATCH_REVIEW_RECORDED \<in> set PROMOTION_EVENT_TYPES" "lit PATCH_APPROVAL_RECORDED \<in> set PROMOTION_EVENT_TYPES"
  "lit PATCH_PROMOTION_COMMITTED \<in> set PROMOTION_EVENT_TYPES" "lit PATCH_APPROVAL_RECORDED \<noteq> lit PATCH_REVIEW_RECORDED"
  "lit PATCH_PROMOTION_COMMITTED \<noteq> lit PATCH_REVIEW_RECORDED" "lit PATCH_PROMOTION_COMMITTED \<noteq> lit PATCH_APPROVAL_RECORDED"
  by (simp_all add: PROMOTION_EVENT_TYPES_def)

lemma rebuild_promotions_snoc:
  assumes l: "rebuild_promotions sha es = Inr l" and aware: "aware_times h" and ty: "lit ty \<in> set PROMOTION_EVENT_TYPES"
    and step: "\<And>s t. promotion_inv sha s \<Longrightarrow> l = ledger_of_scan s \<Longrightarrow> dt_utcoffset t \<noteq> None \<Longrightarrow>
      is_ok (if lit ty = lit PATCH_REVIEW_RECORDED then apply_review_recorded sha data t (pl_head_seq l + 1) (s\<lparr>sc_expected_seq := sc_expected_seq s + 1\<rparr>)
       else if lit ty = lit PATCH_APPROVAL_RECORDED then apply_approval_recorded sha data t (pl_head_seq l + 1) (s\<lparr>sc_expected_seq := sc_expected_seq s + 1\<rparr>)
       else apply_promotion_committed data t (pl_head_seq l + 1) (s\<lparr>sc_expected_seq := sc_expected_seq s + 1\<rparr>))"
  shows "is_ok (rebuild_promotions sha (es @ [promotion_envelope h ty data (pl_head_seq l + 1)]))"
proof -
  obtain s where s: "foldM (scan_promotion sha) empty_promotion_scan es = Inr s" "l = ledger_of_scan s"
    using l by (auto simp: rebuild_promotions_Inr)
  have head: "pl_head_seq l + 1 = sc_expected_seq s" "1 \<le> pl_head_seq l + 1"
    using promotions_seq[OF s(1)] by (simp_all add: s(2) ledger_of_scan_def)
  obtain t where t: "promotion_event_header (promotion_envelope h ty data (pl_head_seq l + 1)) = Inr (lit ty, data, t, pl_head_seq l + 1)"
      "dt_utcoffset t \<noteq> None"
    using promotion_envelope_header[OF aware head(2) ty] by blast
  have "is_ok (scan_promotion sha s (promotion_envelope h ty data (pl_head_seq l + 1)))"
    using step[OF promotions.run_inv[OF s(1)] s(2) t(2)] head(1) t(1) by (auto simp: scan_promotion_def Let_def split: if_splits)
  then show ?thesis using s(1) by (auto simp: rebuild_promotions_Inr is_ok_iff foldM_append)
qed

section \<open>Approvals\<close>

lemma approval_recorded_data_Inr:
  "approval_recorded_data op review digest approver = Inr data \<longleftrightarrow> ident_ok op \<and> ident_ok review \<and> is_hex_digest (JStr digest) [64] \<and> ident_ok approver \<and>
     data = approval_payload \<lparr>pa_operation_id = op, pa_review_id = review, pa_approval_digest = digest, pa_approver_id = approver\<rparr>"
  by (auto simp: approval_recorded_data_def result_simps)

lemma approval_read_back:
  assumes "approval_recorded_data op review digest approver = Inr data"
  shows "normalized_approval_payload data n = Inr \<lparr>pa_operation_id = op, pa_review_id = review, pa_approval_digest = digest, pa_approver_id = approver\<rparr>"
proof -
  have "keys_are data APPROVAL_KEYS" using assms by (auto simp: approval_recorded_data_Inr keys_are_def APPROVAL_KEYS_def approval_payload_def)
  moreover have "jget data ''operation_id'' = JStr op" "jget data ''review_id'' = JStr review" "jget data ''approval_digest'' = JStr digest"
    "jget data ''approver_id'' = JStr approver" using assms by (simp_all add: approval_recorded_data_Inr approval_payload_def)
  ultimately show ?thesis using assms
    by (simp add: normalized_approval_payload_def approval_recorded_data_Inr promotion_identifier_def protocol_identifier_def promotion_digest_def)
qed

lemma approval_accepted:
  assumes l: "rebuild_promotions sha es = Inr l" and aware: "aware_times h" and data: "approval_recorded_data op review digest approver = Inr data"
    and r: "r \<in> set (pl_reviews l)" "rv_review_id r = review" "rv_passed r" "digest = expected_approval_digest sha r"
    and fresh: "approval_for_operation l op = None" "approval_for_review l review = None" "approval_for_digest l digest = None"
  shows "is_ok (rebuild_promotions sha (es @ [promotion_envelope h PATCH_APPROVAL_RECORDED data (pl_head_seq l + 1)]))"
proof (rule rebuild_promotions_snoc[OF l aware fact_type_lits(2)])
  fix s t assume inv: "promotion_inv sha s" and s: "l = ledger_of_scan s"
  note I = promotion_invD[OF inv]
  have sel: "pl_reviews l = sc_reviews s" "pl_approvals l = sc_approvals s" by (simp_all add: s ledger_of_scan_def)
  have "map_of (sc_review_by_id s) review = Some r" using I(1)[of review r] r sel by simp
  moreover have "op \<notin> set (sc_operation_ids s)" "review \<notin> set (sc_approved_reviews s)" "\<not> dict_has digest (sc_approval_by_digest s)"
    using fresh I(5)[of digest] unfolding I(6,7) dict_has_iff approval_for_operation_def approval_for_review_def approval_for_digest_def last_with_None sel
    by auto
  ultimately show "is_ok (if lit PATCH_APPROVAL_RECORDED = lit PATCH_REVIEW_RECORDED
      then apply_review_recorded sha data t (pl_head_seq l + 1) (s\<lparr>sc_expected_seq := sc_expected_seq s + 1\<rparr>)
      else if lit PATCH_APPROVAL_RECORDED = lit PATCH_APPROVAL_RECORDED
      then apply_approval_recorded sha data t (pl_head_seq l + 1) (s\<lparr>sc_expected_seq := sc_expected_seq s + 1\<rparr>)
      else apply_promotion_committed data t (pl_head_seq l + 1) (s\<lparr>sc_expected_seq := sc_expected_seq s + 1\<rparr>))"
    using r(3,4) by (simp add: fact_type_lits apply_approval_recorded_def approval_read_back[OF data] Let_def)
qed

section \<open>Promotions\<close>

lemma promotion_committed_data_Inr:
  "promotion_committed_data review digest place repository ref previous revision tree = Inr data \<longleftrightarrow>
     is_hex_digest (JStr digest) [64] \<and> ident_ok review \<and> ident_ok place \<and> is_hex_digest (JStr repository) [64] \<and> target_ref_ok ref \<and>
     is_hex_digest (JStr previous) [40, 64] \<and> is_hex_digest (JStr revision) [40, 64] \<and> is_hex_digest (JStr tree) [40, 64] \<and>
     data = promotion_payload \<lparr>pp_promotion_id = lit ''promotion-'' @ digest, pp_review_id = review, pp_approval_digest = digest,
         pp_target_id = place, pp_repository_fingerprint = repository, pp_target_ref = ref, pp_previous_revision = previous,
         pp_new_revision = revision, pp_integration_tree = tree, pp_merge_policy_version = MERGE_POLICY_VERSION,
         pp_promotion_protocol_version = PROMOTION_PROTOCOL_VERSION\<rparr>"
  by (auto simp: promotion_committed_data_def result_simps)

lemma graphic_character: "33 \<le> c \<Longrightarrow> c \<le> 126 \<Longrightarrow> \<not> is_unsafe_character c \<and> \<not> py_isspace c"
  unfolding is_unsafe_character_def UNSAFE_LINE_CATEGORIES_def category_ranges_def py_isspace_def whitespace_ranges_def in_ranges_def
  by simp

lemma graphic_strip: "list_all (\<lambda>c. 33 \<le> c \<and> c \<le> 126) s \<Longrightarrow> py_strip s = s"
proof -
  assume s: "list_all (\<lambda>c. 33 \<le> c \<and> c \<le> 126) s"
  have drop: "dropWhile py_isspace t = t" if "\<forall>c \<in> set t. 33 \<le> c \<and> c \<le> 126" for t
    using that graphic_character by (cases t) auto
  have "\<forall>c \<in> set s. 33 \<le> c \<and> c \<le> 126" using s by (simp add: list_all_iff)
  then show ?thesis using drop[of s] drop[of "rev s"] by (simp add: py_strip_def)
qed

lemma graphic_identifier:
  assumes "list_all (\<lambda>c. 33 \<le> c \<and> c \<le> 126) s" "s \<noteq> []" "length s \<le> 100"
  shows "ident_ok s"
proof -
  have "is_single_line_safe s" using assms(1) graphic_character by (simp add: is_single_line_safe_def list_all_iff list_ex_iff)
  then show ?thesis using graphic_strip[OF assms(1)] assms(2,3) by (simp add: ident_ok_def MAX_IDENTIFIER_LENGTH_def py_len_def)
qed

lemma hex_identifier:
  assumes "is_hex_digest (JStr d) [64]"
  shows "ident_ok (lit ''promotion-'' @ d)" "ident_ok (lit ''review-'' @ d)"
proof -
  have d: "list_all (\<lambda>c. 33 \<le> c \<and> c \<le> 126) d" "length d = 64"
    using assms by (auto simp: is_hex_digest_def list_all_iff py_len_def)
  have "list_all (\<lambda>c. 33 \<le> c \<and> c \<le> 126) (lit ''promotion-'')" "list_all (\<lambda>c. 33 \<le> c \<and> c \<le> 126) (lit ''review-'')"
    "length (lit ''promotion-'') = 10" "length (lit ''review-'') = 7" by code_simp+
  then show "ident_ok (lit ''promotion-'' @ d)" "ident_ok (lit ''review-'' @ d)"
    using d by (auto intro!: graphic_identifier)
qed

lemma promotion_read_back:
  assumes "promotion_committed_data review digest place repository ref previous revision tree = Inr data"
  shows "normalized_promotion_payload data n = Inr \<lparr>pp_promotion_id = lit ''promotion-'' @ digest, pp_review_id = review,
    pp_approval_digest = digest, pp_target_id = place, pp_repository_fingerprint = repository, pp_target_ref = ref,
    pp_previous_revision = previous, pp_new_revision = revision, pp_integration_tree = tree, pp_merge_policy_version = MERGE_POLICY_VERSION,
    pp_promotion_protocol_version = PROMOTION_PROTOCOL_VERSION\<rparr>"
proof -
  note D = assms[unfolded promotion_committed_data_Inr]
  have "keys_are data PROMOTION_KEYS" using D by (auto simp: keys_are_def PROMOTION_KEYS_def promotion_payload_def)
  moreover have "jget data ''approval_digest'' = JStr digest" "jget data ''promotion_id'' = JStr (lit ''promotion-'' @ digest)"
    "jget data ''review_id'' = JStr review" "jget data ''target_id'' = JStr place" "jget data ''repository_fingerprint'' = JStr repository"
    "jget data ''target_ref'' = JStr ref" "jget data ''previous_revision'' = JStr previous" "jget data ''new_revision'' = JStr revision"
    "jget data ''integration_tree'' = JStr tree" "jget data ''merge_policy_version'' = JInt MERGE_POLICY_VERSION"
    "jget data ''promotion_protocol_version'' = JInt PROMOTION_PROTOCOL_VERSION"
    using D by (simp_all add: promotion_payload_def)
  moreover have "ident_ok (lit ''promotion-'' @ digest)" using D hex_identifier(1) by simp
  ultimately show ?thesis using D
    by (simp add: normalized_promotion_payload_def promotion_identifier_def protocol_identifier_def promotion_digest_def
        promotion_integer_def promotion_target_ref_def require_target_ref_def promotion_identity_def require_hex_digest_def)
qed

lemma promotion_accepted:
  assumes l: "rebuild_promotions sha es = Inr l" and aware: "aware_times h"
    and data: "promotion_committed_data (rv_review_id r) digest (rv_target_id r) (rv_repository_fingerprint r) (rv_target_ref r)
      (rv_expected_revision r) (rv_integration_commit r) (rv_integration_tree r) = Inr data"
    and r: "r \<in> set (pl_reviews l)" and a: "a \<in> set (pl_approvals l)" "pa_approval_digest a = digest" "pa_review_id a = rv_review_id r"
    and fresh: "promotion_for_approval l digest = None"
  shows "is_ok (rebuild_promotions sha (es @ [promotion_envelope h PATCH_PROMOTION_COMMITTED data (pl_head_seq l + 1)]))"
proof (rule rebuild_promotions_snoc[OF l aware fact_type_lits(3)])
  fix s t assume inv: "promotion_inv sha s" and s: "l = ledger_of_scan s"
  note I = promotion_invD[OF inv]
  have sel: "pl_reviews l = sc_reviews s" "pl_approvals l = sc_approvals s" "pl_promotions l = sc_promotions s" by (simp_all add: s ledger_of_scan_def)
  have maps: "map_of (sc_review_by_id s) (rv_review_id r) = Some r" "map_of (sc_approval_by_digest s) digest = Some a"
    using I(1)[of _ r] I(5)[of _ a] r a sel by simp_all
  have new: "pp_approval_digest p \<noteq> digest" if "p \<in> set (sc_promotions s)" for p
    using that fresh unfolding promotion_for_approval_def last_with_None sel by blast
  have "pp_promotion_id p = lit ''promotion-'' @ pp_approval_digest p" if "p \<in> set (sc_promotions s)" for p
    using I(16)[OF that] by (auto simp: promotes_def)
  then have "lit ''promotion-'' @ digest \<notin> set (sc_promotion_ids s)" "digest \<notin> set (sc_promoted_digests s)"
    unfolding I(11,12) using new by auto
  moreover have "is_hex_digest (JStr digest) [64]" using data by (simp add: promotion_committed_data_Inr)
  ultimately show "is_ok (if lit PATCH_PROMOTION_COMMITTED = lit PATCH_REVIEW_RECORDED
      then apply_review_recorded sha data t (pl_head_seq l + 1) (s\<lparr>sc_expected_seq := sc_expected_seq s + 1\<rparr>)
      else if lit PATCH_PROMOTION_COMMITTED = lit PATCH_APPROVAL_RECORDED
      then apply_approval_recorded sha data t (pl_head_seq l + 1) (s\<lparr>sc_expected_seq := sc_expected_seq s + 1\<rparr>)
      else apply_promotion_committed data t (pl_head_seq l + 1) (s\<lparr>sc_expected_seq := sc_expected_seq s + 1\<rparr>))"
    using maps a(3) by (simp add: fact_type_lits apply_promotion_committed_def promotion_read_back[OF data] promotion_of_fact_def
        promotion_identity_def require_hex_digest_def promotion_binds_def promotion_fact.defs patch_promotion.defs)
qed

section \<open>Reviews\<close>

definition hex_hash :: "(pystr \<Rightarrow> pystr) \<Rightarrow> bool" where
  \<comment> \<open>\<open>hashlib.sha256(...).hexdigest()\<close> is 64 hexadecimal digits in lower case\<close>
  "hex_hash sha \<longleftrightarrow> (\<forall>text. is_hex_digest (JStr (sha text)) [64])"

definition receipt_ok :: "verifier_outcome \<Rightarrow> bool" where
  "receipt_ok r = (case vo_execution r of None \<Rightarrow> True
     | Some x \<Rightarrow> json_truthy (sr_stream_id x) \<and> is_hex_digest (JStr (sr_execution_id x)) [32] \<and>
         is_hex_digest (JStr (sr_receipt_digest x)) [64] \<and> is_hex_digest (JStr (sr_policy_digest x)) [64])"

lemma freeze_outcome_Inr:
  "freeze_verifier_outcome r = Inr x \<longleftrightarrow> x = r \<and> ident_ok (vo_command_id r) \<and> is_hex_digest (JStr (vo_argv_digest r)) [64] \<and>
     is_hex_digest (JStr (vo_stdout_sha256 r)) [64] \<and> is_hex_digest (JStr (vo_stderr_sha256 r)) [64] \<and> vo_status r \<in> set VERIFIER_STATUSES \<and>
     exit_code_ok (vo_exit_code r) \<and> (outcome_passed r \<longrightarrow> vo_exit_code r = Some 0) \<and> 0 \<le> vo_stdout_bytes r \<and> vo_stdout_bytes r \<le> MAX_OUTPUT_BYTES \<and>
     0 \<le> vo_stderr_bytes r \<and> vo_stderr_bytes r \<le> MAX_OUTPUT_BYTES"
  by (auto simp: freeze_verifier_outcome_def result_simps)

lemma execution_read_back:
  "receipt_ok r \<Longrightarrow> execution_reference (case vo_execution r of None \<Rightarrow> JNull | Some x \<Rightarrow> JDict (receipt_data x)) n = Inr (vo_execution r)"
  by (cases "vo_execution r") (auto simp: execution_reference_def receipt_ok_def receipt_data_def keys_are_def)

lemma exit_code_read_back: "exit_code_ok c \<Longrightarrow> read_exit_code (json_int_opt c) n = Inr c"
  by (cases c) (auto simp: read_exit_code_def json_int_opt_def exit_code_ok_def)

lemma result_read_back:
  assumes "freeze_verifier_outcome r = Inr r" "receipt_ok r" "vo_command_id r \<notin> set ids"
  shows "read_result ids (JDict (outcome_data r)) n = Inr r"
proof -
  note F = assms(1)[unfolded freeze_outcome_Inr]
  let ?d = "outcome_data r"
  have "keys_are ?d RESULT_KEYS" by (auto simp: keys_are_def RESULT_KEYS_def outcome_data_def)
  moreover have "jget ?d ''command_id'' = JStr (vo_command_id r)" "jget ?d ''argv_digest'' = JStr (vo_argv_digest r)"
    "jget ?d ''status'' = JStr (vo_status r)" "jget ?d ''exit_code'' = json_int_opt (vo_exit_code r)"
    "jget ?d ''stdout_sha256'' = JStr (vo_stdout_sha256 r)" "jget ?d ''stdout_bytes'' = JInt (vo_stdout_bytes r)"
    "jget ?d ''stderr_sha256'' = JStr (vo_stderr_sha256 r)" "jget ?d ''stderr_bytes'' = JInt (vo_stderr_bytes r)"
    "jget ?d ''execution'' = (case vo_execution r of None \<Rightarrow> JNull | Some x \<Rightarrow> JDict (receipt_data x))"
    by (simp_all add: outcome_data_def)
  ultimately show ?thesis
    using F assms(2,3) execution_read_back[OF assms(2)] exit_code_read_back[of "vo_exit_code r"]
    by (simp add: read_result_def promotion_identifier_def protocol_identifier_def promotion_digest_def promotion_integer_def read_status_def outcome_passed_def)
qed

lemma results_read_back:
  "list_all (\<lambda>r. freeze_verifier_outcome r = Inr r \<and> receipt_ok r) rs \<Longrightarrow> distinct (map vo_command_id rs) \<Longrightarrow> set (map vo_command_id rs) \<inter> set ids = {} \<Longrightarrow>
   read_results ids (map (\<lambda>r. JDict (outcome_data r)) rs) n = Inr rs"
  by (induction rs arbitrary: ids) (auto simp: result_read_back)


lemma review_recorded_fact_Inr:
  assumes "review_recorded_fact sha request subject definition_digest results = Inr f"
  shows "review_identity sha request = Inr (rv_review_id f) \<and> rv_review_request_id f = request \<and> ident_ok request \<and>
    ident_ok (rv_artifact_id f) \<and> ident_ok (rv_target_id f) \<and> results \<noteq> [] \<and> int (length results) \<le> MAX_VERIFIER_COMMANDS \<and>
    is_hex_digest (JStr definition_digest) [64] \<and> rv_verifier_definition_digest f = definition_digest \<and> rv_results f = results \<and>
    is_hex_digest (JStr (rv_manifest_digest f)) [64] \<and> is_hex_digest (JStr (rv_patch_sha256 f)) [64] \<and> 0 \<le> rv_patch_size_bytes f \<and>
    rv_patch_size_bytes f \<le> MAX_PATCH_BYTES \<and> is_hex_digest (JStr (rv_repository_fingerprint f)) [64] \<and> target_ref_ok (rv_target_ref f) \<and>
    is_hex_digest (JStr (rv_expected_revision f)) [40, 64] \<and> is_hex_digest (JStr (rv_integration_tree f)) [40, 64] \<and>
    is_hex_digest (JStr (rv_integration_commit f)) [40, 64] \<and>
    verification_evidence_digest sha definition_digest results = Inr (rv_verification_evidence_digest f) \<and>
    rv_passed f = list_all outcome_passed results \<and> rv_merge_policy_version f = MERGE_POLICY_VERSION \<and>
    rv_promotion_protocol_version f = PROMOTION_PROTOCOL_VERSION"
  using assms by (auto simp: review_recorded_fact_def Let_def result_simps split: if_splits)

lemma evidence_digest_hex:
  "hex_hash sha \<Longrightarrow> verification_evidence_digest sha definition_digest results = Inr d \<Longrightarrow> is_hex_digest (JStr d) [64]"
  by (auto simp: verification_evidence_digest_def fingerprint_def hex_hash_def result_simps split: if_splits)

lemma review_identity_ok: "hex_hash sha \<Longrightarrow> review_identity sha request = Inr i \<Longrightarrow> ident_ok i"
  using hex_identifier(2) by (auto simp: review_identity_def fingerprint_def hex_hash_def result_simps)


text \<open>A review that the service may write: its results are frozen, one per command, with well-formed receipts.\<close>

definition results_ok :: "verifier_outcome list \<Rightarrow> bool" where
  "results_ok results \<longleftrightarrow> list_all (\<lambda>r. freeze_verifier_outcome r = Inr r \<and> receipt_ok r) results \<and> distinct (map vo_command_id results)"

lemma review_read_back:
  assumes "hex_hash sha" and fact: "review_recorded_fact sha request subject definition_digest results = Inr f" and rs: "results_ok results"
  shows "normalized_review_payload sha (review_data f) n = Inr f"
proof -
  note F = review_recorded_fact_Inr[OF fact]
  let ?d = "review_data f"
  have keys: "keys_are ?d REVIEW_KEYS" by (auto simp: keys_are_def REVIEW_KEYS_def review_data_def)
  have get: "jget ?d ''review_id'' = JStr (rv_review_id f)" "jget ?d ''review_request_id'' = JStr (rv_review_request_id f)"
    "jget ?d ''artifact_id'' = JStr (rv_artifact_id f)" "jget ?d ''manifest_digest'' = JStr (rv_manifest_digest f)"
    "jget ?d ''patch_sha256'' = JStr (rv_patch_sha256 f)" "jget ?d ''patch_size_bytes'' = JInt (rv_patch_size_bytes f)"
    "jget ?d ''target_id'' = JStr (rv_target_id f)" "jget ?d ''repository_fingerprint'' = JStr (rv_repository_fingerprint f)"
    "jget ?d ''target_ref'' = JStr (rv_target_ref f)" "jget ?d ''expected_revision'' = JStr (rv_expected_revision f)"
    "jget ?d ''integration_tree'' = JStr (rv_integration_tree f)" "jget ?d ''integration_commit'' = JStr (rv_integration_commit f)"
    "jget ?d ''verifier_definition_digest'' = JStr (rv_verifier_definition_digest f)"
    "jget ?d ''verification_evidence_digest'' = JStr (rv_verification_evidence_digest f)"
    "jget ?d ''results'' = JList (map (\<lambda>r. JDict (outcome_data r)) (rv_results f))" "jget ?d ''passed'' = JBool (rv_passed f)"
    "jget ?d ''merge_policy_version'' = JInt (rv_merge_policy_version f)"
    "jget ?d ''promotion_protocol_version'' = JInt (rv_promotion_protocol_version f)"
    by (simp_all add: review_data_def)
  have texts: "promotion_identifier ?d ''review_request_id'' n = Inr request" "promotion_identifier ?d ''review_id'' n = Inr (rv_review_id f)"
    "promotion_identifier ?d ''artifact_id'' n = Inr (rv_artifact_id f)" "promotion_identifier ?d ''target_id'' n = Inr (rv_target_id f)"
    using F review_identity_ok[OF assms(1), of request "rv_review_id f"] get by (simp_all add: promotion_identifier_def protocol_identifier_def)
  have digests: "promotion_digest ?d ''verifier_definition_digest'' [64] n = Inr definition_digest"
    "promotion_digest ?d ''verification_evidence_digest'' [64] n = Inr (rv_verification_evidence_digest f)"
    "promotion_digest ?d ''manifest_digest'' [64] n = Inr (rv_manifest_digest f)" "promotion_digest ?d ''patch_sha256'' [64] n = Inr (rv_patch_sha256 f)"
    "promotion_digest ?d ''repository_fingerprint'' [64] n = Inr (rv_repository_fingerprint f)"
    "promotion_digest ?d ''expected_revision'' [40, 64] n = Inr (rv_expected_revision f)"
    "promotion_digest ?d ''integration_tree'' [40, 64] n = Inr (rv_integration_tree f)"
    "promotion_digest ?d ''integration_commit'' [40, 64] n = Inr (rv_integration_commit f)"
    using F evidence_digest_hex[OF assms(1), of definition_digest results "rv_verification_evidence_digest f"] get
    by (simp_all add: promotion_digest_def)
  have rest: "promotion_integer ?d ''patch_size_bytes'' n 0 MAX_PATCH_BYTES = Inr (rv_patch_size_bytes f)"
    "promotion_target_ref ?d n = Inr (rv_target_ref f)"
    "promotion_integer ?d ''merge_policy_version'' n MERGE_POLICY_VERSION MERGE_POLICY_VERSION = Inr MERGE_POLICY_VERSION"
    "promotion_integer ?d ''promotion_protocol_version'' n PROMOTION_PROTOCOL_VERSION PROMOTION_PROTOCOL_VERSION = Inr PROMOTION_PROTOCOL_VERSION"
    using F get by (simp_all add: promotion_integer_def promotion_target_ref_def require_target_ref_def)
  have read: "normalized_results (jget ?d ''results'') n = Inr results"
    using F get(15) results_read_back[of results "[]" n] rs
    by (simp add: normalized_results_def results_ok_def)
  have whole: "normalized_review_payload sha ?d n = Inr \<lparr>rv_review_id = rv_review_id f, rv_review_request_id = request, rv_artifact_id = rv_artifact_id f,
      rv_manifest_digest = rv_manifest_digest f, rv_patch_sha256 = rv_patch_sha256 f, rv_patch_size_bytes = rv_patch_size_bytes f,
      rv_target_id = rv_target_id f, rv_repository_fingerprint = rv_repository_fingerprint f, rv_target_ref = rv_target_ref f,
      rv_expected_revision = rv_expected_revision f, rv_integration_tree = rv_integration_tree f, rv_integration_commit = rv_integration_commit f,
      rv_verifier_definition_digest = definition_digest, rv_verification_evidence_digest = rv_verification_evidence_digest f,
      rv_results = results, rv_passed = rv_passed f, rv_merge_policy_version = MERGE_POLICY_VERSION,
      rv_promotion_protocol_version = PROMOTION_PROTOCOL_VERSION\<rparr>"
    unfolding normalized_review_payload_def texts read digests rest get(16) using F keys by simp
  show ?thesis unfolding whole using F by (cases f) simp
qed

lemma review_accepted:
  assumes l: "rebuild_promotions sha es = Inr l" and aware: "aware_times h" and hex: "hex_hash sha"
    and fact: "review_recorded_fact sha request subject definition_digest results = Inr f" and rs: "results_ok results"
    and fresh: "ledger_review l (rv_review_id f) = None"
  shows "is_ok (rebuild_promotions sha (es @ [promotion_envelope h PATCH_REVIEW_RECORDED (review_data f) (pl_head_seq l + 1)]))"
proof (rule rebuild_promotions_snoc[OF l aware fact_type_lits(1)])
  fix s and t :: datetime assume inv: "promotion_inv sha s" and s: "l = ledger_of_scan s" and t: "dt_utcoffset t \<noteq> None"
  note I = promotion_invD[OF inv] and F = review_recorded_fact_Inr[OF fact]
  obtain z where z: "dt_utcoffset t = Some z" using t by blast
  have sel: "pl_reviews l = sc_reviews s" by (simp add: s ledger_of_scan_def)
  have new: "rv_review_id r \<noteq> rv_review_id f" if "r \<in> set (sc_reviews s)" for r
    using that fresh unfolding ledger_review_def last_with_None sel by blast
  have "\<not> dict_has (rv_review_id f) (sc_review_by_id s)" using new I(1) by (auto simp: dict_has_iff)
  moreover have "request \<noteq> rv_review_request_id r" if "r \<in> set (sc_reviews s)" for r
    using new[OF that] I(14)[OF that] F by (auto simp: review_sound_def)
  then have "request \<notin> set (sc_request_ids s)" unfolding I(2) by blast
  ultimately show "is_ok (if lit PATCH_REVIEW_RECORDED = lit PATCH_REVIEW_RECORDED
      then apply_review_recorded sha (review_data f) t (pl_head_seq l + 1) (s\<lparr>sc_expected_seq := sc_expected_seq s + 1\<rparr>)
      else if lit PATCH_REVIEW_RECORDED = lit PATCH_APPROVAL_RECORDED
      then apply_approval_recorded sha (review_data f) t (pl_head_seq l + 1) (s\<lparr>sc_expected_seq := sc_expected_seq s + 1\<rparr>)
      else apply_promotion_committed (review_data f) t (pl_head_seq l + 1) (s\<lparr>sc_expected_seq := sc_expected_seq s + 1\<rparr>))"
    using F z by (simp add: apply_review_recorded_def review_read_back[OF hex fact rs] review_report_of_def review_report_digest_def)
qed

lemma execution_read_ok:
  "is_ok (execution_reference (case vo_execution r of None \<Rightarrow> JNull | Some x \<Rightarrow> JDict (receipt_data x)) n) \<Longrightarrow> receipt_ok r"
  by (cases "vo_execution r") (auto simp: execution_reference_def receipt_ok_def receipt_data_def is_ok_iff split: if_splits json.splits)

lemma result_read_ok:
  assumes "read_result ids (JDict (outcome_data r)) n = Inr x"
  shows "receipt_ok r \<and> vo_command_id r \<notin> set ids \<and> vo_command_id x = vo_command_id r"
proof -
  have get: "jget (outcome_data r) ''command_id'' = JStr (vo_command_id r)"
    "jget (outcome_data r) ''execution'' = (case vo_execution r of None \<Rightarrow> JNull | Some x \<Rightarrow> JDict (receipt_data x))"
    by (simp_all add: outcome_data_def)
  show ?thesis
    using assms execution_read_ok[of r n]
    by (auto simp: read_result_def get promotion_identifier_def protocol_identifier_def is_ok_iff result_simps split: if_splits)
qed

lemma results_read_ok:
  "read_results ids (map (\<lambda>r. JDict (outcome_data r)) rs) n = Inr xs \<Longrightarrow>
     list_all receipt_ok rs \<and> distinct (map vo_command_id rs) \<and> set (map vo_command_id rs) \<inter> set ids = {}"
proof (induction rs arbitrary: ids xs)
  case (Cons r rs)
  then obtain x ys where x: "read_result ids (JDict (outcome_data r)) n = Inr x"
      "read_results (vo_command_id x # ids) (map (\<lambda>r. JDict (outcome_data r)) rs) n = Inr ys"
    by (auto simp: result_simps)
  then show ?case using result_read_ok[OF x(1)] Cons.IH[OF x(2)] by auto
qed simp

lemma admitted_results_frozen:
  assumes "review_recorded_fact sha request subject definition_digest results = Inr f"
  shows "list_all (\<lambda>r. freeze_verifier_outcome r = Inr r) results"
proof -
  obtain xs where "mapM verifier_result_data results = Inr xs"
    using assms by (auto simp: review_recorded_fact_def Let_def result_simps split: if_splits)
  then show ?thesis
    by (induction results arbitrary: xs) (auto simp: verifier_result_data_def freeze_outcome_Inr result_simps)
qed

lemma review_read_only_ok:
  assumes fact: "review_recorded_fact sha request subject definition_digest results = Inr f"
    and read: "normalized_review_payload sha (review_data f) n = Inr x"
  shows "results_ok results"
proof -
  have "jget (review_data f) ''results'' = JList (map (\<lambda>r. JDict (outcome_data r)) results)"
    using review_recorded_fact_Inr[OF fact] by (simp add: review_data_def)
  then obtain ys where "read_results [] (map (\<lambda>r. JDict (outcome_data r)) results) n = Inr ys"
    using read by (auto simp: normalized_review_payload_def normalized_results_def result_simps split: if_splits)
  then show ?thesis
    using results_read_ok admitted_results_frozen[OF fact] by (auto simp: results_ok_def list_all_iff)
qed

section \<open>Properties\<close>

text \<open>
  C36: what the writers admit, and what of it the readers read back. An approval and a promotion
  that its writer admits always pass every check of their reader, at whatever position they are
  read, and the fact read is the one written. A review that \<open>review_recorded_data\<close> admits is read
  back as it was written exactly when its results are of distinct commands and carry well-formed
  sandbox receipts; otherwise its reader refuses the payload. The writer checks neither of the two
  itself; \<open>verify_patch\<close> establishes the first before the service writes.
\<close>

theorem promotion_facts_read_back:
  assumes "hex_hash sha" and "review_recorded_fact sha request subject definition_digest results = Inr f"
    and "approval_recorded_data op review digest approver = Inr approval"
    and "promotion_committed_data review digest place repository ref previous revision tree = Inr promotion"
  shows "(if distinct (map vo_command_id results) \<and> list_all receipt_ok results
      then normalized_review_payload sha (review_data f) n = Inr f else \<not> is_ok (normalized_review_payload sha (review_data f) n)) \<and>
    normalized_approval_payload approval n =
      Inr \<lparr>pa_operation_id = op, pa_review_id = review, pa_approval_digest = digest, pa_approver_id = approver\<rparr> \<and>
    (case normalized_promotion_payload promotion n of Inl e \<Rightarrow> False
     | Inr p \<Rightarrow> promotion = promotion_payload p \<and> promotion_identity digest = Inr (pp_promotion_id p) \<and> pp_new_revision p = revision)"
proof -
  have "distinct (map vo_command_id results) \<and> list_all receipt_ok results \<longleftrightarrow> results_ok results"
    using admitted_results_frozen[OF assms(2)] by (auto simp: results_ok_def list_all_iff)
  then have "if distinct (map vo_command_id results) \<and> list_all receipt_ok results
      then normalized_review_payload sha (review_data f) n = Inr f else \<not> is_ok (normalized_review_payload sha (review_data f) n)"
    using review_read_back[OF assms(1,2)] review_read_only_ok[OF assms(2)] by (auto simp: is_ok_iff)
  then show ?thesis
    using approval_read_back[OF assms(3)] promotion_read_back[OF assms(4)] assms(4)
    by (simp add: promotion_committed_data_Inr promotion_identity_Inr)
qed

end
