(* ===== verification/Promotion_Safety.thy ===== *)
theory Promotion_Safety imports Promotion_Accepted begin

text \<open>
  What the transactions of promotion guarantee, whatever other hosts do meanwhile: replay accepts
  what they write, an answer is backed by the ledger, and a promotion moves the target ref only as
  a human has approved it.
\<close>

section \<open>The calls of the engine\<close>

definition engine_keeps :: "('s \<Rightarrow> 's \<Rightarrow> bool) \<Rightarrow> 's promotion_engine \<Rightarrow> bool" where
  \<comment> \<open>every call but compare-and-swap\<close>
  "engine_keeps R eng \<longleftrightarrow> (\<forall>name. keeps R (pe_resolve eng name)) \<and> (\<forall>artifact. keeps R (pe_artifact eng artifact)) \<and>
     (\<forall>target. keeps R (pe_require_identity eng target) \<and> keeps R (pe_read_ref eng target)) \<and>
     (\<forall>target patch msg revision. keeps R (pe_rebuild eng target patch msg revision) \<and> keeps R (pe_enter eng target patch msg)) \<and>
     (\<forall>owner build. keeps R (pe_run eng owner build) \<and> keeps R (pe_reverify eng build) \<and> keeps R (pe_leave eng build)) \<and>
     (\<forall>owner command outcome. keeps R (pe_check_receipt eng owner command outcome))"

definition engine_swaps :: "('s \<Rightarrow> 's \<Rightarrow> bool) \<Rightarrow> 's promotion_engine \<Rightarrow> bool" where
  "engine_swaps R eng \<longleftrightarrow> (\<forall>target old new. keeps R (pe_compare_and_swap eng target old new))"

lemma engine_keepsD:
  assumes "engine_keeps R eng"
  shows "keeps R (pe_resolve eng name)" "keeps R (pe_artifact eng artifact)" "keeps R (pe_require_identity eng target)"
    "keeps R (pe_read_ref eng target)" "keeps R (pe_rebuild eng target patch msg revision)" "keeps R (pe_enter eng target patch msg)"
    "keeps R (pe_run eng owner build)" "keeps R (pe_reverify eng build)" "keeps R (pe_leave eng build)"
    "keeps R (pe_check_receipt eng owner command outcome)"
  using assms unfolding engine_keeps_def by blast+

context growth begin

lemma keeps_resolve: "engine_keeps R eng \<Longrightarrow> keeps R (resolve_target eng name)"
  unfolding resolve_target_def by (intro keeps_rules engine_keepsD)

lemma keeps_ref_state: "engine_keeps R eng \<Longrightarrow> keeps R (ref_state eng target review)"
  unfolding ref_state_def by (intro keeps_rules engine_keepsD)

lemma keeps_swap_ref:
  "engine_keeps R eng \<Longrightarrow> keeps R (pe_compare_and_swap eng target (rv_expected_revision review) (rv_integration_commit review)) \<Longrightarrow>
   keeps R (swap_ref eng target review)"
  unfolding swap_ref_def by (intro keeps_rules engine_keepsD)

lemma keeps_check_outcomes: "(\<And>c x. keeps R (receipt c x)) \<Longrightarrow> keeps R (check_outcomes h receipt cs xs)"
  by (induction h receipt cs xs rule: check_outcomes.induct) (simp_all only: check_outcomes.simps, (intro keeps_rules; simp)+)

lemma keeps_verify: "engine_keeps R eng \<Longrightarrow> keeps R (verify_patch h eng owner build)"
  unfolding verify_patch_def by (intro keeps_rules keeps_check_outcomes engine_keepsD)

lemma keeps_integrate: "engine_keeps R eng \<Longrightarrow> keeps R (integrate_and_verify h eng target artifact msg review)"
  unfolding integrate_and_verify_def by (intro keeps_rules keeps_verify engine_keepsD)

lemma keeps_confirm: "engine_keeps R eng \<Longrightarrow> keeps R (confirm_unchanged eng target artifact name)"
  unfolding confirm_unchanged_def by (intro keeps_rules engine_keepsD)

end

lemma on_store_reading: "abind (on_store (reading g)) f s = (case g (fst s) of Inl e \<Rightarrow> (s, Inl e) | Inr x \<Rightarrow> f x s)"
  by (cases "g (fst s)") (simp_all add: abind_def on_store_def reading_def)

lemma on_store_result: "m (fst s) = (st, r) \<Longrightarrow> on_store m s = ((st, snd s), r)"
  by (simp add: on_store_def)

lemma resolve_target_Inr:
  "resolve_target eng name s = (s', Inr target) \<Longrightarrow> pe_resolve eng name s = (s', Inr target) \<and> check_target name target = Inr target"
  unfolding resolve_target_def by (elim abind_Inr) (auto simp: lift_result_def check_target_def result_simps split: if_splits)

section \<open>Approval\<close>

lemma keeps_load:
  assumes "\<And>st0 l. store_ok st0 \<Longrightarrow> load_promotions sha st0 = Inr l \<Longrightarrow> keeps (grows_from sha st0) (f l)"
  shows "keeps (state_grows sha) (abind (on_store (reading (load_promotions sha))) f)"
  unfolding keeps_def
proof (intro allI impI)
  fix s :: "event_store \<times> 'a" assume s: "state_grows sha s s"
  then have ok: "store_ok (fst s)" unfolding state_grows_def by (rule promotions_grow_ok)
  show "state_grows sha s (fst (abind (on_store (reading (load_promotions sha))) f s))"
  proof (cases "load_promotions sha (fst s)")
    case (Inl e)
    then show ?thesis using s by (simp add: on_store_reading)
  next
    case (Inr l)
    have "grows_from sha (fst s) s s" using s ok by (simp add: grows_from_def extends_refl)
    then have "grows_from sha (fst s) s (fst (f l s))" using assms[OF ok Inr] unfolding keeps_def by blast
    then show ?thesis by (simp add: on_store_reading Inr grows_from_def)
  qed
qed

lemma engine_keeps_from: "engine_keeps (state_grows sha) eng \<Longrightarrow> engine_keeps (grows_from sha st0) eng"
  by (simp add: engine_keeps_def keeps_from)

lemma admit_approval_Inr:
  assumes "admit_approval h l review digest approver op = Inr x"
  obtains (recorded) a r where "x = Inl a" "approval_for_operation l op = Some a" "require_same_approval a op review digest approver = Inr ()"
      "ledger_review l review = Some r" "verified_by_host h r"
  | (admitted) r where "x = Inr r" "ledger_review l review = Some r" "verified_by_host h r" "rv_passed r" "digest = expected_approval_digest (ph_sha h) r"
  using assms by (auto simp: admit_approval_def Let_def result_simps split: option.splits if_splits)

lemma find_approval_cases:
  "find_approval op review digest approver l = Inr None \<Longrightarrow> approval_for_operation l op = None \<and> approval_for_review l review = None"
  "find_approval op review digest approver l = Inr (Some a) \<Longrightarrow> approval_for_operation l op = Some a \<and> require_same_approval a op review digest approver = Inr ()"
  by (auto simp: find_approval_def result_simps split: option.splits if_splits)

lemma fresh_digest:
  assumes "store_ok st" and l: "load_promotions sha st = Inr l" and r: "r \<in> set (pl_reviews l)"
    and none: "approval_for_review l (rv_review_id r) = None" and free: "\<not> digests_collide sha (stream_of st PROMOTION_LEDGER_STREAM)"
  shows "approval_for_digest l (expected_approval_digest sha r) = None"
proof (rule ccontr)
  assume "approval_for_digest l (expected_approval_digest sha r) \<noteq> None"
  then obtain a where a: "a \<in> set (pl_approvals l)" "pa_approval_digest a = expected_approval_digest sha r"
    by (auto simp: approval_for_digest_def dest: last_with_sound)
  then obtain r' where r': "r' \<in> set (pl_reviews l)" "approves sha r' a"
    using load_promotions_ok[OF assms(1) l] unfolding promotions_ok_def by blast
  have "rv_review_id r' \<noteq> rv_review_id r" using none a(1) r'(2) unfolding approval_for_review_def last_with_None by (auto simp: approves_def)
  moreover have "expected_approval_digest sha r' = expected_approval_digest sha r" using a(2) r'(2) by (simp add: approves_def)
  moreover have "rebuild_promotions sha (take (length (stream_of st PROMOTION_LEDGER_STREAM)) (stream_of st PROMOTION_LEDGER_STREAM)) = Inr l"
    using l by (simp add: load_promotions_Inr[OF assms(1)])
  ultimately show False using free r r'(1) unfolding digests_collide_def by blast
qed

lemma record_approval_keeps:
  assumes others: "promotion_interferes h" and aware: "aware_times h" and st0: "store_ok st0" and l: "load_promotions (ph_sha h) st0 = Inr l"
    and r: "ledger_review l review = Some r" "rv_passed r" "digest = expected_approval_digest (ph_sha h) r"
    and data: "approval_recorded_data op review digest approver = Inr data"
  shows "keeps (grows_from (ph_sha h) st0) (on_store (record_promotion h PATCH_APPROVAL_RECORDED data (find_approval op review digest approver) k))"
proof (rule record_keeps[OF others])
  fix st1 l1 assume ext: "extends st0 st1" and l1: "load_promotions (ph_sha h) st1 = Inr l1"
    and none: "find_approval op review digest approver l1 = Inr None"
    and free: "\<not> digests_collide (ph_sha h) (stream_of st1 PROMOTION_LEDGER_STREAM)"
  have ok: "store_ok st1" using ext by (simp add: extends_def)
  have "r \<in> set (pl_reviews l) \<and> rv_review_id r = review" using ledger_queries(1)[OF load_promotions_ok[OF st0 l]] r(1) by blast
  then have r1: "r \<in> set (pl_reviews l1)" "rv_review_id r = review" using load_promotions_grows[OF st0 ext l l1] by auto
  note fresh = find_approval_cases(1)[OF none]
  show "is_ok (rebuild_promotions (ph_sha h) (stream_of st1 PROMOTION_LEDGER_STREAM @ [promotion_envelope h PATCH_APPROVAL_RECORDED data (pl_head_seq l1 + 1)]))"
    using approval_accepted[OF l1[unfolded load_promotions_Inr[OF ok]] aware data r1 r(2,3)] fresh fresh_digest[OF ok l1 r1(1) _ free] r1(2) r(3) by simp
qed

lemma approve_grows:
  assumes others: "promotion_interferes h" and aware: "aware_times h" and eng: "engine_keeps (state_grows (ph_sha h)) eng"
  shows "keeps (state_grows (ph_sha h)) (approve_patch h eng review digest approver op)"
  unfolding approve_patch_def approve_admitted_def
proof (intro ledgers.keeps_lift_bind ledgers.keeps_if ledgers.keeps_lift keeps_load looked.keeps_lift_bind looked.keeps_sum looked.keeps_abind
    looked.keeps_resolve[OF engine_keeps_from[OF eng]] looked.keeps_if looked.keeps_lift)
  fix review' approver' op' st0 l data x r
  assume st0: "store_ok st0" "load_promotions (ph_sha h) st0 = Inr l" and data: "approval_recorded_data op' review' digest approver' = Inr data"
    and x: "admit_approval h l review' digest approver' op' = Inr x" "x = Inr r"
  from x(1) have r: "ledger_review l review' = Some r" "rv_passed r" "digest = expected_approval_digest (ph_sha h) r"
    by (cases rule: admit_approval_Inr; use x(2) in simp)+
  show "keeps (grows_from (ph_sha h) st0) (on_store (record_promotion h PATCH_APPROVAL_RECORDED data (find_approval op' review' digest approver') 1))"
    by (rule record_approval_keeps[OF others aware st0 r data])
qed

section \<open>Promotion\<close>

lemma admit_promotion_Inr:
  assumes "admit_promotion h l digest = Inr x"
  obtains a r where "approval_for_digest l digest = Some a" "ledger_review l (pa_review_id a) = Some r" "rv_passed r" "verified_by_host h r"
    "digest = expected_approval_digest (ph_sha h) r" "x = (case promotion_for_approval l digest of None \<Rightarrow> Inr r | Some p \<Rightarrow> Inl p)"
  using assms by (auto simp: admit_promotion_def split: option.splits if_splits)

lemma record_promotion_keeps:
  assumes others: "promotion_interferes h" and aware: "aware_times h" and st0: "store_ok st0" and l: "load_promotions (ph_sha h) st0 = Inr l"
    and a: "approval_for_digest l digest = Some a" and r: "ledger_review l (pa_review_id a) = Some r"
    and data: "promotion_committed_data (rv_review_id r) digest (rv_target_id r) (rv_repository_fingerprint r) (rv_target_ref r)
      (rv_expected_revision r) (rv_integration_commit r) (rv_integration_tree r) = Inr data"
  shows "keeps (grows_from (ph_sha h) st0) (on_store (record_promotion h PATCH_PROMOTION_COMMITTED data (\<lambda>l. Inr (promotion_for_approval l digest)) k))"
proof (rule record_keeps[OF others])
  fix st1 l1 assume ext: "extends st0 st1" and l1: "load_promotions (ph_sha h) st1 = Inr l1"
    and none: "Inr (promotion_for_approval l1 digest) = (Inr None :: patch_promotion option result)"
  have ok: "store_ok st1" using ext by (simp add: extends_def)
  note Q = ledger_queries[OF load_promotions_ok[OF st0 l]]
  have "a \<in> set (pl_approvals l)" "pa_approval_digest a = digest" "r \<in> set (pl_reviews l)" "rv_review_id r = pa_review_id a" using a r Q(1,3) by auto
  then have in1: "a \<in> set (pl_approvals l1)" "pa_approval_digest a = digest" "r \<in> set (pl_reviews l1)" "pa_review_id a = rv_review_id r"
    using load_promotions_grows[OF st0 ext l l1] by auto
  show "is_ok (rebuild_promotions (ph_sha h) (stream_of st1 PROMOTION_LEDGER_STREAM @ [promotion_envelope h PATCH_PROMOTION_COMMITTED data (pl_head_seq l1 + 1)]))"
    using promotion_accepted[OF l1[unfolded load_promotions_Inr[OF ok]] aware data in1(3,1,2,4)] none by simp
qed

lemma promote_admitted_grows:
  assumes others: "promotion_interferes h" and aware: "aware_times h" and eng: "engine_keeps (state_grows (ph_sha h)) eng"
    and swaps: "engine_swaps (state_grows (ph_sha h)) eng" and st0: "store_ok st0" and l: "load_promotions (ph_sha h) st0 = Inr l"
    and a: "approval_for_digest l digest = Some a" and r: "ledger_review l (pa_review_id a) = Some r"
  shows "keeps (grows_from (ph_sha h) st0) (promote_admitted h eng r digest)"
proof -
  note eng' = engine_keeps_from[OF eng, of st0]
  have swap: "keeps (grows_from (ph_sha h) st0) (pe_compare_and_swap eng target old new)" for target old new
    using swaps by (intro keeps_from) (simp add: engine_swaps_def)
  show ?thesis
    unfolding promote_admitted_def
    by (intro looked.keeps_lift_bind looked.keeps_abind looked.keeps_if looked.keeps_lift engine_keepsD[OF eng'] looked.keeps_resolve[OF eng']
        looked.keeps_ref_state[OF eng'] looked.keeps_swap_ref[OF eng'] swap) (rule record_promotion_keeps[OF others aware st0 l a r])
qed

lemma promote_grows:
  assumes "promotion_interferes h" "aware_times h" "engine_keeps (state_grows (ph_sha h)) eng" "engine_swaps (state_grows (ph_sha h)) eng"
  shows "keeps (state_grows (ph_sha h)) (promote_patch h eng digest)"
  unfolding promote_patch_def
proof (intro ledgers.keeps_if ledgers.keeps_lift keeps_load looked.keeps_lift_bind looked.keeps_sum looked.keeps_lift)
  fix st0 l x r assume st0: "store_ok st0" "load_promotions (ph_sha h) st0 = Inr l" and x: "admit_promotion h l digest = Inr x" "x = Inr r"
  from x(1) obtain a where "approval_for_digest l digest = Some a" "ledger_review l (pa_review_id a) = Some r"
    by (cases rule: admit_promotion_Inr) (use x(2) in \<open>auto split: option.splits\<close>)
  then show "keeps (grows_from (ph_sha h) st0) (promote_admitted h eng r digest)"
    using promote_admitted_grows[OF assms st0] by blast
qed

section \<open>Review\<close>

definition receipts_ok :: "'s promotion_engine \<Rightarrow> bool" where
  \<comment> \<open>a sandbox reference in an answer of the runner is one that its constructor admits (api/sandbox.py)\<close>
  "receipts_ok eng \<longleftrightarrow> (\<forall>owner build s s' ev. pe_run eng owner build s = (s', Inr ev) \<longrightarrow> list_all receipt_ok (ve_results ev))"

lemma check_outcomes_Inr:
  assumes "check_outcomes h receipt cs xs s = (s', Inr u)" "length xs = length cs"
  shows "list_all (\<lambda>r. freeze_verifier_outcome r = Inr r) xs \<and> map vo_command_id xs = map vc_command_id cs"
  using assms
proof (induction h receipt cs xs arbitrary: s rule: check_outcomes.induct)
  case (1 h receipt c cs x xs)
  have "freeze_verifier_outcome x = Inr x \<and> vo_command_id x = vc_command_id c \<and> (\<exists>s1. check_outcomes h receipt cs xs s1 = (s', Inr u))"
    using 1(2) unfolding check_outcomes.simps
    by (elim abind_Inr) (auto simp: lift_result_def check_outcome_def result_simps freeze_outcome_Inr split: if_splits)
  then show ?case using 1(1) 1(3) by auto
qed simp_all

lemma check_commands_Inr: "check_commands ids cs = Inr u \<Longrightarrow> distinct (map vc_command_id cs) \<and> set ids \<inter> vc_command_id ` set cs = {}"
proof (induction ids cs rule: check_commands.induct)
  case (2 ids c cs)
  then obtain f where "freeze_verifier_command c = Inr f" "vc_command_id f \<notin> set ids" "check_commands (vc_command_id f # ids) cs = Inr u"
    by (auto simp: result_simps split: if_splits)
  moreover have "f = c" using calculation(1) by (auto simp: freeze_verifier_command_def result_simps split: if_splits)
  ultimately show ?case using 2 by auto
qed simp

lemma verify_patch_Inr:
  assumes "verify_patch h eng owner build s = (s', Inr ev)" "receipts_ok eng"
  shows "results_ok (ve_results ev)"
proof -
  obtain s1 s2 d u where run: "pe_run eng owner build s = (s1, Inr ev)" "verifier_definition_digest (ph_sha h) (ph_plan h) = Inr d"
    "length (ve_results ev) = length (vp_commands (ph_plan h))"
    and checks: "check_outcomes h (pe_check_receipt eng owner) (vp_commands (ph_plan h)) (ve_results ev) s1 = (s2, Inr u)"
    using assms(1) unfolding verify_patch_def
    by (elim abind_Inr) (auto simp: lift_result_def result_simps split: if_splits)
  have "distinct (map vc_command_id (vp_commands (ph_plan h)))"
    using run(2) check_commands_Inr by (auto simp: verifier_definition_digest_def freeze_verification_plan_def result_simps split: if_splits)
  then show ?thesis
    using check_outcomes_Inr[OF checks run(3)] assms(2) run(1) unfolding results_ok_def receipts_ok_def by (auto simp: list_all_iff)
qed

lemma integrate_and_verify_Inr:
  assumes "integrate_and_verify h eng target artifact msg review s = (s', Inr (ev, build))" "receipts_ok eng"
  shows "results_ok (ve_results ev)"
  using assms(1) unfolding integrate_and_verify_def
  by (elim abind_Inr) (auto simp: lift_result_def split: if_splits dest!: try_finally_Inr elim!: abind_Inr intro: verify_patch_Inr[OF _ assms(2)])

lemma record_review_keeps:
  assumes others: "promotion_interferes h" and aware: "aware_times h" and hex: "hex_hash (ph_sha h)"
    and data: "review_recorded_data (ph_sha h) request subject definition_digest results = Inr data" and rs: "results_ok results"
    and review: "review_identity (ph_sha h) request = Inr review"
  shows "keeps (grows_from (ph_sha h) st0) (on_store (record_promotion h PATCH_REVIEW_RECORDED data (find_review h review artifact place) k))"
proof (rule record_keeps[OF others])
  fix st1 l1 assume ext: "extends st0 st1" and l1: "load_promotions (ph_sha h) st1 = Inr l1" and none: "find_review h review artifact place l1 = Inr None"
  have ok: "store_ok st1" using ext by (simp add: extends_def)
  obtain f where f: "review_recorded_fact (ph_sha h) request subject definition_digest results = Inr f" "data = review_data f"
    using data by (auto simp: review_recorded_data_def result_simps)
  have "rv_review_id f = review" using review_recorded_fact_Inr[OF f(1)] review by simp
  then have "ledger_review l1 (rv_review_id f) = None" using none by (auto simp: find_review_def result_simps split: option.splits)
  then show "is_ok (rebuild_promotions (ph_sha h) (stream_of st1 PROMOTION_LEDGER_STREAM @ [promotion_envelope h PATCH_REVIEW_RECORDED data (pl_head_seq l1 + 1)]))"
    using review_accepted[OF l1[unfolded load_promotions_Inr[OF ok]] aware hex f(1) rs] unfolding f(2) by blast
qed

lemma run_review_keeps:
  assumes others: "promotion_interferes h" and aware: "aware_times h" and hex: "hex_hash (ph_sha h)"
    and eng: "engine_keeps (grows_from (ph_sha h) st0) eng" and receipts: "receipts_ok eng"
    and review: "review_identity (ph_sha h) request = Inr review"
  shows "keeps (grows_from (ph_sha h) st0) (run_review h eng review request artifact place)"
  unfolding run_review_def
proof (rule looked.keeps_abind[OF engine_keepsD(2)[OF eng]], rule looked.keeps_abind[OF looked.keeps_resolve[OF eng]],
    rule looked.keeps_lift_bind, rule looked.keeps_abind_when[OF looked.keeps_integrate[OF eng]])
  fix item target msg s s' x
  assume x: "integrate_and_verify h eng target item msg review s = (s', Inr x)"
  obtain ev build where y: "x = (ev, build)" by (cases x)
  have rs: "results_ok (ve_results ev)" using integrate_and_verify_Inr[OF x[unfolded y] receipts] .
  show "keeps (grows_from (ph_sha h) st0) (case x of (evidence, build) \<Rightarrow>
     abind (confirm_unchanged eng target item artifact) (\<lambda>_.
     abind (lift_result (review_recorded_data (ph_sha h) request
       \<lparr>rs_artifact_id = ar_artifact_id item, rs_manifest_digest = ar_manifest_digest item, rs_patch_sha256 = ar_sha256 item,
        rs_patch_size_bytes = ar_size_bytes item, rs_target = target, rs_integration_tree = ib_integration_tree build,
        rs_integration_commit = ib_integration_commit build\<rparr> (ve_definition_digest evidence) (ve_results evidence))) (\<lambda>data.
       on_store (record_promotion h PATCH_REVIEW_RECORDED data (find_review h review artifact place) 1))))"
    unfolding y prod.case
    by (rule looked.keeps_abind[OF looked.keeps_confirm[OF eng]], rule looked.keeps_lift_bind)
      (rule record_review_keeps[OF others aware hex _ rs review])
qed

lemma review_grows:
  assumes "promotion_interferes h" "aware_times h" "hex_hash (ph_sha h)" "engine_keeps (state_grows (ph_sha h)) eng" "receipts_ok eng"
  shows "keeps (state_grows (ph_sha h)) (review_patch h eng request artifact place)"
  unfolding review_patch_def
  by (intro ledgers.keeps_lift_bind keeps_load looked.keeps_option looked.keeps_lift)
    (auto simp: result_simps intro!: run_review_keeps[OF assms(1-3) engine_keeps_from[OF assms(4)] assms(5)])

section \<open>The ref of the target\<close>

definition ref_key :: "'a review_fact_scheme \<Rightarrow> pystr \<times> pystr" where
  "ref_key r = (rv_repository_fingerprint r, rv_target_ref r)"

definition ref_moved :: "('w \<Rightarrow> pystr \<times> pystr \<Rightarrow> pystr option) \<Rightarrow> 'a review_fact_scheme \<Rightarrow> event_store \<times> 'w \<Rightarrow> event_store \<times> 'w \<Rightarrow> bool" where
  "ref_moved refs r s s' \<longleftrightarrow> refs (snd s') = refs (snd s) \<or>
     refs (snd s) (ref_key r) = Some (rv_expected_revision r) \<and> refs (snd s') = (refs (snd s))(ref_key r \<mapsto> rv_integration_commit r)"

interpretation target: growth "ref_moved refs r" for refs r
  by unfold_locales (auto simp: ref_moved_def fun_upd_idem)

definition same_refs :: "('w \<Rightarrow> pystr \<times> pystr \<Rightarrow> pystr option) \<Rightarrow> event_store \<times> 'w \<Rightarrow> event_store \<times> 'w \<Rightarrow> bool" where
  "same_refs refs s s' \<longleftrightarrow> refs (snd s') = refs (snd s)"

text \<open>\<open>git update-ref <ref> <new> <old>\<close>: the ref is left as it is, or it was \<open>old\<close> and becomes \<open>new\<close>.\<close>

definition update_ref_swaps :: "('w \<Rightarrow> pystr \<times> pystr \<Rightarrow> pystr option) \<Rightarrow> (event_store \<times> 'w) promotion_engine \<Rightarrow> bool" where
  "update_ref_swaps refs eng \<longleftrightarrow> (\<forall>target old new s.
     let s' = fst (pe_compare_and_swap eng target old new s); k = (pt_repository_fingerprint target, pt_target_ref target)
     in refs (snd s') = refs (snd s) \<or> refs (snd s) k = Some old \<and> refs (snd s') = (refs (snd s))(k \<mapsto> new))"

lemma keeps_same_refs: "keeps (same_refs refs) m \<Longrightarrow> keeps (ref_moved refs r) m"
  by (auto simp: keeps_def same_refs_def ref_moved_def)

lemma engine_keeps_refs: "engine_keeps (same_refs refs) eng \<Longrightarrow> engine_keeps (ref_moved refs r) eng"
  by (simp add: engine_keeps_def keeps_same_refs)

lemma on_store_keeps_refs: "keeps (ref_moved refs r) (on_store m)"
  by (simp add: keeps_def ref_moved_def on_store_def split: prod.split)

lemma swap_keeps_refs:
  assumes "update_ref_swaps refs eng" "same_target target r"
  shows "keeps (ref_moved refs r) (pe_compare_and_swap eng target (rv_expected_revision r) (rv_integration_commit r))"
  unfolding keeps_def
proof (intro allI impI)
  fix s
  show "ref_moved refs r s (fst (pe_compare_and_swap eng target (rv_expected_revision r) (rv_integration_commit r) s))"
    using assms(1)[unfolded update_ref_swaps_def Let_def, rule_format, of target "rv_expected_revision r" "rv_integration_commit r" s] assms(2)
    by (simp add: ref_moved_def ref_key_def same_target_def)
qed

lemma promote_admitted_refs:
  assumes eng: "engine_keeps (same_refs refs) eng" and swap: "update_ref_swaps refs eng"
  shows "keeps (ref_moved refs r) (promote_admitted h eng r digest)"
proof -
  note eng' = engine_keeps_refs[OF eng, of r]
  show ?thesis
    unfolding promote_admitted_def
    by (intro target.keeps_lift_bind target.keeps_abind target.keeps_if target.keeps_lift engine_keepsD[OF eng'] target.keeps_resolve[OF eng']
        target.keeps_ref_state[OF eng'] target.keeps_swap_ref[OF eng'] on_store_keeps_refs) (auto intro: swap_keeps_refs[OF swap])
qed

section \<open>What an answer says\<close>

lemma approve_patch_Inr:
  assumes "approve_patch h eng review digest approver op s = (s', Inr a)"
  obtains l r l' where "load_promotions (ph_sha h) (fst s) = Inr l" "ledger_review l review = Some r" "verified_by_host h r"
    "load_promotions (ph_sha h) (fst s') = Inr l'" "approval_for_operation l' op = Some a" "require_same_approval a op review digest approver = Inr ()"
proof -
  obtain l data x where l: "load_promotions (ph_sha h) (fst s) = Inr l" and x: "admit_approval h l review digest approver op = Inr x"
    and run: "(case x of Inl recorded \<Rightarrow> lift_result (Inr recorded)
       | Inr r \<Rightarrow> abind (resolve_target eng (rv_target_id r)) (\<lambda>target.
             if \<not> same_target target r \<or> pt_expected_revision target \<noteq> rv_expected_revision r then lift_result (Inl PromotionTargetDriftError)
             else on_store (record_promotion h PATCH_APPROVAL_RECORDED data (find_approval op review digest approver) 1))) s = (s', Inr a)"
    using assms unfolding approve_patch_def approve_admitted_def on_store_reading
    by (auto simp: lift_result_def on_store_reading result_simps elim!: abind_Inr split: if_splits sum.splits)
  from x show thesis
  proof (cases rule: admit_approval_Inr)
    case (recorded a' r)
    then show ?thesis using that[of l r l] l run by (simp add: lift_result_def)
  next
    case (admitted r)
    then obtain s1 target where "on_store (record_promotion h PATCH_APPROVAL_RECORDED data (find_approval op review digest approver) 1) s1 = (s', Inr a)"
      using run by (auto simp: lift_result_def elim!: abind_Inr split: if_splits)
    then have "record_promotion h PATCH_APPROVAL_RECORDED data (find_approval op review digest approver) 1 (fst s1) = (fst s', Inr a)"
      by (auto simp: on_store_def split: prod.splits)
    from record_promotion_answer[OF this] show ?thesis using that[of l r] l admitted find_approval_cases(2) by blast
  qed
qed

section \<open>Properties\<close>

text \<open>
  C37: the service never breaks its ledger. Whatever review, approval and promotion answer, and
  whatever other hosts append in between, the store is only extended, and a ledger that was
  readable stays readable unless two different reviews collide under SHA-256. The hypotheses are
  what the code relies on: the other hosts and the calls of the engine only extend the store and
  keep the ledger readable, event times have a time zone, SHA-256 digests are 64 hexadecimal
  digits, and the sandbox references of the runner are as their constructor checks them.
\<close>

theorem promotion_service_keeps_ledger:
  assumes "store_ok (fst s)" and "promotion_interferes h" and "aware_times h" and "hex_hash (ph_sha h)"
    and "engine_keeps (state_grows (ph_sha h)) eng" and "engine_swaps (state_grows (ph_sha h)) eng" and "receipts_ok eng"
    and "s' \<in> {fst (review_patch h eng request artifact place s), fst (approve_patch h eng review digest approver op s), fst (promote_patch h eng digest s)}"
  shows "extends (fst s) (fst s') \<and>
    (if is_ok (load_promotions (ph_sha h) (fst s)) \<and> \<not> digests_collide (ph_sha h) (stream_of (fst s') PROMOTION_LEDGER_STREAM)
     then is_ok (load_promotions (ph_sha h) (fst s')) else True)"
proof -
  have "state_grows (ph_sha h) s s" using promotions_grow_refl[OF assms(1)] by (simp add: state_grows_def)
  then have "state_grows (ph_sha h) s s'"
    using assms(8) review_grows[OF assms(2-5,7), of request artifact place] approve_grows[OF assms(2,3,5), of review digest approver op]
      promote_grows[OF assms(2,3,5,6), of digest] unfolding keeps_def by blast
  then show ?thesis by (simp add: state_grows_def promotions_grow_def)
qed

text \<open>
  C38: an approval that is answered is on record and was earned. When approving answers with an
  approval, whether it was recorded now or before, the ledger holds it with the operation, the
  approver and the digest that were asked for, for the review that was named: a review that
  passed, whose content has exactly that digest, and whose results match the plan and the sandbox
  policy of this host.
\<close>

theorem approve_is_backed:
  assumes "store_ok (fst s)" and "promotion_interferes h" and "aware_times h" and "engine_keeps (state_grows (ph_sha h)) eng"
    and "approve_patch h eng review digest approver op s = (s', Inr a)"
  shows "\<exists>l r. load_promotions (ph_sha h) (fst s') = Inr l \<and> a \<in> set (pl_approvals l) \<and> pa_operation_id a = op \<and> pa_approver_id a = approver \<and>
    pa_approval_digest a = digest \<and> r \<in> set (pl_reviews l) \<and> rv_review_id r = review \<and> approves (ph_sha h) r a \<and> verified_by_host h r"
proof -
  let ?sha = "ph_sha h"
  have "state_grows ?sha s s" using promotions_grow_refl[OF assms(1)] by (simp add: state_grows_def)
  then have grow: "state_grows ?sha s s'" using approve_grows[OF assms(2-4)] assms(5) unfolding keeps_def by (metis fst_conv)
  then have ext: "extends (fst s) (fst s')" by (simp add: state_grows_def promotions_grow_def)
  have ok': "store_ok (fst s')" using ext by (simp add: extends_def)
  obtain l r l' where l: "load_promotions ?sha (fst s) = Inr l" and r: "ledger_review l review = Some r" "verified_by_host h r"
    and l': "load_promotions ?sha (fst s') = Inr l'" "approval_for_operation l' op = Some a" "require_same_approval a op review digest approver = Inr ()"
    using assms(5) by (rule approve_patch_Inr)
  note P = load_promotions_ok[OF ok' l'(1)]
  have a: "a \<in> set (pl_approvals l')" "pa_operation_id a = op" "pa_approver_id a = approver" "pa_approval_digest a = digest" "pa_review_id a = review"
    using ledger_queries(4)[OF P] l'(2,3) by (auto simp: require_same_approval_def result_simps)
  obtain r' where r': "r' \<in> set (pl_reviews l')" "approves ?sha r' a" using P a(1) unfolding promotions_ok_def by blast
  have "r \<in> set (pl_reviews l')" "rv_review_id r = review"
    using ledger_queries(1)[OF load_promotions_ok[OF assms(1) l]] r(1) load_promotions_grows[OF assms(1) ext l l'(1)] by auto
  moreover have "rv_review_id r' = review" using r'(2) a(5) by (simp add: approves_def)
  ultimately have "r = r'" using r'(1) ledger_queries(1)[OF P, of review r] ledger_queries(1)[OF P, of review r'] by simp
  then show ?thesis using l'(1) a r' r(2) \<open>rv_review_id r' = review\<close> by blast
qed


text \<open>
  C39: a promotion moves one ref, as a human has approved it. The refs behind the engine change only
  by compare-and-swap, which behaves as \<open>git update-ref\<close> with an expected old value. Then promoting
  a digest leaves every ref as it was, or it moves the ref of the target of a review from the
  revision the review was made at to the commit it has verified, and the ledger that was read
  first holds an approval of exactly this digest for that review, which passed and matches the
  plan and the sandbox policy of this host.
\<close>

theorem promote_moves_ref_as_approved:
  assumes "store_ok (fst s)" and "engine_keeps (same_refs refs) eng" and "update_ref_swaps refs eng" and "promote_patch h eng digest s = (s', x)"
    and "refs (snd s') \<noteq> refs (snd s)"
  shows "\<exists>l a r. load_promotions (ph_sha h) (fst s) = Inr l \<and> a \<in> set (pl_approvals l) \<and> pa_approval_digest a = digest \<and> r \<in> set (pl_reviews l) \<and>
    approves (ph_sha h) r a \<and> verified_by_host h r \<and> refs (snd s) (rv_repository_fingerprint r, rv_target_ref r) = Some (rv_expected_revision r) \<and>
    refs (snd s') = (refs (snd s))((rv_repository_fingerprint r, rv_target_ref r) \<mapsto> rv_integration_commit r)"
proof -
  obtain l y where l: "load_promotions (ph_sha h) (fst s) = Inr l" and y: "admit_promotion h l digest = Inr y"
    and run: "(case y of Inl recorded \<Rightarrow> lift_result (Inr recorded) | Inr r \<Rightarrow> promote_admitted h eng r digest) s = (s', x)"
    using assms(4,5) unfolding promote_patch_def
    by (cases "load_promotions (ph_sha h) (fst s)"; cases "admit_promotion h (projr (load_promotions (ph_sha h) (fst s))) digest")
      (auto simp: on_store_reading lift_result_def split: if_splits)
  from y show ?thesis
  proof (cases rule: admit_promotion_Inr)
    case (1 a r)
    note Q = ledger_queries[OF load_promotions_ok[OF assms(1) l]]
    have a: "a \<in> set (pl_approvals l)" "pa_approval_digest a = digest" and r: "r \<in> set (pl_reviews l)" "rv_review_id r = pa_review_id a"
      using 1(1,2) Q(1,3) by auto
    obtain r' where r': "r' \<in> set (pl_reviews l)" "approves (ph_sha h) r' a"
      using load_promotions_ok[OF assms(1) l] a(1) unfolding promotions_ok_def by blast
    have "r = r'" using Q(1)[of "pa_review_id a" r] Q(1)[of "pa_review_id a" r'] r r' by (simp add: approves_def)
    moreover have "y = Inr r" using 1(6) run assms(5) by (cases "promotion_for_approval l digest") (auto simp: lift_result_def)
    then have "ref_moved refs r s s'"
      using promote_admitted_refs[OF assms(2,3), of r h digest] run unfolding keeps_def by (metis fst_conv ref_moved_def sum.case(2))
    ultimately show ?thesis using l a r(1) r'(2) 1(4) assms(5) unfolding ref_moved_def ref_key_def by blast
  qed
qed

end
