(* ===== verification/Promotion_Samples.thy ===== *)
theory Promotion_Samples imports Promotion_Safety begin

text \<open>
  A sample host on which the properties of promotion are applied: one target with one ref, one
  artifact and a plan of one command which passes. The digest is constant, so all identities are
  known; a ledger then has at most one review, and no two reviews collide.
\<close>

definition digest_sample :: "pystr \<Rightarrow> pystr" where
  "digest_sample text = replicate 64 97"

definition plan_sample :: verification_plan where
  "plan_sample = \<lparr>vp_plan_id = lit ''plan'', vp_plan_version = 1,
     vp_commands = [\<lparr>vc_command_id = lit ''test'', vc_argv = [lit ''pytest''], vc_timeout_ms = 1000, vc_public_requirement = None\<rparr>],
     vp_environment = \<lparr>ep_policy_id = lit ''env'', ep_passthrough = [], ep_overrides = []\<rparr>, vp_max_output_bytes = 1000,
     vp_protocol_version = 3\<rparr>"

definition promotion_host_sample :: promotion_host where
  "promotion_host_sample = \<lparr>ph_sha = digest_sample, ph_drawn = \<lambda>n. (n, \<lparr>dt_micros = n, dt_utcoffset = Some 0\<rparr>), ph_others = \<lambda>_ st. st,
     ph_plan = plan_sample, ph_policy_digest = None\<rparr>"

definition target_sample :: promotion_target where
  "target_sample = \<lparr>pt_target_id = lit ''prod'', pt_repository_path = lit ''/srv/repo'', pt_repository_fingerprint = replicate 64 98,
     pt_target_ref = lit ''refs/heads/main'', pt_expected_revision = replicate 40 99\<rparr>"

definition artifact_sample :: patch_artifact where
  "artifact_sample = \<lparr>ar_artifact_id = lit ''art'', ar_manifest_digest = replicate 64 97, ar_sha256 = replicate 64 97, ar_size_bytes = 3,
     ar_session_id = lit ''ses'', ar_agent_id = lit ''ag'', ar_content = [1, 2, 3]\<rparr>"

definition build_sample :: integration_build where
  "build_sample = \<lparr>ib_integration_tree = replicate 40 100, ib_integration_commit = replicate 40 101\<rparr>"

definition evidence_sample :: verification_evidence where
  "evidence_sample = \<lparr>ve_definition_digest = replicate 64 97, ve_evidence_digest = replicate 64 97,
     ve_results = [\<lparr>vo_command_id = lit ''test'', vo_argv_digest = replicate 64 97, vo_status = lit ''passed'', vo_exit_code = Some 0,
        vo_stdout_sha256 = replicate 64 97, vo_stdout_bytes = 0, vo_stderr_sha256 = replicate 64 97, vo_stderr_bytes = 0, vo_execution = None\<rparr>],
     ve_passed = True\<rparr>"

type_synonym refs_sample = "(pystr \<times> pystr, pystr) dict"

definition swap_sample :: "promotion_target \<Rightarrow> pystr \<Rightarrow> pystr \<Rightarrow> (event_store \<times> refs_sample, bool) action" where
  "swap_sample target old new s =
     (let k = (pt_repository_fingerprint target, pt_target_ref target) in
      if map_of (snd s) k = Some old then ((fst s, dict_set k new (snd s)), Inr True) else (s, Inr False))"

definition engine_sample :: "(event_store \<times> refs_sample) promotion_engine" where
  "engine_sample = \<lparr>pe_resolve = \<lambda>_. lift_result (Inr target_sample), pe_artifact = \<lambda>_. lift_result (Inr artifact_sample),
     pe_require_identity = \<lambda>_. lift_result (Inr ()),
     pe_read_ref = \<lambda>target. reading (\<lambda>s. Inr (map_of (snd s) (pt_repository_fingerprint target, pt_target_ref target))),
     pe_rebuild = \<lambda>_ _ _ _. lift_result (Inr build_sample), pe_compare_and_swap = swap_sample,
     pe_enter = \<lambda>_ _ _. lift_result (Inr build_sample), pe_run = \<lambda>_ _. lift_result (Inr evidence_sample),
     pe_check_receipt = \<lambda>_ _ _. lift_result (Inr ()), pe_reverify = \<lambda>_. lift_result (Inr build_sample), pe_leave = \<lambda>_. lift_result (Inr ())\<rparr>"

definition refs_before :: refs_sample where
  "refs_before = [((replicate 64 98, lit ''refs/heads/main''), replicate 40 99)]"

text \<open>The ledger after a review, after its approval and after its promotion.\<close>

definition review_fact_sample :: review_fact where
  "review_fact_sample = \<lparr>rv_review_id = lit ''review-'' @ replicate 64 97, rv_review_request_id = lit ''req'', rv_artifact_id = lit ''art'',
     rv_manifest_digest = replicate 64 97, rv_patch_sha256 = replicate 64 97, rv_patch_size_bytes = 3, rv_target_id = lit ''prod'',
     rv_repository_fingerprint = replicate 64 98, rv_target_ref = lit ''refs/heads/main'', rv_expected_revision = replicate 40 99,
     rv_integration_tree = replicate 40 100, rv_integration_commit = replicate 40 101, rv_verifier_definition_digest = replicate 64 97,
     rv_verification_evidence_digest = replicate 64 97, rv_results = ve_results evidence_sample, rv_passed = True,
     rv_merge_policy_version = 1, rv_promotion_protocol_version = 3\<rparr>"

definition approval_fact_sample :: approval_fact where
  "approval_fact_sample = \<lparr>pa_operation_id = lit ''op'', pa_review_id = lit ''review-'' @ replicate 64 97, pa_approval_digest = replicate 64 97,
     pa_approver_id = lit ''ann''\<rparr>"

definition promotion_fact_sample :: promotion_fact where
  "promotion_fact_sample = \<lparr>pp_promotion_id = lit ''promotion-'' @ replicate 64 97, pp_review_id = lit ''review-'' @ replicate 64 97,
     pp_approval_digest = replicate 64 97, pp_target_id = lit ''prod'', pp_repository_fingerprint = replicate 64 98,
     pp_target_ref = lit ''refs/heads/main'', pp_previous_revision = replicate 40 99, pp_new_revision = replicate 40 101,
     pp_integration_tree = replicate 40 100, pp_merge_policy_version = 1, pp_promotion_protocol_version = 3\<rparr>"

definition ledger_events_sample :: "event_envelope list" where
  "ledger_events_sample = [promotion_envelope promotion_host_sample PATCH_REVIEW_RECORDED (review_data review_fact_sample) 1,
     promotion_envelope promotion_host_sample PATCH_APPROVAL_RECORDED (approval_payload approval_fact_sample) 2,
     promotion_envelope promotion_host_sample PATCH_PROMOTION_COMMITTED (promotion_payload promotion_fact_sample) 3]"

definition ledger_state_sample :: "nat \<Rightarrow> event_store \<times> refs_sample" where
  "ledger_state_sample n = (\<lparr>es_streams = [(PROMOTION_LEDGER_STREAM, take n ledger_events_sample)]\<rparr>, refs_before)"

definition report_sample :: patch_review_report where
  "report_sample = review_fact.extend review_fact_sample (patch_review_report.fields \<lparr>dt_micros = 1, dt_utcoffset = Some 0\<rparr> (replicate 64 97) 1)"

definition approval_sample :: patch_approval where
  "approval_sample = approval_fact.extend approval_fact_sample (patch_approval.fields \<lparr>dt_micros = 2, dt_utcoffset = Some 0\<rparr> 2)"

definition promotion_sample :: patch_promotion where
  "promotion_sample = promotion_fact.extend promotion_fact_sample (patch_promotion.fields \<lparr>dt_micros = 3, dt_utcoffset = Some 0\<rparr> 3)"

definition ledger_sample :: "nat \<Rightarrow> promotion_ledger" where
  "ledger_sample n = \<lparr>pl_reviews = take n [report_sample], pl_approvals = take (n - 1) [approval_sample],
     pl_promotions = take (n - 2) [promotion_sample], pl_head_seq = int n\<rparr>"

lemma fingerprint_sample [simp]: "fingerprint digest_sample v = replicate 64 97"
  by (simp add: fingerprint_def digest_sample_def)

lemma sample_text: "is_hex_digest (JStr (replicate 64 97)) [64]" "is_hex_digest (JStr (replicate 64 98)) [64]"
  "is_hex_digest (JStr (replicate 40 99)) [40, 64]" "is_hex_digest (JStr (replicate 40 100)) [40, 64]" "is_hex_digest (JStr (replicate 40 101)) [40, 64]"
  "target_ref_ok (lit ''refs/heads/main'')" "ident_ok (lit ''req'')" "ident_ok (lit ''art'')" "ident_ok (lit ''prod'')" "ident_ok (lit ''test'')"
  "ident_ok (lit ''op'')" "ident_ok (lit ''ann'')" "ident_ok (lit ''plan'')" "ident_ok (lit ''env'')"
  by code_simp+

lemma sample_ids: "ident_ok (lit ''review-'' @ replicate 64 97)" "ident_ok (lit ''promotion-'' @ replicate 64 97)"
  using hex_identifier sample_text(1) by blast+

lemma freeze_sample: "freeze_verification_plan plan_sample = Inr plan_sample" "list_all (\<lambda>r. freeze_verifier_outcome r = Inr r \<and> receipt_ok r) (ve_results evidence_sample)"
  by code_simp+

lemmas sample_eval = sample_text sample_ids review_identity_def require_promotion_identifier_def require_hex_digest_def promotion_bounded_int_def require_target_ref_def 

lemma sample_results: "results_ok (ve_results evidence_sample)"
  using freeze_sample(2) by (simp add: results_ok_def evidence_sample_def)

lemma sample_review_fact:
  "review_recorded_fact digest_sample (lit ''req'') \<lparr>rs_artifact_id = lit ''art'', rs_manifest_digest = replicate 64 97, rs_patch_sha256 = replicate 64 97,
      rs_patch_size_bytes = 3, rs_target = target_sample, rs_integration_tree = replicate 40 100, rs_integration_commit = replicate 40 101\<rparr>
      (replicate 64 97) (ve_results evidence_sample) = Inr review_fact_sample"
proof -
  have "mapM verifier_result_data (ve_results evidence_sample) = Inr (map outcome_data (ve_results evidence_sample))" by code_simp
  then show ?thesis
    by (simp add: review_recorded_fact_def sample_eval target_sample_def verification_evidence_digest_def review_fact_sample_def
        MAX_VERIFIER_COMMANDS_def evidence_sample_def outcome_passed_def MERGE_POLICY_VERSION_def PROMOTION_PROTOCOL_VERSION_def MAX_PATCH_BYTES_def)
qed

lemma sample_approval_data:
  "approval_recorded_data (lit ''op'') (lit ''review-'' @ replicate 64 97) (replicate 64 97) (lit ''ann'') = Inr (approval_payload approval_fact_sample)"
  using sample_text sample_ids by (simp add: approval_recorded_data_Inr approval_fact_sample_def)

lemma sample_promotion_data:
  "promotion_committed_data (lit ''review-'' @ replicate 64 97) (replicate 64 97) (lit ''prod'') (replicate 64 98) (lit ''refs/heads/main'')
      (replicate 40 99) (replicate 40 101) (replicate 40 100) = Inr (promotion_payload promotion_fact_sample)"
  using sample_text sample_ids
  by (simp add: promotion_committed_data_Inr promotion_fact_sample_def MERGE_POLICY_VERSION_def PROMOTION_PROTOCOL_VERSION_def)

lemma review_fact_read: "normalized_review_payload digest_sample (review_data review_fact_sample) 1 = Inr review_fact_sample"
  by (rule review_read_back[OF _ sample_review_fact sample_results]) (simp add: hex_hash_def digest_sample_def sample_text)

lemma approval_fact_read: "normalized_approval_payload (approval_payload approval_fact_sample) 2 = Inr approval_fact_sample"
  using approval_read_back[OF sample_approval_data] by (simp add: approval_fact_sample_def)

lemma promotion_fact_read: "normalized_promotion_payload (promotion_payload promotion_fact_sample) 3 = Inr promotion_fact_sample"
  using promotion_read_back[OF sample_promotion_data]
  by (simp add: promotion_fact_sample_def MERGE_POLICY_VERSION_def PROMOTION_PROTOCOL_VERSION_def)

lemma sample_header:
  "1 \<le> n \<Longrightarrow> lit ty \<in> set PROMOTION_EVENT_TYPES \<Longrightarrow>
   promotion_event_header (promotion_envelope promotion_host_sample ty data n) = Inr (lit ty, data, \<lparr>dt_micros = n, dt_utcoffset = Some 0\<rparr>, n)"
  by (auto simp: promotion_event_header_def read_promotion_header_def materialize_def pending_def PROMOTION_SCHEMA_VERSION_def promotion_host_sample_def)

lemma review_scanned:
  "scan_promotion digest_sample empty_promotion_scan (promotion_envelope promotion_host_sample PATCH_REVIEW_RECORDED (review_data review_fact_sample) 1) =
   Inr (empty_promotion_scan\<lparr>sc_expected_seq := 2, sc_review_by_id := [(lit ''review-'' @ replicate 64 97, report_sample)],
     sc_request_ids := [lit ''req''], sc_reviews := [report_sample]\<rparr>)"
  by (simp add: scan_promotion_def sample_header fact_type_lits empty_promotion_scan_def apply_review_recorded_def review_fact_read
      review_report_of_def review_report_digest_def report_sample_def) (simp add: review_fact_sample_def review_fact.defs dict_has_def)

lemma report_fields [simp]:
  "rv_review_id report_sample = lit ''review-'' @ replicate 64 97" "rv_passed report_sample = True" "rv_artifact_id report_sample = lit ''art''"
  "rv_manifest_digest report_sample = replicate 64 97" "rv_patch_sha256 report_sample = replicate 64 97" "rv_patch_size_bytes report_sample = 3"
  "rv_target_id report_sample = lit ''prod''" "rv_repository_fingerprint report_sample = replicate 64 98"
  "rv_target_ref report_sample = lit ''refs/heads/main''" "rv_expected_revision report_sample = replicate 40 99"
  "rv_integration_tree report_sample = replicate 40 100" "rv_integration_commit report_sample = replicate 40 101"
  "expected_approval_digest digest_sample report_sample = replicate 64 97" "rv_recorded_seq report_sample = 1"
  "rv_verifier_definition_digest report_sample = replicate 64 97" "rv_verification_evidence_digest report_sample = replicate 64 97"
  "rv_results report_sample = ve_results evidence_sample"
  by (simp_all add: report_sample_def review_fact_sample_def review_fact.defs patch_review_report.defs expected_approval_digest_def)

lemma approval_fields [simp]:
  "pa_operation_id approval_sample = lit ''op''" "pa_review_id approval_sample = lit ''review-'' @ replicate 64 97"
  "pa_approval_digest approval_sample = replicate 64 97" "pa_approver_id approval_sample = lit ''ann''" "pa_recorded_seq approval_sample = 2"
  "pa_review_id approval_fact_sample = lit ''review-'' @ replicate 64 97"
  by (simp_all add: approval_sample_def approval_fact_sample_def approval_fact.defs patch_approval.defs)

lemma promotion_fields [simp]:
  "pp_promotion_id promotion_sample = lit ''promotion-'' @ replicate 64 97" "pp_review_id promotion_sample = lit ''review-'' @ replicate 64 97"
  "pp_approval_digest promotion_sample = replicate 64 97" "promotion_binds promotion_sample report_sample"
  by (simp_all add: promotion_sample_def promotion_fact_sample_def promotion_fact.defs patch_promotion.defs promotion_binds_def)

lemmas sample_facts = approval_sample_def[symmetric] promotion_sample_def[symmetric]

lemma approval_scanned:
  "scan_promotion digest_sample (empty_promotion_scan\<lparr>sc_expected_seq := 2, sc_review_by_id := [(lit ''review-'' @ replicate 64 97, report_sample)],
     sc_request_ids := [lit ''req''], sc_reviews := [report_sample]\<rparr>)
     (promotion_envelope promotion_host_sample PATCH_APPROVAL_RECORDED (approval_payload approval_fact_sample) 2) =
   Inr (empty_promotion_scan\<lparr>sc_expected_seq := 3, sc_review_by_id := [(lit ''review-'' @ replicate 64 97, report_sample)],
     sc_request_ids := [lit ''req''], sc_reviews := [report_sample], sc_operation_ids := [lit ''op''],
     sc_approved_reviews := [lit ''review-'' @ replicate 64 97], sc_approval_by_digest := [(replicate 64 97, approval_sample)],
     sc_approvals := [approval_sample]\<rparr>)"
  by (simp add: scan_promotion_def sample_header fact_type_lits empty_promotion_scan_def apply_approval_recorded_def approval_fact_read
      sample_facts Let_def dict_has_def)

lemma promotion_scanned:
  "scan_promotion digest_sample (empty_promotion_scan\<lparr>sc_expected_seq := 3, sc_review_by_id := [(lit ''review-'' @ replicate 64 97, report_sample)],
     sc_request_ids := [lit ''req''], sc_reviews := [report_sample], sc_operation_ids := [lit ''op''],
     sc_approved_reviews := [lit ''review-'' @ replicate 64 97], sc_approval_by_digest := [(replicate 64 97, approval_sample)],
     sc_approvals := [approval_sample]\<rparr>)
     (promotion_envelope promotion_host_sample PATCH_PROMOTION_COMMITTED (promotion_payload promotion_fact_sample) 3) =
   Inr (empty_promotion_scan\<lparr>sc_expected_seq := 4, sc_review_by_id := [(lit ''review-'' @ replicate 64 97, report_sample)],
     sc_request_ids := [lit ''req''], sc_reviews := [report_sample], sc_operation_ids := [lit ''op''],
     sc_approved_reviews := [lit ''review-'' @ replicate 64 97], sc_approval_by_digest := [(replicate 64 97, approval_sample)],
     sc_approvals := [approval_sample], sc_promotion_ids := [lit ''promotion-'' @ replicate 64 97], sc_promoted_digests := [replicate 64 97],
     sc_promotions := [promotion_sample]\<rparr>)"
proof -
  have "promotion_of_fact promotion_fact_sample \<lparr>dt_micros = 3, dt_utcoffset = Some 0\<rparr> 3 = Inr promotion_sample"
    by (simp add: promotion_of_fact_def promotion_identity_def require_hex_digest_def sample_text sample_facts) (simp add: promotion_fact_sample_def sample_text)
  then show ?thesis
    by (simp add: scan_promotion_def sample_header fact_type_lits empty_promotion_scan_def apply_promotion_committed_def promotion_fact_read)
qed

lemma ledger_rebuilt:
  "rebuild_promotions digest_sample (take 1 ledger_events_sample) = Inr (ledger_sample 1)"
  "rebuild_promotions digest_sample (take 2 ledger_events_sample) = Inr (ledger_sample 2)"
  "rebuild_promotions digest_sample (take 3 ledger_events_sample) = Inr (ledger_sample 3)"
  unfolding ledger_events_sample_def
  by (simp_all add: rebuild_promotions_def review_scanned approval_scanned promotion_scanned ledger_of_scan_def ledger_sample_def
      numeral_2_eq_2 numeral_3_eq_3 del: take_Cons_numeral) (simp_all add: empty_promotion_scan_def)

lemma ledger_store_sample:
  assumes "n = 1 \<or> n = 2 \<or> n = 3"
  shows "store_ok (fst (ledger_state_sample n))" "load_promotions digest_sample (fst (ledger_state_sample n)) = Inr (ledger_sample n)"
proof -
  show ok: "store_ok (fst (ledger_state_sample n))"
    using assms unfolding store_ok_def numbered_def ledger_state_sample_def ledger_events_sample_def
    by (auto simp: nth_Cons' materialize_def less_Suc_eq numeral_2_eq_2 numeral_3_eq_3 dict_ok_def simp del: take_Cons_numeral)
  have "stream_of (fst (ledger_state_sample n)) PROMOTION_LEDGER_STREAM = take n ledger_events_sample"
    by (simp add: ledger_state_sample_def stream_of_def)
  then show "load_promotions digest_sample (fst (ledger_state_sample n)) = Inr (ledger_sample n)"
    using assms ledger_rebuilt by (auto simp: load_promotions_Inr[OF ok])
qed

lemma sample_appends:
  "append_events (ph_drawn promotion_host_sample) PROMOTION_LEDGER_STREAM 1
     [pending PATCH_APPROVAL_RECORDED (approval_payload approval_fact_sample) PROMOTION_SCHEMA_VERSION] (fst (ledger_state_sample 1)) =
   (fst (ledger_state_sample 2), Inr [promotion_envelope promotion_host_sample PATCH_APPROVAL_RECORDED (approval_payload approval_fact_sample) 2])"
  "append_events (ph_drawn promotion_host_sample) PROMOTION_LEDGER_STREAM 2
     [pending PATCH_PROMOTION_COMMITTED (promotion_payload promotion_fact_sample) PROMOTION_SCHEMA_VERSION] (fst (ledger_state_sample 2)) =
   (fst (ledger_state_sample 3), Inr [promotion_envelope promotion_host_sample PATCH_PROMOTION_COMMITTED (promotion_payload promotion_fact_sample) 3])"
  by (simp_all add: append_events_def ledger_state_sample_def stream_of_def dict_has_def stream_head_def Let_def ledger_events_sample_def
      materialize_def numeral_2_eq_2 numeral_3_eq_3 del: take_Cons_numeral)

lemma sample_verified: "verified_by_host promotion_host_sample report_sample"
proof -
  have "verifier_definition_digest digest_sample plan_sample = Inr (replicate 64 97)"
    "results_match digest_sample (vp_commands plan_sample) (ve_results evidence_sample) = Inr True"
    "verification_evidence_digest digest_sample (replicate 64 97) (ve_results evidence_sample) = Inr (replicate 64 97)"
    "length (ve_results evidence_sample) = length (vp_commands plan_sample)" "list_all outcome_passed (ve_results evidence_sample)"
    "list_all (\<lambda>r. vo_execution r = None) (ve_results evidence_sample)"
    by code_simp+
  then show ?thesis using freeze_sample(1)
    by (simp add: verified_by_host_def review_matches_verification_plan_def matches_sandbox_policy_def promotion_host_sample_def)
qed

lemma sample_queries:
  "ledger_review (ledger_sample 1) (lit ''review-'' @ replicate 64 97) = Some report_sample"
  "ledger_review (ledger_sample 2) (lit ''review-'' @ replicate 64 97) = Some report_sample"
  "approval_for_operation (ledger_sample 1) (lit ''op'') = None" "approval_for_review (ledger_sample 1) (lit ''review-'' @ replicate 64 97) = None"
  "approval_for_operation (ledger_sample 2) (lit ''op'') = Some approval_sample"
  "approval_for_digest (ledger_sample 2) (replicate 64 97) = Some approval_sample"
  "approval_for_review (ledger_sample 2) (lit ''review-'' @ replicate 64 97) = Some approval_sample"
  "promotion_for_approval (ledger_sample 2) (replicate 64 97) = None" "promotion_for_approval (ledger_sample 3) (replicate 64 97) = Some promotion_sample"
  "pl_head_seq (ledger_sample 1) = 1" "pl_head_seq (ledger_sample 2) = 2"
  by (simp_all add: ledger_sample_def ledger_review_def approval_for_operation_def approval_for_review_def approval_for_digest_def
      promotion_for_approval_def last_with_def)

lemma sample_host [simp]: "ph_sha promotion_host_sample = digest_sample" "ph_others promotion_host_sample n st = st"
  by (simp_all add: promotion_host_sample_def)

lemma sample_target: "check_target (lit ''prod'') target_sample = Inr target_sample" "same_target target_sample report_sample"
  "pt_expected_revision target_sample = replicate 40 99"
proof -
  have "is_prefix (lit ''/'') (lit ''/srv/repo'')" by code_simp
  then show "check_target (lit ''prod'') target_sample = Inr target_sample"
    by (simp add: check_target_def target_sample_def require_promotion_identifier_def require_hex_digest_def require_target_ref_def sample_text)
qed (simp_all add: target_sample_def same_target_def)

lemma sample_resolve: "resolve_target engine_sample (lit ''prod'') s = (s, Inr target_sample)"
  by (simp add: resolve_target_def engine_sample_def sample_target) (simp add: lift_result_def)

lemma approve_run:
  "approve_patch promotion_host_sample engine_sample (lit ''review-'' @ replicate 64 97) (replicate 64 97) (lit ''ann'') (lit ''op'')
     (ledger_state_sample 1) = (ledger_state_sample 2, Inr approval_sample)"
proof -
  have admitted: "admit_approval promotion_host_sample (ledger_sample 1) (lit ''review-'' @ replicate 64 97) (replicate 64 97) (lit ''ann'') (lit ''op'') =
      Inr (Inr report_sample)"
    by (simp add: admit_approval_def Let_def sample_queries sample_verified del: One_nat_def)
  have finds: "find_approval (lit ''op'') (lit ''review-'' @ replicate 64 97) (replicate 64 97) (lit ''ann'') (ledger_sample 1) = Inr None"
    "find_approval (lit ''op'') (lit ''review-'' @ replicate 64 97) (replicate 64 97) (lit ''ann'') (ledger_sample 2) = Inr (Some approval_sample)"
    by (simp_all add: find_approval_def sample_queries require_same_approval_def del: One_nat_def)
  have written: "record_promotion promotion_host_sample PATCH_APPROVAL_RECORDED (approval_payload approval_fact_sample)
      (find_approval (lit ''op'') (lit ''review-'' @ replicate 64 97) (replicate 64 97) (lit ''ann'')) 1 (fst (ledger_state_sample 1)) =
      (fst (ledger_state_sample 2), Inr approval_sample)"
    by (subst record_promotion.simps) (simp add: ledger_store_sample finds sample_queries sample_appends stored_fact_def del: One_nat_def)
  have state: "snd (ledger_state_sample n) = refs_before" for n by (simp add: ledger_state_sample_def)
  have whole: "(fst (ledger_state_sample 2), refs_before) = ledger_state_sample 2" by (simp add: ledger_state_sample_def)
  show ?thesis
    by (simp add: approve_patch_def approve_admitted_def require_promotion_identifier_def sample_text sample_ids on_store_reading ledger_store_sample sample_approval_data
        admitted abind_result[OF sample_resolve] sample_target on_store_def written state whole del: One_nat_def)
qed

definition refs_after :: refs_sample where
  "refs_after = [((replicate 64 98, lit ''refs/heads/main''), replicate 40 101)]"

lemma promote_run:
  "promote_patch promotion_host_sample engine_sample (replicate 64 97) (ledger_state_sample 2) =
     ((fst (ledger_state_sample 3), refs_after), Inr promotion_sample)"
proof -
  have admitted: "admit_promotion promotion_host_sample (ledger_sample 2) (replicate 64 97) = Inr (Inr report_sample)"
    by (simp add: admit_promotion_def sample_queries sample_verified)
  have written: "record_promotion promotion_host_sample PATCH_PROMOTION_COMMITTED (promotion_payload promotion_fact_sample)
      (\<lambda>l. Inr (promotion_for_approval l (replicate 64 97))) 1 (fst (ledger_state_sample 2)) = (fst (ledger_state_sample 3), Inr promotion_sample)"
    by (subst record_promotion.simps) (simp add: ledger_store_sample sample_queries sample_appends stored_fact_def)
  have refs: "map_of refs_before (replicate 64 98, lit ''refs/heads/main'') = Some (replicate 40 99)"
    "dict_set (replicate 64 98, lit ''refs/heads/main'') (replicate 40 101) refs_before = refs_after"
    "map_of refs_after (replicate 64 98, lit ''refs/heads/main'') = Some (replicate 40 101)"
    by (simp_all add: refs_before_def refs_after_def)
  obtain m where msg: "integration_commit_message (lit ''art'') (replicate 64 97) = Inr m"
    by (simp add: integration_commit_message_def require_promotion_identifier_def require_hex_digest_def sample_text)
  have state: "snd (ledger_state_sample n) = refs_before" for n by (simp add: ledger_state_sample_def)
  have calls: "pe_artifact engine_sample n = lift_result (Inr artifact_sample)" "pe_require_identity engine_sample t = lift_result (Inr ())"
    "pe_rebuild engine_sample t patch m r = lift_result (Inr build_sample)" for n t patch m r
    by (simp_all add: engine_sample_def)
  have differ: "replicate 40 99 \<noteq> replicate 40 (101::int)" by simp
  have key: "(pt_repository_fingerprint target_sample, pt_target_ref target_sample) = (replicate 64 98, lit ''refs/heads/main'')"
    by (simp add: target_sample_def)
  have ref: "ref_state engine_sample target_sample report_sample (ledger_state_sample 2) = (ledger_state_sample 2, Inr False)"
    using differ refs(1) by (simp add: ref_state_def engine_sample_def key state) (simp add: lift_result_def)
  have swap: "swap_ref engine_sample target_sample report_sample (ledger_state_sample 2) = ((fst (ledger_state_sample 2), refs_after), Inr ())"
  proof -
    have "pe_compare_and_swap engine_sample target_sample (replicate 40 99) (replicate 40 101) (ledger_state_sample 2) =
        ((fst (ledger_state_sample 2), refs_after), Inr True)"
      using refs by (simp add: engine_sample_def swap_sample_def key state)
    then show ?thesis using refs(3) by (simp add: swap_ref_def abind_result engine_sample_def key) (simp add: lift_result_def)
  qed
  have artifact: "ar_manifest_digest artifact_sample = replicate 64 97" "ar_sha256 artifact_sample = replicate 64 97" "ar_size_bytes artifact_sample = 3"
    "ib_integration_tree build_sample = replicate 40 100" "ib_integration_commit build_sample = replicate 40 101"
    by (simp_all add: artifact_sample_def build_sample_def)
  have promote: "promote_admitted promotion_host_sample engine_sample report_sample (replicate 64 97) (ledger_state_sample 2) =
      ((fst (ledger_state_sample 3), refs_after), Inr promotion_sample)"
    unfolding promote_admitted_def
    by (simp add: calls artifact abind_result[OF sample_resolve] sample_target(2) abind_result[of "ref_state engine_sample target_sample report_sample" "ledger_state_sample 2", OF ref]
        msg abind_result[of "swap_ref engine_sample target_sample report_sample" "ledger_state_sample 2", OF swap] sample_promotion_data)
      (simp add: on_store_def written[simplified])
  show ?thesis
    by (simp add: promote_patch_def sample_text on_store_reading ledger_store_sample admitted promote)
qed

section \<open>The properties on the samples\<close>

lemma sample_hash: "hex_hash digest_sample"
  by (simp add: hex_hash_def digest_sample_def sample_text)

text \<open>All reviews of a readable ledger have the same identity under the constant digest.\<close>

lemma sample_no_collision: "\<not> digests_collide digest_sample es"
proof
  assume "digests_collide digest_sample es"
  then obtain n l r r' where c: "rebuild_promotions digest_sample (take n es) = Inr l" "r \<in> set (pl_reviews l)" "r' \<in> set (pl_reviews l)"
    "rv_review_id r \<noteq> rv_review_id r'" unfolding digests_collide_def by blast
  have "rv_review_id x = lit ''review-'' @ replicate 64 97" if "x \<in> set (pl_reviews l)" for x
    using rebuilt_promotions_ok[OF c(1)] that by (auto simp: promotions_ok_def review_sound_def review_identity_def result_simps)
  then show False using c(2-4) by simp
qed

lemma sample_keeps:
  "promotion_interferes promotion_host_sample" "aware_times promotion_host_sample"
  "engine_keeps (state_grows digest_sample) engine_sample" "engine_swaps (state_grows digest_sample) engine_sample"
  "engine_keeps (same_refs map_of) engine_sample" "update_ref_swaps map_of engine_sample" "receipts_ok engine_sample"
proof -
  show "promotion_interferes promotion_host_sample" by (simp add: promotion_interferes_def promotions_grow_refl)
  show "aware_times promotion_host_sample" by (simp add: aware_times_def promotion_host_sample_def)
  show "engine_keeps (state_grows digest_sample) engine_sample" "engine_keeps (same_refs map_of) engine_sample"
    by (simp_all add: engine_keeps_def engine_sample_def keeps_def lift_result_def reading_def)
  have swap: "fst (fst (swap_sample t old new s)) = fst s" for t old new s by (simp add: swap_sample_def Let_def)
  show "engine_swaps (state_grows digest_sample) engine_sample"
    by (simp add: engine_swaps_def engine_sample_def keeps_def state_grows_def swap)
  show "update_ref_swaps map_of engine_sample" by (auto simp: update_ref_swaps_def engine_sample_def swap_sample_def Let_def fun_eq_iff)
  show "receipts_ok engine_sample" by (auto simp: receipts_ok_def engine_sample_def lift_result_def receipt_ok_def evidence_sample_def)
qed

theorem promotion_is_backed_witness:
  "promotion_sample \<in> set (pl_promotions (ledger_sample 3)) \<and>
   (\<exists>a r. a \<in> set (pl_approvals (ledger_sample 3)) \<and> r \<in> set (pl_reviews (ledger_sample 3)) \<and> approves digest_sample r a \<and> promotes r a promotion_sample \<and>
      list_all (\<lambda>x. outcome_passed x \<and> vo_exit_code x = Some 0) (rv_results r))"
proof -
  have "promotion_sample \<in> set (pl_promotions (ledger_sample 3))" by (simp add: ledger_sample_def)
  then show ?thesis using promotion_is_backed[OF ledger_rebuilt(3)] by blast
qed

theorem approval_binds_decision_witness: "same_decision report_sample review_fact_sample"
proof -
  have "approval_data report_sample = approval_data review_fact_sample"
    by (simp add: approval_data_def report_sample_def review_fact.defs review_fact_sample_def)
  then show ?thesis using approval_binds_decision[of digest_sample report_sample review_fact_sample] by (simp add: expected_approval_digest_def)
qed

lemma sample_distinct: "distinct (map vo_command_id (ve_results evidence_sample)) \<and> list_all receipt_ok (ve_results evidence_sample)"
  using sample_results by (auto simp: results_ok_def list_all_iff)

text \<open>The same verification command reported twice: a review the writer admits and its reader refuses.\<close>

definition repeated_results_sample :: "verifier_outcome list" where
  "repeated_results_sample = ve_results evidence_sample @ ve_results evidence_sample"

lemma repeated_results_admitted:
  "\<exists>f. review_recorded_fact digest_sample (lit ''req'') \<lparr>rs_artifact_id = lit ''art'', rs_manifest_digest = replicate 64 97, rs_patch_sha256 = replicate 64 97,
      rs_patch_size_bytes = 3, rs_target = target_sample, rs_integration_tree = replicate 40 100, rs_integration_commit = replicate 40 101\<rparr>
      (replicate 64 97) repeated_results_sample = Inr f"
proof -
  have "mapM verifier_result_data repeated_results_sample = Inr (map outcome_data repeated_results_sample)" by code_simp
  then show ?thesis
    by (simp add: review_recorded_fact_def sample_eval target_sample_def verification_evidence_digest_def
        MAX_VERIFIER_COMMANDS_def repeated_results_sample_def evidence_sample_def MAX_PATCH_BYTES_def)
qed

theorem promotion_facts_read_back_witness:
  "normalized_review_payload digest_sample (review_data review_fact_sample) 1 = Inr review_fact_sample \<and>
   normalized_approval_payload (approval_payload approval_fact_sample) 1 = Inr approval_fact_sample \<and>
   (\<exists>f :: review_fact. rv_results f = repeated_results_sample \<and> \<not> is_ok (normalized_review_payload digest_sample (review_data f) 1))"
proof -
  obtain f where f: "review_recorded_fact digest_sample (lit ''req'') \<lparr>rs_artifact_id = lit ''art'', rs_manifest_digest = replicate 64 97, rs_patch_sha256 = replicate 64 97,
      rs_patch_size_bytes = 3, rs_target = target_sample, rs_integration_tree = replicate 40 100, rs_integration_commit = replicate 40 101\<rparr>
      (replicate 64 97) repeated_results_sample = Inr f"
    using repeated_results_admitted by blast
  have "\<not> distinct (map vo_command_id repeated_results_sample)"
    by (simp add: repeated_results_sample_def evidence_sample_def)
  then have "\<not> is_ok (normalized_review_payload digest_sample (review_data f) 1)"
    using promotion_facts_read_back[OF sample_hash f sample_approval_data sample_promotion_data, of 1] by simp
  moreover have "rv_results f = repeated_results_sample" using review_recorded_fact_Inr[OF f] by simp
  ultimately show ?thesis
    using promotion_facts_read_back[OF sample_hash sample_review_fact sample_approval_data sample_promotion_data, of 1] sample_distinct
    by (auto simp: approval_fact_sample_def)
qed

theorem promotion_service_keeps_ledger_witness:
  "extends (fst (ledger_state_sample 2)) (fst (fst (promote_patch promotion_host_sample engine_sample (replicate 64 97) (ledger_state_sample 2)))) \<and>
   is_ok (load_promotions digest_sample (fst (fst (promote_patch promotion_host_sample engine_sample (replicate 64 97) (ledger_state_sample 2)))))"
proof -
  have "store_ok (fst (ledger_state_sample 2))" "is_ok (load_promotions digest_sample (fst (ledger_state_sample 2)))"
    using ledger_store_sample[of 2] by simp_all
  then show ?thesis
    using promotion_service_keeps_ledger[of "ledger_state_sample 2" promotion_host_sample engine_sample
        "fst (promote_patch promotion_host_sample engine_sample (replicate 64 97) (ledger_state_sample 2))" _ _ _ _ "replicate 64 97"]
      sample_keeps sample_hash sample_no_collision by simp
qed

theorem approve_is_backed_witness:
  "\<exists>l r. load_promotions digest_sample (fst (ledger_state_sample 2)) = Inr l \<and> approval_sample \<in> set (pl_approvals l) \<and> r \<in> set (pl_reviews l) \<and>
    approves digest_sample r approval_sample \<and> verified_by_host promotion_host_sample r"
  using approve_is_backed[OF ledger_store_sample(1) sample_keeps(1,2) _ approve_run] sample_keeps(3) by auto

theorem promote_moves_ref_as_approved_witness:
  "\<exists>l a r. load_promotions digest_sample (fst (ledger_state_sample 2)) = Inr l \<and> a \<in> set (pl_approvals l) \<and> r \<in> set (pl_reviews l) \<and>
    approves digest_sample r a \<and> map_of refs_after = (map_of refs_before)((rv_repository_fingerprint r, rv_target_ref r) \<mapsto> rv_integration_commit r)"
proof -
  have "map_of refs_after (replicate 64 98, lit ''refs/heads/main'') \<noteq> map_of refs_before (replicate 64 98, lit ''refs/heads/main'')"
    by (simp add: refs_after_def refs_before_def)
  then have "map_of refs_after \<noteq> map_of refs_before" by metis
  moreover have "snd (ledger_state_sample 2) = refs_before" by (simp add: ledger_state_sample_def)
  ultimately show ?thesis
    using promote_moves_ref_as_approved[OF ledger_store_sample(1) sample_keeps(5,6) promote_run] by auto
qed

end
