(* ===== verification/Workflow_Races.thy ===== *)
theory Workflow_Races imports Workflow_Liveness Promotion_Samples begin

text \<open>
  Two hosts on one run (workflow/service.py), and the coordinator at work on concrete runs: an
  Agent task that captures an artifact is taken from an empty store to its verdict, and an
  approval that a human has given is turned into the evidence of its node.
\<close>

section \<open>A fact that comes too late\<close>

lemma projected_head:
  assumes "rebuild_workflow sha run es = Inr p"
  shows "wp_head_seq p = int (length es)"
proof -
  let ?f = "scan_workflow sha run (lit ''workflow:'' @ run)"
  have "ws_expected_seq s = 1 + int (length es)" if "foldM ?f empty_workflow_scan es = Inr s" for s
    using that
  proof (induction es arbitrary: s rule: rev_induct)
    case (snoc e es)
    then obtain t where t: "foldM ?f empty_workflow_scan es = Inr t" "?f t e = Inr s" by (auto simp: foldM_append result_simps)
    obtain d where "apply_workflow_fact sha run (ev_type e) d (ws_expected_seq t) (t\<lparr>ws_expected_seq := ws_expected_seq t + 1\<rparr>) = Inr s"
      using scan_workflow_fact(2)[OF t(2)] by auto
    then have "ws_expected_seq s = ws_expected_seq t + 1" by (cases rule: apply_workflow_fact_cases) auto
    then show ?case using snoc.IH[OF t(1)] by simp
  qed (simp add: empty_workflow_scan_def)
  then show ?thesis using assms by (auto simp: rebuild_workflow_Inr)
qed

lemma append_behind_head:
  assumes "stream_of st sid \<noteq> []" "head_seq st sid \<noteq> n"
  shows "append_events dr sid n ps st = (st, Inl (ConcurrencyConflict n (head_seq st sid)))"
proof -
  have "dict_has sid (es_streams st)" using assms(1) by (simp add: stream_of_def dict_has_def split: option.splits)
  then show ?thesis using assms(2) by (simp add: append_events_def head_seq_def Let_def)
qed

lemma append_at_head:
  assumes "head_seq st sid = n"
  shows "\<exists>st' es e. append_events dr sid n [pending ty data v] st = (st', Inr es) \<and> stream_of st' sid = stream_of st sid @ [e] \<and>
    ev_type e = lit ty \<and> ev_data e = JDict data"
  using append_events_stream[of dr sid n "[pending ty data v]" st sid] append_events_result[of dr sid n "[pending ty data v]" st] assms
  by (cases "append_events dr sid n [pending ty data v] st") auto

lemma apply_failed_fact:
  "apply_workflow_fact sha run (lit WORKFLOW_NODE_FAILED) d q s = Inr s' \<Longrightarrow> apply_node_ended sha run False d q s = Inr s'"
  by (simp add: apply_workflow_fact_def split: if_splits)

text \<open>A node that has ended cannot end again: no store whose stream goes on this way can be read.\<close>

lemma ended_node_ends_once:
  assumes st: "clean_store st" and p: "rebuild_workflow sha run es = Inr p" "is_terminal p name"
    and e: "ev_type e = lit WORKFLOW_NODE_FAILED" "ev_data e = JDict data" "jget data ''node_id'' = JStr name"
    and stream: "stream_of st (lit ''workflow:'' @ run) = es @ e # fs"
  shows "\<not> is_ok (load_workflow sha run st)"
proof
  let ?f = "scan_workflow sha run (lit ''workflow:'' @ run)"
  assume "is_ok (load_workflow sha run st)"
  then obtain q where "rebuild_workflow sha run ((es @ [e]) @ fs) = Inr q"
    using stream by (auto simp: is_ok_iff load_workflow_Inr[OF st])
  then obtain p1 where "rebuild_workflow sha run (es @ [e]) = Inr p1" using rebuild_workflow_prefix by blast
  then obtain s s' where s: "foldM ?f empty_workflow_scan es = Inr s" "?f s e = Inr s'"
    by (auto simp: rebuild_workflow_Inr foldM_append result_simps)
  have "p = make_projection run s" using p(1) s(1) by (auto simp: rebuild_workflow_Inr)
  then have ended: "\<not> (map_of (ws_nodes s) name = Some state \<and> ns_status state = Node_Running)" for state
    using p(2) by (auto simp: is_terminal_def status_of_def)
  obtain d where d: "ev_data e = JDict d"
    "apply_workflow_fact sha run (ev_type e) d (ws_expected_seq s) (s\<lparr>ws_expected_seq := ws_expected_seq s + 1\<rparr>) = Inr s'"
    using scan_workflow_fact(2)[OF s(2)] by auto
  have "apply_node_ended sha run False data (ws_expected_seq s) (s\<lparr>ws_expected_seq := ws_expected_seq s + 1\<rparr>) = Inr s'"
    using d e(1,2) apply_failed_fact by simp
  then show False using e(3) ended by (auto simp: apply_node_ended_def result_simps running_state_Inr)
qed

text \<open>
  C33: a lost race leaves the run unreadable. When another host ends a node first, this host's
  append of its own failure of that node loses the race, is retried at the new head without
  another look at the projection, and succeeds: the caller is told that the fact is written. No
  later state of the store can be projected any more, so neither host can continue the run, report
  it or finish it.
\<close>

theorem lost_race_breaks_run:
  assumes "clean_store (wh_others h 1 st)" and "load_workflow (wh_sha h) (wh_run_id h) (wh_others h 1 st) = Inr p"
    and "is_terminal p name" and "expected_seq \<noteq> wp_head_seq p"
    and "wh_others h 2 (wh_others h 1 st) = wh_others h 1 st"
    and "node_failed_data name kind key code = Inr data"
    and "\<not> list_ex (\<lambda>e. is_workflow_fact e (lit ''workflow:'' @ wh_run_id h) WORKFLOW_NODE_FAILED data)
      (stream_of (wh_others h 1 st) (lit ''workflow:'' @ wh_run_id h))"
    and "append_workflow h expected_seq WORKFLOW_NODE_FAILED data st = (st2, r)" and "grows_to st2 st3"
  shows "r = Inr () \<and> \<not> is_ok (load_workflow (wh_sha h) (wh_run_id h) st3)"
proof -
  let ?sid = "lit ''workflow:'' @ wh_run_id h" and ?st = "wh_others h 1 st"
  let ?ev = "pending WORKFLOW_NODE_FAILED data WORKFLOW_SCHEMA_VERSION"
  have ok: "store_ok ?st" using assms(1) by (simp add: clean_store_def)
  have p: "rebuild_workflow (wh_sha h) (wh_run_id h) (stream_of ?st ?sid) = Inr p"
    using assms(2) unfolding load_workflow_Inr[OF assms(1)] .
  have head: "head_seq ?st ?sid = wp_head_seq p" using projected_head[OF p] head_seq_length[OF ok] by simp
  have "stream_of ?st ?sid \<noteq> []"
    using p assms(3) by (auto simp: rebuild_workflow_Inr empty_workflow_scan_def is_terminal_def status_of_def)
  then have lost: "append_events (wh_drawn h) ?sid expected_seq [?ev] ?st = (?st, Inl (ConcurrencyConflict expected_seq (head_seq ?st ?sid)))"
    using append_behind_head[of ?st ?sid expected_seq] head assms(4) by simp
  obtain st' es e where won: "append_events (wh_drawn h) ?sid (wp_head_seq p) [?ev] ?st = (st', Inr es)"
    "stream_of st' ?sid = stream_of ?st ?sid @ [e]" "ev_type e = lit WORKFLOW_NODE_FAILED" "ev_data e = JDict data"
    using append_at_head[OF head, of "wh_drawn h" WORKFLOW_NODE_FAILED data WORKFLOW_SCHEMA_VERSION] by (elim exE conjE) (rule that)
  have "append_workflow h expected_seq WORKFLOW_NODE_FAILED data st = (st', Inr ())"
    using lost won(1) assms(2,5,7) read_events_all[OF ok]
    by (simp add: append_workflow_def append_attempt.simps[of _ _ _ _ _ _ "Suc 0"] append_attempt.simps[of _ _ _ _ _ _ "Suc (Suc 0)"]
        numeral_2_eq_2 committed_after_failure_def MAX_APPEND_ATTEMPTS_def)
  then have st2: "st2 = st'" "r = Inr ()" using assms(8) by simp_all
  obtain fs where "stream_of st3 ?sid = stream_of st2 ?sid @ fs" using assms(9) unfolding grows_to_def extends_def by blast
  then have fs: "stream_of st3 ?sid = stream_of ?st ?sid @ e # fs" using won(2) st2(1) by simp
  have "jget data ''node_id'' = JStr name" using assms(6) by (auto simp: node_failed_data_def result_simps)
  then show ?thesis using ended_node_ends_once[OF grows_to_clean[OF assms(9)] p assms(3) won(3,4) _ fs] st2(2) by simp
qed

section \<open>Sample runs\<close>

definition quiet_services :: workflow_services where
  "quiet_services = \<lparr>sv_create = \<lambda>_ _ _ _. lift_result (Inr ()), sv_resume = \<lambda>_. lift_result (Inr ()),
     sv_send = \<lambda>_ _ _ _. lift_result (Inr ()), sv_wait_message = \<lambda>_ _. lift_result (Inr (lit ''completed'')),
     sv_dispose = \<lambda>_. lift_result (Inr ()), sv_capture = Some (\<lambda>_ _. lift_result (Inr (lit ''art''))),
     sv_promotion = Some (\<lambda>_ _ _. lift_result (Inr report_sample))\<rparr>"

definition quiet_resolver :: binding_resolver where
  "quiet_resolver = \<lparr>br_agent_spec = \<lambda>_ _ _ _. lift_result (Inr (sample_spec\<lparr>spec_owner_agent_id := None\<rparr>)),
     br_message_content = \<lambda>_ _ _ _. lift_result (Inr (lit ''hi'')), br_map_keys = \<lambda>_ _ _. lift_result (Inr [lit ''k''])\<rparr>"

definition quiet_host :: workflow_host where
  "quiet_host = \<lparr>wh_sha = sample_sha, wh_drawn = \<lambda>n. (n, sample_time), wh_others = \<lambda>_ st. st, wh_run_id = lit ''r''\<rparr>"

definition task_workflow :: workflow_definition where
  "task_workflow = \<lparr>wd_definition_id = lit ''d'', wd_nodes = [AgentTaskNode (lit ''a'') [] (lit ''s'') (lit ''m'') True]\<rparr>"

lemma quiet_grows: "services_grow quiet_services" "resolver_grows quiet_resolver" "interferes (wh_others quiet_host)" "clean_store empty_store"
  by (simp_all add: services_grow_def quiet_services_def resolver_grows_def quiet_resolver_def interferes_def quiet_host_def
      grows_to_refl clean_store_def store_ok_empty) (simp add: empty_store_def stream_of_def)

theorem advance_returns_witness:
  "case start_workflow quiet_host quiet_services quiet_resolver task_workflow empty_store of None \<Rightarrow> False
   | Some (st, r) \<Rightarrow> grows_to empty_store st \<and> (case r of Inl e \<Rightarrow> False | Inr run \<Rightarrow> wr_status run = Workflow_Completed)"
proof -
  obtain st r where run: "start_workflow quiet_host quiet_services quiet_resolver task_workflow empty_store = Some (st, r)" "grows_to empty_store st"
    using advance_returns[OF quiet_grows(4,3) quiet_grows(1) quiet_grows(2), where d = task_workflow and allow_start = True] unfolding start_workflow_def by blast
  have "case start_workflow quiet_host quiet_services quiet_resolver task_workflow empty_store of None \<Rightarrow> False
     | Some (st, r) \<Rightarrow> (case r of Inl e \<Rightarrow> False | Inr run \<Rightarrow> wr_status run = Workflow_Completed)"
    by code_simp
  then show ?thesis using run by simp
qed

definition approval_scan :: workflow_scan where
  "approval_scan = empty_workflow_scan\<lparr>ws_nodes :=
     [(lit ''v'', (started_node (lit ''v'') VERIFICATION None)\<lparr>ns_status := Node_Completed, ns_artifact_id := Some (lit ''art''),
        ns_review_id := Some (lit ''review-'' @ replicate 64 97)\<rparr>),
      (lit ''h'', started_node (lit ''h'') APPROVAL None)]\<rparr>"

definition human_approval_fact :: payload where
  "human_approval_fact = projr (node_completed_data (lit ''h'') APPROVAL None (no_evidence\<lparr>ne_artifact_id := Some (lit ''art''),
     ne_review_id := Some (lit ''review-'' @ replicate 64 97), ne_approval_digest := Some (replicate 64 97)\<rparr>))"

lemma sample_hashes: "sample_sha = digest_sample"
  by (simp add: sample_sha_def digest_sample_def fun_eq_iff)

lemma approval_run:
  "execute_node sample_sha quiet_services quiet_resolver (lit ''r'') (ApprovalNode (lit ''h'') [lit ''v''] (lit ''v'')) None
     (make_projection (lit ''r'') approval_scan) (fst (ledger_state_sample 2)) = (fst (ledger_state_sample 2), Inr (completed_execution human_approval_fact))"
proof -
  have source: "case state_of (make_projection (lit ''r'') approval_scan) (lit ''v'') of None \<Rightarrow> False
     | Some source \<Rightarrow> ns_review_id source = Some (lit ''review-'' @ replicate 64 97) \<and> ns_artifact_id source = Some (lit ''art'')" by code_simp
  have "node_completed_data (lit ''h'') APPROVAL None (no_evidence\<lparr>ne_artifact_id := Some (lit ''art''),
     ne_review_id := Some (lit ''review-'' @ replicate 64 97), ne_approval_digest := Some (replicate 64 97)\<rparr>) = Inr human_approval_fact" by code_simp
  then have "approval_execution digest_sample (ledger_sample 2) (lit ''h'') (Some (lit ''art'')) (lit ''review-'' @ replicate 64 97) =
      Inr (completed_execution human_approval_fact)"
    by (simp add: approval_execution_def sample_queries)
  then show ?thesis using source
    by (cases "state_of (make_projection (lit ''r'') approval_scan) (lit ''v'')")
      (simp_all add: execute_node_def approve_node_def promotion_of_def quiet_services_def sample_hashes ledger_store_sample, simp add: lift_result_def)
qed

theorem workflow_approval_is_human_witness:
  "\<exists>a. a \<in> set (pl_approvals (ledger_sample 2)) \<and> jget human_approval_fact ''approval_digest'' = JStr (pa_approval_digest a) \<and> pa_approver_id a = lit ''ann''"
proof -
  have "\<exists>a. a \<in> set (pl_approvals (ledger_sample 2)) \<and> jget human_approval_fact ''approval_digest'' = JStr (pa_approval_digest a)"
    using workflow_approval_is_human[OF ledger_store_sample(1) approval_run] ledger_store_sample(2)[of 2]
    by (auto simp: sample_hashes completed_execution_def)
  moreover have "pl_approvals (ledger_sample 2) = [approval_sample]" by (simp add: ledger_sample_def)
  ultimately show ?thesis by simp
qed

theorem executor_evidence_is_accepted_witness:
  "\<exists>settled. apply_node_ended sample_sha (lit ''r'') True human_approval_fact 8 approval_scan =
      Inr (approval_scan\<lparr>ws_nodes := dict_set (lit ''h'') settled (ws_nodes approval_scan), ws_awaiting := remove1 (lit ''h'') []\<rparr>) \<and>
    ns_status settled = Node_Completed \<and>
    require_declared_evidence sample_sha (make_projection (lit ''r'') approval_scan) (ApprovalNode (lit ''h'') [lit ''v''] (lit ''v'')) (lit ''h'') settled None = Inr ()"
proof -
  let ?node = "ApprovalNode (lit ''h'') [lit ''v''] (lit ''v'')"
  note run = approval_run
  have state: "map_of (ws_nodes approval_scan) (lit ''h'') = Some (started_node (lit ''h'') APPROVAL None)" by code_simp
  have awaiting: "ws_awaiting approval_scan = []" by code_simp
  show ?thesis
    using executor_evidence_is_accepted[OF run, of human_approval_fact "lit ''h''" approval_scan "started_node (lit ''h'') APPROVAL None" 8] state
    unfolding awaiting by (simp add: completed_execution_def effective_node_id_def)
qed

definition race_start :: event_store where
  "race_start = fst (append_events (wh_drawn quiet_host) (lit ''workflow:r'') 1 [pending WORKFLOW_NODE_STARTED (projr (node_started_data (lit ''a'') AGENT_TASK None)) 1]
     (fst (append_events (wh_drawn quiet_host) (lit ''workflow:r'') 0
       [pending WORKFLOW_RUN_STARTED (projr (run_started_data (lit ''r'') (lit ''d'') (sample_sha []))) 1] empty_store)))"

definition rival_completes :: interference where
  "rival_completes n st = (if n = 1 then fst (append_events (wh_drawn quiet_host) (lit ''workflow:r'') 2
     [pending WORKFLOW_NODE_COMPLETED (projr (node_completed_data (lit ''a'') AGENT_TASK None sample_task_evidence)) 1] st) else st)"

definition race_host :: workflow_host where
  "race_host = quiet_host\<lparr>wh_others := rival_completes\<rparr>"

definition late_failure :: payload where
  "late_failure = projr (node_failed_data (lit ''a'') AGENT_TASK None (lit ''workflow-node-error''))"

lemma append_one_clean: "clean_store st \<Longrightarrow> json_ok (JDict data) \<Longrightarrow> grows_to st (fst (append_events dr sid n [pending ty data v] st))"
  using append_one_grows(1) by (metis prod.collapse)

lemma race_setting: "interferes rival_completes" "clean_store race_start" "clean_store (rival_completes 1 race_start)"
proof -
  have json: "json_ok (JDict (projr (node_completed_data (lit ''a'') AGENT_TASK None sample_task_evidence)))"
    "json_ok (JDict (projr (node_started_data (lit ''a'') AGENT_TASK None)))"
    "json_ok (JDict (projr (run_started_data (lit ''r'') (lit ''d'') (sample_sha []))))"
    by code_simp+
  show rival: "interferes rival_completes"
    using append_one_clean[OF _ json(1)] by (simp add: interferes_def rival_completes_def grows_to_refl)
  show start: "clean_store race_start"
    unfolding race_start_def by (intro grows_to_clean[OF append_one_clean] grows_to_clean[OF append_one_clean] quiet_grows(4) json)
  show "clean_store (rival_completes 1 race_start)" using rival start grows_to_clean unfolding interferes_def by blast
qed

theorem lost_race_breaks_run_witness:
  "snd (append_workflow race_host 2 WORKFLOW_NODE_FAILED late_failure race_start) = Inr () \<and>
   \<not> is_ok (load_workflow sample_sha (lit ''r'') (fst (append_workflow race_host 2 WORKFLOW_NODE_FAILED late_failure race_start)))"
proof -
  have host: "wh_others race_host = rival_completes" "wh_sha race_host = sample_sha" "wh_run_id race_host = lit ''r''"
    by (simp_all add: race_host_def quiet_host_def)
  obtain st2 r where run: "append_workflow race_host 2 WORKFLOW_NODE_FAILED late_failure race_start = (st2, r)"
    by (cases "append_workflow race_host 2 WORKFLOW_NODE_FAILED late_failure race_start")
  have "case load_workflow sample_sha (lit ''r'') (rival_completes 1 race_start) of Inl e \<Rightarrow> False | Inr p \<Rightarrow>
      is_terminal p (lit ''a'') \<and> wp_head_seq p = 3" by code_simp
  then obtain p where p: "load_workflow (wh_sha race_host) (wh_run_id race_host) (wh_others race_host 1 race_start) = Inr p" "is_terminal p (lit ''a'')" "2 \<noteq> wp_head_seq p"
    unfolding host by (cases "load_workflow sample_sha (lit ''r'') (rival_completes 1 race_start)") auto
  have data: "node_failed_data (lit ''a'') AGENT_TASK None (lit ''workflow-node-error'') = Inr late_failure" by code_simp
  have fresh: "\<not> list_ex (\<lambda>e. is_workflow_fact e (lit ''workflow:r'') WORKFLOW_NODE_FAILED late_failure)
      (stream_of (rival_completes 1 race_start) (lit ''workflow:r''))" by code_simp
  have stream: "lit ''workflow:'' @ lit ''r'' = lit ''workflow:r''" by code_simp
  have "grows_to race_start st2"
    using append_attempt_effect[OF race_setting(1) payloads_ok(1)[OF data] race_setting(2) run[unfolded append_workflow_def host]] by blast
  then have kept: "grows_to st2 st2" using grows_to_clean grows_to_refl by blast
  have quiet: "wh_others race_host 2 (wh_others race_host 1 race_start) = wh_others race_host 1 race_start"
    unfolding host by (simp add: rival_completes_def)
  show ?thesis
    using lost_race_breaks_run[OF race_setting(3)[folded host(1)] p quiet data _ run kept] fresh run unfolding host stream by simp
qed

end
