(* ===== verification/Budget_Types.thy ===== *)
theory Budget_Types imports Agent_Identity begin

text \<open>
  The public values of the budget protocol (api/budgets.py) and the validation of limits and
  amounts (budgets/events.py). A limit of \<open>None\<close> is not enforced. Amounts and limits are
  Python integers, bounded by \<open>MAX_BUDGET_VALUE\<close> where they enter the ledger.
\<close>

record budget_limits =
  bl_max_tokens :: "int option"
  bl_max_steps :: "int option"
  bl_max_tool_calls :: "int option"
  bl_max_wall_milliseconds :: "int option"
  bl_max_children :: "int option"
  bl_max_depth :: "int option"
  bl_max_processes :: "int option"

record budget_amounts =
  ba_tokens :: int
  ba_steps :: int
  ba_tool_calls :: int
  ba_wall_milliseconds :: int

definition no_amounts :: budget_amounts where
  "no_amounts = \<lparr>ba_tokens = 0, ba_steps = 0, ba_tool_calls = 0, ba_wall_milliseconds = 0\<rparr>"

record child_budget_grant =
  cbg_limits :: budget_limits
  cbg_retained_tokens :: int
  cbg_initial_tokens :: "int option"

datatype account_status = Account_Open | Account_Closed

datatype reservation_status = Reservation_Pending | Reservation_Committed | Reservation_Released

datatype charge_mode = ADMISSION | OBSERVATION

datatype usage_status = Usage_Pending | Usage_Started | Usage_Settled | Usage_Released

datatype usage_quality = Quality_Exact | Quality_Estimated | Quality_Unknown

record budget_account =
  bac_agent_id :: pystr
  bac_parent_agent_id :: "pystr option"
  bac_limits :: budget_limits
  bac_status :: account_status
  bac_created_seq :: int
  bac_charged :: budget_amounts
  bac_delegated :: budget_amounts
  bac_reserved :: budget_amounts
  bac_reserved_children :: int
  bac_closed_seq :: "int option"

record budget_reservation =
  brs_reservation_id :: pystr
  brs_parent_agent_id :: pystr
  brs_child_agent_id :: pystr
  brs_creation_request_id :: pystr
  brs_child_limits :: budget_limits
  brs_retained_tokens :: int
  brs_initial_tokens :: json
  brs_status :: reservation_status
  brs_reserved_seq :: int
  brs_terminal_seq :: "int option"
  brs_identity_seq :: "int option"

record child_token_decision =
  ctd_operation_id :: pystr
  ctd_request_id :: pystr
  ctd_parent_agent_id :: pystr
  ctd_child_agent_id :: pystr
  ctd_tokens :: int
  ctd_reason :: pystr
  ctd_seq :: int

record budget_charge =
  bch_operation_id :: pystr
  bch_agent_id :: pystr
  bch_amounts :: budget_amounts
  bch_mode :: charge_mode
  bch_usage_quality :: "usage_quality option"
  bch_charged_seq :: int

record usage_reservation =
  ur_reservation_id :: pystr
  ur_agent_id :: pystr
  ur_amounts :: budget_amounts
  ur_status :: usage_status
  ur_reserved_seq :: int
  ur_started_seq :: "int option"
  ur_terminal_seq :: "int option"
  ur_settled_amounts :: "budget_amounts option"
  ur_usage_quality :: "usage_quality option"

definition charge_mode_value :: "charge_mode \<Rightarrow> pystr" where
  "charge_mode_value m = (case m of ADMISSION \<Rightarrow> lit ''admission'' | OBSERVATION \<Rightarrow> lit ''observation'')"

definition usage_quality_value :: "usage_quality \<Rightarrow> pystr" where
  "usage_quality_value q = (case q of Quality_Exact \<Rightarrow> lit ''exact''
     | Quality_Estimated \<Rightarrow> lit ''estimated'' | Quality_Unknown \<Rightarrow> lit ''unknown'')"

section \<open>Limits and amounts\<close>

definition MAX_BUDGET_VALUE :: int where
  "MAX_BUDGET_VALUE = 2 ^ 53 - 1"

lemma MAX_BUDGET_VALUE_code [code]: "MAX_BUDGET_VALUE = 9007199254740991"
  by (simp add: MAX_BUDGET_VALUE_def)

definition LIMIT_FIELDS :: "string list" where
  "LIMIT_FIELDS = [''max_tokens'', ''max_steps'', ''max_tool_calls'', ''max_wall_milliseconds'',
     ''max_children'', ''max_depth'', ''max_processes'']"

definition AMOUNT_FIELDS :: "string list" where
  "AMOUNT_FIELDS = [''tokens'', ''steps'', ''tool_calls'', ''wall_milliseconds'']"

definition limit_values :: "budget_limits \<Rightarrow> int option list" where
  "limit_values l = [bl_max_tokens l, bl_max_steps l, bl_max_tool_calls l, bl_max_wall_milliseconds l,
     bl_max_children l, bl_max_depth l, bl_max_processes l]"

definition amount_values :: "budget_amounts \<Rightarrow> int list" where
  "amount_values a = [ba_tokens a, ba_steps a, ba_tool_calls a, ba_wall_milliseconds a]"

definition valid_amount :: "json \<Rightarrow> bool" where
  "valid_amount value = (case value of JInt n \<Rightarrow> 0 \<le> n \<and> n \<le> MAX_BUDGET_VALUE | _ \<Rightarrow> False)"

definition valid_limit :: "json \<Rightarrow> bool" where
  "valid_limit value = (value = JNull \<or> valid_amount value)"

definition freeze_limits :: "budget_limits \<Rightarrow> string \<Rightarrow> budget_limits result" where
  "freeze_limits value field =
     (if \<not> list_all (\<lambda>item. valid_limit (json_int_opt item)) (limit_values value)
      then Inl (BudgetInputError ''budget-limits-invalid'' field) else Inr value)"

definition limits_to_data :: "budget_limits \<Rightarrow> payload result" where
  "limits_to_data value =
     rbind (freeze_limits value ''limits'') (\<lambda>frozen.
       Inr [(lit ''max_tokens'', json_int_opt (bl_max_tokens frozen)),
            (lit ''max_steps'', json_int_opt (bl_max_steps frozen)),
            (lit ''max_tool_calls'', json_int_opt (bl_max_tool_calls frozen)),
            (lit ''max_wall_milliseconds'', json_int_opt (bl_max_wall_milliseconds frozen)),
            (lit ''max_children'', json_int_opt (bl_max_children frozen)),
            (lit ''max_depth'', json_int_opt (bl_max_depth frozen)),
            (lit ''max_processes'', json_int_opt (bl_max_processes frozen))])"

definition limit_of :: "json \<Rightarrow> int option" where
  "limit_of value = (case value of JInt n \<Rightarrow> Some n | _ \<Rightarrow> None)"

definition limits_from :: "payload \<Rightarrow> budget_limits" where
  "limits_from d =
     \<lparr>bl_max_tokens = limit_of (jget d ''max_tokens''), bl_max_steps = limit_of (jget d ''max_steps''),
      bl_max_tool_calls = limit_of (jget d ''max_tool_calls''),
      bl_max_wall_milliseconds = limit_of (jget d ''max_wall_milliseconds''),
      bl_max_children = limit_of (jget d ''max_children''), bl_max_depth = limit_of (jget d ''max_depth''),
      bl_max_processes = limit_of (jget d ''max_processes'')\<rparr>"

definition read_limits :: "json \<Rightarrow> int \<Rightarrow> budget_limits result" where
  "read_limits value seq =
     (case value of
        JDict d \<Rightarrow>
          (if \<not> keys_are d LIMIT_FIELDS then Inl (BudgetProtocolError ''budget-limits-invalid'' seq)
           else if \<not> list_all (\<lambda>name. valid_limit (jget d name)) LIMIT_FIELDS
           then Inl (BudgetProtocolError ''budget-limits-invalid'' seq)
           else Inr (limits_from d))
      | _ \<Rightarrow> Inl (BudgetProtocolError ''budget-limits-invalid'' seq))"

definition require_retained_tokens :: "json \<Rightarrow> int result" where
  "require_retained_tokens value =
     (case value of
        JInt n \<Rightarrow> (if valid_amount (JInt n) then Inr n
                    else Inl (BudgetInputError ''budget-retained-tokens-invalid'' ''retained_tokens''))
      | _ \<Rightarrow> Inl (BudgetInputError ''budget-retained-tokens-invalid'' ''retained_tokens''))"

definition freeze_amounts :: "budget_amounts \<Rightarrow> bool \<Rightarrow> budget_amounts result" where
  "freeze_amounts value require_usage =
     (if \<not> list_all (\<lambda>item. valid_amount (JInt item)) (amount_values value)
      then Inl (BudgetInputError ''budget-amounts-invalid'' ''amounts'')
      else if require_usage \<and> list_all (\<lambda>item. item = 0) (amount_values value)
      then Inl (BudgetInputError ''budget-charge-empty'' ''amounts'')
      else Inr value)"

definition amounts_to_data :: "budget_amounts \<Rightarrow> bool \<Rightarrow> payload result" where
  "amounts_to_data value require_usage =
     rbind (freeze_amounts value require_usage) (\<lambda>frozen.
       Inr [(lit ''tokens'', JInt (ba_tokens frozen)), (lit ''steps'', JInt (ba_steps frozen)),
            (lit ''tool_calls'', JInt (ba_tool_calls frozen)),
            (lit ''wall_milliseconds'', JInt (ba_wall_milliseconds frozen))])"

definition amount_of :: "json \<Rightarrow> int" where
  "amount_of value = (case value of JInt n \<Rightarrow> n | _ \<Rightarrow> 0)"

definition amounts_from :: "payload \<Rightarrow> budget_amounts" where
  "amounts_from d = \<lparr>ba_tokens = amount_of (jget d ''tokens''), ba_steps = amount_of (jget d ''steps''),
     ba_tool_calls = amount_of (jget d ''tool_calls''),
     ba_wall_milliseconds = amount_of (jget d ''wall_milliseconds'')\<rparr>"

definition read_amounts :: "json \<Rightarrow> int \<Rightarrow> bool \<Rightarrow> budget_amounts result" where
  "read_amounts value seq require_usage =
     (case value of
        JDict d \<Rightarrow>
          (if \<not> keys_are d AMOUNT_FIELDS then Inl (BudgetProtocolError ''budget-amounts-invalid'' seq)
           else if \<not> list_all (\<lambda>name. valid_amount (jget d name)) AMOUNT_FIELDS
           then Inl (BudgetProtocolError ''budget-amounts-invalid'' seq)
           else if require_usage \<and> list_all (\<lambda>item. item = 0) (amount_values (amounts_from d))
           then Inl (BudgetProtocolError ''budget-charge-empty'' seq)
           else Inr (amounts_from d))
      | _ \<Rightarrow> Inl (BudgetProtocolError ''budget-amounts-invalid'' seq))"

definition initial_token_limits :: "budget_limits \<Rightarrow> json \<Rightarrow> budget_limits result" where
  \<comment> \<open>the initial tokens of a fact are JSON that its parser has not checked\<close>
  "initial_token_limits limits initial_tokens =
     (case initial_tokens of
        JNull \<Rightarrow> Inr limits
      | JInt n \<Rightarrow>
          (case bl_max_tokens limits of
             None \<Rightarrow> Inl (BudgetInputError ''budget-initial-tokens-invalid'' ''initial_tokens'')
           | Some m \<Rightarrow>
               (if 0 < n \<and> n \<le> m then Inr (limits\<lparr>bl_max_tokens := Some n\<rparr>)
                else Inl (BudgetInputError ''budget-initial-tokens-invalid'' ''initial_tokens'')))
      | _ \<Rightarrow> Inl (BudgetInputError ''budget-initial-tokens-invalid'' ''initial_tokens''))"

section \<open>Lemmas\<close>

definition limit_ok :: "int option \<Rightarrow> bool" where
  "limit_ok x = (case x of None \<Rightarrow> True | Some n \<Rightarrow> 0 \<le> n \<and> n \<le> MAX_BUDGET_VALUE)"

definition limits_ok :: "budget_limits \<Rightarrow> bool" where
  "limits_ok l = list_all limit_ok (limit_values l)"

definition amounts_ok :: "budget_amounts \<Rightarrow> bool" where
  "amounts_ok a = list_all (\<lambda>n. 0 \<le> n \<and> n \<le> MAX_BUDGET_VALUE) (amount_values a)"

lemma valid_limit_opt [simp]: "valid_limit (json_int_opt x) = limit_ok x"
  by (cases x) (simp_all add: valid_limit_def valid_amount_def limit_ok_def)

lemma limit_of_opt [simp]: "limit_of (json_int_opt x) = x"
  by (cases x) (simp_all add: limit_of_def)

lemma valid_limit_of: "valid_limit v \<Longrightarrow> limit_ok (limit_of v) \<and> v = json_int_opt (limit_of v)"
  by (cases v) (simp_all add: valid_limit_def valid_amount_def limit_ok_def limit_of_def)

lemma valid_amount_JInt [simp]: "valid_amount (JInt n) \<longleftrightarrow> 0 \<le> n \<and> n \<le> MAX_BUDGET_VALUE"
  by (simp add: valid_amount_def)

lemma valid_amount_of: "valid_amount v \<Longrightarrow> v = JInt (amount_of v) \<and> 0 \<le> amount_of v \<and> amount_of v \<le> MAX_BUDGET_VALUE"
  by (cases v) (simp_all add: valid_amount_def amount_of_def)

lemma freeze_limits_Inr [result_simps]: "freeze_limits l f = Inr m \<longleftrightarrow> m = l \<and> limits_ok l"
  by (auto simp: freeze_limits_def limits_ok_def)

lemma freeze_amounts_Inr [result_simps]:
  "freeze_amounts a r = Inr b \<longleftrightarrow> b = a \<and> amounts_ok a \<and> (r \<longrightarrow> \<not> list_all (\<lambda>n. n = 0) (amount_values a))"
  by (auto simp: freeze_amounts_def amounts_ok_def)

lemma require_retained_tokens_Inr [result_simps]:
  "require_retained_tokens v = Inr n \<longleftrightarrow> v = JInt n \<and> 0 \<le> n \<and> n \<le> MAX_BUDGET_VALUE"
  by (cases v) (auto simp: require_retained_tokens_def)

lemma read_limits_ok:
  assumes "read_limits v seq = Inr l"
  shows "limits_ok l"
proof -
  obtain d where d: "v = JDict d" using assms by (cases v) (simp_all add: read_limits_def)
  have all: "list_all (\<lambda>name. valid_limit (jget d name)) LIMIT_FIELDS" and l: "l = limits_from d"
    using assms by (auto simp: d read_limits_def split: if_splits)
  show ?thesis
    using all valid_limit_of by (simp add: l limits_ok_def limit_values_def limits_from_def LIMIT_FIELDS_def)
qed

lemma read_amounts_ok:
  assumes "read_amounts v seq r = Inr a"
  shows "amounts_ok a \<and> (r \<longrightarrow> \<not> list_all (\<lambda>n. n = 0) (amount_values a))"
proof -
  obtain d where d: "v = JDict d" using assms by (cases v) (simp_all add: read_amounts_def)
  have all: "list_all (\<lambda>name. valid_amount (jget d name)) AMOUNT_FIELDS" and a: "a = amounts_from d"
    and u: "r \<longrightarrow> \<not> list_all (\<lambda>n. n = 0) (amount_values a)"
    using assms by (auto simp: d read_amounts_def split: if_splits)
  have "amounts_ok a"
    using all valid_amount_of by (simp add: a amounts_ok_def amount_values_def amounts_from_def AMOUNT_FIELDS_def)
  with u show ?thesis by blast
qed

lemma amounts_nonneg:
  "amounts_ok a \<Longrightarrow> 0 \<le> ba_tokens a \<and> 0 \<le> ba_steps a \<and> 0 \<le> ba_tool_calls a \<and> 0 \<le> ba_wall_milliseconds a"
  by (simp add: amounts_ok_def amount_values_def)

lemma read_limits_of_data:
  assumes "limits_to_data l = Inr d"
  shows "read_limits (JDict d) seq = Inr l"
proof -
  have ok: "limits_ok l" and d: "d = [(lit ''max_tokens'', json_int_opt (bl_max_tokens l)),
            (lit ''max_steps'', json_int_opt (bl_max_steps l)),
            (lit ''max_tool_calls'', json_int_opt (bl_max_tool_calls l)),
            (lit ''max_wall_milliseconds'', json_int_opt (bl_max_wall_milliseconds l)),
            (lit ''max_children'', json_int_opt (bl_max_children l)),
            (lit ''max_depth'', json_int_opt (bl_max_depth l)),
            (lit ''max_processes'', json_int_opt (bl_max_processes l))]"
    using assms by (auto simp: limits_to_data_def result_simps)
  have "limits_from d = l" by (simp add: d limits_from_def)
  moreover have "keys_are d LIMIT_FIELDS" by (simp add: d keys_are_def LIMIT_FIELDS_def)
  moreover have "list_all (\<lambda>name. valid_limit (jget d name)) LIMIT_FIELDS"
    using ok by (simp add: d LIMIT_FIELDS_def limits_ok_def limit_values_def)
  ultimately show ?thesis by (simp add: read_limits_def)
qed

lemma read_amounts_of_data:
  assumes "amounts_to_data a r = Inr d"
  shows "read_amounts (JDict d) seq r = Inr a"
proof -
  have ok: "amounts_ok a" and u: "r \<longrightarrow> \<not> list_all (\<lambda>n. n = 0) (amount_values a)"
    and d: "d = [(lit ''tokens'', JInt (ba_tokens a)), (lit ''steps'', JInt (ba_steps a)),
            (lit ''tool_calls'', JInt (ba_tool_calls a)), (lit ''wall_milliseconds'', JInt (ba_wall_milliseconds a))]"
    using assms by (auto simp: amounts_to_data_def result_simps)
  have a: "amounts_from d = a" by (simp add: d amounts_from_def amount_of_def)
  moreover have "keys_are d AMOUNT_FIELDS" by (simp add: d keys_are_def AMOUNT_FIELDS_def)
  moreover have "list_all (\<lambda>name. valid_amount (jget d name)) AMOUNT_FIELDS"
    using ok by (simp add: d AMOUNT_FIELDS_def amounts_ok_def amount_values_def)
  ultimately show ?thesis using u by (simp add: read_amounts_def)
qed

lemma initial_token_limits_Inr:
  "initial_token_limits l v = Inr g \<longleftrightarrow> (v = JNull \<and> g = l) \<or>
     (\<exists>n m. v = JInt n \<and> bl_max_tokens l = Some m \<and> 0 < n \<and> n \<le> m \<and> g = l\<lparr>bl_max_tokens := Some n\<rparr>)"
  by (cases v) (auto simp: initial_token_limits_def split: option.splits)

end
