(* ===== verification/Budget_Events.thy ===== *)
theory Budget_Events imports Budget_Types begin

text \<open>
  The event vocabulary of the budget ledger (budgets/events.py): eleven facts, the writer of
  each payload and the one parser, with the errors and their order as the code has them. Any
  other exception inside the parser, a \<open>BudgetInputError\<close> of a shared validator included,
  becomes \<open>budget-payload-invalid\<close>.
\<close>

abbreviation BUDGET_LEDGER_STREAM :: pystr where "BUDGET_LEDGER_STREAM \<equiv> lit ''budgets:ledger''"

definition BUDGET_SCHEMA_VERSION :: int where "BUDGET_SCHEMA_VERSION = 3"

abbreviation BUDGET_ROOT_GRANTED :: string where "BUDGET_ROOT_GRANTED \<equiv> ''budget/root-granted''"
abbreviation BUDGET_CHILD_RESERVED :: string where "BUDGET_CHILD_RESERVED \<equiv> ''budget/child-reserved''"
abbreviation BUDGET_RESERVATION_COMMITTED :: string where
  "BUDGET_RESERVATION_COMMITTED \<equiv> ''budget/reservation-committed''"
abbreviation BUDGET_RESERVATION_RELEASED :: string where
  "BUDGET_RESERVATION_RELEASED \<equiv> ''budget/reservation-released''"
abbreviation BUDGET_USAGE_CHARGED :: string where "BUDGET_USAGE_CHARGED \<equiv> ''budget/usage-charged''"
abbreviation BUDGET_USAGE_RESERVED :: string where "BUDGET_USAGE_RESERVED \<equiv> ''budget/usage-reserved''"
abbreviation BUDGET_USAGE_STARTED :: string where "BUDGET_USAGE_STARTED \<equiv> ''budget/usage-started''"
abbreviation BUDGET_USAGE_SETTLED :: string where "BUDGET_USAGE_SETTLED \<equiv> ''budget/usage-settled''"
abbreviation BUDGET_USAGE_RELEASED :: string where "BUDGET_USAGE_RELEASED \<equiv> ''budget/usage-released''"
abbreviation BUDGET_ACCOUNT_CLOSED :: string where "BUDGET_ACCOUNT_CLOSED \<equiv> ''budget/account-closed''"
abbreviation BUDGET_CHILD_TOKEN_DECIDED :: string where
  "BUDGET_CHILD_TOKEN_DECIDED \<equiv> ''budget/child-token-decided''"

definition ROOT_KEYS :: "string list" where
  "ROOT_KEYS = [''operation_id'', ''agent_id'', ''limits'']"
definition RESERVE_KEYS :: "string list" where
  "RESERVE_KEYS = [''operation_id'', ''reservation_id'', ''parent_agent_id'', ''child_agent_id'',
     ''creation_request_id'', ''child_limits'', ''retained_tokens'', ''initial_tokens'']"
definition TERMINAL_KEYS :: "string list" where
  "TERMINAL_KEYS = [''operation_id'', ''reservation_id'']"
definition CHARGE_KEYS :: "string list" where
  "CHARGE_KEYS = [''operation_id'', ''agent_id'', ''amounts'', ''mode'', ''usage_quality'']"
definition USAGE_RESERVE_KEYS :: "string list" where
  "USAGE_RESERVE_KEYS = [''operation_id'', ''reservation_id'', ''agent_id'', ''amounts'']"
definition USAGE_SETTLE_KEYS :: "string list" where
  "USAGE_SETTLE_KEYS = [''operation_id'', ''reservation_id'', ''amounts'', ''usage_quality'']"
definition CLOSE_KEYS :: "string list" where
  "CLOSE_KEYS = [''operation_id'', ''agent_id'']"
definition DECISION_KEYS :: "string list" where
  "DECISION_KEYS = [''operation_id'', ''request_id'', ''parent_agent_id'', ''child_agent_id'',
     ''tokens'', ''reason'']"

section \<open>Facts\<close>

record child_reserved_fact =
  crf_operation_id :: pystr
  crf_reservation_id :: pystr
  crf_parent_agent_id :: pystr
  crf_child_agent_id :: pystr
  crf_creation_request_id :: pystr
  crf_child_limits :: budget_limits
  crf_retained_tokens :: int
  crf_initial_tokens :: json
  crf_seq :: int

datatype budget_fact =
    Root_Granted pystr pystr budget_limits int
  | Child_Reserved child_reserved_fact
  | Reservation_Committed_Fact pystr pystr int
  | Reservation_Released_Fact pystr pystr int
  | Usage_Charged pystr pystr budget_amounts charge_mode "usage_quality option" int
  | Usage_Reserved pystr pystr pystr budget_amounts int
  | Usage_Started_Fact pystr pystr int
  | Usage_Settled_Fact pystr pystr budget_amounts "usage_quality option" int
  | Usage_Released_Fact pystr pystr int
  | Account_Closed_Fact pystr pystr int
  | Child_Token_Decided child_token_decision

fun fact_operation_id :: "budget_fact \<Rightarrow> pystr" where
  "fact_operation_id (Root_Granted op _ _ _) = op"
| "fact_operation_id (Child_Reserved f) = crf_operation_id f"
| "fact_operation_id (Reservation_Committed_Fact op _ _) = op"
| "fact_operation_id (Reservation_Released_Fact op _ _) = op"
| "fact_operation_id (Usage_Charged op _ _ _ _ _) = op"
| "fact_operation_id (Usage_Reserved op _ _ _ _) = op"
| "fact_operation_id (Usage_Started_Fact op _ _) = op"
| "fact_operation_id (Usage_Settled_Fact op _ _ _ _) = op"
| "fact_operation_id (Usage_Released_Fact op _ _) = op"
| "fact_operation_id (Account_Closed_Fact op _ _) = op"
| "fact_operation_id (Child_Token_Decided f) = ctd_operation_id f"

fun fact_seq :: "budget_fact \<Rightarrow> int" where
  "fact_seq (Root_Granted _ _ _ n) = n"
| "fact_seq (Child_Reserved f) = crf_seq f"
| "fact_seq (Reservation_Committed_Fact _ _ n) = n"
| "fact_seq (Reservation_Released_Fact _ _ n) = n"
| "fact_seq (Usage_Charged _ _ _ _ _ n) = n"
| "fact_seq (Usage_Reserved _ _ _ _ n) = n"
| "fact_seq (Usage_Started_Fact _ _ n) = n"
| "fact_seq (Usage_Settled_Fact _ _ _ _ n) = n"
| "fact_seq (Usage_Released_Fact _ _ n) = n"
| "fact_seq (Account_Closed_Fact _ _ n) = n"
| "fact_seq (Child_Token_Decided f) = ctd_seq f"

fun budget_event_type :: "budget_fact \<Rightarrow> string" where
  "budget_event_type (Child_Token_Decided _) = BUDGET_CHILD_TOKEN_DECIDED"
| "budget_event_type (Root_Granted _ _ _ _) = BUDGET_ROOT_GRANTED"
| "budget_event_type (Child_Reserved _) = BUDGET_CHILD_RESERVED"
| "budget_event_type (Reservation_Committed_Fact _ _ _) = BUDGET_RESERVATION_COMMITTED"
| "budget_event_type (Reservation_Released_Fact _ _ _) = BUDGET_RESERVATION_RELEASED"
| "budget_event_type (Usage_Charged _ _ _ _ _ _) = BUDGET_USAGE_CHARGED"
| "budget_event_type (Usage_Reserved _ _ _ _ _) = BUDGET_USAGE_RESERVED"
| "budget_event_type (Usage_Started_Fact _ _ _) = BUDGET_USAGE_STARTED"
| "budget_event_type (Usage_Settled_Fact _ _ _ _ _) = BUDGET_USAGE_SETTLED"
| "budget_event_type (Usage_Released_Fact _ _ _) = BUDGET_USAGE_RELEASED"
| "budget_event_type (Account_Closed_Fact _ _ _) = BUDGET_ACCOUNT_CLOSED"

section \<open>Writing\<close>

definition require_budget_identifier :: "json \<Rightarrow> string \<Rightarrow> pystr result" where
  "require_budget_identifier value field =
     (case value of
        JStr s \<Rightarrow> (if is_agent_identifier (JStr s) then Inr s
                   else Inl (BudgetInputError ''budget-identity-invalid'' field))
      | _ \<Rightarrow> Inl (BudgetInputError ''budget-identity-invalid'' field))"

definition budget_id :: "pystr \<Rightarrow> string \<Rightarrow> pystr result" where
  "budget_id s field = require_budget_identifier (JStr s) field"

definition quality_value :: "usage_quality option \<Rightarrow> json" where
  "quality_value q = json_opt (map_option usage_quality_value q)"

definition decision_reason_ok :: "json \<Rightarrow> bool" where
  "decision_reason_ok reason =
     (case reason of JStr s \<Rightarrow> py_strip s \<noteq> [] \<and> \<not> 2000 < py_len s | _ \<Rightarrow> False)"

definition child_token_decision_data ::
    "json \<Rightarrow> json \<Rightarrow> json \<Rightarrow> json \<Rightarrow> json \<Rightarrow> json \<Rightarrow> payload result" where
  "child_token_decision_data operation_id request_id parent_agent_id child_agent_id tokens reason =
     (if \<not> valid_amount tokens then Inl (BudgetInputError ''budget-token-increase-invalid'' ''tokens'')
      else if \<not> decision_reason_ok reason
      then Inl (BudgetInputError ''budget-decision-reason-invalid'' ''reason'')
      else
        rbind (require_budget_identifier operation_id ''operation_id'') (\<lambda>op.
        rbind (require_budget_identifier request_id ''request_id'') (\<lambda>rq.
        rbind (require_budget_identifier parent_agent_id ''parent_agent_id'') (\<lambda>p.
        rbind (require_budget_identifier child_agent_id ''child_agent_id'') (\<lambda>c.
          Inr [(lit ''operation_id'', JStr op), (lit ''request_id'', JStr rq),
               (lit ''parent_agent_id'', JStr p), (lit ''child_agent_id'', JStr c),
               (lit ''tokens'', tokens), (lit ''reason'', reason)])))))"

definition root_granted_data :: "pystr \<Rightarrow> pystr \<Rightarrow> budget_limits \<Rightarrow> payload result" where
  "root_granted_data operation_id agent_id limits =
     rbind (budget_id operation_id ''operation_id'') (\<lambda>op.
     rbind (budget_id agent_id ''agent_id'') (\<lambda>a.
     rbind (limits_to_data limits) (\<lambda>l.
       Inr [(lit ''operation_id'', JStr op), (lit ''agent_id'', JStr a), (lit ''limits'', JDict l)])))"

definition child_reserved_data ::
    "pystr \<Rightarrow> pystr \<Rightarrow> pystr \<Rightarrow> pystr \<Rightarrow> pystr \<Rightarrow> budget_limits \<Rightarrow> int \<Rightarrow> json \<Rightarrow> payload result" where
  "child_reserved_data operation_id reservation_id parent_agent_id child_agent_id creation_request_id
     child_limits retained_tokens initial_tokens =
     rbind (freeze_limits child_limits ''limits'') (\<lambda>frozen.
     rbind (initial_token_limits frozen initial_tokens) (\<lambda>_.
     rbind (budget_id operation_id ''operation_id'') (\<lambda>op.
     rbind (budget_id reservation_id ''reservation_id'') (\<lambda>rs.
     rbind (budget_id parent_agent_id ''parent_agent_id'') (\<lambda>p.
     rbind (budget_id child_agent_id ''child_agent_id'') (\<lambda>c.
     rbind (budget_id creation_request_id ''creation_request_id'') (\<lambda>rq.
     rbind (limits_to_data child_limits) (\<lambda>l.
     rbind (require_retained_tokens (JInt retained_tokens)) (\<lambda>rt.
       Inr [(lit ''operation_id'', JStr op), (lit ''reservation_id'', JStr rs),
            (lit ''parent_agent_id'', JStr p), (lit ''child_agent_id'', JStr c),
            (lit ''creation_request_id'', JStr rq), (lit ''child_limits'', JDict l),
            (lit ''retained_tokens'', JInt rt), (lit ''initial_tokens'', initial_tokens)])))))))))"

definition reservation_terminal_data :: "pystr \<Rightarrow> pystr \<Rightarrow> payload result" where
  "reservation_terminal_data operation_id reservation_id =
     rbind (budget_id operation_id ''operation_id'') (\<lambda>op.
     rbind (budget_id reservation_id ''reservation_id'') (\<lambda>rs.
       Inr [(lit ''operation_id'', JStr op), (lit ''reservation_id'', JStr rs)]))"

definition usage_charged_data ::
    "pystr \<Rightarrow> pystr \<Rightarrow> budget_amounts \<Rightarrow> charge_mode \<Rightarrow> usage_quality option \<Rightarrow> payload result" where
  "usage_charged_data operation_id agent_id amounts mode usage_quality =
     rbind (freeze_amounts amounts True) (\<lambda>frozen.
       if ba_tokens frozen \<noteq> 0 \<and> usage_quality = None
       then Inl (BudgetInputError ''budget-usage-quality-invalid'' ''usage_quality'')
       else if ba_tokens frozen = 0 \<and> usage_quality \<noteq> None
       then Inl (BudgetInputError ''budget-usage-quality-invalid'' ''usage_quality'')
       else
         rbind (budget_id operation_id ''operation_id'') (\<lambda>op.
         rbind (budget_id agent_id ''agent_id'') (\<lambda>a.
         rbind (amounts_to_data frozen True) (\<lambda>d.
           Inr [(lit ''operation_id'', JStr op), (lit ''agent_id'', JStr a), (lit ''amounts'', JDict d),
                (lit ''mode'', JStr (charge_mode_value mode)),
                (lit ''usage_quality'', quality_value usage_quality)]))))"

definition one_reserved_dimension :: "budget_amounts \<Rightarrow> bool" where
  \<comment> \<open>the negation of the shared guard on usage reservations\<close>
  "one_reserved_dimension a =
     (\<not> ((ba_tokens a \<noteq> 0) = (ba_wall_milliseconds a \<noteq> 0) \<or> ba_steps a \<noteq> 0 \<or> ba_tool_calls a \<noteq> 0))"

definition usage_reserved_data :: "pystr \<Rightarrow> pystr \<Rightarrow> pystr \<Rightarrow> budget_amounts \<Rightarrow> payload result" where
  "usage_reserved_data operation_id reservation_id agent_id amounts =
     rbind (freeze_amounts amounts True) (\<lambda>frozen.
       if \<not> one_reserved_dimension frozen
       then Inl (BudgetInputError ''budget-usage-reservation-invalid'' ''amounts'')
       else
         rbind (budget_id operation_id ''operation_id'') (\<lambda>op.
         rbind (budget_id reservation_id ''reservation_id'') (\<lambda>rs.
         rbind (budget_id agent_id ''agent_id'') (\<lambda>a.
         rbind (amounts_to_data frozen True) (\<lambda>d.
           Inr [(lit ''operation_id'', JStr op), (lit ''reservation_id'', JStr rs),
                (lit ''agent_id'', JStr a), (lit ''amounts'', JDict d)])))))"

definition settlement_shape :: "budget_amounts \<Rightarrow> usage_quality option \<Rightarrow> bool" where
  \<comment> \<open>the negation of the shared guard on settlements\<close>
  "settlement_shape a q =
     (\<not> (ba_steps a \<noteq> 0 \<or> ba_tool_calls a \<noteq> 0 \<or> (ba_tokens a \<noteq> 0 \<and> ba_wall_milliseconds a \<noteq> 0) \<or>
          (ba_tokens a \<noteq> 0 \<and> q = None) \<or> (ba_wall_milliseconds a \<noteq> 0 \<and> q \<noteq> None)))"

definition usage_settled_data ::
    "pystr \<Rightarrow> pystr \<Rightarrow> budget_amounts \<Rightarrow> usage_quality option \<Rightarrow> payload result" where
  "usage_settled_data operation_id reservation_id amounts usage_quality =
     rbind (freeze_amounts amounts False) (\<lambda>frozen.
       if \<not> settlement_shape frozen usage_quality
       then Inl (BudgetInputError ''budget-usage-settlement-invalid'' ''amounts'')
       else
         rbind (budget_id operation_id ''operation_id'') (\<lambda>op.
         rbind (budget_id reservation_id ''reservation_id'') (\<lambda>rs.
         rbind (amounts_to_data frozen False) (\<lambda>d.
           Inr [(lit ''operation_id'', JStr op), (lit ''reservation_id'', JStr rs),
                (lit ''amounts'', JDict d), (lit ''usage_quality'', quality_value usage_quality)]))))"

definition usage_released_data :: "pystr \<Rightarrow> pystr \<Rightarrow> payload result" where
  "usage_released_data operation_id reservation_id = reservation_terminal_data operation_id reservation_id"

definition account_closed_data :: "pystr \<Rightarrow> pystr \<Rightarrow> payload result" where
  "account_closed_data operation_id agent_id =
     rbind (budget_id operation_id ''operation_id'') (\<lambda>op.
     rbind (budget_id agent_id ''agent_id'') (\<lambda>a.
       Inr [(lit ''operation_id'', JStr op), (lit ''agent_id'', JStr a)]))"

section \<open>Reading\<close>

text \<open>
  The readers run after the exact key check, so \<open>data[key]\<close> and \<open>data.get(key)\<close> agree and both
  are \<open>jget\<close>. The order of the checks is the order of evaluation of the source.
\<close>

definition budget_error :: "string \<Rightarrow> int \<Rightarrow> 'a result" where
  "budget_error code seq = Inl (BudgetProtocolError code seq)"

definition read_budget_id :: "payload \<Rightarrow> string \<Rightarrow> int \<Rightarrow> pystr result" where
  "read_budget_id data field seq =
     read_identifier_or (BudgetProtocolError ''budget-identity-invalid'' seq) data field"

definition read_mode :: "json \<Rightarrow> int \<Rightarrow> charge_mode result" where
  "read_mode value seq =
     (if value = JStr (charge_mode_value ADMISSION) then Inr ADMISSION
      else if value = JStr (charge_mode_value OBSERVATION) then Inr OBSERVATION
      else budget_error ''budget-charge-mode-invalid'' seq)"

definition read_quality :: "json \<Rightarrow> int \<Rightarrow> usage_quality option result" where
  "read_quality value seq =
     (if value = JNull then Inr None
      else if value = JStr (usage_quality_value Quality_Exact) then Inr (Some Quality_Exact)
      else if value = JStr (usage_quality_value Quality_Estimated) then Inr (Some Quality_Estimated)
      else if value = JStr (usage_quality_value Quality_Unknown) then Inr (Some Quality_Unknown)
      else budget_error ''budget-usage-quality-invalid'' seq)"

definition read_token_decision :: "payload \<Rightarrow> int \<Rightarrow> budget_fact result" where
  "read_token_decision data seq =
     rbind (child_token_decision_data (jget data ''operation_id'') (jget data ''request_id'')
              (jget data ''parent_agent_id'') (jget data ''child_agent_id'')
              (jget data ''tokens'') (jget data ''reason'')) (\<lambda>d.
     case (jget d ''operation_id'', jget d ''request_id'', jget d ''parent_agent_id'',
           jget d ''child_agent_id'', jget d ''tokens'', jget d ''reason'') of
       (JStr op, JStr rq, JStr p, JStr c, JInt n, JStr reason) \<Rightarrow>
         Inr (Child_Token_Decided \<lparr>ctd_operation_id = op, ctd_request_id = rq,
           ctd_parent_agent_id = p, ctd_child_agent_id = c, ctd_tokens = n, ctd_reason = reason,
           ctd_seq = seq\<rparr>)
     | _ \<Rightarrow> Inl PyTypeError)"

definition read_root_granted :: "payload \<Rightarrow> int \<Rightarrow> budget_fact result" where
  "read_root_granted data seq =
     rbind (read_budget_id data ''operation_id'' seq) (\<lambda>op.
     rbind (read_budget_id data ''agent_id'' seq) (\<lambda>a.
     rbind (read_limits (jget data ''limits'') seq) (\<lambda>l.
       Inr (Root_Granted op a l seq))))"

definition read_child_reserved :: "payload \<Rightarrow> int \<Rightarrow> budget_fact result" where
  "read_child_reserved data seq =
     (case jget data ''retained_tokens'' of
        JInt retained \<Rightarrow>
          (if \<not> valid_amount (JInt retained) then budget_error ''budget-retained-tokens-invalid'' seq
           else
             rbind (read_budget_id data ''operation_id'' seq) (\<lambda>op.
             rbind (read_budget_id data ''reservation_id'' seq) (\<lambda>rs.
             rbind (read_budget_id data ''parent_agent_id'' seq) (\<lambda>p.
             rbind (read_budget_id data ''child_agent_id'' seq) (\<lambda>c.
             rbind (read_budget_id data ''creation_request_id'' seq) (\<lambda>rq.
             rbind (read_limits (jget data ''child_limits'') seq) (\<lambda>l.
               Inr (Child_Reserved \<lparr>crf_operation_id = op, crf_reservation_id = rs,
                 crf_parent_agent_id = p, crf_child_agent_id = c, crf_creation_request_id = rq,
                 crf_child_limits = l, crf_retained_tokens = retained,
                 crf_initial_tokens = jget data ''initial_tokens'', crf_seq = seq\<rparr>))))))))
      | _ \<Rightarrow> budget_error ''budget-retained-tokens-invalid'' seq)"

definition read_terminal :: "(pystr \<Rightarrow> pystr \<Rightarrow> int \<Rightarrow> budget_fact) \<Rightarrow> payload \<Rightarrow> int \<Rightarrow> budget_fact result" where
  "read_terminal fact_of data seq =
     rbind (read_budget_id data ''operation_id'' seq) (\<lambda>op.
     rbind (read_budget_id data ''reservation_id'' seq) (\<lambda>rs. Inr (fact_of op rs seq)))"

definition read_usage_charged :: "payload \<Rightarrow> int \<Rightarrow> budget_fact result" where
  "read_usage_charged data seq =
     rbind (read_amounts (jget data ''amounts'') seq True) (\<lambda>amounts.
     rbind (read_quality (jget data ''usage_quality'') seq) (\<lambda>quality.
       if (0 < ba_tokens amounts) \<noteq> (quality \<noteq> None)
       then budget_error ''budget-usage-quality-invalid'' seq
       else
         rbind (read_budget_id data ''operation_id'' seq) (\<lambda>op.
         rbind (read_budget_id data ''agent_id'' seq) (\<lambda>a.
         rbind (read_mode (jget data ''mode'') seq) (\<lambda>mode.
           Inr (Usage_Charged op a amounts mode quality seq))))))"

definition read_usage_reserved :: "payload \<Rightarrow> int \<Rightarrow> budget_fact result" where
  "read_usage_reserved data seq =
     rbind (read_amounts (jget data ''amounts'') seq True) (\<lambda>amounts.
       if \<not> one_reserved_dimension amounts then budget_error ''budget-usage-reservation-invalid'' seq
       else
         rbind (read_budget_id data ''operation_id'' seq) (\<lambda>op.
         rbind (read_budget_id data ''reservation_id'' seq) (\<lambda>rs.
         rbind (read_budget_id data ''agent_id'' seq) (\<lambda>a.
           Inr (Usage_Reserved op rs a amounts seq)))))"

definition read_usage_settled :: "payload \<Rightarrow> int \<Rightarrow> budget_fact result" where
  "read_usage_settled data seq =
     rbind (read_amounts (jget data ''amounts'') seq False) (\<lambda>amounts.
     rbind (read_quality (jget data ''usage_quality'') seq) (\<lambda>quality.
       if \<not> settlement_shape amounts quality then budget_error ''budget-usage-settlement-invalid'' seq
       else
         rbind (read_budget_id data ''operation_id'' seq) (\<lambda>op.
         rbind (read_budget_id data ''reservation_id'' seq) (\<lambda>rs.
           Inr (Usage_Settled_Fact op rs amounts quality seq)))))"

definition read_account_closed :: "payload \<Rightarrow> int \<Rightarrow> budget_fact result" where
  "read_account_closed data seq =
     rbind (read_budget_id data ''operation_id'' seq) (\<lambda>op.
     rbind (read_budget_id data ''agent_id'' seq) (\<lambda>a. Inr (Account_Closed_Fact op a seq)))"

definition budget_readers :: "(pystr, string list \<times> (payload \<Rightarrow> int \<Rightarrow> budget_fact result)) dict" where
  \<comment> \<open>the chain of event types, each with its keys and the fact it builds\<close>
  "budget_readers =
     [(lit BUDGET_CHILD_TOKEN_DECIDED, DECISION_KEYS, read_token_decision),
      (lit BUDGET_ROOT_GRANTED, ROOT_KEYS, read_root_granted),
      (lit BUDGET_CHILD_RESERVED, RESERVE_KEYS, read_child_reserved),
      (lit BUDGET_RESERVATION_COMMITTED, TERMINAL_KEYS, read_terminal Reservation_Committed_Fact),
      (lit BUDGET_RESERVATION_RELEASED, TERMINAL_KEYS, read_terminal Reservation_Released_Fact),
      (lit BUDGET_USAGE_CHARGED, CHARGE_KEYS, read_usage_charged),
      (lit BUDGET_USAGE_RESERVED, USAGE_RESERVE_KEYS, read_usage_reserved),
      (lit BUDGET_USAGE_STARTED, TERMINAL_KEYS, read_terminal Usage_Started_Fact),
      (lit BUDGET_USAGE_SETTLED, USAGE_SETTLE_KEYS, read_usage_settled),
      (lit BUDGET_USAGE_RELEASED, TERMINAL_KEYS, read_terminal Usage_Released_Fact),
      (lit BUDGET_ACCOUNT_CLOSED, CLOSE_KEYS, read_account_closed)]"

definition read_budget_fact :: "event_envelope \<Rightarrow> budget_fact result" where
  "read_budget_fact event =
     (let seq = ev_seq event in
      if ev_stream_id event \<noteq> BUDGET_LEDGER_STREAM then budget_error ''budget-stream-unexpected'' seq
      else if ev_schema_version event \<noteq> BUDGET_SCHEMA_VERSION
      then budget_error ''budget-schema-version-unsupported'' seq
      else case ev_data event of
        JDict data \<Rightarrow>
          (case map_of budget_readers (ev_type event) of
             None \<Rightarrow> budget_error ''budget-event-type-unknown'' seq
           | Some (keys, reader) \<Rightarrow>
               (if \<not> keys_are data keys then budget_error ''budget-payload-keys-unexpected'' seq
                else reader data seq))
      | _ \<Rightarrow> budget_error ''budget-payload-invalid'' seq)"

definition is_budget_protocol_error :: "exn \<Rightarrow> bool" where
  "is_budget_protocol_error e = (case e of BudgetProtocolError _ _ \<Rightarrow> True | _ \<Rightarrow> False)"

definition parse_budget_fact :: "event_envelope \<Rightarrow> budget_fact result" where
  "parse_budget_fact event =
     wrap_unless is_budget_protocol_error (BudgetProtocolError ''budget-payload-invalid'' (ev_seq event))
       (read_budget_fact event)"

definition is_budget_fact :: "event_envelope \<Rightarrow> pystr \<Rightarrow> payload \<Rightarrow> bool" where
  "is_budget_fact event event_type data =
     (case parse_budget_fact event of
        Inl _ \<Rightarrow> False
      | Inr _ \<Rightarrow>
          (if ev_type event \<noteq> event_type then False
           else canonical_json (ev_data event) = canonical_json (JDict data)))"

section \<open>Lemmas\<close>

lemma budget_id_Inr [result_simps]: "budget_id s f = Inr t \<longleftrightarrow> t = s \<and> ident_ok s"
  by (auto simp: budget_id_def require_budget_identifier_def)

lemma require_budget_identifier_Inr [result_simps]:
  "require_budget_identifier v f = Inr t \<longleftrightarrow> v = JStr t \<and> ident_ok t"
  by (cases v) (auto simp: require_budget_identifier_def)

lemma read_budget_id_Inr [result_simps]: "read_budget_id d f n = Inr s \<longleftrightarrow> jget d f = JStr s \<and> ident_ok s"
  by (simp add: read_budget_id_def result_simps)

lemma budget_error_not_Inr [result_simps]: "budget_error c n = Inr x \<longleftrightarrow> False"
  by (simp add: budget_error_def)

lemma read_mode_value [simp]: "read_mode (JStr (charge_mode_value m)) n = Inr m"
  by (cases m) (simp_all add: read_mode_def charge_mode_value_def)

lemma read_quality_value [simp]: "read_quality (quality_value q) n = Inr q"
proof (cases q)
  case (Some x)
  then show ?thesis by (cases x) (simp_all add: read_quality_def quality_value_def usage_quality_value_def)
qed (simp add: read_quality_def quality_value_def)

lemma parse_budget_fact_Inr:
  "parse_budget_fact ev = Inr f \<longleftrightarrow>
     ev_stream_id ev = BUDGET_LEDGER_STREAM \<and> ev_schema_version ev = BUDGET_SCHEMA_VERSION \<and>
     (\<exists>d keys reader. ev_data ev = JDict d \<and> map_of budget_readers (ev_type ev) = Some (keys, reader) \<and>
        keys_are d keys \<and> reader d (ev_seq ev) = Inr f)"
proof (cases "ev_data ev")
  case (JDict d)
  then show ?thesis
    by (cases "map_of budget_readers (ev_type ev)")
      (auto simp: parse_budget_fact_def read_budget_fact_def result_simps Let_def split: if_splits)
qed (auto simp: parse_budget_fact_def read_budget_fact_def result_simps Let_def)

lemma parse_budget_fact_error:
  assumes "parse_budget_fact ev = Inl e"
  shows "\<exists>code seq. e = BudgetProtocolError code seq"
proof -
  obtain y where "e = (if is_budget_protocol_error y then y
      else BudgetProtocolError ''budget-payload-invalid'' (ev_seq ev))"
    using assms by (auto simp: parse_budget_fact_def result_simps)
  then show ?thesis by (cases y) (auto simp: is_budget_protocol_error_def)
qed

text \<open>The payload of a fact: which writer produces it.\<close>

fun budget_fact_data :: "budget_fact \<Rightarrow> payload result" where
  "budget_fact_data (Root_Granted op a l _) = root_granted_data op a l"
| "budget_fact_data (Child_Reserved f) =
     child_reserved_data (crf_operation_id f) (crf_reservation_id f) (crf_parent_agent_id f)
       (crf_child_agent_id f) (crf_creation_request_id f) (crf_child_limits f)
       (crf_retained_tokens f) (crf_initial_tokens f)"
| "budget_fact_data (Reservation_Committed_Fact op rs _) = reservation_terminal_data op rs"
| "budget_fact_data (Reservation_Released_Fact op rs _) = reservation_terminal_data op rs"
| "budget_fact_data (Usage_Charged op a amounts mode q _) = usage_charged_data op a amounts mode q"
| "budget_fact_data (Usage_Reserved op rs a amounts _) = usage_reserved_data op rs a amounts"
| "budget_fact_data (Usage_Started_Fact op rs _) = reservation_terminal_data op rs"
| "budget_fact_data (Usage_Settled_Fact op rs amounts q _) = usage_settled_data op rs amounts q"
| "budget_fact_data (Usage_Released_Fact op rs _) = usage_released_data op rs"
| "budget_fact_data (Account_Closed_Fact op a _) = account_closed_data op a"
| "budget_fact_data (Child_Token_Decided f) =
     child_token_decision_data (JStr (ctd_operation_id f)) (JStr (ctd_request_id f))
       (JStr (ctd_parent_agent_id f)) (JStr (ctd_child_agent_id f)) (JInt (ctd_tokens f)) (JStr (ctd_reason f))"

text \<open>What the parser guarantees of a fact besides its shape.\<close>

fun fact_ok :: "budget_fact \<Rightarrow> bool" where
  "fact_ok (Root_Granted op a l _) = (ident_ok op \<and> ident_ok a \<and> limits_ok l)"
| "fact_ok (Child_Reserved f) = (ident_ok (crf_operation_id f) \<and> ident_ok (crf_reservation_id f) \<and>
     ident_ok (crf_parent_agent_id f) \<and> ident_ok (crf_child_agent_id f) \<and>
     ident_ok (crf_creation_request_id f) \<and> limits_ok (crf_child_limits f) \<and>
     0 \<le> crf_retained_tokens f \<and> crf_retained_tokens f \<le> MAX_BUDGET_VALUE)"
| "fact_ok (Reservation_Committed_Fact op rs _) = (ident_ok op \<and> ident_ok rs)"
| "fact_ok (Reservation_Released_Fact op rs _) = (ident_ok op \<and> ident_ok rs)"
| "fact_ok (Usage_Charged op a amounts mode q _) = (ident_ok op \<and> ident_ok a \<and> amounts_ok amounts \<and>
     \<not> list_all (\<lambda>n. n = 0) (amount_values amounts) \<and> (0 < ba_tokens amounts \<longleftrightarrow> q \<noteq> None))"
| "fact_ok (Usage_Reserved op rs a amounts _) = (ident_ok op \<and> ident_ok rs \<and> ident_ok a \<and>
     amounts_ok amounts \<and> \<not> list_all (\<lambda>n. n = 0) (amount_values amounts) \<and> one_reserved_dimension amounts)"
| "fact_ok (Usage_Started_Fact op rs _) = (ident_ok op \<and> ident_ok rs)"
| "fact_ok (Usage_Settled_Fact op rs amounts q _) = (ident_ok op \<and> ident_ok rs \<and> amounts_ok amounts \<and>
     settlement_shape amounts q)"
| "fact_ok (Usage_Released_Fact op rs _) = (ident_ok op \<and> ident_ok rs)"
| "fact_ok (Account_Closed_Fact op a _) = (ident_ok op \<and> ident_ok a)"
| "fact_ok (Child_Token_Decided f) = (ident_ok (ctd_operation_id f) \<and> ident_ok (ctd_request_id f) \<and>
     ident_ok (ctd_parent_agent_id f) \<and> ident_ok (ctd_child_agent_id f) \<and>
     0 \<le> ctd_tokens f \<and> ctd_tokens f \<le> MAX_BUDGET_VALUE \<and> decision_reason_ok (JStr (ctd_reason f)))"

lemma read_token_decision_Inr:
  "read_token_decision d n = Inr f \<longleftrightarrow>
     (\<exists>t. f = Child_Token_Decided t \<and> fact_ok f \<and> ctd_seq t = n \<and>
        jget d ''operation_id'' = JStr (ctd_operation_id t) \<and> jget d ''request_id'' = JStr (ctd_request_id t) \<and>
        jget d ''parent_agent_id'' = JStr (ctd_parent_agent_id t) \<and>
        jget d ''child_agent_id'' = JStr (ctd_child_agent_id t) \<and>
        jget d ''tokens'' = JInt (ctd_tokens t) \<and> jget d ''reason'' = JStr (ctd_reason t))"
    (is "?L \<longleftrightarrow> ?R")
proof
  assume L: ?L
  then obtain p where p: "child_token_decision_data (jget d ''operation_id'') (jget d ''request_id'')
              (jget d ''parent_agent_id'') (jget d ''child_agent_id'')
              (jget d ''tokens'') (jget d ''reason'') = Inr p"
    by (auto simp: read_token_decision_def result_simps)
  then have "valid_amount (jget d ''tokens'')" "decision_reason_ok (jget d ''reason'')"
    by (auto simp: child_token_decision_data_def split: if_splits)
  then obtain n' r where "jget d ''tokens'' = JInt n'" "jget d ''reason'' = JStr r"
    using valid_amount_of by (cases "jget d ''reason''") (auto simp: decision_reason_ok_def)
  with L show ?R
    by (auto simp: read_token_decision_def child_token_decision_data_def result_simps split: if_splits)
next
  assume ?R
  then show ?L
    by (auto simp: read_token_decision_def child_token_decision_data_def result_simps)
qed

lemma read_mode_Inr: "read_mode v n = Inr m \<longleftrightarrow> v = JStr (charge_mode_value m)"
  by (cases m) (auto simp: read_mode_def charge_mode_value_def budget_error_def)

lemma read_child_reserved_Inr:
  "read_child_reserved d n = Inr f \<longleftrightarrow>
     (\<exists>c. f = Child_Reserved c \<and> crf_seq c = n \<and> ident_ok (crf_operation_id c) \<and>
        ident_ok (crf_reservation_id c) \<and> ident_ok (crf_parent_agent_id c) \<and>
        ident_ok (crf_child_agent_id c) \<and> ident_ok (crf_creation_request_id c) \<and>
        0 \<le> crf_retained_tokens c \<and> crf_retained_tokens c \<le> MAX_BUDGET_VALUE \<and>
        jget d ''operation_id'' = JStr (crf_operation_id c) \<and>
        jget d ''reservation_id'' = JStr (crf_reservation_id c) \<and>
        jget d ''parent_agent_id'' = JStr (crf_parent_agent_id c) \<and>
        jget d ''child_agent_id'' = JStr (crf_child_agent_id c) \<and>
        jget d ''creation_request_id'' = JStr (crf_creation_request_id c) \<and>
        read_limits (jget d ''child_limits'') n = Inr (crf_child_limits c) \<and>
        jget d ''retained_tokens'' = JInt (crf_retained_tokens c) \<and>
        jget d ''initial_tokens'' = crf_initial_tokens c)" (is "?L \<longleftrightarrow> ?R")
proof
  assume L: ?L
  then obtain k where "jget d ''retained_tokens'' = JInt k"
    by (cases "jget d ''retained_tokens''") (auto simp: read_child_reserved_def budget_error_def)
  with L show ?R
    by (auto simp: read_child_reserved_def result_simps split: if_splits)
next
  assume ?R
  then obtain c where "f = Child_Reserved c" "crf_seq c = n" by blast
  with \<open>?R\<close> show ?L by (cases c) (auto simp: read_child_reserved_def result_simps)
qed

text \<open>Each reader builds facts of its own event type that satisfy \<open>fact_ok\<close>.\<close>

definition reader_ok :: "pystr \<times> string list \<times> (payload \<Rightarrow> int \<Rightarrow> budget_fact result) \<Rightarrow> bool" where
  "reader_ok r \<longleftrightarrow> (\<forall>d n f. snd (snd r) d n = Inr f \<longrightarrow>
     fact_ok f \<and> fact_seq f = n \<and> lit (budget_event_type f) = fst r)"

lemma reader_ok_terminal:
  "(\<And>op rs n. fact_ok (c op rs n) = (ident_ok op \<and> ident_ok rs)) \<Longrightarrow> (\<And>op rs n. fact_seq (c op rs n) = n) \<Longrightarrow>
   (\<And>op rs n. budget_event_type (c op rs n) = k) \<Longrightarrow> reader_ok (lit k, keys, read_terminal c)"
  by (auto simp: reader_ok_def read_terminal_def result_simps)

lemma reader_ok_decision: "reader_ok (lit BUDGET_CHILD_TOKEN_DECIDED, keys, read_token_decision)"
  by (auto simp: reader_ok_def read_token_decision_Inr)

lemma reader_ok_root: "reader_ok (lit BUDGET_ROOT_GRANTED, keys, read_root_granted)"
  by (auto simp: reader_ok_def read_root_granted_def result_simps dest: read_limits_ok)

lemma reader_ok_reserved: "reader_ok (lit BUDGET_CHILD_RESERVED, keys, read_child_reserved)"
  by (auto simp: reader_ok_def read_child_reserved_Inr dest: read_limits_ok)

lemma reader_ok_charged: "reader_ok (lit BUDGET_USAGE_CHARGED, keys, read_usage_charged)"
  by (auto simp: reader_ok_def read_usage_charged_def result_simps split: if_splits dest!: read_amounts_ok)

lemma reader_ok_usage: "reader_ok (lit BUDGET_USAGE_RESERVED, keys, read_usage_reserved)"
  by (auto simp: reader_ok_def read_usage_reserved_def result_simps split: if_splits dest!: read_amounts_ok)

lemma reader_ok_settled: "reader_ok (lit BUDGET_USAGE_SETTLED, keys, read_usage_settled)"
  by (auto simp: reader_ok_def read_usage_settled_def result_simps split: if_splits dest!: read_amounts_ok)

lemma reader_ok_closed: "reader_ok (lit BUDGET_ACCOUNT_CLOSED, keys, read_account_closed)"
  by (auto simp: reader_ok_def read_account_closed_def result_simps)

lemma budget_readers_ok: "list_all reader_ok budget_readers"
  by (simp add: budget_readers_def reader_ok_decision reader_ok_root reader_ok_reserved reader_ok_charged
      reader_ok_usage reader_ok_settled reader_ok_closed reader_ok_terminal)

lemma parse_budget_fact_ok:
  assumes "parse_budget_fact ev = Inr f"
  shows "fact_ok f \<and> fact_seq f = ev_seq ev \<and> ev_type ev = lit (budget_event_type f)"
proof -
  obtain d keys reader where r: "map_of budget_readers (ev_type ev) = Some (keys, reader)"
    "reader d (ev_seq ev) = Inr f" using assms by (auto simp: parse_budget_fact_Inr)
  then have "(ev_type ev, keys, reader) \<in> set budget_readers" by (auto dest: map_of_SomeD)
  then have "reader_ok (ev_type ev, keys, reader)" using budget_readers_ok by (simp add: list_all_iff)
  with r show ?thesis by (simp add: reader_ok_def)
qed

text \<open>Each reader reads what the writer of its facts wrote.\<close>

lemma readers_of_type [simp]:
  "map_of budget_readers (lit BUDGET_CHILD_TOKEN_DECIDED) = Some (DECISION_KEYS, read_token_decision)"
  "map_of budget_readers (lit BUDGET_ROOT_GRANTED) = Some (ROOT_KEYS, read_root_granted)"
  "map_of budget_readers (lit BUDGET_CHILD_RESERVED) = Some (RESERVE_KEYS, read_child_reserved)"
  "map_of budget_readers (lit BUDGET_RESERVATION_COMMITTED) = Some (TERMINAL_KEYS, read_terminal Reservation_Committed_Fact)"
  "map_of budget_readers (lit BUDGET_RESERVATION_RELEASED) = Some (TERMINAL_KEYS, read_terminal Reservation_Released_Fact)"
  "map_of budget_readers (lit BUDGET_USAGE_CHARGED) = Some (CHARGE_KEYS, read_usage_charged)"
  "map_of budget_readers (lit BUDGET_USAGE_RESERVED) = Some (USAGE_RESERVE_KEYS, read_usage_reserved)"
  "map_of budget_readers (lit BUDGET_USAGE_STARTED) = Some (TERMINAL_KEYS, read_terminal Usage_Started_Fact)"
  "map_of budget_readers (lit BUDGET_USAGE_SETTLED) = Some (USAGE_SETTLE_KEYS, read_usage_settled)"
  "map_of budget_readers (lit BUDGET_USAGE_RELEASED) = Some (TERMINAL_KEYS, read_terminal Usage_Released_Fact)"
  "map_of budget_readers (lit BUDGET_ACCOUNT_CLOSED) = Some (CLOSE_KEYS, read_account_closed)"
  by (simp_all add: budget_readers_def)

definition reads_back :: "budget_fact \<Rightarrow> bool" where
  "reads_back f \<longleftrightarrow> (\<forall>d. budget_fact_data f = Inr d \<longrightarrow>
     (\<exists>keys reader. map_of budget_readers (lit (budget_event_type f)) = Some (keys, reader) \<and>
        keys_are d keys \<and> reader d (fact_seq f) = Inr f))"

lemma reads_back_terminal:
  assumes "map_of budget_readers (lit (budget_event_type (c op rs n))) = Some (TERMINAL_KEYS, read_terminal c)"
    and "budget_fact_data (c op rs n) = reservation_terminal_data op rs" and "fact_seq (c op rs n) = n"
  shows "reads_back (c op rs n)"
  using assms
  by (auto simp: reads_back_def reservation_terminal_data_def read_terminal_def result_simps keys_are_def
      TERMINAL_KEYS_def)

lemma reads_back_root: "reads_back (Root_Granted op a l n)"
  by (auto simp: reads_back_def root_granted_data_def read_root_granted_def result_simps keys_are_def
      ROOT_KEYS_def read_limits_of_data)

lemma reads_back_reserved: "reads_back (Child_Reserved c)"
  by (auto simp: reads_back_def child_reserved_data_def read_child_reserved_Inr result_simps keys_are_def
      RESERVE_KEYS_def read_limits_of_data)

lemma reads_back_charged: "reads_back (Usage_Charged op a amounts mode q n)"
proof -
  have "0 < ba_tokens amounts \<longleftrightarrow> q \<noteq> None" if "usage_charged_data op a amounts mode q = Inr d" for d
    using that amounts_nonneg[of amounts] by (auto simp: usage_charged_data_def result_simps split: if_splits)
  then show ?thesis
    by (cases q; auto simp: reads_back_def usage_charged_data_def read_usage_charged_def result_simps keys_are_def
        CHARGE_KEYS_def read_amounts_of_data split: if_splits; blast?)
qed

lemma reads_back_usage: "reads_back (Usage_Reserved op rs a amounts n)"
  by (auto simp: reads_back_def usage_reserved_data_def read_usage_reserved_def result_simps keys_are_def
      USAGE_RESERVE_KEYS_def read_amounts_of_data split: if_splits)

lemma reads_back_settled: "reads_back (Usage_Settled_Fact op rs amounts q n)"
  by (auto simp: reads_back_def usage_settled_data_def read_usage_settled_def result_simps keys_are_def
      USAGE_SETTLE_KEYS_def read_amounts_of_data split: if_splits)

lemma reads_back_closed: "reads_back (Account_Closed_Fact op a n)"
  by (auto simp: reads_back_def account_closed_data_def read_account_closed_def result_simps keys_are_def
      CLOSE_KEYS_def)

lemma reads_back_decision: "reads_back (Child_Token_Decided t)"
  by (auto simp: reads_back_def child_token_decision_data_def read_token_decision_Inr result_simps keys_are_def
      DECISION_KEYS_def split: if_splits)

lemma every_fact_reads_back: "reads_back f"
proof (cases f)
  case (Usage_Released_Fact op rs n)
  then show ?thesis by (simp add: reads_back_terminal usage_released_data_def)
qed (simp_all add: reads_back_terminal reads_back_root reads_back_reserved reads_back_charged
    reads_back_usage reads_back_settled reads_back_closed reads_back_decision)

lemma written_fact_parses:
  assumes "budget_fact_data f = Inr d" "ev_stream_id ev = BUDGET_LEDGER_STREAM"
    and "ev_schema_version ev = BUDGET_SCHEMA_VERSION" "ev_type ev = lit (budget_event_type f)"
    and "ev_data ev = JDict d" "fact_seq f = ev_seq ev"
  shows "parse_budget_fact ev = Inr f"
  using every_fact_reads_back[of f] assms by (simp add: reads_back_def parse_budget_fact_Inr)

section \<open>Properties\<close>

text \<open>
  C8: the ledger's vocabulary is closed under writing and reading. For each of the eleven facts,
  the payload its writer admits, carried under its event type on the ledger stream, parses to
  exactly that fact, and is recognised as the fact a failed append attempted.
\<close>

theorem budget_fact_roundtrip:
  assumes "budget_fact_data f = Inr d" "ev_stream_id ev = BUDGET_LEDGER_STREAM"
    and "ev_schema_version ev = BUDGET_SCHEMA_VERSION" "ev_type ev = lit (budget_event_type f)"
    and "ev_data ev = JDict d" "fact_seq f = ev_seq ev"
  shows "parse_budget_fact ev = Inr f \<and> is_budget_fact ev (lit (budget_event_type f)) d"
  using written_fact_parses[OF assms] assms by (simp add: is_budget_fact_def)

text \<open>
  C9: every fact that replay accepts is well formed: its identifiers pass the identifier rule,
  its limits and amounts are within the bound of the ledger and not negative, a charge is not
  empty and names a usage quality exactly when it has tokens, a usage reservation holds exactly
  one dimension, and a settlement stays on one dimension.
\<close>

theorem parse_budget_fact_sound:
  assumes "parse_budget_fact ev = Inr f"
  shows "fact_ok f \<and> fact_seq f = ev_seq ev \<and> ev_type ev = lit (budget_event_type f)"
  using assms by (rule parse_budget_fact_ok)

definition budget_event :: "budget_fact \<Rightarrow> event_envelope" where
  "budget_event f = materialize (fact_seq f) \<lparr>dt_micros = 0, dt_utcoffset = Some 0\<rparr>
     BUDGET_LEDGER_STREAM (fact_seq f)
     (pending (budget_event_type f) (projr (budget_fact_data f)) BUDGET_SCHEMA_VERSION)"

definition sample_limits :: budget_limits where
  "sample_limits = \<lparr>bl_max_tokens = Some 1000, bl_max_steps = Some 10, bl_max_tool_calls = None,
     bl_max_wall_milliseconds = Some 60000, bl_max_children = Some 2, bl_max_depth = Some 1,
     bl_max_processes = None\<rparr>"

definition sample_charge_fact :: budget_fact where
  "sample_charge_fact = Usage_Charged (lit ''op-1'') (lit ''root'')
     \<lparr>ba_tokens = 5, ba_steps = 1, ba_tool_calls = 0, ba_wall_milliseconds = 0\<rparr> ADMISSION (Some Quality_Exact) 2"

lemma sample_charge_event:
  "budget_fact_data sample_charge_fact = Inr (projr (budget_fact_data sample_charge_fact))"
proof -
  have "is_ok (budget_fact_data sample_charge_fact)" by code_simp
  then show ?thesis by (auto simp: is_ok_iff)
qed

lemma sample_charge_parses: "parse_budget_fact (budget_event sample_charge_fact) = Inr sample_charge_fact"
  by (rule written_fact_parses[OF sample_charge_event]) (simp_all add: budget_event_def)

theorem budget_fact_roundtrip_witness:
  "parse_budget_fact (budget_event sample_charge_fact) = Inr sample_charge_fact"
  by (rule budget_fact_roundtrip[OF sample_charge_event, THEN conjunct1]) (simp_all add: budget_event_def)

theorem parse_budget_fact_sound_witness: "fact_ok sample_charge_fact"
  using parse_budget_fact_sound[OF sample_charge_parses] by simp

end
