(* ===== verification/Budget_Projection.thy ===== *)
theory Budget_Projection imports Budget_Events Agent_Directory begin

text \<open>
  The budget ledger rebuilt from its facts (budgets/projection.py): the arithmetic of amounts,
  the capacity checks, one step per fact, the fold over the numbered events and the queries of
  the rebuilt view. The local dictionaries of \<open>BudgetLedger.rebuild\<close> are the fields of the
  state; the view keeps all of them but the two indexes of reserved identities.
\<close>

record ledger_operation =
  lop_event_type :: string
  lop_payload :: pystr
  lop_seq :: int

record reservation_debit =
  rd_amounts :: budget_amounts
  rd_children :: int

record ledger =
  lg_accounts :: "(pystr, budget_account) dict"
  lg_reservations :: "(pystr, budget_reservation) dict"
  lg_charges :: "(pystr, budget_charge) dict"
  lg_usage :: "(pystr, usage_reservation) dict"
  lg_operations :: "(pystr, ledger_operation) dict"
  lg_child_reservations :: "(pystr, pystr) dict"
  lg_request_reservations :: "(pystr, pystr) dict"
  lg_head_seq :: int
  lg_token_decisions :: "(pystr, child_token_decision) dict"

definition empty_ledger :: ledger where
  "empty_ledger = \<lparr>lg_accounts = [], lg_reservations = [], lg_charges = [], lg_usage = [],
     lg_operations = [], lg_child_reservations = [], lg_request_reservations = [],
     lg_head_seq = 0, lg_token_decisions = []\<rparr>"

section \<open>Amounts and checks\<close>

definition consumable_dimensions :: "(string \<times> (budget_limits \<Rightarrow> int option) \<times> (budget_amounts \<Rightarrow> int)) list" where
  "consumable_dimensions =
     [(''max_tokens'', bl_max_tokens, ba_tokens), (''max_steps'', bl_max_steps, ba_steps),
      (''max_tool_calls'', bl_max_tool_calls, ba_tool_calls),
      (''max_wall_milliseconds'', bl_max_wall_milliseconds, ba_wall_milliseconds)]"

definition add_amounts :: "budget_amounts \<Rightarrow> budget_amounts \<Rightarrow> budget_amounts" where
  "add_amounts left right =
     \<lparr>ba_tokens = ba_tokens left + ba_tokens right, ba_steps = ba_steps left + ba_steps right,
      ba_tool_calls = ba_tool_calls left + ba_tool_calls right,
      ba_wall_milliseconds = ba_wall_milliseconds left + ba_wall_milliseconds right\<rparr>"

definition subtract_amounts :: "budget_amounts \<Rightarrow> budget_amounts \<Rightarrow> budget_amounts result" where
  "subtract_amounts left right =
     (let values = \<lparr>ba_tokens = ba_tokens left - ba_tokens right, ba_steps = ba_steps left - ba_steps right,
            ba_tool_calls = ba_tool_calls left - ba_tool_calls right,
            ba_wall_milliseconds = ba_wall_milliseconds left - ba_wall_milliseconds right\<rparr>
      in if list_ex (\<lambda>value. value < 0) (amount_values values) then Inl PyAssertionError else Inr values)"

definition usage_settlement_matches ::
    "usage_reservation \<Rightarrow> budget_amounts \<Rightarrow> usage_quality option \<Rightarrow> bool" where
  "usage_settlement_matches reservation amounts usage_quality =
     (if ba_tokens (ur_amounts reservation) \<noteq> 0
      then ba_tokens amounts \<le> ba_tokens (ur_amounts reservation) \<and> ba_steps amounts = 0 \<and>
           ba_tool_calls amounts = 0 \<and> ba_wall_milliseconds amounts = 0 \<and> usage_quality \<noteq> None
      else ba_wall_milliseconds amounts \<le> ba_wall_milliseconds (ur_amounts reservation) \<and>
           ba_tokens amounts = 0 \<and> ba_steps amounts = 0 \<and> ba_tool_calls amounts = 0 \<and> usage_quality = None)"

definition or_zero :: "int option \<Rightarrow> int" where
  "or_zero x = (case x of None \<Rightarrow> 0 | Some n \<Rightarrow> n)"

definition exceeds :: "int option \<Rightarrow> int option \<Rightarrow> bool" where
  \<comment> \<open>the parent's value bounds the child's, and the child's is missing or larger\<close>
  "exceeds parent child =
     (case parent of None \<Rightarrow> False
      | Some p \<Rightarrow> (case child of None \<Rightarrow> True | Some c \<Rightarrow> p < c))"

definition monotonic_fields :: "(budget_limits \<Rightarrow> int option) list" where
  "monotonic_fields = [bl_max_tokens, bl_max_steps, bl_max_tool_calls, bl_max_wall_milliseconds,
     bl_max_children, bl_max_processes]"

definition child_debit :: "budget_limits \<Rightarrow> budget_limits \<Rightarrow> int \<Rightarrow> reservation_debit result" where
  "child_debit parent child seq =
     rbind (raise_if (list_ex (\<lambda>field. exceeds (field parent) (field child)) monotonic_fields)
              (BudgetProtocolError ''budget-child-limits-invalid'' seq)) (\<lambda>_.
     rbind (case bl_max_depth parent of
              None \<Rightarrow> Inr ()
            | Some d \<Rightarrow>
                (if d = 0 then budget_error ''budget-depth-exhausted'' seq
                 else case bl_max_depth child of
                   None \<Rightarrow> budget_error ''budget-child-limits-invalid'' seq
                 | Some c \<Rightarrow> raise_if (d - 1 < c) (BudgetProtocolError ''budget-child-limits-invalid'' seq))) (\<lambda>_.
       Inr \<lparr>rd_amounts = \<lparr>ba_tokens = or_zero (bl_max_tokens child), ba_steps = or_zero (bl_max_steps child),
              ba_tool_calls = or_zero (bl_max_tool_calls child),
              ba_wall_milliseconds = or_zero (bl_max_wall_milliseconds child)\<rparr>,
            rd_children = 1\<rparr>))"

definition account_used :: "budget_account \<Rightarrow> budget_amounts" where
  "account_used account =
     add_amounts (add_amounts (bac_charged account) (bac_delegated account)) (bac_reserved account)"

definition over_limit :: "budget_account \<Rightarrow> budget_amounts \<Rightarrow> string \<times> (budget_limits \<Rightarrow> int option) \<times> (budget_amounts \<Rightarrow> int) \<Rightarrow> bool" where
  "over_limit account debit dim =
     (case dim of (_, limit_field, amount_field) \<Rightarrow>
        (case limit_field (bac_limits account) of
           None \<Rightarrow> False
         | Some limit \<Rightarrow> limit < amount_field (account_used account) + amount_field debit))"

definition over_children :: "budget_account \<Rightarrow> int \<Rightarrow> bool" where
  "over_children account children =
     (case bl_max_children (bac_limits account) of
        None \<Rightarrow> False | Some limit \<Rightarrow> limit < bac_reserved_children account + children)"

definition ensure_capacity :: "budget_account \<Rightarrow> budget_amounts \<Rightarrow> int \<Rightarrow> int \<Rightarrow> unit result" where
  "ensure_capacity account debit seq children =
     rbind (raise_if (list_ex (over_limit account debit) consumable_dimensions)
              (BudgetProtocolError ''budget-capacity-exceeded'' seq)) (\<lambda>_.
       raise_if (over_children account children) (BudgetProtocolError ''budget-capacity-exceeded'' seq))"

definition ensure_retained_tokens :: "budget_account \<Rightarrow> budget_amounts \<Rightarrow> int \<Rightarrow> int \<Rightarrow> unit result" where
  "ensure_retained_tokens account debit retained_tokens seq =
     (case bl_max_tokens (bac_limits account) of
        None \<Rightarrow> Inr ()
      | Some limit \<Rightarrow>
          (let used = ba_tokens (bac_charged account) + ba_tokens (bac_delegated account) + ba_tokens (bac_reserved account)
           in raise_if (limit < used + ba_tokens debit + retained_tokens)
                (BudgetProtocolError ''budget-retained-tokens-exhausted'' seq)))"

definition inactive_charge :: "budget_limits \<Rightarrow> budget_amounts \<Rightarrow> bool" where
  "inactive_charge limits amounts =
     list_ex (\<lambda>(_, limit_field, amount_field). amount_field amounts \<noteq> 0 \<and> limit_field limits = None)
       consumable_dimensions"

definition directory_child ::
    "agent_directory \<Rightarrow> pystr \<Rightarrow> pystr \<Rightarrow> pystr \<Rightarrow> int \<Rightarrow> agent_record option result" where
  "directory_child directory parent_agent_id child_agent_id creation_request_id seq =
     (case (directory_get directory child_agent_id, directory_for_request directory creation_request_id) of
        (None, None) \<Rightarrow> Inr None
      | (Some by_child, Some by_request) \<Rightarrow>
          (if rec_agent_id by_child \<noteq> rec_agent_id by_request \<or> rec_agent_id by_child \<noteq> child_agent_id \<or>
              rec_request_id by_child \<noteq> creation_request_id \<or>
              rec_owner_agent_id by_child \<noteq> Some parent_agent_id
           then budget_error ''budget-reservation-directory-conflict'' seq
           else Inr (Some by_child))
      | _ \<Rightarrow> budget_error ''budget-reservation-directory-conflict'' seq)"

definition account_or :: "(pystr, budget_account) dict \<Rightarrow> pystr \<Rightarrow> exn \<Rightarrow> budget_account result" where
  "account_or accounts agent_id e = (case map_of accounts agent_id of None \<Rightarrow> Inl e | Some a \<Rightarrow> Inr a)"

definition open_account_or :: "(pystr, budget_account) dict \<Rightarrow> pystr \<Rightarrow> int \<Rightarrow> budget_account result" where
  "open_account_or accounts agent_id seq =
     rbind (account_or accounts agent_id (BudgetProtocolError ''budget-account-unknown'' seq)) (\<lambda>account.
       if bac_status account = Account_Closed then budget_error ''budget-account-closed'' seq else Inr account)"

definition token_capacity ::
    "(pystr, budget_account) dict \<Rightarrow> (pystr, budget_reservation) dict \<Rightarrow> pystr \<Rightarrow> pystr \<Rightarrow> int \<Rightarrow> int
       \<Rightarrow> (budget_account \<times> budget_account) result" where
  "token_capacity accounts reservations parent_id child_id tokens seq =
     (case (map_of accounts parent_id, map_of accounts child_id) of
        (Some parent, Some child) \<Rightarrow>
          (if bac_parent_agent_id child \<noteq> Some parent_id then budget_error ''budget-token-owner-invalid'' seq
           else if bac_status parent = Account_Closed \<or> bac_status child = Account_Closed
           then budget_error ''budget-account-closed'' seq
           else
             (case List.find (\<lambda>r. brs_child_agent_id r = child_id) (dict_values reservations) of
                None \<Rightarrow> budget_error ''budget-token-envelope-invalid'' seq
              | Some reservation \<Rightarrow>
                  (if brs_status reservation \<noteq> Reservation_Committed
                   then budget_error ''budget-token-envelope-invalid'' seq
                   else
                     (case (bl_max_tokens (bac_limits child), bl_max_tokens (brs_child_limits reservation)) of
                        (Some current, Some ceiling) \<Rightarrow>
                          (if ceiling < current + tokens then budget_error ''budget-token-ceiling-exceeded'' seq
                           else if tokens = 0 then Inr (parent, child)
                           else
                             (let debit = no_amounts\<lparr>ba_tokens := tokens\<rparr> in
                              rbind (ensure_capacity parent debit seq 0) (\<lambda>_.
                              rbind (ensure_retained_tokens parent debit (brs_retained_tokens reservation) seq) (\<lambda>_.
                                Inr (parent, child)))))
                      | _ \<Rightarrow> budget_error ''budget-token-envelope-invalid'' seq))))
      | _ \<Rightarrow> budget_error ''budget-token-owner-invalid'' seq)"

section \<open>One step per fact\<close>

definition new_account :: "pystr \<Rightarrow> pystr option \<Rightarrow> budget_limits \<Rightarrow> int \<Rightarrow> budget_account" where
  "new_account agent_id parent limits created_seq =
     \<lparr>bac_agent_id = agent_id, bac_parent_agent_id = parent, bac_limits = limits,
      bac_status = Account_Open, bac_created_seq = created_seq, bac_charged = no_amounts,
      bac_delegated = no_amounts, bac_reserved = no_amounts, bac_reserved_children = 0,
      bac_closed_seq = None\<rparr>"

definition put_account :: "pystr \<Rightarrow> budget_account \<Rightarrow> ledger \<Rightarrow> ledger" where
  "put_account agent_id account s = s\<lparr>lg_accounts := dict_set agent_id account (lg_accounts s)\<rparr>"

definition put_reservation :: "pystr \<Rightarrow> budget_reservation \<Rightarrow> ledger \<Rightarrow> ledger" where
  "put_reservation reservation_id r s = s\<lparr>lg_reservations := dict_set reservation_id r (lg_reservations s)\<rparr>"

definition put_usage :: "pystr \<Rightarrow> usage_reservation \<Rightarrow> ledger \<Rightarrow> ledger" where
  "put_usage reservation_id u s = s\<lparr>lg_usage := dict_set reservation_id u (lg_usage s)\<rparr>"

definition put_charge :: "pystr \<Rightarrow> budget_charge \<Rightarrow> ledger \<Rightarrow> ledger" where
  "put_charge operation_id c s = s\<lparr>lg_charges := dict_set operation_id c (lg_charges s)\<rparr>"

definition put_decision :: "pystr \<Rightarrow> child_token_decision \<Rightarrow> ledger \<Rightarrow> ledger" where
  "put_decision request_id t s = s\<lparr>lg_token_decisions := dict_set request_id t (lg_token_decisions s)\<rparr>"

definition apply_root_granted ::
    "agent_directory \<Rightarrow> pystr \<Rightarrow> budget_limits \<Rightarrow> int \<Rightarrow> ledger \<Rightarrow> ledger result" where
  "apply_root_granted directory agent_id limits seq s =
     (case directory_get directory agent_id of
        None \<Rightarrow> budget_error ''budget-root-agent-invalid'' seq
      | Some record \<Rightarrow>
          (if rec_owner_agent_id record \<noteq> None then budget_error ''budget-root-agent-invalid'' seq
           else if dict_has agent_id (lg_accounts s) then budget_error ''budget-root-duplicate'' seq
           else Inr (put_account agent_id (new_account agent_id None limits seq) s)))"

definition reservation_conflict :: "child_reserved_fact \<Rightarrow> ledger \<Rightarrow> string option" where
  "reservation_conflict f s =
     (if dict_has (crf_reservation_id f) (lg_reservations s) then Some ''budget-reservation-duplicate''
      else if dict_has (crf_reservation_id f) (lg_usage s) then Some ''budget-reservation-duplicate''
      else if crf_child_agent_id f = crf_parent_agent_id f then Some ''budget-reservation-directory-conflict''
      else if dict_has (crf_child_agent_id f) (lg_accounts s) then Some ''budget-child-account-duplicate''
      else if dict_has (crf_child_agent_id f) (lg_child_reservations s)
      then Some ''budget-reservation-child-conflict''
      else if dict_has (crf_creation_request_id f) (lg_request_reservations s)
      then Some ''budget-reservation-request-conflict''
      else None)"

definition new_reservation :: "child_reserved_fact \<Rightarrow> agent_record option \<Rightarrow> budget_reservation" where
  "new_reservation f durable_child =
     \<lparr>brs_reservation_id = crf_reservation_id f, brs_parent_agent_id = crf_parent_agent_id f,
      brs_child_agent_id = crf_child_agent_id f, brs_creation_request_id = crf_creation_request_id f,
      brs_child_limits = crf_child_limits f, brs_retained_tokens = crf_retained_tokens f,
      brs_initial_tokens = crf_initial_tokens f,
      brs_status = (if durable_child \<noteq> None then Reservation_Committed else Reservation_Pending),
      brs_reserved_seq = crf_seq f, brs_terminal_seq = None,
      brs_identity_seq = map_option rec_created_seq durable_child\<rparr>"

definition reserve_debit :: "budget_account \<Rightarrow> reservation_debit \<Rightarrow> budget_account" where
  "reserve_debit parent debit =
     parent\<lparr>bac_delegated := add_amounts (bac_delegated parent) (rd_amounts debit),
            bac_reserved_children := bac_reserved_children parent + rd_children debit\<rparr>"

definition apply_child_reserved :: "agent_directory \<Rightarrow> child_reserved_fact \<Rightarrow> ledger \<Rightarrow> ledger result" where
  "apply_child_reserved directory f s =
     (let seq = crf_seq f in
      rbind (open_account_or (lg_accounts s) (crf_parent_agent_id f) seq) (\<lambda>parent.
      case reservation_conflict f s of
        Some code \<Rightarrow> budget_error code seq
      | None \<Rightarrow>
          rbind (child_debit (bac_limits parent) (crf_child_limits f) seq) (\<lambda>_.
          rbind (initial_token_limits (crf_child_limits f) (crf_initial_tokens f)) (\<lambda>granted.
          rbind (child_debit (bac_limits parent) granted seq) (\<lambda>debit.
          rbind (ensure_capacity parent (rd_amounts debit) seq (rd_children debit)) (\<lambda>_.
          rbind (ensure_retained_tokens parent (rd_amounts debit) (crf_retained_tokens f) seq) (\<lambda>_.
          rbind (directory_child directory (crf_parent_agent_id f) (crf_child_agent_id f)
                   (crf_creation_request_id f) seq) (\<lambda>durable_child.
            (let s1 = put_reservation (crf_reservation_id f) (new_reservation f durable_child) s;
                 s2 = s1\<lparr>lg_child_reservations := dict_set (crf_child_agent_id f) (crf_reservation_id f) (lg_child_reservations s1),
                         lg_request_reservations := dict_set (crf_creation_request_id f) (crf_reservation_id f) (lg_request_reservations s1)\<rparr>;
                 s3 = put_account (crf_parent_agent_id f) (reserve_debit parent debit) s2
             in Inr (if durable_child \<noteq> None
                     then put_account (crf_child_agent_id f)
                            (new_account (crf_child_agent_id f) (Some (crf_parent_agent_id f)) granted seq) s3
                     else s3)))))))))) "

definition apply_reservation_committed ::
    "agent_directory \<Rightarrow> pystr \<Rightarrow> int \<Rightarrow> ledger \<Rightarrow> ledger result" where
  "apply_reservation_committed directory reservation_id seq s =
     (case map_of (lg_reservations s) reservation_id of
        None \<Rightarrow> budget_error ''budget-reservation-unknown'' seq
      | Some r \<Rightarrow>
          (if brs_status r = Reservation_Released \<or> brs_terminal_seq r \<noteq> None
           then budget_error ''budget-reservation-terminal'' seq
           else
             rbind (directory_child directory (brs_parent_agent_id r) (brs_child_agent_id r)
                      (brs_creation_request_id r) seq) (\<lambda>durable_child.
             case durable_child of
               None \<Rightarrow> budget_error ''budget-commit-without-agent'' seq
             | Some child \<Rightarrow>
                 (let s1 = put_reservation reservation_id
                             (r\<lparr>brs_status := Reservation_Committed, brs_terminal_seq := Some seq,
                                brs_identity_seq := Some (rec_created_seq child)\<rparr>) s
                  in if dict_has (brs_child_agent_id r) (lg_accounts s1) then Inr s1
                     else
                       rbind (initial_token_limits (brs_child_limits r) (brs_initial_tokens r)) (\<lambda>granted.
                         Inr (put_account (brs_child_agent_id r)
                                (new_account (brs_child_agent_id r) (Some (brs_parent_agent_id r)) granted
                                   (brs_reserved_seq r)) s1))))))"

definition apply_reservation_released ::
    "agent_directory \<Rightarrow> pystr \<Rightarrow> int \<Rightarrow> ledger \<Rightarrow> ledger result" where
  "apply_reservation_released directory reservation_id seq s =
     (case map_of (lg_reservations s) reservation_id of
        None \<Rightarrow> budget_error ''budget-reservation-unknown'' seq
      | Some r \<Rightarrow>
          (if brs_status r \<noteq> Reservation_Pending \<or> brs_terminal_seq r \<noteq> None
           then (if brs_status r = Reservation_Committed then budget_error ''budget-release-after-agent'' seq
                 else budget_error ''budget-reservation-terminal'' seq)
           else
             rbind (directory_child directory (brs_parent_agent_id r) (brs_child_agent_id r)
                      (brs_creation_request_id r) seq) (\<lambda>durable_child.
             if durable_child \<noteq> None then budget_error ''budget-release-after-agent'' seq
             else
               rbind (account_or (lg_accounts s) (brs_parent_agent_id r) PyKeyError) (\<lambda>parent.
               rbind (initial_token_limits (brs_child_limits r) (brs_initial_tokens r)) (\<lambda>granted.
               rbind (child_debit (bac_limits parent) granted (brs_reserved_seq r)) (\<lambda>debit.
               rbind (subtract_amounts (bac_delegated parent) (rd_amounts debit)) (\<lambda>delegated.
                 Inr (put_reservation reservation_id
                        (r\<lparr>brs_status := Reservation_Released, brs_terminal_seq := Some seq\<rparr>)
                        (put_account (bac_agent_id parent)
                           (parent\<lparr>bac_delegated := delegated,
                                   bac_reserved_children := bac_reserved_children parent - rd_children debit\<rparr>) s))))))))) "

definition apply_token_decision :: "child_token_decision \<Rightarrow> ledger \<Rightarrow> ledger result" where
  "apply_token_decision f s =
     (if dict_has (ctd_request_id f) (lg_token_decisions s)
      then budget_error ''budget-request-already-decided'' (ctd_seq f)
      else
        rbind (token_capacity (lg_accounts s) (lg_reservations s) (ctd_parent_agent_id f)
                 (ctd_child_agent_id f) (ctd_tokens f) (ctd_seq f)) (\<lambda>(parent, child).
        case bl_max_tokens (bac_limits child) of
          None \<Rightarrow> Inl PyTypeError
        | Some current \<Rightarrow>
            (let s1 = put_account (bac_agent_id parent)
                        (parent\<lparr>bac_delegated := add_amounts (bac_delegated parent)
                                                   (no_amounts\<lparr>ba_tokens := ctd_tokens f\<rparr>)\<rparr>) s;
                 s2 = put_account (bac_agent_id child)
                        (child\<lparr>bac_limits := (bac_limits child)\<lparr>bl_max_tokens := Some (current + ctd_tokens f)\<rparr>\<rparr>) s1
             in Inr (put_decision (ctd_request_id f) f s2))))"

definition apply_usage_charged ::
    "pystr \<Rightarrow> pystr \<Rightarrow> budget_amounts \<Rightarrow> charge_mode \<Rightarrow> usage_quality option \<Rightarrow> int \<Rightarrow> ledger \<Rightarrow> ledger result" where
  "apply_usage_charged operation_id agent_id amounts mode quality seq s =
     rbind (open_account_or (lg_accounts s) agent_id seq) (\<lambda>account.
       if inactive_charge (bac_limits account) amounts then budget_error ''budget-charge-inactive'' seq
       else
         rbind (if mode = ADMISSION then ensure_capacity account amounts seq 0 else Inr ()) (\<lambda>_.
           Inr (put_charge operation_id
                  \<lparr>bch_operation_id = operation_id, bch_agent_id = agent_id, bch_amounts = amounts,
                   bch_mode = mode, bch_usage_quality = quality, bch_charged_seq = seq\<rparr>
                  (put_account agent_id (account\<lparr>bac_charged := add_amounts (bac_charged account) amounts\<rparr>) s))))"

definition new_usage :: "pystr \<Rightarrow> pystr \<Rightarrow> budget_amounts \<Rightarrow> int \<Rightarrow> usage_reservation" where
  "new_usage reservation_id agent_id amounts seq =
     \<lparr>ur_reservation_id = reservation_id, ur_agent_id = agent_id, ur_amounts = amounts,
      ur_status = Usage_Pending, ur_reserved_seq = seq, ur_started_seq = None,
      ur_terminal_seq = None, ur_settled_amounts = None, ur_usage_quality = None\<rparr>"

definition apply_usage_reserved ::
    "pystr \<Rightarrow> pystr \<Rightarrow> budget_amounts \<Rightarrow> int \<Rightarrow> ledger \<Rightarrow> ledger result" where
  "apply_usage_reserved reservation_id agent_id amounts seq s =
     rbind (open_account_or (lg_accounts s) agent_id seq) (\<lambda>account.
       if dict_has reservation_id (lg_reservations s) \<or> dict_has reservation_id (lg_usage s)
       then budget_error ''budget-reservation-duplicate'' seq
       else if inactive_charge (bac_limits account) amounts then budget_error ''budget-charge-inactive'' seq
       else
         rbind (ensure_capacity account amounts seq 0) (\<lambda>_.
           (let s1 = put_usage reservation_id (new_usage reservation_id agent_id amounts seq) s
            in Inr (put_account agent_id
                 (account\<lparr>bac_reserved := add_amounts (bac_reserved account) amounts\<rparr>) s1))))"

definition apply_usage_started :: "pystr \<Rightarrow> int \<Rightarrow> ledger \<Rightarrow> ledger result" where
  "apply_usage_started reservation_id seq s =
     (case map_of (lg_usage s) reservation_id of
        None \<Rightarrow> budget_error ''budget-usage-reservation-unknown'' seq
      | Some u \<Rightarrow>
          (if ur_status u \<noteq> Usage_Pending then budget_error ''budget-reservation-terminal'' seq
           else Inr (put_usage reservation_id (u\<lparr>ur_status := Usage_Started, ur_started_seq := Some seq\<rparr>) s)))"

text \<open>Settling and releasing a usage reservation: \<open>settled\<close> is what was settled, if anything.\<close>

definition end_usage ::
    "usage_reservation \<Rightarrow> (budget_amounts \<times> usage_quality option) option \<Rightarrow> int \<Rightarrow> usage_reservation" where
  "end_usage u settled seq =
     u\<lparr>ur_status := (if settled \<noteq> None then Usage_Settled else Usage_Released),
       ur_terminal_seq := Some seq, ur_settled_amounts := map_option fst settled,
       ur_usage_quality := (case settled of None \<Rightarrow> None | Some (_, q) \<Rightarrow> q)\<rparr>"

definition apply_usage_ended ::
    "pystr \<Rightarrow> (budget_amounts \<times> usage_quality option) option \<Rightarrow> int \<Rightarrow> ledger \<Rightarrow> ledger result" where
  "apply_usage_ended reservation_id settled seq s =
     (case map_of (lg_usage s) reservation_id of
        None \<Rightarrow> budget_error ''budget-usage-reservation-unknown'' seq
      | Some u \<Rightarrow>
          (if ur_status u \<noteq> (if settled \<noteq> None then Usage_Started else Usage_Pending)
           then budget_error ''budget-reservation-terminal'' seq
           else
             rbind (account_or (lg_accounts s) (ur_agent_id u) (BudgetProtocolError ''budget-account-unknown'' seq)) (\<lambda>account.
             rbind (case settled of
                      None \<Rightarrow> Inr ()
                    | Some (amounts, quality) \<Rightarrow>
                        raise_if (\<not> usage_settlement_matches u amounts quality)
                          (BudgetProtocolError ''budget-usage-settlement-invalid'' seq)) (\<lambda>_.
             rbind (subtract_amounts (bac_reserved account) (ur_amounts u)) (\<lambda>reserved.
               (let s1 = put_account (bac_agent_id account)
                           (account\<lparr>bac_reserved := reserved,
                                    bac_charged := (case settled of
                                                      None \<Rightarrow> bac_charged account
                                                    | Some (amounts, _) \<Rightarrow> add_amounts (bac_charged account) amounts)\<rparr>) s
                in Inr (put_usage reservation_id (end_usage u settled seq) s1)))))))"

definition apply_account_closed :: "pystr \<Rightarrow> int \<Rightarrow> ledger \<Rightarrow> ledger result" where
  "apply_account_closed agent_id seq s =
     rbind (account_or (lg_accounts s) agent_id (BudgetProtocolError ''budget-account-unknown'' seq)) (\<lambda>account.
       if bac_status account = Account_Closed then budget_error ''budget-close-duplicate'' seq
       else if list_ex (\<lambda>r. brs_parent_agent_id r = agent_id \<and> brs_status r = Reservation_Pending)
                 (dict_values (lg_reservations s))
       then budget_error ''budget-close-with-pending-reservation'' seq
       else if list_ex (\<lambda>u. ur_agent_id u = agent_id \<and> ur_status u \<in> {Usage_Pending, Usage_Started})
                 (dict_values (lg_usage s))
       then budget_error ''budget-close-with-pending-reservation'' seq
       else Inr (put_account agent_id (account\<lparr>bac_status := Account_Closed, bac_closed_seq := Some seq\<rparr>) s))"

section \<open>Rebuild\<close>

fun apply_fact :: "agent_directory \<Rightarrow> budget_fact \<Rightarrow> ledger \<Rightarrow> ledger result" where
  "apply_fact directory (Root_Granted _ a l n) s = apply_root_granted directory a l n s"
| "apply_fact directory (Child_Reserved f) s = apply_child_reserved directory f s"
| "apply_fact directory (Reservation_Committed_Fact _ rs n) s = apply_reservation_committed directory rs n s"
| "apply_fact directory (Reservation_Released_Fact _ rs n) s = apply_reservation_released directory rs n s"
| "apply_fact directory (Child_Token_Decided f) s = apply_token_decision f s"
| "apply_fact directory (Usage_Charged op a amounts mode q n) s = apply_usage_charged op a amounts mode q n s"
| "apply_fact directory (Usage_Reserved _ rs a amounts n) s = apply_usage_reserved rs a amounts n s"
| "apply_fact directory (Usage_Started_Fact _ rs n) s = apply_usage_started rs n s"
| "apply_fact directory (Usage_Settled_Fact _ rs amounts q n) s = apply_usage_ended rs (Some (amounts, q)) n s"
| "apply_fact directory (Usage_Released_Fact _ rs n) s = apply_usage_ended rs None n s"
| "apply_fact directory (Account_Closed_Fact _ a n) s = apply_account_closed a n s"

definition record_operation :: "budget_fact \<Rightarrow> json \<Rightarrow> ledger \<Rightarrow> ledger result" where
  "record_operation f data s =
     (if dict_has (fact_operation_id f) (lg_operations s)
      then budget_error ''budget-operation-duplicate'' (fact_seq f)
      else Inr (s\<lparr>lg_operations := dict_set (fact_operation_id f)
             \<lparr>lop_event_type = budget_event_type f, lop_payload = canonical_json data,
              lop_seq = fact_seq f\<rparr> (lg_operations s)\<rparr>))"

definition apply_budget_event :: "agent_directory \<Rightarrow> ledger \<Rightarrow> int \<times> event_envelope \<Rightarrow> ledger result" where
  "apply_budget_event directory s numbered_event =
     (case numbered_event of (expected_seq, event) \<Rightarrow>
        wrap_unless is_budget_protocol_error (BudgetProtocolError ''budget-payload-invalid'' expected_seq)
          (rbind (raise_if (ev_seq event \<noteq> expected_seq)
                    (BudgetProtocolError ''budget-sequence-invalid'' expected_seq)) (\<lambda>_.
           rbind (parse_budget_fact event) (\<lambda>fact.
           rbind (record_operation fact (ev_data event) s) (\<lambda>s1.
           rbind (apply_fact directory fact s1) (\<lambda>s2.
             Inr (s2\<lparr>lg_head_seq := fact_seq fact\<rparr>)))))))"

fun number_from :: "int \<Rightarrow> 'a list \<Rightarrow> (int \<times> 'a) list" where
  "number_from n [] = []"
| "number_from n (x # xs) = (n, x) # number_from (n + 1) xs"

definition rebuild_ledger :: "event_envelope list \<Rightarrow> agent_directory \<Rightarrow> ledger result" where
  "rebuild_ledger events directory =
     foldM (apply_budget_event directory) empty_ledger (number_from 1 events)"

definition validate_budget_ledger_events :: "event_envelope list \<Rightarrow> agent_directory \<Rightarrow> issue list" where
  "validate_budget_ledger_events events directory =
     (case rebuild_ledger events directory of
        Inl (BudgetProtocolError code seq) \<Rightarrow> [(code, seq)]
      | _ \<Rightarrow> [])"

section \<open>Queries\<close>

definition ledger_account :: "ledger \<Rightarrow> pystr \<Rightarrow> budget_account option" where
  "ledger_account s agent_id = map_of (lg_accounts s) agent_id"

definition ledger_token_decision :: "ledger \<Rightarrow> pystr \<Rightarrow> child_token_decision option" where
  "ledger_token_decision s request_id = map_of (lg_token_decisions s) request_id"

definition ledger_reservation :: "ledger \<Rightarrow> pystr \<Rightarrow> budget_reservation option" where
  "ledger_reservation s reservation_id = map_of (lg_reservations s) reservation_id"

definition ledger_charge :: "ledger \<Rightarrow> pystr \<Rightarrow> budget_charge option" where
  "ledger_charge s operation_id = map_of (lg_charges s) operation_id"

definition ledger_usage_reservation :: "ledger \<Rightarrow> pystr \<Rightarrow> usage_reservation option" where
  "ledger_usage_reservation s reservation_id = map_of (lg_usage s) reservation_id"

definition operation_exists :: "ledger \<Rightarrow> pystr \<Rightarrow> bool" where
  "operation_exists s operation_id = dict_has operation_id (lg_operations s)"

definition reservation_identity_available :: "ledger \<Rightarrow> pystr \<Rightarrow> pystr \<Rightarrow> bool" where
  "reservation_identity_available s child_agent_id creation_request_id =
     (\<not> list_ex (\<lambda>r. brs_child_agent_id r = child_agent_id \<or> brs_creation_request_id r = creation_request_id)
          (dict_values (lg_reservations s)))"

definition operation_matches :: "ledger \<Rightarrow> pystr \<Rightarrow> string \<Rightarrow> payload \<Rightarrow> bool" where
  "operation_matches s operation_id event_type data =
     (case map_of (lg_operations s) operation_id of
        None \<Rightarrow> False
      | Some operation \<Rightarrow> operation = \<lparr>lop_event_type = event_type,
            lop_payload = canonical_json (JDict data), lop_seq = lop_seq operation\<rparr>)"

definition require_open_account :: "ledger \<Rightarrow> pystr \<Rightarrow> budget_account result" where
  "require_open_account s agent_id =
     (case ledger_account s agent_id of
        None \<Rightarrow> Inl BudgetAccountNotFoundError
      | Some account \<Rightarrow>
          (if bac_status account = Account_Closed then Inl BudgetAccountClosedError else Inr account))"

definition token_ceiling :: "ledger \<Rightarrow> pystr \<Rightarrow> int option result" where
  "token_ceiling s agent_id =
     rbind (require_open_account s agent_id) (\<lambda>account.
       case List.find (\<lambda>r. brs_child_agent_id r = agent_id) (dict_values (lg_reservations s)) of
         Some r \<Rightarrow> Inr (bl_max_tokens (brs_child_limits r))
       | None \<Rightarrow> Inr (bl_max_tokens (bac_limits account)))"

definition map_protocol_error :: "(string \<Rightarrow> exn option) \<Rightarrow> 'a result \<Rightarrow> 'a result" where
  \<comment> \<open>\<open>except BudgetProtocolError as error\<close> with a new error for some codes\<close>
  "map_protocol_error f r =
     (case r of
        Inl (BudgetProtocolError code seq) \<Rightarrow>
          (case f code of Some e \<Rightarrow> Inl e | None \<Rightarrow> Inl (BudgetProtocolError code seq))
      | _ \<Rightarrow> r)"

definition ensure_token_decision :: "ledger \<Rightarrow> pystr \<Rightarrow> pystr \<Rightarrow> pystr \<Rightarrow> int \<Rightarrow> unit result" where
  "ensure_token_decision s parent_id child_id request_id tokens =
     (if dict_has request_id (lg_token_decisions s)
      then Inl (BudgetInputError ''budget-request-already-decided'' ''request_id'')
      else
        rbind (require_open_account s parent_id) (\<lambda>_.
        rbind (require_open_account s child_id) (\<lambda>_.
        rbind (map_protocol_error
                 (\<lambda>code. if code = ''budget-retained-tokens-exhausted'' then Some (BudgetExhaustedError ''retained_tokens'')
                         else if code = ''budget-capacity-exceeded'' then Some (BudgetExhaustedError ''max_tokens'')
                         else Some (BudgetInputError code ''tokens''))
                 (token_capacity (lg_accounts s) (lg_reservations s) parent_id child_id tokens (lg_head_seq s + 1))) (\<lambda>_.
          Inr ()))))"

definition first_exceeded :: "budget_account \<Rightarrow> budget_amounts \<Rightarrow> string option" where
  "first_exceeded account amounts =
     map_option fst (List.find (over_limit account amounts) consumable_dimensions)"

definition reservation_error :: "budget_account \<Rightarrow> reservation_debit \<Rightarrow> string \<Rightarrow> exn option" where
  "reservation_error account debit code =
     (if code = ''budget-retained-tokens-exhausted'' then Some (BudgetExhaustedError ''retained_tokens'')
      else if code = ''budget-depth-exhausted'' then Some (BudgetExhaustedError ''max_depth'')
      else if code = ''budget-capacity-exceeded'' then
        (case first_exceeded account (rd_amounts debit) of
           Some field \<Rightarrow> Some (BudgetExhaustedError field)
         | None \<Rightarrow> (if over_children account (rd_children debit) then Some (BudgetExhaustedError ''max_children'') else None))
      else if code = ''budget-child-limits-invalid'' then Some (BudgetInputError code ''child_limits'')
      else None)"

definition ensure_reservation_capacity ::
    "ledger \<Rightarrow> pystr \<Rightarrow> budget_limits \<Rightarrow> int \<Rightarrow> json \<Rightarrow> reservation_debit result" where
  "ensure_reservation_capacity s parent_agent_id child_limits retained_tokens initial_tokens =
     (let seq = lg_head_seq s + 1; no_debit = \<lparr>rd_amounts = no_amounts, rd_children = 0\<rparr> in
      rbind (require_open_account s parent_agent_id) (\<lambda>account.
      rbind (map_protocol_error (reservation_error account no_debit) (child_debit (bac_limits account) child_limits seq)) (\<lambda>_.
      rbind (initial_token_limits child_limits initial_tokens) (\<lambda>granted.
      rbind (map_protocol_error (reservation_error account no_debit) (child_debit (bac_limits account) granted seq)) (\<lambda>debit.
        map_protocol_error (reservation_error account debit)
          (rbind (ensure_capacity account (rd_amounts debit) seq (rd_children debit)) (\<lambda>_.
           rbind (ensure_retained_tokens account (rd_amounts debit) retained_tokens seq) (\<lambda>_. Inr debit))))))))"

definition ensure_charge_capacity :: "ledger \<Rightarrow> pystr \<Rightarrow> budget_amounts \<Rightarrow> unit result" where
  "ensure_charge_capacity s agent_id amounts =
     rbind (require_open_account s agent_id) (\<lambda>account.
       if inactive_charge (bac_limits account) amounts
       then Inl (BudgetInputError ''budget-charge-inactive'' ''amounts'')
       else map_protocol_error
              (\<lambda>code. if code = ''budget-capacity-exceeded''
                      then map_option BudgetExhaustedError (first_exceeded account amounts) else None)
              (ensure_capacity account amounts (lg_head_seq s + 1) 0))"

definition ensure_observation_allowed :: "ledger \<Rightarrow> pystr \<Rightarrow> budget_amounts \<Rightarrow> unit result" where
  "ensure_observation_allowed s agent_id amounts =
     rbind (require_open_account s agent_id) (\<lambda>account.
       raise_if (inactive_charge (bac_limits account) amounts)
         (BudgetInputError ''budget-charge-inactive'' ''amounts''))"

definition ensure_usage_reservation_capacity :: "ledger \<Rightarrow> pystr \<Rightarrow> budget_amounts \<Rightarrow> unit result" where
  "ensure_usage_reservation_capacity s agent_id amounts =
     (if \<not> one_reserved_dimension amounts
      then Inl (BudgetInputError ''budget-usage-reservation-invalid'' ''amounts'')
      else ensure_charge_capacity s agent_id amounts)"

definition ensure_usage_settlement ::
    "usage_reservation \<Rightarrow> budget_amounts \<Rightarrow> usage_quality option \<Rightarrow> unit result" where
  "ensure_usage_settlement reservation amounts usage_quality =
     raise_if (\<not> usage_settlement_matches reservation amounts usage_quality)
       (BudgetInputError ''budget-usage-settlement-invalid'' ''amounts'')"

definition remaining :: "int option \<Rightarrow> int \<Rightarrow> int option" where
  "remaining limit amount = map_option (\<lambda>n. max 0 (n - amount)) limit"

definition available :: "ledger \<Rightarrow> pystr \<Rightarrow> budget_limits result" where
  "available s agent_id =
     rbind (require_open_account s agent_id) (\<lambda>account.
       let used = account_used account; limits = bac_limits account in
       Inr \<lparr>bl_max_tokens = remaining (bl_max_tokens limits) (ba_tokens used),
            bl_max_steps = remaining (bl_max_steps limits) (ba_steps used),
            bl_max_tool_calls = remaining (bl_max_tool_calls limits) (ba_tool_calls used),
            bl_max_wall_milliseconds = remaining (bl_max_wall_milliseconds limits) (ba_wall_milliseconds used),
            bl_max_children = remaining (bl_max_children limits) (bac_reserved_children account),
            bl_max_depth = bl_max_depth limits, bl_max_processes = bl_max_processes limits\<rparr>)"

end
