(* ===== verification/Budget_Steps.thy ===== *)
theory Budget_Steps imports Budget_Projection begin

text \<open>
  What each accepted fact does to the ledger: one lemma per step, giving the guards that held
  and the new state, and the structural invariant of the ledger that all of them keep. The
  balances are in \<open>Budget_Conservation\<close>.
\<close>

definition limits_amounts :: "budget_limits \<Rightarrow> budget_amounts" where
  "limits_amounts l = \<lparr>ba_tokens = or_zero (bl_max_tokens l), ba_steps = or_zero (bl_max_steps l),
     ba_tool_calls = or_zero (bl_max_tool_calls l),
     ba_wall_milliseconds = or_zero (bl_max_wall_milliseconds l)\<rparr>"

lemma child_debit_Inr:
  "child_debit p c n = Inr d \<longleftrightarrow>
     d = \<lparr>rd_amounts = limits_amounts c, rd_children = 1\<rparr> \<and>
     (\<forall>field \<in> set monotonic_fields. \<not> exceeds (field p) (field c)) \<and>
     (\<forall>m. bl_max_depth p = Some m \<longrightarrow> m \<noteq> 0 \<and> (\<exists>k. bl_max_depth c = Some k \<and> k \<le> m - 1))"
  by (auto simp: child_debit_def result_simps limits_amounts_def list_ex_iff split: option.splits if_splits)

lemma open_account_or_Inr [result_simps]:
  "open_account_or as k n = Inr a \<longleftrightarrow> map_of as k = Some a \<and> bac_status a = Account_Open"
proof (cases "map_of as k")
  case (Some b)
  then show ?thesis
    by (cases "bac_status b") (auto simp: open_account_or_def account_or_def budget_error_def)
qed (simp add: open_account_or_def account_or_def)

lemma account_or_Inr [result_simps]: "account_or as k e = Inr a \<longleftrightarrow> map_of as k = Some a"
  by (simp add: account_or_def split: option.split)

lemma subtract_amounts_Inr:
  "subtract_amounts a b = Inr c \<longleftrightarrow> a = add_amounts c b \<and>
     0 \<le> ba_tokens c \<and> 0 \<le> ba_steps c \<and> 0 \<le> ba_tool_calls c \<and> 0 \<le> ba_wall_milliseconds c"
  by (cases a; cases b; cases c) (auto simp: subtract_amounts_def add_amounts_def amount_values_def Let_def)

lemma put_account_sel [simp]:
  "lg_accounts (put_account k a s) = dict_set k a (lg_accounts s)"
  "lg_reservations (put_account k a s) = lg_reservations s" "lg_usage (put_account k a s) = lg_usage s"
  "lg_charges (put_account k a s) = lg_charges s" "lg_operations (put_account k a s) = lg_operations s"
  "lg_token_decisions (put_account k a s) = lg_token_decisions s" "lg_head_seq (put_account k a s) = lg_head_seq s"
  by (simp_all add: put_account_def)

lemma put_reservation_sel [simp]:
  "lg_accounts (put_reservation k r s) = lg_accounts s"
  "lg_reservations (put_reservation k r s) = dict_set k r (lg_reservations s)"
  "lg_usage (put_reservation k r s) = lg_usage s"
  "lg_charges (put_reservation k r s) = lg_charges s" "lg_operations (put_reservation k r s) = lg_operations s"
  "lg_token_decisions (put_reservation k r s) = lg_token_decisions s" "lg_head_seq (put_reservation k r s) = lg_head_seq s"
  by (simp_all add: put_reservation_def)

lemma put_usage_sel [simp]:
  "lg_accounts (put_usage k u s) = lg_accounts s" "lg_reservations (put_usage k u s) = lg_reservations s"
  "lg_usage (put_usage k u s) = dict_set k u (lg_usage s)"
  "lg_charges (put_usage k u s) = lg_charges s" "lg_operations (put_usage k u s) = lg_operations s"
  "lg_token_decisions (put_usage k u s) = lg_token_decisions s" "lg_head_seq (put_usage k u s) = lg_head_seq s"
  by (simp_all add: put_usage_def)

lemma new_usage_sel [simp]:
  "ur_agent_id (new_usage rs a amounts n) = a" "ur_amounts (new_usage rs a amounts n) = amounts"
  "ur_status (new_usage rs a amounts n) = Usage_Pending" "ur_settled_amounts (new_usage rs a amounts n) = None"
  by (simp_all add: new_usage_def)

lemma end_usage_sel [simp]:
  "ur_agent_id (end_usage u st n) = ur_agent_id u" "ur_amounts (end_usage u st n) = ur_amounts u"
  "ur_status (end_usage u st n) = (if st \<noteq> None then Usage_Settled else Usage_Released)"
  "ur_settled_amounts (end_usage u st n) = map_option fst st"
  by (simp_all add: end_usage_def)

lemma put_charge_sel [simp]:
  "lg_accounts (put_charge k c s) = lg_accounts s" "lg_reservations (put_charge k c s) = lg_reservations s"
  "lg_usage (put_charge k c s) = lg_usage s" "lg_charges (put_charge k c s) = dict_set k c (lg_charges s)"
  "lg_operations (put_charge k c s) = lg_operations s"
  "lg_token_decisions (put_charge k c s) = lg_token_decisions s" "lg_head_seq (put_charge k c s) = lg_head_seq s"
  by (simp_all add: put_charge_def)

lemma put_decision_sel [simp]:
  "lg_accounts (put_decision k t s) = lg_accounts s" "lg_reservations (put_decision k t s) = lg_reservations s"
  "lg_usage (put_decision k t s) = lg_usage s" "lg_charges (put_decision k t s) = lg_charges s"
  "lg_operations (put_decision k t s) = lg_operations s"
  "lg_token_decisions (put_decision k t s) = dict_set k t (lg_token_decisions s)"
  "lg_head_seq (put_decision k t s) = lg_head_seq s"
  by (simp_all add: put_decision_def)

section \<open>The steps\<close>

lemma root_grantedE:
  assumes "apply_root_granted dir a l n s = Inr s'"
  obtains r where "directory_get dir a = Some r" "rec_owner_agent_id r = None"
    "map_of (lg_accounts s) a = None" "s' = put_account a (new_account a None l n) s"
proof (cases "directory_get dir a")
  case None
  with assms show thesis by (simp add: apply_root_granted_def budget_error_def)
next
  case (Some r)
  with assms that show thesis
    by (simp add: apply_root_granted_def budget_error_def dict_has_def split: if_splits)
qed

definition reserved_state :: "child_reserved_fact \<Rightarrow> budget_account \<Rightarrow> budget_limits \<Rightarrow> agent_record option \<Rightarrow> ledger \<Rightarrow> ledger" where
  "reserved_state f parent granted durable s =
     (let s1 = put_reservation (crf_reservation_id f) (new_reservation f durable) s;
          s2 = s1\<lparr>lg_child_reservations := dict_set (crf_child_agent_id f) (crf_reservation_id f) (lg_child_reservations s1),
                  lg_request_reservations := dict_set (crf_creation_request_id f) (crf_reservation_id f) (lg_request_reservations s1)\<rparr>;
          s3 = put_account (crf_parent_agent_id f)
                 (reserve_debit parent \<lparr>rd_amounts = limits_amounts granted, rd_children = 1\<rparr>) s2
      in if durable \<noteq> None
         then put_account (crf_child_agent_id f)
                (new_account (crf_child_agent_id f) (Some (crf_parent_agent_id f)) granted (crf_seq f)) s3
         else s3)"

lemma child_reservedE:
  assumes "apply_child_reserved dir f s = Inr s'"
  obtains parent granted durable where "map_of (lg_accounts s) (crf_parent_agent_id f) = Some parent"
    "bac_status parent = Account_Open" "reservation_conflict f s = None"
    "initial_token_limits (crf_child_limits f) (crf_initial_tokens f) = Inr granted"
    "child_debit (bac_limits parent) granted (crf_seq f) = Inr \<lparr>rd_amounts = limits_amounts granted, rd_children = 1\<rparr>"
    "ensure_capacity parent (limits_amounts granted) (crf_seq f) 1 = Inr ()"
    "ensure_retained_tokens parent (limits_amounts granted) (crf_retained_tokens f) (crf_seq f) = Inr ()"
    "directory_child dir (crf_parent_agent_id f) (crf_child_agent_id f) (crf_creation_request_id f) (crf_seq f) = Inr durable"
    "s' = reserved_state f parent granted durable s"
proof -
  have "reservation_conflict f s = None"
    using assms by (cases "reservation_conflict f s") (auto simp: apply_child_reserved_def result_simps Let_def)
  with assms obtain parent granted debit durable where *:
    "map_of (lg_accounts s) (crf_parent_agent_id f) = Some parent" "bac_status parent = Account_Open"
    "initial_token_limits (crf_child_limits f) (crf_initial_tokens f) = Inr granted"
    "child_debit (bac_limits parent) granted (crf_seq f) = Inr debit"
    "ensure_capacity parent (rd_amounts debit) (crf_seq f) (rd_children debit) = Inr ()"
    "ensure_retained_tokens parent (rd_amounts debit) (crf_retained_tokens f) (crf_seq f) = Inr ()"
    "directory_child dir (crf_parent_agent_id f) (crf_child_agent_id f) (crf_creation_request_id f) (crf_seq f) = Inr durable"
    and s': "s' = (let s1 = put_reservation (crf_reservation_id f) (new_reservation f durable) s;
                 s2 = s1\<lparr>lg_child_reservations := dict_set (crf_child_agent_id f) (crf_reservation_id f) (lg_child_reservations s1),
                         lg_request_reservations := dict_set (crf_creation_request_id f) (crf_reservation_id f) (lg_request_reservations s1)\<rparr>;
                 s3 = put_account (crf_parent_agent_id f) (reserve_debit parent debit) s2
             in (if durable \<noteq> None
                     then put_account (crf_child_agent_id f)
                            (new_account (crf_child_agent_id f) (Some (crf_parent_agent_id f)) granted (crf_seq f)) s3
                     else s3))"
    by (auto simp: apply_child_reserved_def rbind_eq_Inr open_account_or_Inr Let_def)
  have "debit = \<lparr>rd_amounts = limits_amounts granted, rd_children = 1\<rparr>" using *(4) by (simp add: child_debit_Inr)
  with * s' \<open>reservation_conflict f s = None\<close> that show thesis by (simp add: reserved_state_def)
qed

lemma reservation_committedE:
  assumes "apply_reservation_committed dir rs n s = Inr s'"
  obtains r child s1 where "map_of (lg_reservations s) rs = Some r" "brs_status r \<noteq> Reservation_Released"
    "brs_terminal_seq r = None"
    "directory_child dir (brs_parent_agent_id r) (brs_child_agent_id r) (brs_creation_request_id r) n = Inr (Some child)"
    "s1 = put_reservation rs (r\<lparr>brs_status := Reservation_Committed, brs_terminal_seq := Some n,
            brs_identity_seq := Some (rec_created_seq child)\<rparr>) s"
    "(dict_has (brs_child_agent_id r) (lg_accounts s) \<and> s' = s1) \<or>
     (\<exists>granted. \<not> dict_has (brs_child_agent_id r) (lg_accounts s) \<and>
        initial_token_limits (brs_child_limits r) (brs_initial_tokens r) = Inr granted \<and>
        s' = put_account (brs_child_agent_id r)
               (new_account (brs_child_agent_id r) (Some (brs_parent_agent_id r)) granted (brs_reserved_seq r)) s1)"
proof (cases "map_of (lg_reservations s) rs")
  case None
  with assms show thesis by (simp add: apply_reservation_committed_def budget_error_def)
next
  case (Some r)
  show thesis
    using assms Some that
    by (auto simp: apply_reservation_committed_def budget_error_def rbind_eq_Inr Let_def split: if_splits option.splits)
qed

lemma reservation_releasedE:
  assumes "apply_reservation_released dir rs n s = Inr s'"
  obtains r parent granted delegated where "map_of (lg_reservations s) rs = Some r"
    "brs_status r = Reservation_Pending" "brs_terminal_seq r = None" "map_of (lg_accounts s) (brs_parent_agent_id r) = Some parent"
    "initial_token_limits (brs_child_limits r) (brs_initial_tokens r) = Inr granted"
    "bac_delegated parent = add_amounts delegated (limits_amounts granted)"
    "s' = put_reservation rs (r\<lparr>brs_status := Reservation_Released, brs_terminal_seq := Some n\<rparr>)
            (put_account (bac_agent_id parent)
               (parent\<lparr>bac_delegated := delegated, bac_reserved_children := bac_reserved_children parent - 1\<rparr>) s)"
proof (cases "map_of (lg_reservations s) rs")
  case None
  with assms show thesis by (simp add: apply_reservation_released_def budget_error_def)
next
  case (Some r)
  show thesis
    using assms Some that
    by (auto simp: apply_reservation_released_def budget_error_def rbind_eq_Inr account_or_Inr child_debit_Inr
        subtract_amounts_Inr split: if_splits)
qed

lemma token_capacity_Inr:
  assumes "token_capacity as rs p c t n = Inr (parent, child)"
  shows "map_of as p = Some parent \<and> map_of as c = Some child \<and> bac_parent_agent_id child = Some p \<and>
    (\<exists>m. bl_max_tokens (bac_limits child) = Some m) \<and>
    (t \<noteq> 0 \<longrightarrow> ensure_capacity parent (no_amounts\<lparr>ba_tokens := t\<rparr>) n 0 = Inr ()) \<and>
    bac_status parent = Account_Open \<and> bac_status child = Account_Open"
proof -
  have "st = Account_Open" if "st \<noteq> Account_Closed" for st using that by (cases st) simp_all
  with assms show ?thesis
    by (auto simp: token_capacity_def budget_error_def rbind_eq_Inr Let_def split: option.splits if_splits)
qed

lemma token_decisionE:
  assumes "apply_token_decision f s = Inr s'"
  obtains parent child current where "\<not> dict_has (ctd_request_id f) (lg_token_decisions s)"
    "map_of (lg_accounts s) (ctd_parent_agent_id f) = Some parent"
    "map_of (lg_accounts s) (ctd_child_agent_id f) = Some child"
    "bac_parent_agent_id child = Some (ctd_parent_agent_id f)" "bl_max_tokens (bac_limits child) = Some current"
    "ctd_tokens f \<noteq> 0 \<longrightarrow> ensure_capacity parent (no_amounts\<lparr>ba_tokens := ctd_tokens f\<rparr>) (ctd_seq f) 0 = Inr ()"
    "bac_status parent = Account_Open" "bac_status child = Account_Open"
    "s' = put_decision (ctd_request_id f) f (put_account (bac_agent_id child)
             (child\<lparr>bac_limits := (bac_limits child)\<lparr>bl_max_tokens := Some (current + ctd_tokens f)\<rparr>\<rparr>)
             (put_account (bac_agent_id parent)
                (parent\<lparr>bac_delegated := add_amounts (bac_delegated parent) (no_amounts\<lparr>ba_tokens := ctd_tokens f\<rparr>)\<rparr>) s))"
proof -
  obtain parent child where new: "\<not> dict_has (ctd_request_id f) (lg_token_decisions s)"
    and cap: "token_capacity (lg_accounts s) (lg_reservations s) (ctd_parent_agent_id f)
                 (ctd_child_agent_id f) (ctd_tokens f) (ctd_seq f) = Inr (parent, child)"
    using assms by (auto simp: apply_token_decision_def budget_error_def rbind_eq_Inr split: if_splits)
  note facts = token_capacity_Inr[OF cap]
  then obtain m where m: "bl_max_tokens (bac_limits child) = Some m" by blast
  show thesis
    using assms new cap facts m that by (simp add: apply_token_decision_def Let_def)
qed

lemma usage_chargedE:
  assumes "apply_usage_charged op a amounts mode q n s = Inr s'"
  obtains account where "map_of (lg_accounts s) a = Some account" "bac_status account = Account_Open"
    "\<not> inactive_charge (bac_limits account) amounts"
    "mode = ADMISSION \<longrightarrow> ensure_capacity account amounts n 0 = Inr ()"
    "s' = put_charge op \<lparr>bch_operation_id = op, bch_agent_id = a, bch_amounts = amounts,
               bch_mode = mode, bch_usage_quality = q, bch_charged_seq = n\<rparr>
            (put_account a (account\<lparr>bac_charged := add_amounts (bac_charged account) amounts\<rparr>) s)"
  using assms that
  by (auto simp: apply_usage_charged_def budget_error_def rbind_eq_Inr open_account_or_Inr Let_def split: if_splits)

lemma usage_reservedE:
  assumes "apply_usage_reserved rs a amounts n s = Inr s'"
  obtains account where "map_of (lg_accounts s) a = Some account" "bac_status account = Account_Open"
    "map_of (lg_usage s) rs = None" "ensure_capacity account amounts n 0 = Inr ()"
    "s' = put_account a (account\<lparr>bac_reserved := add_amounts (bac_reserved account) amounts\<rparr>)
            (put_usage rs (new_usage rs a amounts n) s)"
  using assms that
  by (auto simp: apply_usage_reserved_def budget_error_def rbind_eq_Inr open_account_or_Inr Let_def dict_has_def
      split: if_splits)

lemma usage_startedE:
  assumes "apply_usage_started rs n s = Inr s'"
  obtains u where "map_of (lg_usage s) rs = Some u" "ur_status u = Usage_Pending"
    "s' = put_usage rs (u\<lparr>ur_status := Usage_Started, ur_started_seq := Some n\<rparr>) s"
  using assms that by (auto simp: apply_usage_started_def budget_error_def split: option.splits if_splits)

lemma usage_endedE:
  assumes "apply_usage_ended rs settled n s = Inr s'"
  obtains u account reserved where "map_of (lg_usage s) rs = Some u"
    "ur_status u = (if settled \<noteq> None then Usage_Started else Usage_Pending)"
    "map_of (lg_accounts s) (ur_agent_id u) = Some account"
    "\<forall>amounts q. settled = Some (amounts, q) \<longrightarrow> usage_settlement_matches u amounts q"
    "bac_reserved account = add_amounts reserved (ur_amounts u)"
    "s' = put_usage rs (end_usage u settled n) (put_account (bac_agent_id account)
            (account\<lparr>bac_reserved := reserved,
                     bac_charged := (case settled of None \<Rightarrow> bac_charged account
                                     | Some (amounts, _) \<Rightarrow> add_amounts (bac_charged account) amounts)\<rparr>) s)"
proof (cases "map_of (lg_usage s) rs")
  case None
  with assms show thesis by (simp add: apply_usage_ended_def budget_error_def)
next
  case (Some u)
  show thesis
    using assms Some that
    by (cases settled)
      (auto simp: apply_usage_ended_def budget_error_def rbind_eq_Inr account_or_Inr raise_if_eq_Inr
        subtract_amounts_Inr Let_def split: if_splits)
qed

lemma account_closedE:
  assumes "apply_account_closed a n s = Inr s'"
  obtains account where "map_of (lg_accounts s) a = Some account" "bac_status account = Account_Open"
    "s' = put_account a (account\<lparr>bac_status := Account_Closed, bac_closed_seq := Some n\<rparr>) s"
    "\<not> list_ex (\<lambda>r. brs_parent_agent_id r = a \<and> brs_status r = Reservation_Pending) (dict_values (lg_reservations s))"
    "\<not> list_ex (\<lambda>u. ur_agent_id u = a \<and> ur_status u \<in> {Usage_Pending, Usage_Started}) (dict_values (lg_usage s))"
  using assms that
  by (auto simp: apply_account_closed_def budget_error_def rbind_eq_Inr account_or_Inr split: if_splits
      intro: account_status.exhaust)

section \<open>The structural invariant\<close>

text \<open>
  Every account is filed under its own identity and under an existing parent other than itself;
  every reservation names an existing parent and a valid grant, an open one a child that the
  directory does not have, a committed one a child that has its account; usage, charges and
  decisions name existing accounts.
\<close>

definition limits_nonneg :: "budget_limits \<Rightarrow> bool" where
  "limits_nonneg l \<longleftrightarrow> (\<forall>n. Some n \<in> set (limit_values l) \<longrightarrow> 0 \<le> n)"

lemma limits_ok_nonneg: "limits_ok l \<Longrightarrow> limits_nonneg l"
  by (auto simp: limits_ok_def limits_nonneg_def limit_ok_def list_all_iff)

definition account_ok :: "(pystr, budget_account) dict \<Rightarrow> pystr \<Rightarrow> budget_account \<Rightarrow> bool" where
  "account_ok as k a \<longleftrightarrow> bac_agent_id a = k \<and> limits_nonneg (bac_limits a) \<and>
     (\<forall>p. bac_parent_agent_id a = Some p \<longrightarrow> p \<noteq> k \<and> dict_has p as)"

definition reservation_ok :: "agent_directory \<Rightarrow> (pystr, budget_account) dict \<Rightarrow> budget_reservation \<Rightarrow> bool" where
  "reservation_ok dir as r \<longleftrightarrow> dict_has (brs_parent_agent_id r) as \<and>
     (\<exists>g. initial_token_limits (brs_child_limits r) (brs_initial_tokens r) = Inr g \<and> limits_ok g) \<and>
     (brs_status r = Reservation_Pending \<longrightarrow> directory_get dir (brs_child_agent_id r) = None) \<and>
     (brs_status r = Reservation_Committed \<longrightarrow> dict_has (brs_child_agent_id r) as)"

definition usage_ok :: "(pystr, budget_account) dict \<Rightarrow> usage_reservation \<Rightarrow> bool" where
  "usage_ok as u \<longleftrightarrow> dict_has (ur_agent_id u) as \<and> amounts_ok (ur_amounts u)"

definition decision_ok :: "(pystr, budget_account) dict \<Rightarrow> child_token_decision \<Rightarrow> bool" where
  "decision_ok as t \<longleftrightarrow> dict_has (ctd_parent_agent_id t) as \<and> 0 \<le> ctd_tokens t"

definition charge_ok :: "(pystr, budget_account) dict \<Rightarrow> budget_charge \<Rightarrow> bool" where
  "charge_ok as c \<longleftrightarrow> dict_has (bch_agent_id c) as \<and> amounts_ok (bch_amounts c)"

definition structure_ok :: "agent_directory \<Rightarrow> ledger \<Rightarrow> bool" where
  "structure_ok dir s \<longleftrightarrow> dict_ok (lg_accounts s) \<and>
     (\<forall>k a. map_of (lg_accounts s) k = Some a \<longrightarrow> account_ok (lg_accounts s) k a) \<and>
     (\<forall>r \<in> set (dict_values (lg_reservations s)). reservation_ok dir (lg_accounts s) r) \<and>
     (\<forall>u \<in> set (dict_values (lg_usage s)). usage_ok (lg_accounts s) u) \<and>
     (\<forall>t \<in> set (dict_values (lg_token_decisions s)). decision_ok (lg_accounts s) t) \<and>
     (\<forall>c \<in> set (dict_values (lg_charges s)). charge_ok (lg_accounts s) c)"

lemma structure_okD:
  assumes "structure_ok dir s"
  shows "map_of (lg_accounts s) k = Some a \<Longrightarrow> account_ok (lg_accounts s) k a"
    and "map_of (lg_reservations s) i = Some r \<Longrightarrow> reservation_ok dir (lg_accounts s) r"
    and "map_of (lg_usage s) j = Some u \<Longrightarrow> usage_ok (lg_accounts s) u"
  using assms dict_values_lookup unfolding structure_ok_def by fastforce+

lemma ok_dict_set:
  "account_ok as k a \<Longrightarrow> account_ok (dict_set i b as) k a"
  "reservation_ok dir as r \<Longrightarrow> reservation_ok dir (dict_set i b as) r"
  "usage_ok as u \<Longrightarrow> usage_ok (dict_set i b as) u"
  "decision_ok as t \<Longrightarrow> decision_ok (dict_set i b as) t"
  "charge_ok as c \<Longrightarrow> charge_ok (dict_set i b as) c"
  by (simp_all add: account_ok_def reservation_ok_def usage_ok_def decision_ok_def charge_ok_def)

lemma structure_put_account:
  assumes s: "structure_ok dir s" and a: "account_ok (dict_set k a (lg_accounts s)) k a"
  shows "structure_ok dir (put_account k a s)"
proof -
  have "account_ok (dict_set k a (lg_accounts s)) i b" if "map_of (dict_set k a (lg_accounts s)) i = Some b" for i b
    using that a s unfolding structure_ok_def by (cases "i = k") (simp_all add: ok_dict_set)
  then show ?thesis
    using s by (simp add: structure_ok_def ok_dict_set)
qed

lemma structure_put_reservation:
  "structure_ok dir s \<Longrightarrow> reservation_ok dir (lg_accounts s) r \<Longrightarrow> structure_ok dir (put_reservation k r s)"
  using dict_values_set_all[of "lg_reservations s" "reservation_ok dir (lg_accounts s)" r k]
  by (simp add: structure_ok_def)

lemma structure_put_usage:
  "structure_ok dir s \<Longrightarrow> usage_ok (lg_accounts s) u \<Longrightarrow> structure_ok dir (put_usage k u s)"
  using dict_values_set_all[of "lg_usage s" "usage_ok (lg_accounts s)" u k] by (simp add: structure_ok_def)

lemma structure_put_charge:
  "structure_ok dir s \<Longrightarrow> charge_ok (lg_accounts s) c \<Longrightarrow>
     structure_ok dir (put_charge k c s)"
  using dict_values_set_all[of "lg_charges s" "charge_ok (lg_accounts s)" c k]
  by (simp add: structure_ok_def)

lemma structure_put_decision:
  "structure_ok dir s \<Longrightarrow> decision_ok (lg_accounts s) t \<Longrightarrow>
     structure_ok dir (put_decision k t s)"
  using dict_values_set_all[of "lg_token_decisions s" "decision_ok (lg_accounts s)" t k]
  by (simp add: structure_ok_def)

lemma account_ok_update:
  "account_ok as k a \<Longrightarrow> bac_agent_id b = bac_agent_id a \<Longrightarrow> bac_parent_agent_id b = bac_parent_agent_id a \<Longrightarrow>
     limits_nonneg (bac_limits a) = limits_nonneg (bac_limits b) \<Longrightarrow> account_ok (dict_set k b as) k b"
  by (auto simp: account_ok_def)

lemma initial_token_limits_ok:
  "initial_token_limits l v = Inr g \<Longrightarrow> limits_ok l \<Longrightarrow> limits_ok g"
  by (auto simp: initial_token_limits_Inr limits_ok_def limit_values_def limit_ok_def)

lemma directory_child_get:
  "directory_child dir p c q n = Inr x \<Longrightarrow> directory_get dir c = x"
  by (auto simp: directory_child_def budget_error_def split: option.splits if_splits)

lemma new_account_sel [simp]:
  "bac_agent_id (new_account a p l n) = a" "bac_parent_agent_id (new_account a p l n) = p"
  "bac_limits (new_account a p l n) = l" "bac_charged (new_account a p l n) = no_amounts"
  "bac_delegated (new_account a p l n) = no_amounts" "bac_reserved (new_account a p l n) = no_amounts"
  "bac_reserved_children (new_account a p l n) = 0"
  by (simp_all add: new_account_def)

lemma new_reservation_sel [simp]:
  "brs_parent_agent_id (new_reservation f x) = crf_parent_agent_id f"
  "brs_child_agent_id (new_reservation f x) = crf_child_agent_id f"
  "brs_child_limits (new_reservation f x) = crf_child_limits f"
  "brs_initial_tokens (new_reservation f x) = crf_initial_tokens f"
  "brs_status (new_reservation f x) = (if x \<noteq> None then Reservation_Committed else Reservation_Pending)"
  by (simp_all add: new_reservation_def)

lemma reserve_debit_sel [simp]:
  "bac_agent_id (reserve_debit a d) = bac_agent_id a"
  "bac_parent_agent_id (reserve_debit a d) = bac_parent_agent_id a"
  "bac_limits (reserve_debit a d) = bac_limits a" "bac_charged (reserve_debit a d) = bac_charged a"
  "bac_reserved (reserve_debit a d) = bac_reserved a"
  "bac_delegated (reserve_debit a d) = add_amounts (bac_delegated a) (rd_amounts d)"
  "bac_reserved_children (reserve_debit a d) = bac_reserved_children a + rd_children d"
  by (simp_all add: reserve_debit_def)

definition reserved_accounts ::
    "child_reserved_fact \<Rightarrow> budget_account \<Rightarrow> budget_limits \<Rightarrow> agent_record option \<Rightarrow> ledger \<Rightarrow> ledger" where
  "reserved_accounts f parent granted durable s =
     (let s1 = put_account (crf_parent_agent_id f)
                 (reserve_debit parent \<lparr>rd_amounts = limits_amounts granted, rd_children = 1\<rparr>) s
      in if durable \<noteq> None
         then put_account (crf_child_agent_id f)
                (new_account (crf_child_agent_id f) (Some (crf_parent_agent_id f)) granted (crf_seq f)) s1
         else s1)"

lemma reserved_state_sel [simp]:
  "lg_accounts (reserved_state f p g x s) = lg_accounts (reserved_accounts f p g x s)"
  "lg_reservations (reserved_state f p g x s) = dict_set (crf_reservation_id f) (new_reservation f x) (lg_reservations s)"
  "lg_usage (reserved_state f p g x s) = lg_usage s" "lg_charges (reserved_state f p g x s) = lg_charges s"
  "lg_token_decisions (reserved_state f p g x s) = lg_token_decisions s"
  "lg_operations (reserved_state f p g x s) = lg_operations s"
  by (simp_all add: reserved_state_def reserved_accounts_def Let_def)

lemma reserved_accounts_sel [simp]:
  "lg_reservations (reserved_accounts f p g x s) = lg_reservations s"
  "lg_usage (reserved_accounts f p g x s) = lg_usage s" "lg_charges (reserved_accounts f p g x s) = lg_charges s"
  "lg_token_decisions (reserved_accounts f p g x s) = lg_token_decisions s"
  by (simp_all add: reserved_accounts_def Let_def)

lemma structure_ok_cong:
  "lg_accounts s' = lg_accounts s \<Longrightarrow> lg_reservations s' = lg_reservations s \<Longrightarrow> lg_usage s' = lg_usage s \<Longrightarrow>
   lg_token_decisions s' = lg_token_decisions s \<Longrightarrow> lg_charges s' = lg_charges s \<Longrightarrow>
   structure_ok dir s' = structure_ok dir s"
  by (simp add: structure_ok_def)

lemma conflict_none:
  "reservation_conflict f s = None \<Longrightarrow> map_of (lg_reservations s) (crf_reservation_id f) = None \<and>
     map_of (lg_usage s) (crf_reservation_id f) = None \<and> crf_child_agent_id f \<noteq> crf_parent_agent_id f \<and>
     map_of (lg_accounts s) (crf_child_agent_id f) = None"
  by (auto simp: reservation_conflict_def dict_has_def split: if_splits)

lemma structure_root:
  assumes "structure_ok dir s" "limits_ok l" "apply_root_granted dir a l n s = Inr s'"
  shows "structure_ok dir s'"
  using assms by (elim root_grantedE) (simp add: structure_put_account account_ok_def limits_ok_nonneg)

lemma structure_child_reserved:
  assumes ok: "structure_ok dir s" and f: "limits_ok (crf_child_limits f)" and "apply_child_reserved dir f s = Inr s'"
  shows "structure_ok dir s'"
  using assms(3)
proof (rule child_reservedE)
  fix parent granted durable
  assume p: "map_of (lg_accounts s) (crf_parent_agent_id f) = Some parent"
    and c: "reservation_conflict f s = None"
    and g: "initial_token_limits (crf_child_limits f) (crf_initial_tokens f) = Inr granted"
    and d: "directory_child dir (crf_parent_agent_id f) (crf_child_agent_id f) (crf_creation_request_id f) (crf_seq f) = Inr durable"
    and s': "s' = reserved_state f parent granted durable s"
  let ?s1 = "reserved_accounts f parent granted durable s"
  have pa: "account_ok (lg_accounts s) (crf_parent_agent_id f) parent" using structure_okD(1)[OF ok p] .
  have ok1: "structure_ok dir ?s1"
    using conflict_none[OF c] pa limits_ok_nonneg[OF initial_token_limits_ok[OF g f]] unfolding reserved_accounts_def Let_def
    by (auto simp: account_ok_def intro!: structure_put_account ok)
  have "reservation_ok dir (lg_accounts ?s1) (new_reservation f durable)"
    using g initial_token_limits_ok[OF g f] directory_child_get[OF d]
    by (auto simp: reservation_ok_def reserved_accounts_def Let_def)
  then have "structure_ok dir (put_reservation (crf_reservation_id f) (new_reservation f durable) ?s1)"
    using ok1 by (intro structure_put_reservation) simp_all
  then show ?thesis
    unfolding s' by (subst structure_ok_cong[of _ "put_reservation (crf_reservation_id f) (new_reservation f durable) ?s1"]) simp_all
qed

lemma structure_committed:
  assumes ok: "structure_ok dir s" and "apply_reservation_committed dir rs n s = Inr s'"
  shows "structure_ok dir s'"
  using assms(2)
proof (rule reservation_committedE)
  fix r child s1
  assume r: "map_of (lg_reservations s) rs = Some r" and st: "brs_status r \<noteq> Reservation_Released"
    and d: "directory_child dir (brs_parent_agent_id r) (brs_child_agent_id r) (brs_creation_request_id r) n = Inr (Some child)"
    and s1: "s1 = put_reservation rs (r\<lparr>brs_status := Reservation_Committed, brs_terminal_seq := Some n,
            brs_identity_seq := Some (rec_created_seq child)\<rparr>) s"
    and s': "(dict_has (brs_child_agent_id r) (lg_accounts s) \<and> s' = s1) \<or>
     (\<exists>granted. \<not> dict_has (brs_child_agent_id r) (lg_accounts s) \<and>
        initial_token_limits (brs_child_limits r) (brs_initial_tokens r) = Inr granted \<and>
        s' = put_account (brs_child_agent_id r)
               (new_account (brs_child_agent_id r) (Some (brs_parent_agent_id r)) granted (brs_reserved_seq r)) s1)"
  have rok: "reservation_ok dir (lg_accounts s) r" using structure_okD(2)[OF ok r] .
  have "brs_status r = Reservation_Committed"
    using rok st directory_child_get[OF d] by (cases "brs_status r") (auto simp: reservation_ok_def)
  then have has: "dict_has (brs_child_agent_id r) (lg_accounts s)" using rok by (simp add: reservation_ok_def)
  with s' have "s' = s1" by blast
  then show ?thesis using ok rok has by (auto simp: s1 reservation_ok_def intro!: structure_put_reservation)
qed

lemma structure_released:
  assumes ok: "structure_ok dir s" and "apply_reservation_released dir rs n s = Inr s'"
  shows "structure_ok dir s'"
  using assms(2)
proof (rule reservation_releasedE)
  fix r parent granted delegated
  assume r: "map_of (lg_reservations s) rs = Some r"
    and p: "map_of (lg_accounts s) (brs_parent_agent_id r) = Some parent"
    and s': "s' = put_reservation rs (r\<lparr>brs_status := Reservation_Released, brs_terminal_seq := Some n\<rparr>)
            (put_account (bac_agent_id parent)
               (parent\<lparr>bac_delegated := delegated, bac_reserved_children := bac_reserved_children parent - 1\<rparr>) s)"
  have rok: "reservation_ok dir (lg_accounts s) r" using structure_okD(2)[OF ok r] .
  have pok: "account_ok (lg_accounts s) (brs_parent_agent_id r) parent" using structure_okD(1)[OF ok p] .
  then have "bac_agent_id parent = brs_parent_agent_id r" by (simp add: account_ok_def)
  with rok pok ok show ?thesis
    unfolding s'
    by (intro structure_put_reservation structure_put_account)
      (auto simp: reservation_ok_def intro: account_ok_update)
qed

lemma structure_decision:
  assumes ok: "structure_ok dir s" and t: "0 \<le> ctd_tokens f" and "apply_token_decision f s = Inr s'"
  shows "structure_ok dir s'"
  using assms(3)
proof (rule token_decisionE)
  fix parent child current
  assume p: "map_of (lg_accounts s) (ctd_parent_agent_id f) = Some parent"
    and c: "map_of (lg_accounts s) (ctd_child_agent_id f) = Some child"
    and cur: "bl_max_tokens (bac_limits child) = Some current"
    and s': "s' = put_decision (ctd_request_id f) f (put_account (bac_agent_id child)
             (child\<lparr>bac_limits := (bac_limits child)\<lparr>bl_max_tokens := Some (current + ctd_tokens f)\<rparr>\<rparr>)
             (put_account (bac_agent_id parent)
                (parent\<lparr>bac_delegated := add_amounts (bac_delegated parent) (no_amounts\<lparr>ba_tokens := ctd_tokens f\<rparr>)\<rparr>) s))"
  let ?p = "parent\<lparr>bac_delegated := add_amounts (bac_delegated parent) (no_amounts\<lparr>ba_tokens := ctd_tokens f\<rparr>)\<rparr>"
  let ?c = "child\<lparr>bac_limits := (bac_limits child)\<lparr>bl_max_tokens := Some (current + ctd_tokens f)\<rparr>\<rparr>"
  let ?s1 = "put_account (bac_agent_id parent) ?p s" and ?s2 = "put_account (bac_agent_id child) ?c (put_account (bac_agent_id parent) ?p s)"
  have pok: "account_ok (lg_accounts s) (bac_agent_id parent) parent"
    and cok: "account_ok (lg_accounts s) (bac_agent_id child) child"
    using structure_okD(1)[OF ok p] structure_okD(1)[OF ok c] by (simp_all add: account_ok_def)
  have has: "dict_has (ctd_parent_agent_id f) (lg_accounts s)" using p by (simp add: dict_has_def)
  have "limits_nonneg (bac_limits ?c)" "limits_nonneg (bac_limits child)"
    using cok cur t by (auto simp: account_ok_def limits_nonneg_def limit_values_def)
  have "structure_ok dir ?s1"
    using ok pok by (intro structure_put_account account_ok_update[OF pok]) simp_all
  with \<open>limits_nonneg (bac_limits ?c)\<close> \<open>limits_nonneg (bac_limits child)\<close> have ok2: "structure_ok dir ?s2"
    using account_ok_update[OF ok_dict_set(1)[OF cok, of "bac_agent_id parent" ?p], of ?c]
    by (intro structure_put_account[of dir ?s1]) simp_all
  have "structure_ok dir (put_decision (ctd_request_id f) f ?s2)"
    using ok2 has t by (intro structure_put_decision) (simp_all add: decision_ok_def)
  then show ?thesis by (simp add: s')
qed

lemma structure_charged:
  assumes ok: "structure_ok dir s" and am: "amounts_ok amounts" and "apply_usage_charged op a amounts mode q n s = Inr s'"
  shows "structure_ok dir s'"
  using assms(3)
proof (rule usage_chargedE)
  fix account
  assume a: "map_of (lg_accounts s) a = Some account"
    and s': "s' = put_charge op \<lparr>bch_operation_id = op, bch_agent_id = a, bch_amounts = amounts,
               bch_mode = mode, bch_usage_quality = q, bch_charged_seq = n\<rparr>
            (put_account a (account\<lparr>bac_charged := add_amounts (bac_charged account) amounts\<rparr>) s)"
  let ?s1 = "put_account a (account\<lparr>bac_charged := add_amounts (bac_charged account) amounts\<rparr>) s"
  have ok1: "structure_ok dir ?s1"
    using structure_okD(1)[OF ok a] ok by (intro structure_put_account account_ok_update[where a = account]) simp_all
  show ?thesis
    using a am structure_put_charge[OF ok1, of "\<lparr>bch_operation_id = op, bch_agent_id = a, bch_amounts = amounts,
               bch_mode = mode, bch_usage_quality = q, bch_charged_seq = n\<rparr>" op]
    by (simp add: s' charge_ok_def)
qed

lemma structure_usage_reserved:
  assumes ok: "structure_ok dir s" and am: "amounts_ok amounts" and "apply_usage_reserved rs a amounts n s = Inr s'"
  shows "structure_ok dir s'"
  using assms(3)
proof (rule usage_reservedE)
  fix account
  assume a: "map_of (lg_accounts s) a = Some account"
    and s': "s' = put_account a (account\<lparr>bac_reserved := add_amounts (bac_reserved account) amounts\<rparr>)
            (put_usage rs (new_usage rs a amounts n) s)"
  have "dict_has a (lg_accounts s)" using a by (simp add: dict_has_def)
  then have "structure_ok dir (put_usage rs (new_usage rs a amounts n) s)"
    using ok am by (intro structure_put_usage) (simp_all add: usage_ok_def)
  then show ?thesis
    unfolding s' using structure_okD(1)[OF ok a]
    by (intro structure_put_account account_ok_update[where a = account]) simp_all
qed

lemma structure_started:
  assumes ok: "structure_ok dir s" and "apply_usage_started rs n s = Inr s'"
  shows "structure_ok dir s'"
  using assms(2)
proof (rule usage_startedE)
  fix u assume "map_of (lg_usage s) rs = Some u"
    and s': "s' = put_usage rs (u\<lparr>ur_status := Usage_Started, ur_started_seq := Some n\<rparr>) s"
  then have "usage_ok (lg_accounts s) u" using structure_okD(3)[OF ok] by blast
  then show ?thesis unfolding s' using ok by (intro structure_put_usage) (simp_all add: usage_ok_def)
qed

lemma structure_ended:
  assumes ok: "structure_ok dir s" and "apply_usage_ended rs settled n s = Inr s'"
  shows "structure_ok dir s'"
  using assms(2)
proof (rule usage_endedE)
  fix u account reserved
  assume u: "map_of (lg_usage s) rs = Some u" and a: "map_of (lg_accounts s) (ur_agent_id u) = Some account"
    and s': "s' = put_usage rs (end_usage u settled n) (put_account (bac_agent_id account)
            (account\<lparr>bac_reserved := reserved,
                     bac_charged := (case settled of None \<Rightarrow> bac_charged account
                                     | Some (amounts, _) \<Rightarrow> add_amounts (bac_charged account) amounts)\<rparr>) s)"
  have uok: "usage_ok (lg_accounts s) u" using structure_okD(3)[OF ok u] .
  have aok: "account_ok (lg_accounts s) (bac_agent_id account) account"
    using structure_okD(1)[OF ok a] by (simp add: account_ok_def)
  show ?thesis
    unfolding s' using ok uok
    by (intro structure_put_usage structure_put_account account_ok_update[OF aok]) (simp_all add: usage_ok_def)
qed

lemma structure_closed:
  assumes ok: "structure_ok dir s" and "apply_account_closed a n s = Inr s'"
  shows "structure_ok dir s'"
  using assms(2)
proof (rule account_closedE)
  fix account
  assume a: "map_of (lg_accounts s) a = Some account"
    and s': "s' = put_account a (account\<lparr>bac_status := Account_Closed, bac_closed_seq := Some n\<rparr>) s"
  show ?thesis
    unfolding s' using structure_okD(1)[OF ok a] ok
    by (intro structure_put_account account_ok_update[where a = account]) simp_all
qed

lemma structure_step:
  "structure_ok dir s \<Longrightarrow> fact_ok f \<Longrightarrow> apply_fact dir f s = Inr s' \<Longrightarrow> structure_ok dir s'"
  by (cases f) (auto intro: structure_root structure_child_reserved structure_committed structure_released
      structure_decision structure_charged structure_usage_reserved structure_started structure_ended structure_closed)

end
