(* ===== verification/Budget_Balance.thy ===== *)
theory Budget_Balance imports Budget_Steps begin

text \<open>
  The balances of the ledger: every account's delegated, reserved and charged amounts, and its
  count of children, are the sums over the facts that name it. Each step keeps this.
\<close>

definition amount_dims :: "(budget_amounts \<Rightarrow> int) set" where
  "amount_dims = {ba_tokens, ba_steps, ba_tool_calls, ba_wall_milliseconds}"

lemma dim_simps:
  assumes "f \<in> amount_dims"
  shows "f (add_amounts a b) = f a + f b" "f no_amounts = 0"
  using assms by (auto simp: amount_dims_def add_amounts_def no_amounts_def)

lemma dim_nonneg: "amounts_ok a \<Longrightarrow> f \<in> amount_dims \<Longrightarrow> 0 \<le> f a"
  using amounts_nonneg[of a] by (auto simp: amount_dims_def)

section \<open>What the facts say of an account\<close>

definition brs_granted :: "budget_reservation \<Rightarrow> budget_limits" where
  "brs_granted r = (case initial_token_limits (brs_child_limits r) (brs_initial_tokens r) of
     Inr g \<Rightarrow> g | Inl _ \<Rightarrow> brs_child_limits r)"

definition held :: "budget_reservation \<Rightarrow> budget_amounts" where
  "held r = limits_amounts (brs_granted r)"

definition debit_hold :: "pystr \<Rightarrow> (budget_amounts \<Rightarrow> int) \<Rightarrow> budget_reservation \<Rightarrow> int" where
  "debit_hold k f r = (if brs_parent_agent_id r = k \<and> brs_status r \<noteq> Reservation_Released then f (held r) else 0)"

definition child_hold :: "pystr \<Rightarrow> budget_reservation \<Rightarrow> int" where
  "child_hold k r = (if brs_parent_agent_id r = k \<and> brs_status r \<noteq> Reservation_Released then 1 else 0)"

definition decision_amounts :: "child_token_decision \<Rightarrow> budget_amounts" where
  "decision_amounts t = no_amounts\<lparr>ba_tokens := ctd_tokens t\<rparr>"

definition decision_hold :: "pystr \<Rightarrow> (budget_amounts \<Rightarrow> int) \<Rightarrow> child_token_decision \<Rightarrow> int" where
  "decision_hold k f t = (if ctd_parent_agent_id t = k then f (decision_amounts t) else 0)"

definition usage_hold :: "pystr \<Rightarrow> (budget_amounts \<Rightarrow> int) \<Rightarrow> usage_reservation \<Rightarrow> int" where
  "usage_hold k f u =
     (if ur_agent_id u = k \<and> ur_status u \<in> {Usage_Pending, Usage_Started} then f (ur_amounts u) else 0)"

definition settled_hold :: "pystr \<Rightarrow> (budget_amounts \<Rightarrow> int) \<Rightarrow> usage_reservation \<Rightarrow> int" where
  "settled_hold k f u = (if ur_agent_id u = k \<and> ur_status u = Usage_Settled
     then (case ur_settled_amounts u of None \<Rightarrow> 0 | Some a \<Rightarrow> f a) else 0)"

definition charge_hold :: "pystr \<Rightarrow> (budget_amounts \<Rightarrow> int) \<Rightarrow> budget_charge \<Rightarrow> int" where
  "charge_hold k f c = (if bch_agent_id c = k then f (bch_amounts c) else 0)"

definition ledger_delegated :: "ledger \<Rightarrow> pystr \<Rightarrow> (budget_amounts \<Rightarrow> int) \<Rightarrow> int" where
  "ledger_delegated s k f =
     dict_sum (debit_hold k f) (lg_reservations s) + dict_sum (decision_hold k f) (lg_token_decisions s)"

definition ledger_reserved :: "ledger \<Rightarrow> pystr \<Rightarrow> (budget_amounts \<Rightarrow> int) \<Rightarrow> int" where
  "ledger_reserved s k f = dict_sum (usage_hold k f) (lg_usage s)"

definition ledger_charged :: "ledger \<Rightarrow> pystr \<Rightarrow> (budget_amounts \<Rightarrow> int) \<Rightarrow> int" where
  "ledger_charged s k f = dict_sum (charge_hold k f) (lg_charges s) + dict_sum (settled_hold k f) (lg_usage s)"

definition ledger_children :: "ledger \<Rightarrow> pystr \<Rightarrow> int" where
  "ledger_children s k = dict_sum (child_hold k) (lg_reservations s)"

definition account_balanced :: "ledger \<Rightarrow> pystr \<Rightarrow> budget_account \<Rightarrow> bool" where
  "account_balanced s k a \<longleftrightarrow>
     (\<forall>f \<in> amount_dims. f (bac_delegated a) = ledger_delegated s k f \<and>
        f (bac_reserved a) = ledger_reserved s k f \<and> f (bac_charged a) = ledger_charged s k f) \<and>
     bac_reserved_children a = ledger_children s k"

definition balanced :: "ledger \<Rightarrow> bool" where
  "balanced s \<longleftrightarrow> (\<forall>k a. map_of (lg_accounts s) k = Some a \<longrightarrow> account_balanced s k a)"

lemma sums_unclaimed:
  assumes "structure_ok dir s" "map_of (lg_accounts s) k = None"
  shows "ledger_delegated s k f = 0" "ledger_reserved s k f = 0" "ledger_charged s k f = 0" "ledger_children s k = 0"
proof -
  have no: "\<not> dict_has k (lg_accounts s)" using assms(2) by (simp add: dict_has_def)
  have r: "brs_parent_agent_id r \<noteq> k" if "r \<in> set (dict_values (lg_reservations s))" for r
    using assms(1) that no by (auto simp: structure_ok_def reservation_ok_def)
  have u: "ur_agent_id u \<noteq> k" if "u \<in> set (dict_values (lg_usage s))" for u
    using assms(1) that no by (auto simp: structure_ok_def usage_ok_def)
  have t: "ctd_parent_agent_id t \<noteq> k" if "t \<in> set (dict_values (lg_token_decisions s))" for t
    using assms(1) that no by (auto simp: structure_ok_def decision_ok_def)
  have c: "bch_agent_id c \<noteq> k" if "c \<in> set (dict_values (lg_charges s))" for c
    using assms(1) that no by (auto simp: structure_ok_def charge_ok_def)
  have "dict_sum (debit_hold k f) (lg_reservations s) = 0" "dict_sum (child_hold k) (lg_reservations s) = 0"
    using r by (auto intro!: dict_sum_zero simp: debit_hold_def child_hold_def)
  moreover have "dict_sum (usage_hold k f) (lg_usage s) = 0" "dict_sum (settled_hold k f) (lg_usage s) = 0"
    using u by (auto intro!: dict_sum_zero simp: usage_hold_def settled_hold_def)
  moreover have "dict_sum (decision_hold k f) (lg_token_decisions s) = 0"
    using t by (auto intro!: dict_sum_zero simp: decision_hold_def)
  moreover have "dict_sum (charge_hold k f) (lg_charges s) = 0"
    using c by (auto intro!: dict_sum_zero simp: charge_hold_def)
  ultimately show "ledger_delegated s k f = 0" "ledger_reserved s k f = 0" "ledger_charged s k f = 0" "ledger_children s k = 0"
    by (simp_all add: ledger_delegated_def ledger_reserved_def ledger_charged_def ledger_children_def)
qed

lemma balanced_step:
  assumes "balanced s" and "lg_accounts s' = dict_set k b (lg_accounts s)" and "account_balanced s' k b"
    and "\<And>i. i \<noteq> k \<Longrightarrow> dict_has i (lg_accounts s) \<Longrightarrow> (\<forall>f \<in> amount_dims. ledger_delegated s' i f = ledger_delegated s i f \<and>
        ledger_reserved s' i f = ledger_reserved s i f \<and> ledger_charged s' i f = ledger_charged s i f) \<and>
        ledger_children s' i = ledger_children s i"
  shows "balanced s'"
  unfolding balanced_def
proof (intro allI impI)
  fix i a assume a: "map_of (lg_accounts s') i = Some a"
  show "account_balanced s' i a"
  proof (cases "i = k")
    case True
    with a assms(2,3) show ?thesis by simp
  next
    case False
    with a assms(2) have old: "map_of (lg_accounts s) i = Some a" by simp
    then have "dict_has i (lg_accounts s)" by (simp add: dict_has_def)
    from assms(4)[OF False this] old assms(1) show ?thesis
      by (simp add: balanced_def account_balanced_def)
  qed
qed

lemma sums_put_account [simp]:
  "ledger_delegated (put_account k a s) = ledger_delegated s" "ledger_reserved (put_account k a s) = ledger_reserved s"
  "ledger_charged (put_account k a s) = ledger_charged s" "ledger_children (put_account k a s) = ledger_children s"
  by (simp_all add: fun_eq_iff ledger_delegated_def ledger_reserved_def ledger_charged_def ledger_children_def)

definition replaced :: "('v \<Rightarrow> int) \<Rightarrow> ('k, 'v) dict \<Rightarrow> 'k \<Rightarrow> int" where
  \<comment> \<open>what the entry under a key contributed before it is set\<close>
  "replaced h d k = (case map_of d k of None \<Rightarrow> 0 | Some v \<Rightarrow> h v)"

lemma replaced_simps [simp]:
  "map_of d k = None \<Longrightarrow> replaced h d k = 0" "map_of d k = Some v \<Longrightarrow> replaced h d k = h v"
  by (simp_all add: replaced_def)

lemma sums_put_reservation [simp]:
  "ledger_delegated (put_reservation rs r s) k f = ledger_delegated s k f - replaced (debit_hold k f) (lg_reservations s) rs + debit_hold k f r"
  "ledger_reserved (put_reservation rs r s) k f = ledger_reserved s k f"
  "ledger_charged (put_reservation rs r s) k f = ledger_charged s k f"
  "ledger_children (put_reservation rs r s) k = ledger_children s k - replaced (child_hold k) (lg_reservations s) rs + child_hold k r"
  by (simp_all add: ledger_delegated_def ledger_reserved_def ledger_charged_def ledger_children_def
      dict_sum_set replaced_def)

lemma sums_put_usage [simp]:
  "ledger_delegated (put_usage rs u s) k f = ledger_delegated s k f"
  "ledger_reserved (put_usage rs u s) k f = ledger_reserved s k f - replaced (usage_hold k f) (lg_usage s) rs + usage_hold k f u"
  "ledger_charged (put_usage rs u s) k f = ledger_charged s k f - replaced (settled_hold k f) (lg_usage s) rs + settled_hold k f u"
  "ledger_children (put_usage rs u s) k = ledger_children s k"
  by (simp_all add: ledger_delegated_def ledger_reserved_def ledger_charged_def ledger_children_def
      dict_sum_set replaced_def)

lemma sums_put_charge [simp]:
  "ledger_delegated (put_charge op c s) k f = ledger_delegated s k f"
  "ledger_reserved (put_charge op c s) k f = ledger_reserved s k f"
  "ledger_charged (put_charge op c s) k f = ledger_charged s k f - replaced (charge_hold k f) (lg_charges s) op + charge_hold k f c"
  "ledger_children (put_charge op c s) k = ledger_children s k"
  by (simp_all add: ledger_delegated_def ledger_reserved_def ledger_charged_def ledger_children_def
      dict_sum_set replaced_def)

lemma sums_put_decision [simp]:
  "ledger_delegated (put_decision rq t s) k f = ledger_delegated s k f - replaced (decision_hold k f) (lg_token_decisions s) rq + decision_hold k f t"
  "ledger_reserved (put_decision rq t s) k f = ledger_reserved s k f"
  "ledger_charged (put_decision rq t s) k f = ledger_charged s k f"
  "ledger_children (put_decision rq t s) k = ledger_children s k"
  by (simp_all add: ledger_delegated_def ledger_reserved_def ledger_charged_def ledger_children_def
      dict_sum_set replaced_def)

section \<open>Balance is kept\<close>

lemma balanced_root:
  assumes "structure_ok dir s" "balanced s" "apply_root_granted dir a l n s = Inr s'"
  shows "balanced s'"
  using assms(3)
proof (rule root_grantedE)
  assume k: "map_of (lg_accounts s) a = None" and s': "s' = put_account a (new_account a None l n) s"
  show ?thesis
    by (rule balanced_step[OF assms(2), of s' a "new_account a None l n"])
      (auto simp: s' account_balanced_def dim_simps sums_unclaimed[OF assms(1) k])
qed

lemma granted_held:
  "initial_token_limits (brs_child_limits r) (brs_initial_tokens r) = Inr g \<Longrightarrow> held r = limits_amounts g"
  by (simp add: held_def brs_granted_def)

lemma balanced_charged:
  assumes "balanced s" and new: "map_of (lg_charges s) op = None"
    and "apply_usage_charged op a amounts mode q n s = Inr s'"
  shows "balanced s'"
  using assms(3)
proof (rule usage_chargedE)
  fix account :: budget_account
  let ?c = "\<lparr>bch_operation_id = op, bch_agent_id = a, bch_amounts = amounts,
               bch_mode = mode, bch_usage_quality = q, bch_charged_seq = n\<rparr>"
  let ?a = "account\<lparr>bac_charged := add_amounts (bac_charged account) amounts\<rparr>"
  assume a: "map_of (lg_accounts s) a = Some account"
    and s': "s' = put_charge op ?c (put_account a ?a s)"
  have bal: "account_balanced s a account" using assms(1) a by (simp add: balanced_def)
  show ?thesis
    by (rule balanced_step[OF assms(1), of s' a ?a])
      (use bal in \<open>auto simp: s' new account_balanced_def dim_simps charge_hold_def\<close>)
qed

lemma balanced_usage_reserved:
  assumes "balanced s" and "apply_usage_reserved rs a amounts n s = Inr s'"
  shows "balanced s'"
  using assms(2)
proof (rule usage_reservedE)
  fix account :: budget_account
  let ?a = "account\<lparr>bac_reserved := add_amounts (bac_reserved account) amounts\<rparr>"
  assume a: "map_of (lg_accounts s) a = Some account" and new: "map_of (lg_usage s) rs = None"
    and s': "s' = put_account a ?a (put_usage rs (new_usage rs a amounts n) s)"
  have bal: "account_balanced s a account" using assms(1) a by (simp add: balanced_def)
  show ?thesis
    by (rule balanced_step[OF assms(1), of s' a ?a])
      (use bal in \<open>auto simp: s' new account_balanced_def dim_simps usage_hold_def settled_hold_def\<close>)
qed

lemma balanced_same_accounts:
  assumes "balanced s" "lg_accounts s' = lg_accounts s"
    and "\<And>k f. ledger_delegated s' k f = ledger_delegated s k f" "\<And>k f. ledger_reserved s' k f = ledger_reserved s k f"
    "\<And>k f. ledger_charged s' k f = ledger_charged s k f" "\<And>k. ledger_children s' k = ledger_children s k"
  shows "balanced s'"
  using assms by (simp add: balanced_def account_balanced_def)

lemma balanced_started:
  assumes "balanced s" and "apply_usage_started rs n s = Inr s'"
  shows "balanced s'"
  using assms(2)
proof (rule usage_startedE)
  fix u assume u: "map_of (lg_usage s) rs = Some u" and st: "ur_status u = Usage_Pending"
    and s': "s' = put_usage rs (u\<lparr>ur_status := Usage_Started, ur_started_seq := Some n\<rparr>) s"
  show ?thesis
    by (rule balanced_same_accounts[OF assms(1)])
      (simp_all add: s' u usage_hold_def settled_hold_def st)
qed

lemma balanced_ended:
  assumes ok: "structure_ok dir s" and "balanced s" and "apply_usage_ended rs settled n s = Inr s'"
  shows "balanced s'"
  using assms(3)
proof (rule usage_endedE)
  fix u :: usage_reservation and account :: budget_account and reserved
  assume u: "map_of (lg_usage s) rs = Some u" and st: "ur_status u = (if settled \<noteq> None then Usage_Started else Usage_Pending)"
    and a: "map_of (lg_accounts s) (ur_agent_id u) = Some account"
    and rsv: "bac_reserved account = add_amounts reserved (ur_amounts u)"
    and s'0: "s' = put_usage rs (end_usage u settled n) (put_account (bac_agent_id account)
            (account\<lparr>bac_reserved := reserved,
                     bac_charged := (case settled of None \<Rightarrow> bac_charged account
                                     | Some (amounts, _) \<Rightarrow> add_amounts (bac_charged account) amounts)\<rparr>) s)"
  let ?k = "ur_agent_id u"
  let ?a = "account\<lparr>bac_reserved := reserved,
                     bac_charged := (case settled of None \<Rightarrow> bac_charged account
                                     | Some (amounts, _) \<Rightarrow> add_amounts (bac_charged account) amounts)\<rparr>"
  have s': "s' = put_usage rs (end_usage u settled n) (put_account ?k ?a s)"
    using s'0 structure_okD(1)[OF ok a] by (simp add: account_ok_def)
  have bal: "account_balanced s ?k account" using assms(2) a by (simp add: balanced_def)
  have "f reserved = f (bac_reserved account) - f (ur_amounts u)" if "f \<in> amount_dims" for f
    using that by (simp add: rsv dim_simps)
  then have ab: "account_balanced s' ?k ?a"
    using bal st by (cases settled)
      (auto simp: s' u account_balanced_def dim_simps usage_hold_def settled_hold_def)
  show ?thesis
    by (rule balanced_step[OF assms(2) _ ab]) (auto simp: s' u usage_hold_def settled_hold_def)
qed

lemma balanced_closed:
  assumes "balanced s" and "apply_account_closed a n s = Inr s'"
  shows "balanced s'"
  using assms(2)
proof (rule account_closedE)
  fix account :: budget_account
  assume a: "map_of (lg_accounts s) a = Some account"
    and s': "s' = put_account a (account\<lparr>bac_status := Account_Closed, bac_closed_seq := Some n\<rparr>) s"
  have bal: "account_balanced s a account" using assms(1) a by (simp add: balanced_def)
  show ?thesis
    by (rule balanced_step[OF assms(1), of s' a]) (use bal in \<open>auto simp: s' account_balanced_def\<close>)
qed

lemma balanced_cong:
  "lg_accounts s' = lg_accounts s \<Longrightarrow> lg_reservations s' = lg_reservations s \<Longrightarrow> lg_usage s' = lg_usage s \<Longrightarrow>
   lg_charges s' = lg_charges s \<Longrightarrow> lg_token_decisions s' = lg_token_decisions s \<Longrightarrow> balanced s' = balanced s"
  by (simp add: balanced_def account_balanced_def ledger_delegated_def ledger_reserved_def ledger_charged_def
      ledger_children_def)

lemma held_new_reservation:
  "initial_token_limits (crf_child_limits f) (crf_initial_tokens f) = Inr g \<Longrightarrow>
     held (new_reservation f x) = limits_amounts g"
  by (simp add: granted_held)

lemma balanced_child_reserved:
  assumes ok: "structure_ok dir s" and bal: "balanced s" and "apply_child_reserved dir f s = Inr s'"
  shows "balanced s'"
  using assms(3)
proof (rule child_reservedE)
  fix parent :: budget_account and granted and durable
  assume p: "map_of (lg_accounts s) (crf_parent_agent_id f) = Some parent"
    and c: "reservation_conflict f s = None"
    and g: "initial_token_limits (crf_child_limits f) (crf_initial_tokens f) = Inr granted"
    and s': "s' = reserved_state f parent granted durable s"
  let ?pk = "crf_parent_agent_id f" and ?ck = "crf_child_agent_id f" and ?r = "new_reservation f durable"
  let ?p = "reserve_debit parent \<lparr>rd_amounts = limits_amounts granted, rd_children = 1\<rparr>"
  let ?c = "new_account ?ck (Some ?pk) granted (crf_seq f)"
  let ?t = "put_reservation (crf_reservation_id f) ?r (put_account ?pk ?p s)"
  note cf = conflict_none[OF c]
  have new: "map_of (lg_reservations s) (crf_reservation_id f) = None" and ne: "?ck \<noteq> ?pk"
    and ck: "map_of (lg_accounts s) ?ck = None" using cf by blast+
  have hold: "debit_hold k h ?r = (if k = ?pk then h (limits_amounts granted) else 0)"
    "child_hold k ?r = (if k = ?pk then 1 else 0)" for k h
    by (auto simp: debit_hold_def child_hold_def held_new_reservation[OF g])
  have pb: "account_balanced s ?pk parent" using bal p by (simp add: balanced_def)
  have t: "balanced ?t"
    by (rule balanced_step[OF bal, of ?t ?pk ?p])
      (use pb in \<open>auto simp: account_balanced_def dim_simps new hold\<close>)
  show ?thesis
  proof (cases durable)
    case None
    have "balanced s' = balanced ?t" by (rule balanced_cong) (simp_all add: s' None reserved_accounts_def Let_def)
    with t show ?thesis by simp
  next
    case (Some x)
    have "balanced (put_account ?ck ?c ?t)"
      by (rule balanced_step[OF t, of _ ?ck ?c])
        (use ne in \<open>auto simp: account_balanced_def dim_simps new hold sums_unclaimed[OF ok ck]\<close>)
    moreover have "balanced s' = balanced (put_account ?ck ?c ?t)"
      by (rule balanced_cong) (simp_all add: s' Some reserved_accounts_def Let_def)
    ultimately show ?thesis by simp
  qed
qed

lemma committed_unchanged:
  assumes ok: "structure_ok dir s" and "apply_reservation_committed dir rs n s = Inr s'"
  obtains r r' where "map_of (lg_reservations s) rs = Some r" "s' = put_reservation rs r' s"
    "brs_status r = Reservation_Committed" "brs_status r' = Reservation_Committed"
    "brs_parent_agent_id r' = brs_parent_agent_id r" "held r' = held r"
  using assms(2)
proof (rule reservation_committedE)
  fix r child s1
  assume r: "map_of (lg_reservations s) rs = Some r" and st: "brs_status r \<noteq> Reservation_Released"
    and d: "directory_child dir (brs_parent_agent_id r) (brs_child_agent_id r) (brs_creation_request_id r) n = Inr (Some child)"
    and s1: "s1 = put_reservation rs (r\<lparr>brs_status := Reservation_Committed, brs_terminal_seq := Some n,
            brs_identity_seq := Some (rec_created_seq child)\<rparr>) s"
    and s': "(dict_has (brs_child_agent_id r) (lg_accounts s) \<and> s' = s1) \<or>
     (\<exists>granted. \<not> dict_has (brs_child_agent_id r) (lg_accounts s) \<and>
        initial_token_limits (brs_child_limits r) (brs_initial_tokens r) = Inr granted \<and>
        s' = put_account (brs_child_agent_id r)
               (new_account (brs_child_agent_id r) (Some (brs_parent_agent_id r)) granted (brs_reserved_seq r)) s1)"
  have rok: "reservation_ok dir (lg_accounts s) r" using structure_okD(2)[OF ok r] .
  have com: "brs_status r = Reservation_Committed"
    using rok st directory_child_get[OF d] by (cases "brs_status r") (auto simp: reservation_ok_def)
  then have "dict_has (brs_child_agent_id r) (lg_accounts s)" using rok by (simp add: reservation_ok_def)
  with s' have "s' = s1" by blast
  with r com show thesis
    by (intro that[OF r, of "r\<lparr>brs_status := Reservation_Committed, brs_terminal_seq := Some n,
          brs_identity_seq := Some (rec_created_seq child)\<rparr>"])
      (simp_all add: s1 held_def brs_granted_def split: sum.split)
qed

lemma balanced_committed:
  assumes ok: "structure_ok dir s" and bal: "balanced s" and "apply_reservation_committed dir rs n s = Inr s'"
  shows "balanced s'"
  using ok assms(3)
proof (rule committed_unchanged)
  fix r r'
  assume "map_of (lg_reservations s) rs = Some r" "s' = put_reservation rs r' s"
    "brs_status r = Reservation_Committed" "brs_status r' = Reservation_Committed"
    "brs_parent_agent_id r' = brs_parent_agent_id r" "held r' = held r"
  then show ?thesis
    by (intro balanced_same_accounts[OF bal]) (simp_all add: debit_hold_def child_hold_def)
qed

lemma balanced_released:
  assumes ok: "structure_ok dir s" and bal: "balanced s" and "apply_reservation_released dir rs n s = Inr s'"
  shows "balanced s'"
  using assms(3)
proof (rule reservation_releasedE)
  fix r and parent :: budget_account and granted delegated
  assume r: "map_of (lg_reservations s) rs = Some r" and st: "brs_status r = Reservation_Pending"
    and p: "map_of (lg_accounts s) (brs_parent_agent_id r) = Some parent"
    and g: "initial_token_limits (brs_child_limits r) (brs_initial_tokens r) = Inr granted"
    and dl: "bac_delegated parent = add_amounts delegated (limits_amounts granted)"
    and s'0: "s' = put_reservation rs (r\<lparr>brs_status := Reservation_Released, brs_terminal_seq := Some n\<rparr>)
            (put_account (bac_agent_id parent)
               (parent\<lparr>bac_delegated := delegated, bac_reserved_children := bac_reserved_children parent - 1\<rparr>) s)"
  let ?k = "brs_parent_agent_id r"
  let ?p = "parent\<lparr>bac_delegated := delegated, bac_reserved_children := bac_reserved_children parent - 1\<rparr>"
  have s': "s' = put_reservation rs (r\<lparr>brs_status := Reservation_Released, brs_terminal_seq := Some n\<rparr>) (put_account ?k ?p s)"
    using s'0 structure_okD(1)[OF ok p] by (simp add: account_ok_def)
  have hold: "debit_hold k h r = (if k = ?k then h (limits_amounts granted) else 0)"
    "child_hold k r = (if k = ?k then 1 else 0)" for k h
    by (auto simp: debit_hold_def child_hold_def granted_held[OF g] st)
  have gone: "debit_hold k h (r\<lparr>brs_status := Reservation_Released, brs_terminal_seq := Some n\<rparr>) = 0"
    "child_hold k (r\<lparr>brs_status := Reservation_Released, brs_terminal_seq := Some n\<rparr>) = 0" for k h
    by (simp_all add: debit_hold_def child_hold_def)
  have d: "f delegated = f (bac_delegated parent) - f (limits_amounts granted)" if "f \<in> amount_dims" for f
    using that by (simp add: dl dim_simps)
  have pb: "account_balanced s ?k parent" using bal p by (simp add: balanced_def)
  show ?thesis
    by (rule balanced_step[OF bal, of s' ?k ?p])
      (use pb d in \<open>auto simp: s' account_balanced_def r hold gone\<close>)
qed

lemma balanced_decision:
  assumes ok: "structure_ok dir s" and bal: "balanced s" and "apply_token_decision f s = Inr s'"
  shows "balanced s'"
  using assms(3)
proof (rule token_decisionE)
  fix parent child :: budget_account and current
  assume new: "\<not> dict_has (ctd_request_id f) (lg_token_decisions s)"
    and p: "map_of (lg_accounts s) (ctd_parent_agent_id f) = Some parent"
    and c: "map_of (lg_accounts s) (ctd_child_agent_id f) = Some child"
    and pc: "bac_parent_agent_id child = Some (ctd_parent_agent_id f)"
    and s'0: "s' = put_decision (ctd_request_id f) f (put_account (bac_agent_id child)
             (child\<lparr>bac_limits := (bac_limits child)\<lparr>bl_max_tokens := Some (current + ctd_tokens f)\<rparr>\<rparr>)
             (put_account (bac_agent_id parent)
                (parent\<lparr>bac_delegated := add_amounts (bac_delegated parent) (no_amounts\<lparr>ba_tokens := ctd_tokens f\<rparr>)\<rparr>) s))"
  let ?pk = "ctd_parent_agent_id f" and ?ck = "ctd_child_agent_id f"
  let ?p = "parent\<lparr>bac_delegated := add_amounts (bac_delegated parent) (no_amounts\<lparr>ba_tokens := ctd_tokens f\<rparr>)\<rparr>"
  let ?c = "child\<lparr>bac_limits := (bac_limits child)\<lparr>bl_max_tokens := Some (current + ctd_tokens f)\<rparr>\<rparr>"
  have pk: "bac_agent_id parent = ?pk" and ck: "bac_agent_id child = ?ck" and ne: "?ck \<noteq> ?pk"
    using structure_okD(1)[OF ok p] structure_okD(1)[OF ok c] pc by (auto simp: account_ok_def)
  have new': "map_of (lg_token_decisions s) (ctd_request_id f) = None" using new by (simp add: dict_has_def)
  have hold: "decision_hold k h f = (if k = ?pk then h (no_amounts\<lparr>ba_tokens := ctd_tokens f\<rparr>) else 0)" for k h
    by (auto simp: decision_hold_def decision_amounts_def)
  let ?t = "put_decision (ctd_request_id f) f (put_account ?pk ?p s)"
  have pb: "account_balanced s ?pk parent" and cb: "account_balanced s ?ck child"
    using bal p c by (simp_all add: balanced_def)
  have t: "balanced ?t"
    by (rule balanced_step[OF bal, of ?t ?pk ?p])
      (use pb in \<open>auto simp: account_balanced_def dim_simps new' hold\<close>)
  have "balanced (put_account ?ck ?c ?t)"
    by (rule balanced_step[OF t, of _ ?ck ?c])
      (use cb ne in \<open>auto simp: account_balanced_def new' hold\<close>)
  moreover have "balanced s' = balanced (put_account ?ck ?c ?t)"
    by (rule balanced_cong) (simp_all add: s'0 pk ck)
  ultimately show ?thesis by simp
qed

lemma balanced_step_fact:
  assumes "structure_ok dir s" "balanced s" "map_of (lg_charges s) (fact_operation_id f) = None"
    and "apply_fact dir f s = Inr s'"
  shows "balanced s'"
  using assms
  by (cases f) (auto intro: balanced_root balanced_child_reserved balanced_committed balanced_released
      balanced_decision balanced_charged balanced_usage_reserved balanced_started balanced_ended balanced_closed)

end
