(* ===== verification/Budget_Limits.thy ===== *)
theory Budget_Limits imports Budget_Balance begin

text \<open>
  No account uses more than its limits, beyond what was observed after the fact: an invariant
  of every step of the ledger.
\<close>

definition limit_dims :: "((budget_limits \<Rightarrow> int option) \<times> (budget_amounts \<Rightarrow> int)) set" where
  "limit_dims = {(bl_max_tokens, ba_tokens), (bl_max_steps, ba_steps), (bl_max_tool_calls, ba_tool_calls),
     (bl_max_wall_milliseconds, ba_wall_milliseconds)}"

definition observed_hold :: "pystr \<Rightarrow> (budget_amounts \<Rightarrow> int) \<Rightarrow> budget_charge \<Rightarrow> int" where
  "observed_hold k f c = (if bch_agent_id c = k \<and> bch_mode c = OBSERVATION then f (bch_amounts c) else 0)"

definition ledger_observed :: "ledger \<Rightarrow> pystr \<Rightarrow> (budget_amounts \<Rightarrow> int) \<Rightarrow> int" where
  "ledger_observed s k f = dict_sum (observed_hold k f) (lg_charges s)"

definition account_within :: "ledger \<Rightarrow> pystr \<Rightarrow> budget_account \<Rightarrow> bool" where
  "account_within s k a \<longleftrightarrow>
     (\<forall>(lf, f) \<in> limit_dims. \<forall>limit. lf (bac_limits a) = Some limit \<longrightarrow>
        f (account_used a) \<le> limit + ledger_observed s k f) \<and>
     (\<forall>limit. bl_max_children (bac_limits a) = Some limit \<longrightarrow> bac_reserved_children a \<le> limit)"

definition within_limits :: "ledger \<Rightarrow> bool" where
  "within_limits s \<longleftrightarrow> (\<forall>k a. map_of (lg_accounts s) k = Some a \<longrightarrow> account_within s k a)"

lemma limit_dim_amount: "(lf, f) \<in> limit_dims \<Longrightarrow> f \<in> amount_dims"
  by (auto simp: limit_dims_def amount_dims_def)

lemma account_used_dim:
  "f \<in> amount_dims \<Longrightarrow> f (account_used a) = f (bac_charged a) + f (bac_delegated a) + f (bac_reserved a)"
  by (simp add: account_used_def dim_simps)

lemma ensure_capacity_Inr:
  "ensure_capacity a debit n c = Inr () \<longleftrightarrow>
     (\<forall>(lf, f) \<in> limit_dims. \<forall>limit. lf (bac_limits a) = Some limit \<longrightarrow> f (account_used a) + f debit \<le> limit) \<and>
     (\<forall>limit. bl_max_children (bac_limits a) = Some limit \<longrightarrow> bac_reserved_children a + c \<le> limit)"
proof -
  have "\<not> list_ex (over_limit a debit) consumable_dimensions \<longleftrightarrow>
      (\<forall>(lf, f) \<in> limit_dims. \<forall>limit. lf (bac_limits a) = Some limit \<longrightarrow> f (account_used a) + f debit \<le> limit)"
    by (auto simp: consumable_dimensions_def over_limit_def limit_dims_def split: option.splits)
  moreover have "\<not> over_children a c \<longleftrightarrow>
      (\<forall>limit. bl_max_children (bac_limits a) = Some limit \<longrightarrow> bac_reserved_children a + c \<le> limit)"
    by (auto simp: over_children_def split: option.splits)
  ultimately show ?thesis by (simp add: ensure_capacity_def rbind_eq_Inr raise_if_eq_Inr)
qed

lemma observed_nonneg: "structure_ok dir s \<Longrightarrow> f \<in> amount_dims \<Longrightarrow> 0 \<le> ledger_observed s k f"
  unfolding ledger_observed_def structure_ok_def
  by (rule dict_sum_nonneg) (auto simp: observed_hold_def charge_ok_def dim_nonneg)

lemma observed_same:
  "lg_charges s' = lg_charges s \<Longrightarrow> ledger_observed s' = ledger_observed s"
  by (simp add: ledger_observed_def fun_eq_iff)

lemma account_within_obs:
  "ledger_observed s' = ledger_observed s \<Longrightarrow> account_within s' k a = account_within s k a"
  by (simp add: account_within_def)

lemma within_step:
  assumes "within_limits s" and "lg_accounts s' = dict_set k b (lg_accounts s)" and "account_within s' k b"
    and "lg_charges s' = lg_charges s"
  shows "within_limits s'"
  unfolding within_limits_def
proof (intro allI impI)
  fix i a assume "map_of (lg_accounts s') i = Some a"
  then show "account_within s' i a"
    using assms by (cases "i = k") (simp_all add: within_limits_def account_within_def observed_same[OF assms(4)])
qed

lemma within_same_accounts:
  "within_limits s \<Longrightarrow> lg_accounts s' = lg_accounts s \<Longrightarrow> lg_charges s' = lg_charges s \<Longrightarrow> within_limits s'"
  using observed_same[of s' s] by (simp add: within_limits_def account_within_def)

lemma within_new:
  assumes "structure_ok dir s" "limits_nonneg l"
  shows "account_within s k (new_account a p l n)"
proof -
  have "0 \<le> limit" if "(lf, f) \<in> limit_dims" "lf l = Some limit" for lf f limit
    using assms(2) that by (auto simp: limits_nonneg_def limit_values_def limit_dims_def)
  moreover have "0 \<le> limit" if "bl_max_children l = Some limit" for limit
    using assms(2) that by (auto simp: limits_nonneg_def limit_values_def)
  moreover have "f (account_used (new_account a p l n)) = 0 \<and> 0 \<le> ledger_observed s k f"
    if "(lf, f) \<in> limit_dims" for lf f
    using observed_nonneg[OF assms(1), of f k] limit_dim_amount[OF that]
    by (simp add: account_used_dim dim_simps)
  ultimately show ?thesis
    unfolding account_within_def new_account_sel by fastforce
qed

lemma account_within_mono:
  assumes "account_within s k a" and "ledger_observed s' = ledger_observed s"
    and "\<And>f. f \<in> amount_dims \<Longrightarrow> f (account_used b) \<le> f (account_used a)"
    and "bac_reserved_children b \<le> bac_reserved_children a" and "bac_limits b = bac_limits a"
  shows "account_within s' k b"
  unfolding account_within_def
proof (intro conjI ballI allI impI, clarify)
  fix lf f limit
  assume d: "(lf, f) \<in> limit_dims" and l: "lf (bac_limits b) = Some limit"
  have "f (account_used a) \<le> limit + ledger_observed s k f"
    using assms(1,5) d l by (auto simp: account_within_def)
  then show "f (account_used b) \<le> limit + ledger_observed s' k f"
    using assms(2) assms(3)[OF limit_dim_amount[OF d]] by simp
next
  fix limit assume "bl_max_children (bac_limits b) = Some limit"
  then show "bac_reserved_children b \<le> limit" using assms(1,4,5) by (fastforce simp: account_within_def)
qed

lemma account_within_capacity:
  assumes "structure_ok dir s'" and "ensure_capacity a debit n c = Inr ()"
    and "\<And>f. f \<in> amount_dims \<Longrightarrow> f (account_used b) = f (account_used a) + f debit"
    and "bac_reserved_children b = bac_reserved_children a + c" and "bac_limits b = bac_limits a"
  shows "account_within s' k b"
  unfolding account_within_def
proof (intro conjI ballI allI impI, clarify)
  fix lf f limit
  assume d: "(lf, f) \<in> limit_dims" and l: "lf (bac_limits b) = Some limit"
  have "f (account_used a) + f debit \<le> limit" using assms(2,5) d l by (auto simp: ensure_capacity_Inr)
  then show "f (account_used b) \<le> limit + ledger_observed s' k f"
    using assms(3)[OF limit_dim_amount[OF d]] observed_nonneg[OF assms(1) limit_dim_amount[OF d], of k] by simp
next
  fix limit assume "bl_max_children (bac_limits b) = Some limit"
  then show "bac_reserved_children b \<le> limit" using assms(2,4,5) by (simp add: ensure_capacity_Inr)
qed

lemma limits_amounts_nonneg: "limits_ok l \<Longrightarrow> f \<in> amount_dims \<Longrightarrow> 0 \<le> f (limits_amounts l)"
  by (auto simp: limits_ok_def limit_values_def limit_ok_def amount_dims_def limits_amounts_def or_zero_def
      split: option.splits)

lemma settlement_le:
  "usage_settlement_matches u a q \<Longrightarrow> amounts_ok (ur_amounts u) \<Longrightarrow> f \<in> amount_dims \<Longrightarrow> f a \<le> f (ur_amounts u)"
  using amounts_nonneg[of "ur_amounts u"]
  by (auto simp: usage_settlement_matches_def amount_dims_def split: if_splits)

section \<open>Limits are kept\<close>

lemma within_root:
  assumes s': "structure_ok dir s'" and w: "within_limits s" and l: "limits_ok l"
    and "apply_root_granted dir a l n s = Inr s'"
  shows "within_limits s'"
  using assms(4)
proof (rule root_grantedE)
  assume eq: "s' = put_account a (new_account a None l n) s"
  show ?thesis
    by (rule within_step[OF w, of s' a "new_account a None l n"])
      (simp_all add: eq within_new[OF s'[unfolded eq]] limits_ok_nonneg[OF l])
qed

lemma within_child_reserved:
  assumes s': "structure_ok dir s'" and w: "within_limits s" and l: "limits_ok (crf_child_limits f)"
    and "apply_child_reserved dir f s = Inr s'"
  shows "within_limits s'"
  using assms(4)
proof (rule child_reservedE)
  fix parent :: budget_account and granted and durable
  assume cap: "ensure_capacity parent (limits_amounts granted) (crf_seq f) 1 = Inr ()"
    and g: "initial_token_limits (crf_child_limits f) (crf_initial_tokens f) = Inr granted"
    and eq: "s' = reserved_state f parent granted durable s"
  let ?pk = "crf_parent_agent_id f" and ?ck = "crf_child_agent_id f"
  let ?p = "reserve_debit parent \<lparr>rd_amounts = limits_amounts granted, rd_children = 1\<rparr>"
  let ?c = "new_account ?ck (Some ?pk) granted (crf_seq f)"
  have obs: "ledger_observed s' = ledger_observed s" by (rule observed_same) (simp add: eq)
  have pw: "account_within s' ?pk ?p"
    by (rule account_within_capacity[OF s' cap]) (simp_all add: account_used_dim dim_simps)
  have obs1: "ledger_observed (put_account ?pk ?p s) = ledger_observed s'"
    unfolding obs by (rule observed_same) simp
  have t: "within_limits (put_account ?pk ?p s)"
    by (rule within_step[OF w]) (use pw account_within_obs[OF obs1] in simp_all)
  show ?thesis
  proof (cases durable)
    case None
    show ?thesis by (rule within_same_accounts[OF t]) (simp_all add: eq None reserved_accounts_def Let_def)
  next
    case (Some x)
    have "account_within s' ?ck ?c"
      using s' limits_ok_nonneg[OF initial_token_limits_ok[OF g l]] by (rule within_new)
    then show ?thesis
      by (intro within_step[OF t, of s' ?ck ?c]) (simp_all add: eq Some reserved_accounts_def Let_def)
  qed
qed

lemma within_committed:
  assumes ok: "structure_ok dir s" and w: "within_limits s" and "apply_reservation_committed dir rs n s = Inr s'"
  shows "within_limits s'"
  using ok assms(3) by (rule committed_unchanged) (auto intro: within_same_accounts[OF w])

lemma within_released:
  assumes ok: "structure_ok dir s" and w: "within_limits s" and "apply_reservation_released dir rs n s = Inr s'"
  shows "within_limits s'"
  using assms(3)
proof (rule reservation_releasedE)
  fix r and parent :: budget_account and granted delegated
  assume r: "map_of (lg_reservations s) rs = Some r" and p: "map_of (lg_accounts s) (brs_parent_agent_id r) = Some parent"
    and g: "initial_token_limits (brs_child_limits r) (brs_initial_tokens r) = Inr granted"
    and dl: "bac_delegated parent = add_amounts delegated (limits_amounts granted)"
    and eq: "s' = put_reservation rs (r\<lparr>brs_status := Reservation_Released, brs_terminal_seq := Some n\<rparr>)
            (put_account (bac_agent_id parent)
               (parent\<lparr>bac_delegated := delegated, bac_reserved_children := bac_reserved_children parent - 1\<rparr>) s)"
  let ?k = "brs_parent_agent_id r"
  let ?p = "parent\<lparr>bac_delegated := delegated, bac_reserved_children := bac_reserved_children parent - 1\<rparr>"
  have key: "bac_agent_id parent = ?k" using structure_okD(1)[OF ok p] by (simp add: account_ok_def)
  have lo: "limits_ok granted" using structure_okD(2)[OF ok r] g by (auto simp: reservation_ok_def)
  have "f (bac_delegated ?p) \<le> f (bac_delegated parent)" if "f \<in> amount_dims" for f
    using limits_amounts_nonneg[OF lo that] by (simp add: dl dim_simps[OF that])
  then have used: "f (account_used ?p) \<le> f (account_used parent)" if "f \<in> amount_dims" for f
    using that by (simp add: account_used_dim)
  have "account_within s ?k parent" using w p by (simp add: within_limits_def)
  then have "account_within s' ?k ?p"
    by (rule account_within_mono) (use used in \<open>simp_all add: eq observed_same[of "put_reservation _ _ _" s]\<close>)
  then show ?thesis by (intro within_step[OF w, of s' ?k ?p]) (simp_all add: eq key)
qed

lemma within_decision:
  assumes ok: "structure_ok dir s" and s': "structure_ok dir s'" and w: "within_limits s" and t: "0 \<le> ctd_tokens f"
    and "apply_token_decision f s = Inr s'"
  shows "within_limits s'"
  using assms(5)
proof (rule token_decisionE)
  fix parent child :: budget_account and current
  assume p: "map_of (lg_accounts s) (ctd_parent_agent_id f) = Some parent"
    and c: "map_of (lg_accounts s) (ctd_child_agent_id f) = Some child"
    and cur: "bl_max_tokens (bac_limits child) = Some current"
    and cap: "ctd_tokens f \<noteq> 0 \<longrightarrow> ensure_capacity parent (no_amounts\<lparr>ba_tokens := ctd_tokens f\<rparr>) (ctd_seq f) 0 = Inr ()"
    and eq0: "s' = put_decision (ctd_request_id f) f (put_account (bac_agent_id child)
             (child\<lparr>bac_limits := (bac_limits child)\<lparr>bl_max_tokens := Some (current + ctd_tokens f)\<rparr>\<rparr>)
             (put_account (bac_agent_id parent)
                (parent\<lparr>bac_delegated := add_amounts (bac_delegated parent) (no_amounts\<lparr>ba_tokens := ctd_tokens f\<rparr>)\<rparr>) s))"
  let ?pk = "ctd_parent_agent_id f" and ?ck = "ctd_child_agent_id f"
  let ?d = "no_amounts\<lparr>ba_tokens := ctd_tokens f\<rparr>"
  let ?p = "parent\<lparr>bac_delegated := add_amounts (bac_delegated parent) ?d\<rparr>"
  let ?c = "child\<lparr>bac_limits := (bac_limits child)\<lparr>bl_max_tokens := Some (current + ctd_tokens f)\<rparr>\<rparr>"
  have keys: "bac_agent_id parent = ?pk" "bac_agent_id child = ?ck"
    using structure_okD(1)[OF ok p] structure_okD(1)[OF ok c] by (simp_all add: account_ok_def)
  have eq: "s' = put_decision (ctd_request_id f) f (put_account ?ck ?c (put_account ?pk ?p s))"
    using eq0 keys by simp
  have obs: "ledger_observed s' = ledger_observed s" by (rule observed_same) (simp add: eq)
  have pw: "account_within s' ?pk ?p"
  proof (cases "ctd_tokens f = 0")
    case True
    have "account_within s ?pk parent" using w p by (simp add: within_limits_def)
    then show ?thesis
      by (rule account_within_mono[OF _ obs])
        (use True in \<open>simp_all add: account_used_dim dim_simps amount_dims_def no_amounts_def, auto simp: add_amounts_def\<close>)
  next
    case False
    with cap have "ensure_capacity parent ?d (ctd_seq f) 0 = Inr ()" by blast
    then show ?thesis by (rule account_within_capacity[OF s']) (simp_all add: account_used_dim dim_simps)
  qed
  have obs1: "ledger_observed (put_account ?pk ?p s) = ledger_observed s'"
    unfolding obs by (rule observed_same) simp
  have t1: "within_limits (put_account ?pk ?p s)"
    by (rule within_step[OF w]) (use pw account_within_obs[OF obs1] in simp_all)
  have used: "account_used ?c = account_used child" by (simp add: account_used_def)
  have "account_within s ?ck child" using w c by (simp add: within_limits_def)
  then have "account_within s' ?ck ?c"
    using t cur unfolding account_within_def obs used by (fastforce simp: limit_dims_def)
  then show ?thesis by (intro within_step[OF t1, of s' ?ck ?c]) (simp_all add: eq)
qed

lemma within_charged:
  assumes ok: "structure_ok dir s" and s': "structure_ok dir s'" and w: "within_limits s" and am: "amounts_ok amounts"
    and new: "map_of (lg_charges s) op = None" and "apply_usage_charged op a amounts mode q n s = Inr s'"
  shows "within_limits s'"
  using assms(6)
proof (rule usage_chargedE)
  fix account :: budget_account
  let ?c = "\<lparr>bch_operation_id = op, bch_agent_id = a, bch_amounts = amounts,
               bch_mode = mode, bch_usage_quality = q, bch_charged_seq = n\<rparr>"
  let ?a = "account\<lparr>bac_charged := add_amounts (bac_charged account) amounts\<rparr>"
  assume a: "map_of (lg_accounts s) a = Some account"
    and cap: "mode = ADMISSION \<longrightarrow> ensure_capacity account amounts n 0 = Inr ()"
    and eq: "s' = put_charge op ?c (put_account a ?a s)"
  have obs: "ledger_observed s' k f = ledger_observed s k f + observed_hold k f ?c" for k f
    by (simp add: eq ledger_observed_def dict_sum_set new)
  have hold: "0 \<le> observed_hold k f ?c" if "f \<in> amount_dims" for k f
    using dim_nonneg[OF am that] by (simp add: observed_hold_def)
  have aw: "account_within s a account" using w a by (simp add: within_limits_def)
  have new_within: "account_within s' a ?a"
  proof (cases mode)
    case ADMISSION
    with cap have "ensure_capacity account amounts n 0 = Inr ()" by blast
    then show ?thesis by (rule account_within_capacity[OF s']) (simp_all add: account_used_dim dim_simps)
  next
    case OBSERVATION
    have "f (account_used ?a) \<le> limit + ledger_observed s' a f"
      if d: "(lf, f) \<in> limit_dims" and l: "lf (bac_limits account) = Some limit" for lf f limit
    proof -
      have "f (account_used account) \<le> limit + ledger_observed s a f" using aw d l by (auto simp: account_within_def)
      then show ?thesis
        using limit_dim_amount[OF d] by (simp add: obs observed_hold_def OBSERVATION account_used_dim dim_simps)
    qed
    with aw show ?thesis by (auto simp: account_within_def)
  qed
  show ?thesis
    unfolding within_limits_def
  proof (intro allI impI)
    fix k b assume kb: "map_of (lg_accounts s') k = Some b"
    show "account_within s' k b"
    proof (cases "k = a")
      case True
      with kb new_within show ?thesis by (simp add: eq)
    next
      case False
      with kb w have "account_within s k b" by (simp add: eq within_limits_def)
      moreover have "ledger_observed s k f \<le> ledger_observed s' k f" if "(lf, f) \<in> limit_dims" for lf f
        using hold[OF limit_dim_amount[OF that], of k] by (simp add: obs)
      ultimately show ?thesis unfolding account_within_def by fastforce
    qed
  qed
qed

lemma within_usage_reserved:
  assumes s': "structure_ok dir s'" and w: "within_limits s" and "apply_usage_reserved rs a amounts n s = Inr s'"
  shows "within_limits s'"
  using assms(3)
proof (rule usage_reservedE)
  fix account :: budget_account
  let ?a = "account\<lparr>bac_reserved := add_amounts (bac_reserved account) amounts\<rparr>"
  assume cap: "ensure_capacity account amounts n 0 = Inr ()"
    and eq: "s' = put_account a ?a (put_usage rs (new_usage rs a amounts n) s)"
  have "account_within s' a ?a"
    by (rule account_within_capacity[OF s' cap]) (simp_all add: account_used_dim dim_simps)
  then show ?thesis by (intro within_step[OF w, of s' a ?a]) (simp_all add: eq)
qed

lemma within_started:
  assumes "within_limits s" and "apply_usage_started rs n s = Inr s'"
  shows "within_limits s'"
  using assms(2) by (rule usage_startedE) (auto intro: within_same_accounts[OF assms(1)])

lemma within_ended:
  assumes ok: "structure_ok dir s" and w: "within_limits s" and "apply_usage_ended rs settled n s = Inr s'"
  shows "within_limits s'"
  using assms(3)
proof (rule usage_endedE)
  fix u :: usage_reservation and account :: budget_account and reserved
  assume u: "map_of (lg_usage s) rs = Some u" and a: "map_of (lg_accounts s) (ur_agent_id u) = Some account"
    and m: "\<forall>amounts q. settled = Some (amounts, q) \<longrightarrow> usage_settlement_matches u amounts q"
    and rsv: "bac_reserved account = add_amounts reserved (ur_amounts u)"
    and eq0: "s' = put_usage rs (end_usage u settled n) (put_account (bac_agent_id account)
            (account\<lparr>bac_reserved := reserved,
                     bac_charged := (case settled of None \<Rightarrow> bac_charged account
                                     | Some (amounts, _) \<Rightarrow> add_amounts (bac_charged account) amounts)\<rparr>) s)"
  let ?k = "ur_agent_id u"
  let ?a = "account\<lparr>bac_reserved := reserved,
                     bac_charged := (case settled of None \<Rightarrow> bac_charged account
                                     | Some (amounts, _) \<Rightarrow> add_amounts (bac_charged account) amounts)\<rparr>"
  have key: "bac_agent_id account = ?k" using structure_okD(1)[OF ok a] by (simp add: account_ok_def)
  have am: "amounts_ok (ur_amounts u)" using structure_okD(3)[OF ok u] by (simp add: usage_ok_def)
  have used: "f (account_used ?a) \<le> f (account_used account)" if f: "f \<in> amount_dims" for f
  proof (cases settled)
    case None
    then show ?thesis using dim_nonneg[OF am f] f by (simp add: account_used_dim rsv dim_simps)
  next
    case (Some x)
    then obtain amounts q where x: "x = (amounts, q)" by (cases x)
    have "f amounts \<le> f (ur_amounts u)" using m am f by (auto simp: Some x intro: settlement_le)
    then show ?thesis using f by (simp add: Some x account_used_dim rsv dim_simps)
  qed
  have "account_within s ?k account" using w a by (simp add: within_limits_def)
  then have "account_within s' ?k ?a"
    by (rule account_within_mono) (use used in \<open>simp_all add: eq0 observed_same[of "put_usage _ _ _" s]\<close>)
  then show ?thesis by (intro within_step[OF w, of s' ?k ?a]) (simp_all add: eq0 key)
qed

lemma within_closed:
  assumes "within_limits s" and "apply_account_closed a n s = Inr s'"
  shows "within_limits s'"
  using assms(2)
proof (rule account_closedE)
  fix account :: budget_account
  let ?a = "account\<lparr>bac_status := Account_Closed, bac_closed_seq := Some n\<rparr>"
  assume a: "map_of (lg_accounts s) a = Some account" and eq: "s' = put_account a ?a s"
  have "account_within s a account" using assms(1) a by (simp add: within_limits_def)
  then have "account_within s' a ?a"
    by (rule account_within_mono) (simp_all add: eq account_used_def observed_same[of "put_account _ _ _" s])
  then show ?thesis by (intro within_step[OF assms(1), of s' a ?a]) (simp_all add: eq)
qed

lemma within_step_fact:
  assumes "structure_ok dir s" "within_limits s" "fact_ok f" "map_of (lg_charges s) (fact_operation_id f) = None"
    and ap: "apply_fact dir f s = Inr s'"
  shows "within_limits s'"
proof -
  have "structure_ok dir s'" using assms structure_step by blast
  with assms show ?thesis
    by (cases f) (auto intro: within_root within_child_reserved within_committed within_released within_decision
        within_charged within_usage_reserved within_started within_ended within_closed)
qed

end
