(* ===== verification/Budget_Conservation.thy ===== *)
theory Budget_Conservation imports Budget_Limits begin

text \<open>
  Conservation over the tree of Agents: what the limits of all children add up to, together
  with the pending reservations, is exactly what their parents have delegated; and a dimension
  that is limited at every root is limited everywhere. With the balances and the limits of the
  single accounts this is the invariant of the ledger, which the fold over its events keeps.
\<close>

definition nonroot_limit :: "(budget_limits \<Rightarrow> int option) \<Rightarrow> budget_account \<Rightarrow> int" where
  "nonroot_limit lf a = (if bac_parent_agent_id a = None then 0 else or_zero (lf (bac_limits a)))"

definition root_limit :: "(budget_limits \<Rightarrow> int option) \<Rightarrow> budget_account \<Rightarrow> int" where
  "root_limit lf a = (if bac_parent_agent_id a = None then or_zero (lf (bac_limits a)) else 0)"

definition pending_hold :: "(budget_amounts \<Rightarrow> int) \<Rightarrow> budget_reservation \<Rightarrow> int" where
  "pending_hold f r = (if brs_status r = Reservation_Pending then f (held r) else 0)"

definition conserved :: "(budget_limits \<Rightarrow> int option) \<Rightarrow> (budget_amounts \<Rightarrow> int) \<Rightarrow> ledger \<Rightarrow> bool" where
  "conserved lf f s \<longleftrightarrow>
     dict_sum (nonroot_limit lf) (lg_accounts s) + dict_sum (pending_hold f) (lg_reservations s) =
     dict_sum (\<lambda>a. f (bac_delegated a)) (lg_accounts s)"

definition roots_limited :: "(budget_limits \<Rightarrow> int option) \<Rightarrow> ledger \<Rightarrow> bool" where
  "roots_limited lf s \<longleftrightarrow> (\<forall>k a. map_of (lg_accounts s) k = Some a \<longrightarrow> bac_parent_agent_id a = None \<longrightarrow>
     lf (bac_limits a) \<noteq> None)"

definition all_limited :: "(budget_limits \<Rightarrow> int option) \<Rightarrow> ledger \<Rightarrow> bool" where
  "all_limited lf s \<longleftrightarrow> (\<forall>k a. map_of (lg_accounts s) k = Some a \<longrightarrow> lf (bac_limits a) \<noteq> None)"

definition tree_ok :: "(budget_limits \<Rightarrow> int option) \<Rightarrow> (budget_amounts \<Rightarrow> int) \<Rightarrow> ledger \<Rightarrow> bool" where
  "tree_ok lf f s \<longleftrightarrow> conserved lf f s \<and> (roots_limited lf s \<longrightarrow> all_limited lf s)"

lemma tree_ok_cong:
  "lg_accounts s' = lg_accounts s \<Longrightarrow> lg_reservations s' = lg_reservations s \<Longrightarrow> tree_ok lf f s' = tree_ok lf f s"
  by (simp add: tree_ok_def conserved_def roots_limited_def all_limited_def)

lemma tree_keep:
  assumes "tree_ok lf f s" "lg_accounts s' = dict_set k b (lg_accounts s)" "lg_reservations s' = lg_reservations s"
    and a: "map_of (lg_accounts s) k = Some a" "bac_parent_agent_id b = bac_parent_agent_id a"
    "bac_limits b = bac_limits a" "bac_delegated b = bac_delegated a"
  shows "tree_ok lf f s'"
proof -
  have "conserved lf f s'"
    using assms by (simp add: tree_ok_def conserved_def dict_sum_set nonroot_limit_def)
  moreover have "all_limited lf s'" if "roots_limited lf s'"
  proof -
    have "roots_limited lf s" using that a assms(2) unfolding roots_limited_def
      by (metis fun_upd_apply map_of_dict_set option.inject)
    then have "all_limited lf s" using assms(1) by (simp add: tree_ok_def)
    then show ?thesis using a assms(2) by (auto simp: all_limited_def)
  qed
  ultimately show ?thesis by (simp add: tree_ok_def)
qed

lemma limited_put_account:
  assumes "map_of (lg_accounts s) k = Some a" "bac_parent_agent_id b = bac_parent_agent_id a"
    and "(lf (bac_limits b) = None) = (lf (bac_limits a) = None)"
  shows "roots_limited lf (put_account k b s) = roots_limited lf s"
    "all_limited lf (put_account k b s) = all_limited lf s"
proof -
  have all: "(\<forall>i c. map_of (dict_set k b (lg_accounts s)) i = Some c \<longrightarrow> P c) =
      (\<forall>i c. map_of (lg_accounts s) i = Some c \<longrightarrow> P c)" if "P b = P a" for P
    using that assms(1) by (metis fun_upd_apply map_of_dict_set option.inject)
  show "roots_limited lf (put_account k b s) = roots_limited lf s"
    using all[of "\<lambda>c. bac_parent_agent_id c = None \<longrightarrow> lf (bac_limits c) \<noteq> None"] assms(2,3)
    by (simp add: roots_limited_def)
  show "all_limited lf (put_account k b s) = all_limited lf s"
    using all[of "\<lambda>c. lf (bac_limits c) \<noteq> None"] assms(3) by (simp add: all_limited_def)
qed

lemma limited_cong:
  assumes "lg_accounts s' = lg_accounts s"
  shows "roots_limited lf s' = roots_limited lf s" "all_limited lf s' = all_limited lf s"
  using assms by (simp_all add: roots_limited_def all_limited_def)

lemma limit_dim_held: "(lf, f) \<in> limit_dims \<Longrightarrow> f (limits_amounts g) = or_zero (lf g)"
  by (auto simp: limit_dims_def limits_amounts_def)

lemma tree_root:
  assumes t: "tree_ok lf f s" and d: "(lf, f) \<in> limit_dims" and "apply_root_granted dir a l n s = Inr s'"
  shows "tree_ok lf f s'"
  using assms(3)
proof (rule root_grantedE)
  assume new: "map_of (lg_accounts s) a = None" and eq: "s' = put_account a (new_account a None l n) s"
  have c: "conserved lf f s'"
    using t by (simp add: tree_ok_def conserved_def eq dict_sum_set new nonroot_limit_def
        dim_simps[OF limit_dim_amount[OF d]])
  have "all_limited lf s'" if r: "roots_limited lf s'"
  proof -
    have "map_of (lg_accounts s') a = Some (new_account a None l n)" by (simp add: eq)
    then have "lf l \<noteq> None" using r unfolding roots_limited_def by (metis new_account_sel(2,3))
    moreover have "roots_limited lf s"
      using r new unfolding roots_limited_def eq put_account_sel map_of_dict_set
      by (metis fun_upd_apply option.distinct(1))
    ultimately show ?thesis using t by (auto simp: tree_ok_def all_limited_def eq)
  qed
  with c show ?thesis by (simp add: tree_ok_def)
qed

lemma exceeds_limited: "\<not> exceeds p c \<Longrightarrow> p \<noteq> None \<Longrightarrow> c \<noteq> None"
  by (cases c) (auto simp: exceeds_def)

lemma tree_child_reserved:
  assumes t: "tree_ok lf f s" and d: "(lf, f) \<in> limit_dims" and "apply_child_reserved dir fa s = Inr s'"
  shows "tree_ok lf f s'"
  using assms(3)
proof (rule child_reservedE)
  fix parent :: budget_account and granted and durable
  assume p: "map_of (lg_accounts s) (crf_parent_agent_id fa) = Some parent"
    and c: "reservation_conflict fa s = None"
    and g: "initial_token_limits (crf_child_limits fa) (crf_initial_tokens fa) = Inr granted"
    and deb: "child_debit (bac_limits parent) granted (crf_seq fa) = Inr \<lparr>rd_amounts = limits_amounts granted, rd_children = 1\<rparr>"
    and eq: "s' = reserved_state fa parent granted durable s"
  let ?pk = "crf_parent_agent_id fa" and ?ck = "crf_child_agent_id fa"
  have cf: "map_of (lg_reservations s) (crf_reservation_id fa) = None" "?ck \<noteq> ?pk" "map_of (lg_accounts s) ?ck = None"
    using conflict_none[OF c] by blast+
  have dims: "f (add_amounts x y) = f x + f y" "f no_amounts = 0" "f (limits_amounts granted) = or_zero (lf granted)" for x y
    using dim_simps[OF limit_dim_amount[OF d]] limit_dim_held[OF d] by simp_all
  have pend: "pending_hold f (new_reservation fa x) = (if x = None then or_zero (lf granted) else 0)" for x
    by (simp add: pending_hold_def held_new_reservation[OF g] dims)
  have cons: "conserved lf f s'"
    using t by (cases durable)
      (simp_all add: tree_ok_def conserved_def eq dict_sum_set cf p reserved_accounts_def Let_def dims pend nonroot_limit_def)
  have child: "lf (bac_limits parent) \<noteq> None \<longrightarrow> lf granted \<noteq> None"
    using deb d exceeds_limited by (auto simp: child_debit_Inr limit_dims_def monotonic_fields_def)
  have "all_limited lf s'" if r: "roots_limited lf s'"
  proof -
    have "lf (bac_limits a) \<noteq> None" if a: "map_of (lg_accounts s) k = Some a" "bac_parent_agent_id a = None" for k a
    proof (cases "k = ?pk")
      case True
      then have "bac_parent_agent_id parent = None" "bac_limits a = bac_limits parent" using a p by simp_all
      moreover have "map_of (lg_accounts s') ?pk = Some (reserve_debit parent \<lparr>rd_amounts = limits_amounts granted, rd_children = 1\<rparr>)"
        using cf by (simp add: eq reserved_accounts_def Let_def)
      ultimately show ?thesis using r unfolding roots_limited_def by fastforce
    next
      case False
      then have "map_of (lg_accounts s') k = Some a"
        using a cf by (auto simp: eq reserved_accounts_def Let_def)
      then show ?thesis using r a by (auto simp: roots_limited_def)
    qed
    then have "roots_limited lf s" by (simp add: roots_limited_def)
    then have all: "all_limited lf s" using t by (simp add: tree_ok_def)
    then have "lf granted \<noteq> None" "lf (bac_limits parent) \<noteq> None" using child p by (auto simp: all_limited_def)
    with all show ?thesis
      by (auto simp: all_limited_def eq reserved_accounts_def Let_def split: if_splits)
  qed
  with cons show ?thesis by (simp add: tree_ok_def)
qed

lemma tree_committed:
  assumes ok: "structure_ok dir s" and t: "tree_ok lf f s" and "apply_reservation_committed dir rs n s = Inr s'"
  shows "tree_ok lf f s'"
  using ok assms(3)
proof (rule committed_unchanged)
  fix r r'
  assume "map_of (lg_reservations s) rs = Some r" and eq: "s' = put_reservation rs r' s"
    and "brs_status r = Reservation_Committed" "brs_status r' = Reservation_Committed"
  then have "conserved lf f s'"
    using t by (simp add: tree_ok_def conserved_def dict_sum_set pending_hold_def)
  then show ?thesis using t by (simp add: tree_ok_def eq roots_limited_def all_limited_def)
qed

lemma tree_released:
  assumes ok: "structure_ok dir s" and t: "tree_ok lf f s" and d: "(lf, f) \<in> limit_dims"
    and "apply_reservation_released dir rs n s = Inr s'"
  shows "tree_ok lf f s'"
  using assms(4)
proof (rule reservation_releasedE)
  fix r and parent :: budget_account and granted delegated
  assume r: "map_of (lg_reservations s) rs = Some r" and st: "brs_status r = Reservation_Pending"
    and p: "map_of (lg_accounts s) (brs_parent_agent_id r) = Some parent"
    and g: "initial_token_limits (brs_child_limits r) (brs_initial_tokens r) = Inr granted"
    and dl: "bac_delegated parent = add_amounts delegated (limits_amounts granted)"
    and eq0: "s' = put_reservation rs (r\<lparr>brs_status := Reservation_Released, brs_terminal_seq := Some n\<rparr>)
            (put_account (bac_agent_id parent)
               (parent\<lparr>bac_delegated := delegated, bac_reserved_children := bac_reserved_children parent - 1\<rparr>) s)"
  let ?k = "brs_parent_agent_id r"
  let ?p = "parent\<lparr>bac_delegated := delegated, bac_reserved_children := bac_reserved_children parent - 1\<rparr>"
  have key: "bac_agent_id parent = ?k" using structure_okD(1)[OF ok p] by (simp add: account_ok_def)
  have dims: "f (bac_delegated parent) = f delegated + f (limits_amounts granted)"
    using dim_simps[OF limit_dim_amount[OF d]] by (simp add: dl)
  have "conserved lf f s'"
    using t by (simp add: tree_ok_def conserved_def eq0 key dict_sum_set r p pending_hold_def st granted_held[OF g]
        nonroot_limit_def dims)
  moreover have "roots_limited lf s' = roots_limited lf s" "all_limited lf s' = all_limited lf s"
    using limited_put_account[OF p, of ?p lf]
      limited_cong[of s' "put_account ?k ?p s"] by (simp_all add: eq0 key)
  ultimately show ?thesis using t by (simp add: tree_ok_def)
qed

lemma tree_decision:
  assumes ok: "structure_ok dir s" and t: "tree_ok lf f s" and d: "(lf, f) \<in> limit_dims"
    and "apply_token_decision fa s = Inr s'"
  shows "tree_ok lf f s'"
  using assms(4)
proof (rule token_decisionE)
  fix parent child :: budget_account and current
  assume p: "map_of (lg_accounts s) (ctd_parent_agent_id fa) = Some parent"
    and c: "map_of (lg_accounts s) (ctd_child_agent_id fa) = Some child"
    and pc: "bac_parent_agent_id child = Some (ctd_parent_agent_id fa)"
    and cur: "bl_max_tokens (bac_limits child) = Some current"
    and eq0: "s' = put_decision (ctd_request_id fa) fa (put_account (bac_agent_id child)
             (child\<lparr>bac_limits := (bac_limits child)\<lparr>bl_max_tokens := Some (current + ctd_tokens fa)\<rparr>\<rparr>)
             (put_account (bac_agent_id parent)
                (parent\<lparr>bac_delegated := add_amounts (bac_delegated parent) (no_amounts\<lparr>ba_tokens := ctd_tokens fa\<rparr>)\<rparr>) s))"
  let ?pk = "ctd_parent_agent_id fa" and ?ck = "ctd_child_agent_id fa"
  let ?p = "parent\<lparr>bac_delegated := add_amounts (bac_delegated parent) (no_amounts\<lparr>ba_tokens := ctd_tokens fa\<rparr>)\<rparr>"
  let ?c = "child\<lparr>bac_limits := (bac_limits child)\<lparr>bl_max_tokens := Some (current + ctd_tokens fa)\<rparr>\<rparr>"
  have keys: "bac_agent_id parent = ?pk" "bac_agent_id child = ?ck" and ne: "?ck \<noteq> ?pk"
    using structure_okD(1)[OF ok p] structure_okD(1)[OF ok c] pc by (auto simp: account_ok_def)
  have c': "map_of (lg_accounts (put_account ?pk ?p s)) ?ck = Some child" using c ne by simp
  have dims: "f (add_amounts x (no_amounts\<lparr>ba_tokens := ctd_tokens fa\<rparr>)) - f x =
      or_zero (lf ((bac_limits child)\<lparr>bl_max_tokens := Some (current + ctd_tokens fa)\<rparr>)) - or_zero (lf (bac_limits child))" for x
    using d cur by (auto simp: limit_dims_def add_amounts_def no_amounts_def or_zero_def)
  have same: "(lf ((bac_limits child)\<lparr>bl_max_tokens := Some (current + ctd_tokens fa)\<rparr>) = None) = (lf (bac_limits child) = None)"
    using d cur by (auto simp: limit_dims_def)
  have "conserved lf f s'"
    using t dims[of "bac_delegated parent"] ne
    by (simp add: tree_ok_def conserved_def eq0 keys dict_sum_set p c pc nonroot_limit_def)
  moreover have "roots_limited lf s' = roots_limited lf s" "all_limited lf s' = all_limited lf s"
    using limited_put_account[OF p, of ?p lf] limited_put_account[OF c', of ?c lf] same
      limited_cong[of s' "put_account ?ck ?c (put_account ?pk ?p s)"] by (simp_all add: eq0 keys)
  ultimately show ?thesis using t by (simp add: tree_ok_def)
qed

lemma tree_charged:
  assumes "tree_ok lf f s" and "apply_usage_charged op a amounts mode q n s = Inr s'"
  shows "tree_ok lf f s'"
  using assms(2) by (rule usage_chargedE) (auto intro: tree_keep[OF assms(1)])

lemma tree_usage_reserved:
  assumes "tree_ok lf f s" and "apply_usage_reserved rs a amounts n s = Inr s'"
  shows "tree_ok lf f s'"
  using assms(2) by (rule usage_reservedE) (auto intro: tree_keep[OF assms(1)])

lemma tree_started:
  assumes "tree_ok lf f s" and "apply_usage_started rs n s = Inr s'"
  shows "tree_ok lf f s'"
  using assms(2) by (rule usage_startedE) (simp add: tree_ok_cong[of "put_usage _ _ s" s] assms(1))

lemma tree_ended:
  assumes ok: "structure_ok dir s" and "tree_ok lf f s" and "apply_usage_ended rs settled n s = Inr s'"
  shows "tree_ok lf f s'"
  using assms(3)
proof (rule usage_endedE)
  fix u :: usage_reservation and account :: budget_account and reserved
  assume a: "map_of (lg_accounts s) (ur_agent_id u) = Some account"
    and eq: "s' = put_usage rs (end_usage u settled n) (put_account (bac_agent_id account)
            (account\<lparr>bac_reserved := reserved,
                     bac_charged := (case settled of None \<Rightarrow> bac_charged account
                                     | Some (amounts, _) \<Rightarrow> add_amounts (bac_charged account) amounts)\<rparr>) s)"
  let ?a = "account\<lparr>bac_reserved := reserved,
                     bac_charged := (case settled of None \<Rightarrow> bac_charged account
                                     | Some (amounts, _) \<Rightarrow> add_amounts (bac_charged account) amounts)\<rparr>"
  have key: "bac_agent_id account = ur_agent_id u" using structure_okD(1)[OF ok a] by (simp add: account_ok_def)
  show ?thesis by (rule tree_keep[OF assms(2) _ _ a, of s' ?a]) (simp_all add: eq key)
qed

lemma tree_closed:
  assumes "tree_ok lf f s" and "apply_account_closed a n s = Inr s'"
  shows "tree_ok lf f s'"
  using assms(2) by (rule account_closedE) (auto intro: tree_keep[OF assms(1)])

lemma tree_step_fact:
  assumes "structure_ok dir s" "tree_ok lf f s" "(lf, f) \<in> limit_dims" "apply_fact dir fa s = Inr s'"
  shows "tree_ok lf f s'"
  using assms
  by (cases fa) (auto intro: tree_root tree_child_reserved tree_committed tree_released tree_decision tree_charged
      tree_usage_reserved tree_started tree_ended tree_closed)

section \<open>The invariant of the ledger\<close>

definition ledger_inv :: "agent_directory \<Rightarrow> ledger \<Rightarrow> bool" where
  "ledger_inv dir s \<longleftrightarrow> structure_ok dir s \<and> balanced s \<and> within_limits s \<and>
     (\<forall>(lf, f) \<in> limit_dims. tree_ok lf f s) \<and>
     (\<forall>k. dict_has k (lg_charges s) \<longrightarrow> dict_has k (lg_operations s))"

lemma ledger_inv_empty: "ledger_inv dir empty_ledger"
  by (auto simp: ledger_inv_def structure_ok_def balanced_def within_limits_def tree_ok_def conserved_def
      all_limited_def empty_ledger_def dict_values_def dict_has_def)

lemma apply_fact_frame:
  assumes "apply_fact dir f s = Inr s'"
  shows "lg_operations s' = lg_operations s \<and>
    (\<forall>k. dict_has k (lg_charges s') \<longrightarrow> k = fact_operation_id f \<or> dict_has k (lg_charges s))"
proof (cases f)
  case (Reservation_Committed_Fact op rs n)
  with assms have "apply_reservation_committed dir rs n s = Inr s'" by simp
  then show ?thesis by (rule reservation_committedE) auto
next
  case (Usage_Charged op a amounts mode q n)
  with assms have "apply_usage_charged op a amounts mode q n s = Inr s'" by simp
  then show ?thesis by (rule usage_chargedE) (auto simp: Usage_Charged)
qed (use assms in \<open>auto elim!: root_grantedE child_reservedE reservation_releasedE token_decisionE
      usage_reservedE usage_startedE usage_endedE account_closedE\<close>)

lemma apply_budget_eventE:
  assumes "apply_budget_event dir s ne = Inr s'"
  obtains f s2 where "ev_seq (snd ne) = fst ne" "parse_budget_fact (snd ne) = Inr f" "fact_ok f" "fact_seq f = fst ne"
    "\<not> dict_has (fact_operation_id f) (lg_operations s)"
    "apply_fact dir f (s\<lparr>lg_operations := dict_set (fact_operation_id f)
       \<lparr>lop_event_type = budget_event_type f, lop_payload = canonical_json (ev_data (snd ne)),
        lop_seq = fact_seq f\<rparr> (lg_operations s)\<rparr>) = Inr s2"
    "s' = s2\<lparr>lg_head_seq := fact_seq f\<rparr>"
proof -
  obtain n e where ne: "ne = (n, e)" by (cases ne)
  with assms obtain f s1 s2 where *: "ev_seq e = n" "parse_budget_fact e = Inr f"
    "record_operation f (ev_data e) s = Inr s1" "apply_fact dir f s1 = Inr s2" "s' = s2\<lparr>lg_head_seq := fact_seq f\<rparr>"
    by (auto simp: apply_budget_event_def wrap_unless_eq_Inr rbind_eq_Inr raise_if_eq_Inr)
  then show thesis
    using that[of f s2] parse_budget_fact_ok[OF *(2)]
    by (auto simp: ne record_operation_def budget_error_def split: if_splits)
qed

lemma ledger_inv_step:
  assumes "ledger_inv dir s" and "apply_budget_event dir s ne = Inr s'"
  shows "ledger_inv dir s'"
  using assms(2)
proof (rule apply_budget_eventE)
  fix f s2
  let ?s1 = "s\<lparr>lg_operations := dict_set (fact_operation_id f)
       \<lparr>lop_event_type = budget_event_type f, lop_payload = canonical_json (ev_data (snd ne)),
        lop_seq = fact_seq f\<rparr> (lg_operations s)\<rparr>"
  assume f: "fact_ok f" and new: "\<not> dict_has (fact_operation_id f) (lg_operations s)"
    and ap: "apply_fact dir f ?s1 = Inr s2" and s': "s' = s2\<lparr>lg_head_seq := fact_seq f\<rparr>"
  have inv: "structure_ok dir s" "balanced s" "within_limits s" "\<forall>(lf, f) \<in> limit_dims. tree_ok lf f s"
    "\<forall>k. dict_has k (lg_charges s) \<longrightarrow> dict_has k (lg_operations s)" using assms(1) by (simp_all add: ledger_inv_def)
  have s1: "structure_ok dir ?s1" "balanced ?s1" "within_limits ?s1"
    using inv structure_ok_cong[of ?s1 s dir] balanced_cong[of ?s1 s] within_same_accounts[OF inv(3), of ?s1]
    by simp_all
  have t1: "tree_ok lf g ?s1" if "(lf, g) \<in> limit_dims" for lf g
    using inv(4) that tree_ok_cong[of ?s1 s lf g] by auto
  have nc: "map_of (lg_charges ?s1) (fact_operation_id f) = None"
    using inv(5) new by (auto simp: dict_has_def)
  have s2: "structure_ok dir s2" "balanced s2" "within_limits s2"
    using structure_step[OF s1(1) f ap] balanced_step_fact[OF s1(1,2) nc ap] within_step_fact[OF s1(1,3) f nc ap]
    by simp_all
  have t2: "\<forall>(lf, g) \<in> limit_dims. tree_ok lf g s2" using tree_step_fact[OF s1(1) t1 _ ap] by auto
  have fr: "lg_operations s2 = lg_operations ?s1"
    "\<forall>k. dict_has k (lg_charges s2) \<longrightarrow> k = fact_operation_id f \<or> dict_has k (lg_charges s)"
    using apply_fact_frame[OF ap] by simp_all
  have "structure_ok dir s'" "balanced s'" "within_limits s'"
    using s2 structure_ok_cong[of s' s2 dir] balanced_cong[of s' s2] within_same_accounts[OF s2(3), of s']
    by (simp_all add: s')
  moreover have "\<forall>(lf, g) \<in> limit_dims. tree_ok lf g s'" using t2 tree_ok_cong[of s' s2] by (auto simp: s')
  moreover have "\<forall>k. dict_has k (lg_charges s') \<longrightarrow> dict_has k (lg_operations s')"
    using fr inv(5) by (auto simp: s')
  ultimately show ?thesis by (simp add: ledger_inv_def)
qed

interpretation ledger: replay "apply_budget_event dir" empty_ledger "ledger_inv dir" for dir
  by unfold_locales (rule ledger_inv_empty, rule ledger_inv_step)

lemma rebuild_ledger_inv: "rebuild_ledger es dir = Inr s \<Longrightarrow> ledger_inv dir s"
  unfolding rebuild_ledger_def by (rule ledger.run_inv)

section \<open>The sum over the tree\<close>

lemma account_keys:
  assumes "structure_ok dir s"
  shows "map bac_agent_id (dict_values (lg_accounts s)) = dict_keys (lg_accounts s)"
proof -
  have "bac_agent_id (snd ka) = fst ka" if "ka \<in> set (lg_accounts s)" for ka
  proof -
    have "map_of (lg_accounts s) (fst ka) = Some (snd ka)"
      using assms that by (simp add: structure_ok_def dict_ok_def)
    then show ?thesis using structure_okD(1)[OF assms] by (simp add: account_ok_def)
  qed
  then show ?thesis by (simp add: dict_values_def dict_keys_def)
qed

lemma account_values:
  assumes "structure_ok dir s" "a \<in> set (dict_values (lg_accounts s))"
  shows "map_of (lg_accounts s) (bac_agent_id a) = Some a"
proof -
  have "dict_ok (lg_accounts s)" using assms(1) by (simp add: structure_ok_def)
  then obtain k where k: "map_of (lg_accounts s) k = Some a"
    using assms(2) dict_values_mem[of "lg_accounts s" a] by blast
  then have "bac_agent_id a = k" using structure_okD(1)[OF assms(1) k] by (simp add: account_ok_def)
  with k show ?thesis by simp
qed

definition total_observed :: "ledger \<Rightarrow> (budget_amounts \<Rightarrow> int) \<Rightarrow> int" where
  "total_observed s f = dict_sum (\<lambda>c. if bch_mode c = OBSERVATION then f (bch_amounts c) else 0) (lg_charges s)"

lemma observed_sum:
  assumes "structure_ok dir s"
  shows "dict_sum (\<lambda>a. ledger_observed s (bac_agent_id a) f) (lg_accounts s) = total_observed s f"
proof -
  let ?cs = "dict_values (lg_charges s)" and ?as = "dict_values (lg_accounts s)"
  have "distinct (map bac_agent_id ?as)"
    using assms account_keys[OF assms] by (simp add: structure_ok_def dict_ok_def dict_keys_def)
  moreover have "\<forall>c \<in> set ?cs. bch_agent_id c \<in> bac_agent_id ` set ?as"
  proof
    fix c assume "c \<in> set ?cs"
    then have "dict_has (bch_agent_id c) (lg_accounts s)" using assms by (auto simp: structure_ok_def charge_ok_def)
    then have "bch_agent_id c \<in> set (dict_keys (lg_accounts s))"
      by (auto simp: dict_has_iff dict_keys_def dest: map_of_SomeD intro: rev_image_eqI)
    then show "bch_agent_id c \<in> bac_agent_id ` set ?as" using account_keys[OF assms] by (metis set_map)
  qed
  ultimately have "(\<Sum>a\<leftarrow>?as. \<Sum>c\<leftarrow>?cs. if bch_agent_id c = bac_agent_id a
        then (if bch_mode c = OBSERVATION then f (bch_amounts c) else 0) else 0) =
      (\<Sum>c\<leftarrow>?cs. if bch_mode c = OBSERVATION then f (bch_amounts c) else 0)"
    by (rule sum_by_owner)
  moreover have "observed_hold k f c = (if bch_agent_id c = k
      then (if bch_mode c = OBSERVATION then f (bch_amounts c) else 0) else 0)" for k c
    by (simp add: observed_hold_def)
  ultimately show ?thesis by (simp add: dict_sum_def ledger_observed_def total_observed_def)
qed

lemma tree_total:
  assumes inv: "ledger_inv dir s" and d: "(lf, f) \<in> limit_dims" and roots: "roots_limited lf s"
  shows "dict_sum (\<lambda>a. f (bac_charged a)) (lg_accounts s) + dict_sum (\<lambda>a. f (bac_reserved a)) (lg_accounts s)
    \<le> dict_sum (root_limit lf) (lg_accounts s) + total_observed s f"
proof -
  have st: "structure_ok dir s" using inv by (simp add: ledger_inv_def)
  have t: "conserved lf f s" "all_limited lf s" using inv d roots by (auto simp: ledger_inv_def tree_ok_def)
  have am: "f \<in> amount_dims" using d by (rule limit_dim_amount)
  let ?as = "lg_accounts s"
  have "f (bac_charged a) + f (bac_delegated a) + f (bac_reserved a)
      \<le> root_limit lf a + nonroot_limit lf a + ledger_observed s (bac_agent_id a) f"
    if "a \<in> set (dict_values ?as)" for a
  proof -
    have a: "map_of ?as (bac_agent_id a) = Some a" using account_values[OF st that] .
    then have w: "account_within s (bac_agent_id a) a" using inv by (simp add: ledger_inv_def within_limits_def)
    obtain limit where l: "lf (bac_limits a) = Some limit" using t(2) a by (auto simp: all_limited_def)
    have "f (account_used a) \<le> limit + ledger_observed s (bac_agent_id a) f"
      using w d l by (auto simp: account_within_def)
    then show ?thesis by (simp add: account_used_dim[OF am] root_limit_def nonroot_limit_def or_zero_def l)
  qed
  then have "dict_sum (\<lambda>a. f (bac_charged a) + f (bac_delegated a) + f (bac_reserved a)) ?as
      \<le> dict_sum (\<lambda>a. root_limit lf a + nonroot_limit lf a + ledger_observed s (bac_agent_id a) f) ?as"
    by (rule dict_sum_mono)
  moreover have "0 \<le> dict_sum (pending_hold f) (lg_reservations s)"
  proof (rule dict_sum_nonneg)
    fix r assume "r \<in> set (dict_values (lg_reservations s))"
    then obtain g where "initial_token_limits (brs_child_limits r) (brs_initial_tokens r) = Inr g" "limits_ok g"
      using st by (auto simp: structure_ok_def reservation_ok_def)
    then show "0 \<le> pending_hold f r"
      using limits_amounts_nonneg[OF _ am] by (simp add: pending_hold_def granted_held)
  qed
  ultimately show ?thesis
    using t(1) observed_sum[OF st, of f] by (simp add: dict_sum_add conserved_def)
qed

end
