(* ===== verification/Budget_Replay.thy ===== *)
theory Budget_Replay imports Budget_Conservation begin

text \<open>
  One event of the ledger, seen as one fact: the operation log and the head number are stamped
  on beside what the fact does, the arithmetic of an accepted ledger cannot fail, and the
  operation index is the log itself.
\<close>

section \<open>The step on an event is the step on its fact\<close>

text \<open>What a fact does depends on neither the operation log nor the head, and leaves both.\<close>

definition stamped :: "(pystr, ledger_operation) dict \<Rightarrow> int \<Rightarrow> ledger \<Rightarrow> ledger" where
  "stamped ops n s = s\<lparr>lg_operations := ops, lg_head_seq := n\<rparr>"

definition map_ok :: "('a \<Rightarrow> 'b) \<Rightarrow> 'a result \<Rightarrow> 'b result" where
  "map_ok f r = rbind r (\<lambda>x. Inr (f x))"

lemma map_ok_simps [simp]:
 fixes r :: "'a result" and q :: "'b result" and g :: "'b \<Rightarrow> 'a result" shows "map_ok f (Inr x) = Inr (f x)" "map_ok f (Inl e) = Inl e"
  "map_ok f (rbind q g) = rbind q (\<lambda>x. map_ok f (g x))"
  "map_ok f (if b then r else r2) = (if b then map_ok f r else map_ok f r2)"
  "map_ok f (budget_error c n) = budget_error c n"
  by (cases q; simp add: map_ok_def budget_error_def)+

lemma map_ok_case [simp]:
  "map_ok f (case_option a g x) = case_option (map_ok f a) (\<lambda>y. map_ok f (g y)) x"
  "map_ok f (case_prod h z) = case_prod (\<lambda>x y. map_ok f (h x y)) z"
  "stamped p n (if b then s else t) = (if b then stamped p n s else stamped p n t)"
  by (simp_all split: option.split prod.split)

lemma stamped_sel [simp]:
  "lg_accounts (stamped p n s) = lg_accounts s" "lg_reservations (stamped p n s) = lg_reservations s"
  "lg_charges (stamped p n s) = lg_charges s" "lg_usage (stamped p n s) = lg_usage s"
  "lg_child_reservations (stamped p n s) = lg_child_reservations s"
  "lg_request_reservations (stamped p n s) = lg_request_reservations s"
  "lg_token_decisions (stamped p n s) = lg_token_decisions s"
  by (simp_all add: stamped_def)

lemma stamped_put:
  "put_account k a (stamped p n s) = stamped p n (put_account k a s)"
  "put_reservation k r (stamped p n s) = stamped p n (put_reservation k r s)"
  "put_usage k u (stamped p n s) = stamped p n (put_usage k u s)"
  "put_charge k c (stamped p n s) = stamped p n (put_charge k c s)"
  "put_decision k t (stamped p n s) = stamped p n (put_decision k t s)"
  "(stamped p n s)\<lparr>lg_child_reservations := x, lg_request_reservations := y\<rparr> = stamped p n (s\<lparr>lg_child_reservations := x, lg_request_reservations := y\<rparr>)"
  by (simp_all add: stamped_def put_account_def put_reservation_def put_usage_def put_charge_def put_decision_def)

lemma apply_fact_stamped:
  "apply_fact dir f (stamped p n s) = map_ok (stamped p n) (apply_fact dir f s)"
  by (cases f) (simp_all add: stamped_put Let_def apply_root_granted_def apply_child_reserved_def
      apply_reservation_committed_def apply_reservation_released_def apply_token_decision_def
      apply_usage_charged_def apply_usage_reserved_def apply_usage_started_def apply_usage_ended_def
      apply_account_closed_def reservation_conflict_def cong: if_cong option.case_cong split: prod.split)

definition ledger_operation_of :: "budget_fact \<Rightarrow> event_envelope \<Rightarrow> ledger_operation" where
  "ledger_operation_of f ev = \<lparr>lop_event_type = budget_event_type f,
     lop_payload = canonical_json (ev_data ev), lop_seq = fact_seq f\<rparr>"

lemma apply_budget_event_fact:
  assumes "parse_budget_fact ev = Inr f" "ev_seq ev = n"
  shows "apply_budget_event dir s (n, ev) =
    (if dict_has (fact_operation_id f) (lg_operations s) then budget_error ''budget-operation-duplicate'' n
     else wrap_unless is_budget_protocol_error (BudgetProtocolError ''budget-payload-invalid'' n)
       (map_ok (stamped (dict_set (fact_operation_id f) (ledger_operation_of f ev) (lg_operations s)) n)
          (apply_fact dir f s)))"
proof -
  have n: "fact_seq f = n" using parse_budget_fact_ok[OF assms(1)] assms(2) by simp
  have st: "s\<lparr>lg_operations := ops\<rparr> = stamped ops (lg_head_seq s) s" for ops by (simp add: stamped_def)
  have hd: "(stamped ops m s2)\<lparr>lg_head_seq := n\<rparr> = stamped ops n s2" for ops m s2 by (simp add: stamped_def)
  show ?thesis
    using assms n
    by (cases "apply_fact dir f s")
      (simp_all add: apply_budget_event_def record_operation_def budget_error_def is_budget_protocol_error_def
        st hd apply_fact_stamped ledger_operation_of_def raise_if_def)
qed

lemma apply_budget_event_Inr:
  "apply_budget_event dir s (n, ev) = Inr s' \<longleftrightarrow>
    (\<exists>f s0. ev_seq ev = n \<and> parse_budget_fact ev = Inr f \<and> \<not> dict_has (fact_operation_id f) (lg_operations s) \<and>
       apply_fact dir f s = Inr s0 \<and>
       s' = stamped (dict_set (fact_operation_id f) (ledger_operation_of f ev) (lg_operations s)) n s0)"
    (is "?L \<longleftrightarrow> ?R")
proof
  assume L: ?L
  then obtain f where "ev_seq ev = n" "parse_budget_fact ev = Inr f"
    by (auto elim: apply_budget_eventE)
  with L show ?R
    by (auto simp: apply_budget_event_fact budget_error_def map_ok_def result_simps split: if_splits)
next
  assume ?R
  then show ?L by (auto simp: apply_budget_event_fact)
qed

section \<open>The arithmetic cannot fail\<close>

definition only_protocol_errors :: "'a result \<Rightarrow> bool" where
  "only_protocol_errors r \<longleftrightarrow> (\<forall>e. r = Inl e \<longrightarrow> is_budget_protocol_error e)"

lemma only_protocol_simps [simp]:
  "only_protocol_errors (Inr x)" "only_protocol_errors (budget_error c n)"
  "only_protocol_errors (Inl e) = is_budget_protocol_error e"
  "is_budget_protocol_error (BudgetProtocolError c n)"
  "only_protocol_errors (raise_if b e) = (b \<longrightarrow> is_budget_protocol_error e)"
  by (simp_all add: only_protocol_errors_def budget_error_def is_budget_protocol_error_def raise_if_def)

lemma only_protocol_rbind [intro!]:
  "only_protocol_errors r \<Longrightarrow> (\<And>x. r = Inr x \<Longrightarrow> only_protocol_errors (g x)) \<Longrightarrow> only_protocol_errors (rbind r g)"
  by (cases r) simp_all

lemma only_protocol_checks [simp]:
  "only_protocol_errors (child_debit p l n)" "only_protocol_errors (ensure_capacity a d n k)"
  "only_protocol_errors (ensure_retained_tokens a d t n)"
  "only_protocol_errors (directory_child dir x c q n)" "only_protocol_errors (open_account_or as z n)"
  by (auto simp: child_debit_def ensure_capacity_def ensure_retained_tokens_def directory_child_def
      open_account_or_def account_or_def Let_def budget_error_def split: option.splits if_splits)

lemma only_protocol_token_capacity: "only_protocol_errors (token_capacity as rs p c t n)"
  by (auto simp: token_capacity_def Let_def split: option.splits)

lemma subtract_covered:
  assumes "\<And>f. f \<in> amount_dims \<Longrightarrow> f b \<le> f a"
  shows "\<exists>c. subtract_amounts a b = Inr c"
  using assms[of ba_tokens] assms[of ba_steps] assms[of ba_tool_calls] assms[of ba_wall_milliseconds]
  by (simp add: amount_dims_def subtract_amounts_def amount_values_def Let_def)

lemma delegated_covers:
  assumes inv: "ledger_inv dir s" and r: "map_of (lg_reservations s) rs = Some r" "brs_status r \<noteq> Reservation_Released"
    and a: "map_of (lg_accounts s) (brs_parent_agent_id r) = Some a" and f: "f \<in> amount_dims"
  shows "f (held r) \<le> f (bac_delegated a)"
proof -
  let ?k = "brs_parent_agent_id r"
  have st: "structure_ok dir s" using inv by (simp add: ledger_inv_def)
  have h: "0 \<le> f (held q)" if q: "q \<in> set (dict_values (lg_reservations s))" for q
  proof -
    obtain g where "initial_token_limits (brs_child_limits q) (brs_initial_tokens q) = Inr g" "limits_ok g"
      using st q by (auto simp: structure_ok_def reservation_ok_def)
    then show ?thesis using limits_amounts_nonneg[OF _ f] by (simp add: granted_held)
  qed
  have "debit_hold ?k f r \<le> dict_sum (debit_hold ?k f) (lg_reservations s)"
    using r(1) by (rule dict_sum_member_le) (simp add: debit_hold_def h)
  moreover have "0 \<le> dict_sum (decision_hold ?k f) (lg_token_decisions s)"
    using st f by (intro dict_sum_nonneg) (auto simp: decision_hold_def structure_ok_def decision_ok_def
        decision_amounts_def no_amounts_def amount_dims_def)
  moreover have "f (bac_delegated a) = ledger_delegated s ?k f"
    using inv a f by (simp add: ledger_inv_def balanced_def account_balanced_def)
  ultimately show ?thesis using r(2) by (simp add: ledger_delegated_def debit_hold_def)
qed

lemma reserved_covers:
  assumes inv: "ledger_inv dir s" and u: "map_of (lg_usage s) rs = Some u" "ur_status u \<in> {Usage_Pending, Usage_Started}"
    and a: "map_of (lg_accounts s) (ur_agent_id u) = Some a" and f: "f \<in> amount_dims"
  shows "f (ur_amounts u) \<le> f (bac_reserved a)"
proof -
  have st: "structure_ok dir s" using inv by (simp add: ledger_inv_def)
  have "usage_hold (ur_agent_id u) f u \<le> dict_sum (usage_hold (ur_agent_id u) f) (lg_usage s)"
    using u(1)
  proof (rule dict_sum_member_le)
    fix v assume "v \<in> set (dict_values (lg_usage s))"
    then have "amounts_ok (ur_amounts v)" using st by (auto simp: structure_ok_def usage_ok_def)
    then show "0 \<le> usage_hold (ur_agent_id u) f v" using f by (simp add: usage_hold_def dim_nonneg)
  qed
  moreover have "f (bac_reserved a) = ledger_reserved s (ur_agent_id u) f"
    using inv a f by (simp add: ledger_inv_def balanced_def account_balanced_def)
  ultimately show ?thesis using u(2) by (auto simp: ledger_reserved_def usage_hold_def)
qed

lemma released_only_protocol:
  assumes inv: "ledger_inv dir s"
  shows "only_protocol_errors (apply_reservation_released dir rs n s)"
proof (cases "map_of (lg_reservations s) rs")
  case None
  then show ?thesis by (simp add: apply_reservation_released_def)
next
  case (Some r)
  have st: "structure_ok dir s" using inv by (simp add: ledger_inv_def)
  have rok: "reservation_ok dir (lg_accounts s) r" using structure_okD(2)[OF st Some] .
  then obtain a g where a: "map_of (lg_accounts s) (brs_parent_agent_id r) = Some a"
    and g: "initial_token_limits (brs_child_limits r) (brs_initial_tokens r) = Inr g"
    by (auto simp: reservation_ok_def dict_has_iff)
  show ?thesis
  proof (cases "brs_status r = Reservation_Pending")
    case True
    have "\<exists>c. subtract_amounts (bac_delegated a) (limits_amounts g) = Inr c"
      using subtract_covered delegated_covers[OF inv Some _ a] True granted_held[OF g] by simp
    then show ?thesis
      using Some a g by (auto simp: apply_reservation_released_def account_or_def child_debit_Inr)
  qed (simp add: apply_reservation_released_def Some)
qed

lemma ended_only_protocol:
  assumes inv: "ledger_inv dir s"
  shows "only_protocol_errors (apply_usage_ended rs settled n s)"
proof (cases "map_of (lg_usage s) rs")
  case None
  then show ?thesis by (simp add: apply_usage_ended_def)
next
  case (Some u)
  have st: "structure_ok dir s" using inv by (simp add: ledger_inv_def)
  obtain a where a: "map_of (lg_accounts s) (ur_agent_id u) = Some a"
    using structure_okD(3)[OF st Some] by (auto simp: usage_ok_def dict_has_iff)
  show ?thesis
  proof (cases "ur_status u = (if settled \<noteq> None then Usage_Started else Usage_Pending)")
    case True
    then have "ur_status u \<in> {Usage_Pending, Usage_Started}" by simp
    then have "\<exists>c. subtract_amounts (bac_reserved a) (ur_amounts u) = Inr c"
      using subtract_covered reserved_covers[OF inv Some _ a] by blast
    then show ?thesis
      using Some a True by (cases settled) (auto simp: apply_usage_ended_def account_or_def Let_def)
  qed (simp add: apply_usage_ended_def Some)
qed

lemma decision_only_protocol: "only_protocol_errors (apply_token_decision f s)"
proof (cases "token_capacity (lg_accounts s) (lg_reservations s) (ctd_parent_agent_id f)
                 (ctd_child_agent_id f) (ctd_tokens f) (ctd_seq f)")
  case (Inl e)
  then have "is_budget_protocol_error e"
    using only_protocol_token_capacity by (metis only_protocol_errors_def)
  with Inl show ?thesis by (simp add: apply_token_decision_def)
next
  case (Inr pc)
  obtain p c where pc: "pc = (p, c)" by (cases pc)
  then obtain m where "bl_max_tokens (bac_limits c) = Some m"
    using token_capacity_Inr Inr by metis
  then show ?thesis using Inr pc by (simp add: apply_token_decision_def Let_def)
qed

lemma apply_fact_only_protocol:
  assumes inv: "ledger_inv dir s" and g: "\<And>c. f = Child_Reserved c \<Longrightarrow>
      is_ok (initial_token_limits (crf_child_limits c) (crf_initial_tokens c))"
  shows "only_protocol_errors (apply_fact dir f s)"
proof (cases f)
  case (Root_Granted op a l n)
  then show ?thesis by (simp add: apply_root_granted_def split: option.split)
next
  case (Child_Reserved c)
  have "only_protocol_errors (initial_token_limits (crf_child_limits c) (crf_initial_tokens c))"
    using g[OF Child_Reserved] by (auto simp: is_ok_iff)
  then show ?thesis
    by (auto simp: Child_Reserved apply_child_reserved_def Let_def split: option.split)
next
  case (Reservation_Committed_Fact op rs n)
  have "is_ok (initial_token_limits (brs_child_limits r) (brs_initial_tokens r))"
    if "map_of (lg_reservations s) rs = Some r" for r
  proof -
    have "structure_ok dir s" using inv by (simp add: ledger_inv_def)
    from structure_okD(2)[OF this that] show ?thesis by (auto simp: reservation_ok_def)
  qed
  then show ?thesis
    by (auto simp: Reservation_Committed_Fact apply_reservation_committed_def Let_def is_ok_iff split: option.split)
next
  case (Reservation_Released_Fact op rs n)
  then show ?thesis using released_only_protocol[OF inv] by simp
next
  case (Usage_Charged op a am m q n)
  then show ?thesis by (auto simp: apply_usage_charged_def)
next
  case (Usage_Reserved op rs a am n)
  then show ?thesis by (auto simp: apply_usage_reserved_def Let_def)
next
  case (Usage_Started_Fact op rs n)
  then show ?thesis by (simp add: apply_usage_started_def split: option.split)
next
  case (Usage_Settled_Fact op rs am q n)
  then show ?thesis using ended_only_protocol[OF inv] by simp
next
  case (Usage_Released_Fact op rs n)
  then show ?thesis using ended_only_protocol[OF inv] by simp
next
  case (Account_Closed_Fact op a n)
  then show ?thesis by (auto simp: apply_account_closed_def account_or_def split: option.split)
next
  case (Child_Token_Decided t)
  then show ?thesis using decision_only_protocol by simp
qed

section \<open>The operation index is the log\<close>

lemma number_from_append:
  "number_from n (xs @ ys) = number_from n xs @ number_from (n + int (length xs)) ys"
  by (induction xs arbitrary: n) (simp_all add: algebra_simps)

lemma rebuild_ledger_snoc:
  "rebuild_ledger (es @ [ev]) dir =
     rbind (rebuild_ledger es dir) (\<lambda>s. apply_budget_event dir s (int (length es) + 1, ev))"
  using ledger.run_snoc[of dir "number_from 1 es" "(int (length es) + 1, ev)"]
  by (simp add: rebuild_ledger_def number_from_append add.commute)

lemma apply_fact_keeps_operations:
  "apply_fact dir f s = Inr s' \<Longrightarrow> lg_operations s' = lg_operations s"
  using apply_fact_frame by blast

definition logged :: "event_envelope list \<Rightarrow> pystr \<Rightarrow> ledger_operation \<Rightarrow> bool" where
  "logged es op lo \<longleftrightarrow> (\<exists>i < length es. \<exists>f. parse_budget_fact (es ! i) = Inr f \<and> fact_operation_id f = op \<and>
     fact_seq f = int i + 1 \<and> lo = ledger_operation_of f (es ! i))"

lemma logged_snoc:
  assumes "parse_budget_fact ev = Inr f" "fact_seq f = int (length es) + 1"
  shows "logged (es @ [ev]) op lo \<longleftrightarrow> logged es op lo \<or> (op = fact_operation_id f \<and> lo = ledger_operation_of f ev)"
proof -
  have "logged (es @ [ev]) op lo \<longleftrightarrow> (\<exists>i < length es. \<exists>f. parse_budget_fact (es ! i) = Inr f \<and>
      fact_operation_id f = op \<and> fact_seq f = int i + 1 \<and> lo = ledger_operation_of f (es ! i)) \<or>
     (\<exists>f. parse_budget_fact ev = Inr f \<and> fact_operation_id f = op \<and>
      fact_seq f = int (length es) + 1 \<and> lo = ledger_operation_of f ev)"
    unfolding logged_def by (simp add: less_Suc_eq nth_append conj_disj_distribR ex_disj_distrib cong: conj_cong)
  then show ?thesis using assms by (auto simp: logged_def)
qed

lemma length_dict_set_new: "map_of d k = None \<Longrightarrow> length (dict_set k v d) = length d + 1"
  by (induction k v d rule: dict_set.induct) (auto split: if_splits)

lemma ledger_log:
  assumes "rebuild_ledger es dir = Inr s"
  shows "lg_head_seq s = int (length es) \<and> length (lg_operations s) = length es \<and>
    (\<forall>op lo. map_of (lg_operations s) op = Some lo \<longleftrightarrow> logged es op lo)"
  using assms
proof (induction es arbitrary: s rule: rev_induct)
  case Nil
  then show ?case by (auto simp: rebuild_ledger_def empty_ledger_def logged_def)
next
  case (snoc ev es)
  then obtain s0 where s0: "rebuild_ledger es dir = Inr s0"
    and step: "apply_budget_event dir s0 (int (length es) + 1, ev) = Inr s"
    by (auto simp: rebuild_ledger_snoc rbind_eq_Inr)
  note IH = snoc.IH[OF s0]
  obtain f t where f: "parse_budget_fact ev = Inr f" "ev_seq ev = int (length es) + 1"
    and new: "\<not> dict_has (fact_operation_id f) (lg_operations s0)"
    and s: "s = stamped (dict_set (fact_operation_id f) (ledger_operation_of f ev) (lg_operations s0)) (int (length es) + 1) t"
    using step by (auto simp: apply_budget_event_Inr)
  have n: "fact_seq f = int (length es) + 1" using parse_budget_fact_ok[OF f(1)] f(2) by simp
  have "map_of (lg_operations s0) (fact_operation_id f) = None" using new by (simp add: dict_has_def)
  then have "length (dict_set (fact_operation_id f) v (lg_operations s0)) = length (lg_operations s0) + 1" for v
    by (rule length_dict_set_new)
  with IH new show ?case
    by (auto simp: s stamped_def logged_snoc[OF f(1) n] dict_has_def)
qed

end
