(* ===== verification/Budget_Evolution.thy ===== *)
theory Budget_Evolution imports Budget_Replay begin

text \<open>
  How a ledger changes as its stream grows: accounts, reservations and usage reservations keep
  their identity and move along their state machines, charges, decisions and operations are
  never revised, and a closed account never changes again.
\<close>

section \<open>State machines\<close>

inductive usage_moves :: "usage_status \<Rightarrow> usage_status \<Rightarrow> bool" where
  usage_start: "usage_moves Usage_Pending Usage_Started"
| usage_settle: "usage_moves Usage_Started Usage_Settled"
| usage_release: "usage_moves Usage_Pending Usage_Released"

inductive_cases usage_movesE: "usage_moves u v"

inductive_simps usage_moves_from [simp]: "usage_moves Usage_Settled v" "usage_moves Usage_Released v"

inductive reservation_moves :: "reservation_status \<Rightarrow> reservation_status \<Rightarrow> bool" where
  reservation_release: "reservation_moves Reservation_Pending Reservation_Released"
| reservation_confirm: "reservation_moves Reservation_Committed Reservation_Committed"

inductive_cases reservation_movesE: "reservation_moves r q"

inductive_simps reservation_moves_from [simp]: "reservation_moves Reservation_Released q"

lemma usage_final: "usage_moves\<^sup>*\<^sup>* u v \<Longrightarrow> u \<in> {Usage_Settled, Usage_Released} \<Longrightarrow> v = u"
  by (induction rule: rtranclp_induct) auto

lemma reservation_final: "reservation_moves\<^sup>*\<^sup>* r q \<Longrightarrow> r \<noteq> Reservation_Pending \<Longrightarrow> q = r"
  by (induction rule: rtranclp_induct) (auto elim: reservation_movesE)

section \<open>Evolution of the ledger\<close>

definition dict_evolves :: "('v \<Rightarrow> 'v \<Rightarrow> bool) \<Rightarrow> ('k, 'v) dict \<Rightarrow> ('k, 'v) dict \<Rightarrow> bool" where
  "dict_evolves E d d' \<longleftrightarrow> (\<forall>k v. map_of d k = Some v \<longrightarrow> (\<exists>w. map_of d' k = Some w \<and> E v w))"

lemma dict_evolves_refl: "(\<And>v. E v v) \<Longrightarrow> dict_evolves E d d"
  by (simp add: dict_evolves_def)

lemma dict_evolves_trans:
  "(\<And>a b c. E a b \<Longrightarrow> E b c \<Longrightarrow> E a c) \<Longrightarrow> dict_evolves E d1 d2 \<Longrightarrow> dict_evolves E d2 d3 \<Longrightarrow> dict_evolves E d1 d3"
  unfolding dict_evolves_def by meson

lemma dict_evolves_set:
  "(\<And>v. E v v) \<Longrightarrow> (\<And>v. map_of d k = Some v \<Longrightarrow> E v w) \<Longrightarrow> dict_evolves E d (dict_set k w d)"
  by (auto simp: dict_evolves_def)

definition amounts_grow :: "budget_amounts \<Rightarrow> budget_amounts \<Rightarrow> bool" where
  "amounts_grow x y \<longleftrightarrow> (\<forall>f \<in> amount_dims. f x \<le> f y)"

lemma amounts_grow_refl [simp]: "amounts_grow x x"
  by (simp add: amounts_grow_def)

lemma amounts_grow_trans: "amounts_grow x y \<Longrightarrow> amounts_grow y z \<Longrightarrow> amounts_grow x z"
  unfolding amounts_grow_def by (meson order_trans)

lemma amounts_grow_add: "amounts_ok y \<Longrightarrow> amounts_grow x (add_amounts x y)"
  by (simp add: amounts_grow_def dim_simps dim_nonneg)

definition account_evolves :: "budget_account \<Rightarrow> budget_account \<Rightarrow> bool" where
  "account_evolves a b \<longleftrightarrow> bac_agent_id b = bac_agent_id a \<and> bac_parent_agent_id b = bac_parent_agent_id a \<and>
     bac_created_seq b = bac_created_seq a \<and> amounts_grow (bac_charged a) (bac_charged b) \<and>
     (bl_max_tokens (bac_limits b) = bl_max_tokens (bac_limits a) \<or>
        (\<exists>m n. bl_max_tokens (bac_limits a) = Some m \<and> bl_max_tokens (bac_limits b) = Some n \<and> m \<le> n)) \<and>
     (bac_limits b)\<lparr>bl_max_tokens := None\<rparr> = (bac_limits a)\<lparr>bl_max_tokens := None\<rparr> \<and>
     (bac_status a = Account_Closed \<longrightarrow> b = a)"

definition usage_evolves :: "usage_reservation \<Rightarrow> usage_reservation \<Rightarrow> bool" where
  "usage_evolves u v \<longleftrightarrow> ur_reservation_id v = ur_reservation_id u \<and> ur_agent_id v = ur_agent_id u \<and>
     ur_amounts v = ur_amounts u \<and> ur_reserved_seq v = ur_reserved_seq u \<and>
     usage_moves\<^sup>*\<^sup>* (ur_status u) (ur_status v) \<and>
     (ur_status u \<in> {Usage_Settled, Usage_Released} \<longrightarrow> v = u)"

definition reservation_evolves :: "budget_reservation \<Rightarrow> budget_reservation \<Rightarrow> bool" where
  "reservation_evolves r q \<longleftrightarrow> brs_reservation_id q = brs_reservation_id r \<and>
     brs_parent_agent_id q = brs_parent_agent_id r \<and> brs_child_agent_id q = brs_child_agent_id r \<and>
     brs_creation_request_id q = brs_creation_request_id r \<and> brs_child_limits q = brs_child_limits r \<and>
     brs_retained_tokens q = brs_retained_tokens r \<and> brs_initial_tokens q = brs_initial_tokens r \<and>
     reservation_moves\<^sup>*\<^sup>* (brs_status r) (brs_status q) \<and> (brs_terminal_seq r \<noteq> None \<longrightarrow> q = r) \<and>
     (brs_status q = Reservation_Released \<longrightarrow> brs_terminal_seq q \<noteq> None \<or> q = r)"

lemma evolves_refl [simp]: "account_evolves a a" "usage_evolves u u" "reservation_evolves r r"
  by (simp_all add: account_evolves_def usage_evolves_def reservation_evolves_def)

lemma account_evolves_trans:
  assumes "account_evolves a b" "account_evolves b c"
  shows "account_evolves a c"
proof -
  have "amounts_grow (bac_charged a) (bac_charged c)"
    using assms amounts_grow_trans by (auto simp: account_evolves_def)
  moreover have "bl_max_tokens (bac_limits c) = bl_max_tokens (bac_limits a) \<or>
        (\<exists>m n. bl_max_tokens (bac_limits a) = Some m \<and> bl_max_tokens (bac_limits c) = Some n \<and> m \<le> n)"
    using assms by (auto simp: account_evolves_def)
  ultimately show ?thesis using assms by (auto simp: account_evolves_def)
qed

lemma usage_evolves_trans: "usage_evolves u v \<Longrightarrow> usage_evolves v w \<Longrightarrow> usage_evolves u w"
  unfolding usage_evolves_def by auto

lemma reservation_evolves_trans:
  "reservation_evolves r q \<Longrightarrow> reservation_evolves q p \<Longrightarrow> reservation_evolves r p"
  unfolding reservation_evolves_def by auto

definition ledger_evolves :: "ledger \<Rightarrow> ledger \<Rightarrow> bool" where
  "ledger_evolves s t \<longleftrightarrow> dict_evolves account_evolves (lg_accounts s) (lg_accounts t) \<and>
     dict_evolves reservation_evolves (lg_reservations s) (lg_reservations t) \<and>
     dict_evolves usage_evolves (lg_usage s) (lg_usage t) \<and>
     dict_evolves (=) (lg_charges s) (lg_charges t) \<and>
     dict_evolves (=) (lg_token_decisions s) (lg_token_decisions t) \<and>
     dict_evolves (=) (lg_operations s) (lg_operations t)"

lemma ledger_evolves_refl: "ledger_evolves s s"
  by (simp add: ledger_evolves_def dict_evolves_refl)

lemma dict_evolves_eq:
  "dict_evolves (=) d1 d2 \<Longrightarrow> dict_evolves (=) d2 d3 \<Longrightarrow> dict_evolves (=) d1 d3"
  "map_of d k = None \<Longrightarrow> dict_evolves (=) d (dict_set k v d)"
  by (auto simp: dict_evolves_def)

lemma ledger_dict_trans:
  "dict_evolves account_evolves d1 d2 \<Longrightarrow> dict_evolves account_evolves d2 d3 \<Longrightarrow> dict_evolves account_evolves d1 d3"
  "dict_evolves reservation_evolves e1 e2 \<Longrightarrow> dict_evolves reservation_evolves e2 e3 \<Longrightarrow> dict_evolves reservation_evolves e1 e3"
  "dict_evolves usage_evolves f1 f2 \<Longrightarrow> dict_evolves usage_evolves f2 f3 \<Longrightarrow> dict_evolves usage_evolves f1 f3"
  using dict_evolves_trans[of account_evolves d1 d2 d3] account_evolves_trans
    dict_evolves_trans[of reservation_evolves e1 e2 e3] reservation_evolves_trans
    dict_evolves_trans[of usage_evolves f1 f2 f3] usage_evolves_trans
  by blast+

lemma ledger_evolves_trans: "ledger_evolves r s \<Longrightarrow> ledger_evolves s t \<Longrightarrow> ledger_evolves r t"
  unfolding ledger_evolves_def by (elim conjE, intro conjI) (erule (1) ledger_dict_trans dict_evolves_eq(1))+

lemma ledger_evolves_put:
  "(\<And>a. map_of (lg_accounts s) k = Some a \<Longrightarrow> account_evolves a b) \<Longrightarrow> ledger_evolves s (put_account k b s)"
  "(\<And>r. map_of (lg_reservations s) k = Some r \<Longrightarrow> reservation_evolves r q) \<Longrightarrow> ledger_evolves s (put_reservation k q s)"
  "(\<And>u. map_of (lg_usage s) k = Some u \<Longrightarrow> usage_evolves u v) \<Longrightarrow> ledger_evolves s (put_usage k v s)"
  "map_of (lg_charges s) k = None \<Longrightarrow> ledger_evolves s (put_charge k c s)"
  "map_of (lg_token_decisions s) k = None \<Longrightarrow> ledger_evolves s (put_decision k t s)"
  by (simp_all add: ledger_evolves_def dict_evolves_refl dict_evolves_set dict_evolves_eq(2))

lemma ledger_evolves_cong:
  assumes "lg_accounts t' = lg_accounts t" "lg_reservations t' = lg_reservations t" "lg_usage t' = lg_usage t"
    "lg_charges t' = lg_charges t" "lg_token_decisions t' = lg_token_decisions t" "lg_operations t' = lg_operations t"
  shows "ledger_evolves s t' = ledger_evolves s t"
  using assms by (simp add: ledger_evolves_def)

section \<open>Closed accounts are idle\<close>

definition is_open :: "ledger \<Rightarrow> pystr \<Rightarrow> bool" where
  "is_open s k \<longleftrightarrow> (\<forall>a. map_of (lg_accounts s) k = Some a \<longrightarrow> bac_status a = Account_Open)"

definition closed_idle :: "ledger \<Rightarrow> bool" where
  "closed_idle s \<longleftrightarrow>
     (\<forall>r \<in> set (dict_values (lg_reservations s)). brs_status r = Reservation_Pending \<longrightarrow> is_open s (brs_parent_agent_id r)) \<and>
     (\<forall>u \<in> set (dict_values (lg_usage s)). ur_status u \<in> {Usage_Pending, Usage_Started} \<longrightarrow> is_open s (ur_agent_id u))"

lemma is_open_put [simp]:
  "is_open (put_account k b s) i = (if i = k then bac_status b = Account_Open else is_open s i)"
  "is_open (put_reservation k r s) = is_open s" "is_open (put_usage k u s) = is_open s"
  "is_open (put_charge k c s) = is_open s" "is_open (put_decision k t s) = is_open s"
  by (simp_all add: is_open_def fun_eq_iff)

lemma closed_idle_put_account:
  "closed_idle s \<Longrightarrow> bac_status b = Account_Open \<Longrightarrow> closed_idle (put_account k b s)"
  "closed_idle s \<Longrightarrow> map_of (lg_accounts s) k = Some a \<Longrightarrow> bac_status b = bac_status a \<Longrightarrow> closed_idle (put_account k b s)"
  by (auto simp: closed_idle_def split: if_splits) (auto simp: is_open_def)

lemma closed_idle_put:
  "closed_idle s \<Longrightarrow> brs_status r = Reservation_Pending \<longrightarrow> is_open s (brs_parent_agent_id r) \<Longrightarrow> closed_idle (put_reservation k r s)"
  "closed_idle s \<Longrightarrow> ur_status u \<in> {Usage_Pending, Usage_Started} \<longrightarrow> is_open s (ur_agent_id u) \<Longrightarrow> closed_idle (put_usage k u s)"
  "closed_idle s \<Longrightarrow> closed_idle (put_charge k c s)" "closed_idle s \<Longrightarrow> closed_idle (put_decision k t s)"
  using dict_values_set_all[of "lg_reservations s" "\<lambda>r. brs_status r = Reservation_Pending \<longrightarrow> is_open s (brs_parent_agent_id r)" r k]
    dict_values_set_all[of "lg_usage s" "\<lambda>u. ur_status u \<in> {Usage_Pending, Usage_Started} \<longrightarrow> is_open s (ur_agent_id u)" u k]
  unfolding closed_idle_def is_open_put put_reservation_sel put_usage_sel put_charge_sel put_decision_sel by blast+

lemma closed_idle_cong:
  "lg_accounts t = lg_accounts s \<Longrightarrow> lg_reservations t = lg_reservations s \<Longrightarrow> lg_usage t = lg_usage s \<Longrightarrow> closed_idle t = closed_idle s"
  by (simp add: closed_idle_def is_open_def)

lemma closed_idleD:
  assumes "closed_idle s"
  shows "map_of (lg_reservations s) k = Some r \<Longrightarrow> brs_status r = Reservation_Pending \<Longrightarrow> is_open s (brs_parent_agent_id r)"
    and "map_of (lg_usage s) k = Some u \<Longrightarrow> ur_status u \<in> {Usage_Pending, Usage_Started} \<Longrightarrow> is_open s (ur_agent_id u)"
  using assms dict_values_lookup[of "lg_reservations s" k r] dict_values_lookup[of "lg_usage s" k u]
  by (auto simp: closed_idle_def)

section \<open>Every step is an evolution\<close>

definition evolution :: "ledger \<Rightarrow> ledger \<Rightarrow> bool" where
  "evolution s t \<longleftrightarrow> closed_idle t \<and> ledger_evolves s t"

lemma evolution_trans: "evolution r s \<Longrightarrow> evolution s t \<Longrightarrow> evolution r t"
  unfolding evolution_def using ledger_evolves_trans by blast

lemma evolution_refl: "closed_idle s \<Longrightarrow> evolution s s"
  by (simp add: evolution_def ledger_evolves_refl)

lemma evolution_cong:
  assumes "evolution s t" "lg_accounts t' = lg_accounts t" "lg_reservations t' = lg_reservations t" "lg_usage t' = lg_usage t"
    "lg_charges t' = lg_charges t" "lg_token_decisions t' = lg_token_decisions t" "lg_operations t' = lg_operations t"
  shows "evolution s t'"
  using assms ledger_evolves_cong[of t' t s] closed_idle_cong[of t' t] by (simp add: evolution_def)

lemma evolution_new_account:
  assumes "closed_idle s" "map_of (lg_accounts s) k = None"
  shows "evolution s (put_account k (new_account k p l n) s)"
  using assms
  by (auto simp: evolution_def new_account_def intro!: closed_idle_put_account(1) ledger_evolves_put)

lemma evolution_open_account:
  assumes "closed_idle s" "map_of (lg_accounts s) k = Some a" "bac_status a = Account_Open"
    "bac_status b = Account_Open" "account_evolves a b"
  shows "evolution s (put_account k b s)"
  using assms by (auto simp: evolution_def intro!: closed_idle_put_account(1) ledger_evolves_put)

lemma evolution_new_reservation:
  assumes "closed_idle s" "map_of (lg_reservations s) k = None" "is_open s (brs_parent_agent_id r)"
  shows "evolution s (put_reservation k r s)"
  using assms closed_idle_put(1)[of s r k] by (auto simp: evolution_def intro!: ledger_evolves_put)

lemma evolution_reservation:
  assumes "closed_idle s" "map_of (lg_reservations s) k = Some r" "brs_status q \<noteq> Reservation_Pending" "reservation_evolves r q"
  shows "evolution s (put_reservation k q s)"
  using assms closed_idle_put(1)[of s q k] by (auto simp: evolution_def intro!: ledger_evolves_put)

lemma evolution_new_usage:
  assumes "closed_idle s" "map_of (lg_usage s) k = None" "is_open s (ur_agent_id u)"
  shows "evolution s (put_usage k u s)"
  using assms closed_idle_put(2)[of s u k] by (auto simp: evolution_def intro!: ledger_evolves_put)

lemma evolution_usage:
  assumes "closed_idle s" "map_of (lg_usage s) k = Some u" "ur_status u \<in> {Usage_Pending, Usage_Started}" "usage_evolves u v"
  shows "evolution s (put_usage k v s)"
proof -
  have "is_open s (ur_agent_id v)"
    using closed_idleD(2)[OF assms(1-3)] assms(4) by (simp add: usage_evolves_def)
  then show ?thesis using assms closed_idle_put(2)[of s v k] by (auto simp: evolution_def intro!: ledger_evolves_put)
qed

lemma evolution_charge:
  "closed_idle s \<Longrightarrow> map_of (lg_charges s) k = None \<Longrightarrow> evolution s (put_charge k c s)"
  by (simp add: evolution_def closed_idle_put(3) ledger_evolves_put(4))

lemma evolution_decision:
  "closed_idle s \<Longrightarrow> map_of (lg_token_decisions s) k = None \<Longrightarrow> evolution s (put_decision k t s)"
  by (simp add: evolution_def closed_idle_put(4) ledger_evolves_put(5))

lemma is_openI: "map_of (lg_accounts s) k = Some a \<Longrightarrow> bac_status a = Account_Open \<Longrightarrow> is_open s k"
  by (simp add: is_open_def)

lemma is_openD: "is_open s k \<Longrightarrow> map_of (lg_accounts s) k = Some a \<Longrightarrow> bac_status a = Account_Open"
  by (simp add: is_open_def)

lemma evolution_root:
  assumes "closed_idle s" "apply_root_granted dir a l n s = Inr t"
  shows "evolution s t"
  using assms(2) by (rule root_grantedE) (use assms(1) in \<open>simp add: evolution_new_account\<close>)

lemma evolution_child_reserved:
  assumes idle: "closed_idle s" and "apply_child_reserved dir f s = Inr t"
  shows "evolution s t"
  using assms(2)
proof (rule child_reservedE)
  fix parent granted durable
  assume p: "map_of (lg_accounts s) (crf_parent_agent_id f) = Some parent" "bac_status parent = Account_Open"
    and c: "reservation_conflict f s = None" and t: "t = reserved_state f parent granted durable s"
  let ?b = "reserve_debit parent \<lparr>rd_amounts = limits_amounts granted, rd_children = 1\<rparr>"
  let ?s1 = "put_account (crf_parent_agent_id f) ?b s" and ?s2 = "reserved_accounts f parent granted durable s"
  let ?r = "new_reservation f durable"
  have cf: "map_of (lg_reservations s) (crf_reservation_id f) = None" "crf_child_agent_id f \<noteq> crf_parent_agent_id f"
    "map_of (lg_accounts s) (crf_child_agent_id f) = None"
    using conflict_none[OF c] by blast+
  have "account_evolves parent ?b" "bac_status ?b = Account_Open"
    using p(2) by (simp_all add: account_evolves_def reserve_debit_def)
  then have e1: "evolution s ?s1" using evolution_open_account[OF idle p] by blast
  have "evolution ?s1 (put_account (crf_child_agent_id f)
      (new_account (crf_child_agent_id f) (Some (crf_parent_agent_id f)) granted (crf_seq f)) ?s1)"
    using e1 cf by (intro evolution_new_account) (simp_all add: evolution_def)
  then have e2: "evolution s ?s2"
    using e1 evolution_trans by (auto simp: reserved_accounts_def Let_def)
  have "is_open ?s2 (crf_parent_agent_id f)"
    using p(2) cf by (simp add: reserved_accounts_def Let_def reserve_debit_def)
  then have "evolution ?s2 (put_reservation (crf_reservation_id f) ?r ?s2)"
    using e2 cf by (intro evolution_new_reservation) (simp_all add: evolution_def)
  then have "evolution s (put_reservation (crf_reservation_id f) ?r ?s2)" using e2 evolution_trans by blast
  then show ?thesis unfolding t by (rule evolution_cong) (simp_all add: reserved_accounts_def Let_def)
qed

lemma evolution_committed:
  assumes ok: "structure_ok dir s" and idle: "closed_idle s" and "apply_reservation_committed dir rs n s = Inr t"
  shows "evolution s t"
  using assms(3)
proof (rule reservation_committedE)
  fix r :: budget_reservation and child :: agent_record and s1
  let ?q = "r\<lparr>brs_status := Reservation_Committed, brs_terminal_seq := Some n, brs_identity_seq := Some (rec_created_seq child)\<rparr>"
  assume r: "map_of (lg_reservations s) rs = Some r" "brs_status r \<noteq> Reservation_Released" "brs_terminal_seq r = None"
    and d: "directory_child dir (brs_parent_agent_id r) (brs_child_agent_id r) (brs_creation_request_id r) n = Inr (Some child)"
    and s1: "s1 = put_reservation rs ?q s"
    and t: "(dict_has (brs_child_agent_id r) (lg_accounts s) \<and> t = s1) \<or>
     (\<exists>granted. \<not> dict_has (brs_child_agent_id r) (lg_accounts s) \<and>
        initial_token_limits (brs_child_limits r) (brs_initial_tokens r) = Inr granted \<and>
        t = put_account (brs_child_agent_id r)
               (new_account (brs_child_agent_id r) (Some (brs_parent_agent_id r)) granted (brs_reserved_seq r)) s1)"
  have "brs_status r = Reservation_Committed"
    using structure_okD(2)[OF ok r(1)] r(2) directory_child_get[OF d]
    by (cases "brs_status r") (auto simp: reservation_ok_def)
  then have "reservation_evolves r ?q" using r(3) by (simp add: reservation_evolves_def)
  then have e: "evolution s s1" unfolding s1 using evolution_reservation[OF idle r(1), of ?q] by simp
  from t show ?thesis
  proof (elim disjE exE conjE)
    fix granted
    assume "\<not> dict_has (brs_child_agent_id r) (lg_accounts s)"
      and t2: "t = put_account (brs_child_agent_id r)
               (new_account (brs_child_agent_id r) (Some (brs_parent_agent_id r)) granted (brs_reserved_seq r)) s1"
    then have "map_of (lg_accounts s1) (brs_child_agent_id r) = None" by (simp add: s1 dict_has_def)
    then have "evolution s1 t" using e unfolding t2 by (intro evolution_new_account) (simp_all add: evolution_def)
    then show ?thesis using e evolution_trans by blast
  qed (use e in simp)
qed

lemma evolution_released:
  assumes ok: "structure_ok dir s" and idle: "closed_idle s" and "apply_reservation_released dir rs n s = Inr t"
  shows "evolution s t"
  using assms(3)
proof (rule reservation_releasedE)
  fix r :: budget_reservation and parent :: budget_account and granted delegated
  let ?q = "r\<lparr>brs_status := Reservation_Released, brs_terminal_seq := Some n\<rparr>"
  let ?b = "parent\<lparr>bac_delegated := delegated, bac_reserved_children := bac_reserved_children parent - 1\<rparr>"
  assume r: "map_of (lg_reservations s) rs = Some r" "brs_status r = Reservation_Pending" "brs_terminal_seq r = None"
    and p: "map_of (lg_accounts s) (brs_parent_agent_id r) = Some parent"
    and t: "t = put_reservation rs ?q (put_account (bac_agent_id parent) ?b s)"
  have key: "bac_agent_id parent = brs_parent_agent_id r"
    using structure_okD(1)[OF ok p] by (simp add: account_ok_def)
  have op: "bac_status parent = Account_Open" using closed_idleD(1)[OF idle r(1,2)] p by (rule is_openD)
  have e1: "evolution s (put_account (bac_agent_id parent) ?b s)"
    using idle p op unfolding key by (intro evolution_open_account[where a = parent]) (simp_all add: account_evolves_def)
  have "reservation_evolves r ?q"
    using r(2,3) reservation_release by (auto simp: reservation_evolves_def)
  then have "evolution (put_account (bac_agent_id parent) ?b s) t"
    using e1 r unfolding t by (intro evolution_reservation[where r = r]) (simp_all add: evolution_def)
  then show ?thesis using e1 evolution_trans by blast
qed

lemma evolution_token_decision:
  assumes ok: "structure_ok dir s" and idle: "closed_idle s" and tk: "0 \<le> ctd_tokens f"
    and "apply_token_decision f s = Inr t"
  shows "evolution s t"
  using assms(4)
proof (rule token_decisionE)
  fix parent child :: budget_account and current
  let ?p = "parent\<lparr>bac_delegated := add_amounts (bac_delegated parent) (no_amounts\<lparr>ba_tokens := ctd_tokens f\<rparr>)\<rparr>"
  let ?c = "child\<lparr>bac_limits := (bac_limits child)\<lparr>bl_max_tokens := Some (current + ctd_tokens f)\<rparr>\<rparr>"
  let ?s1 = "put_account (bac_agent_id parent) ?p s"
  let ?s2 = "put_account (bac_agent_id child) ?c ?s1"
  assume new: "\<not> dict_has (ctd_request_id f) (lg_token_decisions s)"
    and p: "map_of (lg_accounts s) (ctd_parent_agent_id f) = Some parent" "bac_status parent = Account_Open"
    and c: "map_of (lg_accounts s) (ctd_child_agent_id f) = Some child" "bac_status child = Account_Open"
    and pc: "bac_parent_agent_id child = Some (ctd_parent_agent_id f)" and cur: "bl_max_tokens (bac_limits child) = Some current"
    and t: "t = put_decision (ctd_request_id f) f ?s2"
  have keys: "bac_agent_id parent = ctd_parent_agent_id f" "bac_agent_id child = ctd_child_agent_id f"
    using structure_okD(1)[OF ok p(1)] structure_okD(1)[OF ok c(1)] by (simp_all add: account_ok_def)
  have ne: "ctd_child_agent_id f \<noteq> ctd_parent_agent_id f"
    using structure_okD(1)[OF ok c(1)] pc by (auto simp: account_ok_def)
  have e1: "evolution s ?s1" unfolding keys
    by (rule evolution_open_account[OF idle p]) (use p in \<open>simp_all add: account_evolves_def\<close>)
  have e2: "evolution ?s1 ?s2" unfolding keys
    using e1 c ne cur tk keys
    by (intro evolution_open_account[where a = child]) (simp_all add: evolution_def account_evolves_def)
  have "map_of (lg_token_decisions ?s2) (ctd_request_id f) = None" using new by (simp add: dict_has_def)
  then have "evolution ?s2 t" using e2 unfolding t by (intro evolution_decision) (simp_all add: evolution_def)
  then show ?thesis using e1 e2 evolution_trans by blast
qed

lemma evolution_charged:
  assumes idle: "closed_idle s" and new: "map_of (lg_charges s) op = None" and am: "amounts_ok amounts"
    and "apply_usage_charged op a amounts mode q n s = Inr t"
  shows "evolution s t"
  using assms(4)
proof (rule usage_chargedE)
  fix account :: budget_account
  let ?a = "account\<lparr>bac_charged := add_amounts (bac_charged account) amounts\<rparr>"
  assume a: "map_of (lg_accounts s) a = Some account" "bac_status account = Account_Open"
    and t: "t = put_charge op \<lparr>bch_operation_id = op, bch_agent_id = a, bch_amounts = amounts,
               bch_mode = mode, bch_usage_quality = q, bch_charged_seq = n\<rparr> (put_account a ?a s)"
  have e: "evolution s (put_account a ?a s)"
    by (rule evolution_open_account[OF idle a]) (use a am in \<open>simp_all add: account_evolves_def amounts_grow_add\<close>)
  then have "evolution (put_account a ?a s) t"
    using new unfolding t by (intro evolution_charge) (simp_all add: evolution_def)
  then show ?thesis using e evolution_trans by blast
qed

lemma evolution_usage_reserved:
  assumes idle: "closed_idle s" and "apply_usage_reserved rs a amounts n s = Inr t"
  shows "evolution s t"
  using assms(2)
proof (rule usage_reservedE)
  fix account :: budget_account
  let ?a = "account\<lparr>bac_reserved := add_amounts (bac_reserved account) amounts\<rparr>"
  assume a: "map_of (lg_accounts s) a = Some account" "bac_status account = Account_Open"
    and new: "map_of (lg_usage s) rs = None"
    and t: "t = put_account a ?a (put_usage rs (new_usage rs a amounts n) s)"
  have e: "evolution s (put_usage rs (new_usage rs a amounts n) s)"
    using idle new is_openI[OF a] by (intro evolution_new_usage) simp_all
  then have "evolution (put_usage rs (new_usage rs a amounts n) s) t"
    unfolding t using a
    by (intro evolution_open_account[where a = account]) (simp_all add: evolution_def account_evolves_def)
  then show ?thesis using e evolution_trans by blast
qed

lemma evolution_started:
  assumes idle: "closed_idle s" and "apply_usage_started rs n s = Inr t"
  shows "evolution s t"
  using assms(2)
proof (rule usage_startedE)
  fix u :: usage_reservation
  assume u: "map_of (lg_usage s) rs = Some u" "ur_status u = Usage_Pending"
    and t: "t = put_usage rs (u\<lparr>ur_status := Usage_Started, ur_started_seq := Some n\<rparr>) s"
  show ?thesis unfolding t
    by (rule evolution_usage[OF idle u(1)]) (use u(2) usage_start in \<open>auto simp: usage_evolves_def\<close>)
qed

lemma evolution_ended:
  assumes ok: "structure_ok dir s" and idle: "closed_idle s"
    and am: "\<forall>amounts q. settled = Some (amounts, q) \<longrightarrow> amounts_ok amounts"
    and "apply_usage_ended rs settled n s = Inr t"
  shows "evolution s t"
  using assms(4)
proof (rule usage_endedE)
  fix u :: usage_reservation and account :: budget_account and reserved
  let ?a = "account\<lparr>bac_reserved := reserved,
                     bac_charged := (case settled of None \<Rightarrow> bac_charged account
                                     | Some (amounts, _) \<Rightarrow> add_amounts (bac_charged account) amounts)\<rparr>"
  let ?s1 = "put_account (bac_agent_id account) ?a s"
  assume u: "map_of (lg_usage s) rs = Some u" "ur_status u = (if settled \<noteq> None then Usage_Started else Usage_Pending)"
    and a: "map_of (lg_accounts s) (ur_agent_id u) = Some account"
    and t: "t = put_usage rs (end_usage u settled n) ?s1"
  have key: "bac_agent_id account = ur_agent_id u"
    using structure_okD(1)[OF ok a] by (simp add: account_ok_def)
  have st: "ur_status u \<in> {Usage_Pending, Usage_Started}" using u(2) by simp
  have op: "bac_status account = Account_Open" using closed_idleD(2)[OF idle u(1) st] a by (rule is_openD)
  have "amounts_grow (bac_charged account) (bac_charged ?a)"
    using am by (cases settled) (auto simp: amounts_grow_add)
  then have e1: "evolution s ?s1"
    using idle a op unfolding key by (intro evolution_open_account[where a = account]) (simp_all add: account_evolves_def)
  have "usage_evolves u (end_usage u settled n)"
    using u(2) usage_settle usage_release by (cases settled) (auto simp: usage_evolves_def end_usage_def)
  then have "evolution ?s1 t"
    using e1 u(1) st unfolding t by (intro evolution_usage[where u = u]) (simp_all add: evolution_def)
  then show ?thesis using e1 evolution_trans by blast
qed

lemma evolution_closed:
  assumes idle: "closed_idle s" and "apply_account_closed a n s = Inr t"
  shows "evolution s t"
  using assms(2)
proof (rule account_closedE)
  fix account :: budget_account
  let ?a = "account\<lparr>bac_status := Account_Closed, bac_closed_seq := Some n\<rparr>"
  assume a: "map_of (lg_accounts s) a = Some account" "bac_status account = Account_Open"
    and t: "t = put_account a ?a s"
    and r: "\<not> list_ex (\<lambda>r. brs_parent_agent_id r = a \<and> brs_status r = Reservation_Pending) (dict_values (lg_reservations s))"
    and u: "\<not> list_ex (\<lambda>u. ur_agent_id u = a \<and> ur_status u \<in> {Usage_Pending, Usage_Started}) (dict_values (lg_usage s))"
  have "closed_idle t"
    using idle r u unfolding t closed_idle_def is_open_put put_account_sel list_ex_iff by auto
  moreover have "ledger_evolves s t"
    unfolding t using a by (intro ledger_evolves_put(1)) (simp add: account_evolves_def)
  ultimately show ?thesis by (simp add: evolution_def)
qed

lemma evolution_fact:
  assumes inv: "ledger_inv dir s" and idle: "closed_idle s" and f: "fact_ok f"
    and new: "\<not> dict_has (fact_operation_id f) (lg_operations s)" and ap: "apply_fact dir f s = Inr t"
  shows "evolution s t"
proof -
  have ok: "structure_ok dir s" using inv by (simp add: ledger_inv_def)
  have nc: "map_of (lg_charges s) (fact_operation_id f) = None"
    using inv new by (auto simp: ledger_inv_def dict_has_def)
  have settled: "evolution s t" if "apply_usage_ended rs (Some (amounts, q)) n s = Inr t" "amounts_ok amounts" for rs amounts q n
    by (rule evolution_ended[OF ok idle _ that(1)]) (simp add: that(2))
  show ?thesis
    using f ap nc
    by (cases f) (auto intro: settled evolution_root[OF idle] evolution_child_reserved[OF idle] evolution_committed[OF ok idle]
      evolution_released[OF ok idle] evolution_token_decision[OF ok idle] evolution_charged[OF idle]
      evolution_usage_reserved[OF idle] evolution_started[OF idle] evolution_ended[OF ok idle] evolution_closed[OF idle])
qed

section \<open>Evolution along the stream\<close>

definition ledger_live :: "agent_directory \<Rightarrow> ledger \<Rightarrow> bool" where
  "ledger_live dir s \<longleftrightarrow> ledger_inv dir s \<and> closed_idle s"

lemma evolution_event:
  assumes live: "ledger_live dir s" and step: "apply_budget_event dir s ne = Inr t"
  shows "ledger_live dir t \<and> ledger_evolves s t"
proof -
  obtain n ev where ne: "ne = (n, ev)" by (cases ne)
  obtain f s0 where f: "parse_budget_fact ev = Inr f" and new: "\<not> dict_has (fact_operation_id f) (lg_operations s)"
    and ap: "apply_fact dir f s = Inr s0"
    and t: "t = stamped (dict_set (fact_operation_id f) (ledger_operation_of f ev) (lg_operations s)) n s0"
    using step by (auto simp: ne apply_budget_event_Inr)
  have e: "evolution s s0"
    using live f new ap parse_budget_fact_ok[OF f] by (intro evolution_fact) (simp_all add: ledger_live_def)
  have "closed_idle t" using e closed_idle_cong[of t s0] by (simp add: evolution_def t)
  moreover have "dict_evolves (=) (lg_operations s) (lg_operations t)"
    using new by (auto simp: t stamped_def dict_has_def intro: dict_evolves_eq)
  then have "ledger_evolves s t"
    using e by (simp add: evolution_def ledger_evolves_def t)
  moreover have "ledger_inv dir t" using live step ledger_inv_step[of dir s ne t] by (simp add: ledger_live_def)
  ultimately show ?thesis by (simp add: ledger_live_def)
qed

lemma ledger_live_empty: "ledger_live dir empty_ledger"
  by (simp add: ledger_live_def ledger_inv_empty) (simp add: closed_idle_def empty_ledger_def dict_values_def)

interpretation live_ledger: replay "apply_budget_event dir" empty_ledger "ledger_live dir" for dir
  by unfold_locales (rule ledger_live_empty, use evolution_event in blast)

lemma rebuild_ledger_evolves:
  assumes "rebuild_ledger (es @ fs) dir = Inr t"
  shows "\<exists>s. rebuild_ledger es dir = Inr s \<and> ledger_evolves s t"
proof -
  have "foldM (apply_budget_event dir) empty_ledger
      (number_from 1 es @ number_from (1 + int (length es)) fs) = Inr t"
    using assms by (simp add: rebuild_ledger_def number_from_append)
  from live_ledger.run_relation[of ledger_evolves dir, OF ledger_evolves_refl ledger_evolves_trans _ this]
  show ?thesis using evolution_event by (auto simp: rebuild_ledger_def)
qed

end
