(* ===== verification/Budget_Admission.thy ===== *)
theory Budget_Admission imports Budget_Evolution begin

text \<open>
  The checks a host makes before it writes (the \<open>ensure_\<close> methods of the view) against the
  checks replay makes after: one lemma per fact saying when the two agree. What the agreement
  needs of the ledger beyond its balances is the invariant of this theory: the two indexes of
  reserved identities name reservations, a released reservation has its terminal number, and a
  reservation's grant stays within its parent's limits.
\<close>

section \<open>The invariant of the reservations\<close>

definition grantable :: "budget_limits \<Rightarrow> budget_limits \<Rightarrow> bool" where
  "grantable p c \<longleftrightarrow> is_ok (child_debit p c 0)"

lemma child_debit_grantable: "(\<exists>d. child_debit p c n = Inr d) \<longleftrightarrow> grantable p c"
  by (auto simp: grantable_def is_ok_iff child_debit_Inr)

lemma child_debit_Inr_grantable:
  "child_debit p c n = Inr d \<longleftrightarrow> d = \<lparr>rd_amounts = limits_amounts c, rd_children = 1\<rparr> \<and> grantable p c"
  by (auto simp: grantable_def is_ok_iff child_debit_Inr)

lemma exceeds_mono: "\<not> exceeds p c \<Longrightarrow> p = q \<or> (\<exists>m n. p = Some m \<and> q = Some n \<and> m \<le> n) \<Longrightarrow> \<not> exceeds q c"
  by (auto simp: exceeds_def split: option.splits)

lemma grantable_evolves:
  assumes "grantable (bac_limits a) g" "account_evolves a b"
  shows "grantable (bac_limits b) g"
proof -
  have eq: "(bac_limits b)\<lparr>bl_max_tokens := None\<rparr> = (bac_limits a)\<lparr>bl_max_tokens := None\<rparr>"
    using assms(2) by (simp add: account_evolves_def)
  have "bl_max_steps (bac_limits b) = bl_max_steps (bac_limits a)"
    "bl_max_tool_calls (bac_limits b) = bl_max_tool_calls (bac_limits a)"
    "bl_max_wall_milliseconds (bac_limits b) = bl_max_wall_milliseconds (bac_limits a)"
    "bl_max_children (bac_limits b) = bl_max_children (bac_limits a)"
    "bl_max_depth (bac_limits b) = bl_max_depth (bac_limits a)"
    "bl_max_processes (bac_limits b) = bl_max_processes (bac_limits a)"
    using arg_cong[OF eq, of bl_max_steps] arg_cong[OF eq, of bl_max_tool_calls] arg_cong[OF eq, of bl_max_wall_milliseconds]
      arg_cong[OF eq, of bl_max_children] arg_cong[OF eq, of bl_max_depth] arg_cong[OF eq, of bl_max_processes] by simp_all
  moreover have "\<not> exceeds (bl_max_tokens (bac_limits a)) (bl_max_tokens g) \<Longrightarrow> \<not> exceeds (bl_max_tokens (bac_limits b)) (bl_max_tokens g)"
    using exceeds_mono assms(2) unfolding account_evolves_def by metis
  ultimately show ?thesis
    using assms(1) by (simp add: grantable_def is_ok_iff child_debit_Inr monotonic_fields_def)
qed

definition reservation_sound :: "ledger \<Rightarrow> budget_reservation \<Rightarrow> bool" where
  "reservation_sound s r \<longleftrightarrow> (brs_status r = Reservation_Released \<longrightarrow> brs_terminal_seq r \<noteq> None) \<and>
     (\<exists>a g. map_of (lg_accounts s) (brs_parent_agent_id r) = Some a \<and>
        initial_token_limits (brs_child_limits r) (brs_initial_tokens r) = Inr g \<and> grantable (bac_limits a) g)"

definition indexed :: "ledger \<Rightarrow> bool" where
  "indexed s \<longleftrightarrow> (\<forall>rs r. map_of (lg_reservations s) rs = Some r \<longrightarrow> reservation_sound s r) \<and>
     (\<forall>c rs. map_of (lg_child_reservations s) c = Some rs \<longrightarrow>
        (\<exists>r. map_of (lg_reservations s) rs = Some r \<and> brs_child_agent_id r = c)) \<and>
     (\<forall>q rs. map_of (lg_request_reservations s) q = Some rs \<longrightarrow>
        (\<exists>r. map_of (lg_reservations s) rs = Some r \<and> brs_creation_request_id r = q))"

lemma put_index_sel [simp]:
  "lg_child_reservations (put_account k a s) = lg_child_reservations s"
  "lg_child_reservations (put_reservation k r s) = lg_child_reservations s"
  "lg_child_reservations (put_usage k u s) = lg_child_reservations s"
  "lg_child_reservations (put_charge k c s) = lg_child_reservations s"
  "lg_child_reservations (put_decision k t s) = lg_child_reservations s"
  "lg_request_reservations (put_account k a s) = lg_request_reservations s"
  "lg_request_reservations (put_reservation k r s) = lg_request_reservations s"
  "lg_request_reservations (put_usage k u s) = lg_request_reservations s"
  "lg_request_reservations (put_charge k c s) = lg_request_reservations s"
  "lg_request_reservations (put_decision k t s) = lg_request_reservations s"
  by (simp_all add: put_account_def put_reservation_def put_usage_def put_charge_def put_decision_def)

lemma reservation_sound_evolves:
  assumes "reservation_sound s r" "ledger_evolves s t" "reservation_evolves r q"
  shows "reservation_sound t q"
proof -
  obtain a g where a: "map_of (lg_accounts s) (brs_parent_agent_id r) = Some a"
    "initial_token_limits (brs_child_limits r) (brs_initial_tokens r) = Inr g" "grantable (bac_limits a) g"
    using assms(1) by (auto simp: reservation_sound_def)
  obtain b where b: "map_of (lg_accounts t) (brs_parent_agent_id r) = Some b" "account_evolves a b"
    using a(1) assms(2) unfolding ledger_evolves_def dict_evolves_def by blast
  have "brs_status q = Reservation_Released \<longrightarrow> brs_terminal_seq q \<noteq> None"
    using assms(1,3) unfolding reservation_sound_def reservation_evolves_def by metis
  then show ?thesis
    using a b grantable_evolves[OF a(3) b(2)] assms(3) by (simp add: reservation_sound_def reservation_evolves_def)
qed

lemma indexed_evolves:
  assumes s: "indexed s" and e: "ledger_evolves s t"
    and same: "\<And>rs. dict_has rs (lg_reservations t) = dict_has rs (lg_reservations s)"
      "lg_child_reservations t = lg_child_reservations s" "lg_request_reservations t = lg_request_reservations s"
  shows "indexed t"
proof -
  have ev: "\<exists>q. map_of (lg_reservations t) rs = Some q \<and> reservation_evolves r q"
    if "map_of (lg_reservations s) rs = Some r" for rs r
    using that e unfolding ledger_evolves_def dict_evolves_def by blast
  have "reservation_sound t q" if q: "map_of (lg_reservations t) rs = Some q" for rs q
  proof -
    obtain r where r: "map_of (lg_reservations s) rs = Some r"
      using same(1)[of rs] q by (auto simp: dict_has_iff)
    then have "reservation_evolves r q" using ev q by fastforce
    moreover have "reservation_sound s r" using r s by (simp add: indexed_def)
    ultimately show ?thesis using e reservation_sound_evolves by blast
  qed
  moreover have "\<exists>q. map_of (lg_reservations t) rs = Some q \<and> brs_child_agent_id q = c"
    if "map_of (lg_child_reservations t) c = Some rs" for c rs
    using that s ev unfolding indexed_def same reservation_evolves_def by metis
  moreover have "\<exists>q. map_of (lg_reservations t) rs = Some q \<and> brs_creation_request_id q = c"
    if "map_of (lg_request_reservations t) c = Some rs" for c rs
    using that s ev unfolding indexed_def same reservation_evolves_def by metis
  ultimately show ?thesis unfolding indexed_def by blast
qed

lemma indexed_child_reserved:
  assumes ok: "structure_ok dir s" and idle: "closed_idle s" and s: "indexed s" and ap: "apply_child_reserved dir f s = Inr t"
  shows "indexed t"
  using ap
proof (rule child_reservedE)
  fix parent granted durable
  assume p: "map_of (lg_accounts s) (crf_parent_agent_id f) = Some parent" and c: "reservation_conflict f s = None"
    and g: "initial_token_limits (crf_child_limits f) (crf_initial_tokens f) = Inr granted"
    and d: "child_debit (bac_limits parent) granted (crf_seq f) = Inr \<lparr>rd_amounts = limits_amounts granted, rd_children = 1\<rparr>"
    and t: "t = reserved_state f parent granted durable s"
  have e: "ledger_evolves s t" using evolution_child_reserved[OF idle ap] by (simp add: evolution_def)
  have cf: "map_of (lg_reservations s) (crf_reservation_id f) = None" "crf_child_agent_id f \<noteq> crf_parent_agent_id f"
    using conflict_none[OF c] by blast+
  let ?r = "new_reservation f durable"
  have res: "lg_reservations t = dict_set (crf_reservation_id f) ?r (lg_reservations s)" by (simp add: t)
  have idx: "lg_child_reservations t = dict_set (crf_child_agent_id f) (crf_reservation_id f) (lg_child_reservations s)"
    "lg_request_reservations t = dict_set (crf_creation_request_id f) (crf_reservation_id f) (lg_request_reservations s)"
    by (simp_all add: t reserved_state_def Let_def)
  have sound: "reservation_sound t q" if "map_of (lg_reservations t) rs = Some q" for rs q
  proof (cases "rs = crf_reservation_id f")
    case True
    then have q: "q = ?r" using that by (simp add: res)
    have "map_of (lg_accounts t) (crf_parent_agent_id f) =
        Some (reserve_debit parent \<lparr>rd_amounts = limits_amounts granted, rd_children = 1\<rparr>)"
      using cf by (simp add: t reserved_accounts_def Let_def)
    then show ?thesis using g d by (simp add: q reservation_sound_def child_debit_Inr_grantable)
  next
    case False
    then have "map_of (lg_reservations s) rs = Some q" using that by (simp add: res)
    then have "reservation_sound s q" using s by (simp add: indexed_def)
    then show ?thesis using e evolves_refl(3) by (rule reservation_sound_evolves)
  qed
  have keep: "map_of (lg_reservations t) rs = Some r" if "map_of (lg_reservations s) rs = Some r" for rs r
    using that cf by (auto simp: res)
  have new: "map_of (lg_reservations t) (crf_reservation_id f) = Some ?r"
    "brs_child_agent_id ?r = crf_child_agent_id f" "brs_creation_request_id ?r = crf_creation_request_id f"
    by (simp_all add: res new_reservation_def)
  have "\<exists>r. map_of (lg_reservations t) rs = Some r \<and> brs_child_agent_id r = k"
    if "map_of (lg_child_reservations t) k = Some rs" for k rs
  proof (cases "k = crf_child_agent_id f")
    case True
    then show ?thesis using that new by (simp add: idx)
  next
    case False
    then have "map_of (lg_child_reservations s) k = Some rs" using that by (simp add: idx)
    then obtain r where "map_of (lg_reservations s) rs = Some r" "brs_child_agent_id r = k" using s unfolding indexed_def by blast
    then show ?thesis using keep by blast
  qed
  moreover have "\<exists>r. map_of (lg_reservations t) rs = Some r \<and> brs_creation_request_id r = k"
    if "map_of (lg_request_reservations t) k = Some rs" for k rs
  proof (cases "k = crf_creation_request_id f")
    case True
    then show ?thesis using that new by (simp add: idx)
  next
    case False
    then have "map_of (lg_request_reservations s) k = Some rs" using that by (simp add: idx)
    then obtain r where "map_of (lg_reservations s) rs = Some r" "brs_creation_request_id r = k" using s unfolding indexed_def by blast
    then show ?thesis using keep by blast
  qed
  ultimately show ?thesis using sound unfolding indexed_def by blast
qed

lemma apply_fact_index_frame:
  assumes "apply_fact dir f s = Inr t" "\<And>c. f \<noteq> Child_Reserved c"
  shows "(\<forall>rs. dict_has rs (lg_reservations t) = dict_has rs (lg_reservations s)) \<and>
    lg_child_reservations t = lg_child_reservations s \<and> lg_request_reservations t = lg_request_reservations s"
proof (cases f)
  case (Reservation_Committed_Fact op rs n)
  with assms have "apply_reservation_committed dir rs n s = Inr t" by simp
  then show ?thesis by (rule reservation_committedE) (auto simp: dict_has_def split: if_splits)
next
  case (Reservation_Released_Fact op rs n)
  with assms have "apply_reservation_released dir rs n s = Inr t" by simp
  then show ?thesis by (rule reservation_releasedE) (auto simp: dict_has_def split: if_splits)
qed (use assms in \<open>auto elim!: root_grantedE token_decisionE usage_chargedE usage_reservedE usage_startedE usage_endedE account_closedE\<close>)

definition ledger_whole :: "agent_directory \<Rightarrow> ledger \<Rightarrow> bool" where
  "ledger_whole dir s \<longleftrightarrow> ledger_live dir s \<and> indexed s"

lemma whole_event:
  assumes whole: "ledger_whole dir s" and step: "apply_budget_event dir s ne = Inr t"
  shows "ledger_whole dir t"
proof -
  obtain n ev where ne: "ne = (n, ev)" by (cases ne)
  have live: "ledger_live dir s" using whole by (simp add: ledger_whole_def)
  then have st: "structure_ok dir s" "closed_idle s" by (simp_all add: ledger_live_def ledger_inv_def)
  have ev: "ledger_live dir t" "ledger_evolves s t" using evolution_event[OF live step] by simp_all
  obtain f s0 ops where f: "parse_budget_fact ev = Inr f" and ap: "apply_fact dir f s = Inr s0" and t: "t = stamped ops n s0"
    using step by (auto simp: ne apply_budget_event_Inr)
  have "indexed t"
  proof (cases "\<exists>c. f = Child_Reserved c")
    case True
    then obtain c where "apply_child_reserved dir c s = Inr s0" using ap by auto
    then have "indexed s0" using indexed_child_reserved[OF st] whole by (simp add: ledger_whole_def)
    then show ?thesis by (simp add: t indexed_def reservation_sound_def)
  next
    case False
    then show ?thesis
      using apply_fact_index_frame[OF ap] whole by (intro indexed_evolves[OF _ ev(2)]) (simp_all add: t ledger_whole_def)
  qed
  with ev show ?thesis by (simp add: ledger_whole_def)
qed

lemma whole_empty: "ledger_whole dir empty_ledger"
  by (simp add: ledger_whole_def ledger_live_empty) (simp add: indexed_def empty_ledger_def)

interpretation whole_ledger: replay "apply_budget_event dir" empty_ledger "ledger_whole dir" for dir
  by unfold_locales (rule whole_empty, rule whole_event)

lemma rebuilt_whole: "rebuild_ledger es dir = Inr s \<Longrightarrow> ledger_whole dir s"
  unfolding rebuild_ledger_def by (rule whole_ledger.run_inv)

section \<open>Checks before and after\<close>

lemma require_open_Inr [result_simps]:
  "require_open_account s k = Inr a \<longleftrightarrow> map_of (lg_accounts s) k = Some a \<and> bac_status a = Account_Open"
proof (cases "map_of (lg_accounts s) k")
  case (Some b)
  then show ?thesis by (cases "bac_status b") (auto simp: require_open_account_def ledger_account_def)
qed (simp add: require_open_account_def ledger_account_def)

lemma map_protocol_error_Inr [result_simps]: "map_protocol_error f r = Inr x \<longleftrightarrow> r = Inr x"
proof (cases r)
  case (Inl e)
  then show ?thesis by (cases e) (simp_all add: map_protocol_error_def split: option.split)
qed (simp add: map_protocol_error_def)

lemma capacity_any_seq:
  "ensure_capacity a d n c = Inr () \<longleftrightarrow> ensure_capacity a d 0 c = Inr ()"
  "ensure_retained_tokens a d r n = Inr () \<longleftrightarrow> ensure_retained_tokens a d r 0 = Inr ()"
  by (simp_all add: ensure_capacity_Inr ensure_retained_tokens_def raise_if_eq_Inr split: option.split)

lemma unit_result: "(\<exists>x. r = Inr x) \<longleftrightarrow> r = Inr ()"
  by auto

lemma charge_agrees:
  "ensure_charge_capacity s a amounts = Inr () \<longleftrightarrow> is_ok (apply_usage_charged op a amounts ADMISSION q n s)"
  by (auto simp: ensure_charge_capacity_def apply_usage_charged_def is_ok_iff result_simps budget_error_def
      capacity_any_seq[of _ _ n] capacity_any_seq[of _ _ "lg_head_seq s + 1"] split: if_splits)

lemma observation_agrees:
  "ensure_observation_allowed s a amounts = Inr () \<longleftrightarrow> is_ok (apply_usage_charged op a amounts OBSERVATION q n s)"
  by (auto simp: ensure_observation_allowed_def apply_usage_charged_def is_ok_iff result_simps budget_error_def split: if_splits)

lemma usage_reservation_agrees:
  assumes "one_reserved_dimension amounts"
  shows "ensure_usage_reservation_capacity s a amounts = Inr () \<and> \<not> dict_has rs (lg_reservations s) \<and> \<not> dict_has rs (lg_usage s)
    \<longleftrightarrow> is_ok (apply_usage_reserved rs a amounts n s)"
  using assms
  by (auto simp: ensure_usage_reservation_capacity_def ensure_charge_capacity_def apply_usage_reserved_def is_ok_iff
      result_simps budget_error_def capacity_any_seq[of _ _ n] capacity_any_seq[of _ _ "lg_head_seq s + 1"] Let_def split: if_splits)

lemma token_capacity_any_seq:
  "token_capacity as rs p c t n = Inr x \<longleftrightarrow> token_capacity as rs p c t m = Inr x"
proof -
  have "token_capacity as rs p c t k = Inr x \<longleftrightarrow> token_capacity as rs p c t 0 = Inr x" for k
    by (auto simp: token_capacity_def budget_error_def result_simps Let_def capacity_any_seq[of _ _ k] capacity_any_seq[of _ _ _ k]
      split: option.splits if_splits)
  then show ?thesis by blast
qed

lemma decision_agrees:
  "ensure_token_decision s (ctd_parent_agent_id f) (ctd_child_agent_id f) (ctd_request_id f) (ctd_tokens f) = Inr () \<longleftrightarrow>
     is_ok (apply_token_decision f s)"
proof
  assume L: "ensure_token_decision s (ctd_parent_agent_id f) (ctd_child_agent_id f) (ctd_request_id f) (ctd_tokens f) = Inr ()"
  then obtain pc where "token_capacity (lg_accounts s) (lg_reservations s) (ctd_parent_agent_id f) (ctd_child_agent_id f)
      (ctd_tokens f) (lg_head_seq s + 1) = Inr pc" and new: "\<not> dict_has (ctd_request_id f) (lg_token_decisions s)"
    by (auto simp: ensure_token_decision_def result_simps split: if_splits)
  then obtain p c where cap: "token_capacity (lg_accounts s) (lg_reservations s) (ctd_parent_agent_id f) (ctd_child_agent_id f)
      (ctd_tokens f) (ctd_seq f) = Inr (p, c)"
    by (cases pc) (simp add: token_capacity_any_seq[of _ _ _ _ _ "ctd_seq f" _ "lg_head_seq s + 1"])
  then obtain m where "bl_max_tokens (bac_limits c) = Some m" using token_capacity_Inr by metis
  then show "is_ok (apply_token_decision f s)" using new cap by (simp add: apply_token_decision_def Let_def)
next
  assume "is_ok (apply_token_decision f s)"
  then obtain t where t: "apply_token_decision f s = Inr t" by (auto simp: is_ok_iff)
  then obtain p c where new: "\<not> dict_has (ctd_request_id f) (lg_token_decisions s)"
    and cap: "token_capacity (lg_accounts s) (lg_reservations s) (ctd_parent_agent_id f) (ctd_child_agent_id f)
      (ctd_tokens f) (ctd_seq f) = Inr (p, c)"
    by (auto simp: apply_token_decision_def budget_error_def result_simps split: if_splits)
  moreover have "token_capacity (lg_accounts s) (lg_reservations s) (ctd_parent_agent_id f) (ctd_child_agent_id f)
      (ctd_tokens f) (lg_head_seq s + 1) = Inr (p, c)"
    using cap by (simp add: token_capacity_any_seq[of _ _ _ _ _ "lg_head_seq s + 1" _ "ctd_seq f"])
  ultimately show "ensure_token_decision s (ctd_parent_agent_id f) (ctd_child_agent_id f) (ctd_request_id f) (ctd_tokens f) = Inr ()"
    using token_capacity_Inr[OF cap] by (simp add: ensure_token_decision_def result_simps)
qed

lemma identity_available_index:
  assumes "indexed s" "reservation_identity_available s c q"
  shows "\<not> dict_has c (lg_child_reservations s) \<and> \<not> dict_has q (lg_request_reservations s)"
proof -
  have free: "brs_child_agent_id r \<noteq> c \<and> brs_creation_request_id r \<noteq> q" if "map_of (lg_reservations s) rs = Some r" for rs r
    using assms(2) dict_values_lookup[OF that] by (auto simp: reservation_identity_available_def list_ex_iff)
  show ?thesis
    using assms(1) free unfolding indexed_def dict_has_iff by meson
qed

lemma reservation_agrees:
  assumes whole: "ledger_whole dir s"
    and ensured: "ensure_reservation_capacity s (crf_parent_agent_id f) (crf_child_limits f) (crf_retained_tokens f) (crf_initial_tokens f) = Inr d"
    and new: "map_of (lg_reservations s) (crf_reservation_id f) = None" "map_of (lg_usage s) (crf_reservation_id f) = None"
      "map_of (lg_accounts s) (crf_child_agent_id f) = None"
      "reservation_identity_available s (crf_child_agent_id f) (crf_creation_request_id f)"
    and dir: "directory_get dir (crf_child_agent_id f) = None" "directory_for_request dir (crf_creation_request_id f) = None"
  shows "is_ok (apply_child_reserved dir f s)"
proof -
  obtain a g d where a: "map_of (lg_accounts s) (crf_parent_agent_id f) = Some a" "bac_status a = Account_Open"
    and g1: "grantable (bac_limits a) (crf_child_limits f)"
    and g: "initial_token_limits (crf_child_limits f) (crf_initial_tokens f) = Inr g" and g2: "grantable (bac_limits a) g"
    and cap: "ensure_capacity a (limits_amounts g) 0 1 = Inr ()"
      "ensure_retained_tokens a (limits_amounts g) (crf_retained_tokens f) 0 = Inr ()"
    using ensured
    by (auto simp: ensure_reservation_capacity_def Let_def result_simps child_debit_Inr_grantable
        capacity_any_seq[of _ _ "lg_head_seq s + 1"] capacity_any_seq[of _ _ _ "lg_head_seq s + 1"])
  have "crf_child_agent_id f \<noteq> crf_parent_agent_id f" using a new by auto
  moreover have "\<not> dict_has (crf_child_agent_id f) (lg_child_reservations s) \<and> \<not> dict_has (crf_creation_request_id f) (lg_request_reservations s)"
    using whole new(4) by (intro identity_available_index) (simp_all add: ledger_whole_def)
  ultimately have "reservation_conflict f s = None"
    using new by (simp add: reservation_conflict_def dict_has_def)
  moreover have "open_account_or (lg_accounts s) (crf_parent_agent_id f) (crf_seq f) = Inr a"
    using a by (simp add: open_account_or_Inr)
  moreover have "child_debit (bac_limits a) l (crf_seq f) = Inr \<lparr>rd_amounts = limits_amounts l, rd_children = 1\<rparr>"
    if "grantable (bac_limits a) l" for l using that by (simp add: child_debit_Inr_grantable)
  moreover have "directory_child dir (crf_parent_agent_id f) (crf_child_agent_id f) (crf_creation_request_id f) (crf_seq f) = Inr None"
    using dir by (simp add: directory_child_def)
  moreover have "ensure_capacity a (limits_amounts g) (crf_seq f) 1 = Inr ()"
    "ensure_retained_tokens a (limits_amounts g) (crf_retained_tokens f) (crf_seq f) = Inr ()"
    using cap by (simp_all add: capacity_any_seq[of _ _ "crf_seq f"] capacity_any_seq[of _ _ _ "crf_seq f"])
  ultimately show ?thesis
    using g g1 g2 by (simp add: apply_child_reserved_def Let_def)
qed

lemma commit_agrees:
  assumes whole: "ledger_whole dir s" and r: "map_of (lg_reservations s) rs = Some r" "brs_terminal_seq r = None"
    and c: "directory_child dir (brs_parent_agent_id r) (brs_child_agent_id r) (brs_creation_request_id r) n = Inr (Some child)"
  shows "is_ok (apply_reservation_committed dir rs n s)"
proof -
  have "reservation_sound s r" using whole r(1) by (simp add: ledger_whole_def indexed_def)
  then obtain g where "brs_status r \<noteq> Reservation_Released" "initial_token_limits (brs_child_limits r) (brs_initial_tokens r) = Inr g"
    using r(2) by (auto simp: reservation_sound_def)
  then show ?thesis using r c by (simp add: apply_reservation_committed_def Let_def)
qed

lemma release_agrees:
  assumes whole: "ledger_whole dir s" and r: "map_of (lg_reservations s) rs = Some r" "brs_status r = Reservation_Pending"
      "brs_terminal_seq r = None"
    and d: "directory_get dir (brs_child_agent_id r) = None" "directory_for_request dir (brs_creation_request_id r) = None"
  shows "is_ok (apply_reservation_released dir rs n s)"
proof -
  have inv: "ledger_inv dir s" using whole by (simp add: ledger_whole_def ledger_live_def)
  have "reservation_sound s r" using whole r(1) by (simp add: ledger_whole_def indexed_def)
  then obtain a g where a: "map_of (lg_accounts s) (brs_parent_agent_id r) = Some a"
    and g: "initial_token_limits (brs_child_limits r) (brs_initial_tokens r) = Inr g" "grantable (bac_limits a) g"
    by (auto simp: reservation_sound_def)
  have "\<exists>c. subtract_amounts (bac_delegated a) (limits_amounts g) = Inr c"
    using subtract_covered delegated_covers[OF inv r(1) _ a] r(2) granted_held[OF g(1)] by simp
  moreover have "child_debit (bac_limits a) g (brs_reserved_seq r) = Inr \<lparr>rd_amounts = limits_amounts g, rd_children = 1\<rparr>"
    using g(2) by (simp add: child_debit_Inr_grantable)
  ultimately show ?thesis
    using r a g d by (auto simp: apply_reservation_released_def directory_child_def account_or_def)
qed

lemma start_agrees:
  "map_of (lg_usage s) rs = Some u \<Longrightarrow> ur_status u = Usage_Pending \<Longrightarrow> is_ok (apply_usage_started rs n s)"
  by (simp add: apply_usage_started_def)

lemma end_agrees:
  assumes whole: "ledger_whole dir s" and u: "map_of (lg_usage s) rs = Some u"
      "ur_status u = (if settled \<noteq> None then Usage_Started else Usage_Pending)"
    and m: "\<forall>amounts q. settled = Some (amounts, q) \<longrightarrow> usage_settlement_matches u amounts q"
  shows "is_ok (apply_usage_ended rs settled n s)"
proof -
  have inv: "ledger_inv dir s" using whole by (simp add: ledger_whole_def ledger_live_def)
  have st: "ur_status u \<in> {Usage_Pending, Usage_Started}" using u(2) by simp
  obtain a where a: "map_of (lg_accounts s) (ur_agent_id u) = Some a"
    using inv structure_okD(3)[OF _ u(1), of dir] by (auto simp: ledger_inv_def usage_ok_def dict_has_iff)
  have "\<exists>c. subtract_amounts (bac_reserved a) (ur_amounts u) = Inr c"
    using subtract_covered reserved_covers[OF inv u(1) st a] by blast
  then show ?thesis using u a m by (cases settled) (auto simp: apply_usage_ended_def account_or_def Let_def)
qed

lemma close_agrees:
  "require_open_account s k = Inr a \<Longrightarrow>
   \<not> list_ex (\<lambda>r. brs_parent_agent_id r = k \<and> brs_status r = Reservation_Pending) (dict_values (lg_reservations s)) \<Longrightarrow>
   \<not> list_ex (\<lambda>u. ur_agent_id u = k \<and> ur_status u \<in> {Usage_Pending, Usage_Started}) (dict_values (lg_usage s)) \<Longrightarrow>
   is_ok (apply_account_closed k n s)"
  by (simp add: require_open_Inr apply_account_closed_def account_or_def)

end
