(* ===== verification/Budget_Growth.thy ===== *)
theory Budget_Growth imports Budget_Admission begin

text \<open>
  The same ledger stream read beside a directory that has grown (budgets/projection.py rebuilds
  the ledger against the durable directory of the moment). A reservation that was pending may have
  become a child with an account of its own; nothing else changes. So a fact that replay accepts
  on the narrower view it accepts on the wider one, unless the fact releases the reservation of an
  Agent that was created in between, or reserves a child whose place another Agent has taken.
\<close>

section \<open>The wider ledger\<close>

definition resolves :: "agent_directory \<Rightarrow> budget_reservation \<Rightarrow> budget_reservation \<Rightarrow> bool" where
  "resolves d r r' \<longleftrightarrow> r' = r \<or> (brs_status r = Reservation_Pending \<and> directory_get d (brs_child_agent_id r) \<noteq> None \<and>
     (\<exists>i. r' = r\<lparr>brs_status := Reservation_Committed, brs_identity_seq := i\<rparr>))"

lemma resolves_refl [simp]: "resolves d r r"
  by (simp add: resolves_def)

lemma resolves_sel:
  "resolves d r r' \<Longrightarrow> brs_child_agent_id r' = brs_child_agent_id r \<and> brs_parent_agent_id r' = brs_parent_agent_id r \<and>
     (brs_status r \<noteq> Reservation_Pending \<longrightarrow> r' = r) \<and> (brs_status r' = Reservation_Pending \<longrightarrow> r' = r)"
  by (auto simp: resolves_def)

definition same_reservations :: "agent_directory \<Rightarrow> (pystr, budget_reservation) dict \<Rightarrow> (pystr, budget_reservation) dict \<Rightarrow> bool" where
  "same_reservations d = list_all2 (\<lambda>x y. fst x = fst y \<and> resolves d (snd x) (snd y))"

lemma same_reservations_lookup:
  assumes "same_reservations d rs rs'"
  shows "map_of rs k = Some r \<Longrightarrow> \<exists>r'. map_of rs' k = Some r' \<and> resolves d r r'"
    and "dict_has k rs' \<longleftrightarrow> dict_has k rs"
    and "map_of rs' k = Some r' \<Longrightarrow> \<exists>r. map_of rs k = Some r \<and> resolves d r r'"
  using assms unfolding same_reservations_def
  by (induction rs rs' rule: list_all2_induct) (auto simp: dict_has_def split: if_splits)

lemma same_reservations_set:
  "same_reservations d rs rs' \<Longrightarrow> resolves d v v' \<Longrightarrow> same_reservations d (dict_set k v rs) (dict_set k v' rs')"
  unfolding same_reservations_def by (induction rs rs' rule: list_all2_induct) auto

lemma same_reservations_find:
  assumes "same_reservations d rs rs'"
  shows "rel_option (resolves d) (List.find (\<lambda>r. brs_child_agent_id r = c) (dict_values rs))
    (List.find (\<lambda>r. brs_child_agent_id r = c) (dict_values rs'))"
  using assms unfolding same_reservations_def
  by (induction rs rs' rule: list_all2_induct) (auto simp: dict_values_def dest: resolves_sel)

lemma same_reservations_pending:
  assumes "same_reservations d rs rs'"
    and "list_ex (\<lambda>r. brs_parent_agent_id r = a \<and> brs_status r = Reservation_Pending) (dict_values rs')"
  shows "list_ex (\<lambda>r. brs_parent_agent_id r = a \<and> brs_status r = Reservation_Pending) (dict_values rs)"
  using assms unfolding same_reservations_def
  by (induction rs rs' rule: list_all2_induct) (auto simp: dict_values_def dest: resolves_sel)

text \<open>An account of the wider ledger only: the child of a reservation that is pending in the narrower one.\<close>

definition fresh_child :: "agent_directory \<Rightarrow> ledger \<Rightarrow> ledger \<Rightarrow> pystr \<Rightarrow> bool" where
  "fresh_child d l l' a \<longleftrightarrow> directory_get d a \<noteq> None \<and>
     (\<exists>k r. map_of (lg_reservations l) k = Some r \<and> brs_status r = Reservation_Pending \<and> brs_child_agent_id r = a \<and>
        map_of (lg_reservations l') k \<noteq> Some r)"

definition widened :: "agent_directory \<Rightarrow> ledger \<Rightarrow> ledger \<Rightarrow> bool" where
  "widened d l l' \<longleftrightarrow> (\<forall>a x. map_of (lg_accounts l) a = Some x \<longrightarrow> map_of (lg_accounts l') a = Some x) \<and>
     (\<forall>a. map_of (lg_accounts l) a = None \<longrightarrow> map_of (lg_accounts l') a \<noteq> None \<longrightarrow> fresh_child d l l' a) \<and>
     same_reservations d (lg_reservations l) (lg_reservations l') \<and>
     l'\<lparr>lg_accounts := [], lg_reservations := []\<rparr> = l\<lparr>lg_accounts := [], lg_reservations := []\<rparr>"

lemma widenedD:
  assumes "widened d l l'"
  shows "map_of (lg_accounts l) a = Some x \<Longrightarrow> map_of (lg_accounts l') a = Some x"
    and "map_of (lg_accounts l) a = None \<Longrightarrow> map_of (lg_accounts l') a \<noteq> None \<Longrightarrow> fresh_child d l l' a"
    and "same_reservations d (lg_reservations l) (lg_reservations l')"
    and "lg_usage l' = lg_usage l" "lg_charges l' = lg_charges l" "lg_operations l' = lg_operations l" "lg_head_seq l' = lg_head_seq l"
    and "lg_token_decisions l' = lg_token_decisions l" "lg_child_reservations l' = lg_child_reservations l"
    and "lg_request_reservations l' = lg_request_reservations l"
  using assms by (cases l; cases l'; auto simp: widened_def)+

lemma widened_refl: "widened d l l"
  by (simp add: widened_def same_reservations_def list_all2_refl)

text \<open>The same change on both sides keeps them together.\<close>

lemma widened_account: "widened d l l' \<Longrightarrow> widened d (put_account k x l) (put_account k x l')"
  by (cases l; cases l') (auto simp: widened_def fresh_child_def put_account_def)

lemma widened_puts:
  "widened d l l' \<Longrightarrow> widened d (put_usage k u l) (put_usage k u l')"
  "widened d l l' \<Longrightarrow> widened d (put_charge k c l) (put_charge k c l')"
  "widened d l l' \<Longrightarrow> widened d (put_decision k t l) (put_decision k t l')"
  "widened d l l' \<Longrightarrow> widened d (stamped ops n l) (stamped ops n l')"
  by (cases l; cases l'; auto simp: widened_def fresh_child_def put_usage_def put_charge_def put_decision_def stamped_def)+

lemma widened_reservation:
  assumes w: "widened d l l'" and v: "resolves d v v'"
    and same: "map_of (lg_reservations l') k = map_of (lg_reservations l) k"
  shows "widened d (put_reservation k v l) (put_reservation k v' l')"
proof -
  have "fresh_child d (put_reservation k v l) (put_reservation k v' l') a" if new: "fresh_child d l l' a" for a
  proof -
    obtain j r where j: "directory_get d a \<noteq> None" "map_of (lg_reservations l) j = Some r" "brs_status r = Reservation_Pending"
        "brs_child_agent_id r = a" "map_of (lg_reservations l') j \<noteq> Some r" using new by (auto simp: fresh_child_def)
    then have "j \<noteq> k" using same by auto
    then show ?thesis using j by (auto simp: fresh_child_def put_reservation_def intro!: exI[of _ j] exI[of _ r])
  qed
  then show ?thesis
    using widenedD(1-3)[OF w] same_reservations_set[OF _ v, of "lg_reservations l" "lg_reservations l'" k] w
    by (cases l; cases l') (simp add: widened_def put_reservation_def)
qed

section \<open>Reading the same stream\<close>

definition dir_grows :: "agent_directory \<Rightarrow> agent_directory \<Rightarrow> bool" where
  "dir_grows d d' \<longleftrightarrow> (\<forall>a r. directory_get d a = Some r \<longrightarrow> directory_get d' a = Some r) \<and>
     (\<forall>q r. directory_for_request d q = Some r \<longrightarrow> directory_for_request d' q = Some r)"

lemma directory_child_grows:
  "dir_grows d d' \<Longrightarrow> directory_child d p c q n = Inr (Some r) \<Longrightarrow> directory_child d' p c q n = Inr (Some r)"
  by (auto simp: directory_child_def dir_grows_def budget_error_def split: option.splits if_splits)

lemma directory_child_answer: "directory_child d p c q n = Inr x \<Longrightarrow> x = directory_get d c"
  by (cases "directory_get d c"; cases "directory_for_request d q") (auto simp: directory_child_def budget_error_def split: if_splits)

lemma open_account_widened:
  "widened d l l' \<Longrightarrow> open_account_or (lg_accounts l) a n = Inr x \<Longrightarrow> open_account_or (lg_accounts l') a n = Inr x"
  using widenedD(1) by (fastforce simp: open_account_or_def account_or_def split: option.splits)

lemma account_widened: "widened d l l' \<Longrightarrow> account_or (lg_accounts l) a e = Inr x \<Longrightarrow> account_or (lg_accounts l') a e = Inr x"
  using widenedD(1) by (fastforce simp: account_or_def split: option.splits)

text \<open>Each fact that both views accept keeps them together.\<close>

lemma widened_child_reserved:
  assumes w: "widened d' l l'" and grow: "dir_grows d d'"
    and f: "apply_child_reserved d f l = Inr m" "apply_child_reserved d' f l' = Inr m'"
  shows "widened d' m m'"
proof -
  let ?rs = "crf_reservation_id f" and ?c = "crf_child_agent_id f" and ?q = "crf_creation_request_id f" and ?p = "crf_parent_agent_id f"
  let ?put = "\<lambda>x parent debit s. let s1 = put_reservation ?rs (new_reservation f x) s;
      s2 = s1\<lparr>lg_child_reservations := dict_set ?c ?rs (lg_child_reservations s1),
              lg_request_reservations := dict_set ?q ?rs (lg_request_reservations s1)\<rparr>
      in put_account ?p (reserve_debit parent debit) s2"
  let ?child = "\<lambda>granted. new_account ?c (Some ?p) granted (crf_seq f)"
  obtain parent granted debit x where l: "open_account_or (lg_accounts l) ?p (crf_seq f) = Inr parent" "reservation_conflict f l = None"
      "initial_token_limits (crf_child_limits f) (crf_initial_tokens f) = Inr granted" "child_debit (bac_limits parent) granted (crf_seq f) = Inr debit"
      "directory_child d ?p ?c ?q (crf_seq f) = Inr x"
      "m = (if x \<noteq> None then put_account ?c (?child granted) (?put x parent debit l) else ?put x parent debit l)"
    using f(1) by (auto simp: apply_child_reserved_def Let_def rbind_eq_Inr budget_error_def split: option.splits)
  obtain y where l': "directory_child d' ?p ?c ?q (crf_seq f) = Inr y" "reservation_conflict f l' = None"
      "m' = (if y \<noteq> None then put_account ?c (?child granted) (?put y parent debit l') else ?put y parent debit l')"
    using f(2) open_account_widened[OF w l(1)] l(3,4)
    by (auto simp: apply_child_reserved_def Let_def rbind_eq_Inr budget_error_def split: option.splits)
  have none: "map_of (lg_reservations l) ?rs = None" "map_of (lg_reservations l') ?rs = None" "map_of (lg_accounts l) ?c = None"
    using l(2) l'(2) by (auto simp: reservation_conflict_def dict_has_def split: if_splits)
  have put: "widened d' (?put x parent debit l) (?put y parent debit l')" if "resolves d' (new_reservation f x) (new_reservation f y)"
  proof -
    have "widened d' (put_reservation ?rs (new_reservation f x) l) (put_reservation ?rs (new_reservation f y) l')"
      using widened_reservation[OF w that] none by simp
    then have "widened d' ((put_reservation ?rs (new_reservation f x) l)\<lparr>lg_child_reservations := dict_set ?c ?rs (lg_child_reservations l),
              lg_request_reservations := dict_set ?q ?rs (lg_request_reservations l)\<rparr>)
       ((put_reservation ?rs (new_reservation f y) l')\<lparr>lg_child_reservations := dict_set ?c ?rs (lg_child_reservations l),
              lg_request_reservations := dict_set ?q ?rs (lg_request_reservations l)\<rparr>)"
      by (cases l; cases l') (simp add: widened_def fresh_child_def put_reservation_def)
    from widened_account[OF this, of ?p "reserve_debit parent debit"] show ?thesis
      using widenedD(9,10)[OF w] by (simp add: Let_def put_reservation_def)
  qed
  show ?thesis
  proof (cases x)
    case (Some r)
    then have "y = Some r" using directory_child_grows[OF grow, of ?p ?c ?q "crf_seq f" r] l(5) l'(1) by simp
    then show ?thesis using put Some l(6) l'(3) widened_account by simp
  next
    case None
    show ?thesis
    proof (cases y)
      case None
      then show ?thesis using put \<open>x = None\<close> l(6) l'(3) by simp
    next
      case (Some r)
      have known: "directory_get d' ?c \<noteq> None" using directory_child_answer[OF l'(1)] Some by (metis option.distinct(1))
      have v: "brs_status (new_reservation f None) = Reservation_Pending" "brs_child_agent_id (new_reservation f None) = ?c"
        "new_reservation f (Some r) \<noteq> new_reservation f None"
        "resolves d' (new_reservation f None) (new_reservation f (Some r))"
        using known by (auto simp: new_reservation_def resolves_def)
      note both = put[unfolded None Some, OF v(4)]
      have c: "?c \<noteq> ?p" using none(3) l(1) by (auto simp: open_account_or_def account_or_def split: option.splits)
      have "fresh_child d' (?put None parent debit l) (put_account ?c (?child granted) (?put (Some r) parent debit l')) ?c"
        using v known by (auto simp: fresh_child_def Let_def put_account_def put_reservation_def intro!: exI[of _ ?rs])
      moreover have "map_of (lg_accounts (?put None parent debit l)) ?c = None"
        using none(3) c by (simp add: Let_def put_account_def put_reservation_def)
      moreover have "fresh_child d' (?put None parent debit l) (put_account ?c (?child granted) (?put (Some r) parent debit l')) a \<longleftrightarrow>
          fresh_child d' (?put None parent debit l) (?put (Some r) parent debit l') a" for a
        by (simp add: fresh_child_def put_account_def Let_def)
      ultimately have "widened d' (?put None parent debit l) (put_account ?c (?child granted) (?put (Some r) parent debit l'))"
        using both unfolding widened_def by (auto simp: put_account_def Let_def)
      then show ?thesis using l(6) l'(3) None Some \<open>x = None\<close> by simp
    qed
  qed
qed

lemma settled_same:
  assumes w: "widened d' l l'" and ok: "structure_ok d l" and r: "map_of (lg_reservations l) k = Some r" "directory_get d (brs_child_agent_id r) \<noteq> None"
  shows "map_of (lg_reservations l') k = Some r"
proof -
  have "brs_status r \<noteq> Reservation_Pending" using structure_okD(2)[OF ok r(1)] r(2) by (auto simp: reservation_ok_def)
  then show ?thesis using same_reservations_lookup(1)[OF widenedD(3)[OF w] r(1)] resolves_sel by fastforce
qed

lemma widened_committed:
  assumes w: "widened d' l l'" and grow: "dir_grows d d'" and ok: "structure_ok d l" "structure_ok d' l'"
    and f: "apply_reservation_committed d rs n l = Inr m" "apply_reservation_committed d' rs n l' = Inr m'"
  shows "widened d' m m'"
proof -
  obtain r child where r: "map_of (lg_reservations l) rs = Some r"
      "directory_child d (brs_parent_agent_id r) (brs_child_agent_id r) (brs_creation_request_id r) n = Inr (Some child)"
      "brs_status r \<noteq> Reservation_Released"
    using f(1) by (auto simp: apply_reservation_committed_def result_simps budget_error_def split: option.splits if_splits)
  let ?r = "r\<lparr>brs_status := Reservation_Committed, brs_terminal_seq := Some n, brs_identity_seq := Some (rec_created_seq child)\<rparr>"
  have known: "directory_get d (brs_child_agent_id r) \<noteq> None" using directory_child_answer[OF r(2)] by (metis option.distinct(1))
  have r': "map_of (lg_reservations l') rs = Some r" by (rule settled_same[OF w ok(1) r(1) known])
  have c': "directory_child d' (brs_parent_agent_id r) (brs_child_agent_id r) (brs_creation_request_id r) n = Inr (Some child)"
    by (rule directory_child_grows[OF grow r(2)])
  have "brs_status r = Reservation_Committed"
    using structure_okD(2)[OF ok(1) r(1)] known r(3) by (cases "brs_status r") (auto simp: reservation_ok_def)
  then have "dict_has (brs_child_agent_id r) (lg_accounts l)" "dict_has (brs_child_agent_id r) (lg_accounts l')"
    using structure_okD(2)[OF ok(1) r(1)] structure_okD(2)[OF ok(2) r'] by (auto simp: reservation_ok_def)
  then have "m = put_reservation rs ?r l" "m' = put_reservation rs ?r l'"
    using f r r' c' by (auto simp: apply_reservation_committed_def Let_def put_reservation_def budget_error_def split: if_splits)
  then show ?thesis using widened_reservation[OF w resolves_refl] r(1) r' by simp
qed

lemma widened_released:
  assumes w: "widened d' l l'"
    and f: "apply_reservation_released d rs n l = Inr m" "apply_reservation_released d' rs n l' = Inr m'"
  shows "widened d' m m'"
proof -
  obtain r parent granted debit delegated where r: "map_of (lg_reservations l) rs = Some r" "brs_status r = Reservation_Pending"
      "account_or (lg_accounts l) (brs_parent_agent_id r) PyKeyError = Inr parent"
      "initial_token_limits (brs_child_limits r) (brs_initial_tokens r) = Inr granted"
      "child_debit (bac_limits parent) granted (brs_reserved_seq r) = Inr debit" "subtract_amounts (bac_delegated parent) (rd_amounts debit) = Inr delegated"
      "m = put_reservation rs (r\<lparr>brs_status := Reservation_Released, brs_terminal_seq := Some n\<rparr>)
        (put_account (bac_agent_id parent) (parent\<lparr>bac_delegated := delegated,
           bac_reserved_children := bac_reserved_children parent - rd_children debit\<rparr>) l)"
    using f(1) by (auto simp: apply_reservation_released_def rbind_eq_Inr budget_error_def split: option.splits if_splits)
  obtain r' where r': "map_of (lg_reservations l') rs = Some r'" "resolves d' r r'" "brs_status r' = Reservation_Pending"
    using f(2) same_reservations_lookup(1)[OF widenedD(3)[OF w] r(1)]
    by (auto simp: apply_reservation_released_def rbind_eq_Inr budget_error_def split: option.splits if_splits)
  then have same: "r' = r" using resolves_sel by blast
  have "m' = put_reservation rs (r\<lparr>brs_status := Reservation_Released, brs_terminal_seq := Some n\<rparr>)
        (put_account (bac_agent_id parent) (parent\<lparr>bac_delegated := delegated,
           bac_reserved_children := bac_reserved_children parent - rd_children debit\<rparr>) l')"
    using f(2) r'(1)[unfolded same] account_widened[OF w r(3)] r(4-6)
    by (auto simp: apply_reservation_released_def rbind_eq_Inr budget_error_def split: option.splits if_splits)
  then show ?thesis
    using widened_reservation[OF widened_account[OF w] resolves_refl] r(1,7) r'(1) by (simp add: same put_account_def)
qed

lemma token_capacity_widened:
  assumes w: "widened d l l'" and c: "token_capacity (lg_accounts l) (lg_reservations l) p c t n = Inr pc"
  shows "token_capacity (lg_accounts l') (lg_reservations l') p c t n = Inr pc"
proof -
  obtain parent child r where a: "map_of (lg_accounts l) p = Some parent" "map_of (lg_accounts l) c = Some child"
      "List.find (\<lambda>r. brs_child_agent_id r = c) (dict_values (lg_reservations l)) = Some r" "brs_status r = Reservation_Committed"
    using c by (auto simp: token_capacity_def budget_error_def split: option.splits if_splits)
  obtain r' where r': "List.find (\<lambda>r. brs_child_agent_id r = c) (dict_values (lg_reservations l')) = Some r'" "resolves d r r'"
    using same_reservations_find[OF widenedD(3)[OF w], of c] a(3) by (auto elim: option.rel_cases)
  then have "r' = r" using resolves_sel a(4) by fastforce
  then have "token_capacity (lg_accounts l') (lg_reservations l') p c t n = token_capacity (lg_accounts l) (lg_reservations l) p c t n"
    unfolding token_capacity_def r'(1) a(1-3) widenedD(1)[OF w a(1)] widenedD(1)[OF w a(2)] by simp
  then show ?thesis using c by simp
qed

lemma widened_fact:
  assumes w: "widened d' l l'" and grow: "dir_grows d d'" and ok: "structure_ok d l" "structure_ok d' l'"
    and f: "apply_fact d f l = Inr m" "apply_fact d' f l' = Inr m'"
  shows "widened d' m m'"
proof (cases f)
  case (Root_Granted op a lim n)
  then have "m = put_account a (new_account a None lim n) l" "m' = put_account a (new_account a None lim n) l'"
    using f by (auto simp: apply_root_granted_def budget_error_def split: option.splits if_splits)
  then show ?thesis using widened_account[OF w] by simp
next
  case (Child_Reserved c)
  then show ?thesis using widened_child_reserved[OF w grow] f by simp
next
  case (Reservation_Committed_Fact op rs n)
  then show ?thesis using widened_committed[OF w grow ok] f by simp
next
  case (Reservation_Released_Fact op rs n)
  then show ?thesis using widened_released[OF w] f by simp
next
  case (Child_Token_Decided c)
  then obtain parent child where "token_capacity (lg_accounts l) (lg_reservations l) (ctd_parent_agent_id c) (ctd_child_agent_id c) (ctd_tokens c) (ctd_seq c) = Inr (parent, child)"
    using f(1) by (auto simp: apply_token_decision_def rbind_eq_Inr budget_error_def split: if_splits)
  then show ?thesis
    using f Child_Token_Decided token_capacity_widened[OF w]
    by (auto simp: apply_token_decision_def rbind_eq_Inr budget_error_def Let_def intro!: widened_puts widened_account w split: if_splits option.splits)
next
  case (Usage_Charged op a amounts mode q n)
  then obtain x where "open_account_or (lg_accounts l) a n = Inr x"
    using f(1) by (auto simp: apply_usage_charged_def rbind_eq_Inr)
  then show ?thesis
    using f Usage_Charged open_account_widened[OF w]
    by (auto simp: apply_usage_charged_def rbind_eq_Inr budget_error_def intro!: widened_puts widened_account w split: if_splits)
next
  case (Usage_Reserved op rs a amounts n)
  then obtain x where "open_account_or (lg_accounts l) a n = Inr x"
    using f(1) by (auto simp: apply_usage_reserved_def rbind_eq_Inr)
  then show ?thesis
    using f Usage_Reserved open_account_widened[OF w]
    by (auto simp: apply_usage_reserved_def rbind_eq_Inr budget_error_def Let_def intro!: widened_puts widened_account w split: if_splits)
next
  case (Usage_Started_Fact op rs n)
  then show ?thesis
    using f widenedD(4)[OF w] by (auto simp: apply_usage_started_def budget_error_def intro!: widened_puts w split: if_splits option.splits)
next
  case (Usage_Settled_Fact op rs amounts q n)
  then obtain u x where "map_of (lg_usage l) rs = Some u" "account_or (lg_accounts l) (ur_agent_id u) (BudgetProtocolError ''budget-account-unknown'' n) = Inr x"
    using f(1) by (auto simp: apply_usage_ended_def rbind_eq_Inr budget_error_def split: if_splits option.splits)
  then show ?thesis
    using f Usage_Settled_Fact widenedD(4)[OF w] account_widened[OF w]
    by (auto simp: apply_usage_ended_def rbind_eq_Inr budget_error_def Let_def intro!: widened_puts widened_account w split: if_splits)
next
  case (Usage_Released_Fact op rs n)
  then obtain u x where "map_of (lg_usage l) rs = Some u" "account_or (lg_accounts l) (ur_agent_id u) (BudgetProtocolError ''budget-account-unknown'' n) = Inr x"
    using f(1) by (auto simp: apply_usage_ended_def rbind_eq_Inr budget_error_def split: if_splits option.splits)
  then show ?thesis
    using f Usage_Released_Fact widenedD(4)[OF w] account_widened[OF w]
    by (auto simp: apply_usage_ended_def rbind_eq_Inr budget_error_def Let_def intro!: widened_puts widened_account w split: if_splits)
next
  case (Account_Closed_Fact op a n)
  then obtain x where "account_or (lg_accounts l) a (BudgetProtocolError ''budget-account-unknown'' n) = Inr x"
    using f(1) by (auto simp: apply_account_closed_def rbind_eq_Inr)
  then show ?thesis
    using f Account_Closed_Fact account_widened[OF w]
    by (auto simp: apply_account_closed_def rbind_eq_Inr budget_error_def intro!: widened_account w split: if_splits)
qed

lemma rebuild_widened:
  assumes grow: "dir_grows d d'" and "rebuild_ledger es d = Inr l" "rebuild_ledger es d' = Inr l'"
  shows "widened d' l l'"
  using assms(2,3)
proof (induction es arbitrary: l l' rule: rev_induct)
  case Nil
  then show ?case by (simp add: rebuild_ledger_def widened_refl)
next
  case (snoc ev es)
  let ?n = "int (length es) + 1"
  obtain k where k: "rebuild_ledger es d = Inr k" "apply_budget_event d k (?n, ev) = Inr l"
    using snoc.prems(1) by (auto simp: rebuild_ledger_snoc result_simps)
  obtain k' where k': "rebuild_ledger es d' = Inr k'" "apply_budget_event d' k' (?n, ev) = Inr l'"
    using snoc.prems(2) by (auto simp: rebuild_ledger_snoc result_simps)
  have w: "widened d' k k'" by (rule snoc.IH[OF k(1) k'(1)])
  have ok: "structure_ok d k" "structure_ok d' k'" using rebuild_ledger_inv[OF k(1)] rebuild_ledger_inv[OF k'(1)] by (simp_all add: ledger_inv_def)
  obtain f m where f: "parse_budget_fact ev = Inr f" "apply_fact d f k = Inr m"
      "l = stamped (dict_set (fact_operation_id f) (ledger_operation_of f ev) (lg_operations k)) ?n m"
    using k(2) by (auto simp: apply_budget_event_Inr)
  obtain m' where m': "apply_fact d' f k' = Inr m'" "l' = stamped (dict_set (fact_operation_id f) (ledger_operation_of f ev) (lg_operations k')) ?n m'"
    using k'(2) f(1) by (auto simp: apply_budget_event_Inr)
  show ?case using widened_puts(4)[OF widened_fact[OF w grow ok f(2) m'(1)]] widenedD(6)[OF w] by (simp add: f(3) m'(2))
qed

section \<open>What the narrower view admits\<close>

text \<open>
  Two facts rest on an Agent not being in the directory. The reservation of a child whose identity
  no earlier reservation has stays acceptable when nobody was created in its place, or exactly the
  child it announces. The release of a reservation stays acceptable when its child was not created.
\<close>

fun unaffected :: "ledger \<Rightarrow> agent_directory \<Rightarrow> budget_fact \<Rightarrow> bool" where
  "unaffected l d (Child_Reserved f) =
     (is_ok (directory_child d (crf_parent_agent_id f) (crf_child_agent_id f) (crf_creation_request_id f) (crf_seq f)) \<and>
      list_all (\<lambda>r. brs_child_agent_id r \<noteq> crf_child_agent_id f) (dict_values (lg_reservations l)))"
| "unaffected l d (Reservation_Released_Fact op rs n) =
     (case map_of (lg_reservations l) rs of None \<Rightarrow> True
      | Some r \<Rightarrow> directory_child d (brs_parent_agent_id r) (brs_child_agent_id r) (brs_creation_request_id r) n = Inr None)"
| "unaffected l d f = True"

lemma accepted_reservation_widened:
  assumes w: "widened d' l l'" and ok: "is_ok (apply_child_reserved d f l)"
    and calm: "unaffected l d' (Child_Reserved f)"
  shows "is_ok (apply_child_reserved d' f l')"
proof -
  let ?c = "crf_child_agent_id f" and ?p = "crf_parent_agent_id f" and ?q = "crf_creation_request_id f"
  obtain m where m: "apply_child_reserved d f l = Inr m" using ok by (auto simp: is_ok_iff)
  obtain parent granted debit u x u2 u3 where p: "open_account_or (lg_accounts l) ?p (crf_seq f) = Inr parent" "reservation_conflict f l = None"
      "initial_token_limits (crf_child_limits f) (crf_initial_tokens f) = Inr granted" "child_debit (bac_limits parent) granted (crf_seq f) = Inr debit"
      "ensure_capacity parent (rd_amounts debit) (crf_seq f) (rd_children debit) = Inr u" "directory_child d ?p ?c ?q (crf_seq f) = Inr x"
      "child_debit (bac_limits parent) (crf_child_limits f) (crf_seq f) = Inr u2"
      "ensure_retained_tokens parent (rd_amounts debit) (crf_retained_tokens f) (crf_seq f) = Inr u3"
    using m by (auto simp: apply_child_reserved_def Let_def rbind_eq_Inr budget_error_def split: option.splits)
  have "\<not> dict_has ?c (lg_accounts l')"
  proof
    assume "dict_has ?c (lg_accounts l')"
    then have "fresh_child d' l l' ?c"
      using widenedD(2)[OF w] p(2) by (auto simp: reservation_conflict_def dict_has_def split: if_splits)
    then obtain k r where "map_of (lg_reservations l) k = Some r" "brs_child_agent_id r = ?c" by (auto simp: fresh_child_def)
    then show False using calm dict_values_lookup by (fastforce simp: list_all_iff)
  qed
  then have "reservation_conflict f l' = None"
    using p(2) widenedD(4,9,10)[OF w] same_reservations_lookup(2)[OF widenedD(3)[OF w]]
    by (simp add: reservation_conflict_def split: if_splits)
  moreover obtain y where "directory_child d' ?p ?c ?q (crf_seq f) = Inr y" using calm by (auto simp: is_ok_iff)
  ultimately show ?thesis
    using p open_account_widened[OF w p(1)] by (simp add: apply_child_reserved_def Let_def)
qed

lemma accepted_release_widened:
  assumes w: "widened d' l l'" and ok: "is_ok (apply_reservation_released d rs n l)"
    and calm: "unaffected l d' (Reservation_Released_Fact op rs n)"
  shows "is_ok (apply_reservation_released d' rs n l')"
proof -
  obtain m where m: "apply_reservation_released d rs n l = Inr m" using ok by (auto simp: is_ok_iff)
  obtain r parent where r: "map_of (lg_reservations l) rs = Some r" "account_or (lg_accounts l) (brs_parent_agent_id r) PyKeyError = Inr parent"
      "directory_child d (brs_parent_agent_id r) (brs_child_agent_id r) (brs_creation_request_id r) n = Inr None"
    using m by (auto simp: apply_reservation_released_def rbind_eq_Inr budget_error_def split: option.splits if_splits)
  obtain r' where r': "map_of (lg_reservations l') rs = Some r'" "resolves d' r r'"
    using same_reservations_lookup(1)[OF widenedD(3)[OF w] r(1)] by blast
  have gone: "directory_child d' (brs_parent_agent_id r) (brs_child_agent_id r) (brs_creation_request_id r) n = Inr None"
    using calm r(1) by simp
  have "directory_get d' (brs_child_agent_id r) = None" using directory_child_answer[OF gone] by simp
  then have "r' = r" using r'(2) by (auto simp: resolves_def)
  then show ?thesis
    using m r r'(1) account_widened[OF w r(2)] gone
    by (auto simp: apply_reservation_released_def rbind_eq_Inr budget_error_def is_ok_iff split: if_splits)
qed

lemma accepted_commit_widened:
  assumes w: "widened d' l l'" and grow: "dir_grows d d'" and st: "structure_ok d l" and ok: "is_ok (apply_reservation_committed d rs n l)"
  shows "is_ok (apply_reservation_committed d' rs n l')"
proof -
  obtain m where m: "apply_reservation_committed d rs n l = Inr m" using ok by (auto simp: is_ok_iff)
  obtain r child where r: "map_of (lg_reservations l) rs = Some r"
      "directory_child d (brs_parent_agent_id r) (brs_child_agent_id r) (brs_creation_request_id r) n = Inr (Some child)"
    using m by (auto simp: apply_reservation_committed_def result_simps budget_error_def split: option.splits if_splits)
  have known: "directory_get d (brs_child_agent_id r) \<noteq> None" using directory_child_answer[OF r(2)] by (metis option.distinct(1))
  obtain g where "initial_token_limits (brs_child_limits r) (brs_initial_tokens r) = Inr g"
    using structure_okD(2)[OF st r(1)] by (auto simp: reservation_ok_def)
  then show ?thesis
    using m r settled_same[OF w st r(1) known] directory_child_grows[OF grow r(2)]
    by (auto simp: apply_reservation_committed_def Let_def budget_error_def is_ok_iff split: if_splits)
qed

lemma accepted_widened:
  assumes w: "widened d' l l'" and grow: "dir_grows d d'" and st: "structure_ok d l"
    and ok: "is_ok (apply_fact d f l)" and calm: "unaffected l d' f"
  shows "is_ok (apply_fact d' f l')"
proof -
  obtain m where m: "apply_fact d f l = Inr m" using ok by (auto simp: is_ok_iff)
  show ?thesis
  proof (cases f)
    case (Root_Granted op a lim n)
    obtain r where r: "directory_get d a = Some r" "rec_owner_agent_id r = None" "map_of (lg_accounts l) a = None"
      using m Root_Granted by (auto simp: apply_root_granted_def budget_error_def dict_has_def split: option.splits if_splits)
    have "map_of (lg_accounts l') a = None"
    proof (rule ccontr)
      assume "map_of (lg_accounts l') a \<noteq> None"
      then obtain k s where "map_of (lg_reservations l) k = Some s" "brs_status s = Reservation_Pending" "brs_child_agent_id s = a"
        using widenedD(2)[OF w r(3)] by (auto simp: fresh_child_def)
      then show False using structure_okD(2)[OF st] r(1) by (fastforce simp: reservation_ok_def)
    qed
    moreover have "directory_get d' a = Some r" using grow r(1) by (simp add: dir_grows_def)
    ultimately show ?thesis using r(2) by (simp add: Root_Granted apply_root_granted_def dict_has_def)
  next
    case (Child_Reserved c)
    then show ?thesis using accepted_reservation_widened[OF w, of d c] ok calm by simp
  next
    case (Reservation_Committed_Fact op rs n)
    then show ?thesis using accepted_commit_widened[OF w grow st] ok by simp
  next
    case (Reservation_Released_Fact op rs n)
    then show ?thesis using accepted_release_widened[OF w, of d rs n op] ok calm by simp
  next
    case (Child_Token_Decided c)
    then obtain pc where "token_capacity (lg_accounts l) (lg_reservations l) (ctd_parent_agent_id c) (ctd_child_agent_id c) (ctd_tokens c) (ctd_seq c) = Inr pc"
      using m by (auto simp: apply_token_decision_def rbind_eq_Inr budget_error_def split: if_splits)
    then show ?thesis
      using m Child_Token_Decided token_capacity_widened[OF w] widenedD(8)[OF w]
      by (cases pc) (auto simp: apply_token_decision_def Let_def budget_error_def split: if_splits option.splits)
  next
    case (Usage_Charged op a amounts mode q n)
    then obtain x where "open_account_or (lg_accounts l) a n = Inr x" using m by (auto simp: apply_usage_charged_def rbind_eq_Inr)
    then show ?thesis using ok Usage_Charged open_account_widened[OF w] by (auto simp: apply_usage_charged_def rbind_eq_Inr is_ok_iff split: if_splits)
  next
    case (Usage_Reserved op rs a amounts n)
    then obtain x where "open_account_or (lg_accounts l) a n = Inr x" using m by (auto simp: apply_usage_reserved_def rbind_eq_Inr)
    then show ?thesis
      using ok Usage_Reserved open_account_widened[OF w] widenedD(4)[OF w] same_reservations_lookup(2)[OF widenedD(3)[OF w]]
      by (auto simp: apply_usage_reserved_def rbind_eq_Inr is_ok_iff Let_def split: if_splits)
  next
    case (Usage_Started_Fact op rs n)
    then show ?thesis using ok widenedD(4)[OF w] by (auto simp: apply_usage_started_def is_ok_iff split: if_splits option.splits)
  next
    case (Usage_Settled_Fact op rs amounts q n)
    then obtain u x where "map_of (lg_usage l) rs = Some u" "account_or (lg_accounts l) (ur_agent_id u) (BudgetProtocolError ''budget-account-unknown'' n) = Inr x"
      using m by (auto simp: apply_usage_ended_def rbind_eq_Inr budget_error_def split: if_splits option.splits)
    then show ?thesis
      using ok Usage_Settled_Fact widenedD(4)[OF w] account_widened[OF w]
      by (auto simp: apply_usage_ended_def rbind_eq_Inr is_ok_iff Let_def split: if_splits)
  next
    case (Usage_Released_Fact op rs n)
    then obtain u x where "map_of (lg_usage l) rs = Some u" "account_or (lg_accounts l) (ur_agent_id u) (BudgetProtocolError ''budget-account-unknown'' n) = Inr x"
      using m by (auto simp: apply_usage_ended_def rbind_eq_Inr budget_error_def split: if_splits option.splits)
    then show ?thesis
      using ok Usage_Released_Fact widenedD(4)[OF w] account_widened[OF w]
      by (auto simp: apply_usage_ended_def rbind_eq_Inr is_ok_iff Let_def split: if_splits)
  next
    case (Account_Closed_Fact op a n)
    then obtain x where "account_or (lg_accounts l) a (BudgetProtocolError ''budget-account-unknown'' n) = Inr x"
      using m by (auto simp: apply_account_closed_def rbind_eq_Inr)
    then show ?thesis
      using ok Account_Closed_Fact account_widened[OF w] widenedD(4)[OF w] same_reservations_pending[OF widenedD(3)[OF w], of a]
      by (auto simp: apply_account_closed_def rbind_eq_Inr is_ok_iff budget_error_def split: if_splits)
  qed
qed

end
