(* ===== verification/Budget_Service.thy ===== *)
theory Budget_Service imports Budget_Growth Agent_Registrar begin

text \<open>
  The host's budget operations (budgets/service.py) over the event store. An operation reads the
  ledger and the Agent directory, decides, and appends at most one fact at the head it read;
  what other writers do to the store between that read and the append is the argument
  \<open>others\<close>. An operation is an action on the store: it returns the new store and a result.
\<close>

section \<open>Reading\<close>

definition load_context :: "event_store \<Rightarrow> (ledger \<times> agent_directory) result" where
  "load_context st =
     (let events = read_events st BUDGET_LEDGER_STREAM 1 in
      rbind (load_directory st) (\<lambda>directory.
      rbind (rebuild_ledger events directory) (\<lambda>ledger. Inr (ledger, directory))))"

definition load_ledger :: "event_store \<Rightarrow> ledger result" where
  "load_ledger st = rbind (load_context st) (\<lambda>(ledger, _). Inr ledger)"

definition some_or_assert :: "'a option \<Rightarrow> 'a result" where
  \<comment> \<open>\<open>assert x is not None; return x\<close>\<close>
  "some_or_assert x = (case x of None \<Rightarrow> Inl PyAssertionError | Some y \<Rightarrow> Inr y)"

definition operation_matches_or_raise :: "ledger \<Rightarrow> pystr \<Rightarrow> string \<Rightarrow> payload \<Rightarrow> bool result" where
  "operation_matches_or_raise ledger operation_id event_type data =
     (if \<not> operation_exists ledger operation_id then Inr False
      else if operation_matches ledger operation_id event_type data then Inr True
      else Inl BudgetOperationConflictError)"

section \<open>Writing\<close>

definition budget_committed :: "event_store \<Rightarrow> string \<Rightarrow> payload \<Rightarrow> bool" where
  "budget_committed st event_type data =
     list_ex (\<lambda>event. is_budget_fact event (lit event_type) data) (read_events st BUDGET_LEDGER_STREAM 1)"

definition budget_append ::
    "drawn \<Rightarrow> (event_store \<Rightarrow> event_store) \<Rightarrow> int \<Rightarrow> string \<Rightarrow> payload \<Rightarrow> (event_store, event_envelope option) action" where
  "budget_append dr others expected_seq event_type data st =
     (case append_events dr BUDGET_LEDGER_STREAM expected_seq [pending event_type data BUDGET_SCHEMA_VERSION] (others st) of
        (st', Inr appended) \<Rightarrow> (st', Inr (Some (hd appended)))
      | (st', Inl (ConcurrencyConflict _ _)) \<Rightarrow>
          (st', if budget_committed st' event_type data then Inr None else Inl BudgetLedgerConflictError)
      | (st', Inl _) \<Rightarrow> (st', Inl (BudgetWriteError (Some (budget_committed st' event_type data)))))"

text \<open>
  The shape that ten of the operations share after their payload was built: read, recognise a
  retry, check, append at the head that was read, read again and return the projected value.
\<close>

definition append_once ::
    "drawn \<Rightarrow> (event_store \<Rightarrow> event_store) \<Rightarrow> pystr \<Rightarrow> string \<Rightarrow> payload \<Rightarrow> (ledger \<Rightarrow> agent_directory \<Rightarrow> unit result)
       \<Rightarrow> (ledger \<Rightarrow> 'a result) \<Rightarrow> (event_store, 'a) action" where
  "append_once dr others operation_id event_type data check project =
     abind (reading load_context) (\<lambda>(ledger, directory).
     abind (lift_result (operation_matches_or_raise ledger operation_id event_type data)) (\<lambda>matched.
       if matched then lift_result (project ledger)
       else
         abind (lift_result (check ledger directory)) (\<lambda>_.
         abind (budget_append dr others (lg_head_seq ledger) event_type data) (\<lambda>_.
         abind (reading load_ledger) (\<lambda>updated. lift_result (project updated))))))"

definition grant_root ::
    "drawn \<Rightarrow> (event_store \<Rightarrow> event_store) \<Rightarrow> pystr \<Rightarrow> pystr \<Rightarrow> budget_limits \<Rightarrow> (event_store, budget_account) action" where
  "grant_root dr others operation_id agent_id limits =
     abind (lift_result (rbind (freeze_limits limits ''limits'') (root_granted_data operation_id agent_id))) (\<lambda>data.
       append_once dr others operation_id BUDGET_ROOT_GRANTED data
         (\<lambda>ledger directory.
            case directory_get directory agent_id of
              None \<Rightarrow> Inl BudgetDirectoryMismatchError
            | Some record \<Rightarrow>
                (if rec_owner_agent_id record \<noteq> None then Inl BudgetDirectoryMismatchError
                 else raise_if (ledger_account ledger agent_id \<noteq> None) BudgetOperationConflictError))
         (\<lambda>ledger. some_or_assert (ledger_account ledger agent_id)))"

definition reserve_child ::
    "drawn \<Rightarrow> (event_store \<Rightarrow> event_store) \<Rightarrow> pystr \<Rightarrow> pystr \<Rightarrow> pystr \<Rightarrow> pystr \<Rightarrow> pystr \<Rightarrow> budget_limits \<Rightarrow> int \<Rightarrow> int option
       \<Rightarrow> (event_store, budget_reservation) action" where
  "reserve_child dr others operation_id reservation_id parent_agent_id child_agent_id creation_request_id
     child_limits retained_tokens initial_tokens =
     abind (lift_result (rbind (freeze_limits child_limits ''child_limits'') (\<lambda>frozen.
              child_reserved_data operation_id reservation_id parent_agent_id child_agent_id creation_request_id
                frozen retained_tokens (json_int_opt initial_tokens)))) (\<lambda>data.
       append_once dr others operation_id BUDGET_CHILD_RESERVED data
         (\<lambda>ledger directory.
            if ledger_reservation ledger reservation_id \<noteq> None then Inl BudgetOperationConflictError
            else if ledger_account ledger child_agent_id \<noteq> None then Inl BudgetOperationConflictError
            else if \<not> reservation_identity_available ledger child_agent_id creation_request_id
            then Inl BudgetOperationConflictError
            else if directory_get directory child_agent_id \<noteq> None \<or> directory_for_request directory creation_request_id \<noteq> None
            then Inl BudgetDirectoryMismatchError
            else rbind (ensure_reservation_capacity ledger parent_agent_id child_limits retained_tokens
                          (json_int_opt initial_tokens)) (\<lambda>_. Inr ()))
         (\<lambda>ledger. some_or_assert (ledger_reservation ledger reservation_id)))"

definition decide_child_tokens ::
    "drawn \<Rightarrow> (event_store \<Rightarrow> event_store) \<Rightarrow> pystr \<Rightarrow> pystr \<Rightarrow> pystr \<Rightarrow> pystr \<Rightarrow> int \<Rightarrow> pystr
       \<Rightarrow> (event_store, child_token_decision option) action" where
  "decide_child_tokens dr others operation_id request_id parent_agent_id child_agent_id tokens reason =
     abind (lift_result (child_token_decision_data (JStr operation_id) (JStr request_id) (JStr parent_agent_id)
              (JStr child_agent_id) (JInt tokens) (JStr reason))) (\<lambda>data.
       append_once dr others operation_id BUDGET_CHILD_TOKEN_DECIDED data
         (\<lambda>ledger directory.
            case directory_get directory child_agent_id of
              None \<Rightarrow> Inl BudgetDirectoryMismatchError
            | Some record \<Rightarrow>
                (if rec_owner_agent_id record \<noteq> Some parent_agent_id then Inl BudgetDirectoryMismatchError
                 else ensure_token_decision ledger parent_agent_id child_agent_id request_id tokens))
         (\<lambda>ledger. Inr (ledger_token_decision ledger request_id)))"

definition commit_reservation ::
    "drawn \<Rightarrow> (event_store \<Rightarrow> event_store) \<Rightarrow> pystr \<Rightarrow> pystr \<Rightarrow> (event_store, budget_reservation) action" where
  "commit_reservation dr others operation_id reservation_id =
     abind (lift_result (reservation_terminal_data operation_id reservation_id)) (\<lambda>data.
       append_once dr others operation_id BUDGET_RESERVATION_COMMITTED data
         (\<lambda>ledger directory.
            case ledger_reservation ledger reservation_id of
              None \<Rightarrow> Inl BudgetReservationNotFoundError
            | Some r \<Rightarrow>
                (if brs_terminal_seq r \<noteq> None then Inl BudgetReservationStateError
                 else case (directory_get directory (brs_child_agent_id r), directory_for_request directory (brs_creation_request_id r)) of
                   (Some child, Some by_request) \<Rightarrow>
                     raise_if (rec_agent_id child \<noteq> rec_agent_id by_request \<or>
                         rec_request_id child \<noteq> brs_creation_request_id r \<or>
                         rec_owner_agent_id child \<noteq> Some (brs_parent_agent_id r)) BudgetDirectoryMismatchError
                 | _ \<Rightarrow> Inl BudgetDirectoryMismatchError))
         (\<lambda>ledger. some_or_assert (ledger_reservation ledger reservation_id)))"

definition release_reservation ::
    "drawn \<Rightarrow> (event_store \<Rightarrow> event_store) \<Rightarrow> pystr \<Rightarrow> pystr \<Rightarrow> bool \<Rightarrow> (event_store, budget_reservation) action" where
  "release_reservation dr others operation_id reservation_id creation_converged =
     abind (lift_result (raise_if (\<not> creation_converged) BudgetReservationStateError)) (\<lambda>_.
     abind (lift_result (reservation_terminal_data operation_id reservation_id)) (\<lambda>data.
       append_once dr others operation_id BUDGET_RESERVATION_RELEASED data
         (\<lambda>ledger directory.
            case ledger_reservation ledger reservation_id of
              None \<Rightarrow> Inl BudgetReservationNotFoundError
            | Some r \<Rightarrow>
                (if brs_status r \<noteq> Reservation_Pending \<or> brs_terminal_seq r \<noteq> None then Inl BudgetReservationStateError
                 else raise_if (directory_get directory (brs_child_agent_id r) \<noteq> None \<or>
                     directory_for_request directory (brs_creation_request_id r) \<noteq> None) BudgetDirectoryMismatchError))
         (\<lambda>ledger. some_or_assert (ledger_reservation ledger reservation_id))))"

definition charge_usage ::
    "drawn \<Rightarrow> (event_store \<Rightarrow> event_store) \<Rightarrow> payload \<Rightarrow> pystr \<Rightarrow> pystr \<Rightarrow> budget_amounts \<Rightarrow> bool
       \<Rightarrow> (event_store, budget_charge) action" where
  "charge_usage dr others data operation_id agent_id amounts enforce =
     append_once dr others operation_id BUDGET_USAGE_CHARGED data
       (\<lambda>ledger _. if enforce then ensure_charge_capacity ledger agent_id amounts
                   else ensure_observation_allowed ledger agent_id amounts)
       (\<lambda>ledger. some_or_assert (ledger_charge ledger operation_id))"

definition admit_usage ::
    "drawn \<Rightarrow> (event_store \<Rightarrow> event_store) \<Rightarrow> pystr \<Rightarrow> pystr \<Rightarrow> budget_amounts \<Rightarrow> (event_store, budget_charge) action" where
  "admit_usage dr others operation_id agent_id amounts =
     abind (lift_result (freeze_amounts amounts True)) (\<lambda>frozen.
     abind (lift_result (usage_charged_data operation_id agent_id frozen ADMISSION
              (if ba_tokens frozen \<noteq> 0 then Some Quality_Exact else None))) (\<lambda>data.
       charge_usage dr others data operation_id agent_id frozen True))"

definition record_usage ::
    "drawn \<Rightarrow> (event_store \<Rightarrow> event_store) \<Rightarrow> pystr \<Rightarrow> pystr \<Rightarrow> budget_amounts \<Rightarrow> usage_quality option
       \<Rightarrow> (event_store, budget_charge) action" where
  "record_usage dr others operation_id agent_id amounts usage_quality =
     abind (lift_result (freeze_amounts amounts True)) (\<lambda>frozen.
     abind (lift_result (usage_charged_data operation_id agent_id frozen OBSERVATION usage_quality)) (\<lambda>data.
       charge_usage dr others data operation_id agent_id frozen False))"

definition append_tool_charge ::
    "drawn \<Rightarrow> (event_store \<Rightarrow> event_store) \<Rightarrow> ledger \<Rightarrow> pystr \<Rightarrow> pystr \<Rightarrow> int \<Rightarrow> (event_store, int) action" where
  "append_tool_charge dr others ledger operation_id agent_id admitted =
     abind (lift_result (usage_charged_data operation_id agent_id (no_amounts\<lparr>ba_tool_calls := admitted\<rparr>) ADMISSION None)) (\<lambda>data.
     abind (budget_append dr others (lg_head_seq ledger) BUDGET_USAGE_CHARGED data) (\<lambda>_.
     abind (reading load_ledger) (\<lambda>updated.
       lift_result (rbind (some_or_assert (ledger_charge updated operation_id)) (\<lambda>charge.
         Inr (ba_tool_calls (bch_amounts charge)))))))"

definition admit_remaining ::
    "drawn \<Rightarrow> (event_store \<Rightarrow> event_store) \<Rightarrow> ledger \<Rightarrow> pystr \<Rightarrow> pystr \<Rightarrow> int \<Rightarrow> (event_store, int) action" where
  "admit_remaining dr others ledger operation_id agent_id requested =
     abind (lift_result (available ledger agent_id)) (\<lambda>limits.
       case bl_max_tool_calls limits of
         None \<Rightarrow> lift_result (Inr requested)
       | Some left_over \<Rightarrow>
           (let admitted = min requested left_over in
            if admitted = 0 then lift_result (Inr 0)
            else append_tool_charge dr others ledger operation_id agent_id admitted))"

definition recognised_charge :: "budget_charge \<Rightarrow> pystr \<Rightarrow> int \<Rightarrow> int result" where
  "recognised_charge existing agent_id requested =
     (let amounts = bch_amounts existing in
      if bch_agent_id existing \<noteq> agent_id \<or> bch_mode existing \<noteq> ADMISSION \<or> ba_tokens amounts \<noteq> 0 \<or>
         ba_steps amounts \<noteq> 0 \<or> ba_wall_milliseconds amounts \<noteq> 0 \<or> ba_tool_calls amounts < 1 \<or>
         requested < ba_tool_calls amounts
      then Inl BudgetOperationConflictError else Inr (ba_tool_calls amounts))"

definition admit_tool_calls ::
    "drawn \<Rightarrow> (event_store \<Rightarrow> event_store) \<Rightarrow> pystr \<Rightarrow> pystr \<Rightarrow> int \<Rightarrow> (event_store, int) action" where
  "admit_tool_calls dr others operation_id agent_id requested =
     abind (lift_result (budget_id operation_id ''operation_id'')) (\<lambda>op.
     abind (lift_result (budget_id agent_id ''agent_id'')) (\<lambda>agent.
     abind (lift_result (raise_if (requested < 1 \<or> MAX_BUDGET_VALUE < requested)
              (BudgetInputError ''budget-tool-request-invalid'' ''requested''))) (\<lambda>_.
     abind (reading load_context) (\<lambda>(ledger, _).
       case ledger_charge ledger op of
         Some existing \<Rightarrow> lift_result (recognised_charge existing agent requested)
       | None \<Rightarrow>
           (if operation_exists ledger op then lift_result (Inl BudgetOperationConflictError)
            else admit_remaining dr others ledger op agent requested)))))"

definition reserve_usage ::
    "drawn \<Rightarrow> (event_store \<Rightarrow> event_store) \<Rightarrow> pystr \<Rightarrow> pystr \<Rightarrow> pystr \<Rightarrow> budget_amounts \<Rightarrow> (event_store, usage_reservation) action" where
  "reserve_usage dr others operation_id reservation_id agent_id amounts =
     abind (lift_result (freeze_amounts amounts True)) (\<lambda>frozen.
     abind (lift_result (usage_reserved_data operation_id reservation_id agent_id frozen)) (\<lambda>data.
       append_once dr others operation_id BUDGET_USAGE_RESERVED data
         (\<lambda>ledger _. if ledger_usage_reservation ledger reservation_id \<noteq> None then Inl BudgetOperationConflictError
                     else ensure_usage_reservation_capacity ledger agent_id frozen)
         (\<lambda>ledger. some_or_assert (ledger_usage_reservation ledger reservation_id))))"

definition claim_usage ::
    "drawn \<Rightarrow> (event_store \<Rightarrow> event_store) \<Rightarrow> ledger \<Rightarrow> pystr \<Rightarrow> payload \<Rightarrow> (event_store, usage_reservation) action" where
  "claim_usage dr others ledger reservation_id data =
     abind (budget_append dr others (lg_head_seq ledger) BUDGET_USAGE_STARTED data) (\<lambda>appended.
       if appended = None then lift_result (Inl BudgetReservationStateError)
       else abind (reading load_ledger) (\<lambda>updated.
         lift_result (some_or_assert (ledger_usage_reservation updated reservation_id))))"

definition start_usage ::
    "drawn \<Rightarrow> (event_store \<Rightarrow> event_store) \<Rightarrow> pystr \<Rightarrow> pystr \<Rightarrow> (event_store, usage_reservation) action" where
  "start_usage dr others operation_id reservation_id =
     abind (lift_result (reservation_terminal_data operation_id reservation_id)) (\<lambda>data.
     abind (reading load_context) (\<lambda>(ledger, _).
       if operation_exists ledger operation_id then lift_result (Inl BudgetReservationStateError)
       else case ledger_usage_reservation ledger reservation_id of
         None \<Rightarrow> lift_result (Inl BudgetReservationNotFoundError)
       | Some reservation \<Rightarrow>
           (if ur_status reservation \<noteq> Usage_Pending then lift_result (Inl BudgetReservationStateError)
            else claim_usage dr others ledger reservation_id data)))"

definition settle_usage ::
    "drawn \<Rightarrow> (event_store \<Rightarrow> event_store) \<Rightarrow> pystr \<Rightarrow> pystr \<Rightarrow> budget_amounts \<Rightarrow> usage_quality option
       \<Rightarrow> (event_store, usage_reservation) action" where
  "settle_usage dr others operation_id reservation_id amounts usage_quality =
     abind (lift_result (freeze_amounts amounts False)) (\<lambda>frozen.
     abind (lift_result (usage_settled_data operation_id reservation_id frozen usage_quality)) (\<lambda>data.
       append_once dr others operation_id BUDGET_USAGE_SETTLED data
         (\<lambda>ledger _.
            case ledger_usage_reservation ledger reservation_id of
              None \<Rightarrow> Inl BudgetReservationNotFoundError
            | Some reservation \<Rightarrow>
                (if ur_status reservation \<noteq> Usage_Started then Inl BudgetReservationStateError
                 else ensure_usage_settlement reservation frozen usage_quality))
         (\<lambda>ledger. some_or_assert (ledger_usage_reservation ledger reservation_id))))"

definition release_usage ::
    "drawn \<Rightarrow> (event_store \<Rightarrow> event_store) \<Rightarrow> pystr \<Rightarrow> pystr \<Rightarrow> (event_store, usage_reservation) action" where
  "release_usage dr others operation_id reservation_id =
     abind (lift_result (usage_released_data operation_id reservation_id)) (\<lambda>data.
       append_once dr others operation_id BUDGET_USAGE_RELEASED data
         (\<lambda>ledger _.
            case ledger_usage_reservation ledger reservation_id of
              None \<Rightarrow> Inl BudgetReservationNotFoundError
            | Some reservation \<Rightarrow> raise_if (ur_status reservation \<noteq> Usage_Pending) BudgetReservationStateError)
         (\<lambda>ledger. some_or_assert (ledger_usage_reservation ledger reservation_id)))"

definition close_account ::
    "drawn \<Rightarrow> (event_store \<Rightarrow> event_store) \<Rightarrow> pystr \<Rightarrow> pystr \<Rightarrow> (event_store, budget_account) action" where
  "close_account dr others operation_id agent_id =
     abind (lift_result (account_closed_data operation_id agent_id)) (\<lambda>data.
       append_once dr others operation_id BUDGET_ACCOUNT_CLOSED data
         (\<lambda>ledger _.
            rbind (require_open_account ledger agent_id) (\<lambda>account.
            if list_ex (\<lambda>r. brs_parent_agent_id r = bac_agent_id account \<and> brs_status r = Reservation_Pending)
                 (dict_values (lg_reservations ledger))
            then Inl BudgetReservationStateError
            else raise_if (list_ex (\<lambda>u. ur_agent_id u = agent_id \<and> ur_status u \<in> {Usage_Pending, Usage_Started})
                 (dict_values (lg_usage ledger))) BudgetReservationStateError))
         (\<lambda>ledger. some_or_assert (ledger_account ledger agent_id)))"

section \<open>What an append leaves behind\<close>

lemma load_context_cong:
  assumes "store_ok st" "store_ok st'" "stream_of st' BUDGET_LEDGER_STREAM = stream_of st BUDGET_LEDGER_STREAM"
    "stream_of st' AGENT_DIRECTORY_STREAM = stream_of st AGENT_DIRECTORY_STREAM"
  shows "load_context st' = load_context st"
  using assms by (simp add: load_context_def load_directory_def read_events_all)

lemma load_context_Inr:
  "store_ok st \<Longrightarrow> load_context st = Inr (l, d) \<longleftrightarrow>
     rebuild_directory (stream_of st AGENT_DIRECTORY_STREAM) = Inr d \<and>
     rebuild_ledger (stream_of st BUDGET_LEDGER_STREAM) d = Inr l"
  by (auto simp: load_context_def load_directory_def read_events_all Let_def rbind_eq_Inr)

definition appended_event :: "drawn \<Rightarrow> int \<Rightarrow> string \<Rightarrow> payload \<Rightarrow> event_envelope" where
  "appended_event dr n event_type data =
     materialize (fst (dr n)) (snd (dr n)) BUDGET_LEDGER_STREAM n (pending event_type data BUDGET_SCHEMA_VERSION)"

lemma budget_append_stream:
  "stream_of (fst (budget_append dr others n ty data st)) sid =
     (if sid = BUDGET_LEDGER_STREAM \<and> head_seq (others st) BUDGET_LEDGER_STREAM = n
      then stream_of (others st) sid @ [appended_event dr (n + 1) ty data] else stream_of (others st) sid)"
  using append_events_stream[of dr BUDGET_LEDGER_STREAM n "[pending ty data BUDGET_SCHEMA_VERSION]" "others st" sid]
  by (auto simp: budget_append_def appended_event_def split: prod.split sum.split exn.split)

lemma budget_append_ok: "store_ok (others st) \<Longrightarrow> store_ok (fst (budget_append dr others n ty data st))"
  using store_ok_append[of "others st" dr BUDGET_LEDGER_STREAM n "[pending ty data BUDGET_SCHEMA_VERSION]"]
  by (auto simp: budget_append_def split: prod.split sum.split exn.split)

lemma budget_append_result:
  assumes "store_ok (others st)"
  shows "snd (budget_append dr others n ty data st) =
    (if head_seq (others st) BUDGET_LEDGER_STREAM = n then Inr (Some (appended_event dr (n + 1) ty data))
     else if budget_committed (others st) ty data then Inr None else Inl BudgetLedgerConflictError)"
proof -
  let ?p = "[pending ty data BUDGET_SCHEMA_VERSION]"
  let ?a = "append_events dr BUDGET_LEDGER_STREAM n ?p (others st)"
  have res: "snd ?a = (if head_seq (others st) BUDGET_LEDGER_STREAM = n then Inr (materialize_from dr BUDGET_LEDGER_STREAM (n + 1) ?p)
      else Inl (ConcurrencyConflict n (head_seq (others st) BUDGET_LEDGER_STREAM)))" by (rule append_events_result)
  have "budget_committed (fst ?a) ty data = budget_committed (others st) ty data"
    if "head_seq (others st) BUDGET_LEDGER_STREAM \<noteq> n"
    using that assms store_ok_append[OF assms, of dr BUDGET_LEDGER_STREAM n ?p]
    by (simp add: budget_committed_def read_events_all append_events_stream)
  with res show ?thesis
    by (cases ?a) (auto simp: budget_append_def appended_event_def split: if_splits)
qed

lemma appended_event_parses:
  "budget_fact_data f = Inr data \<Longrightarrow> fact_seq f = n \<Longrightarrow> parse_budget_fact (appended_event dr n (budget_event_type f) data) = Inr f"
  by (rule written_fact_parses) (simp_all add: appended_event_def)

lemma appended_event_sel [simp]:
  "ev_seq (appended_event dr n ty data) = n" "ev_data (appended_event dr n ty data) = JDict data"
  "ev_type (appended_event dr n ty data) = lit ty"
  by (simp_all add: appended_event_def)

lemma load_appended:
  assumes ok: "store_ok st" "store_ok st'" and load: "load_context st = Inr (l, d)"
    and ev: "parse_budget_fact ev = Inr f" "ev_seq ev = lg_head_seq l + 1"
    and led: "stream_of st' BUDGET_LEDGER_STREAM = stream_of st BUDGET_LEDGER_STREAM @ [ev]"
    and dir: "stream_of st' AGENT_DIRECTORY_STREAM = stream_of st AGENT_DIRECTORY_STREAM"
  shows "load_context st' = rbind (apply_budget_event d l (lg_head_seq l + 1, ev)) (\<lambda>l'. Inr (l', d))"
proof -
  have l: "rebuild_directory (stream_of st AGENT_DIRECTORY_STREAM) = Inr d"
    "rebuild_ledger (stream_of st BUDGET_LEDGER_STREAM) d = Inr l" using load ok(1) by (simp_all add: load_context_Inr)
  have "lg_head_seq l = int (length (stream_of st BUDGET_LEDGER_STREAM))" using ledger_log[OF l(2)] by simp
  then have "rebuild_ledger (stream_of st' BUDGET_LEDGER_STREAM) d = apply_budget_event d l (lg_head_seq l + 1, ev)"
    using l(2) by (simp add: led rebuild_ledger_snoc)
  then show ?thesis using ok(2) l(1) dir by (simp add: load_context_def load_directory_def read_events_all Let_def)
qed

section \<open>Other writers\<close>

definition readable :: "event_store \<Rightarrow> bool" where
  "readable st \<longleftrightarrow> store_ok st \<and> is_ok (load_context st)"

text \<open>
  What other writers may make of the store between the read and the append: any store that extends
  it, in which the ledger can still be read. They may create Agents and write budget facts.
\<close>

definition meanwhile :: "event_store \<Rightarrow> event_store \<Rightarrow> bool" where
  "meanwhile st st1 \<longleftrightarrow> extends st st1 \<and> readable st1"

lemma meanwhile_refl: "readable st \<Longrightarrow> meanwhile st st"
  by (simp add: meanwhile_def readable_def extends_refl)

text \<open>The narrower interference of other budget operations alone, which leave the directory as it is.\<close>

definition honest :: "(event_store \<Rightarrow> event_store) \<Rightarrow> bool" where
  "honest others \<longleftrightarrow> (\<forall>st. store_ok st \<longrightarrow> store_ok (others st) \<and>
     stream_of (others st) AGENT_DIRECTORY_STREAM = stream_of st AGENT_DIRECTORY_STREAM \<and>
     (\<exists>xs. stream_of (others st) BUDGET_LEDGER_STREAM = stream_of st BUDGET_LEDGER_STREAM @ xs) \<and>
     (is_ok (load_context st) \<longrightarrow> is_ok (load_context (others st))))"

text \<open>A write is admitted when replay accepts its fact, on the view that was read and beside the directory of the store it meets.\<close>

definition admits :: "ledger \<Rightarrow> agent_directory \<Rightarrow> event_store \<Rightarrow> string \<Rightarrow> pystr \<Rightarrow> payload \<Rightarrow> bool" where
  "admits l d st1 event_type operation_id data \<longleftrightarrow> (\<exists>f. budget_fact_data f = Inr data \<and> budget_event_type f = event_type \<and>
     fact_operation_id f = operation_id \<and> fact_seq f = lg_head_seq l + 1 \<and> is_ok (apply_fact d f l) \<and>
     (\<forall>d1. load_directory st1 = Inr d1 \<longrightarrow> unaffected l d1 f))"

text \<open>If the ledger stream has not moved, the wider view of it is the ledger beside the directory of the moment.\<close>

lemma unmoved_ledger:
  assumes ok: "store_ok st" and grow: "meanwhile st st1" and load: "load_context st = Inr (l, d)"
    and led: "stream_of st1 BUDGET_LEDGER_STREAM = stream_of st BUDGET_LEDGER_STREAM"
  shows "\<exists>l1 d1. load_context st1 = Inr (l1, d1) \<and> dir_grows d d1 \<and> widened d1 l l1"
proof -
  have ok1: "store_ok st1" "is_ok (load_context st1)" "\<exists>ys. stream_of st1 AGENT_DIRECTORY_STREAM = stream_of st AGENT_DIRECTORY_STREAM @ ys"
    using grow by (simp_all add: meanwhile_def readable_def extends_def)
  obtain l1 d1 where ld1: "load_context st1 = Inr (l1, d1)" using ok1(2) by (auto simp: is_ok_iff)
  then have r1: "rebuild_directory (stream_of st1 AGENT_DIRECTORY_STREAM) = Inr d1" "rebuild_ledger (stream_of st1 BUDGET_LEDGER_STREAM) d1 = Inr l1"
    using ok1(1) by (simp_all add: load_context_Inr)
  have r: "rebuild_directory (stream_of st AGENT_DIRECTORY_STREAM) = Inr d" "rebuild_ledger (stream_of st BUDGET_LEDGER_STREAM) d = Inr l"
    using load ok by (simp_all add: load_context_Inr)
  obtain ys where "rebuild_directory (stream_of st AGENT_DIRECTORY_STREAM @ ys) = Inr d1" using r1(1) ok1(3) by auto
  from directory_grows[OF this] have grows: "dir_grows d d1" using r(1) by (auto simp: dir_grows_def)
  then show ?thesis using rebuild_widened[OF grows r(2)] r1(2) ld1 led by simp
qed

lemma budget_append_readable:
  assumes st: "readable st" and h: "meanwhile st (others st)" and load: "load_context st = Inr (l, d)"
    and new: "\<not> operation_exists l op" and adm: "admits l d (others st) ty op data"
  shows "readable (fst (budget_append dr others (lg_head_seq l) ty data st))"
proof -
  let ?st1 = "others st" and ?st2 = "fst (budget_append dr others (lg_head_seq l) ty data st)"
  have ok: "store_ok st" using st by (simp add: readable_def)
  obtain xs where ok1: "store_ok ?st1" "is_ok (load_context ?st1)" and led: "stream_of ?st1 BUDGET_LEDGER_STREAM = stream_of st BUDGET_LEDGER_STREAM @ xs"
    using h by (auto simp: meanwhile_def readable_def extends_def)
  have ok2: "store_ok ?st2" using ok1(1) by (rule budget_append_ok)
  have r: "rebuild_ledger (stream_of st BUDGET_LEDGER_STREAM) d = Inr l" using load ok by (simp add: load_context_Inr)
  have n: "lg_head_seq l = int (length (stream_of st BUDGET_LEDGER_STREAM))" using ledger_log[OF r] by blast
  show ?thesis
  proof (cases "xs = []")
    case True
    then have hd: "head_seq ?st1 BUDGET_LEDGER_STREAM = lg_head_seq l" and same: "stream_of ?st1 BUDGET_LEDGER_STREAM = stream_of st BUDGET_LEDGER_STREAM"
      using led n head_seq_length[OF ok1(1)] by simp_all
    obtain l1 d1 where v: "load_context ?st1 = Inr (l1, d1)" "dir_grows d d1" "widened d1 l l1" using unmoved_ledger[OF ok h load same] by blast
    have eq: "lg_head_seq l1 = lg_head_seq l" "lg_operations l1 = lg_operations l" using widenedD(6,7)[OF v(3)] by simp_all
    have dir1: "load_directory ?st1 = Inr d1"
      using v(1) by (auto simp: load_context_def Let_def rbind_eq_Inr)
    obtain f where f: "budget_fact_data f = Inr data" "budget_event_type f = ty" "fact_operation_id f = op"
      "fact_seq f = lg_head_seq l + 1" "is_ok (apply_fact d f l)" "unaffected l d1 f" using adm dir1 by (auto simp: admits_def)
    have "structure_ok d l" using rebuild_ledger_inv[OF r] by (simp add: ledger_inv_def)
    then have acc: "is_ok (apply_fact d1 f l1)" using accepted_widened[OF v(3,2) _ f(5,6)] by blast
    let ?ev = "appended_event dr (lg_head_seq l + 1) ty data"
    have ev: "parse_budget_fact ?ev = Inr f" using f appended_event_parses by metis
    have "load_context ?st2 = rbind (apply_budget_event d1 l1 (lg_head_seq l1 + 1, ?ev)) (\<lambda>l'. Inr (l', d1))"
      using hd by (intro load_appended[OF ok1(1) ok2 v(1) ev]) (simp_all add: budget_append_stream eq(1))
    moreover have "is_ok (apply_budget_event d1 l1 (lg_head_seq l1 + 1, ?ev))"
      using f(3,4) acc new by (auto simp: apply_budget_event_fact[OF ev] operation_exists_def is_ok_iff eq)
    ultimately show ?thesis using ok2 by (auto simp: readable_def is_ok_iff)
  next
    case False
    then have "head_seq ?st1 BUDGET_LEDGER_STREAM \<noteq> lg_head_seq l" using led n head_seq_length[OF ok1(1)] by simp
    then have "stream_of ?st2 sid = stream_of ?st1 sid" for sid by (simp add: budget_append_stream)
    then have "load_context ?st2 = load_context ?st1" using load_context_cong[OF ok1(1) ok2] by simp
    then show ?thesis using ok2 ok1(2) by (simp add: readable_def)
  qed
qed

lemma append_once_readable:
  assumes st: "readable st" and h: "meanwhile st (others st)"
    and adm: "\<And>l d. load_context st = Inr (l, d) \<Longrightarrow> check l d = Inr () \<Longrightarrow> admits l d (others st) ty op data"
  shows "readable (fst (append_once dr others op ty data check project st))"
proof (cases "load_context st")
  case (Inl e)
  then show ?thesis using st by (simp add: append_once_def)
next
  case (Inr ld)
  obtain l d where ld: "load_context st = Inr (l, d)" using Inr by (cases ld) simp
  show ?thesis
  proof (cases "operation_matches_or_raise l op ty data = Inr False \<and> check l d = Inr ()")
    case True
    then have new: "\<not> operation_exists l op" by (auto simp: operation_matches_or_raise_def split: if_splits)
    let ?a = "budget_append dr others (lg_head_seq l) ty data st"
    have "readable (fst ?a)" using budget_append_readable[where others = others, OF st h ld new] adm[OF ld] True by blast
    moreover have "fst (append_once dr others op ty data check project st) = fst ?a"
      using ld True by (cases ?a) (auto simp: append_once_def abind_def reading_def lift_result_def split: sum.split)
    ultimately show ?thesis by simp
  next
    case False
    have "fst (append_once dr others op ty data check project st) = st"
    proof (cases "operation_matches_or_raise l op ty data")
      case (Inr m)
      then show ?thesis using ld False
        by (cases m; cases "check l d") (simp_all add: append_once_def lift_result_def)
    qed (simp add: append_once_def ld)
    then show ?thesis using st by simp
  qed
qed

end
