(* ===== verification/Budget_Properties.thy ===== *)
theory Budget_Properties imports Budget_Evolution begin

text \<open>
  What holds of every ledger that can be rebuilt from its stream, stated over the projector
  (budgets/projection.py) and the queries of its view, with one worked ledger on which each
  statement is instantiated.
\<close>

section \<open>A worked ledger\<close>

definition replay_facts :: "agent_directory \<Rightarrow> ledger \<Rightarrow> budget_fact list \<Rightarrow> ledger result" where
  "replay_facts dir s fs = foldM (\<lambda>s f. apply_fact dir f s) s fs"

fun facts_from :: "int \<Rightarrow> budget_fact list \<Rightarrow> bool" where
  "facts_from n [] = True"
| "facts_from n (f # fs) = (fact_seq f = n \<and> is_ok (budget_fact_data f) \<and> facts_from (n + 1) fs)"

lemma budget_event_parses:
  assumes "is_ok (budget_fact_data f)"
  shows "parse_budget_fact (budget_event f) = Inr f \<and> ev_seq (budget_event f) = fact_seq f"
proof -
  have d: "budget_fact_data f = Inr (projr (budget_fact_data f))" using assms by (auto simp: is_ok_iff)
  have "parse_budget_fact (budget_event f) = Inr f"
    by (rule written_fact_parses[OF d]) (simp_all add: budget_event_def)
  then show ?thesis by (simp add: budget_event_def)
qed

lemma replay_facts_events:
  assumes "facts_from n fs" "distinct (map fact_operation_id fs)" "\<forall>f \<in> set fs. \<not> dict_has (fact_operation_id f) ops"
    and "replay_facts dir s fs = Inr t"
  shows "\<exists>ops' m. foldM (apply_budget_event dir) (stamped ops h s) (number_from n (map budget_event fs)) =
    Inr (stamped ops' m t)"
  using assms
proof (induction fs arbitrary: n s ops h)
  case (Cons f fs)
  then obtain s1 where s1: "apply_fact dir f s = Inr s1" "replay_facts dir s1 fs = Inr t"
    by (auto simp: replay_facts_def result_simps)
  let ?ops = "dict_set (fact_operation_id f) (ledger_operation_of f (budget_event f)) ops"
  have "parse_budget_fact (budget_event f) = Inr f \<and> ev_seq (budget_event f) = n"
    using Cons.prems(1) budget_event_parses by simp
  then have "apply_budget_event dir (stamped ops h s) (n, budget_event f) = Inr (stamped ?ops n s1)"
    using Cons.prems(3) s1(1) by (simp add: apply_budget_event_fact apply_fact_stamped) (simp add: stamped_def)
  moreover have "\<exists>ops' m. foldM (apply_budget_event dir) (stamped ?ops n s1)
      (number_from (n + 1) (map budget_event fs)) = Inr (stamped ops' m t)"
    using Cons.prems s1(2) by (intro Cons.IH) (auto simp: image_iff)
  ultimately show ?case by simp
qed (auto simp: replay_facts_def)

definition sample_ledger_facts :: "budget_fact list" where
  "sample_ledger_facts =
     [Root_Granted (lit ''op-0'') (lit ''root'') sample_limits 1,
      sample_charge_fact,
      Child_Reserved \<lparr>crf_operation_id = lit ''op-2'', crf_reservation_id = lit ''rs-1'',
        crf_parent_agent_id = lit ''root'', crf_child_agent_id = lit ''a1'',
        crf_creation_request_id = lit ''r1'',
        crf_child_limits = sample_limits\<lparr>bl_max_tokens := Some 400, bl_max_steps := Some 4,
           bl_max_wall_milliseconds := Some 1000, bl_max_children := Some 0, bl_max_depth := Some 0\<rparr>,
        crf_retained_tokens = 100, crf_initial_tokens = JInt 300, crf_seq = 3\<rparr>,
      Usage_Reserved (lit ''op-3'') (lit ''us-1'') (lit ''a1'') (no_amounts\<lparr>ba_tokens := 50\<rparr>) 4,
      Usage_Started_Fact (lit ''op-4'') (lit ''us-1'') 5,
      Usage_Settled_Fact (lit ''op-5'') (lit ''us-1'') (no_amounts\<lparr>ba_tokens := 20\<rparr>) (Some Quality_Exact) 6,
      Account_Closed_Fact (lit ''op-6'') (lit ''a1'') 7,
      Usage_Charged (lit ''op-7'') (lit ''root'') (no_amounts\<lparr>ba_tokens := 5000\<rparr>) OBSERVATION (Some Quality_Estimated) 8]"

definition sample_ledger_events :: "event_envelope list" where
  "sample_ledger_events = map budget_event sample_ledger_facts"

definition sample_ledger :: ledger where
  "sample_ledger = projr (rebuild_ledger sample_ledger_events sample_directory)"

definition sample_root_account :: budget_account where
  "sample_root_account = the (ledger_account (projr (replay_facts sample_directory empty_ledger sample_ledger_facts)) (lit ''root''))"

lemma sample_facts_replay:
  "facts_from 1 sample_ledger_facts" "distinct (map fact_operation_id sample_ledger_facts)"
  "is_ok (replay_facts sample_directory empty_ledger sample_ledger_facts)"
  by code_simp+

lemma sample_ledger_rebuilt: "rebuild_ledger sample_ledger_events sample_directory = Inr sample_ledger"
  and sample_ledger_accounts: "lg_accounts sample_ledger = lg_accounts (projr (replay_facts sample_directory empty_ledger sample_ledger_facts))"
proof -
  let ?r = "replay_facts sample_directory empty_ledger sample_ledger_facts"
  have "?r = Inr (projr ?r)" using sample_facts_replay(3) by (auto simp: is_ok_iff)
  then have "\<exists>ops' m. foldM (apply_budget_event sample_directory) (stamped [] 0 empty_ledger)
      (number_from 1 (map budget_event sample_ledger_facts)) = Inr (stamped ops' m (projr ?r))"
    using sample_facts_replay by (intro replay_facts_events) (auto simp: dict_has_def)
  moreover have "stamped [] 0 empty_ledger = empty_ledger" by (simp add: stamped_def empty_ledger_def)
  ultimately obtain ops' m where "rebuild_ledger sample_ledger_events sample_directory = Inr (stamped ops' m (projr ?r))"
    by (auto simp: rebuild_ledger_def sample_ledger_events_def)
  then show "rebuild_ledger sample_ledger_events sample_directory = Inr sample_ledger"
    "lg_accounts sample_ledger = lg_accounts (projr ?r)"
    by (simp_all add: sample_ledger_def)
qed

lemma sample_root_in_ledger: "ledger_account sample_ledger (lit ''root'') = Some sample_root_account"
proof -
  have "ledger_account (projr (replay_facts sample_directory empty_ledger sample_ledger_facts)) (lit ''root'') \<noteq> None"
    by code_simp
  then show ?thesis by (simp add: sample_root_account_def ledger_account_def sample_ledger_accounts)
qed

section \<open>Properties\<close>

lemma rebuilt_live: "rebuild_ledger es dir = Inr s \<Longrightarrow> ledger_live dir s"
  unfolding rebuild_ledger_def by (rule live_ledger.run_inv)

text \<open>
  C10: the books balance. In every ledger that replay accepts, what an account has delegated is
  the sum of the grants of its reservations that were not released and of the tokens decided
  for its children, what it has reserved is the sum of its usage reservations that have not
  ended, what it was charged is the sum of its charges and settlements, in each of the four
  dimensions, and its child count is the number of its reservations that were not released.
\<close>

theorem ledger_balances:
  assumes "rebuild_ledger es dir = Inr s" "ledger_account s k = Some a" "f \<in> amount_dims"
  shows "f (bac_delegated a) = ledger_delegated s k f \<and> f (bac_reserved a) = ledger_reserved s k f \<and>
    f (bac_charged a) = ledger_charged s k f \<and> bac_reserved_children a = ledger_children s k"
  using rebuild_ledger_inv[OF assms(1)] assms(2,3)
  by (auto simp: ledger_inv_def balanced_def account_balanced_def ledger_account_def)

theorem ledger_balances_witness:
  "ba_tokens (bac_delegated sample_root_account) = ledger_delegated sample_ledger (lit ''root'') ba_tokens \<and>
   ba_tokens (bac_delegated sample_root_account) = 300"
proof -
  have "ba_tokens (bac_delegated sample_root_account) = 300" by code_simp
  then show ?thesis
    using ledger_balances[OF sample_ledger_rebuilt sample_root_in_ledger, of ba_tokens] by (simp add: amount_dims_def)
qed

text \<open>
  C11: no account spends more than its grant. In every accepted ledger the charged, delegated
  and reserved amounts of an account together stay within each of its limits, beyond at most
  what was recorded as an observation after the fact; and it never has more live children
  than allowed.
\<close>

theorem ledger_within_limits:
  assumes "rebuild_ledger es dir = Inr s" "ledger_account s k = Some a"
  shows "(\<forall>(lim_of, amount) \<in> limit_dims. \<forall>limit. lim_of (bac_limits a) = Some limit \<longrightarrow>
       amount (account_used a) \<le> limit + ledger_observed s k amount) \<and>
    (\<forall>limit. bl_max_children (bac_limits a) = Some limit \<longrightarrow> bac_reserved_children a \<le> limit)"
  using rebuild_ledger_inv[OF assms(1)] assms(2)
  by (simp add: ledger_inv_def within_limits_def account_within_def ledger_account_def)

theorem ledger_within_limits_witness:
  "ba_steps (account_used sample_root_account) \<le> 10 + ledger_observed sample_ledger (lit ''root'') ba_steps \<and>
   bac_reserved_children sample_root_account \<le> 2"
proof -
  have l: "bl_max_steps (bac_limits sample_root_account) = Some 10" "bl_max_children (bac_limits sample_root_account) = Some 2"
    by code_simp+
  show ?thesis
    using ledger_within_limits[OF sample_ledger_rebuilt sample_root_in_ledger] l by (auto simp: limit_dims_def)
qed

text \<open>
  C12: delegation creates nothing. Summed over all accounts of an accepted ledger, what was
  charged and what is still reserved never exceeds the limits granted to the roots plus what
  was observed after the fact, in every dimension that all roots limit.
\<close>

theorem ledger_conservation:
  assumes "rebuild_ledger es dir = Inr s" "(lim_of, amount) \<in> limit_dims" "roots_limited lim_of s"
  shows "dict_sum (\<lambda>a. amount (bac_charged a)) (lg_accounts s) + dict_sum (\<lambda>a. amount (bac_reserved a)) (lg_accounts s)
    \<le> dict_sum (root_limit lim_of) (lg_accounts s) + total_observed s amount"
  using rebuild_ledger_inv[OF assms(1)] assms(2,3) by (rule tree_total)

definition all_roots_limited :: "(budget_limits \<Rightarrow> int option) \<Rightarrow> ledger \<Rightarrow> bool" where
  "all_roots_limited lim_of s = list_all (\<lambda>a. bac_parent_agent_id a \<noteq> None \<or> lim_of (bac_limits a) \<noteq> None) (dict_values (lg_accounts s))"

lemma all_roots_limitedD: "all_roots_limited lim_of s \<Longrightarrow> roots_limited lim_of s"
  using dict_values_lookup by (fastforce simp: all_roots_limited_def roots_limited_def list_all_iff)

theorem ledger_conservation_witness:
  "dict_sum (\<lambda>a. ba_tokens (bac_charged a)) (lg_accounts sample_ledger) = 5025 \<and>
   5025 \<le> 1000 + total_observed sample_ledger ba_tokens"
proof -
  let ?r = "projr (replay_facts sample_directory empty_ledger sample_ledger_facts)"
  have "all_roots_limited bl_max_tokens ?r" by code_simp
  then have roots: "roots_limited bl_max_tokens sample_ledger"
    using all_roots_limitedD[of bl_max_tokens ?r] by (simp add: roots_limited_def sample_ledger_accounts)
  have "dict_sum (\<lambda>a. ba_tokens (bac_charged a)) (lg_accounts ?r) = 5025"
    "dict_sum (\<lambda>a. ba_tokens (bac_reserved a)) (lg_accounts ?r) = 0"
    "dict_sum (root_limit bl_max_tokens) (lg_accounts ?r) = 1000" by code_simp+
  then show ?thesis
    using ledger_conservation[OF sample_ledger_rebuilt _ roots, of ba_tokens]
    by (simp add: sample_ledger_accounts limit_dims_def)
qed

lemma initial_token_limits_error:
  "initial_token_limits l t = Inl e \<Longrightarrow> e = BudgetInputError ''budget-initial-tokens-invalid'' ''initial_tokens''"
  by (auto simp: initial_token_limits_def split: json.splits option.splits if_splits)

text \<open>Of the steps of a child reservation, only the check of its initial grant can fail with another error than a protocol error.\<close>

lemma child_reserved_error:
  assumes "apply_child_reserved dir c s = Inl e" "\<not> is_budget_protocol_error e"
  shows "initial_token_limits (crf_child_limits c) (crf_initial_tokens c) = Inl e"
proof (cases "initial_token_limits (crf_child_limits c) (crf_initial_tokens c)")
  case (Inl e')
  then have "e' = e \<or> is_budget_protocol_error e"
  proof -
    have o: "only_protocol_errors (open_account_or (lg_accounts s) (crf_parent_agent_id c) (crf_seq c))"
      "only_protocol_errors (child_debit l1 l2 n)" for l1 l2 n by simp_all
    show ?thesis
      using assms(1) Inl o
      by (auto simp: apply_child_reserved_def Let_def rbind_eq_Inl only_protocol_errors_def budget_error_def is_budget_protocol_error_def split: option.splits)
  qed
  then show ?thesis using Inl assms(2) by simp
next
  case (Inr granted)
  then have "only_protocol_errors (apply_child_reserved dir c s)"
    by (auto simp: apply_child_reserved_def Let_def split: option.split)
  then show ?thesis using assms by (simp add: only_protocol_errors_def)
qed

lemma escaping_error:
  assumes "rebuild_ledger es dir = Inr s" "apply_fact dir f s = Inl e" "\<not> is_budget_protocol_error e"
  shows "\<exists>c. f = Child_Reserved c \<and> initial_token_limits (crf_child_limits c) (crf_initial_tokens c) = Inl e"
proof (rule ccontr)
  assume none: "\<not> ?thesis"
  have "only_protocol_errors (apply_fact dir f s)"
  proof (rule apply_fact_only_protocol[OF rebuild_ledger_inv[OF assms(1)]])
    fix c assume "f = Child_Reserved c"
    then show "is_ok (initial_token_limits (crf_child_limits c) (crf_initial_tokens c))"
      using child_reserved_error[of dir c s e] assms(2,3) none by simp
  qed
  then show False using assms(2,3) by (simp add: only_protocol_errors_def)
qed

text \<open>
  C13: the projector's arithmetic cannot fail. Take an accepted ledger and an event that carries
  the next sequence number, an unused operation identity and a fact its parser accepts. Replay
  either applies the fact and accepts the longer stream, or refuses it with the protocol error of
  the fact's own check; the assertion of the subtraction, the lookup of a parent and the missing
  token limit are never reached. One other error can arise, and only in a child reservation: the
  parser leaves the initial token grant unchecked, a grant outside its ceiling raises the input
  error of that check inside the projector, and replay reports it as an invalid payload.
\<close>

theorem ledger_arithmetic_total:
  assumes "rebuild_ledger es dir = Inr s" "parse_budget_fact ev = Inr f"
    and "ev_seq ev = int (length es) + 1" "\<not> operation_exists s (fact_operation_id f)"
  shows "case apply_fact dir f s of
      Inr s' \<Rightarrow> is_ok (rebuild_ledger (es @ [ev]) dir)
    | Inl e \<Rightarrow>
        (if is_budget_protocol_error e then rebuild_ledger (es @ [ev]) dir = Inl e
         else e = BudgetInputError ''budget-initial-tokens-invalid'' ''initial_tokens'' \<and>
           (\<exists>c. f = Child_Reserved c \<and> initial_token_limits (crf_child_limits c) (crf_initial_tokens c) = Inl e) \<and>
           rebuild_ledger (es @ [ev]) dir = Inl (BudgetProtocolError ''budget-payload-invalid'' (int (length es) + 1)))"
proof -
  have step: "rebuild_ledger (es @ [ev]) dir = wrap_unless is_budget_protocol_error (BudgetProtocolError ''budget-payload-invalid'' (int (length es) + 1))
      (map_ok (stamped (dict_set (fact_operation_id f) (ledger_operation_of f ev) (lg_operations s)) (int (length es) + 1)) (apply_fact dir f s))"
    using assms(4) by (simp add: rebuild_ledger_snoc assms(1) apply_budget_event_fact[OF assms(2,3)] operation_exists_def)
  show ?thesis
  proof (cases "apply_fact dir f s")
    case (Inl e)
    then show ?thesis using escaping_error[OF assms(1) Inl] initial_token_limits_error by (auto simp: step)
  qed (simp add: step)
qed

text \<open>A child reservation with an initial grant of nothing: its parser accepts it, replay does not.\<close>

definition empty_grant_fact :: child_reserved_fact where
  "empty_grant_fact = \<lparr>crf_operation_id = lit ''op-2'', crf_reservation_id = lit ''rs-1'', crf_parent_agent_id = lit ''root'',
     crf_child_agent_id = lit ''a1'', crf_creation_request_id = lit ''r1'',
     crf_child_limits = sample_limits\<lparr>bl_max_tokens := Some 400, bl_max_children := Some 0, bl_max_depth := Some 0\<rparr>,
     crf_retained_tokens = 100, crf_initial_tokens = JInt 0, crf_seq = 2\<rparr>"

definition empty_grant_event :: event_envelope where
  "empty_grant_event = (let ev = budget_event (Child_Reserved (empty_grant_fact\<lparr>crf_initial_tokens := JInt 300\<rparr>)) in
     case ev_data ev of JDict d \<Rightarrow> ev\<lparr>ev_data := JDict (dict_set (lit ''initial_tokens'') (JInt 0) d)\<rparr> | _ \<Rightarrow> ev)"

theorem ledger_arithmetic_total_witness:
  "\<exists>es s. rebuild_ledger es sample_directory = Inr s \<and> length es = 1 \<and>
     apply_fact sample_directory (Child_Reserved empty_grant_fact) s = Inl (BudgetInputError ''budget-initial-tokens-invalid'' ''initial_tokens'') \<and>
     rebuild_ledger (es @ [empty_grant_event]) sample_directory = Inl (BudgetProtocolError ''budget-payload-invalid'' 2)"
proof -
  let ?f = "Root_Granted (lit ''op-0'') (lit ''root'') sample_limits 1"
  let ?t = "projr (replay_facts sample_directory empty_ledger [?f])"
  have ok: "facts_from 1 [?f]" "is_ok (replay_facts sample_directory empty_ledger [?f])" by code_simp+
  have "replay_facts sample_directory empty_ledger [?f] = Inr ?t" using ok(2) by (auto simp: is_ok_iff)
  then have "\<exists>ops' m. foldM (apply_budget_event sample_directory) (stamped [] 0 empty_ledger) (number_from 1 (map budget_event [?f])) =
      Inr (stamped ops' m ?t)"
    using ok by (intro replay_facts_events) (auto simp: dict_has_def)
  moreover have "stamped [] 0 empty_ledger = empty_ledger" by (simp add: stamped_def empty_ledger_def)
  ultimately obtain ops m where r: "rebuild_ledger [budget_event ?f] sample_directory = Inr (stamped ops m ?t)"
    by (auto simp: rebuild_ledger_def)
  have parses: "parse_budget_fact empty_grant_event = Inr (Child_Reserved empty_grant_fact)" "ev_seq empty_grant_event = 2" by code_simp+
  have "apply_fact sample_directory (Child_Reserved empty_grant_fact) ?t = Inl (BudgetInputError ''budget-initial-tokens-invalid'' ''initial_tokens'')"
    by code_simp
  then have ap: "apply_fact sample_directory (Child_Reserved empty_grant_fact) (stamped ops m ?t) =
      Inl (BudgetInputError ''budget-initial-tokens-invalid'' ''initial_tokens'')"
    by (simp add: apply_fact_stamped map_ok_def del: apply_fact.simps)
  have "\<not> operation_exists (stamped ops m ?t) (lit ''op-2'')"
  proof
    assume "operation_exists (stamped ops m ?t) (lit ''op-2'')"
    then obtain lo where "map_of (lg_operations (stamped ops m ?t)) (lit ''op-2'') = Some lo" by (auto simp: operation_exists_def dict_has_def)
    then have "logged [budget_event ?f] (lit ''op-2'') lo" using ledger_log[OF r] by simp
    moreover have "parse_budget_fact (budget_event ?f) = Inr ?f" using budget_event_parses[of ?f] ok(1) by simp
    ultimately show False by (auto simp: logged_def)
  qed
  then have "\<not> operation_exists (stamped ops m ?t) (fact_operation_id (Child_Reserved empty_grant_fact))" by (simp add: empty_grant_fact_def)
  from ledger_arithmetic_total[OF r parses(1) _ this] show ?thesis
    using r ap parses(2) by (intro exI[of _ "[budget_event ?f]"] exI[of _ "stamped ops m ?t"]) (simp add: is_budget_protocol_error_def)
qed

lemma operation_eq:
  "lo = \<lparr>lop_event_type = ty, lop_payload = p, lop_seq = lop_seq lo\<rparr> \<longleftrightarrow> lop_event_type lo = ty \<and> lop_payload lo = p"
  by (cases lo) auto

lemma operation_matches_lookup:
  "operation_matches s op ty data \<longleftrightarrow> (\<exists>lo. map_of (lg_operations s) op = Some lo \<and>
     lop_event_type lo = ty \<and> lop_payload lo = canonical_json (JDict data))"
  by (auto simp: operation_matches_def operation_eq simp del: canonical_json.simps split: option.split)

lemma logged_lookup:
  "(\<exists>lo. logged es op lo \<and> lop_event_type lo = ty \<and> lop_payload lo = p) \<longleftrightarrow>
     (\<exists>i < length es. \<exists>f. parse_budget_fact (es ! i) = Inr f \<and> fact_operation_id f = op \<and>
        fact_seq f = int i + 1 \<and> budget_event_type f = ty \<and> canonical_json (ev_data (es ! i)) = p)"
  unfolding logged_def by (rule iffI) (force simp: ledger_operation_of_def)+

text \<open>
  The operation index is the log. An accepted ledger has as many operations as events and
  its head is their number; an operation identity is in the index exactly when an event
  carries it, with that event's type, canonical payload and sequence number. So a retry is
  recognised exactly when the same fact was written before.
\<close>

theorem ledger_operation_log:
  assumes "rebuild_ledger es dir = Inr s"
  shows "lg_head_seq s = int (length es) \<and> length (lg_operations s) = length es \<and>
    (operation_matches s op ty data \<longleftrightarrow>
       (\<exists>i < length es. \<exists>f. parse_budget_fact (es ! i) = Inr f \<and> fact_operation_id f = op \<and>
          fact_seq f = int i + 1 \<and> budget_event_type f = ty \<and>
          canonical_json (ev_data (es ! i)) = canonical_json (JDict data)))"
proof -
  have "operation_matches s op ty data \<longleftrightarrow>
      (\<exists>lo. logged es op lo \<and> lop_event_type lo = ty \<and> lop_payload lo = canonical_json (JDict data))"
    using ledger_log[OF assms] operation_matches_lookup[of s op ty data] by simp
  then show ?thesis
    using ledger_log[OF assms] logged_lookup[of es op ty] by simp
qed

theorem ledger_operation_log_witness:
  "lg_head_seq sample_ledger = 8 \<and> length (lg_operations sample_ledger) = 8"
proof -
  have "length sample_ledger_events = 8" by (simp add: sample_ledger_events_def sample_ledger_facts_def)
  then show ?thesis using ledger_operation_log[OF sample_ledger_rebuilt] by simp
qed

text \<open>
  The ledger's history is final. When a longer stream is accepted, so is its prefix, and
  every charge, token decision and operation of the prefix is in the longer ledger unchanged;
  an account keeps its identity, its parent and its limits but for a token limit that may have
  grown, and what it was charged never shrinks.
\<close>

theorem ledger_history_final:
  assumes "rebuild_ledger (es @ fs) dir = Inr t"
  shows "\<exists>s. rebuild_ledger es dir = Inr s \<and>
    (\<forall>op c. ledger_charge s op = Some c \<longrightarrow> ledger_charge t op = Some c) \<and>
    (\<forall>rq d. ledger_token_decision s rq = Some d \<longrightarrow> ledger_token_decision t rq = Some d) \<and>
    (\<forall>op. operation_exists s op \<longrightarrow> operation_exists t op) \<and>
    (\<forall>k a. ledger_account s k = Some a \<longrightarrow> (\<exists>b. ledger_account t k = Some b \<and>
       bac_agent_id b = bac_agent_id a \<and> bac_parent_agent_id b = bac_parent_agent_id a \<and>
       amounts_grow (bac_charged a) (bac_charged b) \<and>
       (bac_limits b)\<lparr>bl_max_tokens := None\<rparr> = (bac_limits a)\<lparr>bl_max_tokens := None\<rparr> \<and>
       or_zero (bl_max_tokens (bac_limits a)) \<le> or_zero (bl_max_tokens (bac_limits b))))"
proof -
  obtain s where s: "rebuild_ledger es dir = Inr s" "ledger_evolves s t"
    using rebuild_ledger_evolves[OF assms] by blast
  have acc: "\<exists>b. ledger_account t k = Some b \<and> account_evolves a b" if "ledger_account s k = Some a" for k a
    using s(2) that by (auto simp: ledger_evolves_def dict_evolves_def ledger_account_def)
  have "\<exists>b. ledger_account t k = Some b \<and>
       bac_agent_id b = bac_agent_id a \<and> bac_parent_agent_id b = bac_parent_agent_id a \<and>
       amounts_grow (bac_charged a) (bac_charged b) \<and>
       (bac_limits b)\<lparr>bl_max_tokens := None\<rparr> = (bac_limits a)\<lparr>bl_max_tokens := None\<rparr> \<and>
       or_zero (bl_max_tokens (bac_limits a)) \<le> or_zero (bl_max_tokens (bac_limits b))"
    if a: "ledger_account s k = Some a" for k a
  proof -
    obtain b where "ledger_account t k = Some b" "account_evolves a b" using acc[OF a] by blast
    moreover have "or_zero (bl_max_tokens (bac_limits a)) \<le> or_zero (bl_max_tokens (bac_limits b))"
      using calculation(2) by (auto simp: account_evolves_def or_zero_def)
    ultimately show ?thesis by (intro exI[of _ b]) (simp add: account_evolves_def)
  qed
  then show ?thesis
    using s by (auto simp: ledger_evolves_def dict_evolves_def ledger_charge_def ledger_token_decision_def
        operation_exists_def dict_has_def)
qed

lemma sample_ledger_split: "rebuild_ledger (take 2 sample_ledger_events @ drop 2 sample_ledger_events) sample_directory = Inr sample_ledger"
  using sample_ledger_rebuilt by simp

theorem ledger_history_final_witness:
  "\<exists>s. rebuild_ledger (take 2 sample_ledger_events) sample_directory = Inr s \<and>
    (\<forall>op c. ledger_charge s op = Some c \<longrightarrow> ledger_charge sample_ledger op = Some c)"
  using ledger_history_final[OF sample_ledger_split] by blast

text \<open>
  C14: a closed account is closed for good. Once an accepted ledger shows an account closed, no
  later fact changes anything of it: no charge, reservation, settlement or delegation reaches
  it, in any longer ledger that replay accepts.
\<close>

theorem closed_account_frozen:
  assumes "rebuild_ledger (es @ fs) dir = Inr t" "rebuild_ledger es dir = Inr s"
    and "ledger_account s k = Some a" "bac_status a = Account_Closed"
  shows "ledger_account t k = Some a"
  using rebuild_ledger_evolves[OF assms(1)] assms(2-4)
  by (auto simp: ledger_evolves_def dict_evolves_def account_evolves_def ledger_account_def)

lemma sample_prefix:
  "\<exists>s. rebuild_ledger (take 7 sample_ledger_events) sample_directory = Inr s \<and>
     lg_accounts s = lg_accounts (projr (replay_facts sample_directory empty_ledger (take 7 sample_ledger_facts))) \<and>
     lg_usage s = lg_usage (projr (replay_facts sample_directory empty_ledger (take 7 sample_ledger_facts)))"
proof -
  let ?r = "replay_facts sample_directory empty_ledger (take 7 sample_ledger_facts)"
  have "facts_from 1 (take 7 sample_ledger_facts)" "distinct (map fact_operation_id (take 7 sample_ledger_facts))"
    "is_ok ?r" by code_simp+
  moreover from this(3) have "?r = Inr (projr ?r)" by (auto simp: is_ok_iff)
  ultimately have "\<exists>ops' m. foldM (apply_budget_event sample_directory) (stamped [] 0 empty_ledger)
      (number_from 1 (map budget_event (take 7 sample_ledger_facts))) = Inr (stamped ops' m (projr ?r))"
    by (intro replay_facts_events) (auto simp: dict_has_def)
  moreover have "stamped [] 0 empty_ledger = empty_ledger" by (simp add: stamped_def empty_ledger_def)
  ultimately show ?thesis by (auto simp: rebuild_ledger_def sample_ledger_events_def take_map)
qed

theorem closed_account_frozen_witness:
  "\<exists>s a. rebuild_ledger (take 7 sample_ledger_events) sample_directory = Inr s \<and>
    ledger_account s (lit ''a1'') = Some a \<and> bac_status a = Account_Closed \<and>
    ledger_account sample_ledger (lit ''a1'') = Some a"
proof -
  let ?r = "projr (replay_facts sample_directory empty_ledger (take 7 sample_ledger_facts))"
  obtain s where s: "rebuild_ledger (take 7 sample_ledger_events) sample_directory = Inr s"
    "lg_accounts s = lg_accounts ?r" using sample_prefix by blast
  have "map_option bac_status (map_of (lg_accounts ?r) (lit ''a1'')) = Some Account_Closed" by code_simp
  then obtain a where a: "ledger_account s (lit ''a1'') = Some a" "bac_status a = Account_Closed"
    by (auto simp: ledger_account_def s(2))
  have "rebuild_ledger (take 7 sample_ledger_events @ drop 7 sample_ledger_events) sample_directory = Inr sample_ledger"
    using sample_ledger_rebuilt by simp
  from closed_account_frozen[OF this s(1) a] s(1) a show ?thesis by blast
qed

text \<open>
  A usage reservation runs its state machine. As the stream grows, a reservation keeps its
  identity, owner and amounts, moves only from pending to started or released and from started
  to settled, and is never revised once it was settled or released.
\<close>

theorem usage_reservation_lifecycle:
  assumes "rebuild_ledger (es @ fs) dir = Inr t" "rebuild_ledger es dir = Inr s"
    and "ledger_usage_reservation s k = Some u"
  shows "\<exists>v. ledger_usage_reservation t k = Some v \<and> ur_agent_id v = ur_agent_id u \<and> ur_amounts v = ur_amounts u \<and>
    usage_moves\<^sup>*\<^sup>* (ur_status u) (ur_status v) \<and>
    (ur_status u \<in> {Usage_Settled, Usage_Released} \<longrightarrow> v = u)"
  using rebuild_ledger_evolves[OF assms(1)] assms(2,3)
  by (fastforce simp: ledger_evolves_def dict_evolves_def usage_evolves_def ledger_usage_reservation_def)

theorem usage_reservation_lifecycle_witness:
  "\<exists>s u v. rebuild_ledger (take 7 sample_ledger_events) sample_directory = Inr s \<and>
    ledger_usage_reservation s (lit ''us-1'') = Some u \<and> ur_status u = Usage_Settled \<and>
    ledger_usage_reservation sample_ledger (lit ''us-1'') = Some v \<and> v = u"
proof -
  let ?r = "projr (replay_facts sample_directory empty_ledger (take 7 sample_ledger_facts))"
  obtain s where s: "rebuild_ledger (take 7 sample_ledger_events) sample_directory = Inr s"
    "lg_usage s = lg_usage ?r" using sample_prefix by blast
  have "map_option ur_status (map_of (lg_usage ?r) (lit ''us-1'')) = Some Usage_Settled" by code_simp
  then obtain u where u: "ledger_usage_reservation s (lit ''us-1'') = Some u" "ur_status u = Usage_Settled"
    by (auto simp: ledger_usage_reservation_def s(2))
  have "rebuild_ledger (take 7 sample_ledger_events @ drop 7 sample_ledger_events) sample_directory = Inr sample_ledger"
    using sample_ledger_rebuilt by simp
  from usage_reservation_lifecycle[OF this s(1) u(1)] s(1) u show ?thesis by auto
qed

end
