(* ===== verification/Budget_Safety.thy ===== *)
theory Budget_Safety imports Budget_Service Budget_Properties begin

text \<open>
  Every budget operation of the host leaves a ledger that can be rebuilt, whatever other writers
  who keep it readable append meanwhile, to the directory or to the ledger. The exceptions are
  named: three checks that the service leaves to its caller, and the creation of particular Agents
  while a child is being reserved or a reservation released. An operation writes at most once.
\<close>

section \<open>Operations as commands\<close>

datatype budget_command =
    Grant_Root pystr pystr budget_limits
  | Reserve_Child pystr pystr pystr pystr pystr budget_limits int "int option"
  | Decide_Child_Tokens pystr pystr pystr pystr int pystr
  | Commit_Reservation pystr pystr
  | Release_Reservation pystr pystr bool
  | Admit_Usage pystr pystr budget_amounts
  | Admit_Tool_Calls pystr pystr int
  | Record_Usage pystr pystr budget_amounts "usage_quality option"
  | Reserve_Usage pystr pystr pystr budget_amounts
  | Start_Usage pystr pystr
  | Settle_Usage pystr pystr budget_amounts "usage_quality option"
  | Release_Usage pystr pystr
  | Close_Account pystr pystr

fun run_command :: "drawn \<Rightarrow> (event_store \<Rightarrow> event_store) \<Rightarrow> budget_command \<Rightarrow> event_store \<Rightarrow> event_store" where
  "run_command dr others (Grant_Root op a l) st = fst (grant_root dr others op a l st)"
| "run_command dr others (Reserve_Child op rs p c q l k i) st = fst (reserve_child dr others op rs p c q l k i st)"
| "run_command dr others (Decide_Child_Tokens op rq p c t r) st = fst (decide_child_tokens dr others op rq p c t r st)"
| "run_command dr others (Commit_Reservation op rs) st = fst (commit_reservation dr others op rs st)"
| "run_command dr others (Release_Reservation op rs b) st = fst (release_reservation dr others op rs b st)"
| "run_command dr others (Admit_Usage op a m) st = fst (admit_usage dr others op a m st)"
| "run_command dr others (Admit_Tool_Calls op a n) st = fst (admit_tool_calls dr others op a n st)"
| "run_command dr others (Record_Usage op a m q) st = fst (record_usage dr others op a m q st)"
| "run_command dr others (Reserve_Usage op rs a m) st = fst (reserve_usage dr others op rs a m st)"
| "run_command dr others (Start_Usage op rs) st = fst (start_usage dr others op rs st)"
| "run_command dr others (Settle_Usage op rs m q) st = fst (settle_usage dr others op rs m q st)"
| "run_command dr others (Release_Usage op rs) st = fst (release_usage dr others op rs st)"
| "run_command dr others (Close_Account op a) st = fst (close_account dr others op a st)"

text \<open>The three checks that the service leaves to its caller.\<close>

definition overspent :: "budget_account \<Rightarrow> bool" where
  "overspent a = list_ex (over_limit a no_amounts) consumable_dimensions"

fun careful :: "budget_command \<Rightarrow> ledger \<Rightarrow> bool" where
  "careful (Reserve_Child op rs p c q l k i) s = (\<not> dict_has rs (lg_usage s))"
| "careful (Reserve_Usage op rs a m) s = (\<not> dict_has rs (lg_reservations s))"
| "careful (Admit_Tool_Calls op a n) s = (\<not> (case ledger_account s a of None \<Rightarrow> False | Some acc \<Rightarrow> overspent acc))"
| "careful _ s = True"

text \<open>
  The Agents that may not be created between the read and the append of an operation: one that
  takes the identity or the creation request of the child that is being reserved without being
  that child, and the child of the reservation that is being released. Whoever releases a
  reservation declares by \<open>creation_converged\<close> that the second will not happen.
\<close>

fun undisturbed :: "budget_command \<Rightarrow> ledger \<Rightarrow> agent_directory \<Rightarrow> agent_directory \<Rightarrow> bool" where
  "undisturbed (Reserve_Child op rs p c q lim k i) l d d1 =
     (directory_child d p c q 0 = Inr None \<longrightarrow> is_ok (directory_child d1 p c q 0))"
| "undisturbed (Release_Reservation op rs b) l d d1 =
     (case ledger_reservation l rs of None \<Rightarrow> True
      | Some r \<Rightarrow> directory_child d (brs_parent_agent_id r) (brs_child_agent_id r) (brs_creation_request_id r) 0 = Inr None \<longrightarrow>
          directory_child d1 (brs_parent_agent_id r) (brs_child_agent_id r) (brs_creation_request_id r) 0 = Inr None)"
| "undisturbed _ l d d1 = True"

lemma directory_child_position:
  "directory_child d p c q n = Inr x \<longleftrightarrow> directory_child d p c q 0 = Inr x"
  "is_ok (directory_child d p c q n) \<longleftrightarrow> is_ok (directory_child d p c q 0)"
  by (auto simp: directory_child_def budget_error_def is_ok_iff split: option.splits if_splits)

section \<open>Each operation keeps the ledger readable\<close>

lemma abind_lift_readable:
  "readable st \<Longrightarrow> (\<And>x. r = Inr x \<Longrightarrow> readable (fst (f x st))) \<Longrightarrow> readable (fst (abind (lift_result r) f st))"
  by (cases r) simp_all

lemma loaded_whole:
  assumes "readable st" "load_context st = Inr (l, d)"
  shows "ledger_whole d l \<and> directory_ok d"
proof -
  have "store_ok st" using assms(1) by (simp add: readable_def)
  then show ?thesis
    using assms(2) rebuilt_whole rebuild_directory_ok by (auto simp: load_context_Inr)
qed

lemma admitsI:
  "budget_fact_data f = Inr data \<Longrightarrow> budget_event_type f = ty \<Longrightarrow> fact_operation_id f = op \<Longrightarrow>
   fact_seq f = lg_head_seq l + 1 \<Longrightarrow> is_ok (apply_fact d f l) \<Longrightarrow>
   (\<And>d1. load_directory st1 = Inr d1 \<Longrightarrow> unaffected l d1 f) \<Longrightarrow> admits l d st1 ty op data"
  unfolding admits_def by blast

lemma grant_root_readable:
  assumes "readable st" "meanwhile st (others st)"
  shows "readable (fst (grant_root dr others op a lim st))"
  unfolding grant_root_def
proof (intro abind_lift_readable append_once_readable assms)
  fix data l d
  assume "rbind (freeze_limits lim ''limits'') (root_granted_data op a) = Inr data"
    and "(case directory_get d a of None \<Rightarrow> Inl BudgetDirectoryMismatchError
            | Some record \<Rightarrow>
                (if rec_owner_agent_id record \<noteq> None then Inl BudgetDirectoryMismatchError
                 else raise_if (ledger_account l a \<noteq> None) BudgetOperationConflictError)) = Inr ()"
  then show "admits l d (others st) BUDGET_ROOT_GRANTED op data"
    by (intro admitsI[of "Root_Granted op a lim (lg_head_seq l + 1)"])
      (auto simp: result_simps apply_root_granted_def ledger_account_def dict_has_def split: option.splits if_splits)
qed

lemma reserve_child_readable:
  assumes st: "readable st" and h: "meanwhile st (others st)"
    and care: "\<And>l d. load_context st = Inr (l, d) \<Longrightarrow> \<not> dict_has rs (lg_usage l)"
    and calm: "\<And>l d d1. load_context st = Inr (l, d) \<Longrightarrow> load_directory (others st) = Inr d1 \<Longrightarrow>
      directory_child d p c q 0 = Inr None \<Longrightarrow> is_ok (directory_child d1 p c q 0)"
  shows "readable (fst (reserve_child dr others op rs p c q lim k i st))"
  unfolding reserve_child_def
proof (intro abind_lift_readable append_once_readable st h)
  fix data l d
  assume data: "rbind (freeze_limits lim ''child_limits'') (\<lambda>frozen. child_reserved_data op rs p c q frozen k (json_int_opt i)) = Inr data"
    and ld: "load_context st = Inr (l, d)"
    and check: "(if ledger_reservation l rs \<noteq> None then Inl BudgetOperationConflictError
            else if ledger_account l c \<noteq> None then Inl BudgetOperationConflictError
            else if \<not> reservation_identity_available l c q then Inl BudgetOperationConflictError
            else if directory_get d c \<noteq> None \<or> directory_for_request d q \<noteq> None then Inl BudgetDirectoryMismatchError
            else rbind (ensure_reservation_capacity l p lim k (json_int_opt i)) (\<lambda>_. Inr ())) = Inr ()"
  let ?f = "\<lparr>crf_operation_id = op, crf_reservation_id = rs, crf_parent_agent_id = p, crf_child_agent_id = c,
        crf_creation_request_id = q, crf_child_limits = lim, crf_retained_tokens = k,
        crf_initial_tokens = json_int_opt i, crf_seq = lg_head_seq l + 1\<rparr>"
  obtain deb where deb: "ensure_reservation_capacity l p lim k (json_int_opt i) = Inr deb"
    and free: "ledger_reservation l rs = None" "ledger_account l c = None" "reservation_identity_available l c q"
      "directory_get d c = None" "directory_for_request d q = None"
    using check by (auto simp: rbind_eq_Inr split: if_splits)
  have "is_ok (apply_child_reserved d ?f l)"
    by (rule reservation_agrees[where d = deb])
      (use loaded_whole[OF st ld] deb free care[OF ld] in \<open>simp_all add: ledger_reservation_def ledger_account_def dict_has_def\<close>)
  moreover have "unaffected l d1 (Child_Reserved ?f)" if d1: "load_directory (others st) = Inr d1" for d1
  proof -
    have "directory_child d p c q 0 = Inr None" using free(4,5) by (simp add: directory_child_def)
    then show ?thesis
      using calm[OF ld d1] free(3)
      by (simp add: directory_child_position(2)[of d1 p c q "lg_head_seq l + 1"] reservation_identity_available_def list_all_iff list_ex_iff)
  qed
  ultimately show "admits l d (others st) BUDGET_CHILD_RESERVED op data"
    using data by (intro admitsI[of "Child_Reserved ?f"]) (auto simp: rbind_eq_Inr freeze_limits_Inr)
qed

lemma decide_child_tokens_readable:
  assumes "readable st" "meanwhile st (others st)"
  shows "readable (fst (decide_child_tokens dr others op rq p c t r st))"
  unfolding decide_child_tokens_def
proof (intro abind_lift_readable append_once_readable assms)
  fix data and l :: ledger and d :: agent_directory
  let ?f = "\<lparr>ctd_operation_id = op, ctd_request_id = rq, ctd_parent_agent_id = p, ctd_child_agent_id = c,
       ctd_tokens = t, ctd_reason = r, ctd_seq = lg_head_seq l + 1\<rparr>"
  assume "child_token_decision_data (JStr op) (JStr rq) (JStr p) (JStr c) (JInt t) (JStr r) = Inr data"
    and "(case directory_get d c of None \<Rightarrow> Inl BudgetDirectoryMismatchError
            | Some record \<Rightarrow>
                (if rec_owner_agent_id record \<noteq> Some p then Inl BudgetDirectoryMismatchError
                 else ensure_token_decision l p c rq t)) = Inr ()"
  then show "admits l d (others st) BUDGET_CHILD_TOKEN_DECIDED op data"
    using decision_agrees[of l ?f]
    by (intro admitsI[of "Child_Token_Decided ?f"]) (auto split: option.splits if_splits)
qed

lemma commit_reservation_readable:
  assumes "readable st" "meanwhile st (others st)"
  shows "readable (fst (commit_reservation dr others op rs st))"
  unfolding commit_reservation_def
proof (intro abind_lift_readable append_once_readable assms)
  fix data l d
  assume data: "reservation_terminal_data op rs = Inr data" and ld: "load_context st = Inr (l, d)"
    and check: "(case ledger_reservation l rs of
              None \<Rightarrow> Inl BudgetReservationNotFoundError
            | Some r \<Rightarrow>
                (if brs_terminal_seq r \<noteq> None then Inl BudgetReservationStateError
                 else case (directory_get d (brs_child_agent_id r), directory_for_request d (brs_creation_request_id r)) of
                   (Some child, Some by_request) \<Rightarrow>
                     raise_if (rec_agent_id child \<noteq> rec_agent_id by_request \<or>
                         rec_request_id child \<noteq> brs_creation_request_id r \<or>
                         rec_owner_agent_id child \<noteq> Some (brs_parent_agent_id r)) BudgetDirectoryMismatchError
                 | _ \<Rightarrow> Inl BudgetDirectoryMismatchError)) = Inr ()"
  obtain r child by_request where r: "map_of (lg_reservations l) rs = Some r" "brs_terminal_seq r = None"
    and c: "directory_get d (brs_child_agent_id r) = Some child" "directory_for_request d (brs_creation_request_id r) = Some by_request"
      "rec_agent_id child = rec_agent_id by_request" "rec_request_id child = brs_creation_request_id r"
      "rec_owner_agent_id child = Some (brs_parent_agent_id r)"
    using check by (auto simp: ledger_reservation_def raise_if_eq_Inr split: option.splits if_splits)
  have "rec_agent_id child = brs_child_agent_id r"
    using c(1) loaded_whole[OF assms(1) ld] directory_get_Some by blast
  then have "directory_child d (brs_parent_agent_id r) (brs_child_agent_id r) (brs_creation_request_id r) (lg_head_seq l + 1) = Inr (Some child)"
    using c by (simp add: directory_child_def)
  then have "is_ok (apply_reservation_committed d rs (lg_head_seq l + 1) l)"
    using commit_agrees[OF _ r] loaded_whole[OF assms(1) ld] by blast
  then show "admits l d (others st) BUDGET_RESERVATION_COMMITTED op data"
    using data by (intro admitsI[of "Reservation_Committed_Fact op rs (lg_head_seq l + 1)"]) simp_all
qed

lemma release_reservation_readable:
  assumes "readable st" "meanwhile st (others st)"
    and calm: "\<And>l d d1. load_context st = Inr (l, d) \<Longrightarrow> load_directory (others st) = Inr d1 \<Longrightarrow>
      undisturbed (Release_Reservation op rs b) l d d1"
  shows "readable (fst (release_reservation dr others op rs b st))"
  unfolding release_reservation_def
proof (intro abind_lift_readable append_once_readable assms(1,2))
  fix data l d
  assume data: "reservation_terminal_data op rs = Inr data" and ld: "load_context st = Inr (l, d)"
    and check: "(case ledger_reservation l rs of
              None \<Rightarrow> Inl BudgetReservationNotFoundError
            | Some r \<Rightarrow>
                (if brs_status r \<noteq> Reservation_Pending \<or> brs_terminal_seq r \<noteq> None then Inl BudgetReservationStateError
                 else raise_if (directory_get d (brs_child_agent_id r) \<noteq> None \<or>
                     directory_for_request d (brs_creation_request_id r) \<noteq> None) BudgetDirectoryMismatchError)) = Inr ()"
  then obtain r where r: "map_of (lg_reservations l) rs = Some r" "brs_status r = Reservation_Pending" "brs_terminal_seq r = None"
    "directory_get d (brs_child_agent_id r) = None" "directory_for_request d (brs_creation_request_id r) = None"
    by (auto simp: ledger_reservation_def raise_if_eq_Inr split: option.splits if_splits)
  then have "is_ok (apply_reservation_released d rs (lg_head_seq l + 1) l)"
    using release_agrees loaded_whole[OF assms(1) ld] by blast
  moreover have "unaffected l d1 (Reservation_Released_Fact op rs (lg_head_seq l + 1))" if d1: "load_directory (others st) = Inr d1" for d1
    using calm[OF ld d1] r by (simp add: ledger_reservation_def directory_child_def[of d] directory_child_position(1)[of d1 _ _ _ "lg_head_seq l + 1"])
  ultimately show "admits l d (others st) BUDGET_RESERVATION_RELEASED op data"
    using data by (intro admitsI[of "Reservation_Released_Fact op rs (lg_head_seq l + 1)"]) simp_all
qed

lemma charge_usage_readable:
  assumes "readable st" "meanwhile st (others st)"
    and data: "usage_charged_data op a m (if enforce then ADMISSION else OBSERVATION) q = Inr data"
  shows "readable (fst (charge_usage dr others data op a m enforce st))"
  unfolding charge_usage_def
proof (intro append_once_readable assms(1,2))
  fix l d
  assume "(if enforce then ensure_charge_capacity l a m else ensure_observation_allowed l a m) = Inr ()"
  then show "admits l d (others st) BUDGET_USAGE_CHARGED op data"
    using data charge_agrees[of l a m op q "lg_head_seq l + 1"] observation_agrees[of l a m op q "lg_head_seq l + 1"]
    by (cases enforce)
      (auto intro!: admitsI[of "Usage_Charged op a m (if enforce then ADMISSION else OBSERVATION) q (lg_head_seq l + 1)"])
qed

lemma admit_usage_readable: "readable st \<Longrightarrow> meanwhile st (others st) \<Longrightarrow> readable (fst (admit_usage dr others op a m st))"
  unfolding admit_usage_def
  by (intro abind_lift_readable) (auto intro!: charge_usage_readable)

lemma record_usage_readable: "readable st \<Longrightarrow> meanwhile st (others st) \<Longrightarrow> readable (fst (record_usage dr others op a m q st))"
  unfolding record_usage_def
  by (intro abind_lift_readable) (auto intro!: charge_usage_readable)

lemma reserve_usage_readable:
  assumes st: "readable st" and h: "meanwhile st (others st)"
    and care: "\<And>l d. load_context st = Inr (l, d) \<Longrightarrow> \<not> dict_has rs (lg_reservations l)"
  shows "readable (fst (reserve_usage dr others op rs a m st))"
  unfolding reserve_usage_def
proof (intro abind_lift_readable append_once_readable st h)
  fix frozen data l d
  assume data: "usage_reserved_data op rs a frozen = Inr data" and ld: "load_context st = Inr (l, d)"
    and check: "(if ledger_usage_reservation l rs \<noteq> None then Inl BudgetOperationConflictError
                 else ensure_usage_reservation_capacity l a frozen) = Inr ()"
  have "one_reserved_dimension frozen" using data by (auto simp: usage_reserved_data_def result_simps split: if_splits)
  moreover have "\<not> dict_has rs (lg_usage l)" "ensure_usage_reservation_capacity l a frozen = Inr ()"
    using check by (auto simp: ledger_usage_reservation_def dict_has_def split: if_splits)
  ultimately have "is_ok (apply_usage_reserved rs a frozen (lg_head_seq l + 1) l)"
    using usage_reservation_agrees care[OF ld] by blast
  then show "admits l d (others st) BUDGET_USAGE_RESERVED op data"
    using data by (intro admitsI[of "Usage_Reserved op rs a frozen (lg_head_seq l + 1)"]) simp_all
qed

lemma settle_usage_readable:
  assumes "readable st" "meanwhile st (others st)"
  shows "readable (fst (settle_usage dr others op rs m q st))"
  unfolding settle_usage_def
proof (intro abind_lift_readable append_once_readable assms)
  fix frozen data l d
  assume data: "usage_settled_data op rs frozen q = Inr data" and ld: "load_context st = Inr (l, d)"
    and check: "(case ledger_usage_reservation l rs of
              None \<Rightarrow> Inl BudgetReservationNotFoundError
            | Some reservation \<Rightarrow>
                (if ur_status reservation \<noteq> Usage_Started then Inl BudgetReservationStateError
                 else ensure_usage_settlement reservation frozen q)) = Inr ()"
  then obtain u where u: "map_of (lg_usage l) rs = Some u" "ur_status u = Usage_Started" "usage_settlement_matches u frozen q"
    by (auto simp: ledger_usage_reservation_def ensure_usage_settlement_def raise_if_eq_Inr split: option.splits if_splits)
  have "is_ok (apply_usage_ended rs (Some (frozen, q)) (lg_head_seq l + 1) l)"
    by (rule end_agrees[where u = u and dir = d]) (use u loaded_whole[OF assms(1) ld] in simp_all)
  then show "admits l d (others st) BUDGET_USAGE_SETTLED op data"
    using data by (intro admitsI[of "Usage_Settled_Fact op rs frozen q (lg_head_seq l + 1)"]) simp_all
qed

lemma release_usage_readable:
  assumes "readable st" "meanwhile st (others st)"
  shows "readable (fst (release_usage dr others op rs st))"
  unfolding release_usage_def
proof (intro abind_lift_readable append_once_readable assms)
  fix data l d
  assume data: "usage_released_data op rs = Inr data" and ld: "load_context st = Inr (l, d)"
    and check: "(case ledger_usage_reservation l rs of
              None \<Rightarrow> Inl BudgetReservationNotFoundError
            | Some reservation \<Rightarrow> raise_if (ur_status reservation \<noteq> Usage_Pending) BudgetReservationStateError) = Inr ()"
  then obtain u where u: "map_of (lg_usage l) rs = Some u" "ur_status u = Usage_Pending"
    by (auto simp: ledger_usage_reservation_def raise_if_eq_Inr split: option.splits)
  have "is_ok (apply_usage_ended rs None (lg_head_seq l + 1) l)"
    by (rule end_agrees[where u = u and dir = d]) (use u loaded_whole[OF assms(1) ld] in simp_all)
  then show "admits l d (others st) BUDGET_USAGE_RELEASED op data"
    using data by (intro admitsI[of "Usage_Released_Fact op rs (lg_head_seq l + 1)"]) simp_all
qed

lemma close_account_readable:
  assumes "readable st" "meanwhile st (others st)"
  shows "readable (fst (close_account dr others op a st))"
  unfolding close_account_def
proof (intro abind_lift_readable append_once_readable assms)
  fix data l d
  assume data: "account_closed_data op a = Inr data" and ld: "load_context st = Inr (l, d)"
    and check: "rbind (require_open_account l a) (\<lambda>account.
            if list_ex (\<lambda>r. brs_parent_agent_id r = bac_agent_id account \<and> brs_status r = Reservation_Pending)
                 (dict_values (lg_reservations l))
            then Inl BudgetReservationStateError
            else raise_if (list_ex (\<lambda>u. ur_agent_id u = a \<and> ur_status u \<in> {Usage_Pending, Usage_Started})
                 (dict_values (lg_usage l))) BudgetReservationStateError) = Inr ()"
  obtain acc where acc: "require_open_account l a = Inr acc"
    and idle: "\<not> list_ex (\<lambda>r. brs_parent_agent_id r = bac_agent_id acc \<and> brs_status r = Reservation_Pending) (dict_values (lg_reservations l))"
      "\<not> list_ex (\<lambda>u. ur_agent_id u = a \<and> ur_status u \<in> {Usage_Pending, Usage_Started}) (dict_values (lg_usage l))"
    using check by (auto simp: rbind_eq_Inr raise_if_eq_Inr split: if_splits)
  have ok: "structure_ok d l"
    using loaded_whole[OF assms(1) ld] by (simp add: ledger_whole_def ledger_live_def ledger_inv_def)
  have "bac_agent_id acc = a"
    using acc structure_okD(1)[OF ok, of a acc] by (simp add: require_open_Inr account_ok_def)
  then have "is_ok (apply_account_closed a (lg_head_seq l + 1) l)" using close_agrees acc idle by blast
  then show "admits l d (others st) BUDGET_ACCOUNT_CLOSED op data"
    using data by (intro admitsI[of "Account_Closed_Fact op a (lg_head_seq l + 1)"]) simp_all
qed

lemma abind_append_readable:
  assumes "readable (fst (budget_append dr others n ty data st))"
    and "\<And>x st'. fst (f x st') = st'"
  shows "readable (fst (abind (budget_append dr others n ty data) f st))"
  using assms by (cases "budget_append dr others n ty data st") (auto simp: abind_def split: sum.split)

lemma reading_keeps [simp]: "fst (abind (reading g) (\<lambda>x. lift_result (h x)) st) = st"
  by (simp add: lift_result_def split: sum.split)

lemma fst_lift [simp]: "fst (lift_result r st) = st"
  by (simp add: lift_result_def)

lemma claim_usage_readable:
  assumes "readable (fst (budget_append dr others (lg_head_seq l) BUDGET_USAGE_STARTED data st))"
  shows "readable (fst (claim_usage dr others l rs data st))"
  unfolding claim_usage_def by (rule abind_append_readable[OF assms]) (simp split: sum.split)

lemma start_usage_readable:
  assumes st: "readable st" and h: "meanwhile st (others st)"
  shows "readable (fst (start_usage dr others op rs st))"
  unfolding start_usage_def
proof (rule abind_lift_readable[OF st])
  fix data assume data: "reservation_terminal_data op rs = Inr data"
  have claim: "readable (fst (claim_usage dr others l rs data st))"
    if ld: "load_context st = Inr (l, d)" and new: "\<not> operation_exists l op"
      and u: "map_of (lg_usage l) rs = Some u" "ur_status u = Usage_Pending" for l d u
  proof -
    have "is_ok (apply_usage_started rs (lg_head_seq l + 1) l)" using start_agrees u by blast
    then have "admits l d (others st) BUDGET_USAGE_STARTED op data"
      using data by (intro admitsI[of "Usage_Started_Fact op rs (lg_head_seq l + 1)"]) simp_all
    then show ?thesis using claim_usage_readable budget_append_readable[where others = others, OF st h ld new] by blast
  qed
  show "readable (fst (abind (reading load_context) (\<lambda>(ledger, _).
       if operation_exists ledger op then lift_result (Inl BudgetReservationStateError)
       else case ledger_usage_reservation ledger rs of
         None \<Rightarrow> lift_result (Inl BudgetReservationNotFoundError)
       | Some reservation \<Rightarrow>
           (if ur_status reservation \<noteq> Usage_Pending then lift_result (Inl BudgetReservationStateError)
            else claim_usage dr others ledger rs data)) st))"
    using st claim by (auto simp: ledger_usage_reservation_def split: sum.split option.split)
qed

lemma not_overspent_capacity:
  assumes "\<not> overspent a" and "\<forall>limit. bl_max_children (bac_limits a) = Some limit \<longrightarrow> bac_reserved_children a \<le> limit"
    and r: "bl_max_tool_calls (bac_limits a) = Some m" "x \<le> max 0 (m - ba_tool_calls (account_used a))" "0 < x"
  shows "ensure_capacity a (no_amounts\<lparr>ba_tool_calls := x\<rparr>) n 0 = Inr ()"
proof -
  have "\<forall>(lf, f) \<in> limit_dims. \<forall>limit. lf (bac_limits a) = Some limit \<longrightarrow> f (account_used a) \<le> limit"
    using assms(1) by (auto simp: overspent_def over_limit_def consumable_dimensions_def limit_dims_def no_amounts_def split: option.splits)
  then show ?thesis
    using assms(2) r by (auto simp: ensure_capacity_Inr limit_dims_def no_amounts_def)
qed

lemma tool_charge_agrees:
  assumes whole: "ledger_whole d l" and av: "available l a = Inr rest" "bl_max_tool_calls rest = Some m"
    and x: "0 < x" "x \<le> m" and care: "\<And>acc. ledger_account l a = Some acc \<Longrightarrow> \<not> overspent acc"
  shows "is_ok (apply_usage_charged op a (no_amounts\<lparr>ba_tool_calls := x\<rparr>) ADMISSION q n l)"
proof -
  obtain acc where acc: "map_of (lg_accounts l) a = Some acc" "bac_status acc = Account_Open"
    and m: "remaining (bl_max_tool_calls (bac_limits acc)) (ba_tool_calls (account_used acc)) = Some m"
    using av by (auto simp: available_def rbind_eq_Inr require_open_Inr Let_def)
  then obtain limit where lim: "bl_max_tool_calls (bac_limits acc) = Some limit" "m = max 0 (limit - ba_tool_calls (account_used acc))"
    by (auto simp: remaining_def)
  have "within_limits l" using whole by (simp add: ledger_whole_def ledger_live_def ledger_inv_def)
  then have kids: "\<forall>limit. bl_max_children (bac_limits acc) = Some limit \<longrightarrow> bac_reserved_children acc \<le> limit"
    using acc(1) by (simp add: within_limits_def account_within_def)
  have "\<not> overspent acc" using care acc(1) by (simp add: ledger_account_def)
  then have "ensure_capacity acc (no_amounts\<lparr>ba_tool_calls := x\<rparr>) n 0 = Inr ()"
    using not_overspent_capacity[OF _ kids lim(1), of x n] x lim(2) by simp
  moreover have "\<not> inactive_charge (bac_limits acc) (no_amounts\<lparr>ba_tool_calls := x\<rparr>)"
    using lim(1) by (simp add: inactive_charge_def consumable_dimensions_def no_amounts_def)
  ultimately show ?thesis
    using acc by (simp add: apply_usage_charged_def open_account_or_def account_or_def)
qed

lemma append_tool_charge_readable:
  assumes st: "readable st" and h: "meanwhile st (others st)" and ld: "load_context st = Inr (l, d)" and new: "\<not> operation_exists l op"
    and ok: "0 < x \<Longrightarrow> is_ok (apply_usage_charged op a (no_amounts\<lparr>ba_tool_calls := x\<rparr>) ADMISSION None (lg_head_seq l + 1) l)"
  shows "readable (fst (append_tool_charge dr others l op a x st))"
  unfolding append_tool_charge_def
proof (rule abind_lift_readable[OF st])
  fix data assume data: "usage_charged_data op a (no_amounts\<lparr>ba_tool_calls := x\<rparr>) ADMISSION None = Inr data"
  then have "0 < x"
    by (auto simp: usage_charged_data_def result_simps amounts_ok_def amount_values_def no_amounts_def split: if_splits)
  then have "admits l d (others st) BUDGET_USAGE_CHARGED op data"
    using data ok by (intro admitsI[of "Usage_Charged op a (no_amounts\<lparr>ba_tool_calls := x\<rparr>) ADMISSION None (lg_head_seq l + 1)"]) simp_all
  then have "readable (fst (budget_append dr others (lg_head_seq l) BUDGET_USAGE_CHARGED data st))"
    using budget_append_readable[where others = others, OF st h ld new] by blast
  then show "readable (fst (abind (budget_append dr others (lg_head_seq l) BUDGET_USAGE_CHARGED data)
      (\<lambda>_. abind (reading load_ledger) (\<lambda>updated.
       lift_result (rbind (some_or_assert (ledger_charge updated op)) (\<lambda>charge.
         Inr (ba_tool_calls (bch_amounts charge)))))) st))"
    by (rule abind_append_readable) (simp split: sum.split)
qed

lemma admit_remaining_readable:
  assumes st: "readable st" and h: "meanwhile st (others st)" and ld: "load_context st = Inr (l, d)" and new: "\<not> operation_exists l op"
    and care: "\<And>acc. ledger_account l a = Some acc \<Longrightarrow> \<not> overspent acc"
  shows "readable (fst (admit_remaining dr others l op a k st))"
  unfolding admit_remaining_def
proof (rule abind_lift_readable[OF st])
  fix limits assume av: "available l a = Inr limits"
  have "readable (fst (append_tool_charge dr others l op a (min k m) st))" if m: "bl_max_tool_calls limits = Some m" for m
  proof (rule append_tool_charge_readable[where others = others, OF st h ld new])
    assume "0 < min k m"
    then show "is_ok (apply_usage_charged op a (no_amounts\<lparr>ba_tool_calls := min k m\<rparr>) ADMISSION None (lg_head_seq l + 1) l)"
      using loaded_whole[OF st ld] care by (intro tool_charge_agrees[OF _ av m]) auto
  qed
  then show "readable (fst ((case bl_max_tool_calls limits of
         None \<Rightarrow> lift_result (Inr k)
       | Some left_over \<Rightarrow>
           (let admitted = min k left_over in
            if admitted = 0 then lift_result (Inr 0)
            else append_tool_charge dr others l op a admitted)) st))"
    using st by (auto simp: Let_def split: option.split)
qed

lemma admit_tool_calls_readable:
  assumes st: "readable st" and h: "meanwhile st (others st)"
    and care: "\<And>l d acc. load_context st = Inr (l, d) \<Longrightarrow> ledger_account l a = Some acc \<Longrightarrow> \<not> overspent acc"
  shows "readable (fst (admit_tool_calls dr others op a k st))"
proof -
  have tail: "readable (fst (abind (reading load_context) (\<lambda>(ledger, _).
       case ledger_charge ledger op of
         Some existing \<Rightarrow> lift_result (recognised_charge existing a k)
       | None \<Rightarrow>
           (if operation_exists ledger op then lift_result (Inl BudgetOperationConflictError)
            else admit_remaining dr others ledger op a k)) st))"
    using st admit_remaining_readable[where others = others, OF st h] care by (auto split: sum.split option.split)
  show ?thesis
    unfolding admit_tool_calls_def
    by (intro abind_lift_readable st) (use tail in \<open>auto simp: result_simps\<close>)
qed

lemma command_readable:
  assumes st: "readable st" and h: "meanwhile st (others st)" and care: "\<And>l d. load_context st = Inr (l, d) \<Longrightarrow> careful c l"
    and calm: "\<And>l d d1. load_context st = Inr (l, d) \<Longrightarrow> load_directory (others st) = Inr d1 \<Longrightarrow> undisturbed c l d d1"
  shows "readable (run_command dr others c st)"
proof (cases c)
  case (Reserve_Child op rs p c' q l k i)
  have "\<not> dict_has rs (lg_usage s)" if "load_context st = Inr (s, d)" for s d using care[OF that] Reserve_Child by simp
  moreover have "is_ok (directory_child d1 p c' q 0)"
    if "load_context st = Inr (s, d)" "load_directory (others st) = Inr d1" "directory_child d p c' q 0 = Inr None" for s d d1
    using calm[OF that(1,2)] that(3) Reserve_Child by simp
  ultimately have "readable (fst (reserve_child dr others op rs p c' q l k i st))" using reserve_child_readable[where others = others, OF st h] by blast
  then show ?thesis using Reserve_Child by simp
next
  case (Release_Reservation op rs b)
  have "readable (fst (release_reservation dr others op rs b st))"
    using calm release_reservation_readable[where others = others, OF st h] unfolding Release_Reservation by blast
  then show ?thesis using Release_Reservation by simp
next
  case (Reserve_Usage op rs a m)
  then show ?thesis using care reserve_usage_readable[where others = others, OF st h, of rs] by simp
next
  case (Admit_Tool_Calls op a k)
  have "\<not> overspent acc" if "load_context st = Inr (l, d)" "ledger_account l a = Some acc" for l d acc
    using care[OF that(1)] that(2) by (simp add: Admit_Tool_Calls)
  then show ?thesis using admit_tool_calls_readable[where others = others, OF st h] by (simp add: Admit_Tool_Calls)
qed (use st h in \<open>simp_all add: grant_root_readable decide_child_tokens_readable commit_reservation_readable
    admit_usage_readable record_usage_readable start_usage_readable settle_usage_readable
    release_usage_readable close_account_readable\<close>)

section \<open>One write per command\<close>

definition touches :: "drawn \<Rightarrow> (event_store \<Rightarrow> event_store) \<Rightarrow> event_store \<Rightarrow> event_store \<Rightarrow> bool" where
  "touches dr others st st' \<longleftrightarrow> st' = st \<or> (\<exists>l d ty data. load_context st = Inr (l, d) \<and>
     st' = fst (budget_append dr others (lg_head_seq l) ty data st))"

lemma touches_refl [simp]: "touches dr others st st"
  by (simp add: touches_def)

lemma abind_lift_touches:
  "(\<And>x. r = Inr x \<Longrightarrow> touches dr others st (fst (f x st))) \<Longrightarrow> touches dr others st (fst (abind (lift_result r) f st))"
  by (cases r) simp_all

lemma abind_load_touches:
  "(\<And>l d. load_context st = Inr (l, d) \<Longrightarrow> touches dr others st (fst (f (l, d) st))) \<Longrightarrow>
     touches dr others st (fst (abind (reading load_context) f st))"
  by (simp split: sum.split)

lemma abind_append_touches:
  assumes "load_context st = Inr (l, d)" and "\<And>x st'. fst (f x st') = st'"
  shows "touches dr others st (fst (abind (budget_append dr others (lg_head_seq l) ty data) f st))"
proof -
  have "fst (abind (budget_append dr others (lg_head_seq l) ty data) f st) = fst (budget_append dr others (lg_head_seq l) ty data st)"
    using assms(2) by (cases "budget_append dr others (lg_head_seq l) ty data st") (auto simp: abind_def split: sum.split)
  then show ?thesis using assms(1) by (auto simp: touches_def)
qed

lemma append_once_touches: "touches dr others st (fst (append_once dr others op ty data check project st))"
  unfolding append_once_def
proof (rule abind_load_touches, clarsimp, rule abind_lift_touches)
  fix l d m assume ld: "load_context st = Inr (l, d)"
  show "touches dr others st (fst ((if m then lift_result (project l)
       else
         abind (lift_result (check l d)) (\<lambda>_.
         abind (budget_append dr others (lg_head_seq l) ty data) (\<lambda>_.
         abind (reading load_ledger) (\<lambda>updated. lift_result (project updated))))) st))"
    by (cases m) (auto intro!: abind_lift_touches abind_append_touches[OF ld] split: sum.split)
qed

lemma charge_usage_touches: "touches dr others st (fst (charge_usage dr others data op a m b st))"
  unfolding charge_usage_def by (rule append_once_touches)

lemma start_usage_touches: "touches dr others st (fst (start_usage dr others op rs st))"
  unfolding start_usage_def
  by (intro abind_lift_touches abind_load_touches)
    (auto simp: claim_usage_def intro!: abind_append_touches split: option.split sum.split)

lemma admit_tool_calls_touches: "touches dr others st (fst (admit_tool_calls dr others op a k st))"
  unfolding admit_tool_calls_def
  by (intro abind_lift_touches abind_load_touches)
    (auto simp: admit_remaining_def append_tool_charge_def Let_def
        intro!: abind_lift_touches abind_append_touches split: option.split sum.split)

lemma command_touches: "touches dr others st (run_command dr others c st)"
  by (cases c)
    (auto simp: grant_root_def reserve_child_def decide_child_tokens_def commit_reservation_def release_reservation_def
      admit_usage_def record_usage_def reserve_usage_def settle_usage_def release_usage_def close_account_def
      start_usage_touches admit_tool_calls_touches
      intro!: abind_lift_touches append_once_touches charge_usage_touches)

end
