(* ===== verification/Budget_Service_Properties.thy ===== *)
theory Budget_Service_Properties imports Budget_Safety begin

text \<open>
  Properties of the host's budget operations (budgets/service.py) over the event store: they
  keep the ledger readable, write at most once and never on a stale view, can be retried, and
  start a usage reservation once; and the three ways in which an accepted operation leaves a
  ledger that can never be read again.
\<close>

section \<open>Worked stores\<close>

definition budget_store :: "budget_fact list \<Rightarrow> event_store" where
  "budget_store fs = \<lparr>es_streams = [(AGENT_DIRECTORY_STREAM, sample_directory_events),
     (BUDGET_LEDGER_STREAM, map budget_event fs)]\<rparr>"

lemma budget_store_streams [simp]:
  "stream_of (budget_store fs) AGENT_DIRECTORY_STREAM = sample_directory_events"
  "stream_of (budget_store fs) BUDGET_LEDGER_STREAM = map budget_event fs"
  by (simp_all add: budget_store_def stream_of_def)

lemma facts_from_numbered: "facts_from n fs \<Longrightarrow> i < length fs \<Longrightarrow> fact_seq (fs ! i) = n + int i"
proof (induction fs arbitrary: n i)
  case (Cons f fs)
  then show ?case by (cases i) auto
qed simp

lemma sample_directory_numbered: "numbered AGENT_DIRECTORY_STREAM sample_directory_events"
  by (auto simp: numbered_def sample_directory_events_def sample_root_def sample_created_def less_Suc_eq nth_Cons')

lemma budget_store_ok: "facts_from 1 fs \<Longrightarrow> store_ok (budget_store fs)"
  using sample_directory_numbered facts_from_numbered[of 1 fs]
  by (auto simp: store_ok_def budget_store_def dict_ok_def numbered_def budget_event_def)

lemma replayed_rebuild:
  assumes "facts_from 1 fs" "distinct (map fact_operation_id fs)" "replay_facts d empty_ledger fs = Inr t"
  shows "\<exists>ops. rebuild_ledger (map budget_event fs) d = Inr (stamped ops (int (length fs)) t)"
proof -
  have "\<exists>ops' m. foldM (apply_budget_event d) (stamped [] 0 empty_ledger)
      (number_from 1 (map budget_event fs)) = Inr (stamped ops' m t)"
    using assms by (intro replay_facts_events) (auto simp: dict_has_def)
  moreover have "stamped [] 0 empty_ledger = empty_ledger" by (simp add: stamped_def empty_ledger_def)
  ultimately obtain ops m where r: "rebuild_ledger (map budget_event fs) d = Inr (stamped ops m t)"
    by (auto simp: rebuild_ledger_def)
  then have "m = int (length fs)" using ledger_log[OF r] by (simp add: stamped_def)
  then show ?thesis using r by blast
qed

lemma budget_store_load:
  assumes "facts_from 1 fs" "distinct (map fact_operation_id fs)" "is_ok (replay_facts sample_directory empty_ledger fs)"
  shows "\<exists>ops. load_context (budget_store fs) =
    Inr (stamped ops (int (length fs)) (projr (replay_facts sample_directory empty_ledger fs)), sample_directory)"
proof -
  have "replay_facts sample_directory empty_ledger fs = Inr (projr (replay_facts sample_directory empty_ledger fs))"
    using assms(3) by (auto simp: is_ok_iff)
  then show ?thesis
    using replayed_rebuild[OF assms(1,2)] sample_directory_rebuilt budget_store_ok[OF assms(1)] by (simp add: load_context_Inr)
qed

definition sample_grant_facts :: "budget_fact list" where
  "sample_grant_facts = take 3 sample_ledger_facts"

definition sample_overspent_facts :: "budget_fact list" where
  "sample_overspent_facts =
     [Root_Granted (lit ''op-0'') (lit ''root'') (sample_limits\<lparr>bl_max_tool_calls := Some 5\<rparr>) 1,
      Usage_Charged (lit ''op-1'') (lit ''root'') (no_amounts\<lparr>ba_tokens := 5000\<rparr>) OBSERVATION (Some Quality_Estimated) 2]"

lemma sample_grant_ok:
  "facts_from 1 sample_grant_facts" "distinct (map fact_operation_id sample_grant_facts)"
  "is_ok (replay_facts sample_directory empty_ledger sample_grant_facts)"
  by code_simp+

lemma sample_overspent_ok:
  "facts_from 1 sample_overspent_facts" "distinct (map fact_operation_id sample_overspent_facts)"
  "is_ok (replay_facts sample_directory empty_ledger sample_overspent_facts)"
  by code_simp+

lemma sample_grant_readable: "readable (budget_store sample_grant_facts)"
  using budget_store_ok[OF sample_grant_ok(1)] budget_store_load[OF sample_grant_ok] by (auto simp: readable_def)

lemma honest_id: "honest (\<lambda>st. st)"
  by (simp add: honest_def)

lemma budget_store_operations:
  assumes "facts_from 1 fs" "\<forall>f \<in> set fs. is_ok (budget_fact_data f)" "load_context (budget_store fs) = Inr (l, d)" "operation_exists l op"
  shows "op \<in> fact_operation_id ` set fs"
proof -
  have r: "rebuild_ledger (map budget_event fs) d = Inr l"
    using assms(1,3) by (simp add: load_context_Inr budget_store_ok)
  obtain lo where "map_of (lg_operations l) op = Some lo"
    using assms(4) by (auto simp: operation_exists_def dict_has_def)
  then have "logged (map budget_event fs) op lo" using ledger_log[OF r] by simp
  then obtain i f where i: "i < length fs" "parse_budget_fact (budget_event (fs ! i)) = Inr f" "fact_operation_id f = op"
    by (auto simp: logged_def)
  then have "f = fs ! i" using assms(2) budget_event_parses[of "fs ! i"] by simp
  then show ?thesis using i by auto
qed

section \<open>What is left behind by a refused append\<close>

lemma refused_append:
  assumes ok: "store_ok st" and ld: "load_context st = Inr (l, d)" and new: "\<not> operation_exists l (fact_operation_id f)"
    and data: "budget_fact_data f = Inr data" "fact_seq f = lg_head_seq l + 1"
    and bad: "apply_fact d f l = Inl (BudgetProtocolError code (lg_head_seq l + 1))"
  shows "load_context (fst (budget_append dr (\<lambda>st. st) (lg_head_seq l) (budget_event_type f) data st)) =
    Inl (BudgetProtocolError code (lg_head_seq l + 1))"
proof -
  let ?n = "lg_head_seq l + 1" and ?st' = "fst (budget_append dr (\<lambda>st. st) (lg_head_seq l) (budget_event_type f) data st)"
  let ?ev = "appended_event dr ?n (budget_event_type f) data"
  have ev: "parse_budget_fact ?ev = Inr f" using appended_event_parses[OF data] .
  have step: "apply_budget_event d l (?n, ?ev) = Inl (BudgetProtocolError code ?n)"
    using new bad data(2) by (simp add: apply_budget_event_fact[OF ev] operation_exists_def is_budget_protocol_error_def)
  have r: "rebuild_ledger (stream_of st BUDGET_LEDGER_STREAM) d = Inr l" using ld ok by (simp add: load_context_Inr)
  have head: "head_seq st BUDGET_LEDGER_STREAM = lg_head_seq l" using ledger_log[OF r] head_seq_length[OF ok] by simp
  have ok': "store_ok ?st'" using budget_append_ok[of "\<lambda>st. st" st dr "lg_head_seq l" "budget_event_type f" data] ok by simp
  have "load_context ?st' = rbind (apply_budget_event d l (?n, ?ev)) (\<lambda>l'. Inr (l', d))"
    using head by (intro load_appended[OF ok ok' ld ev]) (simp_all add: budget_append_stream)
  then show ?thesis by (simp add: step)
qed

lemma fst_abind_project: "fst (abind m (\<lambda>_. abind (reading g) (\<lambda>x. lift_result (h x))) st) = fst (m st)"
  by (auto simp: abind_def lift_result_def reading_def split: prod.split sum.split)

lemma append_once_writes:
  assumes "load_context st = Inr (l, d)" "\<not> operation_exists l op" "check l d = Inr ()"
  shows "fst (append_once dr others op ty data check project st) = fst (budget_append dr others (lg_head_seq l) ty data st)"
  using assms by (simp add: append_once_def operation_matches_or_raise_def fst_abind_project)

lemma logged_append: "logged es op lo \<Longrightarrow> logged (es @ xs) op lo"
  unfolding logged_def by (metis length_append nth_append trans_less_add1)

text \<open>An operation is on record in a store: some event of the ledger is its fact.\<close>

definition on_record :: "event_store \<Rightarrow> pystr \<Rightarrow> string \<Rightarrow> payload \<Rightarrow> bool" where
  "on_record st op ty data \<longleftrightarrow> (\<exists>n. logged (stream_of st BUDGET_LEDGER_STREAM) op
     \<lparr>lop_event_type = ty, lop_payload = canonical_json (JDict data), lop_seq = n\<rparr>)"

lemma on_record_matches:
  assumes "on_record st op ty data" "store_ok st" "load_context st = Inr (l, d)"
  shows "operation_matches_or_raise l op ty' data' =
    (if ty' = ty \<and> canonical_json (JDict data') = canonical_json (JDict data) then Inr True else Inl BudgetOperationConflictError)"
proof -
  have r: "rebuild_ledger (stream_of st BUDGET_LEDGER_STREAM) d = Inr l" using assms(2,3) by (simp add: load_context_Inr)
  obtain n where "map_of (lg_operations l) op = Some \<lparr>lop_event_type = ty, lop_payload = canonical_json (JDict data), lop_seq = n\<rparr>"
    using assms(1) ledger_log[OF r] by (auto simp: on_record_def)
  then show ?thesis by (auto simp: operation_matches_or_raise_def operation_matches_def operation_exists_def dict_has_def)
qed

lemma matched_on_record:
  assumes "store_ok st" "load_context st = Inr (l, d)" "operation_matches_or_raise l op ty data = Inr True"
  shows "on_record st op ty data"
proof -
  have r: "rebuild_ledger (stream_of st BUDGET_LEDGER_STREAM) d = Inr l" using assms(1,2) by (simp add: load_context_Inr)
  obtain n where "map_of (lg_operations l) op = Some \<lparr>lop_event_type = ty, lop_payload = canonical_json (JDict data), lop_seq = n\<rparr>"
    using assms(3) by (auto simp: operation_matches_or_raise_def operation_matches_def split: if_splits option.splits)
  then show ?thesis using ledger_log[OF r] by (auto simp: on_record_def)
qed

lemma appended_on_record:
  assumes ok: "store_ok st" and ld: "load_context st = Inr (l, d)"
    and f: "budget_fact_data f = Inr data" "fact_seq f = lg_head_seq l + 1"
  shows "on_record (fst (budget_append dr (\<lambda>st. st) (lg_head_seq l) (budget_event_type f) data st)) (fact_operation_id f) (budget_event_type f) data"
proof -
  let ?es = "stream_of st BUDGET_LEDGER_STREAM" and ?ev = "appended_event dr (lg_head_seq l + 1) (budget_event_type f) data"
  have r: "rebuild_ledger ?es d = Inr l" using ld ok by (simp add: load_context_Inr)
  have n: "lg_head_seq l = int (length ?es)" using ledger_log[OF r] by simp
  have "logged (?es @ [?ev]) (fact_operation_id f) (ledger_operation_of f ?ev)"
    using logged_snoc[OF appended_event_parses[OF f]] f(2) n by simp
  moreover have "head_seq st BUDGET_LEDGER_STREAM = lg_head_seq l" using n head_seq_length[OF ok] by simp
  ultimately show ?thesis by (auto simp: on_record_def budget_append_stream ledger_operation_of_def)
qed

lemma append_once_on_record:
  assumes ok: "store_ok st" and ld: "load_context st = Inr (l, d)"
    and f: "budget_fact_data f = Inr data" "fact_seq f = lg_head_seq l + 1"
    and run: "append_once dr (\<lambda>st. st) (fact_operation_id f) (budget_event_type f) data check project st = (st1, Inr v)"
  shows "on_record st1 (fact_operation_id f) (budget_event_type f) data"
proof (cases "operation_matches_or_raise l (fact_operation_id f) (budget_event_type f) data")
  case (Inr matched)
  show ?thesis
  proof (cases matched)
    case True
    then show ?thesis using run ld Inr matched_on_record[OF ok ld] by (simp add: append_once_def lift_result_def)
  next
    case False
    have "\<not> operation_exists l (fact_operation_id f)"
      using Inr False by (auto simp: operation_matches_or_raise_def split: if_splits)
    moreover have "check l d = Inr ()"
      using run ld Inr False by (cases "check l d") (simp_all add: append_once_def)
    ultimately have "st1 = fst (budget_append dr (\<lambda>st. st) (lg_head_seq l) (budget_event_type f) data st)"
      using append_once_writes[OF ld, of "fact_operation_id f" check dr "\<lambda>st. st" "budget_event_type f" data project] run by simp
    then show ?thesis using appended_on_record[OF ok ld f] by simp
  qed
qed (use run ld in \<open>simp add: append_once_def\<close>)

lemma on_record_answer:
  assumes "on_record st op ty data" "store_ok st" "load_context st = Inr (l, d)"
  shows "append_once dr others op ty' data' check project st =
    (st, if ty' = ty \<and> canonical_json (JDict data') = canonical_json (JDict data) then project l else Inl BudgetOperationConflictError)"
  using on_record_matches[OF assms] assms(3) by (simp add: append_once_def lift_result_def)

section \<open>Starting a usage reservation\<close>

lemma fresh_view:
  assumes st: "store_ok st" and h: "honest others" and ld: "load_context st = Inr (l, d)"
    and head: "head_seq (others st) BUDGET_LEDGER_STREAM = lg_head_seq l"
  shows "stream_of (others st) BUDGET_LEDGER_STREAM = stream_of st BUDGET_LEDGER_STREAM"
proof -
  obtain xs where xs: "store_ok (others st)"
      "stream_of (others st) BUDGET_LEDGER_STREAM = stream_of st BUDGET_LEDGER_STREAM @ xs"
    using h st by (auto simp: honest_def)
  have "rebuild_ledger (stream_of st BUDGET_LEDGER_STREAM) d = Inr l" using ld st by (simp add: load_context_Inr)
  from ledger_log[OF this] have "lg_head_seq l = int (length (stream_of st BUDGET_LEDGER_STREAM))" by simp
  then show ?thesis using xs(2) head head_seq_length[OF xs(1)] by simp
qed

lemma claim_usage_won:
  assumes st: "store_ok st" and h: "honest others" and run: "claim_usage dr others l rs data st = (st1, Inr u)"
  shows "head_seq (others st) BUDGET_LEDGER_STREAM = lg_head_seq l \<and>
    st1 = fst (budget_append dr others (lg_head_seq l) BUDGET_USAGE_STARTED data st)"
proof -
  have ok: "store_ok (others st)" using h st by (simp add: honest_def)
  have "fst (claim_usage dr others l rs data st) = fst (budget_append dr others (lg_head_seq l) BUDGET_USAGE_STARTED data st)"
    by (auto simp: claim_usage_def abind_def lift_result_def reading_def split: prod.split sum.split)
  moreover have "snd (claim_usage dr others l rs data st) \<noteq> Inr u"
    if "snd (budget_append dr others (lg_head_seq l) BUDGET_USAGE_STARTED data st) \<in> {Inr None, Inl BudgetLedgerConflictError}"
    using that by (auto simp: claim_usage_def abind_def lift_result_def split: prod.split)
  ultimately show ?thesis
    using run budget_append_result[of others st dr "lg_head_seq l" BUDGET_USAGE_STARTED data, OF ok]
    by (cases "head_seq (others st) BUDGET_LEDGER_STREAM = lg_head_seq l";
        cases "budget_committed (others st) BUDGET_USAGE_STARTED data") simp_all
qed

lemma started_ledger:
  assumes ok: "store_ok st" and ld: "load_context st = Inr (l, d)" and new: "\<not> operation_exists l op"
    and v: "map_of (lg_usage l) rs = Some v" "ur_status v = Usage_Pending" and data: "reservation_terminal_data op rs = Inr data"
    and led: "stream_of st1 BUDGET_LEDGER_STREAM = stream_of st BUDGET_LEDGER_STREAM @ [appended_event dr (lg_head_seq l + 1) BUDGET_USAGE_STARTED data]"
    and dir: "stream_of st1 AGENT_DIRECTORY_STREAM = stream_of st AGENT_DIRECTORY_STREAM"
  shows "\<exists>l1 w. rebuild_directory (stream_of st1 AGENT_DIRECTORY_STREAM) = Inr d \<and>
    rebuild_ledger (stream_of st1 BUDGET_LEDGER_STREAM) d = Inr l1 \<and> map_of (lg_usage l1) rs = Some w \<and> ur_status w = Usage_Started"
proof -
  let ?f = "Usage_Started_Fact op rs (lg_head_seq l + 1)" and ?ev = "appended_event dr (lg_head_seq l + 1) BUDGET_USAGE_STARTED data"
  have l: "rebuild_directory (stream_of st AGENT_DIRECTORY_STREAM) = Inr d" "rebuild_ledger (stream_of st BUDGET_LEDGER_STREAM) d = Inr l"
    using ld ok by (simp_all add: load_context_Inr)
  have n: "lg_head_seq l = int (length (stream_of st BUDGET_LEDGER_STREAM))" using ledger_log[OF l(2)] by simp
  have ev: "parse_budget_fact ?ev = Inr ?f" using appended_event_parses[of ?f data] data by simp
  have "rebuild_ledger (stream_of st1 BUDGET_LEDGER_STREAM) d = apply_budget_event d l (lg_head_seq l + 1, ?ev)"
    using l(2) n by (simp add: led rebuild_ledger_snoc)
  also have "\<dots> = Inr (stamped (dict_set op (ledger_operation_of ?f ?ev) (lg_operations l)) (lg_head_seq l + 1)
      (put_usage rs (v\<lparr>ur_status := Usage_Started, ur_started_seq := Some (lg_head_seq l + 1)\<rparr>) l))"
    using new v by (simp add: apply_budget_event_fact[OF ev] operation_exists_def apply_usage_started_def)
  finally show ?thesis using l(1) by (simp add: dir put_usage_def stamped_def)
qed

lemma start_usage_started:
  assumes st: "readable st" and h: "honest others" and run: "start_usage dr others op rs st = (st1, Inr u)"
  shows "\<exists>d l1 v. rebuild_directory (stream_of st1 AGENT_DIRECTORY_STREAM) = Inr d \<and>
    rebuild_ledger (stream_of st1 BUDGET_LEDGER_STREAM) d = Inr l1 \<and> map_of (lg_usage l1) rs = Some v \<and> ur_status v = Usage_Started"
proof -
  have ok: "store_ok st" using st by (simp add: readable_def)
  obtain data where data: "reservation_terminal_data op rs = Inr data"
    using run by (cases "reservation_terminal_data op rs") (simp_all add: start_usage_def)
  obtain l d where ld: "load_context st = Inr (l, d)" using st by (auto simp: readable_def is_ok_iff)
  obtain v where v: "map_of (lg_usage l) rs = Some v" "ur_status v = Usage_Pending" and new: "\<not> operation_exists l op"
      and claim: "claim_usage dr others l rs data st = (st1, Inr u)"
    using run by (auto simp: start_usage_def data ld ledger_usage_reservation_def lift_result_def split: if_splits option.splits)
  note won = claim_usage_won[OF ok h claim]
  have "stream_of st1 BUDGET_LEDGER_STREAM =
      stream_of st BUDGET_LEDGER_STREAM @ [appended_event dr (lg_head_seq l + 1) BUDGET_USAGE_STARTED data]"
    "stream_of st1 AGENT_DIRECTORY_STREAM = stream_of st AGENT_DIRECTORY_STREAM"
    using won fresh_view[OF ok h ld] h ok by (simp_all add: budget_append_stream honest_def)
  from started_ledger[OF ok ld new v data this] show ?thesis by blast
qed

lemma start_usage_succeeds:
  assumes st: "readable st" and ld: "load_context st = Inr (l, d)" and new: "\<not> operation_exists l op" and ids: "ident_ok op" "ident_ok rs"
    and v: "map_of (lg_usage l) rs = Some v" "ur_status v = Usage_Pending"
  shows "\<exists>st1 u. start_usage dr (\<lambda>st. st) op rs st = (st1, Inr u) \<and> readable st1"
proof -
  have ok: "store_ok st" using st by (simp add: readable_def)
  obtain data where data: "reservation_terminal_data op rs = Inr data"
    using ids by (simp add: reservation_terminal_data_def budget_id_def require_budget_identifier_def)
  let ?b = "budget_append dr (\<lambda>st. st) (lg_head_seq l) BUDGET_USAGE_STARTED data st" and ?st1 = "fst (start_usage dr (\<lambda>st. st) op rs st)"
  have l: "rebuild_ledger (stream_of st BUDGET_LEDGER_STREAM) d = Inr l" using ld ok by (simp add: load_context_Inr)
  have head: "head_seq st BUDGET_LEDGER_STREAM = lg_head_seq l" using ledger_log[OF l] head_seq_length[OF ok] by simp
  have won: "snd ?b = Inr (Some (appended_event dr (lg_head_seq l + 1) BUDGET_USAGE_STARTED data))"
    using budget_append_result[of "\<lambda>st. st" st, OF ok] head by simp
  then have b: "?b = (fst ?b, Inr (Some (appended_event dr (lg_head_seq l + 1) BUDGET_USAGE_STARTED data)))" by (simp add: prod_eq_iff)
  have run: "start_usage dr (\<lambda>st. st) op rs st =
      abind (reading load_ledger) (\<lambda>updated. lift_result (some_or_assert (ledger_usage_reservation updated rs))) (fst ?b)"
    using data ld new v by (simp add: start_usage_def ledger_usage_reservation_def claim_usage_def
        abind_result[of "budget_append dr (\<lambda>st. st) (lg_head_seq l) BUDGET_USAGE_STARTED data" st, OF b])
  have st1: "?st1 = fst ?b" by (auto simp: run abind_def reading_def lift_result_def split: sum.split)
  have rd: "readable ?st1" using start_usage_readable[where others = "\<lambda>st. st", OF st meanwhile_refl[OF st]] .
  have led: "stream_of ?st1 BUDGET_LEDGER_STREAM =
      stream_of st BUDGET_LEDGER_STREAM @ [appended_event dr (lg_head_seq l + 1) BUDGET_USAGE_STARTED data]"
    "stream_of ?st1 AGENT_DIRECTORY_STREAM = stream_of st AGENT_DIRECTORY_STREAM"
    using head by (simp_all add: st1 budget_append_stream)
  obtain l1 w where l1: "load_context ?st1 = Inr (l1, d)" "map_of (lg_usage l1) rs = Some w"
    using started_ledger[OF ok ld new v data led] rd by (auto simp: readable_def load_context_Inr)
  have "load_context (fst ?b) = Inr (l1, d)" using l1(1) unfolding st1 .
  then have "start_usage dr (\<lambda>st. st) op rs st = (fst ?b, Inr w)"
    using l1(2) unfolding run by (simp add: load_ledger_def ledger_usage_reservation_def some_or_assert_def lift_result_def)
  then show ?thesis using rd unfolding st1 by blast
qed

lemma never_pending_again: "usage_moves\<^sup>*\<^sup>* u v \<Longrightarrow> u \<noteq> Usage_Pending \<Longrightarrow> v \<noteq> Usage_Pending"
  by (induction rule: rtranclp_induct) (auto elim: usage_movesE)

lemma start_usage_refused:
  assumes "load_context st = Inr (l, d)" "map_of (lg_usage l) rs = Some v" "ur_status v \<noteq> Usage_Pending"
  shows "\<exists>e. start_usage dr others op rs st = (st, Inl e)"
  using assms by (cases "reservation_terminal_data op rs") (simp_all add: start_usage_def ledger_usage_reservation_def lift_result_def)

section \<open>Properties\<close>

text \<open>
  C15: no operation breaks the ledger. If the ledger can be rebuilt, it can be rebuilt after any
  of the thirteen operations, accepted or refused, whatever other writers append to any stream
  between the read and the append, the creation of Agents included, as long as they leave the
  ledger readable themselves: what the host checks before it writes is what replay checks after.
  Three operations need their caller to respect what they do not check (\<open>careful\<close>): a child
  reservation may not take the identity of a usage reservation, a usage reservation may not take
  that of a child reservation, and tool calls may not be admitted on an account that is overspent
  in another dimension. Two need a condition on the Agents created during the operation
  (\<open>undisturbed\<close>): while a child is being reserved, no other Agent takes its identity or its
  creation request, and while a reservation is being released, its child is not created.
\<close>

theorem service_keeps_ledger_readable:
  assumes "readable st" "meanwhile st (others st)"
    and "\<forall>l d. load_context st = Inr (l, d) \<longrightarrow> careful c l"
    and "\<forall>l d d1. load_context st = Inr (l, d) \<longrightarrow> load_directory (others st) = Inr d1 \<longrightarrow> undisturbed c l d d1"
  shows "readable (run_command dr others c st)"
  using command_readable[where others = others, OF assms(1,2)] assms(3,4) by blast

text \<open>
  The witness: usage is charged to the root while the child of a pending reservation is created,
  so that the ledger the charge meets has an account more than the one it was decided on.
\<close>

definition young_store :: event_store where
  "young_store = \<lparr>es_streams = [(AGENT_DIRECTORY_STREAM, [sample_root]), (BUDGET_LEDGER_STREAM, map budget_event sample_grant_facts)]\<rparr>"

lemma young_streams [simp]:
  "stream_of young_store sid = (if sid = AGENT_DIRECTORY_STREAM then [sample_root]
     else if sid = BUDGET_LEDGER_STREAM then map budget_event sample_grant_facts else [])"
  "stream_of (budget_store fs) sid = (if sid = AGENT_DIRECTORY_STREAM then sample_directory_events
     else if sid = BUDGET_LEDGER_STREAM then map budget_event fs else [])"
  by (auto simp: young_store_def budget_store_def stream_of_def)

lemma young_store_ok: "store_ok young_store"
  using facts_from_numbered[OF sample_grant_ok(1)]
  by (auto simp: store_ok_def young_store_def dict_ok_def numbered_def budget_event_def sample_root_def)

lemma young_store_readable: "readable young_store"
proof -
  let ?d = "projr (rebuild_directory [sample_root])"
  have "is_ok (rebuild_directory [sample_root])" by code_simp
  then have d: "rebuild_directory [sample_root] = Inr ?d" by (auto simp: is_ok_iff)
  have "is_ok (replay_facts ?d empty_ledger sample_grant_facts)" by code_simp
  then obtain t where "replay_facts ?d empty_ledger sample_grant_facts = Inr t" by (auto simp: is_ok_iff)
  from replayed_rebuild[OF sample_grant_ok(1,2) this] obtain l where "rebuild_ledger (map budget_event sample_grant_facts) ?d = Inr l" by blast
  then have "load_context young_store = Inr (l, ?d)" using d by (simp add: load_context_Inr young_store_ok)
  then show ?thesis by (simp add: readable_def young_store_ok)
qed

lemma young_store_grows: "meanwhile young_store (budget_store sample_grant_facts)"
proof -
  have "\<exists>xs. stream_of (budget_store sample_grant_facts) sid = stream_of young_store sid @ xs" for sid
    by (simp add: sample_directory_events_def)
  then show ?thesis
    unfolding meanwhile_def extends_def using sample_grant_readable by (simp only: readable_def simp_thms)
qed

theorem service_keeps_ledger_readable_witness:
  "readable (run_command (\<lambda>n. (n, sample_time)) (\<lambda>st. budget_store sample_grant_facts)
     (Admit_Usage (lit ''op-9'') (lit ''root'') (no_amounts\<lparr>ba_steps := 1\<rparr>)) young_store) \<and>
   stream_of (budget_store sample_grant_facts) AGENT_DIRECTORY_STREAM \<noteq> stream_of young_store AGENT_DIRECTORY_STREAM"
proof
  show "readable (run_command (\<lambda>n. (n, sample_time)) (\<lambda>st. budget_store sample_grant_facts)
     (Admit_Usage (lit ''op-9'') (lit ''root'') (no_amounts\<lparr>ba_steps := 1\<rparr>)) young_store)"
    by (rule service_keeps_ledger_readable[OF young_store_readable young_store_grows]) simp_all
qed (simp add: sample_directory_events_def)

text \<open>
  An operation writes at most one fact, and never on a stale view. Its ledger stream is
  afterwards the one it read, or the one other writers made of it, or the one it read extended
  by exactly one event; in the last case nobody else had written in between. No other stream is
  touched by the operation itself.
\<close>

theorem one_write_on_fresh_view:
  assumes "readable st" "honest others"
  shows "(let st' = run_command dr others c st; led = (\<lambda>s. stream_of s BUDGET_LEDGER_STREAM) in
      led st' = led st \<or> led st' = led (others st) \<or>
      (led (others st) = led st \<and> (\<exists>ev. led st' = led st @ [ev]))) \<and>
    (\<forall>sid. sid \<noteq> BUDGET_LEDGER_STREAM \<longrightarrow> stream_of (run_command dr others c st) sid \<in> {stream_of st sid, stream_of (others st) sid})"
proof -
  let ?st' = "run_command dr others c st"
  have ok: "store_ok st" using assms(1) by (simp add: readable_def)
  have "touches dr others st ?st'" by (rule command_touches)
  then consider "?st' = st" | l d ty data where "load_context st = Inr (l, d)"
      "?st' = fst (budget_append dr others (lg_head_seq l) ty data st)"
    by (auto simp: touches_def)
  then show ?thesis
  proof cases
    case 2
    have "stream_of (others st) BUDGET_LEDGER_STREAM = stream_of st BUDGET_LEDGER_STREAM"
      if "head_seq (others st) BUDGET_LEDGER_STREAM = lg_head_seq l"
      using fresh_view[OF ok assms(2) 2(1) that] .
    then show ?thesis by (auto simp: 2(2) budget_append_stream Let_def)
  qed simp
qed

theorem one_write_on_fresh_view_witness:
  "let st = budget_store sample_grant_facts;
       st' = run_command (\<lambda>n. (n, sample_time)) (\<lambda>st. st) (Start_Usage (lit ''op-9'') (lit ''us-1'')) st in
   stream_of st' BUDGET_LEDGER_STREAM = stream_of st BUDGET_LEDGER_STREAM \<or>
   (\<exists>ev. stream_of st' BUDGET_LEDGER_STREAM = stream_of st BUDGET_LEDGER_STREAM @ [ev])"
  using one_write_on_fresh_view[OF sample_grant_readable honest_id, of "\<lambda>n. (n, sample_time)" "Start_Usage (lit ''op-9'') (lit ''us-1'')"]
  by (auto simp: Let_def)

text \<open>
  C16: known defect, tool calls. The admission of tool calls looks only at the tool calls that
  remain, while replay checks every dimension of the account. On an account that observed usage
  has taken over its limit in another dimension, with tool calls remaining, the operation
  appends a charge that no replay accepts: the ledger can never be read again.
\<close>

theorem tool_admission_breaks_overspent_ledger:
  assumes st: "readable st" and ld: "load_context st = Inr (l, d)" and new: "\<not> operation_exists l op"
    and ids: "ident_ok op" "ident_ok a" and k: "1 \<le> k" "k \<le> MAX_BUDGET_VALUE"
    and acc: "ledger_account l a = Some acc" "bac_status acc = Account_Open" "overspent acc"
    and tools: "bl_max_tool_calls (bac_limits acc) = Some m" "ba_tool_calls (account_used acc) < m"
  shows "load_context (run_command dr (\<lambda>st. st) (Admit_Tool_Calls op a k) st) =
    Inl (BudgetProtocolError ''budget-capacity-exceeded'' (lg_head_seq l + 1))"
proof -
  have ok: "store_ok st" using st by (simp add: readable_def)
  let ?x = "min k (m - ba_tool_calls (account_used acc))"
  let ?m = "no_amounts\<lparr>ba_tool_calls := ?x\<rparr>" and ?n = "lg_head_seq l + 1"
  let ?f = "Usage_Charged op a ?m ADMISSION None ?n"
  have x: "0 < ?x" "?x \<le> MAX_BUDGET_VALUE" using k tools(2) by auto
  obtain lim where av: "available l a = Inr lim" "bl_max_tool_calls lim = Some (m - ba_tool_calls (account_used acc))"
    using acc tools by (simp add: available_def require_open_account_def Let_def remaining_def)
  have "\<exists>data. budget_fact_data ?f = Inr data"
    using ids x by (auto simp: usage_charged_data_def result_simps freeze_amounts_def amounts_to_data_def budget_id_def
        require_budget_identifier_def amount_values_def no_amounts_def)
  then obtain data where data: "budget_fact_data ?f = Inr data" by blast
  have nc: "ledger_charge l op = None"
    using loaded_whole[OF st ld] new by (auto simp: ledger_whole_def ledger_live_def ledger_inv_def ledger_charge_def
        operation_exists_def dict_has_def)
  have "run_command dr (\<lambda>st. st) (Admit_Tool_Calls op a k) st = fst (append_tool_charge dr (\<lambda>st. st) l op a ?x st)"
    using ids k nc new ld av x
    by (simp add: admit_tool_calls_def budget_id_def require_budget_identifier_def raise_if_def admit_remaining_def Let_def)
  also have "\<dots> = fst (budget_append dr (\<lambda>st. st) (lg_head_seq l) BUDGET_USAGE_CHARGED data st)"
    using data by (simp add: append_tool_charge_def fst_abind_project)
  finally have run: "run_command dr (\<lambda>st. st) (Admit_Tool_Calls op a k) st =
    fst (budget_append dr (\<lambda>st. st) (lg_head_seq l) BUDGET_USAGE_CHARGED data st)" .
  have over: "list_ex (over_limit acc ?m) consumable_dimensions"
    using acc(3) x(1)
    by (auto simp: overspent_def over_limit_def consumable_dimensions_def no_amounts_def split: option.splits)
  have "\<not> inactive_charge (bac_limits acc) ?m"
    using tools(1) by (simp add: inactive_charge_def consumable_dimensions_def no_amounts_def)
  then have "apply_fact d ?f l = Inl (BudgetProtocolError ''budget-capacity-exceeded'' ?n)"
    using acc over by (simp add: apply_usage_charged_def open_account_or_def account_or_def ledger_account_def
        ensure_capacity_def raise_if_def budget_error_def)
  then show ?thesis
    unfolding run using refused_append[OF ok ld, of ?f data "''budget-capacity-exceeded''" dr] new data by simp
qed

theorem tool_admission_breaks_overspent_ledger_witness:
  "\<exists>n. load_context (run_command (\<lambda>n. (n, sample_time)) (\<lambda>st. st) (Admit_Tool_Calls (lit ''op-9'') (lit ''root'') 1)
    (budget_store sample_overspent_facts)) = Inl (BudgetProtocolError ''budget-capacity-exceeded'' n)"
proof -
  obtain ops where ld: "load_context (budget_store sample_overspent_facts) = Inr (stamped ops (int (length sample_overspent_facts))
      (projr (replay_facts sample_directory empty_ledger sample_overspent_facts)), sample_directory)" (is "_ = Inr (?l, _)")
    using budget_store_load[OF sample_overspent_ok] by blast
  have rd: "readable (budget_store sample_overspent_facts)"
    using ld budget_store_ok[OF sample_overspent_ok(1)] by (auto simp: readable_def)
  have "\<forall>f \<in> set sample_overspent_facts. is_ok (budget_fact_data f)" by code_simp
  then have "lit ''op-9'' \<in> fact_operation_id ` set sample_overspent_facts" if "operation_exists ?l (lit ''op-9'')"
    using budget_store_operations[OF sample_overspent_ok(1) _ ld that] by simp
  then have new: "\<not> operation_exists ?l (lit ''op-9'')"
    by (auto simp: sample_overspent_facts_def lit_def)
  show ?thesis
    by (intro exI, rule tool_admission_breaks_overspent_ledger[OF rd ld new, where m = 5]) code_simp+
qed

text \<open>
  C17: known defect, usage reservation identities. The reservation of usage looks for its identity
  among usage reservations only, while replay requires it to be new among child reservations as
  well. Any usage reservation the operation would accept, made under the identity of an existing
  child reservation, is appended and leaves a ledger that can never be read again.
\<close>

theorem usage_identity_breaks_ledger:
  assumes st: "readable st" and ld: "load_context st = Inr (l, d)" and new: "\<not> operation_exists l op"
    and data: "freeze_amounts m True = Inr frozen" "is_ok (usage_reserved_data op rs a frozen)"
    and room: "ensure_usage_reservation_capacity l a frozen = Inr ()"
    and child: "ledger_reservation l rs \<noteq> None" and unused: "ledger_usage_reservation l rs = None"
  shows "load_context (run_command dr (\<lambda>st. st) (Reserve_Usage op rs a m) st) =
    Inl (BudgetProtocolError ''budget-reservation-duplicate'' (lg_head_seq l + 1))"
proof -
  have ok: "store_ok st" using st by (simp add: readable_def)
  obtain data where d: "usage_reserved_data op rs a frozen = Inr data" using data(2) by (auto simp: is_ok_iff)
  let ?f = "Usage_Reserved op rs a frozen (lg_head_seq l + 1)"
  have run: "run_command dr (\<lambda>st. st) (Reserve_Usage op rs a m) st =
      fst (budget_append dr (\<lambda>st. st) (lg_head_seq l) BUDGET_USAGE_RESERVED data st)"
    using data(1) d ld new room unused by (simp add: reserve_usage_def append_once_writes)
  obtain acc where "require_open_account l a = Inr acc"
    using room by (auto simp: ensure_usage_reservation_capacity_def ensure_charge_capacity_def result_simps split: if_splits)
  then have "open_account_or (lg_accounts l) a (lg_head_seq l + 1) = Inr acc"
    by (auto simp: require_open_account_def open_account_or_def account_or_def ledger_account_def raise_if_def
        split: option.splits if_splits)
  then have "apply_fact d ?f l = Inl (BudgetProtocolError ''budget-reservation-duplicate'' (lg_head_seq l + 1))"
    using child by (simp add: apply_usage_reserved_def budget_error_def ledger_reservation_def dict_has_def)
  then show ?thesis
    unfolding run using refused_append[OF ok ld, of ?f data "''budget-reservation-duplicate''" dr] new d by simp
qed

theorem usage_identity_breaks_ledger_witness:
  "\<exists>n. load_context (run_command (\<lambda>n. (n, sample_time)) (\<lambda>st. st)
     (Reserve_Usage (lit ''op-9'') (lit ''rs-1'') (lit ''root'') (no_amounts\<lparr>ba_tokens := 1\<rparr>)) (budget_store sample_grant_facts)) =
   Inl (BudgetProtocolError ''budget-reservation-duplicate'' n)"
proof -
  obtain ops where ld: "load_context (budget_store sample_grant_facts) = Inr (stamped ops (int (length sample_grant_facts))
      (projr (replay_facts sample_directory empty_ledger sample_grant_facts)), sample_directory)" (is "_ = Inr (?l, _)")
    using budget_store_load[OF sample_grant_ok] by blast
  have "\<forall>f \<in> set sample_grant_facts. is_ok (budget_fact_data f)" by code_simp
  then have "lit ''op-9'' \<in> fact_operation_id ` set sample_grant_facts" if "operation_exists ?l (lit ''op-9'')"
    using budget_store_operations[OF sample_grant_ok(1) _ ld that] by simp
  then have new: "\<not> operation_exists ?l (lit ''op-9'')"
    by (auto simp: sample_grant_facts_def sample_ledger_facts_def sample_charge_fact_def)
  show ?thesis
    by (intro exI, rule usage_identity_breaks_ledger[OF sample_grant_readable ld new]) code_simp+
qed

text \<open>
  Known defect, child reservation identities. The mirror case: the reservation of a child looks
  for its identity among child reservations only, while replay requires it to be new among usage
  reservations as well. Any child reservation the operation would accept, made under the identity
  of an existing usage reservation, is appended and leaves a ledger that can never be read again.
\<close>

theorem reservation_identity_breaks_ledger:
  assumes st: "readable st" and ld: "load_context st = Inr (l, d)" and new: "\<not> operation_exists l op"
    and data: "freeze_limits lim ''child_limits'' = Inr frozen" "is_ok (child_reserved_data op rs p c q frozen k (json_int_opt i))"
    and free: "ledger_reservation l rs = None" "ledger_account l c = None" "reservation_identity_available l c q"
      "directory_get d c = None" "directory_for_request d q = None"
    and room: "is_ok (ensure_reservation_capacity l p lim k (json_int_opt i))"
    and usage: "ledger_usage_reservation l rs \<noteq> None"
  shows "load_context (run_command dr (\<lambda>st. st) (Reserve_Child op rs p c q lim k i) st) =
    Inl (BudgetProtocolError ''budget-reservation-duplicate'' (lg_head_seq l + 1))"
proof -
  have ok: "store_ok st" using st by (simp add: readable_def)
  obtain data where dt: "child_reserved_data op rs p c q frozen k (json_int_opt i) = Inr data" using data(2) by (auto simp: is_ok_iff)
  have frozen: "frozen = lim" using data(1) by (simp add: freeze_limits_Inr)
  obtain debit where cap: "ensure_reservation_capacity l p lim k (json_int_opt i) = Inr debit" using room by (auto simp: is_ok_iff)
  let ?f = "Child_Reserved \<lparr>crf_operation_id = op, crf_reservation_id = rs, crf_parent_agent_id = p, crf_child_agent_id = c,
        crf_creation_request_id = q, crf_child_limits = lim, crf_retained_tokens = k,
        crf_initial_tokens = json_int_opt i, crf_seq = lg_head_seq l + 1\<rparr>"
  have run: "run_command dr (\<lambda>st. st) (Reserve_Child op rs p c q lim k i) st =
      fst (budget_append dr (\<lambda>st. st) (lg_head_seq l) BUDGET_CHILD_RESERVED data st)"
    using data(1) dt ld new free cap by (simp add: reserve_child_def append_once_writes)
  obtain acc where "require_open_account l p = Inr acc"
    using cap by (auto simp: ensure_reservation_capacity_def Let_def rbind_eq_Inr)
  then have "open_account_or (lg_accounts l) p (lg_head_seq l + 1) = Inr acc"
    by (auto simp: require_open_account_def open_account_or_def account_or_def ledger_account_def raise_if_def
        split: option.splits if_splits)
  then have "apply_fact d ?f l = Inl (BudgetProtocolError ''budget-reservation-duplicate'' (lg_head_seq l + 1))"
    using usage free(1) by (simp add: apply_child_reserved_def reservation_conflict_def budget_error_def ledger_reservation_def
        ledger_usage_reservation_def dict_has_def Let_def)
  then show ?thesis
    unfolding run using refused_append[OF ok ld, of ?f data "''budget-reservation-duplicate''" dr] new dt frozen by simp
qed

text \<open>
  An operation can be retried for ever. Once an operation has succeeded, repeating it with the
  same identity and payload, however much the ledger has grown since, writes nothing and answers
  from the current ledger; the same identity with another payload or another kind of fact is
  refused as a conflict and writes nothing.
\<close>

theorem retry_is_recognised:
  assumes "readable st" "load_context st = Inr (l, d)"
    and "budget_fact_data f = Inr data" "fact_seq f = lg_head_seq l + 1"
    and "append_once dr (\<lambda>st. st) (fact_operation_id f) (budget_event_type f) data check project st = (st1, Inr v)"
    and "readable st2" "load_context st2 = Inr (l2, d2)"
    and "stream_of st2 BUDGET_LEDGER_STREAM = stream_of st1 BUDGET_LEDGER_STREAM @ xs"
  shows "append_once dr2 others2 (fact_operation_id f) ty2 data2 check2 project2 st2 =
    (st2, if ty2 = budget_event_type f \<and> canonical_json (JDict data2) = canonical_json (JDict data)
          then project2 l2 else Inl BudgetOperationConflictError)"
proof -
  have "on_record st1 (fact_operation_id f) (budget_event_type f) data"
    using assms(1) by (intro append_once_on_record[OF _ assms(2-5)]) (simp add: readable_def)
  then have "on_record st2 (fact_operation_id f) (budget_event_type f) data"
    using assms(8) logged_append by (fastforce simp: on_record_def)
  then show ?thesis using assms(6) by (intro on_record_answer[OF _ _ assms(7)]) (simp_all add: readable_def)
qed

theorem retry_is_recognised_witness:
  "let st = budget_store sample_grant_facts in
   \<exists>data l. append_once (\<lambda>n. (n, sample_time)) (\<lambda>st. st) (lit ''op-0'') BUDGET_ROOT_GRANTED data (\<lambda>_ _. Inr ())
     (\<lambda>l. some_or_assert (ledger_account l (lit ''root''))) st = (st, some_or_assert (ledger_account l (lit ''root'')))"
proof -
  let ?st = "budget_store sample_grant_facts" and ?f = "Root_Granted (lit ''op-0'') (lit ''root'') sample_limits 4"
  obtain l where ld: "load_context ?st = Inr (l, sample_directory)" "lg_head_seq l = 3"
    using budget_store_load[OF sample_grant_ok] by (auto simp: stamped_def sample_grant_facts_def sample_ledger_facts_def)
  have ok: "store_ok ?st" using sample_grant_readable by (simp add: readable_def)
  have f0: "sample_grant_facts ! 0 = Root_Granted (lit ''op-0'') (lit ''root'') sample_limits 1"
    by (simp add: sample_grant_facts_def sample_ledger_facts_def)
  have "is_ok (budget_fact_data (sample_grant_facts ! 0))" by code_simp
  then obtain data where data: "budget_fact_data (sample_grant_facts ! 0) = Inr data" by (auto simp: is_ok_iff)
  have d4: "budget_fact_data ?f = Inr data" "fact_seq ?f = lg_head_seq l + 1" using data f0 ld(2) by simp_all
  have "parse_budget_fact (budget_event (sample_grant_facts ! 0)) = Inr (sample_grant_facts ! 0)"
    using data by (intro budget_event_parses[THEN conjunct1]) (simp add: is_ok_iff)
  then have "logged (map budget_event sample_grant_facts) (lit ''op-0'') (ledger_operation_of (sample_grant_facts ! 0) (budget_event (sample_grant_facts ! 0)))"
    unfolding logged_def by (intro exI[of _ 0] exI[of _ "sample_grant_facts ! 0"]) (simp add: f0 sample_grant_facts_def sample_ledger_facts_def)
  then have rec: "on_record ?st (lit ''op-0'') BUDGET_ROOT_GRANTED data"
    using data by (auto simp: on_record_def ledger_operation_of_def f0 budget_event_def)
  have first: "append_once (\<lambda>n. (n, sample_time)) (\<lambda>st. st) (lit ''op-0'') BUDGET_ROOT_GRANTED data (\<lambda>_ _. Inr ()) (\<lambda>_. Inr ()) ?st = (?st, Inr ())"
    by (simp only: on_record_answer[OF rec ok ld(1)] simp_thms if_True)
  have "append_once (\<lambda>n. (n, sample_time)) (\<lambda>st. st) (fact_operation_id ?f) BUDGET_ROOT_GRANTED data (\<lambda>_ _. Inr ())
      (\<lambda>l. some_or_assert (ledger_account l (lit ''root''))) ?st =
    (?st, if BUDGET_ROOT_GRANTED = budget_event_type ?f \<and> canonical_json (JDict data) = canonical_json (JDict data)
      then some_or_assert (ledger_account l (lit ''root'')) else Inl BudgetOperationConflictError)"
    by (rule retry_is_recognised[OF sample_grant_readable ld(1) d4 _ sample_grant_readable ld(1)],
      simp only: fact_operation_id.simps budget_event_type.simps, rule first, rule append_Nil2[symmetric])
  then show ?thesis
    unfolding Let_def by (intro exI) (simp only: fact_operation_id.simps budget_event_type.simps simp_thms if_True)
qed

text \<open>
  A usage reservation is started once. Whoever starts a usage reservation, under any
  interference of other writers, is the only one ever to do so: as long as the ledger only grows,
  every later attempt, under any operation identity, is refused and writes nothing, so the
  external call that the reservation pays for has one owner.
\<close>

theorem start_usage_once:
  assumes "readable st" "honest others" "start_usage dr others op rs st = (st1, Inr u)"
    and "readable st2" "stream_of st2 BUDGET_LEDGER_STREAM = stream_of st1 BUDGET_LEDGER_STREAM @ xs"
    and "stream_of st2 AGENT_DIRECTORY_STREAM = stream_of st1 AGENT_DIRECTORY_STREAM"
  shows "\<exists>e. start_usage dr2 others2 op2 rs st2 = (st2, Inl e)"
proof -
  obtain d l1 v where v: "rebuild_directory (stream_of st1 AGENT_DIRECTORY_STREAM) = Inr d"
    "rebuild_ledger (stream_of st1 BUDGET_LEDGER_STREAM) d = Inr l1" "map_of (lg_usage l1) rs = Some v" "ur_status v = Usage_Started"
    using start_usage_started[OF assms(1-3)] by blast
  obtain l2 d2 where ld: "load_context st2 = Inr (l2, d2)" using assms(4) by (auto simp: readable_def is_ok_iff)
  then have "d2 = d" "rebuild_ledger (stream_of st1 BUDGET_LEDGER_STREAM @ xs) d = Inr l2"
    using assms(4-6) v(1) by (auto simp: readable_def load_context_Inr)
  then have "ledger_evolves l1 l2" using rebuild_ledger_evolves v(2) by fastforce
  then have "dict_evolves usage_evolves (lg_usage l1) (lg_usage l2)" by (simp add: ledger_evolves_def)
  then have "\<exists>w. map_of (lg_usage l2) rs = Some w \<and> usage_evolves v w" using v(3) by (simp add: dict_evolves_def)
  then obtain w where w: "map_of (lg_usage l2) rs = Some w" "usage_moves\<^sup>*\<^sup>* Usage_Started (ur_status w)"
    using v(4) by (auto simp: usage_evolves_def)
  have "ur_status w \<noteq> Usage_Pending"
    using never_pending_again[OF w(2)] by simp
  then show ?thesis using start_usage_refused[OF ld w(1)] by blast
qed

definition sample_reserved_facts :: "budget_fact list" where
  "sample_reserved_facts = take 4 sample_ledger_facts"

lemma sample_reserved_ok:
  "facts_from 1 sample_reserved_facts" "distinct (map fact_operation_id sample_reserved_facts)"
  "is_ok (replay_facts sample_directory empty_ledger sample_reserved_facts)"
  by code_simp+

theorem reservation_identity_breaks_ledger_witness:
  "\<exists>n. load_context (run_command (\<lambda>n. (n, sample_time)) (\<lambda>st. st)
     (Reserve_Child (lit ''op-9'') (lit ''us-1'') (lit ''root'') (lit ''a2'') (lit ''r2'') (sample_limits\<lparr>bl_max_tokens := Some 1,
        bl_max_steps := Some 1, bl_max_wall_milliseconds := Some 1, bl_max_children := Some 0, bl_max_depth := Some 0\<rparr>) 0 None)
     (budget_store sample_reserved_facts)) = Inl (BudgetProtocolError ''budget-reservation-duplicate'' n)"
proof -
  obtain ops where ld: "load_context (budget_store sample_reserved_facts) = Inr (stamped ops (int (length sample_reserved_facts))
      (projr (replay_facts sample_directory empty_ledger sample_reserved_facts)), sample_directory)" (is "_ = Inr (?l, _)")
    using budget_store_load[OF sample_reserved_ok] by blast
  have rd: "readable (budget_store sample_reserved_facts)"
    using ld budget_store_ok[OF sample_reserved_ok(1)] by (auto simp: readable_def)
  have "\<forall>f \<in> set sample_reserved_facts. is_ok (budget_fact_data f)" by code_simp
  then have "lit ''op-9'' \<in> fact_operation_id ` set sample_reserved_facts" if "operation_exists ?l (lit ''op-9'')"
    using budget_store_operations[OF sample_reserved_ok(1) _ ld that] by simp
  then have new: "\<not> operation_exists ?l (lit ''op-9'')"
    by (auto simp: sample_reserved_facts_def sample_ledger_facts_def sample_charge_fact_def)
  show ?thesis
    by (intro exI, rule reservation_identity_breaks_ledger[OF rd ld new]) code_simp+
qed

theorem start_usage_once_witness:
  "\<exists>st1 u e. start_usage (\<lambda>n. (n, sample_time)) (\<lambda>st. st) (lit ''op-9'') (lit ''us-1'') (budget_store sample_reserved_facts) = (st1, Inr u) \<and>
     start_usage (\<lambda>n. (n, sample_time)) (\<lambda>st. st) (lit ''op-10'') (lit ''us-1'') st1 = (st1, Inl e)"
proof -
  let ?st = "budget_store sample_reserved_facts" and ?t = "projr (replay_facts sample_directory empty_ledger sample_reserved_facts)"
  obtain ops where ld: "load_context ?st = Inr (stamped ops (int (length sample_reserved_facts)) ?t, sample_directory)" (is "_ = Inr (?l, _)")
    using budget_store_load[OF sample_reserved_ok] by blast
  have rd: "readable ?st" using ld budget_store_ok[OF sample_reserved_ok(1)] by (auto simp: readable_def)
  have "\<forall>f \<in> set sample_reserved_facts. is_ok (budget_fact_data f)" by code_simp
  then have "lit ''op-9'' \<in> fact_operation_id ` set sample_reserved_facts" if "operation_exists ?l (lit ''op-9'')"
    using budget_store_operations[OF sample_reserved_ok(1) _ ld that] by simp
  then have new: "\<not> operation_exists ?l (lit ''op-9'')"
    by (auto simp: sample_reserved_facts_def sample_ledger_facts_def sample_charge_fact_def)
  have "\<exists>v. map_of (lg_usage ?t) (lit ''us-1'') = Some v \<and> ur_status v = Usage_Pending"
    by (rule exI[of _ "the (map_of (lg_usage ?t) (lit ''us-1''))"]) code_simp
  then obtain v where v: "map_of (lg_usage ?l) (lit ''us-1'') = Some v" "ur_status v = Usage_Pending" by (auto simp: stamped_def)
  have ids: "ident_ok (lit ''op-9'')" "ident_ok (lit ''us-1'')" by code_simp+
  obtain st1 u where run: "start_usage (\<lambda>n. (n, sample_time)) (\<lambda>st. st) (lit ''op-9'') (lit ''us-1'') ?st = (st1, Inr u)" "readable st1"
    using start_usage_succeeds[OF rd ld new ids v] by blast
  then show ?thesis using start_usage_once[OF rd honest_id run(1) run(2), of "[]"] by fastforce
qed

end
