(* ===== verification/Spec2Isabelle.thy ===== *)
theory Spec2Isabelle imports Event_Store Control_Plane Workflow_Properties Agent_Authority Lifecycle_Coordinator Workflow_Races Budget_Service_Properties begin

text \<open>
  A verification library of traceHarness, the event-sourced control plane under src/traceh (the
  paths below are relative to that directory).

  \<^bold>\<open>The program.\<close> A host runs Agents that talk to language models. What the host decides is
  not kept in memory: every decision is a fact, an event appended to a stream of one durable log.
  A component is a vocabulary of facts with one writer per payload and one parser, a projector
  that folds the events of its stream into an immutable view or refuses the stream, and a service
  that loads the view, decides, and appends one fact at the head it read. Two writers never share
  a lock: an append at a stale head is refused, and the loser reads the stream again to learn
  whether its fact is there after all. The components build on each other: an Inbox needs an Agent
  of the directory, a delivery claims the messages of an Inbox in order, a budget account belongs
  to an Agent and lies under its owner's account, the owners make the tree along which Agents are
  disposed of and may act on each other, and a workflow run is a stream of its own whose nodes
  create Agents, send them messages and wait for human approvals. A patch an Agent has made is
  reviewed, approved by a human who repeats the digest of the review, and promoted by moving a Git
  ref; the ledger of these facts is where a workflow finds the approval it waits for.

  \<^bold>\<open>Theories and sources.\<close>
  \<^item> \<open>Prelude\<close>: results as sums, folds of fallible steps, Python dictionaries in insertion order,
    and the locales \<open>replay\<close> (a projector with an invariant) and \<open>issue_scan\<close> (a projector that
    collects issues and accepts when there are none). \<open>Errors\<close>: the exception classes.
  \<^item> \<open>Text_Safety\<close> (cli/text_safety.py), \<open>Json_Values\<close> and \<open>Canonical_Json\<close> (api/json_types.py),
    \<open>Events\<close> (api/events.py).
  \<^item> \<open>Event_Store\<close> (session/event_store.py): the store and the locale \<open>event_log\<close>, which states
    what its clients rely on. \<open>Transactions\<close>: actions on a store, the append of one fact under
    interference (agents/commit_reconciliation.py) and the locale \<open>fact_log\<close> of its clients.
  \<^item> \<open>Agent_Identity\<close>, \<open>Agent_Directory\<close>, \<open>Agent_Registrar\<close> (agents/identity.py, directory.py,
    registrar.py and the values of api/agents.py): creation of Agents.
  \<^item> \<open>Inbox_Identity\<close>, \<open>Agent_Inbox\<close>, \<open>Inbox_Service\<close> (agents/inbox_identity.py, inbox.py,
    inbox_service.py): acceptance of messages.
  \<^item> \<open>Delivery_Identity\<close>, \<open>Delivery\<close>, \<open>Delivery_Service\<close> (supervision/delivery_identity.py,
    delivery.py, delivery_service.py): claims and their outcomes. \<open>Control_Plane\<close>: the three
    services together: the states of the log that their commands leave behind, each decided on
    the log of any earlier moment.
  \<^item> \<open>Budget_Types\<close>, \<open>Budget_Events\<close>, \<open>Budget_Projection\<close> (api/budgets.py, budgets/events.py,
    projection.py): the ledger. \<open>Budget_Steps\<close>, \<open>Budget_Balance\<close>, \<open>Budget_Limits\<close>,
    \<open>Budget_Conservation\<close>, \<open>Budget_Replay\<close>, \<open>Budget_Evolution\<close>: what its steps keep and how it
    grows; \<open>Budget_Growth\<close>: how a ledger reads beside a directory that has grown.
    \<open>Budget_Service\<close> (budgets/service.py) with \<open>Budget_Admission\<close> and \<open>Budget_Safety\<close>;
    \<open>Budget_Properties\<close> and \<open>Budget_Service_Properties\<close> hold the statements.
  \<^item> \<open>Lifecycle\<close>, \<open>Lifecycle_Coordinator\<close> (supervision/lifecycle.py), \<open>Agent_Authority\<close>
    (supervision/authority.py): the ownership tree, the order of cleanup, the scopes of disposals
    and who may act on whom.
  \<^item> \<open>Promotion_Values\<close> (api/promotion.py, promotion/models.py), \<open>Promotion_Events\<close>
    (promotion/events.py), \<open>Promotion_Ledger\<close> (promotion/projection.py): reviews, approvals and
    promotions. \<open>Promotion_Chain\<close>: what the chain of facts is worth. \<open>Promotion_Service\<close>
    (promotion/service.py) with \<open>Promotion_Writes\<close>, which also holds the locale \<open>growth\<close> (a
    relation between states that the calls of a transaction keep), \<open>Promotion_Accepted\<close> and
    \<open>Promotion_Safety\<close>; \<open>Promotion_Samples\<close> applies the statements to a concrete host.
  \<^item> \<open>Workflow_Models\<close>, \<open>Workflow_Graph\<close> (api/workflow.py, workflow/models.py), \<open>Workflow_Events\<close>
    (workflow/events.py), \<open>Workflow_Projection\<close>, \<open>Workflow_Run\<close>, \<open>Workflow_Refinement\<close>,
    \<open>Workflow_Properties\<close> (workflow/projection.py): definitions and runs. \<open>Workflow_Execution\<close>
    (workflow/execution.py): what a node does. \<open>Workflow_Service\<close> (workflow/service.py): the
    coordinator, with \<open>Workflow_Advance\<close>, \<open>Workflow_Rounds\<close>, \<open>Workflow_Liveness\<close> and
    \<open>Workflow_Races\<close>.

  \<^bold>\<open>How the code is read.\<close> A dataclass is a record, an enumeration a datatype, a \<open>str\<close> the list
  of its code points, an integer an \<open>int\<close> (Python's do not overflow; the bounds the code puts on
  them are checks of the model), a dictionary an association list in insertion order. A function
  that may raise returns a sum whose left side is the exception, with its code and arguments, and
  the checks stand in the order of the source, so the first error is the same. A projector is a
  fold of its loop body. A service call is an action: it takes the store to a new store and a
  result. What it reads at once, it reads from one store; what other writers do before its append
  is an argument, \<open>others\<close>, about which a lemma assumes only that it extends the log, or that
  it extends the log and leaves the streams of its component readable. An argument stands for what is not in the code or not determined by
  it: SHA-256, drawn UUIDs and times, the tables of the Unicode database that the code asks.

  \<^bold>\<open>What is shown.\<close>
  \<^item> The store: an append is a compare-and-append, histories only grow, and of the writers that
    read one head one wins.
  \<^item> Vocabularies: what a writer admits, the parser reads back, but for two conditions on the
    results of a review that its writer does not check; what the parser admits is well
    formed; canonical texts tell values apart.
  \<^item> Projectors: uniqueness, order and finality of the facts of the directory, Inboxes and
    deliveries; equivalence of the Inbox projector with its reference definition; a claim for the
    offered message is accepted.
  \<^item> Ledger: balances are sums over facts, accounts stay within limits but for what was observed
    after the fact, delegation creates nothing, the arithmetic cannot fail but for the initial token
    grant that the parser leaves unchecked, what is final stays.
  \<^item> Services: one request creates one Agent, one identity one message, one claim one owner; a
    retry writes nothing; a usage reservation is started once; and every log that concurrent
    calls leave behind is accepted by every projector. Five ways in which an accepted write
    leaves a stream that no projector accepts are proved as such: three of the budget service (tool
    calls on an overspent account, and a reservation under an identity of the other kind, both
    ways), a claim under an identity that was used before, and the retry of a workflow append
    after a lost race. The statements of safety name these cases: \<open>careful\<close>, \<open>draws_fresh\<close>.
  \<^item> Ownership: the loops end on every accepted directory, cleanup is child-first and complete,
    an Agent acts on its strict descendants only, and a disposal fences exactly its subtree.
  \<^item> Promotion: a promotion stands on exactly one approval of one passed review, and the digest a
    human repeats binds everything the decision rests on; the service never breaks its ledger
    short of a collision of such digests; an approval that is answered was earned; and promoting
    moves no ref but the one of the approved review, from the revision it was reviewed at to the
    commit that was verified.
  \<^item> Workflows: freezing accepts exactly the bounded DAGs whose references are in order; the
    projector refines an abstract orchestration machine, one step per event; no DAG deadlocks once
    its maps are expanded; a completed run is whole, with a human approval behind every approval node, which is an approval of the promotion
    ledger for the review of the run; what an executor reports, the
    projector accepts; and starting or resuming a run returns, under any interference, with an
    error or a run that has finished or waits for a human.

  \<^bold>\<open>Loops.\<close> A loop over data is structural recursion. A loop with a bound of its own is a function
  with a measure: an append has at most \<open>MAX_APPEND_ATTEMPTS\<close>, eight, attempts, and the graph walks of
  a definition consume unseen nodes. The loops that the code leaves unbounded are partial
  functions with values in an option type: \<open>lineage_walk\<close>, \<open>postorder_walk\<close> and \<open>run_loop\<close>. That
  they return is proved: the first two on every directory that can be rebuilt, and the third
  because every round leaves fewer unexpanded maps, or as many and fewer nodes that have not
  started. There is no fuel.

  \<^bold>\<open>Assumptions.\<close> The store is the in-memory store of the repository; a durable store is assumed to
  keep the same contract. Reading a stream does not fail. One call is one critical section where
  the code holds a lock or does not await. The concurrent nodes of a round run one after the
  other; what they do to the log in between belongs to the actions of the services they call.
  Those services, the supervisor, capture, review and the resolver of bindings, are arguments of
  the executor, and the coordinator's return rests on their actions only extending the log. The Git
  engine of promotion, the artifact reader, the target resolver, the verification runner and the
  check of its sandbox receipts are arguments too; a lemma assumes of them only that they keep the
  log readable, or that compare-and-swap behaves as \<open>git update-ref\<close> with an old value and the
  other calls leave the refs alone.

  \<^bold>\<open>Not modelled.\<close> Asyncio itself: tasks, cancellation in the middle of a call, closing, and the
  tables by which one process shares a running workflow or promotion call. The checks on the
  Python type of values whose dataclass fixes it. SQLite and file locks, context compaction and retrieval
  (session), the model loop (runtime, llm, kernel), tools, plugins, sandboxes, Git worktrees and
  patches and the Git engine of promotion (workspaces, artifacts, promotion/local_git.py and
  promotion/verification.py), evaluation and evolution, memory, the
  product assembly and the user interfaces (product, chat, cli, tui, inspector): they are I/O around
  these streams or keep ledgers of their own in the same style, and the decisions modelled here do
  not depend on them but through the arguments named above.
\<close>

end
